(* ===== verification/Prelude.thy ===== *)
theory Prelude
  imports Complex_Main "HOL-Library.Word"
begin

text \<open>
  Shared vocabulary of the development: the C integer types, the result type of
  operations that can fault, and generic lemmas on lists, words and bits that
  several components use.

  \<^item> \<open>u8\<close>, \<open>u32\<close>, \<open>u64\<close> are the fixed-width unsigned integers of \<^verbatim>\<open>stdint.h\<close>.
  \<^item> C strings are HOL strings without the terminating NUL; \<open>cstr\<close> says that no
    NUL occurs inside.
  \<^item> A fault is an access the C program must not make (a NULL dereference, a write
    past the end of a heap block, a failed assertion); an operation that can fault
    returns \<open>fault + 'a\<close>.
\<close>

unbundle bit_operations_syntax

type_synonym u8 = "8 word"
type_synonym u32 = "32 word"
type_synonym u64 = "64 word"
type_synonym bytes = "u8 list"
type_synonym time_t = int

named_theorems state_simps \<open>unfolding of state accessors and updates\<close>
named_theorems frame \<open>what an operation leaves unchanged\<close>
named_theorems inv_intro \<open>preservation of component invariants\<close>

datatype fault =
    NullDeref
  | OutOfBounds
  | HeapOverflow
  | AssertFail
  | TypePun
  | UseAfterFree

type_synonym 'a res = "fault + 'a"

abbreviation Ok :: "'a \<Rightarrow> 'a res" where "Ok \<equiv> Inr"
abbreviation Fault :: "fault \<Rightarrow> 'a res" where "Fault \<equiv> Inl"

fun rbind :: "'a res \<Rightarrow> ('a \<Rightarrow> 'b res) \<Rightarrow> 'b res" where
  "rbind (Inl e) f = Inl e"
| "rbind (Inr a) f = f a"

lemma rbind_Ok_iff: "rbind x f = Ok b \<longleftrightarrow> (\<exists>a. x = Ok a \<and> f a = Ok b)"
  by (cases x) auto

lemma rbind_OkE:
  assumes "rbind x f = Ok b"
  obtains a where "x = Ok a" "f a = Ok b"
  using assms by (auto simp: rbind_Ok_iff)

subsection \<open>C strings\<close>

definition cstr :: "string \<Rightarrow> bool" where
  "cstr s \<longleftrightarrow> CHR 0x00 \<notin> set s"

definition c_truncate :: "nat \<Rightarrow> string \<Rightarrow> string" where
  "c_truncate n s = take n (takeWhile (\<lambda>c. c \<noteq> CHR 0x00) s)"

lemma c_truncate_id:
  assumes "cstr s" "length s \<le> n"
  shows "c_truncate n s = s"
proof -
  have "takeWhile (\<lambda>c. c \<noteq> CHR 0x00) s = s"
    using assms(1) by (auto simp: cstr_def takeWhile_eq_all_conv)
  then show ?thesis using assms(2) unfolding c_truncate_def by (metis take_all)
qed

lemma c_truncate_length: "length (c_truncate n s) \<le> n"
  by (simp add: c_truncate_def)

lemma c_truncate_cstr: "cstr (c_truncate n s)"
  unfolding c_truncate_def cstr_def by (auto dest!: in_set_takeD set_takeWhileD)

subsection \<open>Bits of the constants used as masks\<close>

lemma bit_numeral_mask_int: "(m :: int) = 2 ^ k - 1 \<Longrightarrow> bit m n \<longleftrightarrow> n < k"
  by (simp add: bit_mask_iff flip: mask_eq_exp_minus_1)

lemma bit_mask_ints [simp]:
  "bit (3 :: int) n \<longleftrightarrow> n < 2" "bit (7 :: int) n \<longleftrightarrow> n < 3"
  "bit (15 :: int) n \<longleftrightarrow> n < 4" "bit (31 :: int) n \<longleftrightarrow> n < 5"
  "bit (63 :: int) n \<longleftrightarrow> n < 6" "bit (127 :: int) n \<longleftrightarrow> n < 7"
  "bit (255 :: int) n \<longleftrightarrow> n < 8" "bit (65535 :: int) n \<longleftrightarrow> n < 16"
  "bit (4294967295 :: int) n \<longleftrightarrow> n < 32"
  by (rule bit_numeral_mask_int; simp)+

lemmas bit_word_simps = bit_and_iff bit_or_iff bit_xor_iff bit_drop_bit_eq bit_push_bit_iff

lemma word8_bit_bound: "bit (w :: u8) n \<Longrightarrow> n < 8"
  using bit_imp_le_length[of w n] by simp

lemma unat_bits_less:
  fixes w :: "'a::len word"
  assumes "\<And>n. bit w n \<Longrightarrow> n < k"
  shows "unat w < 2 ^ k"
proof -
  have "w = take_bit k w" by (rule bit_eqI) (auto simp: bit_take_bit_iff assms)
  then have "unat w = unat w mod 2 ^ k" by (metis unsigned_take_bit_eq take_bit_eq_mod)
  then show ?thesis by (metis mod_less_divisor zero_less_numeral zero_less_power)
qed

lemma word8_eqI:
  assumes "bit (a :: u8) 0 = bit b 0" "bit a 1 = bit b 1" "bit a 2 = bit b 2" "bit a 3 = bit b 3"
    "bit a 4 = bit b 4" "bit a 5 = bit b 5" "bit a 6 = bit b 6" "bit a 7 = bit b 7"
  shows "a = b"
proof (rule bit_word_eqI)
  fix n assume "n < LENGTH(8)"
  then have "n \<in> {7, 6, 5, 4, 3, 2, 1, 0}" by auto
  then show "bit a n = bit b n" using assms by auto
qed

end
