(* ===== verification/Uuid.thy ===== *)
theory Uuid
  imports Prelude
begin

text \<open>
  UUIDs (\<^verbatim>\<open>src/libopticon/uuid.c\<close> and the printing and byte conversion in
  \<^verbatim>\<open>src/libopticon/util.c\<close>) and the two hash functions of
  \<^verbatim>\<open>src/libopticon/hash.c\<close>.
\<close>

subsection \<open>The value and its predicates\<close>

record uuid =
  msb :: u64
  lsb :: u64

definition uuidcmp :: "uuid \<Rightarrow> uuid \<Rightarrow> bool" where
  "uuidcmp first second \<longleftrightarrow> msb first = msb second \<and> lsb first = lsb second"

definition uuidnil :: uuid where
  "uuidnil = \<lparr>msb = 0, lsb = 0\<rparr>"

definition uuidvalid :: "uuid \<Rightarrow> bool" where
  "uuidvalid u \<longleftrightarrow> (msb u \<noteq> 0 \<or> lsb u \<noteq> 0) \<and>
     (msb u \<noteq> 0xffffffffffffffff \<or> lsb u \<noteq> 0xffffffffffffffff)"

lemma uuidcmp_eq [simp]: "uuidcmp a b \<longleftrightarrow> a = b"
  by (cases a; cases b) (auto simp: uuidcmp_def)

subsection \<open>Parsing\<close>

definition hex_out :: "char \<Rightarrow> int" where
  "hex_out c = (let n = int (of_char c :: nat) in
     if 48 \<le> n \<and> n \<le> 57 then n - 48
     else if 97 \<le> n \<and> n \<le> 102 then n - 97 + 10
     else if 65 \<le> n \<and> n \<le> 70 then n - 65 + 10
     else -1)"

fun mkuuid_loop :: "string \<Rightarrow> uuid \<Rightarrow> nat \<Rightarrow> int \<Rightarrow> uuid" where
  "mkuuid_loop [] res respos majpos = res"
| "mkuuid_loop (c # crsr) res respos majpos =
     (if c = CHR 0x00 \<or> majpos < 0 then res
      else let out = hex_out c in
        if out \<ge> 0 then
          let rout = push_bit (4 * (15 - respos)) (word_of_int out);
              res' = (if majpos \<noteq> 0 then res\<lparr>msb := msb res OR rout\<rparr>
                      else res\<lparr>lsb := lsb res OR rout\<rparr>) in
          if Suc respos > 15 then mkuuid_loop crsr res' 0 (majpos - 1)
          else mkuuid_loop crsr res' (Suc respos) majpos
        else mkuuid_loop crsr res respos majpos)"

fun mkuuid :: "string option \<Rightarrow> uuid" where
  "mkuuid None = \<lparr>msb = 0, lsb = 0\<rparr>"
| "mkuuid (Some str) = mkuuid_loop str \<lparr>msb = 0, lsb = 0\<rparr> 0 1"

text \<open>\<open>isuuid\<close> accepts lower-case digits only.\<close>

definition lower_hex :: "char \<Rightarrow> bool" where
  "lower_hex c = (let n = (of_char c :: nat) in (48 \<le> n \<and> n \<le> 57) \<or> (97 \<le> n \<and> n \<le> 102))"

fun isuuid_loop :: "string \<Rightarrow> nat \<Rightarrow> nat \<Rightarrow> bool" where
  "isuuid_loop [] hexcnt dashcnt = (hexcnt = 32)"
| "isuuid_loop (c # cs) hexcnt dashcnt =
     (if c = CHR 0x00 then hexcnt = 32
      else if lower_hex c then (if Suc hexcnt > 32 \<or> dashcnt > 4 then False else isuuid_loop cs (Suc hexcnt) dashcnt)
      else if c = CHR ''-'' then (if hexcnt > 32 \<or> Suc dashcnt > 4 then False else isuuid_loop cs hexcnt (Suc dashcnt))
      else False)"

definition isuuid :: "string \<Rightarrow> bool" where
  "isuuid str = isuuid_loop str 0 0"

subsection \<open>Printing\<close>

definition hexdig :: "nat \<Rightarrow> char" where
  "hexdig n = ''0123456789abcdef'' ! n"

definition uuidbyte :: "u64 \<Rightarrow> nat \<Rightarrow> u64" where
  "uuidbyte xx yy = drop_bit (56 - 8 * yy) xx AND 0xff"

text \<open>The \<^verbatim>\<open>%02x\<close> of a value below 256.\<close>

definition fmt_02x :: "u64 \<Rightarrow> string" where
  "fmt_02x b = [hexdig (unat b div 16), hexdig (unat b mod 16)]"

definition uuid2str :: "uuid \<Rightarrow> string" where
  "uuid2str u =
     fmt_02x (uuidbyte (msb u) 0) @ fmt_02x (uuidbyte (msb u) 1) @
     fmt_02x (uuidbyte (msb u) 2) @ fmt_02x (uuidbyte (msb u) 3) @ ''-'' @
     fmt_02x (uuidbyte (msb u) 4) @ fmt_02x (uuidbyte (msb u) 5) @ ''-'' @
     fmt_02x (uuidbyte (msb u) 6) @ fmt_02x (uuidbyte (msb u) 7) @ ''-'' @
     fmt_02x (uuidbyte (lsb u) 0) @ fmt_02x (uuidbyte (lsb u) 1) @ ''-'' @
     fmt_02x (uuidbyte (lsb u) 2) @ fmt_02x (uuidbyte (lsb u) 3) @
     fmt_02x (uuidbyte (lsb u) 4) @ fmt_02x (uuidbyte (lsb u) 5) @
     fmt_02x (uuidbyte (lsb u) 6) @ fmt_02x (uuidbyte (lsb u) 7)"

definition be64 :: "bytes \<Rightarrow> u64" where
  "be64 b = push_bit 56 (ucast (b ! 0)) OR push_bit 48 (ucast (b ! 1)) OR
            push_bit 40 (ucast (b ! 2)) OR push_bit 32 (ucast (b ! 3)) OR
            push_bit 24 (ucast (b ! 4)) OR push_bit 16 (ucast (b ! 5)) OR
            push_bit 8 (ucast (b ! 6)) OR ucast (b ! 7)"

definition bytes2uuid :: "bytes \<Rightarrow> uuid" where
  "bytes2uuid b = \<lparr>msb = be64 b, lsb = be64 (drop 8 b)\<rparr>"

subsection \<open>Hashes\<close>

text \<open>The static seed: drawn once from the random source, and never zero.\<close>

definition hash_seed :: "u32 \<Rightarrow> u32 \<Rightarrow> u32" where
  "hash_seed IHASH random =
     (if IHASH = 0 then (if random = 0 then 5138 else random) else IHASH)"

definition hchar :: "string \<Rightarrow> nat \<Rightarrow> u32" where
  "hchar ustr k = (if k < length ustr then of_char (ustr ! k) else 0) AND 0xDF"

fun hash_loop :: "string \<Rightarrow> u32 \<Rightarrow> u32" where
  "hash_loop [] hash = hash"
| "hash_loop (c # cs) hash = hash_loop cs ((push_bit 5 hash + hash) + (of_char c AND 0xDF))"

text \<open>The switch falls through: every case from \<open>min i 6\<close> down to 0 runs.\<close>

definition hash_token :: "u32 \<Rightarrow> string \<Rightarrow> u32" where
  "hash_token IHASH ustr =
     (let i = length ustr;
          s = hash_loop ustr IHASH;
          mix = (\<lambda>n (h::u32). h XOR push_bit n h);
          h6 = (if i \<ge> 6 then s + (s mod 5779) * hchar ustr 6 else s);
          h5 = (if i \<ge> 5 then mix 7 (h6 + (s mod 4643) * hchar ustr 5) else h6);
          h4 = (if i \<ge> 4 then h5 + (s mod 271) * hchar ustr 4 else h5);
          h3 = (if i \<ge> 3 then mix 15 (h4 + (s mod 1607) * hchar ustr 3) else h4);
          h2 = (if i \<ge> 2 then h3 + (s mod 7649) * hchar ustr 2 else h3);
          h1 = (if i \<ge> 1 then mix 25 (h2 + (s mod 6101) * hchar ustr 1) else h2);
          h0 = h1 + (s mod 1217) * hchar ustr 0
      in if h0 = 0 then 154004 else h0)"

definition hash_uuid :: "uuid \<Rightarrow> u32" where
  "hash_uuid u =
     (let acc = msb u XOR lsb u;
          upper = ucast (drop_bit 32 (acc AND 0xffffffff00000000));
          lower = ucast (acc AND 0xffffffff)
      in upper XOR lower)"

lemma hash_token_nonzero: "hash_token IHASH ustr \<noteq> 0"
  by (simp add: hash_token_def Let_def)

subsection \<open>Printing and parsing\<close>

definition nibble :: "u64 \<Rightarrow> nat \<Rightarrow> nat" where
  "nibble w k = unat (drop_bit (60 - 4 * k) w AND 0xf)"

definition topbits :: "nat \<Rightarrow> u64 \<Rightarrow> u64" where
  "topbits k w = push_bit (64 - 4 * k) (drop_bit (64 - 4 * k) w)"

lemma nibble_bound: "nibble w k < 16"
proof -
  have "drop_bit (60 - 4 * k) w AND 0xf \<le> 0xf" by (rule word_and_le1)
  then show ?thesis by (simp add: nibble_def word_le_nat_alt)
qed

lemma bit_topbits: "k \<le> 16 \<Longrightarrow> bit (topbits k w) n \<longleftrightarrow> 64 - 4 * k \<le> n \<and> bit w n"
  by (auto simp: topbits_def bit_push_bit_iff bit_drop_bit_eq dest: bit_imp_le_length)

lemma topbits_0: "topbits 0 w = 0"
  by (rule bit_eqI) (auto simp: bit_topbits)

lemma topbits_16: "topbits 16 w = w"
  by (simp add: topbits_def)

lemma nibble_word: "(word_of_nat (nibble w k) :: u64) = drop_bit (60 - 4 * k) w AND 0xf"
  by (simp add: nibble_def)

lemma topbits_Suc:
  assumes "k < 16"
  shows "topbits k w OR push_bit (4 * (15 - k)) (word_of_nat (nibble w k)) = topbits (Suc k) w"
proof (rule bit_eqI)
  fix n
  have e: "60 - 4 * k = 4 * (15 - k)" by simp
  show "bit (topbits k w OR push_bit (4 * (15 - k)) (word_of_nat (nibble w k))) n
      = bit (topbits (Suc k) w) n"
    using assms
    by (auto simp: nibble_word bit_or_iff bit_and_iff bit_drop_bit_eq bit_push_bit_iff bit_topbits e
          dest: bit_imp_le_length)
qed

lemma less_16_cases: "n < (16 :: nat) \<Longrightarrow> n \<in> {15, 14, 13, 12, 11, 10, 9, 8, 7, 6, 5, 4, 3, 2, 1, 0}"
  unfolding insert_iff empty_iff by arith

lemma hex_hexdig: "n < 16 \<Longrightarrow> hex_out (hexdig n) = int n"
  and hexdig_not_nul: "n < 16 \<Longrightarrow> hexdig n \<noteq> CHR 0x00"
  and lower_hexdig: "n < 16 \<Longrightarrow> lower_hex (hexdig n)"
  by (drule less_16_cases, elim insertE emptyE; simp add: hexdig_def hex_out_def lower_hex_def Let_def)+

lemma fmt_02x_nibbles:
  "k < 8 \<Longrightarrow> fmt_02x (uuidbyte w k) = [hexdig (nibble w (2 * k)), hexdig (nibble w (2 * k + 1))]"
proof -
  assume k: "k < 8"
  have "unat (uuidbyte w k) div 16 = unat (drop_bit 4 (uuidbyte w k))"
    by (simp add: drop_bit_eq_div unat_div)
  also have "drop_bit 4 (uuidbyte w k) = drop_bit (60 - 4 * (2 * k)) w AND 0xf"
    using k by (intro bit_eqI) (auto simp: uuidbyte_def bit_and_iff bit_drop_bit_eq add.assoc)
  finally have hi: "unat (uuidbyte w k) div 16 = nibble w (2 * k)" by (simp add: nibble_def)
  have "unat (uuidbyte w k) mod 16 = unat (take_bit 4 (uuidbyte w k))"
    by (simp add: unsigned_take_bit_eq take_bit_eq_mod unat_mod)
  also have "take_bit 4 (uuidbyte w k) = drop_bit (60 - 4 * (2 * k + 1)) w AND 0xf"
    using k by (intro bit_eqI) (auto simp: uuidbyte_def bit_and_iff bit_drop_bit_eq bit_take_bit_iff)
  finally have lo: "unat (uuidbyte w k) mod 16 = nibble w (2 * k + 1)" by (simp add: nibble_def)
  show ?thesis by (simp add: fmt_02x_def hi lo)
qed

text \<open>Characters that are not hexadecimal are skipped by \<open>mkuuid\<close>.\<close>

lemma mkuuid_skip:
  "hex_out c < 0 \<Longrightarrow> c \<noteq> CHR 0x00 \<Longrightarrow> mkuuid_loop (c # s) r p m =
    (if m < 0 then r else mkuuid_loop s r p m)"
  by (simp add: Let_def)

lemma mkuuid_done: "m < 0 \<Longrightarrow> mkuuid_loop s r p m = r"
  by (cases s) auto

definition hexrun :: "u64 \<Rightarrow> nat \<Rightarrow> nat \<Rightarrow> string" where
  "hexrun w k n = map (\<lambda>i. hexdig (nibble w i)) [k..<n]"

lemma hexrun_empty: "hexrun w k k = []"
  by (simp add: hexrun_def)

lemma mkuuid_run_msb:
  assumes "k \<le> n" "n \<le> 16" "k < 16"
  shows "mkuuid_loop (hexrun w k n @ s) \<lparr>msb = topbits k w, lsb = l\<rparr> k 1 =
     (if n = 16 then mkuuid_loop s \<lparr>msb = w, lsb = l\<rparr> 0 0
      else mkuuid_loop s \<lparr>msb = topbits n w, lsb = l\<rparr> n 1)"
  using assms
proof (induction "n - k" arbitrary: k)
  case 0
  then show ?case by (simp add: hexrun_def)
next
  case (Suc d)
  have "hexrun w k n = hexdig (nibble w k) # hexrun w (Suc k) n"
    using Suc.hyps(2) by (simp add: hexrun_def upt_conv_Cons)
  then show ?case
    using Suc.hyps(1)[of "Suc k"] Suc.hyps(2) Suc.prems topbits_Suc[of k w] topbits_16[of w]
    by (cases "Suc k = 16")
       (auto simp: Let_def hex_hexdig nibble_bound hexdig_not_nul hexrun_empty)
qed

lemma mkuuid_run_lsb:
  assumes "k \<le> n" "n \<le> 16" "k < 16"
  shows "mkuuid_loop (hexrun w k n @ s) \<lparr>msb = m, lsb = topbits k w\<rparr> k 0 =
     (if n = 16 then \<lparr>msb = m, lsb = w\<rparr>
      else mkuuid_loop s \<lparr>msb = m, lsb = topbits n w\<rparr> n 0)"
  using assms
proof (induction "n - k" arbitrary: k)
  case 0
  then show ?case by (simp add: hexrun_def)
next
  case (Suc d)
  have "hexrun w k n = hexdig (nibble w k) # hexrun w (Suc k) n"
    using Suc.hyps(2) by (simp add: hexrun_def upt_conv_Cons)
  then show ?case
    using Suc.hyps(1)[of "Suc k"] Suc.hyps(2) Suc.prems topbits_Suc[of k w] topbits_16[of w]
    by (cases "Suc k = 16")
       (auto simp: Let_def hex_hexdig nibble_bound hexdig_not_nul hexrun_empty mkuuid_done)
qed

lemma uuid2str_runs:
  "uuid2str u = hexrun (msb u) 0 8 @ ''-'' @ hexrun (msb u) 8 12 @ ''-'' @
     hexrun (msb u) 12 16 @ ''-'' @ hexrun (lsb u) 0 4 @ ''-'' @ hexrun (lsb u) 4 16"
  by (simp add: uuid2str_def fmt_02x_nibbles hexrun_def upt_conv_Cons eval_nat_numeral)

lemma dash_skipped: "hex_out (CHR ''-'') < 0"
  by (simp add: hex_out_def)

lemma mkuuid_uuid2str_eq: "mkuuid (Some (uuid2str u)) = u"
proof -
  have "mkuuid (Some (uuid2str u)) = \<lparr>msb = msb u, lsb = lsb u\<rparr>"
    using mkuuid_run_msb[of 0 8 "msb u"] mkuuid_run_msb[of 8 12 "msb u"]
      mkuuid_run_msb[of 12 16 "msb u"] mkuuid_run_lsb[of 0 4 "lsb u"] mkuuid_run_lsb[of 4 16 "lsb u" "[]"]
    by (simp add: uuid2str_runs mkuuid_skip dash_skipped topbits_0 del: mkuuid_loop.simps)
  then show ?thesis by simp
qed

lemma isuuid_run:
  "hexcnt + (n - k) \<le> 32 \<Longrightarrow> dashcnt \<le> 4 \<Longrightarrow>
   isuuid_loop (hexrun w k n @ s) hexcnt dashcnt = isuuid_loop s (hexcnt + (n - k)) dashcnt"
proof (induction "n - k" arbitrary: k hexcnt)
  case 0
  then show ?case by (simp add: hexrun_def)
next
  case (Suc d)
  have "hexrun w k n = hexdig (nibble w k) # hexrun w (Suc k) n"
    using Suc.hyps(2) by (simp add: hexrun_def upt_conv_Cons)
  moreover have "k < n" "hexcnt < 32" "Suc hexcnt + (n - Suc k) = hexcnt + (n - k)"
    using Suc.hyps(2) Suc.prems by simp_all
  moreover have "isuuid_loop (hexdig (nibble w k) # r) hexcnt dashcnt = isuuid_loop r (Suc hexcnt) dashcnt" for r
    using \<open>hexcnt < 32\<close> Suc.prems(2) by (simp add: lower_hexdig nibble_bound hexdig_not_nul)
  ultimately show ?case
    using Suc.hyps(1)[of "Suc k" "Suc hexcnt"] Suc.hyps(2) Suc.prems by simp
qed

lemma isuuid_uuid2str: "isuuid (uuid2str u)"
proof -
  have "\<not> lower_hex (CHR ''-'')" by (simp add: lower_hex_def)
  then show ?thesis
    using isuuid_run[of _ 16 4 _ "lsb u" "[]"]
    by (simp add: isuuid_def uuid2str_runs isuuid_run)
qed

subsection \<open>Properties\<close>

text \<open>
  The text form \<^verbatim>\<open>uuid2str\<close> gives any UUID is accepted by \<^verbatim>\<open>isuuid\<close> and parsed back by
  \<^verbatim>\<open>mkuuid\<close> to the same UUID.
\<close>

theorem uuid_text_roundtrip: "isuuid (uuid2str u) \<and> mkuuid (Some (uuid2str u)) = u"
  by (intro conjI isuuid_uuid2str mkuuid_uuid2str_eq)

end
