(* ===== verification/Double.thy ===== *)
theory Double
  imports Prelude
begin

text \<open>
  The C type \<open>double\<close>. A finite double is the rational number it denotes; \<open>rnd\<close>
  rounds a rational to the nearest double, ties to even, with the 53-bit
  significand and the gradual underflow of IEEE 754 binary64, so that every
  floating point operation of the code is \<open>rnd\<close> of the exact result. The only
  infinity the code produces is positive (\<^verbatim>\<open>ioport_read_encfrac\<close>); overflow to
  infinity by arithmetic is not modelled: the magnitudes here stay far below it.
\<close>

datatype dbl = Fin rat | Inf

subsection \<open>Binary logarithm\<close>

fun nlog2 :: "nat \<Rightarrow> nat" where
  "nlog2 n = (if n < 2 then 0 else Suc (nlog2 (n div 2)))"

declare nlog2.simps [simp del]

lemma nlog2_bounds: "0 < n \<Longrightarrow> 2 ^ nlog2 n \<le> n \<and> n < 2 ^ Suc (nlog2 n)"
proof (induction n rule: nlog2.induct)
  case (1 n)
  show ?case
  proof (cases "n < 2")
    case True
    then show ?thesis using 1 by (simp add: nlog2.simps)
  next
    case False
    then have IH: "2 ^ nlog2 (n div 2) \<le> n div 2 \<and> n div 2 < 2 ^ Suc (nlog2 (n div 2))"
      using 1 by simp
    have e: "nlog2 n = Suc (nlog2 (n div 2))" using False by (simp add: nlog2.simps)
    show ?thesis unfolding e using IH by (simp only: power_Suc) linarith
  qed
qed

definition ilog2 :: "rat \<Rightarrow> int" where
  "ilog2 x = (let (p, q) = quotient_of x;
                  e = int (nlog2 (nat p)) - int (nlog2 (nat q))
              in if 2 powi e \<le> x then e else e - 1)"

lemma powi_2_pos [simp]: "0 < (2 :: rat) powi e"
  by (simp add: power_int_def)

lemma powi_2_mono: "a \<le> b \<Longrightarrow> (2 :: rat) powi a \<le> 2 powi b"
  by (simp add: power_int_increasing)

lemma powi_2_add: "(2 :: rat) powi (a + b) = 2 powi a * 2 powi b"
  by (simp add: power_int_add)

lemma ilog2_bounds:
  assumes "0 < x"
  shows "2 powi (ilog2 x) \<le> x \<and> x < 2 powi (ilog2 x + 1)"
proof -
  obtain p q where pq: "quotient_of x = (p, q)" by fastforce
  have q: "0 < q" using quotient_of_denom_pos[OF pq] .
  have x: "x = of_int p / of_int q" using quotient_of_div[OF pq] .
  have p: "0 < p" using assms q x by (simp add: zero_less_divide_iff)
  define a where "a = nlog2 (nat p)"
  define b where "b = nlog2 (nat q)"
  have pa: "(2 :: rat) ^ a \<le> of_int p" "of_int p < (2 :: rat) ^ Suc a"
  proof -
    have "2 ^ a \<le> nat p" "nat p < 2 ^ Suc a" using nlog2_bounds[of "nat p"] p by (auto simp: a_def)
    then have "int (2 ^ a) \<le> p" "p < int (2 ^ Suc a)" using p by linarith+
    then have "of_int (int (2 ^ a)) \<le> (of_int p :: rat)" "(of_int p :: rat) < of_int (int (2 ^ Suc a))"
      by (simp_all only: of_int_le_iff of_int_less_iff)
    then show "(2 :: rat) ^ a \<le> of_int p" "of_int p < (2 :: rat) ^ Suc a" by simp_all
  qed
  have qb: "(2 :: rat) ^ b \<le> of_int q" "of_int q < (2 :: rat) ^ Suc b"
  proof -
    have "2 ^ b \<le> nat q" "nat q < 2 ^ Suc b" using nlog2_bounds[of "nat q"] q by (auto simp: b_def)
    then have "int (2 ^ b) \<le> q" "q < int (2 ^ Suc b)" using q by linarith+
    then have "of_int (int (2 ^ b)) \<le> (of_int q :: rat)" "(of_int q :: rat) < of_int (int (2 ^ Suc b))"
      by (simp_all only: of_int_le_iff of_int_less_iff)
    then show "(2 :: rat) ^ b \<le> of_int q" "of_int q < (2 :: rat) ^ Suc b" by simp_all
  qed
  let ?e = "int a - int b"
  have pw: "(2 :: rat) powi (int a - int b + k) = 2 ^ a * 2 powi k / 2 ^ b" for k
    by (simp add: power_int_add power_int_diff)
  have qpos: "(0 :: rat) < of_int q" using q by simp
  have up: "x < 2 powi (?e + 1)"
  proof -
    have "of_int p * 2 ^ b < (2 ^ Suc a) * (of_int q :: rat)"
      using pa(2) qb(1) qpos p by (intro mult_less_le_imp_less) auto
    then show ?thesis unfolding x pw using qpos by (simp add: field_simps)
  qed
  have lo: "2 powi (?e - 1) < x"
  proof -
    have "2 ^ a * of_int q < of_int p * (2 :: rat) ^ Suc b"
      using pa(1) qb(2) qpos by (intro mult_le_less_imp_less) auto
    moreover have e1: "(2 :: rat) powi (?e - 1) = 2 ^ a / 2 ^ Suc b"
      by (simp add: power_int_diff)
    ultimately show ?thesis unfolding x e1 using qpos by (simp add: field_simps)
  qed
  show ?thesis
    using up lo unfolding ilog2_def pq by (auto simp: Let_def a_def b_def)
qed

lemma ilog2_unique: "2 powi e \<le> x \<Longrightarrow> x < 2 powi (e + 1) \<Longrightarrow> ilog2 x = e"
proof -
  assume a: "2 powi e \<le> x" "x < 2 powi (e + 1)"
  then have "0 < x" using powi_2_pos[of e] by linarith
  note b = ilog2_bounds[OF this]
  show ?thesis
  proof (rule ccontr)
    assume "ilog2 x \<noteq> e"
    then have "ilog2 x + 1 \<le> e \<or> e + 1 \<le> ilog2 x" by linarith
    then show False using a b powi_2_mono[of "ilog2 x + 1" e] powi_2_mono[of "e + 1" "ilog2 x"] by auto
  qed
qed

lemma ilog2_mono: "0 < x \<Longrightarrow> x \<le> y \<Longrightarrow> ilog2 x \<le> ilog2 y"
proof (rule ccontr)
  assume a: "0 < x" "x \<le> y" "\<not> ilog2 x \<le> ilog2 y"
  then have "(2 :: rat) powi (ilog2 y + 1) \<le> 2 powi (ilog2 x)" by (intro powi_2_mono) simp
  then show False using a ilog2_bounds[of x] ilog2_bounds[of y] by linarith
qed

subsection \<open>Rounding to nearest, ties to even\<close>

definition round_even :: "rat \<Rightarrow> int" where
  "round_even y = (let f = \<lfloor>y\<rfloor>; d = y - of_int f in
     if d < 1/2 then f else if d > 1/2 then f + 1 else if even f then f else f + 1)"

definition rnd :: "rat \<Rightarrow> rat" where
  "rnd x = (if x = 0 then 0
            else let e = max (ilog2 \<bar>x\<bar>) (-1022); ulp = 2 powi (e - 52)
                 in of_int (round_even (x / ulp)) * ulp)"

lemma round_even_of_int [simp]: "round_even (of_int n) = n"
  by (simp add: round_even_def)

lemma round_even_minus: "round_even (- y) = - round_even y"
proof (cases "y \<in> \<int>")
  case True
  then obtain n where "y = of_int n" by (auto elim: Ints_cases)
  then have "- y = of_int (- n)" by simp
  then show ?thesis using \<open>y = of_int n\<close> by (simp only: round_even_of_int)
next
  case False
  have f: "\<lfloor>- y\<rfloor> = - \<lfloor>y\<rfloor> - 1"
  proof -
    have "of_int \<lfloor>y\<rfloor> \<noteq> y" using False by (metis Ints_of_int)
    then have "of_int \<lfloor>y\<rfloor> < y" using of_int_floor_le[of y] by linarith
    then show ?thesis using real_of_int_floor_add_one_gt by (intro floor_unique) (simp_all, linarith)
  qed
  show ?thesis unfolding round_even_def f Let_def by auto
qed

lemma round_even_mono: "x \<le> y \<Longrightarrow> round_even x \<le> round_even y"
proof -
  assume xy: "x \<le> y"
  then have "\<lfloor>x\<rfloor> \<le> \<lfloor>y\<rfloor>" by (rule floor_mono)
  then consider "\<lfloor>x\<rfloor> = \<lfloor>y\<rfloor>" | "\<lfloor>x\<rfloor> + 1 \<le> \<lfloor>y\<rfloor>" by linarith
  then show ?thesis
  proof cases
    case 1
    then show ?thesis using xy by (auto simp: round_even_def Let_def)
  next
    case 2
    have "round_even x \<le> \<lfloor>x\<rfloor> + 1" "\<lfloor>y\<rfloor> \<le> round_even y" by (auto simp: round_even_def Let_def)
    then show ?thesis using 2 by linarith
  qed
qed

lemma rnd_0 [simp]: "rnd 0 = 0"
  by (simp add: rnd_def)

lemma rnd_minus: "rnd (- x) = - rnd x"
  by (simp add: rnd_def Let_def round_even_minus)

lemma rnd_exact:
  assumes "\<bar>m\<bar> \<le> 2 ^ 53" "-1074 \<le> k"
  shows "rnd (of_int m * 2 powi k) = of_int m * 2 powi k"
proof (cases "m = 0")
  case False
  let ?x = "of_int m * (2 :: rat) powi k"
  define e where "e = max (ilog2 \<bar>?x\<bar>) (-1022)"
  have x0: "0 < \<bar>?x\<bar>" using False by simp
  have ax: "\<bar>?x\<bar> = of_int \<bar>m\<bar> * 2 powi k" by (simp add: abs_mult)
  have "of_int \<bar>m\<bar> \<le> (2 :: rat) ^ 53" using assms(1) by (metis of_int_le_iff of_int_numeral of_int_power)
  then have "\<bar>?x\<bar> \<le> 2 ^ 53 * 2 powi k" unfolding ax by (intro mult_right_mono) auto
  also have "\<dots> = 2 powi (53 + k)" by (simp add: power_int_add power_int_numeral)
  finally have le: "\<bar>?x\<bar> \<le> 2 powi (53 + k)" .
  show ?thesis
  proof (cases "e - 52 \<le> k")
    case True
    define d where "d = nat (k - (e - 52))"
    have k: "k = (e - 52) + int d" using True by (simp add: d_def)
    have q: "?x / 2 powi (e - 52) = of_int (m * 2 ^ d)"
      unfolding k by (simp add: power_int_add)
    show ?thesis using False unfolding rnd_def e_def[symmetric] Let_def q round_even_of_int
      by (simp add: k power_int_add)
  next
    case F: False
    then have "k + 53 \<le> ilog2 \<bar>?x\<bar>" using assms(2) by (auto simp: e_def)
    then have "(2 :: rat) powi (53 + k) \<le> 2 powi (ilog2 \<bar>?x\<bar>)" by (intro powi_2_mono) simp
    then have eq: "\<bar>?x\<bar> = 2 powi (53 + k)" using le ilog2_bounds[OF x0] by linarith
    then have "ilog2 \<bar>?x\<bar> = 53 + k" by (intro ilog2_unique) (simp_all add: power_int_add)
    then have e: "e = 53 + k" using assms(2) by (simp add: e_def)
    have mm: "\<bar>m\<bar> = 2 ^ 53"
    proof -
      have "of_int \<bar>m\<bar> * (2 :: rat) powi k = 2 ^ 53 * 2 powi k" using eq unfolding ax
        by (simp add: power_int_add power_int_numeral)
      then have "of_int \<bar>m\<bar> = (2 :: rat) ^ 53" by simp
      then have "(of_int \<bar>m\<bar> :: rat) = of_int (2 ^ 53)" by simp
      then show ?thesis by (simp only: of_int_eq_iff)
    qed
    have ev: "even m"
    proof -
      have "even \<bar>m\<bar>" unfolding mm by simp
      then show ?thesis by simp
    qed
    have e52: "e - 52 = k + 1" using e by simp
    have q: "?x / 2 powi (e - 52) = of_int (m div 2)"
    proof -
      obtain h where h: "m = 2 * h" using ev by (elim evenE)
      show ?thesis unfolding e52 powi_2_add by (simp add: h)
    qed
    have "(of_int (m div 2) :: rat) * 2 powi (e - 52) = ?x"
      unfolding q[symmetric] by simp
    then show ?thesis using False unfolding rnd_def e_def[symmetric] Let_def q round_even_of_int by simp
  qed
qed simp

lemma rnd_int: "\<bar>n\<bar> \<le> 2 ^ 53 \<Longrightarrow> rnd (of_int n) = of_int n"
  using rnd_exact[of n 0] by simp

lemma rnd_nonneg: "0 \<le> x \<Longrightarrow> 0 \<le> rnd x"
proof -
  assume x: "0 \<le> x"
  have "0 \<le> round_even y" if "0 \<le> y" for y using round_even_mono[OF that] round_even_of_int[of 0] by simp
  then show ?thesis using x by (auto simp: rnd_def Let_def intro!: mult_nonneg_nonneg divide_nonneg_nonneg less_imp_le)
qed

lemma rnd_mono_pos:
  assumes "0 < x" "x \<le> y"
  shows "rnd x \<le> rnd y"
proof -
  define ex where "ex = max (ilog2 x) (-1022)"
  define ey where "ey = max (ilog2 y) (-1022)"
  have y: "0 < y" using assms by linarith
  have le: "ex \<le> ey" using ilog2_mono[OF assms] by (auto simp: ex_def ey_def)
  have rx: "rnd x = of_int (round_even (x / 2 powi (ex - 52))) * 2 powi (ex - 52)"
    using assms(1) by (simp add: rnd_def Let_def ex_def)
  have ry: "rnd y = of_int (round_even (y / 2 powi (ey - 52))) * 2 powi (ey - 52)"
    using y by (simp add: rnd_def Let_def ey_def)
  show ?thesis
  proof (cases "ex = ey")
    case True
    have "x / 2 powi (ey - 52) \<le> y / 2 powi (ey - 52)"
      using assms(2) by (intro divide_right_mono) (auto intro: less_imp_le)
    then have "round_even (x / 2 powi (ey - 52)) \<le> round_even (y / 2 powi (ey - 52))"
      by (rule round_even_mono)
    then show ?thesis unfolding rx ry True by (intro mult_right_mono) (auto intro: less_imp_le)
  next
    case False
    then have lt: "ex + 1 \<le> ey" using le by linarith
    have p53: "(2 :: rat) powi (c + 1) / 2 powi (c - 52) = of_int (2 ^ 53)"
      "(2 :: rat) powi c / 2 powi (c - 52) = of_int (2 ^ 52)" for c :: int
      by (simp_all add: power_int_diff power_int_add)
    have "ilog2 x \<le> ex" by (simp add: ex_def)
    then have "x \<le> 2 powi (ex + 1)"
      using ilog2_bounds[OF assms(1)] powi_2_mono[of "ilog2 x + 1" "ex + 1"] by linarith
    then have "x / 2 powi (ex - 52) \<le> 2 powi (ex + 1) / 2 powi (ex - 52)"
      by (intro divide_right_mono) (auto intro: less_imp_le)
    then have "round_even (x / 2 powi (ex - 52)) \<le> 2 ^ 53"
      using round_even_mono unfolding p53 by (metis round_even_of_int)
    then have "of_int (round_even (x / 2 powi (ex - 52))) \<le> (of_int (2 ^ 53) :: rat)"
      by (simp only: of_int_le_iff)
    then have "rnd x \<le> of_int (2 ^ 53) * 2 powi (ex - 52)"
      unfolding rx by (intro mult_right_mono) (auto intro: less_imp_le)
    also have "\<dots> = 2 powi (ex + 1)" using p53(1)[of ex] by (simp add: field_simps)
    also have "\<dots> \<le> 2 powi ey" by (rule powi_2_mono[OF lt])
    also have "\<dots> = of_int (2 ^ 52) * 2 powi (ey - 52)" using p53(2)[of ey] by (simp add: field_simps)
    also have "\<dots> \<le> rnd y"
    proof -
      have "ey = ilog2 y" using lt by (auto simp: ex_def ey_def)
      then have "2 powi ey \<le> y" using ilog2_bounds[OF y] by simp
      then have "2 powi ey / 2 powi (ey - 52) \<le> y / 2 powi (ey - 52)"
        by (intro divide_right_mono) (auto intro: less_imp_le)
      then have "2 ^ 52 \<le> round_even (y / 2 powi (ey - 52))"
        using round_even_mono unfolding p53 by (metis round_even_of_int)
      then have "of_int (2 ^ 52) \<le> (of_int (round_even (y / 2 powi (ey - 52))) :: rat)"
        by (simp only: of_int_le_iff)
      then show ?thesis unfolding ry by (intro mult_right_mono) (auto intro: less_imp_le)
    qed
    finally show ?thesis .
  qed
qed

lemma rnd_mono: "x \<le> y \<Longrightarrow> rnd x \<le> rnd y"
proof -
  assume xy: "x \<le> y"
  consider "0 < x" | "x \<le> 0" "0 \<le> y" | "y < 0" by linarith
  then show ?thesis
  proof cases
    case 1
    then show ?thesis using xy by (rule rnd_mono_pos)
  next
    case 2
    have "0 \<le> rnd (- x)" "0 \<le> rnd y" using 2 by (auto intro: rnd_nonneg)
    then show ?thesis by (simp add: rnd_minus)
  next
    case 3
    then have "rnd (- y) \<le> rnd (- x)" using xy by (intro rnd_mono_pos) auto
    then show ?thesis by (simp add: rnd_minus)
  qed
qed

text \<open>Comparison of doubles as C's \<open><\<close> does it; the infinity is above every finite value.\<close>

fun dbl_less :: "dbl \<Rightarrow> dbl \<Rightarrow> bool" where
  "dbl_less (Fin a) (Fin b) \<longleftrightarrow> a < b"
| "dbl_less (Fin a) Inf \<longleftrightarrow> True"
| "dbl_less Inf _ \<longleftrightarrow> False"

end
