(* ===== verification/Ioport.thy ===== *)
theory Ioport
  imports Prelude Uuid Double
begin

text \<open>
  \<^verbatim>\<open>libopticon/ioport.c\<close>: the port abstraction every encoder and decoder of opticon
  goes through. A port is a table of methods over a storage (\<^verbatim>\<open>ioport_s\<close>), kept here as
  a record with function fields, plus the accumulator of the bit stream. The methods
  are those of \<^verbatim>\<open>ioport_buffer.c\<close> (theory \<open>IoportBuffer\<close>) or \<^verbatim>\<open>ioport_file.c\<close>
  (theory \<open>IoportFile\<close>).

  A method returns what the C function returns and the new storage; \<open>rd\<close> returns the
  bytes copied to the caller's buffer, \<open>None\<close> for \<open>false\<close>. Sizes are \<open>nat\<close>.

  What a provider promises is stated once, in the locales \<open>out_port\<close> and \<open>in_port\<close>;
  the encoders and decoders are verified inside them against the byte strings
  \<open>enc_u32\<close>, \<open>enc_u64\<close>, \<open>enc_uuid\<close>, \<open>enc_int\<close>, \<open>enc_string\<close>, \<open>enc_frac\<close>.
\<close>

record 'st ioport =
  wr :: "'st \<Rightarrow> bytes \<Rightarrow> bool \<times> 'st"
  rd :: "'st \<Rightarrow> nat \<Rightarrow> bytes option \<times> 'st"
  read_avail :: "'st \<Rightarrow> nat"
  write_avail :: "'st \<Rightarrow> nat"
  reset_rd :: "'st \<Rightarrow> 'st"
  storage :: 'st
  bitpos :: nat
  bitbuffer :: u8

subsection \<open>Writing\<close>

text \<open>C's short-circuit sequencing \<open>if (! f ()) return false; return g ();\<close>.\<close>

fun and_then :: "bool \<times> 'a \<Rightarrow> ('a \<Rightarrow> bool \<times> 'a) \<Rightarrow> bool \<times> 'a" where
  "and_then (False, s) g = (False, s)"
| "and_then (True, s) g = g s"

definition io_method_write :: "'st ioport \<Rightarrow> bytes \<Rightarrow> bool \<times> 'st ioport" where
  "io_method_write io d = (case wr io (storage io) d of (ok, st) \<Rightarrow> (ok, io\<lparr>storage := st\<rparr>))"

definition ioport_write_available :: "'st ioport \<Rightarrow> nat" where
  "ioport_write_available io = write_avail io (storage io)"

definition ioport_flush_bits :: "'st ioport \<Rightarrow> bool \<times> 'st ioport" where
  "ioport_flush_bits io =
     (if bitpos io = 0 then (True, io)
      else and_then (io_method_write io [bitbuffer io])
             (\<lambda>io. (True, io\<lparr>bitpos := 0, bitbuffer := 0\<rparr>)))"

definition ioport_write :: "'st ioport \<Rightarrow> bytes \<Rightarrow> bool \<times> 'st ioport" where
  "ioport_write io d =
     (if bitpos io \<noteq> 0 then and_then (ioport_flush_bits io) (\<lambda>io. io_method_write io d)
      else io_method_write io d)"

definition ioport_write_byte :: "'st ioport \<Rightarrow> u8 \<Rightarrow> bool \<times> 'st ioport" where
  "ioport_write_byte io b =
     (if bitpos io \<noteq> 0 then and_then (ioport_flush_bits io) (\<lambda>io. io_method_write io [b])
      else io_method_write io [b])"

definition byte_of :: "u64 \<Rightarrow> nat \<Rightarrow> u8" where
  "byte_of w k = ucast (drop_bit k (w AND push_bit k 0xff))"

definition ioport_write_uuid :: "'st ioport \<Rightarrow> uuid \<Rightarrow> bool \<times> 'st ioport" where
  "ioport_write_uuid io u = ioport_write io
     [byte_of (msb u) 56, byte_of (msb u) 48, byte_of (msb u) 40, byte_of (msb u) 32,
      byte_of (msb u) 24, byte_of (msb u) 16, byte_of (msb u) 8, byte_of (msb u) 0,
      byte_of (lsb u) 56, byte_of (lsb u) 48, byte_of (lsb u) 40, byte_of (lsb u) 32,
      byte_of (lsb u) 24, byte_of (lsb u) 16, byte_of (lsb u) 8, byte_of (lsb u) 0]"

definition BITMASKS :: "u8 list" where
  "BITMASKS = [0x00, 0x01, 0x03, 0x07, 0x0f, 0x1f, 0x3f, 0x7f, 0xff]"

definition ioport_write_bits :: "'st ioport \<Rightarrow> u8 \<Rightarrow> nat \<Rightarrow> bool \<times> 'st ioport" where
  "ioport_write_bits io d bits =
     (if bits > 8 then (False, io)
      else
        let bits1 = (if bitpos io + bits < 8 then bits else 8 - bitpos io);
            bits2 = bits - bits1;
            shift = (8 - bitpos io) - bits1;
            data1 = push_bit shift (drop_bit bits2 d AND (BITMASKS ! bits1));
            data2 = d AND (BITMASKS ! bits2);
            io = io\<lparr>bitbuffer := bitbuffer io OR data1, bitpos := bitpos io + bits1\<rparr>
        in if bitpos io > 7
           then and_then (io_method_write io [bitbuffer io])
                  (\<lambda>io. (True, io\<lparr>bitpos := bits2,
                                 bitbuffer := if bits2 \<noteq> 0 then push_bit (8 - bits2) data2 else 0\<rparr>))
           else (True, io))"

definition ENCSET :: string where
  "ENCSET = ''abcdefghijklmnopqrstuvwxyz#/-_ 0123456789ABCDEFGHJKLMNPQSTUVWXZ.''"

text \<open>The table has 127 initialisers; C fills entry 127 with 0.\<close>

definition DECSET :: "u8 list" where
  "DECSET = [
    255,255,255,255,255,255,255,255,255,255,255,255,255,255,255,255,
    255,255,255,255,255,255,255,255,255,255,255,255,255,255,255,255,
    30,255,255,26,255,255,255,255,255,255,255,255,255,28,63,27,31,
    32,33,34,35,36,37,38,39,40,255,255,255,255,255,255,255,41,42,43,
    44,45,46,47,48,255,49,50,51,52,53,255,54,55,255,56,57,58,59,60,61,
    255,62,255,255,255,255,29,255,0,1,2,3,4,5,6,7,8,9,10,11,12,13,14,
    15,16,17,18,19,20,21,22,23,24,25,255,255,255,255, 0]"

text \<open>
  \<open>char\<close> is signed: a byte from 0x80 up is a negative index into the table, an
  out-of-bounds read, reached before the test of the table entry decides anything.
\<close>

definition char_code :: "char \<Rightarrow> nat" where
  "char_code c = of_char c"

definition str_bytes :: "string \<Rightarrow> bytes" where
  "str_bytes s = map (\<lambda>c. of_char c) s"

definition bytes_str :: "bytes \<Rightarrow> string" where
  "bytes_str b = map (\<lambda>w. char_of (unat w)) b"

fun encodable :: "string \<Rightarrow> bool res" where
  "encodable [] = Ok True"
| "encodable (c # s) =
     (if char_code c > 127 then Fault OutOfBounds
      else if DECSET ! char_code c = 255 then Ok False
      else encodable s)"

fun write_sixbits :: "'st ioport \<Rightarrow> string \<Rightarrow> bool \<times> 'st ioport" where
  "write_sixbits io [] = ioport_flush_bits io"
| "write_sixbits io (c # s) =
     and_then (ioport_write_bits io (DECSET ! char_code c) 6) (\<lambda>io. write_sixbits io s)"

definition ioport_write_encstring :: "'st ioport \<Rightarrow> string \<Rightarrow> (bool \<times> 'st ioport) res" where
  "ioport_write_encstring io str =
     (let len = length str in
      if len > 127 then Ok (False, io)
      else rbind (encodable str) (\<lambda>enc.
        if \<not> enc then
          Ok (and_then (ioport_write_byte io (of_nat len)) (\<lambda>io. ioport_write io (str_bytes str)))
        else
          Ok (and_then (ioport_write_byte io (of_nat len OR 0x80)) (\<lambda>io. write_sixbits io str))))"

text \<open>The double arithmetic of the code: each operation rounds.\<close>

fun half_floor :: "dbl \<Rightarrow> dbl" where
  "half_floor (Fin w) = Fin (of_int \<lfloor>rnd (w / 2)\<rfloor>)"
| "half_floor Inf = Inf"

function encfrac_loop :: "dbl \<Rightarrow> nat \<Rightarrow> dbl \<times> nat" where
  "encfrac_loop wval i =
     (if dbl_less (Fin 255) wval \<and> i < 63 then encfrac_loop (half_floor wval) (Suc i)
      else (wval, i))"
  by pat_completeness auto
termination by (relation "measure (\<lambda>(w, i). 63 - i)") auto

declare encfrac_loop.simps [simp del]

fun dbl_floor_byte :: "dbl \<Rightarrow> u8" where
  "dbl_floor_byte (Fin w) = word_of_int \<lfloor>w\<rfloor>"
| "dbl_floor_byte Inf = 0"

text \<open>The two bytes \<^verbatim>\<open>ioport_write_encfrac\<close> writes.\<close>

fun encfrac_small :: "rat \<Rightarrow> u8 \<times> u8" where
  "encfrac_small d = (let fl = \<lfloor>d\<rfloor>; fr = rnd (rnd (d - of_int fl) * 255)
                      in (word_of_int fl, word_of_int \<lfloor>fr\<rfloor>))"

definition encfrac_bytes :: "dbl \<Rightarrow> u8 \<times> u8" where
  "encfrac_bytes d =
     (if \<not> dbl_less (Fin 0) d then (0, 0)
      else if \<not> dbl_less d (Fin 192) then
        (let (wval, i) = encfrac_loop (half_floor d) 0
         in if dbl_less (Fin 255) wval then (255, 255)
            else (of_nat (192 + i), dbl_floor_byte wval))
      else (case d of Fin x \<Rightarrow> encfrac_small x | Inf \<Rightarrow> (255, 255)))"

definition ioport_write_encfrac :: "'st ioport \<Rightarrow> dbl \<Rightarrow> bool \<times> 'st ioport" where
  "ioport_write_encfrac io d =
     (case encfrac_bytes d of (a, b) \<Rightarrow>
       if \<not> dbl_less (Fin 0) d then ioport_write io [a, b]
       else and_then (ioport_write_byte io a) (\<lambda>io. ioport_write_byte io b))"

text \<open>
  \<open>0x7f << bitpos\<close> is a shift of an \<open>int\<close>: from bit position 28 on the result is
  not representable (and from 32 on the shift count is too large), which C leaves
  undefined. \<open>ub bitpos\<close> is whatever the compiled code computes there.
\<close>

definition encint_mask :: "(nat \<Rightarrow> int) \<Rightarrow> nat \<Rightarrow> u64" where
  "encint_mask ub bp = (if bp < 25 then push_bit bp 0x7f else word_of_int (ub bp))"

fun encint_loop :: "(nat \<Rightarrow> int) \<Rightarrow> 'st ioport \<Rightarrow> u64 \<Rightarrow> nat list \<Rightarrow> bool \<Rightarrow> bool \<times> 'st ioport" where
  "encint_loop ub io i [] started = (True, io)"
| "encint_loop ub io i (bp # bps) started =
     (let msk = encint_mask ub bp;
          byte = (ucast (drop_bit bp (i AND msk)) :: u8)
      in if byte \<noteq> 0 \<or> started
         then and_then (ioport_write_byte io (if bp \<noteq> 0 then byte OR 0x80 else byte))
                (\<lambda>io. encint_loop ub io i bps True)
         else encint_loop ub io i bps started)"

definition ioport_write_encint :: "(nat \<Rightarrow> int) \<Rightarrow> 'st ioport \<Rightarrow> u64 \<Rightarrow> bool \<times> 'st ioport" where
  "ioport_write_encint ub io i =
     (if i = 0 then ioport_write_byte io 0
      else encint_loop ub io i [56, 49, 42, 35, 28, 21, 14, 7, 0] False)"

definition ioport_write_u64 :: "'st ioport \<Rightarrow> u64 \<Rightarrow> bool \<times> 'st ioport" where
  "ioport_write_u64 io i = ioport_write io (map (\<lambda>k. byte_of i k) [56, 48, 40, 32, 24, 16, 8, 0])"

definition ioport_write_u32 :: "'st ioport \<Rightarrow> u32 \<Rightarrow> bool \<times> 'st ioport" where
  "ioport_write_u32 io i = ioport_write io (map (\<lambda>k. byte_of (ucast i) k) [24, 16, 8, 0])"

subsection \<open>Reading\<close>

definition ioport_read_available :: "'st ioport \<Rightarrow> nat" where
  "ioport_read_available io = read_avail io (storage io)"

definition ioport_reset_read :: "'st ioport \<Rightarrow> 'st ioport" where
  "ioport_reset_read io = io\<lparr>storage := reset_rd io (storage io)\<rparr>"

definition ioport_read :: "'st ioport \<Rightarrow> nat \<Rightarrow> bytes option \<times> 'st ioport" where
  "ioport_read io sz =
     (case rd io (storage io) sz of
        (r, st) \<Rightarrow> (r, io\<lparr>bitpos := 0, bitbuffer := 0, storage := st\<rparr>))"

definition ioport_read_uuid :: "'st ioport \<Rightarrow> uuid \<times> 'st ioport" where
  "ioport_read_uuid io =
     (case ioport_read io 16 of
        (Some buf, io) \<Rightarrow> (\<lparr>msb = be64 buf, lsb = be64 (drop 8 buf)\<rparr>, io)
      | (None, io) \<Rightarrow> (\<lparr>msb = 0, lsb = 0\<rparr>, io))"

definition ioport_read_byte :: "'st ioport \<Rightarrow> u8 \<times> 'st ioport" where
  "ioport_read_byte io =
     (case ioport_read io 1 of (Some b, io) \<Rightarrow> (hd b, io) | (None, io) \<Rightarrow> (0, io))"

definition ioport_read_bits :: "'st ioport \<Rightarrow> nat \<Rightarrow> u8 \<times> 'st ioport" where
  "ioport_read_bits io numbits =
     (if numbits > 8 then (0, io)
      else if numbits = 0 then (0, io)
      else
        let io = (if bitpos io = 0 then (case ioport_read_byte io of (b, io) \<Rightarrow> io\<lparr>bitbuffer := b\<rparr>)
                  else io);
            bits1 = (if numbits + bitpos io > 8 then 8 - bitpos io else numbits);
            shift = (8 - bitpos io) - bits1;
            mask1 = push_bit shift (BITMASKS ! bits1);
            bits2 = numbits - bits1;
            shift2 = 8 - bits2;
            mask2 = (if bits2 \<noteq> 0 then push_bit shift2 (BITMASKS ! bits2) else 0);
            res = push_bit bits2 (drop_bit shift (bitbuffer io AND mask1));
            (res, io) =
              (if bits2 \<noteq> 0
               then (case ioport_read_byte io of
                       (b, io) \<Rightarrow> (res OR drop_bit shift2 (b AND mask2),
                                  io\<lparr>bitbuffer := b, bitpos := bits2\<rparr>))
               else (res, io\<lparr>bitpos := bitpos io + bits1\<rparr>))
        in (res, if bitpos io > 8 then io\<lparr>bitpos := 0\<rparr> else io))"

fun read_sixbits :: "nat \<Rightarrow> 'st ioport \<Rightarrow> string \<times> 'st ioport" where
  "read_sixbits 0 io = ([], io)"
| "read_sixbits (Suc n) io =
     (case ioport_read_bits io 6 of (c, io) \<Rightarrow>
      case read_sixbits n io of (s, io) \<Rightarrow> (ENCSET ! unat c # s, io))"

text \<open>
  The result is the C string left in \<open>into\<close>, with the bytes up to its terminator; a
  failing read gives \<open>None\<close>. The caller sees the string up to its first NUL.
\<close>

definition ioport_read_encstring :: "'st ioport \<Rightarrow> string option \<times> 'st ioport" where
  "ioport_read_encstring io =
     (let io = io\<lparr>bitpos := 0, bitbuffer := 0\<rparr> in
      case ioport_read_byte io of (sz, io) \<Rightarrow>
      if sz = 0 then (None, io)
      else if sz < 0x80 then
        (case ioport_read io (unat sz) of
           (None, io) \<Rightarrow> (None, io)
         | (Some b, io) \<Rightarrow> (Some (c_truncate 127 (bytes_str b)), io))
      else (case read_sixbits (unat (sz AND 0x7f)) io of (s, io) \<Rightarrow> (Some s, io)))"

definition ioport_read_u64 :: "'st ioport \<Rightarrow> u64 \<times> 'st ioport" where
  "ioport_read_u64 io =
     (case ioport_read (io\<lparr>bitpos := 0, bitbuffer := 0\<rparr>) 8 of
        (None, io) \<Rightarrow> (0, io) | (Some b, io) \<Rightarrow> (be64 b, io))"

definition be32 :: "bytes \<Rightarrow> u32" where
  "be32 b = push_bit 24 (ucast (b ! 0)) OR push_bit 16 (ucast (b ! 1)) OR
            push_bit 8 (ucast (b ! 2)) OR ucast (b ! 3)"

definition ioport_read_u32 :: "'st ioport \<Rightarrow> u32 \<times> 'st ioport" where
  "ioport_read_u32 io =
     (case ioport_read (io\<lparr>bitpos := 0, bitbuffer := 0\<rparr>) 4 of
        (None, io) \<Rightarrow> (0, io) | (Some b, io) \<Rightarrow> (be32 b, io))"

text \<open>
  The loop ends at the first byte without the continuation bit; on an exhausted port
  \<^verbatim>\<open>ioport_read_byte\<close> gives 0, so it runs at most once more than there are bytes. The
  fuel is an upper bound of the bytes left (theorem \<open>read_encint_ok\<close>).
\<close>

fun decint_loop :: "nat \<Rightarrow> 'st ioport \<Rightarrow> u64 \<Rightarrow> (u64 \<times> 'st ioport) option" where
  "decint_loop 0 io res = None"
| "decint_loop (Suc fuel) io res =
     (case ioport_read_byte io of (d, io) \<Rightarrow>
      let res = (if res \<noteq> 0 then push_bit 7 res else res);
          res = res OR (ucast d AND 0x7f)
      in if d AND 0x80 \<noteq> 0 then decint_loop fuel io res else Some (res, io))"

definition ioport_read_encint :: "nat \<Rightarrow> 'st ioport \<Rightarrow> (u64 \<times> 'st ioport) option" where
  "ioport_read_encint fuel io = decint_loop fuel io 0"

text \<open>\<open>2 << (intpart-192)\<close> is undefined from 30 on; \<open>ub\<close> is what the code computes.\<close>

definition decfrac_scale :: "(nat \<Rightarrow> int) \<Rightarrow> nat \<Rightarrow> int" where
  "decfrac_scale ub k = (if k < 30 then 2 * 2 ^ k else ub k)"

definition decfrac :: "(nat \<Rightarrow> int) \<Rightarrow> u8 \<Rightarrow> u8 \<Rightarrow> dbl" where
  "decfrac ub a b =
     (if a < 192 then Fin (rnd (of_nat (unat a) + rnd (of_nat (unat b) / 256)))
      else if b = 255 \<and> a = 255 then Inf
      else Fin (rnd (of_nat (unat b) * of_int (decfrac_scale ub (unat a - 192)))))"

definition ioport_read_encfrac :: "(nat \<Rightarrow> int) \<Rightarrow> 'st ioport \<Rightarrow> dbl \<times> 'st ioport" where
  "ioport_read_encfrac ub io =
     (case ioport_read_byte io of (a, io) \<Rightarrow>
      case ioport_read_byte io of (b, io) \<Rightarrow> (decfrac ub a b, io))"

end
