(* ===== verification/IoportSpec.thy ===== *)
theory IoportSpec
  imports Ioport
begin

text \<open>
  What the encoders and decoders of \<^verbatim>\<open>ioport.c\<close> promise, relative to what a provider
  of the port methods promises. The bit stream is specified by lists of booleans, most
  significant bit of a byte first; the byte strings an encoder writes are the \<open>enc_\<close>
  functions. The locale \<open>out_port\<close> is the contract of a \<open>write\<close> method, \<open>in_port\<close> of
  a \<open>read\<close> method.
\<close>

subsection \<open>Bit streams\<close>

definition nbits :: "nat \<Rightarrow> u8 \<Rightarrow> bool list" where
  "nbits n d = map (\<lambda>i. bit d (n - 1 - i)) [0..<n]"

definition byte_bits :: "u8 \<Rightarrow> bool list" where
  "byte_bits b = map (\<lambda>i. bit b (7 - i)) [0..<8]"

definition bits_of :: "bytes \<Rightarrow> bool list" where
  "bits_of bs = concat (map byte_bits bs)"

lemma length_nbits [simp]: "length (nbits n d) = n"
  by (simp add: nbits_def)

lemma length_byte_bits [simp]: "length (byte_bits b) = 8"
  by (simp add: byte_bits_def)

lemma nth_nbits [simp]: "i < n \<Longrightarrow> nbits n d ! i = bit d (n - 1 - i)"
  by (simp add: nbits_def)

lemma nth_byte_bits [simp]: "i < 8 \<Longrightarrow> byte_bits b ! i = bit b (7 - i)"
  by (simp add: byte_bits_def)

lemma bits_of_simps [simp]:
  "bits_of [] = []" "bits_of (b # bs) = byte_bits b @ bits_of bs"
  "bits_of (as @ bs) = bits_of as @ bits_of bs"
  by (simp_all add: bits_of_def)

lemma length_bits_of [simp]: "length (bits_of bs) = 8 * length bs"
  by (induction bs) simp_all

lemma byte_bits_inj: "byte_bits a = byte_bits b \<Longrightarrow> a = b"
proof (rule bit_word_eqI)
  fix n assume e: "byte_bits a = byte_bits b" and n: "n < LENGTH(8)"
  have "byte_bits a ! (7 - n) = byte_bits b ! (7 - n)" using e by simp
  then show "bit a n = bit b n" using n by simp
qed

lemma bits_of_inj: "bits_of as = bits_of bs \<Longrightarrow> as = bs"
proof (induction as arbitrary: bs)
  case Nil
  then show ?case by (cases bs) (auto dest: arg_cong[where f = length])
next
  case (Cons a as)
  then show ?case
  proof (cases bs)
    case Nil
    then show ?thesis using Cons.prems by (auto dest: arg_cong[where f = length])
  next
    case (Cons b cs)
    then have "byte_bits a = byte_bits b" "bits_of as = bits_of cs" using Cons.prems by auto
    then show ?thesis using Cons Cons.IH byte_bits_inj by blast
  qed
qed

lemma bit_BITMASKS: "k \<le> 8 \<Longrightarrow> bit (BITMASKS ! k) n \<longleftrightarrow> n < k"
proof -
  assume k: "k \<le> 8"
  have "BITMASKS ! k = mask k"
  proof -
    have "k \<in> {8, 7, 6, 5, 4, 3, 2, 1, 0}" using k by auto
    then show ?thesis by (auto simp: BITMASKS_def mask_eq_exp_minus_1)
  qed
  then show ?thesis using k by (auto simp: bit_mask_iff)
qed

text \<open>The bits accepted by the writer and not yet written: the \<open>bitpos\<close> top bits of the accumulator.\<close>

definition pending :: "'st ioport \<Rightarrow> bool list" where
  "pending io = take (bitpos io) (byte_bits (bitbuffer io))"

definition bits_ok :: "'st ioport \<Rightarrow> bool" where
  "bits_ok io \<longleftrightarrow> bitpos io < 8 \<and> (\<forall>n < 8 - bitpos io. \<not> bit (bitbuffer io) n)"

lemma pending_0 [simp]: "bitpos io = 0 \<Longrightarrow> pending io = []"
  by (simp add: pending_def)

lemma length_pending: "bits_ok io \<Longrightarrow> length (pending io) = bitpos io"
  by (simp add: pending_def bits_ok_def)

text \<open>The accumulator arithmetic of \<^verbatim>\<open>ioport_write_bits\<close>, without and with a byte boundary.\<close>

lemma acc_inside:
  fixes b d :: u8
  assumes "p + n < 8" "\<forall>k < 8 - p. \<not> bit b k"
  defines "b' \<equiv> b OR push_bit (8 - p - n) (d AND (BITMASKS ! n))"
  shows "take (p + n) (byte_bits b') = take p (byte_bits b) @ nbits n d"
    and "\<forall>k < 8 - (p + n). \<not> bit b' k"
proof -
  have bb: "bit b' k \<longleftrightarrow> bit b k \<or> (8 - p - n \<le> k \<and> k < 8 - p \<and> bit d (k - (8 - p - n)))" for k
  proof -
    have "bit d (k - (8 - p - n)) \<and> k - (8 - p - n) < n \<and> 8 - p - n \<le> k \<longleftrightarrow>
          8 - p - n \<le> k \<and> k < 8 - p \<and> bit d (k - (8 - p - n))" using assms(1) by auto
    then show ?thesis using assms(1)
      by (auto simp: b'_def bit_word_simps bit_BITMASKS)
  qed
  show "take (p + n) (byte_bits b') = take p (byte_bits b) @ nbits n d"
  proof (rule nth_equalityI)
    fix i assume "i < length (take (p + n) (byte_bits b'))"
    then have i: "i < p + n" by simp
    show "take (p + n) (byte_bits b') ! i = (take p (byte_bits b) @ nbits n d) ! i"
    proof (cases "i < p")
      case True
      then show ?thesis using assms(1) by (auto simp: nth_append bb)
    next
      case False
      then have "n - 1 - (i - p) = 7 - i - (8 - p - n)" using i assms(1) by linarith
      then show ?thesis using False i assms(1,2) by (auto simp: nth_append bb)
    qed
  qed (use assms(1) in simp)
  show "\<forall>k < 8 - (p + n). \<not> bit b' k" using assms(1,2) by (auto simp: bb)
qed

lemma acc_across:
  fixes b d :: u8
  assumes "p < 8" "8 \<le> p + n" "n \<le> 8" "\<forall>k < 8 - p. \<not> bit b k"
  defines "n2 \<equiv> n - (8 - p)"
  defines "b' \<equiv> b OR (drop_bit n2 d AND (BITMASKS ! (8 - p)))"
  defines "c \<equiv> if n2 \<noteq> 0 then push_bit (8 - n2) (d AND (BITMASKS ! n2)) else (0 :: u8)"
  shows "byte_bits b' @ take n2 (byte_bits c) = take p (byte_bits b) @ nbits n d"
    and "\<forall>k < 8 - n2. \<not> bit c k"
proof -
  have n2: "n2 \<le> p" "n = n2 + (8 - p)" using assms(1-3) by (auto simp: n2_def)
  have bb: "bit b' k \<longleftrightarrow> bit b k \<or> (k < 8 - p \<and> bit d (k + n2))" for k
    by (auto simp: b'_def bit_word_simps bit_BITMASKS add.commute)
  have cc: "bit c k \<longleftrightarrow> 8 - n2 \<le> k \<and> k < 8 \<and> bit d (k - (8 - n2))" for k
  proof -
    have "n2 \<le> 8" using n2 assms(1) by linarith
    then show ?thesis by (auto simp: c_def bit_word_simps bit_BITMASKS dest: word8_bit_bound)
  qed
  show "byte_bits b' @ take n2 (byte_bits c) = take p (byte_bits b) @ nbits n d"
  proof (rule nth_equalityI)
    fix i assume "i < length (byte_bits b' @ take n2 (byte_bits c))"
    then have i: "i < 8 + n2" by (simp split: if_splits)
    consider "i < p" | "p \<le> i" "i < 8" | "8 \<le> i" by linarith
    then show "(byte_bits b' @ take n2 (byte_bits c)) ! i = (take p (byte_bits b) @ nbits n d) ! i"
    proof cases
      case 1
      then show ?thesis using assms(1) by (auto simp: nth_append bb)
    next
      case 2
      then have "n - 1 - (i - p) = 7 - i + n2" "7 - i < 8 - p" using n2 assms(1) by linarith+
      then show ?thesis using 2 assms(1,4) n2 by (auto simp: nth_append bb)
    next
      case 3
      then have "n - 1 - (i - p) = 7 - (i - 8) - (8 - n2)" "8 - n2 \<le> 7 - (i - 8)"
        using n2 assms(1) i by linarith+
      then show ?thesis using 3 i assms(1) n2 by (auto simp: nth_append cc)
    qed
  qed (use n2 assms(1) in auto)
  show "\<forall>k < 8 - n2. \<not> bit c k" by (auto simp: cc)
qed

text \<open>Packing a bit stream into bytes, the last one padded with zeros.\<close>

definition byte_of_bits :: "bool list \<Rightarrow> u8" where
  "byte_of_bits bs = horner_sum of_bool 2 (rev (take 8 (bs @ replicate 8 False)))"

fun pack :: "bool list \<Rightarrow> bytes" where
  "pack [] = []"
| "pack (b # bs) = byte_of_bits (take 8 (b # bs)) # pack (drop 7 bs)"

lemma byte_bits_of_bits: "length bs \<le> 8 \<Longrightarrow> byte_bits (byte_of_bits bs) = bs @ replicate (8 - length bs) False"
proof -
  assume l: "length bs \<le> 8"
  have "bit (byte_of_bits bs) (7 - i) = (bs @ replicate (8 - length bs) False) ! i" if "i < 8" for i
    using that l by (auto simp: byte_of_bits_def bit_horner_sum_bit_word_iff rev_nth nth_append)
  then show ?thesis using l by (intro nth_equalityI) auto
qed

lemma pack_nonempty: "bs \<noteq> [] \<Longrightarrow> pack bs = byte_of_bits (take 8 bs) # pack (drop 8 bs)"
  by (cases bs) simp_all

lemma bits_of_pack: "\<exists>z < 8. bits_of (pack bs) = bs @ replicate z False"
proof (induction bs rule: pack.induct)
  case (2 b bs)
  let ?l = "b # bs"
  show ?case
  proof (cases "length ?l \<le> 8")
    case True
    then have "drop 7 bs = []" "take 8 ?l = ?l" by simp_all
    then have "bits_of (pack ?l) = ?l @ replicate (8 - length ?l) False"
      using byte_bits_of_bits[of ?l] True by (simp del: take_Suc_Cons)
    then show ?thesis by (intro exI[of _ "8 - length ?l"]) simp
  next
    case False
    then have "byte_bits (byte_of_bits (take 8 ?l)) = take 8 ?l"
      using byte_bits_of_bits[of "take 8 ?l"] by simp
    moreover have "drop 7 bs = drop 8 ?l" by simp
    ultimately show ?thesis using "2.IH" append_take_drop_id[of 8 ?l] by (metis append.assoc bits_of_simps(2) pack.simps(2))
  qed
qed simp

lemma pack_byte: "pack (byte_bits b @ bs) = b # pack bs"
proof -
  have "byte_bits b @ bs \<noteq> []" using length_byte_bits[of b] by (metis append_is_Nil_conv list.size(3) zero_neq_numeral)
  moreover have "byte_of_bits (byte_bits b) = b"
    using byte_bits_of_bits[of "byte_bits b"] by (intro byte_bits_inj) simp
  ultimately show ?thesis by (simp add: pack_nonempty)
qed

lemma pack_bits_of: "pack (bits_of xs @ bs) = xs @ pack bs"
  by (induction xs) (simp_all add: pack_byte)

lemma length_pack: "length (pack bs) = (length bs + 7) div 8"
  by (induction bs rule: pack.induct) (auto split: nat_diff_split)

subsection \<open>The contract of a \<open>write\<close> method\<close>

locale out_port =
  fixes w :: "'st \<Rightarrow> bytes \<Rightarrow> bool \<times> 'st"
    and inv :: "'st \<Rightarrow> bool"
    and written :: "'st \<Rightarrow> bytes"
    and cap :: "'st \<Rightarrow> nat"
  assumes w_ok: "inv st \<Longrightarrow> d \<noteq> [] \<Longrightarrow> length (written st) + length d \<le> cap st \<Longrightarrow>
      \<exists>st'. w st d = (True, st') \<and> inv st' \<and> written st' = written st @ d \<and> cap st' = cap st"
begin

definition fits :: "'st ioport \<Rightarrow> nat \<Rightarrow> bool" where
  "fits io n \<longleftrightarrow> length (written (storage io)) + n \<le> cap (storage io)"

definition ready :: "'st ioport \<Rightarrow> bool" where
  "ready io \<longleftrightarrow> wr io = w \<and> inv (storage io) \<and> bitpos io = 0 \<and> bitbuffer io = 0"

definition emits :: "'st ioport \<Rightarrow> bytes \<Rightarrow> bool \<times> 'st ioport \<Rightarrow> bool" where
  "emits io bs r \<longleftrightarrow> (\<exists>st'. r = (True, io\<lparr>storage := st', bitpos := 0, bitbuffer := 0\<rparr>) \<and> inv st' \<and>
      written st' = written (storage io) @ bs \<and> cap st' = cap (storage io))"

lemma method_ok:
  assumes "wr io = w" "inv (storage io)" "d \<noteq> []" "fits io (length d)"
  obtains st' where "io_method_write io d = (True, io\<lparr>storage := st'\<rparr>)" "inv st'"
    "written st' = written (storage io) @ d" "cap st' = cap (storage io)"
  using w_ok[of "storage io" d] assms unfolding fits_def io_method_write_def
  by (auto split: prod.splits)

lemma emits_write: "ready io \<Longrightarrow> d \<noteq> [] \<Longrightarrow> fits io (length d) \<Longrightarrow> emits io d (ioport_write io d)"
  using method_ok[of io d] unfolding ready_def emits_def ioport_write_def
  by (metis (no_types, lifting) ioport.surjective ioport.update_convs(7,8) ioport.update_convs(6))

lemma emits_byte: "ready io \<Longrightarrow> fits io 1 \<Longrightarrow> emits io [b] (ioport_write_byte io b)"
  using emits_write[of io "[b]"] unfolding ready_def ioport_write_byte_def ioport_write_def by simp

lemma emits_then:
  assumes r: "emits io as r" and io: "ready io" "fits io (length as + length bs)"
    and f: "\<And>io'. ready io' \<Longrightarrow> fits io' (length bs) \<Longrightarrow> emits io' bs (f io')"
  shows "emits io (as @ bs) (and_then r f)"
proof -
  obtain st' where r: "r = (True, io\<lparr>storage := st', bitpos := 0, bitbuffer := 0\<rparr>)" and st': "inv st'"
      "written st' = written (storage io) @ as" "cap st' = cap (storage io)"
    using r unfolding emits_def by blast
  let ?io = "io\<lparr>storage := st', bitpos := 0, bitbuffer := 0\<rparr>"
  have "ready ?io" "fits ?io (length bs)" using io st' by (auto simp: ready_def fits_def)
  then have "emits ?io bs (f ?io)" by (rule f)
  then show ?thesis using r st' unfolding emits_def by auto
qed

lemma emits_after:
  assumes "emits io as (ok, io1)" "ready io"
  shows "ok" "ready io1" "fits io (length as + n) \<Longrightarrow> fits io1 n"
    "emits io1 bs res \<Longrightarrow> emits io (as @ bs) res"
proof -
  obtain st' where r: "ok" "io1 = io\<lparr>storage := st', bitpos := 0, bitbuffer := 0\<rparr>" and st': "inv st'"
      "written st' = written (storage io) @ as" "cap st' = cap (storage io)"
    using assms(1) unfolding emits_def by blast
  show "ok" "ready io1" "fits io (length as + n) \<Longrightarrow> fits io1 n"
    using r st' assms(2) by (auto simp: ready_def fits_def)
  show "emits io1 bs res \<Longrightarrow> emits io (as @ bs) res"
    using r st' unfolding emits_def by auto
qed

lemma write_bits_ok:
  assumes io: "wr io = w" "inv (storage io)" "bits_ok io" "n \<le> 8"
    and room: "8 \<le> bitpos io + n \<Longrightarrow> fits io 1"
  shows "\<exists>x st' bp bb. ioport_write_bits io d n = (True, io\<lparr>storage := st', bitpos := bp, bitbuffer := bb\<rparr>) \<and>
    bits_ok (io\<lparr>bitpos := bp, bitbuffer := bb\<rparr>) \<and>
    bits_of x @ pending (io\<lparr>bitpos := bp, bitbuffer := bb\<rparr>) = pending io @ nbits n d \<and>
    inv st' \<and> written st' = written (storage io) @ x \<and> cap st' = cap (storage io)"
proof (cases "bitpos io + n < 8")
  case True
  let ?bb = "bitbuffer io OR push_bit (8 - bitpos io - n) (d AND (BITMASKS ! n))"
  have b: "\<forall>k < 8 - bitpos io. \<not> bit (bitbuffer io) k" using io by (simp add: bits_ok_def)
  note a = acc_inside[OF True b, of d]
  have "ioport_write_bits io d n = (True, io\<lparr>storage := storage io, bitpos := bitpos io + n, bitbuffer := ?bb\<rparr>)"
    using True io(4) by (simp add: ioport_write_bits_def Let_def)
  then show ?thesis using a True io
    by (intro exI[of _ "[]"] exI[of _ "storage io"] exI[of _ "bitpos io + n"] exI[of _ ?bb])
       (simp add: bits_ok_def pending_def)
next
  case False
  define n2 where "n2 = n - (8 - bitpos io)"
  let ?b = "bitbuffer io OR (drop_bit n2 d AND (BITMASKS ! (8 - bitpos io)))"
  let ?c = "if n2 \<noteq> 0 then push_bit (8 - n2) (d AND (BITMASKS ! n2)) else (0 :: u8)"
  have p: "bitpos io < 8" "8 \<le> bitpos io + n" and b: "\<forall>k < 8 - bitpos io. \<not> bit (bitbuffer io) k"
    using io False by (auto simp: bits_ok_def)
  note a = acc_across[OF p io(4) b, of d, folded n2_def]
  let ?io = "io\<lparr>bitbuffer := ?b, bitpos := 8\<rparr>"
  have "fits ?io (length [?b])" using room[OF p(2)] by (simp add: fits_def)
  then obtain st' where st': "io_method_write ?io [?b] = (True, ?io\<lparr>storage := st'\<rparr>)" "inv st'"
      "written st' = written (storage io) @ [?b]" "cap st' = cap (storage io)"
    using method_ok[of ?io "[?b]"] io by auto
  have "ioport_write_bits io d n = (True, io\<lparr>storage := st', bitpos := n2, bitbuffer := ?c\<rparr>)"
    using False p io(4) st'(1) by (simp add: ioport_write_bits_def Let_def n2_def)
  moreover have "n2 < 8" using p io(4) unfolding n2_def by linarith
  ultimately show ?thesis using a st'
    by (intro exI[of _ "[?b]"] exI[of _ st'] exI[of _ n2] exI[of _ ?c]) (simp add: bits_ok_def pending_def)
qed

end

subsection \<open>The byte strings of the encoders\<close>

definition code6 :: "char \<Rightarrow> bool list" where
  "code6 c = nbits 6 (DECSET ! char_code c)"

definition enc_string :: "string \<Rightarrow> bytes" where
  "enc_string s =
     (if encodable s = Ok True then (of_nat (length s) OR 0x80) # pack (concat (map code6 s))
      else of_nat (length s) # str_bytes s)"

definition enc_u64 :: "u64 \<Rightarrow> bytes" where
  "enc_u64 i = map (\<lambda>k. byte_of i k) [56, 48, 40, 32, 24, 16, 8, 0]"

definition enc_u32 :: "u32 \<Rightarrow> bytes" where
  "enc_u32 i = map (\<lambda>k. byte_of (ucast i) k) [24, 16, 8, 0]"

definition enc_uuid :: "uuid \<Rightarrow> bytes" where
  "enc_uuid u = enc_u64 (msb u) @ enc_u64 (lsb u)"

definition enc_frac :: "dbl \<Rightarrow> bytes" where
  "enc_frac d = [fst (encfrac_bytes d), snd (encfrac_bytes d)]"

definition group7 :: "u64 \<Rightarrow> nat \<Rightarrow> u8" where
  "group7 i k = ucast (drop_bit (7 * k) i) AND 0x7f"

definition enc_int :: "u64 \<Rightarrow> bytes" where
  "enc_int i =
     (let c = (\<lambda>k. group7 i k OR 0x80) in
      if i < 2 ^ 7 then [group7 i 0]
      else if i < 2 ^ 14 then [c 1, group7 i 0]
      else if i < 2 ^ 21 then [c 2, c 1, group7 i 0]
      else [c 3, c 2, c 1, group7 i 0])"

lemma length_enc [simp]:
  "length (enc_u64 i) = 8" "length (enc_u32 j) = 4" "length (enc_uuid u) = 16" "length (enc_frac d) = 2"
  by (simp_all add: enc_u64_def enc_u32_def enc_uuid_def enc_frac_def)

lemma enc_not_Nil [simp]: "enc_string s \<noteq> []" "enc_u64 i \<noteq> []" "enc_u32 j \<noteq> []" "enc_uuid u \<noteq> []"
  "enc_int i \<noteq> []" "enc_frac d \<noteq> []"
  by (simp_all add: enc_string_def enc_u64_def enc_u32_def enc_uuid_def enc_int_def enc_frac_def Let_def)

fun encint_list :: "(nat \<Rightarrow> int) \<Rightarrow> u64 \<Rightarrow> nat list \<Rightarrow> bool \<Rightarrow> bytes" where
  "encint_list ub i [] started = []"
| "encint_list ub i (bp # bps) started =
     (let byte = (ucast (drop_bit bp (i AND encint_mask ub bp)) :: u8)
      in if byte \<noteq> 0 \<or> started
         then (if bp \<noteq> 0 then byte OR 0x80 else byte) # encint_list ub i bps True
         else encint_list ub i bps started)"

lemma word_less_exp: "k < 64 \<Longrightarrow> (i :: u64) < 2 ^ k \<longleftrightarrow> unat i < 2 ^ k"
proof -
  assume k: "k < 64"
  have "unat (2 ^ k :: u64) = 2 ^ k"
  proof -
    have "(2 ^ k :: u64) = of_nat (2 ^ k)" by simp
    then have "unat (2 ^ k :: u64) = take_bit LENGTH(64) (2 ^ k :: nat)"
      by (simp only: unsigned_of_nat of_nat_id)
    moreover have "take_bit LENGTH(64) (2 ^ k :: nat) = 2 ^ k"
      unfolding take_bit_nat_eq_self_iff using k by (intro power_strict_increasing) simp_all
    ultimately show ?thesis by simp
  qed
  then show ?thesis by (simp add: word_less_nat_alt)
qed

lemma small_bits:
  assumes "i < 2 ^ k" "bit (i :: u64) n" "k < 64"
  shows "n < k"
proof (rule ccontr)
  assume "\<not> n < k"
  then have "(2 :: nat) ^ k \<le> 2 ^ n" by simp
  moreover have "unat i < 2 ^ k" using assms by (simp add: word_less_exp)
  moreover have "bit (unat i) n" using assms(2) by (simp add: bit_unsigned_iff bit_imp_le_length[of i n, simplified])
  ultimately show False by (metis bit_take_bit_iff less_le_trans take_bit_nat_eq_self_iff less_irrefl)
qed

lemma bits_small:
  assumes "k < 64" "\<And>n. bit (i :: u64) n \<Longrightarrow> n < k"
  shows "i < 2 ^ k"
  using unat_bits_less[of i k, OF assms(2)] assms(1) by (simp add: word_less_exp)

lemma encint_high: "i < 2 ^ 28 \<Longrightarrow> 28 \<le> bp \<Longrightarrow> drop_bit bp (i AND m) = (0 :: u64)"
proof (rule bit_word_eqI)
  fix n assume "i < 2 ^ 28" "28 \<le> bp" "n < LENGTH(64)"
  then show "bit (drop_bit bp (i AND m)) n = bit (0 :: u64) n"
    using small_bits[of i 28 "bp + n"] by (auto simp: bit_word_simps)
qed

lemma encint_group: "bp < 25 \<Longrightarrow> (ucast (drop_bit bp (i AND encint_mask ub bp)) :: u8) = ucast (drop_bit bp i) AND 0x7f"
  by (rule bit_word_eqI) (auto simp: encint_mask_def bit_word_simps bit_ucast_iff)

lemma group7_zero_iff:
  "i < 2 ^ (7 * Suc k) \<Longrightarrow> k < 8 \<Longrightarrow> group7 i k = 0 \<longleftrightarrow> i < 2 ^ (7 * k)"
proof
  assume a: "i < 2 ^ (7 * Suc k)" "k < 8" "group7 i k = 0"
  show "i < 2 ^ (7 * k)"
  proof (rule bits_small)
    fix n assume b: "bit i n"
    show "n < 7 * k"
    proof (rule ccontr)
      assume lo: "\<not> n < 7 * k"
      have n: "n < 7 * Suc k" using small_bits[OF a(1) b] a(2) by simp
      then have "n - 7 * k < 7" using lo by simp
      then have "bit (group7 i k) (n - 7 * k)" using b lo
        by (simp add: group7_def bit_word_simps bit_ucast_iff)
      then show False using a(3) by simp
    qed
  qed (use a in simp)
next
  assume a: "k < 8" "i < 2 ^ (7 * k)"
  show "group7 i k = 0"
    by (rule bit_word_eqI) (use a small_bits[OF a(2)] in \<open>fastforce simp: group7_def bit_word_simps bit_ucast_iff\<close>)
qed

lemma encint_skip:
  "(ucast (drop_bit bp (i AND encint_mask ub bp)) :: u8) = 0 \<Longrightarrow>
   encint_list ub i (bp # bps) False = encint_list ub i bps False"
  by (simp only: encint_list.simps Let_def simp_thms if_False)

lemma encint_list_28:
  assumes "i < 2 ^ 28" "i \<noteq> 0"
  shows "encint_list ub i [56, 49, 42, 35, 28, 21, 14, 7, 0] False = enc_int i"
proof -
  have g: "(ucast (drop_bit 21 (i AND encint_mask ub 21)) :: u8) = group7 i 3"
    "(ucast (drop_bit 14 (i AND encint_mask ub 14)) :: u8) = group7 i 2"
    "(ucast (drop_bit 7 (i AND encint_mask ub 7)) :: u8) = group7 i 1"
    "(ucast (drop_bit 0 (i AND encint_mask ub 0)) :: u8) = group7 i 0"
    by (subst encint_group; simp add: group7_def)+
  have hi: "(ucast (drop_bit 56 (i AND encint_mask ub 56)) :: u8) = 0"
    "(ucast (drop_bit 49 (i AND encint_mask ub 49)) :: u8) = 0"
    "(ucast (drop_bit 42 (i AND encint_mask ub 42)) :: u8) = 0"
    "(ucast (drop_bit 35 (i AND encint_mask ub 35)) :: u8) = 0"
    "(ucast (drop_bit 28 (i AND encint_mask ub 28)) :: u8) = 0"
    by (subst encint_high[OF assms(1)]; simp)+
  have low: "encint_list ub i [56, 49, 42, 35, 28, 21, 14, 7, 0] False = encint_list ub i [21, 14, 7, 0] False"
    by (simp only: encint_skip hi)
  have z: "group7 i 3 = 0 \<longleftrightarrow> i < 2 ^ 21"
    "i < 2 ^ 21 \<Longrightarrow> group7 i 2 = 0 \<longleftrightarrow> i < 2 ^ 14"
    "i < 2 ^ 14 \<Longrightarrow> group7 i 1 = 0 \<longleftrightarrow> i < 2 ^ 7"
    "i < 2 ^ 7 \<Longrightarrow> group7 i 0 \<noteq> 0"
    using group7_zero_iff[of i 3] group7_zero_iff[of i 2] group7_zero_iff[of i 1]
      group7_zero_iff[of i 0] assms by simp_all
  have m: "i < 2 ^ 7 \<Longrightarrow> i < 2 ^ 14" "i < 2 ^ 14 \<Longrightarrow> i < 2 ^ 21"
    by (erule less_trans, simp)+
  consider "i < 2 ^ 7" "i < 2 ^ 14" "i < 2 ^ 21" | "\<not> i < 2 ^ 7" "i < 2 ^ 14" "i < 2 ^ 21"
    | "\<not> i < 2 ^ 7" "\<not> i < 2 ^ 14" "i < 2 ^ 21" | "\<not> i < 2 ^ 7" "\<not> i < 2 ^ 14" "\<not> i < 2 ^ 21"
    using m by blast
  then show ?thesis unfolding low
    by cases (simp_all only: encint_list.simps g z enc_int_def Let_def simp_thms if_True if_False
        zero_neq_numeral zero_neq_one not_False_eq_True, simp_all)
qed

lemma encodable_Fault: "encodable s = Fault e \<Longrightarrow> \<exists>c \<in> set s. char_code c > 127"
  by (induction s rule: encodable.induct) (auto split: if_splits)

lemma encodable_Ok: "\<forall>c \<in> set s. char_code c < 128 \<Longrightarrow>
  encodable s = Ok (\<forall>c \<in> set s. DECSET ! char_code c \<noteq> 255)"
  by (induction s rule: encodable.induct) (auto simp: not_less)

context out_port
begin

lemma emits_nil: "ready io \<Longrightarrow> emits io [] (True, io)"
  unfolding ready_def emits_def by (rule exI[of _ "storage io"]) (cases io, simp)

lemma emits_encint_loop:
  "ready io \<Longrightarrow> fits io (length (encint_list ub i bps started)) \<Longrightarrow>
   emits io (encint_list ub i bps started) (encint_loop ub io i bps started)"
proof (induction bps arbitrary: io started)
  case Nil
  then show ?case by (simp add: emits_nil)
next
  case (Cons bp bps)
  let ?byte = "ucast (drop_bit bp (i AND encint_mask ub bp)) :: u8"
  show ?case
  proof (cases "?byte \<noteq> 0 \<or> started")
    case True
    let ?b = "if bp \<noteq> 0 then ?byte OR 0x80 else ?byte"
    have "fits io (length [?b] + length (encint_list ub i bps True))"
      using Cons.prems True by (simp add: Let_def)
    moreover from this have "emits io [?b] (ioport_write_byte io ?b)"
      using Cons.prems by (intro emits_byte) (auto simp: fits_def)
    ultimately have "emits io ([?b] @ encint_list ub i bps True)
        (and_then (ioport_write_byte io ?b) (\<lambda>io. encint_loop ub io i bps True))"
      using Cons by (intro emits_then) auto
    then show ?thesis
      by (simp only: encint_list.simps encint_loop.simps Let_def if_True append_Cons append_Nil True)
  next
    case False
    then show ?thesis using Cons by (simp add: Let_def)
  qed
qed

lemma emits_encint:
  assumes "ready io" "fits io (length (enc_int i))" "i < 2 ^ 28"
  shows "emits io (enc_int i) (ioport_write_encint ub io i)"
proof (cases "i = 0")
  case True
  have e: "enc_int i = [0]" using True by (simp add: enc_int_def group7_def)
  show ?thesis using assms True unfolding e ioport_write_encint_def by (simp add: emits_byte)
next
  case False
  then show ?thesis
    using emits_encint_loop[OF assms(1), of ub i "[56, 49, 42, 35, 28, 21, 14, 7, 0]" False] assms(2)
    unfolding encint_list_28[OF assms(3) False] by (simp add: ioport_write_encint_def)
qed

lemma emits_u64: "ready io \<Longrightarrow> fits io 8 \<Longrightarrow> emits io (enc_u64 i) (ioport_write_u64 io i)"
  unfolding ioport_write_u64_def enc_u64_def[symmetric] by (rule emits_write) simp_all

lemma emits_u32: "ready io \<Longrightarrow> fits io 4 \<Longrightarrow> emits io (enc_u32 i) (ioport_write_u32 io i)"
  unfolding ioport_write_u32_def enc_u32_def[symmetric] by (rule emits_write) simp_all

lemma emits_uuid: "ready io \<Longrightarrow> fits io 16 \<Longrightarrow> emits io (enc_uuid u) (ioport_write_uuid io u)"
proof -
  assume io: "ready io" "fits io 16"
  have "ioport_write_uuid io u = ioport_write io (enc_uuid u)"
    by (simp add: ioport_write_uuid_def enc_uuid_def enc_u64_def)
  then show ?thesis using emits_write[OF io(1), of "enc_uuid u"] io(2) by simp
qed

lemma emits_encfrac: "ready io \<Longrightarrow> fits io 2 \<Longrightarrow> emits io (enc_frac d) (ioport_write_encfrac io d)"
proof -
  assume io: "ready io" "fits io 2"
  obtain a b where ab: "encfrac_bytes d = (a, b)" by fastforce
  have e: "enc_frac d = [a, b]" by (simp add: enc_frac_def ab)
  have "emits io ([a] @ [b]) (and_then (ioport_write_byte io a) (\<lambda>io. ioport_write_byte io b))"
    using io by (intro emits_then emits_byte) (auto simp: fits_def)
  moreover have "emits io [a, b] (ioport_write io [a, b])" using io by (intro emits_write) (auto simp: numeral_2_eq_2)
  ultimately show ?thesis unfolding e ioport_write_encfrac_def by (simp add: ab)
qed

lemma flush_ok:
  assumes "wr io = w" "inv (storage io)" "bits_ok io" "fits io (length (pack (pending io)))"
    "bitpos io = 0 \<Longrightarrow> bitbuffer io = 0"
  shows "emits io (pack (pending io)) (ioport_flush_bits io)"
proof (cases "bitpos io = 0")
  case True
  then have "ready io" using assms by (simp add: ready_def)
  then show ?thesis using True emits_nil[of io] by (simp add: ioport_flush_bits_def)
next
  case False
  have b: "pending io \<noteq> []" using False length_pending[OF assms(3)] by auto
  have l: "length (pending io) < 8" using assms(3) by (simp add: length_pending) (simp add: bits_ok_def)
  have "byte_of_bits (pending io) = bitbuffer io"
  proof (rule byte_bits_inj)
    have d: "drop (bitpos io) (byte_bits (bitbuffer io)) = replicate (8 - bitpos io) False"
    proof (rule nth_equalityI)
      fix i assume "i < length (drop (bitpos io) (byte_bits (bitbuffer io)))"
      then have i: "i < 8 - bitpos io" by simp
      then have "7 - (bitpos io + i) < 8 - bitpos io" by linarith
      then have "\<not> bit (bitbuffer io) (7 - (bitpos io + i))" using assms(3) unfolding bits_ok_def by blast
      then show "drop (bitpos io) (byte_bits (bitbuffer io)) ! i = replicate (8 - bitpos io) False ! i"
        using i by simp
    qed simp
    have "byte_bits (byte_of_bits (pending io)) = pending io @ replicate (8 - bitpos io) False"
      using byte_bits_of_bits[of "pending io"] l unfolding length_pending[OF assms(3)] by simp
    then show "byte_bits (byte_of_bits (pending io)) = byte_bits (bitbuffer io)"
      unfolding d[symmetric] pending_def append_take_drop_id .
  qed
  then have p: "pack (pending io) = [bitbuffer io]"
    using b l pack_nonempty[OF b] by simp
  obtain st' where "io_method_write io [bitbuffer io] = (True, io\<lparr>storage := st'\<rparr>)" "inv st'"
      "written st' = written (storage io) @ [bitbuffer io]" "cap st' = cap (storage io)"
    using method_ok[OF assms(1,2), of "[bitbuffer io]"] assms(4) unfolding p by auto
  then show ?thesis using False unfolding p emits_def
    by (intro exI[of _ st']) (simp add: ioport_flush_bits_def)
qed

lemma emits_sixbits:
  assumes "wr io = w" "inv (storage io)" "bits_ok io" "bitpos io = 0 \<longrightarrow> bitbuffer io = 0"
    "fits io (length (pack (pending io @ concat (map code6 s))))"
  shows "emits io (pack (pending io @ concat (map code6 s))) (write_sixbits io s)"
  using assms
proof (induction s arbitrary: io)
  case Nil
  then show ?case using flush_ok[of io] by simp
next
  case (Cons c s)
  let ?d = "DECSET ! char_code c"
  have "fits io 1" if "8 \<le> bitpos io + 6"
    using Cons.prems(5) by (simp add: fits_def length_pack code6_def)
  then obtain x st' bp bb where
    wb: "ioport_write_bits io ?d 6 = (True, io\<lparr>storage := st', bitpos := bp, bitbuffer := bb\<rparr>)"
    and ok: "bits_ok (io\<lparr>bitpos := bp, bitbuffer := bb\<rparr>)"
    and x: "bits_of x @ pending (io\<lparr>bitpos := bp, bitbuffer := bb\<rparr>) = pending io @ nbits 6 ?d"
    and st': "inv st'" "written st' = written (storage io) @ x" "cap st' = cap (storage io)"
    using write_bits_ok[OF Cons.prems(1-3), of 6 ?d] by auto
  let ?io = "io\<lparr>storage := st', bitpos := bp, bitbuffer := bb\<rparr>"
  have pend: "pending ?io = pending (io\<lparr>bitpos := bp, bitbuffer := bb\<rparr>)" by (simp add: pending_def)
  have bytes: "pack (pending io @ concat (map code6 (c # s))) = x @ pack (pending ?io @ concat (map code6 s))"
    using x unfolding pend by (simp add: code6_def flip: pack_bits_of) (simp flip: append_assoc)
  have z: "bp = 0 \<longrightarrow> bb = 0"
  proof
    assume "bp = 0"
    then have "bb = 0" using ok word8_bit_bound by (intro bit_word_eqI) (auto simp: bits_ok_def)
    then show "bb = 0" .
  qed
  have "emits ?io (pack (pending ?io @ concat (map code6 s))) (write_sixbits ?io s)"
    using Cons.prems ok st' z bytes by (intro Cons.IH) (auto simp: bits_ok_def fits_def)
  then show ?case unfolding bytes using st' by (auto simp: wb emits_def)
qed

lemma emits_encstring:
  assumes "ready io" "length s \<le> 127" "\<forall>c \<in> set s. char_code c < 128" "fits io (length (enc_string s))"
  shows "\<exists>r. ioport_write_encstring io s = Ok r \<and> emits io (enc_string s) r"
proof (cases "encodable s = Ok True")
  case True
  let ?p = "pack (concat (map code6 s))"
  have e: "enc_string s = [of_nat (length s) OR 0x80] @ ?p" using True by (simp add: enc_string_def)
  have six: "emits io' ?p (write_sixbits io' s)" if "ready io'" "fits io' (length ?p)" for io'
    using emits_sixbits[of io' s] that by (simp add: ready_def bits_ok_def)
  have "emits io (enc_string s) (and_then (ioport_write_byte io (of_nat (length s) OR 0x80)) (\<lambda>io. write_sixbits io s))"
    unfolding e using assms(1,4) six by (intro emits_then emits_byte) (auto simp: e fits_def)
  then show ?thesis using True assms(2) by (simp add: ioport_write_encstring_def Let_def)
next
  case False
  then have f: "encodable s = Ok False" using encodable_Ok[OF assms(3)] by auto
  then have s: "str_bytes s \<noteq> []" by (cases s) (auto simp: str_bytes_def)
  have e: "enc_string s = [of_nat (length s)] @ str_bytes s" using False by (simp add: enc_string_def)
  have "emits io (enc_string s) (and_then (ioport_write_byte io (of_nat (length s))) (\<lambda>io. ioport_write io (str_bytes s)))"
    unfolding e using assms(1,4) s by (intro emits_then emits_byte emits_write) (auto simp: e fits_def)
  then show ?thesis using f assms(2) by (simp add: ioport_write_encstring_def Let_def)
qed

end

subsection \<open>The contract of a \<open>read\<close> method\<close>

text \<open>The accumulator arithmetic of \<^verbatim>\<open>ioport_read_bits\<close>.\<close>

lemma nbits_inj:
  assumes "nbits n a = nbits n b" "\<And>k. bit a k \<Longrightarrow> k < n" "\<And>k. bit b k \<Longrightarrow> k < n"
  shows "a = b"
proof (rule bit_word_eqI)
  fix k assume "k < LENGTH(8)"
  show "bit a k = bit b k"
  proof (cases "k < n")
    case True
    then have "nbits n a ! (n - 1 - k) = nbits n b ! (n - 1 - k)" using assms(1) by simp
    then show ?thesis using True by simp
  next
    case False
    then show ?thesis using assms(2,3) by auto
  qed
qed

lemma get_inside:
  fixes b :: u8
  assumes "p + n \<le> 8" "0 < n"
  defines "v \<equiv> drop_bit (8 - p - n) (b AND push_bit (8 - p - n) (BITMASKS ! n))"
  shows "nbits n v = take n (drop p (byte_bits b))" and "bit v k \<Longrightarrow> k < n"
proof -
  have v: "bit v k \<longleftrightarrow> k < n \<and> bit b (8 - p - n + k)" for k
    using assms(1) by (auto simp: v_def bit_word_simps bit_BITMASKS dest: word8_bit_bound)
  show "nbits n v = take n (drop p (byte_bits b))"
  proof (rule nth_equalityI)
    fix i assume "i < length (nbits n v)"
    then have i: "i < n" by simp
    then have "8 - p - n + (n - 1 - i) = 7 - (p + i)" using assms(1) by linarith
    then show "nbits n v ! i = take n (drop p (byte_bits b)) ! i"
      using i assms(1) by (simp add: v)
  qed (use assms(1) in simp)
  show "bit v k \<Longrightarrow> k < n" by (simp add: v)
qed

lemma get_across:
  fixes b c :: u8
  assumes "p \<le> 8" "8 < p + n" "n \<le> 8"
  defines "n2 \<equiv> n - (8 - p)"
  defines "v \<equiv> push_bit n2 (b AND (BITMASKS ! (8 - p))) OR drop_bit (8 - n2) (c AND push_bit (8 - n2) (BITMASKS ! n2))"
  shows "nbits n v = drop p (byte_bits b) @ take n2 (byte_bits c)" and "bit v k \<Longrightarrow> k < n"
proof -
  have n2: "0 < n2" "n2 \<le> 8" "n = n2 + (8 - p)" "n2 \<le> p" using assms(1-3) by (auto simp: n2_def)
  have v: "bit v k \<longleftrightarrow> (n2 \<le> k \<and> k < n \<and> bit b (k - n2)) \<or> (k < n2 \<and> bit c (8 - n2 + k))" for k
  proof -
    have "k < 8" if "n2 \<le> k" "k - n2 < 8 - p" using that n2 assms(3) by linarith
    moreover have "k - n2 < 8 - p \<longleftrightarrow> k < n" if "n2 \<le> k" using that n2 by linarith
    ultimately show ?thesis using n2
      by (auto simp: v_def bit_word_simps bit_BITMASKS dest: word8_bit_bound)
  qed
  show "nbits n v = drop p (byte_bits b) @ take n2 (byte_bits c)"
  proof (rule nth_equalityI)
    fix i assume "i < length (nbits n v)"
    then have i: "i < n" by simp
    show "nbits n v ! i = (drop p (byte_bits b) @ take n2 (byte_bits c)) ! i"
    proof (cases "i < 8 - p")
      case True
      then have "n - 1 - i - n2 = 7 - (p + i)" "n2 \<le> n - 1 - i" using n2 assms(1) by linarith+
      then show ?thesis using True i n2 by (auto simp: nth_append v)
    next
      case False
      then have "8 - n2 + (n - 1 - i) = 7 - (i - (8 - p))" "n - 1 - i < n2" "i - (8 - p) < n2"
        using n2 i assms(1) by linarith+
      then show ?thesis using False i n2 by (auto simp: nth_append v)
    qed
  qed (use n2 assms(1) in auto)
  show "bit v k \<Longrightarrow> k < n" using n2 by (auto simp: v)
qed

definition unread :: "'st ioport \<Rightarrow> bool list" where
  "unread io = (if bitpos io = 0 then [] else drop (bitpos io) (byte_bits (bitbuffer io)))"

lemma byte_of_bit: "bit (byte_of w k) n \<longleftrightarrow> n < 8 \<and> bit w (k + n)"
  using bit_imp_le_length[of w "k + n"] by (auto simp: byte_of_def bit_ucast_iff bit_word_simps)

lemma byte_of_up: "k \<le> 56 \<Longrightarrow> bit (push_bit k (ucast (byte_of w k)) :: u64) n \<longleftrightarrow> k \<le> n \<and> n < k + 8 \<and> bit w n"
  using bit_imp_le_length[of w n] by (auto simp: bit_word_simps bit_ucast_iff byte_of_bit)

lemma byte_of_up32: "k \<le> 24 \<Longrightarrow> bit (push_bit k (ucast (byte_of (ucast w) k)) :: u32) n \<longleftrightarrow> k \<le> n \<and> n < k + 8 \<and> bit w n"
  using bit_imp_le_length[of w n] by (auto simp: bit_word_simps bit_ucast_iff byte_of_bit)

lemma be64_enc: "be64 (enc_u64 i @ t) = i"
proof (rule bit_word_eqI)
  fix n assume "n < LENGTH(64)"
  then show "bit (be64 (enc_u64 i @ t)) n = bit i n"
    using byte_of_up[of 0 i n]
    by (simp add: be64_def enc_u64_def bit_or_iff byte_of_up del: bit_push_bit_iff) linarith
qed

lemma be32_enc: "be32 (enc_u32 i @ t) = i"
proof (rule bit_word_eqI)
  fix n assume "n < LENGTH(32)"
  then show "bit (be32 (enc_u32 i @ t)) n = bit i n"
    using byte_of_up32[of 0 i n]
    by (simp add: be32_def enc_u32_def bit_or_iff byte_of_up32 del: bit_push_bit_iff) linarith
qed

lemmas be64_enc' = be64_enc[of _ "[]", simplified]
lemmas be32_enc' = be32_enc[of _ "[]", simplified]

text \<open>
  The character classes of the string encoding: every encodable character below DEL
  decodes to itself. DEL (127) is not in the initialiser of the table, so it decodes
  to \<open>a\<close>.
\<close>

lemma length_DECSET: "length DECSET = 128"
  by (simp add: DECSET_def)

lemma DECSET_ENCSET: "list_all (\<lambda>(i, d). d = 255 \<or>
    (unat d < 64 \<and> char_code (ENCSET ! unat d) = i)) (enumerate 0 (take 127 DECSET))"
  by (simp add: DECSET_def ENCSET_def char_code_def)

lemma code_char:
  assumes "char_code c < 127" "DECSET ! char_code c \<noteq> 255"
  shows "unat (DECSET ! char_code c) < 64" "ENCSET ! unat (DECSET ! char_code c) = c"
proof -
  have "(char_code c, DECSET ! char_code c) \<in> set (enumerate 0 (take 127 DECSET))"
    using assms(1) by (auto simp: in_set_enumerate_eq length_DECSET)
  then have "unat (DECSET ! char_code c) < 64 \<and>
      char_code (ENCSET ! unat (DECSET ! char_code c)) = char_code c"
    using DECSET_ENCSET assms(2) unfolding list_all_iff by fast
  then show "unat (DECSET ! char_code c) < 64" "ENCSET ! unat (DECSET ! char_code c) = c"
    unfolding char_code_def by (auto simp: of_char_eq_iff)
qed

definition plain_char :: "char \<Rightarrow> bool" where
  "plain_char c \<longleftrightarrow> char_code c < 127 \<and> c \<noteq> CHR 0x00"

lemma plain_ascii: "plain_char c \<Longrightarrow> char_code c < 128"
  by (simp add: plain_char_def)

lemma byte_small_bits: "unat (w :: u8) < 2 ^ k \<Longrightarrow> bit w n \<Longrightarrow> n < k"
proof (rule ccontr)
  assume a: "unat w < 2 ^ k" "bit w n" "\<not> n < k"
  have "take_bit k (unat w) = unat w" using a(1) by (simp add: take_bit_nat_eq_self_iff)
  moreover have "bit (unat w) n" using a(2) by (simp add: bit_unsigned_iff bit_imp_le_length[of w n, simplified])
  ultimately show False using a(3) by (metis bit_take_bit_iff)
qed

lemma unat_of_char: "unat (of_char c :: u8) = of_char c"
proof -
  have "(of_char c :: u8) = of_nat (of_char c)" by (simp only: of_nat_of_char)
  then have "unat (of_char c :: u8) = take_bit LENGTH(8) (of_char c :: nat)"
    by (simp only: unsigned_of_nat of_nat_id)
  also have "\<dots> = of_char c"
    unfolding take_bit_nat_eq_self_iff using nat_of_char_less_256[of c] by simp
  finally show ?thesis .
qed

lemma bytes_str_bytes: "bytes_str (str_bytes s) = s"
  by (induction s) (simp_all add: bytes_str_def str_bytes_def unat_of_char)

locale in_port =
  fixes r :: "'st \<Rightarrow> nat \<Rightarrow> bytes option \<times> 'st"
    and inv :: "'st \<Rightarrow> bool"
    and rest :: "'st \<Rightarrow> bytes"
  assumes r_ok: "inv st \<Longrightarrow> 0 < n \<Longrightarrow> n \<le> length (rest st) \<Longrightarrow>
      \<exists>st'. r st n = (Some (take n (rest st)), st') \<and> inv st' \<and> rest st' = drop n (rest st)"
    and r_short: "inv st \<Longrightarrow> length (rest st) < n \<Longrightarrow>
      \<exists>st'. r st n = (None, st') \<and> inv st' \<and> length (rest st') \<le> length (rest st)"
begin

definition source :: "'st ioport \<Rightarrow> bool" where
  "source io \<longleftrightarrow> rd io = r \<and> inv (storage io)"

definition moves :: "'st ioport \<Rightarrow> 'st ioport \<Rightarrow> bool" where
  "moves io io' \<longleftrightarrow> inv (storage io') \<and>
     io' = io\<lparr>storage := storage io', bitpos := bitpos io', bitbuffer := bitbuffer io'\<rparr>"

definition gives :: "'st ioport \<Rightarrow> 'v \<Rightarrow> bytes \<Rightarrow> 'v \<times> 'st ioport \<Rightarrow> bool" where
  "gives io v t res \<longleftrightarrow> fst res = v \<and> moves io (snd res) \<and> rest (storage (snd res)) = t"

lemma moves_trans: "moves a b \<Longrightarrow> moves b c \<Longrightarrow> moves a c"
  by (cases a; cases b; cases c) (auto simp: moves_def)

lemma moves_source: "moves io io' \<Longrightarrow> source io \<Longrightarrow> source io'"
  by (cases io; cases io') (auto simp: moves_def source_def)

lemma moves_bits: "moves (io\<lparr>bitpos := bp, bitbuffer := bb\<rparr>) io' \<Longrightarrow> moves io io'"
  by (cases io; cases io') (auto simp: moves_def)

lemma moves_refl: "source io \<Longrightarrow> moves io io"
  by (cases io) (auto simp: moves_def source_def)

lemma moves_update: "inv s \<Longrightarrow> moves io (io\<lparr>storage := s, bitpos := bp, bitbuffer := bb\<rparr>)"
  by (simp add: moves_def)

lemma givesE:
  assumes "gives io v t res" "source io"
  obtains io' where "res = (v, io')" "source io'" "rest (storage io') = t" "moves io io'"
  using assms moves_source[of io "snd res"] unfolding gives_def by (cases res) auto

lemma gives_after: "moves io io' \<Longrightarrow> gives io' v t res \<Longrightarrow> gives io v t res"
  by (auto simp: gives_def intro: moves_trans)

lemma read_ok:
  assumes "source io" "rest (storage io) = d @ t" "d \<noteq> []"
  obtains st' where "ioport_read io (length d) = (Some d, io\<lparr>storage := st', bitpos := 0, bitbuffer := 0\<rparr>)"
    "inv st'" "rest st' = t"
proof -
  obtain st' where "r (storage io) (length d) = (Some d, st')" "inv st'" "rest st' = t"
    using r_ok[of "storage io" "length d"] assms by (auto simp: source_def)
  then show ?thesis using that[of st'] assms(1) by (simp add: ioport_read_def source_def)
qed

lemma gives_read:
  assumes "source io" "rest (storage io) = d @ t" "d \<noteq> []" "n = length d"
  shows "gives io (Some d) t (ioport_read io n)"
  by (rule read_ok[OF assms(1-3)]) (simp add: gives_def moves_update assms(4))

lemma byte_ok:
  assumes "source io" "rest (storage io) = b # t"
  obtains st' where "ioport_read_byte io = (b, io\<lparr>storage := st', bitpos := 0, bitbuffer := 0\<rparr>)"
    "inv st'" "rest st' = t"
proof -
  obtain st' where "ioport_read io (length [b]) = (Some [b], io\<lparr>storage := st', bitpos := 0, bitbuffer := 0\<rparr>)"
      "inv st'" "rest st' = t"
    using read_ok[OF assms(1), of "[b]" t] assms(2) by auto
  then show ?thesis using that[of st'] by (simp add: ioport_read_byte_def)
qed

lemma gives_byte: "source io \<Longrightarrow> rest (storage io) = b # t \<Longrightarrow> gives io b t (ioport_read_byte io)"
  by (erule byte_ok, assumption) (auto simp: gives_def moves_update)

lemma gives_u64:
  assumes "source io" "rest (storage io) = enc_u64 i @ t"
  shows "gives io i t (ioport_read_u64 io)"
proof -
  let ?io = "io\<lparr>bitpos := 0, bitbuffer := 0\<rparr>"
  obtain st' where "ioport_read ?io 8 = (Some (enc_u64 i), ?io\<lparr>storage := st', bitpos := 0, bitbuffer := 0\<rparr>)"
      "inv st'" "rest st' = t"
    using read_ok[of ?io "enc_u64 i" t] assms by (auto simp: source_def)
  then show ?thesis by (auto simp: ioport_read_u64_def gives_def moves_def be64_enc')
qed

lemma gives_u32:
  assumes "source io" "rest (storage io) = enc_u32 i @ t"
  shows "gives io i t (ioport_read_u32 io)"
proof -
  let ?io = "io\<lparr>bitpos := 0, bitbuffer := 0\<rparr>"
  obtain st' where "ioport_read ?io 4 = (Some (enc_u32 i), ?io\<lparr>storage := st', bitpos := 0, bitbuffer := 0\<rparr>)"
      "inv st'" "rest st' = t"
    using read_ok[of ?io "enc_u32 i" t] assms by (auto simp: source_def)
  then show ?thesis by (auto simp: ioport_read_u32_def gives_def moves_def be32_enc')
qed

lemma gives_uuid:
  assumes "source io" "rest (storage io) = enc_uuid u @ t"
  shows "gives io u t (ioport_read_uuid io)"
proof -
  obtain st' where st': "ioport_read io 16 = (Some (enc_uuid u), io\<lparr>storage := st', bitpos := 0, bitbuffer := 0\<rparr>)"
      "inv st'" "rest st' = t"
    using read_ok[of io "enc_uuid u" t] assms by auto
  have "be64 (enc_uuid u) = msb u" "be64 (drop 8 (enc_uuid u)) = lsb u"
    by (simp_all add: enc_uuid_def be64_enc be64_enc')
  then show ?thesis using st' by (auto simp: ioport_read_uuid_def gives_def moves_def)
qed

lemma gives_encfrac:
  assumes "source io" "rest (storage io) = enc_frac d @ t"
  shows "gives io (decfrac ub (fst (encfrac_bytes d)) (snd (encfrac_bytes d))) t (ioport_read_encfrac ub io)"
proof -
  let ?a = "fst (encfrac_bytes d)" and ?b = "snd (encfrac_bytes d)"
  obtain io1 where 1: "ioport_read_byte io = (?a, io1)" "source io1" "rest (storage io1) = ?b # t"
      "moves io io1"
    using givesE[OF gives_byte[of io ?a "?b # t"]] assms by (auto simp: enc_frac_def)
  obtain io2 where "ioport_read_byte io1 = (?b, io2)" "rest (storage io2) = t" "moves io1 io2"
    using givesE[OF gives_byte[OF 1(2,3)] 1(2)] by blast
  then show ?thesis using 1 moves_trans[of io io1 io2] by (simp add: ioport_read_encfrac_def gives_def)
qed

lemma load_bits:
  assumes "source io" "bitpos io \<le> 8" "unread io @ bits_of (rest (storage io)) = bs" "bs \<noteq> []"
  obtains st' bp bb where
    "(if bitpos io = 0 then (case ioport_read_byte io of (b, io) \<Rightarrow> io\<lparr>bitbuffer := b\<rparr>) else io)
       = io\<lparr>storage := st', bitpos := bp, bitbuffer := bb\<rparr>"
    "inv st'" "bp \<le> 8" "drop bp (byte_bits bb) @ bits_of (rest st') = bs"
proof (cases "bitpos io = 0")
  case True
  then obtain b t where bt: "rest (storage io) = b # t"
    using assms(3,4) by (cases "rest (storage io)") (auto simp: unread_def)
  obtain st' where st': "ioport_read_byte io = (b, io\<lparr>storage := st', bitpos := 0, bitbuffer := 0\<rparr>)"
      "inv st'" "rest st' = t"
    using byte_ok[OF assms(1) bt] by blast
  show ?thesis
    by (rule that[of b 0 st']) (use st' True bt assms(3) in \<open>simp_all add: unread_def\<close>)
next
  case False
  show ?thesis
    by (rule that[of "bitbuffer io" "bitpos io" "storage io"])
       (use False assms in \<open>simp_all add: unread_def source_def\<close>)
qed

end

lemma bit_80: "bit (0x80 :: u8) n \<longleftrightarrow> n = 7"
proof -
  have "(0x80 :: u8) = 2 ^ 7" by simp
  then show ?thesis by (simp only: bit_exp_iff) (auto simp: possible_bit_def)
qed

lemma bit_128: "bit (128 :: int) n \<longleftrightarrow> n = 7"
proof -
  have "(128 :: int) = 2 ^ 7" by simp
  then show ?thesis by (simp only: bit_exp_iff) (auto simp: possible_bit_def)
qed

lemma group7_or: "(ucast (group7 i k OR 0x80) AND 0x7f :: u64) = drop_bit (7 * k) i AND 0x7f"
  "(ucast (group7 i k) AND 0x7f :: u64) = drop_bit (7 * k) i AND 0x7f"
  by (rule bit_word_eqI, auto simp: group7_def bit_word_simps bit_ucast_iff bit_128)+

lemma group7_flag: "group7 i k AND 0x80 = 0" "(group7 i k OR 0x80) AND 0x80 \<noteq> 0"
proof -
  show "group7 i k AND 0x80 = 0"
    unfolding group7_def by (rule word8_eqI) (simp_all add: bit_word_simps)
  have "bit ((group7 i k OR 0x80) AND 0x80) 7" by (simp add: bit_word_simps)
  then show "(group7 i k OR 0x80) AND 0x80 \<noteq> 0" by (metis bit_0_eq bot_apply bot_bool_def)
qed

lemma join7: "i < 2 ^ (7 * Suc k) \<Longrightarrow> k < 8 \<Longrightarrow>
  push_bit 7 (drop_bit (7 * k + 7) i) OR (drop_bit (7 * k) i AND 0x7f) = (drop_bit (7 * k) i :: u64)"
  by (rule bit_word_eqI) (auto simp: bit_word_simps algebra_simps)

context in_port
begin

lemma read_bits_ok:
  assumes io: "source io" "bitpos io \<le> 8" "unread io @ bits_of (rest (storage io)) = nbits n d @ bs"
    and n: "0 < n" "n \<le> 8" "\<And>k. bit d k \<Longrightarrow> k < n"
  shows "\<exists>io'. ioport_read_bits io n = (d, io') \<and> moves io io' \<and> bitpos io' \<le> 8 \<and>
    unread io' @ bits_of (rest (storage io')) = bs"
proof -
  have "nbits n d @ bs \<noteq> []" using n(1) by (metis append_is_Nil_conv length_nbits list.size(3) less_irrefl)
  from load_bits[OF io this] obtain st' bp bb where
    ld: "(if bitpos io = 0 then (case ioport_read_byte io of (b, io) \<Rightarrow> io\<lparr>bitbuffer := b\<rparr>) else io)
       = io\<lparr>storage := st', bitpos := bp, bitbuffer := bb\<rparr>" (is "?ld = ?io")
    and st': "inv st'" "bp \<le> 8" "drop bp (byte_bits bb) @ bits_of (rest st') = nbits n d @ bs"
    by blast
  have src: "source ?io" using st'(1) io(1) by (simp add: source_def)
  show ?thesis
  proof (cases "8 < bp + n")
    case False
    let ?v = "drop_bit (8 - bp - n) (bb AND push_bit (8 - bp - n) (BITMASKS ! n))"
    note g = get_inside[of bp n bb]
    have pn: "bp + n \<le> 8" using False by simp
    have split: "drop bp (byte_bits bb) = nbits n ?v @ drop (bp + n) (byte_bits bb)"
      using g(1)[OF pn n(1)] append_take_drop_id[of n "drop bp (byte_bits bb)"] by (simp add: add.commute)
    then have "nbits n ?v = nbits n d" "drop (bp + n) (byte_bits bb) @ bits_of (rest st') = bs"
      using st'(3) by auto
    then have v: "?v = d" using g(2)[OF pn n(1)] n(3) by (intro nbits_inj)
    have rb: "ioport_read_bits io n = (?v, io\<lparr>storage := st', bitpos := bp + n, bitbuffer := bb\<rparr>)"
      unfolding ioport_read_bits_def ld using False n by (simp add: Let_def add.commute del: drop_bit_and)
    show ?thesis unfolding rb v using st' n(1) pn \<open>drop (bp + n) (byte_bits bb) @ bits_of (rest st') = bs\<close>
      by (auto simp: moves_update unread_def)
  next
    case True
    define n2 where "n2 = n - (8 - bp)"
    have n2: "0 < n2" "n2 \<le> 8" using True n(2) st'(2) by (auto simp: n2_def)
    note g = get_across[OF st'(2) True n(2), folded n2_def]
    obtain c t where ct: "rest st' = c # t"
    proof (cases "rest st'")
      case Nil
      then have "length (drop bp (byte_bits bb)) = n + length bs" using st'(3) by (metis append.right_neutral bits_of_simps(1) length_append length_nbits)
      then show ?thesis using True st'(2) by simp
    qed auto
    obtain st2 where st2: "ioport_read_byte ?io = (c, ?io\<lparr>storage := st2, bitpos := 0, bitbuffer := 0\<rparr>)"
        "inv st2" "rest st2 = t"
      using byte_ok[OF src, of c t] ct by auto
    let ?v = "push_bit n2 (bb AND (BITMASKS ! (8 - bp))) OR drop_bit (8 - n2) (c AND push_bit (8 - n2) (BITMASKS ! n2))"
    have "nbits n ?v @ (drop n2 (byte_bits c) @ bits_of t)
        = drop bp (byte_bits bb) @ (take n2 (byte_bits c) @ drop n2 (byte_bits c)) @ bits_of t"
      by (simp only: g(1) append_assoc)
    also have "\<dots> = nbits n d @ bs" using st'(3) unfolding append_take_drop_id by (simp add: ct)
    finally have "nbits n ?v @ (drop n2 (byte_bits c) @ bits_of t) = nbits n d @ bs" .
    then have "nbits n ?v = nbits n d" "drop n2 (byte_bits c) @ bits_of t = bs" by auto
    moreover from this(1) have v: "?v = d" using g(2)[of bb c] n(3) by (intro nbits_inj)
    moreover have rb: "ioport_read_bits io n = (?v, io\<lparr>storage := st2, bitpos := n2, bitbuffer := c\<rparr>)"
      unfolding ioport_read_bits_def ld
      using True n n2 st2(1) by (simp add: Let_def add.commute n2_def del: drop_bit_and push_bit_and)
    ultimately show ?thesis using st2 n2 by (auto simp: moves_update unread_def)
  qed
qed

lemma read_sixbits_ok:
  assumes "source io" "bitpos io \<le> 8" "unread io @ bits_of (rest (storage io)) = concat (map code6 s) @ q"
    "\<forall>c \<in> set s. plain_char c \<and> DECSET ! char_code c \<noteq> 255"
  shows "\<exists>io'. read_sixbits (length s) io = (s, io') \<and> moves io io' \<and> bitpos io' \<le> 8 \<and>
    unread io' @ bits_of (rest (storage io')) = q"
  using assms
proof (induction s arbitrary: io)
  case Nil
  then show ?case by (auto intro: moves_refl)
next
  case (Cons c s)
  let ?d = "DECSET ! char_code c"
  have c: "unat ?d < 2 ^ 6" "ENCSET ! unat ?d = c"
    using code_char[of c] Cons.prems(4) by (auto simp: plain_char_def)
  obtain io1 where 1: "ioport_read_bits io 6 = (?d, io1)" "moves io io1" "bitpos io1 \<le> 8"
      "unread io1 @ bits_of (rest (storage io1)) = concat (map code6 s) @ q"
    using read_bits_ok[OF Cons.prems(1,2), of 6 ?d "concat (map code6 s) @ q"] Cons.prems(3)
      byte_small_bits[OF c(1)] by (auto simp: code6_def[of c])
  obtain io2 where "read_sixbits (length s) io1 = (s, io2)" "moves io1 io2" "bitpos io2 \<le> 8"
      "unread io2 @ bits_of (rest (storage io2)) = q"
    using Cons.IH[of io1] 1 moves_source[OF 1(2) Cons.prems(1)] Cons.prems(4) by auto
  then show ?case using 1 c moves_trans by auto
qed

lemma string_length_byte:
  assumes "length s \<le> 127"
  shows "unat (of_nat (length s) :: u8) = length s"
    "(of_nat (length s) OR 0x80 :: u8) \<noteq> 0" "\<not> (of_nat (length s) OR 0x80 :: u8) < 0x80"
    "(of_nat (length s) OR 0x80) AND 0x7f = (of_nat (length s) :: u8)"
proof -
  let ?sz = "of_nat (length s) OR 0x80 :: u8"
  show len: "unat (of_nat (length s) :: u8) = length s"
    using assms by (simp add: unsigned_of_nat take_bit_nat_eq_self_iff)
  have b7: "bit ?sz 7" by (simp add: bit_or_iff)
  then show "?sz \<noteq> 0" by (metis bit_0_eq bot_apply bot_bool_def)
  have "unat ?sz < 2 ^ 7 \<Longrightarrow> False" using byte_small_bits[of ?sz 7, OF _ b7] by simp
  then show "\<not> ?sz < 0x80" by (auto simp: word_less_nat_alt)
  have "bit (of_nat (length s) :: u8) n \<Longrightarrow> n < 7" for n
    by (rule byte_small_bits) (use len assms in auto)
  then show "?sz AND 0x7f = of_nat (length s)"
    by (intro bit_word_eqI) (auto simp: bit_word_simps bit_128)
qed

lemma gives_sixbit_string:
  assumes src: "source io" and str: "rest (storage io) = enc_string s @ t"
    and s: "length s \<le> 127" "list_all plain_char s" "encodable s = Ok True"
  shows "gives io (Some s) t (ioport_read_encstring io)"
proof -
  let ?io = "io\<lparr>bitpos := 0, bitbuffer := 0\<rparr>"
  let ?sz = "of_nat (length s) OR 0x80 :: u8"
  have src0: "source ?io" using src by (simp add: source_def)
  have r: "rest (storage ?io) = ?sz # (pack (concat (map code6 s)) @ t)"
    using str s(3) by (simp add: enc_string_def)
  obtain st' where st'': "ioport_read_byte ?io = (?sz, ?io\<lparr>storage := st', bitpos := 0, bitbuffer := 0\<rparr>)"
      "inv st'" "rest st' = pack (concat (map code6 s)) @ t"
    by (rule byte_ok[OF src0 r])
  let ?io1 = "?io\<lparr>storage := st'\<rparr>"
  have st': "ioport_read_byte ?io = (?sz, ?io1)" using st''(1) by simp
  obtain z where z: "z < 8" "bits_of (pack (concat (map code6 s))) = concat (map code6 s) @ replicate z False"
    using bits_of_pack by blast
  have ascii: "\<forall>c \<in> set s. char_code c < 128" using s(2) plain_ascii unfolding list_all_iff by blast
  have all: "\<forall>c \<in> set s. plain_char c \<and> DECSET ! char_code c \<noteq> 255"
    using s(2,3) unfolding encodable_Ok[OF ascii] list_all_iff by simp
  have src1: "source ?io1" using st''(2) src by (simp add: source_def)
  have un: "bitpos ?io1 \<le> 8"
    "unread ?io1 @ bits_of (rest (storage ?io1)) = concat (map code6 s) @ replicate z False @ bits_of t"
    using st''(3) z(2) by (simp_all add: unread_def)
  obtain io2 where
    io2: "read_sixbits (length s) ?io1 = (s, io2)" "moves ?io1 io2" "bitpos io2 \<le> 8"
      "unread io2 @ bits_of (rest (storage io2)) = replicate z False @ bits_of t"
    using read_sixbits_ok[OF src1 un all] by blast
  have "length (unread io2) < 8" by (auto simp: unread_def)
  moreover have "length (unread io2) + 8 * length (rest (storage io2)) = z + 8 * length t"
    using arg_cong[OF io2(4), of length] by simp
  ultimately have "length (rest (storage io2)) = length t" using z(1) by linarith
  then have "length (bits_of (rest (storage io2))) = length (bits_of t)" by simp
  then have "bits_of (rest (storage io2)) = bits_of t"
    using io2(4) append_eq_append_conv[of "unread io2" "replicate z False"
      "bits_of (rest (storage io2))" "bits_of t"] by simp
  then have t: "rest (storage io2) = t" by (rule bits_of_inj)
  have m: "moves ?io ?io1" using st''(2) by (simp add: moves_def)
  have m2: "moves io io2" by (rule moves_bits[OF moves_trans[OF m io2(2)]])
  have "ioport_read_encstring io = (Some s, io2)"
    by (simp only: ioport_read_encstring_def Let_def st' prod.case string_length_byte[OF s(1)]
        if_False simp_thms io2(1))
  then show ?thesis using t m2 by (simp add: gives_def)
qed

lemma gives_plain_string:
  assumes src: "source io" and str: "rest (storage io) = enc_string s @ t"
    and s: "length s \<le> 127" "list_all plain_char s" "encodable s \<noteq> Ok True"
  shows "gives io (Some s) t (ioport_read_encstring io)"
proof -
  let ?io = "io\<lparr>bitpos := 0, bitbuffer := 0\<rparr>"
  let ?sz = "of_nat (length s) :: u8"
  have src0: "source ?io" using src by (simp add: source_def)
  have ne: "s \<noteq> []" using s(3) by auto
  have r: "rest (storage ?io) = ?sz # (str_bytes s @ t)" using str s(3) by (simp add: enc_string_def)
  obtain st' where st'': "ioport_read_byte ?io = (?sz, ?io\<lparr>storage := st', bitpos := 0, bitbuffer := 0\<rparr>)"
      "inv st'" "rest st' = str_bytes s @ t"
    by (rule byte_ok[OF src0 r])
  let ?io1 = "?io\<lparr>storage := st'\<rparr>"
  have st': "ioport_read_byte ?io = (?sz, ?io1)" using st''(1) by simp
  have src1: "source ?io1" using st''(2) src by (simp add: source_def)
  have r1: "rest (storage ?io1) = str_bytes s @ t" "str_bytes s \<noteq> []" "length (str_bytes s) = length s"
    using st''(3) ne by (auto simp: str_bytes_def)
  obtain st2 where
    st2': "ioport_read ?io1 (length (str_bytes s)) = (Some (str_bytes s), ?io1\<lparr>storage := st2, bitpos := 0, bitbuffer := 0\<rparr>)"
      "inv st2" "rest st2 = t"
    by (rule read_ok[OF src1 r1(1,2)])
  then have st2: "ioport_read ?io1 (length s) = (Some (str_bytes s), ?io\<lparr>storage := st2\<rparr>)"
    using r1(3) by simp
  note len = string_length_byte(1)[OF s(1)]
  have sz: "?sz \<noteq> 0" "?sz < 0x80" using ne s(1) len by (auto simp: word_less_nat_alt unat_eq_zero)
  have "c_truncate 127 s = s" using s(1,2)
    by (intro c_truncate_id) (auto simp: cstr_def list_all_iff plain_char_def)
  then have "ioport_read_encstring io = (Some s, ?io\<lparr>storage := st2\<rparr>)"
    using sz unfolding ioport_read_encstring_def Let_def st' by (simp add: len st2 bytes_str_bytes)
  moreover have "moves ?io (?io\<lparr>storage := st2\<rparr>)" using st2'(2) by (simp add: moves_def)
  then have "moves io (?io\<lparr>storage := st2\<rparr>)" by (rule moves_bits)
  ultimately show ?thesis using st2'(3) by (simp add: gives_def)
qed

lemma gives_encstring:
  assumes "source io" "rest (storage io) = enc_string s @ t" "length s \<le> 127" "list_all plain_char s"
  shows "gives io (Some s) t (ioport_read_encstring io)"
  using assms gives_sixbit_string gives_plain_string by blast

end

subsection \<open>Decoding integers\<close>

fun enc_from :: "u64 \<Rightarrow> nat \<Rightarrow> bytes" where
  "enc_from i 0 = [group7 i 0]"
| "enc_from i (Suc k) = (group7 i (Suc k) OR 0x80) # enc_from i k"

lemma length_enc_from [simp]: "length (enc_from i k) = Suc k"
  by (induction k) simp_all

lemma drop_bit_small: "i < 2 ^ k \<Longrightarrow> k < 64 \<Longrightarrow> drop_bit k (i :: u64) = 0"
proof (rule bit_word_eqI)
  fix n assume "i < 2 ^ k" "k < 64" "n < LENGTH(64)"
  then show "bit (drop_bit k i) n = bit 0 n" using small_bits[of i k "k + n"] by (auto simp: bit_drop_bit_eq)
qed

lemma enc_int_from:
  assumes "i < 2 ^ 28"
  obtains k where "k < 4" "enc_int i = enc_from i k" "drop_bit (7 * Suc k) i = 0"
proof -
  have e: "enc_from i 1 = [group7 i 1 OR 0x80, group7 i 0]"
    "enc_from i 2 = [group7 i 2 OR 0x80, group7 i 1 OR 0x80, group7 i 0]"
    "enc_from i 3 = [group7 i 3 OR 0x80, group7 i 2 OR 0x80, group7 i 1 OR 0x80, group7 i 0]"
    by (simp_all add: numeral_2_eq_2 numeral_3_eq_3)
  consider "i < 2 ^ 7" | "\<not> i < 2 ^ 7" "i < 2 ^ 14" | "\<not> i < 2 ^ 7" "\<not> i < 2 ^ 14" "i < 2 ^ 21"
    | "\<not> i < 2 ^ 7" "\<not> i < 2 ^ 14" "\<not> i < 2 ^ 21" by blast
  then show ?thesis
  proof cases
    case 1
    show ?thesis by (rule that[of 0]) (use 1 drop_bit_small[of i 7] in \<open>simp_all add: enc_int_def\<close>)
  next
    case 2
    show ?thesis by (rule that[of 1])
      (use 2 drop_bit_small[of i 14] in \<open>simp_all add: enc_int_def e[simplified]\<close>)
  next
    case 3
    show ?thesis by (rule that[of 2])
      (use 3 drop_bit_small[of i 21] in \<open>simp_all add: enc_int_def e\<close>)
  next
    case 4
    show ?thesis by (rule that[of 3])
      (use 4 drop_bit_small[of i 28] assms in \<open>simp_all add: enc_int_def e\<close>)
  qed
qed

lemma decint_acc:
  fixes i :: u64
  assumes "(ucast d AND 0x7f :: u64) = drop_bit (7 * k) i AND 0x7f" "k < 8" "res = drop_bit (7 * Suc k) i"
  shows "(if res \<noteq> 0 then push_bit 7 res else res) OR (ucast d AND 0x7f) = drop_bit (7 * k) i"
proof -
  have "push_bit 7 res OR (drop_bit (7 * k) i AND 0x7f) = drop_bit (7 * k) i"
    unfolding assms(3)
    by (rule bit_word_eqI) (use assms(2) in \<open>auto simp: bit_word_simps algebra_simps\<close>)
  then show ?thesis by (auto simp: assms(1))
qed

context in_port
begin

lemma decint_ok:
  assumes "source io" "rest (storage io) = enc_from i k @ t" "k < 8" "res = drop_bit (7 * Suc k) i" "k < fuel"
  shows "\<exists>r. decint_loop fuel io res = Some r \<and> gives io i t r"
  using assms
proof (induction k arbitrary: io res fuel)
  case 0
  obtain f where f: "fuel = Suc f" using "0.prems"(5) by (cases fuel) auto
  obtain io1 where 1: "ioport_read_byte io = (group7 i 0, io1)" "rest (storage io1) = t" "moves io io1"
    using givesE[OF gives_byte[of io "group7 i 0" t] "0.prems"(1)] "0.prems" by auto
  have "(if res \<noteq> 0 then push_bit 7 res else res) OR (ucast (group7 i 0) AND 0x7f) = i"
    using decint_acc[of "group7 i 0" 0 i res] "0.prems"(4) by (simp add: group7_or(2))
  then have "decint_loop fuel io res = Some (i, io1)"
    unfolding f decint_loop.simps 1 prod.case Let_def by (simp only: group7_flag simp_thms if_False)
  then show ?case using 1 by (simp add: gives_def)
next
  case (Suc k)
  let ?d = "group7 i (Suc k) OR 0x80"
  obtain f where f: "fuel = Suc f" "k < f" using Suc.prems(5) by (cases fuel) auto
  obtain io1 where 1: "ioport_read_byte io = (?d, io1)" "rest (storage io1) = enc_from i k @ t" "moves io io1" "source io1"
    using givesE[OF gives_byte[of io ?d "enc_from i k @ t"] Suc.prems(1)] Suc.prems by auto
  have acc: "(if res \<noteq> 0 then push_bit 7 res else res) OR (ucast ?d AND 0x7f) = drop_bit (7 * Suc k) i"
    using Suc.prems(3,4) by (intro decint_acc group7_or(1)) auto
  have "decint_loop fuel io res = decint_loop f io1 (drop_bit (7 * Suc k) i)"
    unfolding f(1) decint_loop.simps 1(1) prod.case Let_def acc by (simp only: group7_flag simp_thms if_True)
  moreover obtain r where "decint_loop f io1 (drop_bit (7 * Suc k) i) = Some r" "gives io1 i t r"
    using Suc.IH[OF 1(4,2) _ refl f(2)] Suc.prems(3) by auto
  ultimately show ?case using gives_after[OF 1(3), of i t r] by simp
qed

lemma gives_encint:
  assumes "source io" "rest (storage io) = enc_int i @ t" "i < 2 ^ 28" "4 \<le> fuel"
  shows "\<exists>r. ioport_read_encint fuel io = Some r \<and> gives io i t r"
proof -
  obtain k where k: "k < 4" "enc_int i = enc_from i k" "drop_bit (7 * Suc k) i = 0"
    using enc_int_from[OF assms(3)] by blast
  show ?thesis unfolding ioport_read_encint_def
    using assms k by (intro decint_ok[of _ _ k]) auto
qed

text \<open>Every read terminates: fuel beyond the number of bytes left is never used up.\<close>

lemma decint_total: "source io \<Longrightarrow> length (rest (storage io)) < fuel \<Longrightarrow> decint_loop fuel io res \<noteq> None"
proof (induction fuel arbitrary: io res)
  case (Suc fuel)
  show ?case
  proof (cases "rest (storage io)")
    case Nil
    then obtain st' where "r (storage io) 1 = (None, st')"
      using Suc.prems(1) r_short[of "storage io" 1] by (auto simp: source_def)
    then have "ioport_read_byte io = (0, io\<lparr>bitpos := 0, bitbuffer := 0, storage := st'\<rparr>)"
      using Suc.prems(1) by (simp add: ioport_read_byte_def ioport_read_def source_def)
    then show ?thesis by (simp add: Let_def)
  next
    case (Cons b t)
    obtain io1 where 1: "ioport_read_byte io = (b, io1)" "rest (storage io1) = t" "source io1"
      using givesE[OF gives_byte[OF Suc.prems(1) Cons] Suc.prems(1)] by blast
    then show ?thesis using Suc Cons by (simp add: Let_def)
  qed
qed simp

end

text \<open>A reader whose \<open>read_available\<close> method is exact.\<close>

locale sized_in_port = in_port r inv rest
  for r :: "'st \<Rightarrow> nat \<Rightarrow> bytes option \<times> 'st" and inv :: "'st \<Rightarrow> bool" and rest :: "'st \<Rightarrow> bytes" +
  fixes av :: "'st \<Rightarrow> nat"
  assumes av_ok: "inv st \<Longrightarrow> av st = length (rest st)"
begin

definition sized :: "'st ioport \<Rightarrow> bool" where
  "sized io \<longleftrightarrow> source io \<and> read_avail io = av"

lemma available_ok: "sized io \<Longrightarrow> ioport_read_available io = length (rest (storage io))"
  by (simp add: sized_def source_def ioport_read_available_def av_ok)

lemma moves_sized: "moves io io' \<Longrightarrow> sized io \<Longrightarrow> sized io'"
  by (cases io; cases io') (auto simp: moves_def sized_def source_def)

end

end
