(* ===== verification/IoportBuffer.thy ===== *)
theory IoportBuffer
  imports IoportSpec
begin

text \<open>
  \<^verbatim>\<open>libopticon/ioport_buffer.c\<close>: the port over a block of memory. \<open>heapjunk\<close> is what
  \<^verbatim>\<open>malloc\<close> and \<^verbatim>\<open>realloc\<close> leave in the bytes they hand out; running out of memory is not
  modelled. \<^verbatim>\<open>pos\<close> and \<^verbatim>\<open>rpos\<close> are 32-bit, sizes are \<open>size_t\<close>. The port satisfies the
  contracts \<open>out_port\<close> and \<open>in_port\<close>, so every encoder and decoder law holds on it.
\<close>

record bufferstorage =
  mbuf :: bytes
  bufsz :: nat
  wpos :: nat
  rpos :: nat
  owned :: bool
  heapjunk :: "nat \<Rightarrow> u8"

definition buffer_read :: "bufferstorage \<Rightarrow> nat \<Rightarrow> bytes option \<times> bufferstorage" where
  "buffer_read S sz =
     (if rpos S + sz > bufsz S then (None, S)
      else if wpos S \<noteq> 0 \<and> rpos S + sz > wpos S then (None, S)
      else (Some (take sz (drop (rpos S) (mbuf S))), S\<lparr>rpos := (rpos S + sz) mod 2 ^ 32\<rparr>))"

function grow_size :: "nat \<Rightarrow> nat \<Rightarrow> nat" where
  "grow_size need sz = (if need > sz then grow_size need (sz + 4096) else sz)"
  by pat_completeness auto
termination by (relation "measure (\<lambda>(need, sz). need - sz)") auto

declare grow_size.simps [simp del]

definition buffer_write :: "bufferstorage \<Rightarrow> bytes \<Rightarrow> bool \<times> bufferstorage" where
  "buffer_write S dat =
     (let sz = length dat in
      if wpos S + sz > bufsz S \<and> \<not> owned S then (False, S)
      else
        let sz' = (if wpos S + sz > bufsz S then grow_size (wpos S + sz) (bufsz S) else bufsz S);
            b = mbuf S @ map (heapjunk S) [bufsz S ..< sz']
        in (True, S\<lparr>bufsz := sz', mbuf := take (wpos S) b @ dat @ drop (wpos S + sz) b,
                    wpos := (wpos S + sz) mod 2 ^ 32\<rparr>))"

text \<open>The differences are unsigned: 32 bits between the cursors, 64 with the size.\<close>

definition buffer_read_available :: "bufferstorage \<Rightarrow> nat" where
  "buffer_read_available S =
     (if wpos S \<noteq> 0 then nat ((int (wpos S) - int (rpos S)) mod 2 ^ 32)
      else nat ((int (bufsz S) - int (rpos S)) mod 2 ^ 64))"

definition buffer_write_available :: "bufferstorage \<Rightarrow> nat" where
  "buffer_write_available S = nat ((int (bufsz S) - int (wpos S)) mod 2 ^ 64)"

definition buffer_reset_read :: "bufferstorage \<Rightarrow> bufferstorage" where
  "buffer_reset_read S = S\<lparr>rpos := 0\<rparr>"

definition ioport_create_buffer :: "(nat \<Rightarrow> u8) \<Rightarrow> bytes option \<Rightarrow> nat \<Rightarrow> bufferstorage ioport" where
  "ioport_create_buffer junk b sz =
     \<lparr>wr = buffer_write, rd = buffer_read, read_avail = buffer_read_available,
      write_avail = buffer_write_available, reset_rd = buffer_reset_read,
      storage = (case b of
          Some b \<Rightarrow> \<lparr>mbuf = take sz b, bufsz = sz, wpos = 0, rpos = 0, owned = False, heapjunk = junk\<rparr>
        | None \<Rightarrow> \<lparr>mbuf = map junk [0 ..< sz], bufsz = sz, wpos = 0, rpos = 0, owned = True, heapjunk = junk\<rparr>),
      bitpos = 0, bitbuffer = 0\<rparr>"

subsection \<open>The contracts\<close>

lemma grow_size_enough: "need \<le> grow_size need sz \<and> sz \<le> grow_size need sz"
proof (induction need sz rule: grow_size.induct)
  case (1 need sz)
  then show ?case by (subst (1 2) grow_size.simps) (auto split: if_splits)
qed

lemma grow_size_step: "grow_size need sz \<le> max sz (need + 4095)"
proof (induction need sz rule: grow_size.induct)
  case (1 need sz)
  then show ?case by (subst grow_size.simps) (auto simp: max_def split: if_splits)
qed

definition buf_ok :: "bufferstorage \<Rightarrow> bool" where
  "buf_ok S \<longleftrightarrow> length (mbuf S) = bufsz S \<and> wpos S \<le> bufsz S \<and> wpos S < 2 ^ 32 \<and>
     (wpos S = 0 \<longrightarrow> bufsz S < 2 ^ 32)"

definition buf_written :: "bufferstorage \<Rightarrow> bytes" where
  "buf_written S = take (wpos S) (mbuf S)"

definition buf_cap :: "bufferstorage \<Rightarrow> nat" where
  "buf_cap S = (if owned S then 2 ^ 32 - 1 else min (bufsz S) (2 ^ 32 - 1))"

definition buf_rest :: "bufferstorage \<Rightarrow> bytes" where
  "buf_rest S = drop (rpos S) (take (if wpos S = 0 then bufsz S else wpos S) (mbuf S))"

lemma buffer_write_ok:
  assumes "buf_ok S" "d \<noteq> []" "length (buf_written S) + length d \<le> buf_cap S"
  shows "\<exists>S'. buffer_write S d = (True, S') \<and> buf_ok S' \<and> buf_written S' = buf_written S @ d \<and>
    buf_cap S' = buf_cap S \<and> rpos S' = rpos S \<and> wpos S' = wpos S + length d"
proof -
  have p: "length (buf_written S) = wpos S" using assms(1) by (simp add: buf_ok_def buf_written_def)
  have m: "(wpos S + length d) mod 2 ^ 32 = wpos S + length d"
    using assms(3) unfolding p by (simp add: buf_cap_def split: if_splits)
  define sz' where "sz' = (if wpos S + length d > bufsz S then grow_size (wpos S + length d) (bufsz S) else bufsz S)"
  have sz': "wpos S + length d \<le> sz'" "bufsz S \<le> sz'"
    using grow_size_enough[of "wpos S + length d" "bufsz S"] by (auto simp: sz'_def)
  let ?b = "mbuf S @ map (heapjunk S) [bufsz S ..< sz']"
  let ?S = "S\<lparr>bufsz := sz', mbuf := take (wpos S) ?b @ d @ drop (wpos S + length d) ?b, wpos := wpos S + length d\<rparr>"
  have room: "\<not> (wpos S + length d > bufsz S \<and> \<not> owned S)"
    using assms(3) unfolding p by (auto simp: buf_cap_def split: if_splits)
  then have "buffer_write S d = (True, ?S)"
    unfolding buffer_write_def Let_def m sz'_def by (simp only: if_False)
  moreover have "buf_ok ?S" using assms p sz' by (auto simp: buf_ok_def buf_cap_def split: if_splits)
  moreover have "buf_written ?S = buf_written S @ d"
    using assms(1) by (simp add: buf_written_def buf_ok_def)
  moreover have "buf_cap ?S = buf_cap S" using room by (auto simp: buf_cap_def sz'_def)
  ultimately show ?thesis by auto
qed

text \<open>Writing does not move the read cursor: the invariant carries its position.\<close>

definition buf_at :: "nat \<Rightarrow> bufferstorage \<Rightarrow> bool" where
  "buf_at k S \<longleftrightarrow> buf_ok S \<and> rpos S = k"

interpretation bw: out_port buffer_write "buf_at k" buf_written buf_cap for k
  by unfold_locales (use buffer_write_ok in \<open>fastforce simp: buf_at_def\<close>)

text \<open>The reader's invariant: the read cursor is within what can be read.\<close>

definition buf_in :: "bufferstorage \<Rightarrow> bool" where
  "buf_in S \<longleftrightarrow> buf_ok S \<and> rpos S \<le> (if wpos S = 0 then bufsz S else wpos S)"

lemma buffer_read_ok:
  assumes "buf_in S" "0 < n" "n \<le> length (buf_rest S)"
  shows "\<exists>S'. buffer_read S n = (Some (take n (buf_rest S)), S') \<and> buf_in S' \<and> buf_rest S' = drop n (buf_rest S)"
proof -
  let ?lim = "if wpos S = 0 then bufsz S else wpos S"
  have lim: "rpos S + n \<le> ?lim" "?lim \<le> bufsz S" "?lim < 2 ^ 32" "length (mbuf S) = bufsz S"
    using assms by (auto simp: buf_in_def buf_ok_def buf_rest_def split: if_splits)
  have m: "(rpos S + n) mod 2 ^ 32 = rpos S + n" using lim by simp
  have "take n (drop (rpos S) (mbuf S)) = take n (buf_rest S)"
    using lim(1) by (simp add: buf_rest_def drop_take)
  moreover have "buffer_read S n = (Some (take n (drop (rpos S) (mbuf S))), S\<lparr>rpos := rpos S + n\<rparr>)"
    using lim(1,2) unfolding buffer_read_def m by (auto split: if_splits)
  moreover have "buf_rest (S\<lparr>rpos := rpos S + n\<rparr>) = drop n (buf_rest S)"
    by (simp add: buf_rest_def add.commute)
  moreover have "buf_in (S\<lparr>rpos := rpos S + n\<rparr>)" using assms(1) lim(1) by (simp add: buf_in_def buf_ok_def split: if_splits)
  ultimately show ?thesis by simp
qed

lemma buffer_read_short:
  assumes "buf_in S" "length (buf_rest S) < n"
  shows "buffer_read S n = (None, S)"
  using assms unfolding buffer_read_def buf_rest_def buf_in_def buf_ok_def by (auto split: if_splits)

lemma buffer_available:
  assumes "buf_in S"
  shows "buffer_read_available S = length (buf_rest S)"
proof -
  have b: "rpos S \<le> (if wpos S = 0 then bufsz S else wpos S)" "wpos S \<le> bufsz S" "wpos S < 2 ^ 32"
    "wpos S = 0 \<longrightarrow> bufsz S < 2 ^ 32" "length (mbuf S) = bufsz S"
    using assms by (auto simp: buf_in_def buf_ok_def)
  have "nat ((int a - int r) mod 2 ^ k) = a - r" if "r \<le> a" "a < 2 ^ k" for a r k :: nat
  proof -
    have "int (a - r) < 2 ^ k" using that by (metis less_imp_diff_less of_nat_less_iff of_nat_numeral of_nat_power)
    then show ?thesis using that(1) by (simp add: of_nat_diff)
  qed
  from this[of "rpos S" "wpos S" 32] this[of "rpos S" "bufsz S" 64] show ?thesis
    using b by (auto simp: buffer_read_available_def buf_rest_def)
qed

interpretation br: sized_in_port buffer_read buf_in buf_rest buffer_read_available
  by unfold_locales (use buffer_read_ok buffer_read_short buffer_available in \<open>blast, auto\<close>)

lemma written_rest:
  "buf_written S \<noteq> [] \<Longrightarrow> buf_ok S \<Longrightarrow> rpos S = 0 \<Longrightarrow> buf_rest S = buf_written S"
  by (auto simp: buf_written_def buf_rest_def)

text \<open>
  \<open>mem_port io bs\<close>: a buffer port over an owned block that has been given exactly the
  bytes \<open>bs\<close> to write, nothing read yet. Encoders extend \<open>bs\<close>; a reader starts from it.
\<close>

definition mem_port :: "bufferstorage ioport \<Rightarrow> bytes \<Rightarrow> bool" where
  "mem_port io bs \<longleftrightarrow> wr io = buffer_write \<and> rd io = buffer_read \<and> buf_at 0 (storage io) \<and>
     bitpos io = 0 \<and> bitbuffer io = 0 \<and> buf_cap (storage io) = 2 ^ 32 - 1 \<and> buf_written (storage io) = bs"

lemma mem_port_fresh: "sz < 2 ^ 32 \<Longrightarrow> mem_port (ioport_create_buffer junk None sz) []"
  by (simp add: mem_port_def ioport_create_buffer_def buf_at_def buf_ok_def buf_written_def buf_cap_def)

lemma mem_port_ready: "mem_port io bs \<Longrightarrow> bw.ready 0 io"
  by (simp add: mem_port_def bw.ready_def)

lemma mem_port_fits: "mem_port io bs \<Longrightarrow> length bs + n < 2 ^ 32 \<Longrightarrow> bw.fits io n"
  by (simp add: mem_port_def bw.fits_def)

lemma mem_port_source:
  "mem_port io bs \<Longrightarrow> bs \<noteq> [] \<Longrightarrow> br.source io"
  "mem_port io bs \<Longrightarrow> bs \<noteq> [] \<Longrightarrow> buf_rest (storage io) = bs"
  using written_rest[of "storage io"] by (auto simp: mem_port_def br.source_def buf_at_def buf_in_def)

lemma mem_port_emits:
  assumes "mem_port io bs" "bw.emits 0 io d r"
  obtains io' where "r = (True, io')" "mem_port io' (bs @ d)"
  using assms by (auto simp: mem_port_def bw.emits_def)

lemma giveE:
  assumes "br.gives io v t r"
  obtains io' where "r = (v, io')" "buf_rest (storage io') = t"
  using assms by (cases r) (auto simp: br.gives_def)

end
