(* ===== verification/IoportFile.thy ===== *)
theory IoportFile
  imports IoportSpec
begin

text \<open>
  \<^verbatim>\<open>libopticon/ioport_file.c\<close>: ports over \<^verbatim>\<open>stdio\<close> streams. A stream is its content, the
  read position and the number of bytes the medium still takes; \<open>fwrite\<close> and \<open>fread\<close> of one
  item succeed if the whole item fits or is there, and transfer what they can otherwise
  (and never succeed for an empty item). The writer duplicates to a second stream, the
  secondary first. The two ports satisfy \<open>out_port\<close> and \<open>in_port\<close>.
\<close>

record fstream =
  fdata :: bytes
  fpos :: nat
  froom :: nat

definition fwrite1 :: "bytes \<Rightarrow> fstream \<Rightarrow> nat \<times> fstream" where
  "fwrite1 dat F =
     (if dat = [] then (0, F)
      else if length dat \<le> froom F
      then (1, F\<lparr>fdata := fdata F @ dat, froom := froom F - length dat\<rparr>)
      else (0, F\<lparr>fdata := fdata F @ take (froom F) dat, froom := 0\<rparr>))"

definition fread1 :: "nat \<Rightarrow> fstream \<Rightarrow> bytes option \<times> fstream" where
  "fread1 sz F =
     (if sz = 0 then (None, F)
      else if fpos F + sz \<le> length (fdata F)
      then (Some (take sz (drop (fpos F) (fdata F))), F\<lparr>fpos := fpos F + sz\<rparr>)
      else (None, F\<lparr>fpos := max (fpos F) (length (fdata F))\<rparr>))"

record writerstorage =
  pri :: fstream
  sec :: "fstream option"

definition filewriter_write :: "writerstorage \<Rightarrow> bytes \<Rightarrow> bool \<times> writerstorage" where
  "filewriter_write stor dat =
     (let write_pri = (\<lambda>stor. case fwrite1 dat (pri stor) of (n, F) \<Rightarrow> (n > 0, stor\<lparr>pri := F\<rparr>)) in
      case sec stor of
        None \<Rightarrow> write_pri stor
      | Some F2 \<Rightarrow>
          (case fwrite1 dat F2 of (n, F2) \<Rightarrow>
             let stor = stor\<lparr>sec := Some F2\<rparr>
             in if n \<le> 0 then (False, stor) else write_pri stor))"

definition filewriter_read :: "writerstorage \<Rightarrow> nat \<Rightarrow> bytes option \<times> writerstorage" where
  "filewriter_read stor sz = (None, stor)"

definition filewriter_available :: "'a \<Rightarrow> nat" where
  "filewriter_available stor = 0"

definition filereader_write :: "fstream \<Rightarrow> bytes \<Rightarrow> bool \<times> fstream" where
  "filereader_write F dat = (False, F)"

definition filereader_read :: "fstream \<Rightarrow> nat \<Rightarrow> bytes option \<times> fstream" where
  "filereader_read F sz = fread1 sz F"

definition filereader_reset_read :: "fstream \<Rightarrow> fstream" where
  "filereader_reset_read F = F\<lparr>fpos := 0\<rparr>"

definition ioport_create_filewriter :: "fstream \<Rightarrow> writerstorage ioport" where
  "ioport_create_filewriter F =
     \<lparr>wr = filewriter_write, rd = filewriter_read, read_avail = filewriter_available,
      write_avail = filewriter_available, reset_rd = id,
      storage = \<lparr>pri = F, sec = None\<rparr>, bitpos = 0, bitbuffer = 0\<rparr>"

definition ioport_create_dualfilewriter :: "fstream \<Rightarrow> fstream \<Rightarrow> writerstorage ioport" where
  "ioport_create_dualfilewriter Fpri Fsec =
     \<lparr>wr = filewriter_write, rd = filewriter_read, read_avail = filewriter_available,
      write_avail = filewriter_available, reset_rd = id,
      storage = \<lparr>pri = Fpri, sec = Some Fsec\<rparr>, bitpos = 0, bitbuffer = 0\<rparr>"

definition ioport_create_filereader :: "fstream \<Rightarrow> fstream ioport" where
  "ioport_create_filereader F =
     \<lparr>wr = filereader_write, rd = filereader_read, read_avail = filewriter_available,
      write_avail = filewriter_available, reset_rd = filereader_reset_read,
      storage = F, bitpos = 0, bitbuffer = 0\<rparr>"

subsection \<open>The contracts\<close>

text \<open>The primary stream has \<open>base\<close> and the secondary, if any, \<open>base2\<close> before what the port wrote.\<close>

definition twin :: "bytes \<Rightarrow> bytes \<Rightarrow> writerstorage \<Rightarrow> bool" where
  "twin base base2 S \<longleftrightarrow> (\<exists>w. fdata (pri S) = base @ w \<and>
     (\<forall>F. sec S = Some F \<longrightarrow> fdata F = base2 @ w))"

definition file_written :: "writerstorage \<Rightarrow> bytes" where
  "file_written S = fdata (pri S)"

definition file_cap :: "writerstorage \<Rightarrow> nat" where
  "file_cap S = length (fdata (pri S)) +
     (case sec S of None \<Rightarrow> froom (pri S) | Some F \<Rightarrow> min (froom (pri S)) (froom F))"

lemma filewriter_ok:
  assumes "twin base base2 S" "d \<noteq> []" "length (file_written S) + length d \<le> file_cap S"
  shows "\<exists>S'. filewriter_write S d = (True, S') \<and> twin base base2 S' \<and>
    file_written S' = file_written S @ d \<and> file_cap S' = file_cap S"
proof -
  have fit: "length d \<le> froom (pri S)" "\<And>F. sec S = Some F \<Longrightarrow> length d \<le> froom F"
    using assms(3) by (auto simp: file_cap_def file_written_def split: option.splits)
  show ?thesis
    using assms(1,2) fit
    by (cases "sec S")
       (auto simp: filewriter_write_def fwrite1_def Let_def twin_def file_written_def file_cap_def)
qed

interpretation fw: out_port filewriter_write "twin base base2" file_written file_cap for base base2
  by unfold_locales (rule filewriter_ok)

definition file_rest :: "fstream \<Rightarrow> bytes" where
  "file_rest F = drop (fpos F) (fdata F)"

lemma filereader_ok:
  assumes "0 < n" "n \<le> length (file_rest F)"
  shows "\<exists>F'. filereader_read F n = (Some (take n (file_rest F)), F') \<and> True \<and> file_rest F' = drop n (file_rest F)"
  using assms by (auto simp: filereader_read_def fread1_def file_rest_def add.commute)

lemma filereader_short:
  assumes "length (file_rest F) < n"
  shows "\<exists>F'. filereader_read F n = (None, F') \<and> True \<and> length (file_rest F') \<le> length (file_rest F)"
  using assms by (auto simp: filereader_read_def fread1_def file_rest_def)

interpretation fr: in_port filereader_read "\<lambda>_. True" file_rest
  by unfold_locales (use filereader_ok filereader_short in auto)

end
