(* ===== verification/EncFrac.thy ===== *)
theory EncFrac
  imports IoportSpec
begin

text \<open>
  How exact the 16-bit encoding of fractional numbers is. A double below 192 comes back
  rounded down by less than 1/128, a larger one below 2^38 by less than one part in 96.
\<close>

definition is_double :: "rat \<Rightarrow> bool" where
  "is_double x \<longleftrightarrow> rnd x = x"

lemma double_form:
  assumes "is_double x"
  obtains m k where "x = of_int m * 2 powi k" "\<bar>m\<bar> \<le> 2 ^ 53" "-1074 \<le> k"
proof (cases "x = 0")
  case True
  then show ?thesis using that[of 0 0] by simp
next
  case False
  define e where "e = max (ilog2 \<bar>x\<bar>) (-1022)"
  define m where "m = round_even (x / 2 powi (e - 52))"
  have x: "x = of_int m * 2 powi (e - 52)"
    using assms False by (simp add: is_double_def rnd_def Let_def e_def m_def)
  have "\<bar>x\<bar> < 2 powi (ilog2 \<bar>x\<bar> + 1)" using ilog2_bounds[of "\<bar>x\<bar>"] False by simp
  also have "\<dots> \<le> 2 powi (e + 1)" by (intro powi_2_mono) (simp add: e_def)
  also have "\<dots> = of_int (2 ^ 53) * 2 powi (e - 52)" by (simp add: power_int_diff power_int_add)
  finally have "\<bar>of_int m\<bar> * 2 powi (e - 52) < of_int (2 ^ 53) * (2 powi (e - 52) :: rat)"
    by (subst (asm) x) (simp add: abs_mult)
  then have "\<bar>of_int m\<bar> < (of_int (2 ^ 53) :: rat)" by simp
  then have "\<bar>m\<bar> \<le> 2 ^ 53" by (simp only: of_int_abs[symmetric] of_int_less_iff)
  then show ?thesis by (intro that[OF x]) (simp_all add: e_def)
qed

lemma double_scaled: "is_double x \<Longrightarrow> rnd (x * 2 ^ j) = x * 2 ^ j"
proof -
  assume "is_double x"
  then obtain m k where x: "x = of_int m * 2 powi k" "\<bar>m\<bar> \<le> 2 ^ 53" "-1074 \<le> k" by (rule double_form)
  have "x * 2 ^ j = of_int m * 2 powi (k + int j)" using x(1) by (simp add: power_int_add)
  then show ?thesis using rnd_exact[of m "k + int j"] x(2,3) by (simp only:)
qed

lemma double_fraction: "is_double x \<Longrightarrow> 0 \<le> x \<Longrightarrow> is_double (x - of_int \<lfloor>x\<rfloor>)"
proof -
  assume d: "is_double x" "0 \<le> x"
  obtain m k where x: "x = of_int m * 2 powi k" "\<bar>m\<bar> \<le> 2 ^ 53" "-1074 \<le> k" using d(1) by (rule double_form)
  show ?thesis
  proof (cases "0 \<le> k")
    case True
    then have "x = of_int (m * 2 ^ nat k)" using x(1) by (simp add: power_int_def)
    then have "x - of_int \<lfloor>x\<rfloor> = 0" by (simp only: floor_of_int)
    then show ?thesis by (simp add: is_double_def)
  next
    case False
    define q where "q = (2 :: int) ^ nat (- k)"
    have q: "of_int q * 2 powi k = (1 :: rat)"       using False by (simp add: q_def power_int_def flip: power_mult_distrib)
    let ?m = "m - \<lfloor>x\<rfloor> * q"
    have e: "x - of_int \<lfloor>x\<rfloor> = of_int ?m * 2 powi k"
      using q by (subst x(1)) (simp add: left_diff_distrib mult.assoc)
    have "0 \<le> of_int ?m * (2 powi k :: rat)" unfolding e[symmetric] by simp
    then have "0 \<le> (of_int ?m :: rat)" using powi_2_pos[of k] by (simp only: zero_le_mult_iff) linarith
    then have lo: "0 \<le> ?m" by (simp only: of_int_0_le_iff)
    have "0 \<le> \<lfloor>x\<rfloor> * q" using d(2) by (simp add: q_def)
    then have "\<bar>?m\<bar> \<le> 2 ^ 53" using lo x(2) by linarith
    then show ?thesis using rnd_exact[of ?m k] x(3) unfolding is_double_def e by simp
  qed
qed

lemma decfrac_small:
  assumes "a < 192" "b < 256"
  shows "decfrac ub (of_nat a) (of_nat b) = Fin (of_nat a + of_nat b / 256)"
proof -
  have ab: "unat (of_nat a :: u8) = a" "unat (of_nat b :: u8) = b"
    using assms by (simp_all add: unsigned_of_nat take_bit_nat_eq_self_iff)
  have s: "(of_nat a :: u8) < 192" using assms(1) ab(1) by (simp add: word_less_nat_alt)
  have p8: "(2 :: rat) powi (-8) = 1 / 256" by (simp add: power_int_minus)
  have e: "rnd (of_nat b / 256) = of_nat b / 256"
    using rnd_exact[of "int b" "-8", unfolded p8] assms(2) by simp
  have "(of_int (int (256 * a + b)) * (1 / 256) :: rat) = of_nat a + of_nat b / 256"
    by simp
  then have "rnd (of_nat a + of_nat b / 256) = of_nat a + of_nat b / 256"
    using rnd_exact[of "int (256 * a + b)" "-8", unfolded p8] assms by (simp only:) simp
  then show ?thesis using s by (simp add: decfrac_def ab e)
qed

lemma encfrac_small_error:
  assumes "is_double d" "0 < d" "d < 192"
  shows "\<exists>e. decfrac ub (fst (encfrac_bytes (Fin d))) (snd (encfrac_bytes (Fin d))) = Fin e \<and> e \<le> d \<and> d - e < 1 / 128"
proof -
  define fl where "fl = \<lfloor>d\<rfloor>"
  define x where "x = d - of_int fl"
  define k where "k = \<lfloor>rnd (x * 255)\<rfloor>"
  have fl: "0 \<le> fl" "fl < 192" using assms by (simp_all add: fl_def floor_less_iff)
  have x: "0 \<le> x" "x < 1" unfolding x_def fl_def by linarith+
  have dx: "is_double x" unfolding x_def fl_def using double_fraction assms by simp
  have k0: "\<lfloor>x * 255\<rfloor> \<le> k"
  proof -
    have "\<bar>\<lfloor>x * 255\<rfloor>\<bar> \<le> 2 ^ 53" using x by (simp add: abs_if floor_le_iff)
    then have "rnd (of_int \<lfloor>x * 255\<rfloor>) = of_int \<lfloor>x * 255\<rfloor>" by (rule rnd_int)
    then have "of_int \<lfloor>x * 255\<rfloor> \<le> rnd (x * 255)" using rnd_mono[of "of_int \<lfloor>x * 255\<rfloor>" "x * 255"] by simp
    then show ?thesis by (simp add: k_def le_floor_iff)
  qed
  have k1: "of_int k \<le> x * 256"
  proof -
    have "rnd (x * 255) \<le> rnd (x * 2 ^ 8)" using x by (intro rnd_mono) simp
    then have "rnd (x * 255) \<le> x * 256" using double_scaled[OF dx, of 8] by simp
    then show ?thesis unfolding k_def using of_int_floor_le[of "rnd (x * 255)"] by linarith
  qed
  have "of_int k < (256 :: rat)" using k1 x(2) by linarith
  then have k: "0 \<le> k" "k < 256" using k0 x(1) by (auto simp: floor_less_iff intro: order_trans[rotated])
  have enc: "encfrac_bytes (Fin d) = (word_of_int fl, word_of_int k)"
    using assms dx by (simp add: encfrac_bytes_def Let_def fl_def x_def k_def is_double_def)
  have w: "(word_of_int fl :: u8) = of_nat (nat fl)" "(word_of_int k :: u8) = of_nat (nat k)"
    using fl k by simp_all
  have "decfrac ub (word_of_int fl) (word_of_int k) = Fin (of_int fl + of_int k / 256)"
    unfolding w using fl k by (subst decfrac_small) (auto simp: nat_less_iff)
  moreover have "of_int fl + of_int k / 256 \<le> d" using k1 by (simp add: x_def field_simps)
  moreover have "d - (of_int fl + of_int k / 256) < 1 / 128"
  proof -
    have "x * 255 < of_int k + 1" using k0 by linarith
    then have "x - of_int k / 256 < 1 / 128" using x(2) by (simp add: field_simps)
    then show ?thesis by (simp add: x_def)
  qed
  ultimately show ?thesis unfolding enc by auto
qed

text \<open>The large case: the loop halves until the value fits a byte, always rounding down.\<close>

lemma floor_half: "\<lfloor>of_int \<lfloor>y\<rfloor> / (2 :: rat)\<rfloor> = \<lfloor>y / 2\<rfloor>" for y :: rat
proof -
  have "\<lfloor>of_int \<lfloor>y\<rfloor> / (2 :: rat)\<rfloor> = \<lfloor>y\<rfloor> div 2"
    using floor_divide_of_int_eq[of "\<lfloor>y\<rfloor>" 2, where 'a = rat] by simp
  moreover have "\<lfloor>y / 2\<rfloor> = \<lfloor>y\<rfloor> div 2"
  proof (rule floor_unique)
    have "2 * (\<lfloor>y\<rfloor> div 2) \<le> \<lfloor>y\<rfloor>" by simp
    then have "of_int (2 * (\<lfloor>y\<rfloor> div 2)) \<le> y" by (simp only: le_floor_iff)
    then show "of_int (\<lfloor>y\<rfloor> div 2) \<le> y / 2" by simp
    have "\<lfloor>y\<rfloor> < 2 * (\<lfloor>y\<rfloor> div 2) + 2" by linarith
    then have "y < of_int (2 * (\<lfloor>y\<rfloor> div 2) + 2)" by (simp only: floor_less_iff)
    then show "y / 2 < of_int (\<lfloor>y\<rfloor> div 2) + 1" by simp
  qed
  ultimately show ?thesis by simp
qed

lemma half_floor_exact:
  assumes "\<bar>w\<bar> \<le> 2 ^ 53"
  shows "half_floor (Fin (of_int w)) = Fin (of_int \<lfloor>of_int w / (2 :: rat)\<rfloor>)"
proof -
  have "rnd (of_int w / 2) = of_int w / 2"
  proof -
    have p: "(2 :: rat) powi (-1) = 1 / 2" by (simp add: power_int_minus)
    show ?thesis using rnd_exact[of w "-1", unfolded p] assms by simp
  qed
  then show ?thesis by (simp only: half_floor.simps)
qed

lemma encfrac_loop_spec:
  fixes d :: rat
  assumes "0 \<le> d" "d < 2 ^ 38" "j \<le> 29" "j = 0 \<longrightarrow> 96 \<le> \<lfloor>d / 2\<rfloor>" "0 < j \<longrightarrow> 256 \<le> \<lfloor>d / 2 ^ j\<rfloor>"
  shows "\<exists>i. i \<le> 29 \<and> encfrac_loop (Fin (of_int \<lfloor>d / 2 ^ Suc j\<rfloor>)) j = (Fin (of_int \<lfloor>d / 2 ^ Suc i\<rfloor>), i) \<and>
    \<lfloor>d / 2 ^ Suc i\<rfloor> \<le> 255 \<and> 96 \<le> \<lfloor>d / 2 ^ Suc i\<rfloor>"
  using assms
proof (induction "29 - j" arbitrary: j rule: less_induct)
  case less
  let ?w = "\<lfloor>d / 2 ^ Suc j\<rfloor>"
  have w96: "96 \<le> ?w"
  proof (cases "j = 0")
    case False
    then have "(256 :: rat) \<le> d / 2 ^ j" using less.prems(5) by (simp add: le_floor_iff)
    then have "(96 :: rat) \<le> y / 2" if "y = d / 2 ^ j" for y unfolding that[symmetric] by linarith
    then show ?thesis by (simp add: le_floor_iff mult.commute)
  qed (use less.prems(4) in simp)
  show ?case
  proof (cases "?w \<le> 255")
    case True
    then have "encfrac_loop (Fin (of_int ?w)) j = (Fin (of_int ?w), j)"
      by (subst encfrac_loop.simps) simp
    then show ?thesis using True w96 less.prems(3) by blast
  next
    case False
    have j: "j < 29"
    proof (rule ccontr)
      assume "\<not> j < 29"
      then have "j = 29" using less.prems(3) by simp
      then have "?w < 256" using less.prems(2) by (simp add: floor_less_iff field_simps)
      then show False using False by simp
    qed
    have "(1 :: rat) \<le> 2 ^ Suc j" by (rule one_le_power) simp
    then have le: "d / 2 ^ Suc j \<le> d" using divide_left_mono[of 1 "2 ^ Suc j" d] less.prems(1) by simp
    have "?w \<le> 2 ^ 53" using le less.prems(2) by (simp add: floor_le_iff)
    then have "\<bar>?w\<bar> \<le> 2 ^ 53" using w96 by simp
    then have "half_floor (Fin (of_int ?w)) = Fin (of_int \<lfloor>d / 2 ^ Suc (Suc j)\<rfloor>)"
      by (simp only: half_floor_exact floor_half) (simp add: field_simps)
    then have step: "encfrac_loop (Fin (of_int ?w)) j = encfrac_loop (Fin (of_int \<lfloor>d / 2 ^ Suc (Suc j)\<rfloor>)) (Suc j)"
      using False j by (subst encfrac_loop.simps) (simp del: half_floor.simps)
    show ?thesis unfolding step
      by (rule less.hyps) (use j False less.prems(1,2) in auto)
  qed
qed

lemma decfrac_big:
  assumes "i \<le> 29" "0 \<le> w" "w \<le> 255"
  shows "decfrac ub (of_nat (192 + i)) (word_of_int w) = Fin (of_int w * 2 ^ Suc i)"
proof -
  have a: "unat (of_nat (192 + i) :: u8) = 192 + i"
    using assms(1) by (simp only: unsigned_of_nat of_nat_id) (simp add: take_bit_nat_eq_self_iff del: of_nat_add)
  have b: "unat (word_of_int w :: u8) = nat w"
  proof -
    have "(word_of_int w :: u8) = of_nat (nat w)" using assms(2) by simp
    then show ?thesis using assms by (simp only: unsigned_of_nat of_nat_id take_bit_nat_eq_self_iff) simp
  qed
  have na: "\<not> (of_nat (192 + i) :: u8) < 192" "(of_nat (192 + i) :: u8) \<noteq> 255"
    using a assms(1) by (auto simp: word_less_nat_alt)
  have "rnd (of_int w * 2 powi int (Suc i)) = of_int w * 2 powi int (Suc i)"
    using assms by (intro rnd_exact) simp_all
  then have "rnd (of_int w * 2 ^ Suc i) = of_int w * 2 ^ Suc i" by (simp only: power_int_of_nat)
  then show ?thesis using assms na unfolding decfrac_def a b
    by (simp add: decfrac_scale_def del: of_nat_add)
qed

lemma encfrac_big_error:
  assumes "is_double d" "192 \<le> d" "d < 2 ^ 38"
  shows "\<exists>e. decfrac ub (fst (encfrac_bytes (Fin d))) (snd (encfrac_bytes (Fin d))) = Fin e \<and> e \<le> d \<and> d - e < d / 96"
proof -
  have "rnd (d / 2) = d / 2"
  proof -
    obtain m k where x: "d = of_int m * 2 powi k" "\<bar>m\<bar> \<le> 2 ^ 53" "-1074 \<le> k" using assms(1) by (rule double_form)
    have "-1073 \<le> k"
    proof (rule ccontr)
      assume "\<not> -1073 \<le> k"
      then have k: "k \<le> -1074" by simp
      have "of_int m \<le> (of_int (2 ^ 53) :: rat)" using x(2) by (simp only: of_int_le_iff)
      then have "d \<le> of_int (2 ^ 53) * 2 powi k" unfolding x(1) by (intro mult_right_mono) auto
      also have "\<dots> \<le> of_int (2 ^ 53) * 2 powi (-53)" using k by (intro mult_left_mono powi_2_mono) auto
      also have "\<dots> = 1" by (simp add: power_int_minus)
      finally show False using assms(2) by simp
    qed
    moreover have "d / 2 = of_int m * 2 powi (k - 1)" unfolding x(1) by (simp add: power_int_diff)
    ultimately show ?thesis using rnd_exact[OF x(2), of "k - 1"] by simp
  qed
  then have h: "half_floor (Fin d) = Fin (of_int \<lfloor>d / 2 ^ Suc 0\<rfloor>)"
    by (simp only: half_floor.simps power_Suc power_0 mult_1_right)
  have "96 \<le> \<lfloor>d / 2\<rfloor>" using assms(2) by (simp add: le_floor_iff)
  then obtain i where i: "i \<le> 29" "encfrac_loop (half_floor (Fin d)) 0 = (Fin (of_int \<lfloor>d / 2 ^ Suc i\<rfloor>), i)"
      "\<lfloor>d / 2 ^ Suc i\<rfloor> \<le> 255" "96 \<le> \<lfloor>d / 2 ^ Suc i\<rfloor>"
    using encfrac_loop_spec[of d 0] assms(2,3) unfolding h by auto
  let ?w = "\<lfloor>d / 2 ^ Suc i\<rfloor>"
  have e: "fst (encfrac_bytes (Fin d)) = of_nat (192 + i)" "snd (encfrac_bytes (Fin d)) = word_of_int ?w"
    using i assms(2) by (simp_all add: encfrac_bytes_def del: half_floor.simps of_nat_add power_Suc)
  have le: "of_int ?w * 2 ^ Suc i \<le> d"
  proof -
    have "of_int ?w \<le> d / 2 ^ Suc i" by (rule of_int_floor_le)
    then show ?thesis by (simp only: pos_le_divide_eq zero_less_power zero_less_numeral)
  qed
  have "d / 2 ^ Suc i < of_int ?w + 1" by linarith
  then have "d < (of_int ?w + 1) * 2 ^ Suc i" by (simp only: pos_divide_less_eq zero_less_power zero_less_numeral)
  then have up: "d - of_int ?w * 2 ^ Suc i < 2 ^ Suc i" by (simp add: distrib_right del: power_Suc)
  have "(96 :: rat) * 2 ^ Suc i \<le> of_int ?w * 2 ^ Suc i" using i(4) by (intro mult_right_mono) auto
  then have "d - of_int ?w * 2 ^ Suc i < d / 96" using le up by linarith
  then show ?thesis using le decfrac_big[OF i(1) _ i(3), of ub] i(4) unfolding e by simp
qed

end
