(* ===== verification/PortProps.thy ===== *)
theory PortProps
  imports IoportBuffer IoportFile EncFrac
begin

text \<open>The properties of the port encodings, stated on the ports the program creates.\<close>

lemma length_enc_string: "length s \<le> 127 \<Longrightarrow> length (enc_string s) \<le> 128"
proof -
  assume s: "length s \<le> 127"
  have "length (concat (map code6 s)) = 6 * length s" by (induction s) (simp_all add: code6_def)
  then have "length (enc_string s) = Suc ((6 * length s + 7) div 8) \<or> length (enc_string s) = Suc (length s)"
    by (auto simp: enc_string_def length_pack str_bytes_def)
  then show ?thesis using s by linarith
qed

lemma length_enc_int: "length (enc_int i) \<le> 4"
  by (simp add: enc_int_def Let_def)

lemma plain_string_port:
  assumes "mem_port io pre" "length pre < 2 ^ 31" "length s \<le> 127" "list_all plain_char s"
  obtains io' where "ioport_write_encstring io s = Ok (True, io')" "mem_port io' (pre @ enc_string s)"
proof -
  have ascii: "\<forall>c \<in> set s. char_code c < 128" using assms(4) plain_ascii unfolding list_all_iff by blast
  have fits: "bw.fits io (length (enc_string s))"
    using mem_port_fits[OF assms(1)] assms(2) length_enc_string[OF assms(3)] by simp
  obtain r where r: "ioport_write_encstring io s = Ok r" "bw.emits 0 io (enc_string s) r"
    using bw.emits_encstring[OF mem_port_ready[OF assms(1)] assms(3) ascii fits] by blast
  from mem_port_emits[OF assms(1) r(2)] r(1) that show ?thesis by blast
qed

text \<open>
  C3: Two NUL-free ASCII strings of at most 127 characters (DEL excluded) written one after
  the other to a fresh memory port with \<^verbatim>\<open>ioport_write_encstring\<close>, each in its 6-bit or its
  plain form as the code chooses, are accepted, and two calls of
  \<^verbatim>\<open>ioport_read_encstring\<close> give the same two strings: the encoding is invertible and
  delimits itself, whatever padding the bit stream of the first one ends in.
\<close>

theorem encstring_roundtrip:
  assumes "length s \<le> 127" "list_all plain_char s" "length s2 \<le> 127" "list_all plain_char s2" "sz < 2 ^ 32"
  shows "\<exists>io1 io2 io3 io4.
    ioport_write_encstring (ioport_create_buffer junk None sz) s = Ok (True, io1) \<and>
    ioport_write_encstring io1 s2 = Ok (True, io2) \<and>
    ioport_read_encstring io2 = (Some s, io3) \<and>
    ioport_read_encstring io3 = (Some s2, io4) \<and> buf_rest (storage io4) = []"
proof -
  obtain io1 where 1: "ioport_write_encstring (ioport_create_buffer junk None sz) s = Ok (True, io1)"
      "mem_port io1 (enc_string s)"
    using plain_string_port[OF mem_port_fresh[OF assms(5)] _ assms(1,2)] by auto
  obtain io2 where 2: "ioport_write_encstring io1 s2 = Ok (True, io2)"
      "mem_port io2 (enc_string s @ enc_string s2)"
    by (rule plain_string_port[OF 1(2) _ assms(3,4)]) (use length_enc_string[OF assms(1)] in auto)
  have src: "br.source io2" "buf_rest (storage io2) = enc_string s @ enc_string s2"
    using mem_port_source[OF 2(2)] by auto
  obtain io3 where 3: "ioport_read_encstring io2 = (Some s, io3)" "br.source io3"
      "buf_rest (storage io3) = enc_string s2"
    using br.givesE[OF br.gives_encstring[OF src assms(1,2)] src(1)] by blast
  then have r3: "buf_rest (storage io3) = enc_string s2 @ []" by simp
  obtain io4 where "ioport_read_encstring io3 = (Some s2, io4)" "buf_rest (storage io4) = []"
    using br.givesE[OF br.gives_encstring[OF 3(2) r3 assms(3,4)] 3(2)] by blast
  then show ?thesis using 1(1) 2(1) 3(1) by blast
qed

theorem encstring_roundtrip_witness:
  "\<exists>io1. ioport_write_encstring (ioport_create_buffer (\<lambda>_. 0) None 16) ''load/avg'' = Ok (True, io1)"
proof -
  have "list_all plain_char ''load/avg''" "list_all plain_char ''O=x!''"
    by (simp_all add: plain_char_def char_code_def)
  then show ?thesis using encstring_roundtrip[of "''load/avg''" "''O=x!''" 16 "\<lambda>_. 0"] by auto
qed

text \<open>
  An integer below 2^28 written to a fresh memory port with \<^verbatim>\<open>ioport_write_encint\<close>
  takes at most four bytes and is read back by \<^verbatim>\<open>ioport_read_encint\<close>, in at most four
  rounds of its loop, whatever the compiled code computes for the shifts of \<open>0x7f\<close> by 28
  and more bits that C leaves undefined.
\<close>

theorem encint_roundtrip:
  assumes "i < 2 ^ 28" "sz < 2 ^ 32"
  shows "\<exists>io1 io2. ioport_write_encint ub (ioport_create_buffer junk None sz) i = (True, io1) \<and>
    length (buf_written (storage io1)) \<le> 4 \<and>
    ioport_read_encint 4 io1 = Some (i, io2) \<and> buf_rest (storage io2) = []"
proof -
  let ?io = "ioport_create_buffer junk None sz"
  have "bw.fits ?io (length (enc_int i))"
    using mem_port_fits[OF mem_port_fresh[OF assms(2)], of 4 junk] length_enc_int[of i] by (simp add: bw.fits_def)
  then have "bw.emits 0 ?io (enc_int i) (ioport_write_encint ub ?io i)"
    using bw.emits_encint[OF mem_port_ready[OF mem_port_fresh[OF assms(2)]] _ assms(1)] by blast
  from mem_port_emits[OF mem_port_fresh[OF assms(2)] this]
  obtain io1 where 1: "ioport_write_encint ub ?io i = (True, io1)" "mem_port io1 (enc_int i)" by auto
  have src: "br.source io1" "buf_rest (storage io1) = enc_int i @ []" using mem_port_source[OF 1(2)] by auto
  obtain r where "ioport_read_encint 4 io1 = Some r" "br.gives io1 i [] r"
    using br.gives_encint[OF src assms(1), of 4] by auto
  then show ?thesis using 1 length_enc_int[of i]
    by (auto simp: mem_port_def elim!: giveE)
qed

theorem encint_roundtrip_witness:
  "\<exists>io1 io2. ioport_write_encint (\<lambda>_. -1) (ioport_create_buffer (\<lambda>_. 0) None 8) 300 = (True, io1) \<and>
     ioport_read_encint 4 io1 = Some (300, io2)"
  using encint_roundtrip[of 300 8 "\<lambda>_. -1" "\<lambda>_. 0"] by auto

text \<open>The 32-bit shifter of x86, which takes the count modulo 32.\<close>

definition x86_shl_7f :: "nat \<Rightarrow> int" where
  "x86_shl_7f n = sint (push_bit (n mod 32) 0x7f :: u32)"

text \<open>
  On a machine whose shifter takes the count modulo 32, as x86 does, the shifts that C
  leaves undefined make \<^verbatim>\<open>ioport_write_encint\<close> drop bits: 2^35, well inside the 63 bits the
  documentation of the function promises, is written as the value 0 read back.
\<close>

theorem encint_x86_loses_bits:
  "(case ioport_write_encint x86_shl_7f (ioport_create_buffer (\<lambda>_. 0) None 8) (2 ^ 35) of
      (ok, io1) \<Rightarrow> (ok, buf_written (storage io1), map_option fst (ioport_read_encint 9 io1)))
   = (True, [0x80, 0x80, 0x80, 0x80, 0], Some 0)"
proof -
  have m: "encint_mask x86_shl_7f 56 = 0x7f000000" "encint_mask x86_shl_7f 49 = 0xfe0000"
    "encint_mask x86_shl_7f 42 = 0x1fc00" "encint_mask x86_shl_7f 35 = 0x3f8"
    "encint_mask x86_shl_7f 28 = 0xfffffffff0000000" "encint_mask x86_shl_7f 21 = 0xfe00000"
    "encint_mask x86_shl_7f 14 = 0x1fc000" "encint_mask x86_shl_7f 7 = 0x3f80" "encint_mask x86_shl_7f 0 = 0x7f"
    by (simp_all add: encint_mask_def x86_shl_7f_def)
  have d: "decint_loop (numeral n) io res =
     (case ioport_read_byte io of (d, io) \<Rightarrow>
      let res = (if res \<noteq> 0 then push_bit 7 res else res); res = res OR (ucast d AND 0x7f)
      in if d AND 0x80 \<noteq> 0 then decint_loop (pred_numeral n) io res else Some (res, io))"
    for n :: num and io :: "bufferstorage ioport" and res
    by (simp only: numeral_eq_Suc decint_loop.simps)
  show ?thesis
    by (simp add: ioport_write_encint_def m d ioport_create_buffer_def ioport_write_byte_def
        io_method_write_def buffer_write_def buf_written_def ioport_read_encint_def
        ioport_read_byte_def ioport_read_def buffer_read_def)
qed

text \<open>
  C4: A positive double below 192 written with \<^verbatim>\<open>ioport_write_encfrac\<close> is read back
  rounded down by less than 1/128, and one from 192 up to 2^38 by less than 1/96 of its
  value; the arithmetic of both functions is that of IEEE doubles.
\<close>

theorem encfrac_accuracy:
  assumes "is_double d" "0 < d" "d < 2 ^ 38" "sz < 2 ^ 32"
  shows "\<exists>io1 io2 e. ioport_write_encfrac (ioport_create_buffer junk None sz) (Fin d) = (True, io1) \<and>
    ioport_read_encfrac ub io1 = (Fin e, io2) \<and> e \<le> d \<and> d - e < (if d < 192 then 1 / 128 else d / 96)"
proof -
  let ?io = "ioport_create_buffer junk None sz"
  have "bw.emits 0 ?io (enc_frac (Fin d)) (ioport_write_encfrac ?io (Fin d))"
    using mem_port_fits[OF mem_port_fresh[OF assms(4)], of 2 junk]
    by (intro bw.emits_encfrac mem_port_ready[OF mem_port_fresh[OF assms(4)]]) simp
  from mem_port_emits[OF mem_port_fresh[OF assms(4)] this]
  obtain io1 where 1: "ioport_write_encfrac ?io (Fin d) = (True, io1)" "mem_port io1 (enc_frac (Fin d))" by auto
  have src: "br.source io1" "buf_rest (storage io1) = enc_frac (Fin d) @ []" using mem_port_source[OF 1(2)] by auto
  obtain e where e: "decfrac ub (fst (encfrac_bytes (Fin d))) (snd (encfrac_bytes (Fin d))) = Fin e" "e \<le> d"
      "d - e < (if d < 192 then 1 / 128 else d / 96)"
    using encfrac_small_error[OF assms(1,2)] encfrac_big_error[OF assms(1) _ assms(3)]
    by (cases "d < 192") fastforce+
  show ?thesis using 1(1) e(2,3) br.gives_encfrac[OF src, of ub] unfolding e(1) by (auto elim!: giveE)
qed

theorem encfrac_accuracy_witness:
  "\<exists>io1 io2 e. ioport_write_encfrac (ioport_create_buffer (\<lambda>_. 0) None 8) (Fin (1 / 2)) = (True, io1) \<and>
    ioport_read_encfrac (\<lambda>_. 0) io1 = (Fin e, io2) \<and> e \<le> 1 / 2 \<and> 1 / 2 - e < (1 / 128 :: rat)"
proof -
  have "is_double (1 / 2)" using rnd_exact[of 1 "-1"] by (simp add: is_double_def power_int_minus)
  then show ?thesis using encfrac_accuracy[of "1 / 2" 8 "\<lambda>_. 0" "\<lambda>_. 0"] by simp
qed

end
