(* ===== verification/Base64.thy ===== *)
theory Base64
  imports Prelude
begin

text \<open>
  \<^verbatim>\<open>src/libopticon/base64.c\<close>: the encoder with its line breaks, the size it allocates,
  and the decoder. Session and tenant keys are stored in this form.
\<close>

definition base64_table :: string where
  "base64_table = ''ABCDEFGHIJKLMNOPQRSTUVWXYZabcdefghijklmnopqrstuvwxyz0123456789+/''"

definition b64_char :: "u8 \<Rightarrow> char" where
  "b64_char w = base64_table ! unat w"

subsection \<open>Encoding\<close>

text \<open>The size of the block that \<open>base64_encode\<close> allocates; \<open>size_t\<close> has 64 bits.\<close>

definition base64_olen :: "nat \<Rightarrow> nat" where
  "base64_olen len =
     (let olen = (len * 4) mod 2 ^ 64 div 3 + 4;
          olen' = olen + olen div 72
      in olen' + 1)"

fun base64_encode_loop :: "bytes \<Rightarrow> nat \<Rightarrow> string" where
  "base64_encode_loop (a # b # c # rest) line_len =
     [b64_char (drop_bit 2 a),
      b64_char (push_bit 4 (a AND 0x03) OR drop_bit 4 b),
      b64_char (push_bit 2 (b AND 0x0f) OR drop_bit 6 c),
      b64_char (c AND 0x3f)] @
     (if line_len + 4 \<ge> 72 then CHR 0x0A # base64_encode_loop rest 0
      else base64_encode_loop rest (line_len + 4))"
| "base64_encode_loop [a, b] line_len =
     [b64_char (drop_bit 2 a),
      b64_char (push_bit 4 (a AND 0x03) OR drop_bit 4 b),
      b64_char (push_bit 2 (b AND 0x0f)), CHR ''='']"
| "base64_encode_loop [a] line_len =
     [b64_char (drop_bit 2 a), b64_char (push_bit 4 (a AND 0x03)), CHR ''='', CHR ''='']"
| "base64_encode_loop [] line_len = []"

definition base64_encode :: "bytes \<Rightarrow> string" where
  "base64_encode src = base64_encode_loop src 0"

subsection \<open>Decoding\<close>

definition dtable :: "char \<Rightarrow> u8" where
  "dtable = (fold (\<lambda>i t. t(base64_table ! i := word_of_nat i)) [0..<64] (\<lambda>_. 0x80))(CHR ''='' := 0)"

definition base64_count :: "string \<Rightarrow> nat" where
  "base64_count src = length (filter (\<lambda>c. dtable c \<noteq> 0x80) src)"

text \<open>
  The second loop: \<open>inb\<close> and \<open>block\<close> are the two four-element arrays, \<open>count\<close> the
  position in them, \<open>out\<close> the bytes written so far.
\<close>

fun base64_decode_loop :: "string \<Rightarrow> string \<Rightarrow> bytes \<Rightarrow> nat \<Rightarrow> bytes \<Rightarrow> string \<times> bytes" where
  "base64_decode_loop [] inb block count out = (inb, out)"
| "base64_decode_loop (c # cs) inb block count out =
     (let tmp = dtable c in
      if tmp = 0x80 then base64_decode_loop cs inb block count out
      else let inb' = inb[count := c]; block' = block[count := tmp] in
        if count + 1 = 4
        then base64_decode_loop cs inb' block' 0
               (out @ [push_bit 2 (block' ! 0) OR drop_bit 4 (block' ! 1),
                       push_bit 4 (block' ! 1) OR drop_bit 2 (block' ! 2),
                       push_bit 6 (block' ! 2) OR block' ! 3])
        else base64_decode_loop cs inb' block' (count + 1) out)"

definition base64_decode :: "string \<Rightarrow> bytes option" where
  "base64_decode src =
     (if base64_count src mod 4 \<noteq> 0 then None
      else let (inb, out) = base64_decode_loop src (replicate 4 (CHR 0x00)) (replicate 4 0) 0 [] in
        Some (if out = [] then out
              else if inb ! 2 = CHR ''='' then take (length out - 2) out
              else if inb ! 3 = CHR ''='' then take (length out - 1) out
              else out))"

subsection \<open>The table\<close>

lemma length_base64_table: "length base64_table = 64"
  by (simp add: base64_table_def)

lemma distinct_base64_table: "distinct base64_table"
  by (simp add: base64_table_def)

lemma equals_not_in_table: "CHR ''='' \<notin> set base64_table"
  and newline_not_in_table: "CHR 0x0A \<notin> set base64_table"
  by (simp_all add: base64_table_def)

lemma fold_upd_nth:
  assumes "distinct xs" "n \<le> length xs" "k < n"
  shows "fold (\<lambda>i t. t(xs ! i := f i)) [0..<n] t (xs ! k) = f k"
  using assms
proof (induction n arbitrary: t)
  case (Suc n)
  then show ?case
    by (cases "k = n") (auto simp: nth_eq_iff_index_eq)
qed simp

lemma fold_upd_other:
  assumes "n \<le> length xs" "y \<notin> set xs"
  shows "fold (\<lambda>i t. t(xs ! i := f i)) [0..<n] t y = t y"
  using assms by (induction n arbitrary: t) auto

lemma b64_char_in_table: "unat w < 64 \<Longrightarrow> b64_char w \<in> set base64_table"
  by (simp add: b64_char_def length_base64_table)

lemma dtable_b64_char:
  assumes "unat w < 64"
  shows "dtable (b64_char w) = w"
proof -
  have "b64_char w \<noteq> CHR ''=''" using b64_char_in_table[OF assms] equals_not_in_table by metis
  then show ?thesis
    using assms fold_upd_nth[of base64_table 64 "unat w" "word_of_nat :: nat \<Rightarrow> u8" "\<lambda>_. 0x80"] distinct_base64_table length_base64_table
    by (simp add: dtable_def b64_char_def)
qed

lemma dtable_equals: "dtable (CHR ''='') = 0"
  by (simp add: dtable_def)

lemma dtable_newline: "dtable (CHR 0x0A) = 0x80"
  using fold_upd_other[of 64 base64_table "CHR 0x0A"] newline_not_in_table length_base64_table
  by (simp add: dtable_def)

lemma small_not_80: "unat (w :: u8) < 64 \<Longrightarrow> w \<noteq> 0x80"
  by auto

subsection \<open>One group of four characters\<close>

lemma decode_group:
  assumes "length inb = 4" "length block = 4"
    and "dtable c0 \<noteq> 0x80" "dtable c1 \<noteq> 0x80" "dtable c2 \<noteq> 0x80" "dtable c3 \<noteq> 0x80"
  shows "base64_decode_loop (c0 # c1 # c2 # c3 # cs) inb block 0 out =
    base64_decode_loop cs [c0, c1, c2, c3] [dtable c0, dtable c1, dtable c2, dtable c3] 0
      (out @ [push_bit 2 (dtable c0) OR drop_bit 4 (dtable c1),
              push_bit 4 (dtable c1) OR drop_bit 2 (dtable c2),
              push_bit 6 (dtable c2) OR dtable c3])"
proof -
  obtain i0 i1 i2 i3 where i: "inb = [i0, i1, i2, i3]"
    using assms(1) by (auto simp: length_Suc_conv numeral_eq_Suc)
  obtain b0 b1 b2 b3 where b: "block = [b0, b1, b2, b3]"
    using assms(2) by (auto simp: length_Suc_conv numeral_eq_Suc)
  show ?thesis using assms(3-) by (simp add: i b Let_def)
qed

lemma word8_lt64: "(\<And>n. bit (w :: u8) n \<Longrightarrow> n < 6) \<Longrightarrow> unat w < 64"
  using unat_bits_less[of w 6] by simp

lemma sextets:
  "unat (drop_bit 2 (a :: u8)) < 64"
  "unat (push_bit 4 (a AND 3) OR drop_bit 4 (b :: u8)) < 64"
  "unat (push_bit 4 (a AND 3)) < 64"
  "unat (push_bit 2 (b AND 15) OR drop_bit 6 (c :: u8)) < 64"
  "unat (push_bit 2 (b AND 15)) < 64"
  "unat (c AND 63) < 64"
  by (rule word8_lt64; auto simp: bit_word_simps simp del: push_bit_and dest!: word8_bit_bound)+

lemma octets:
  fixes a b c :: u8
  shows "push_bit 2 (drop_bit 2 a) OR drop_bit 4 (push_bit 4 (a AND 3) OR drop_bit 4 b) = a"
    "push_bit 4 (push_bit 4 (a AND 3) OR drop_bit 4 b) OR
       drop_bit 2 (push_bit 2 (b AND 15) OR drop_bit 6 c) = b"
    "push_bit 6 (push_bit 2 (b AND 15) OR drop_bit 6 c) OR (c AND 63) = c"
    "push_bit 2 (drop_bit 2 a) OR drop_bit 4 (push_bit 4 (a AND 3)) = a"
    "push_bit 4 (drop_bit 4 b) OR drop_bit 2 (push_bit 2 (b AND 15)) = b"
    "push_bit 6 (drop_bit 6 c) OR (c AND 63) = c"
    "push_bit 4 (push_bit 4 (a AND 3) OR drop_bit 4 b) OR drop_bit 2 (push_bit 2 (b AND 15)) = b"
  by (rule word8_eqI; simp add: bit_word_simps del: push_bit_and)+

lemmas b64_group = decode_group dtable_b64_char dtable_equals sextets octets small_not_80

subsection \<open>Decoding an encoding\<close>

definition pad_len :: "bytes \<Rightarrow> nat" where
  "pad_len src = (case length src mod 3 of 0 \<Rightarrow> 0 | Suc 0 \<Rightarrow> 2 | _ \<Rightarrow> 1)"

definition pad_of :: "nat \<Rightarrow> string \<Rightarrow> bool" where
  "pad_of n inb \<longleftrightarrow> (if n = 2 then inb ! 2 = CHR ''='' else inb ! 2 \<noteq> CHR ''='' \<and> (n = 1) = (inb ! 3 = CHR ''=''))"

lemma b64_char_not_eq: "unat w < 64 \<Longrightarrow> b64_char w \<noteq> CHR ''=''"
  using b64_char_in_table equals_not_in_table by metis

lemma pad_len_simps [simp]:
  "pad_len [] = 0" "pad_len [a] = 2" "pad_len [a, b] = 1" "pad_len (a # b # c # rest) = pad_len rest"
proof -
  have "length (a # b # c # rest) mod 3 = length rest mod 3"
    using mod_add_self2[of "length rest" 3] by (simp only: list.size) simp
  then show "pad_len (a # b # c # rest) = pad_len rest" by (simp only: pad_len_def)
qed (simp_all add: pad_len_def numeral_2_eq_2)

lemma decode_newline:
  "base64_decode_loop (CHR 0x0A # cs) inb block count out = base64_decode_loop cs inb block count out"
  by (simp add: dtable_newline)

lemma decode_loop_encode:
  assumes "length inb = 4" "length block = 4" "src \<noteq> []"
  shows "\<exists>inb' pad. base64_decode_loop (base64_encode_loop src line_len) inb block 0 out =
      (inb', out @ src @ pad) \<and> length pad = pad_len src \<and> pad_of (pad_len src) inb'"
  using assms
proof (induction src line_len arbitrary: inb block out rule: base64_encode_loop.induct)
  case (1 a b c rest line_len)
  let ?cs = "[b64_char (drop_bit 2 a), b64_char (push_bit 4 (a AND 3) OR drop_bit 4 b),
    b64_char (push_bit 2 (b AND 15) OR drop_bit 6 c), b64_char (c AND 63)]"
  let ?tail = "base64_encode_loop rest (if line_len + 4 \<ge> 72 then 0 else line_len + 4)"
  have run: "base64_decode_loop (base64_encode_loop (a # b # c # rest) line_len) inb block 0 out =
     base64_decode_loop ?tail ?cs
       [drop_bit 2 a, push_bit 4 (a AND 3) OR drop_bit 4 b,
        push_bit 2 (b AND 15) OR drop_bit 6 c, c AND 63] 0 (out @ [a, b, c])"
    using 1 by (simp add: decode_group dtable_b64_char sextets octets small_not_80 decode_newline
        del: push_bit_and base64_decode_loop.simps)
  show ?case
  proof (cases "rest = []")
    case True
    then show ?thesis
      using run b64_char_not_eq[OF sextets(4)] b64_char_not_eq[OF sextets(6)]
      by (simp add: pad_of_def del: push_bit_and)
  next
    case False
    let ?blk = "[drop_bit 2 a, push_bit 4 (a AND 3) OR drop_bit 4 b,
        push_bit 2 (b AND 15) OR drop_bit 6 c, c AND 63]"
    have "\<exists>inb' pad. base64_decode_loop ?tail ?cs ?blk 0 (out @ [a, b, c]) =
      (inb', (out @ [a, b, c]) @ rest @ pad) \<and> length pad = pad_len rest \<and> pad_of (pad_len rest) inb'"
    proof (cases "line_len + 4 \<ge> 72")
      case True
      then show ?thesis using 1(1)[OF True, of ?cs ?blk "out @ [a, b, c]"] False by simp
    next
      case F: False
      then show ?thesis using 1(2)[OF F, of ?cs ?blk "out @ [a, b, c]"] False by simp
    qed
    then show ?thesis unfolding run by (simp only: append_assoc append_Cons append_Nil pad_len_simps)
  qed
next
  case (2 a b line_len)
  then show ?case
    using b64_char_not_eq[OF sextets(5)]
    by (simp add: decode_group dtable_b64_char dtable_equals sextets octets small_not_80 pad_of_def
        del: push_bit_and base64_decode_loop.simps(2))
next
  case (3 a line_len)
  then show ?case
    by (simp add: decode_group dtable_b64_char dtable_equals sextets octets small_not_80 pad_of_def
        del: push_bit_and base64_decode_loop.simps(2))
next
  case (4 line_len)
  then show ?case by simp
qed

lemma base64_count_encode: "base64_count (base64_encode_loop src line_len) mod 4 = 0"
proof (induction src line_len rule: base64_encode_loop.induct)
  case (1 a b c rest line_len)
  have "filter (\<lambda>c. dtable c \<noteq> 0x80) (base64_encode_loop (a # b # c # rest) line_len) =
    [b64_char (drop_bit 2 a), b64_char (push_bit 4 (a AND 3) OR drop_bit 4 b),
     b64_char (push_bit 2 (b AND 15) OR drop_bit 6 c), b64_char (c AND 63)] @
    filter (\<lambda>c. dtable c \<noteq> 0x80) (base64_encode_loop rest (if line_len + 4 \<ge> 72 then 0 else line_len + 4))"
    by (simp add: dtable_b64_char sextets small_not_80 dtable_newline del: push_bit_and)
  with 1 show ?case by (simp add: base64_count_def split: if_splits)
qed (simp_all add: base64_count_def dtable_b64_char sextets small_not_80 dtable_equals del: push_bit_and)

lemma base64_decode_encode: "base64_decode (base64_encode src) = Some src"
proof (cases "src = []")
  case True
  then show ?thesis by (simp add: base64_decode_def base64_encode_def base64_count_def)
next
  case False
  then obtain inb' pad where
    l: "base64_decode_loop (base64_encode_loop src 0) (replicate 4 (CHR 0x00)) (replicate 4 0) 0 [] =
      (inb', src @ pad)" and p: "length pad = pad_len src" "pad_of (pad_len src) inb'"
    using decode_loop_encode[of "replicate 4 (CHR 0x00)" "replicate 4 0" src 0 "[]"] by auto
  have "pad_len src = 0 \<or> pad_len src = 1 \<or> pad_len src = 2"
    by (simp add: pad_len_def split: nat.splits)
  with l p False show ?thesis
    by (auto simp: base64_decode_def base64_encode_def base64_count_encode pad_of_def split: if_splits)
qed

subsection \<open>The allocated block is large enough\<close>

definition line_breaks :: "nat \<Rightarrow> nat \<Rightarrow> nat" where
  "line_breaks groups line_len = (line_len div 4 + groups) div 18"

lemma length_encode_loop:
  assumes "line_len < 72" "line_len mod 4 = 0"
  shows "length (base64_encode_loop src line_len) =
    4 * ((length src + 2) div 3) + (line_len div 4 + length src div 3) div 18"
  using assms
proof (induction src line_len rule: base64_encode_loop.induct)
  case (1 a b c rest line_len)
  show ?case
  proof (cases "line_len + 4 \<ge> 72")
    case True
    then have "line_len div 4 = 17" using 1(3,4) by presburger
    moreover have "(5 + length rest) div 3 = Suc (Suc (Suc (length rest)) div 3)" by simp
    ultimately show ?thesis using True 1 by simp
  next
    case False
    moreover have "(5 + length rest) div 3 = Suc (Suc (Suc (length rest)) div 3)" by simp
    ultimately show ?thesis using 1 by simp
  qed
qed auto

lemma encode_fits:
  assumes "length src * 4 < 2 ^ 64"
  shows "length (base64_encode src) + 1 \<le> base64_olen (length src)"
proof -
  let ?n = "length src"
  have "length (base64_encode src) = 4 * ((?n + 2) div 3) + (?n div 3) div 18"
    using length_encode_loop[of 0 src] by (simp add: base64_encode_def)
  moreover have "base64_olen ?n = ?n * 4 div 3 + 4 + (?n * 4 div 3 + 4) div 72 + 1"
    using assms by (simp add: base64_olen_def Let_def)
  moreover have "4 * ((?n + 2) div 3) \<le> ?n * 4 div 3 + 4" by simp
  moreover have "(?n div 3) div 18 \<le> (?n * 4 div 3 + 4) div 72" by simp
  ultimately show ?thesis by simp
qed

subsection \<open>Properties\<close>

text \<open>
  Decoding what \<^verbatim>\<open>base64_encode\<close> writes gives the original bytes, for every length and
  whatever line breaks were inserted.
\<close>

theorem base64_roundtrip: "base64_decode (base64_encode src) = Some src"
  by (rule base64_decode_encode)

text \<open>
  The block \<^verbatim>\<open>base64_encode\<close> allocates holds the encoded text, its line breaks and the
  terminating NUL, whenever four times the input size is representable.
\<close>

theorem base64_block_suffices:
  assumes "length src * 4 < 2 ^ 64"
  shows "length (base64_encode src) + 1 \<le> base64_olen (length src)"
  using assms by (rule encode_fits)

theorem base64_block_suffices_witness:
  "length (base64_encode [1, 2, 3, 4]) + 1 \<le> base64_olen (length [1, 2, 3, 4 :: u8])"
  using base64_block_suffices[of "[1, 2, 3, 4]"] by simp

end
