(* ===== verification/Ids.thy ===== *)
theory Ids
  imports Prelude
begin

text \<open>
  Meter identifiers, from \<^verbatim>\<open>src/libopticon/util.c\<close> and \<^verbatim>\<open>include/libopticon/meter.h\<close>.
  A meterid is a 64-bit word: two type bits, eleven 5-bit characters, two unused
  bits and a 5-bit count. \<open>idchar id k\<close> reads the k-th character; the lemmas
  describe every loop of the source by these characters.
\<close>

subsection \<open>Constants of meter.h\<close>

definition MTYPE_INT :: u64 where "MTYPE_INT = 0x0000000000000000"
definition MTYPE_FRAC :: u64 where "MTYPE_FRAC = 0x4000000000000000"
definition MTYPE_STR :: u64 where "MTYPE_STR = 0x8000000000000000"

definition MMASK_TYPE :: u64 where "MMASK_TYPE = 0xc000000000000000"
definition MMASK_COUNT :: u64 where "MMASK_COUNT = 0x000000000000001f"
definition MMASK_NAME :: u64 where "MMASK_NAME = 0x3fffffffffffffe0"

definition SZ_MAX_ARRAY :: nat where "SZ_MAX_ARRAY = 0x1d"
definition SZ_EMPTY_VAL :: nat where "SZ_EMPTY_VAL = 0x1e"
definition SZ_EMPTY_ARRAY :: nat where "SZ_EMPTY_ARRAY = 0x1f"

lemmas mask_defs = MTYPE_INT_def MTYPE_FRAC_def MTYPE_STR_def MMASK_TYPE_def
  MMASK_COUNT_def MMASK_NAME_def

lemmas sz_defs = SZ_MAX_ARRAY_def SZ_EMPTY_VAL_def SZ_EMPTY_ARRAY_def

subsection \<open>The 5-bit character tables\<close>

definition IDTABLE :: string where
  "IDTABLE = '' abcdefghijklmnopqrstuvwxyz.-_/@''"

definition ASCIITABLE :: "u64 list" where
  "ASCIITABLE =
   [0, 0, 0, 0, 0, 0, 0, 0, 0, 0, 0, 0, 0, 0, 0, 0,
    0, 0, 0, 0, 0, 0, 0, 0, 0, 0, 0, 0, 0, 0, 0, 0,
    0, 0, 0, 0, 0, 0, 0, 0, 0, 0, 0, 0, 0, 28, 27, 30,
    0, 0, 0, 0, 0, 0, 0, 0, 0, 0, 0, 0, 0, 0, 0, 0,
    31, 1, 2, 3, 4, 5, 6, 7, 8, 9, 10, 11, 12, 13, 14, 15,
    16, 17, 18, 19, 20, 21, 22, 23, 24, 25, 26, 0, 0, 0, 0, 29,
    0, 1, 2, 3, 4, 5, 6, 7, 8, 9, 10, 11, 12, 13, 14, 15,
    16, 17, 18, 19, 20, 21, 22, 23, 24, 25, 26, 0, 0, 0, 0, 0]"

definition char_idx :: "char \<Rightarrow> nat" where
  "char_idx c = of_char c"

definition ascii_code :: "char \<Rightarrow> u64" where
  "ascii_code c = ASCIITABLE ! char_idx c"

subsection \<open>makeid\<close>

text \<open>\<open>c > 0\<close> on a signed char: the bytes 1 to 127.\<close>

fun makeid_loop :: "string \<Rightarrow> nat \<Rightarrow> u64 \<Rightarrow> u64" where
  "makeid_loop [] bshift res = res"
| "makeid_loop (c # crsr) bshift res =
     (if \<not> (c \<noteq> CHR 0x00 \<and> bshift > 2) then res
      else if char_idx c < 128
           then makeid_loop crsr (bshift - 5) (res OR push_bit bshift (ascii_code c))
           else makeid_loop crsr bshift res)"

definition makeid :: "string \<Rightarrow> u64 \<Rightarrow> u64" where
  "makeid label tp = makeid_loop label 57 tp"

subsection \<open>The loops over the characters of an id\<close>

text \<open>Every loop runs \<open>bshift = 57, 52, \<dots>, 7\<close>.\<close>

function id2mask_loop :: "u64 \<Rightarrow> nat \<Rightarrow> u64 \<Rightarrow> u64" where
  "id2mask_loop ident bshift res =
     (if bshift > 2 then
        (let msk = push_bit bshift 31 in
         if ident AND msk = 0 then res
         else id2mask_loop ident (bshift - 5) (res OR msk))
      else res)"
  by pat_completeness auto
termination by (relation "measure (\<lambda>(i, b, r). b)") auto

definition id2mask :: "u64 \<Rightarrow> u64" where
  "id2mask ident = id2mask_loop ident 57 0"

function idisprefix_loop :: "u64 \<Rightarrow> u64 \<Rightarrow> nat \<Rightarrow> bool" where
  "idisprefix_loop prefixfor pmask bshift =
     (if bshift > 2 then
        (let msk = push_bit bshift 31 in
         if pmask AND msk = 0
         then drop_bit bshift (prefixfor AND msk) = ascii_code (CHR ''/'')
         else idisprefix_loop prefixfor pmask (bshift - 5))
      else False)"
  by pat_completeness auto
termination by (relation "measure (\<lambda>(i, m, b). b)") auto

definition idisprefix :: "u64 \<Rightarrow> u64 \<Rightarrow> u64 \<Rightarrow> bool" where
  "idisprefix potential prefixfor pmask =
     (if prefixfor AND pmask \<noteq> potential AND pmask then False
      else idisprefix_loop prefixfor pmask 57)"

function idgetprefix_loop :: "u64 \<Rightarrow> nat \<Rightarrow> u64 \<Rightarrow> u64" where
  "idgetprefix_loop ident bshift res =
     (if bshift > 2 then
        (let msk = push_bit bshift 31;
             ch = drop_bit bshift (ident AND msk) in
         if IDTABLE ! unat ch = CHR ''/'' then res
         else idgetprefix_loop ident (bshift - 5) (res OR (ident AND msk)))
      else 0)"
  by pat_completeness auto
termination by (relation "measure (\<lambda>(i, b, r). b)") auto

definition idgetprefix :: "u64 \<Rightarrow> u64" where
  "idgetprefix ident =
     (if ident AND MMASK_NAME = 0 then 0 else idgetprefix_loop ident 57 0)"

text \<open>
  \<open>id2str\<close> writes one character per step at \<open>out\<close> and remembers in \<open>lastp\<close> the last
  position that was not a blank; at the end it puts the NUL at \<open>lastp + 1\<close>. The model
  keeps the buffer written so far and \<open>lastp\<close> as an index.
\<close>

function id2str_loop :: "u64 \<Rightarrow> nat \<Rightarrow> string \<Rightarrow> nat \<Rightarrow> string" where
  "id2str_loop ident bshift out lastp =
     (if bshift > 2 then
        (let tmp = drop_bit bshift (ident AND MMASK_NAME) AND 0x1f;
             t = IDTABLE ! unat tmp in
         id2str_loop ident (bshift - 5) (out @ [t])
           (if t \<noteq> CHR '' '' then length out else lastp))
      else take (lastp + 1) out)"
  by pat_completeness auto
termination by (relation "measure (\<lambda>(i, b, r, e). b)") auto

definition id2str :: "u64 \<Rightarrow> string" where
  "id2str ident = id2str_loop ident 57 [] 0"

text \<open>
  \<open>nodeid2str\<close> writes only what follows a slash. When nothing was written the buffer
  holds the single NUL that \<open>*out = 0\<close> put there, so the result is empty.
\<close>

function nodeid2str_loop :: "u64 \<Rightarrow> nat \<Rightarrow> bool \<Rightarrow> string \<Rightarrow> nat \<Rightarrow> string" where
  "nodeid2str_loop ident bshift dowrite out lastp =
     (if bshift > 2 then
        (let tmp = drop_bit bshift (ident AND MMASK_NAME) AND 0x1f;
             t = IDTABLE ! unat tmp in
         if t = CHR ''/'' then nodeid2str_loop ident (bshift - 5) True out lastp
         else if dowrite
              then nodeid2str_loop ident (bshift - 5) dowrite (out @ [t])
                     (if t \<noteq> CHR '' '' then length out else lastp)
              else nodeid2str_loop ident (bshift - 5) dowrite out lastp)
      else take (lastp + 1) out)"
  by pat_completeness auto
termination by (relation "measure (\<lambda>(i, b, d, r, e). b)") auto

definition nodeid2str :: "u64 \<Rightarrow> string" where
  "nodeid2str ident = nodeid2str_loop ident 57 False [] 0"

fun idmask_loop :: "nat \<Rightarrow> nat \<Rightarrow> u64 \<Rightarrow> u64" where
  "idmask_loop 0 bshift pmask = pmask"
| "idmask_loop (Suc n) bshift pmask = idmask_loop n (bshift - 5) (pmask OR push_bit bshift 0x1f)"

definition idmask :: "nat \<Rightarrow> u64" where
  "idmask sz = idmask_loop sz 57 0"

function idhaspath_loop :: "u64 \<Rightarrow> nat \<Rightarrow> nat \<Rightarrow> u64" where
  "idhaspath_loop ident bshift res =
     (if bshift > 2 then
        (let tmp = drop_bit bshift (ident AND MMASK_NAME) AND 0x1f;
             t = IDTABLE ! unat tmp in
         if t = CHR ''/'' then idmask res
         else idhaspath_loop ident (bshift - 5) (res + 1))
      else 0)"
  by pat_completeness auto
termination by (relation "measure (\<lambda>(i, b, r). b)") auto

definition idhaspath :: "u64 \<Rightarrow> u64" where
  "idhaspath ident = idhaspath_loop ident 57 0"

declare id2mask_loop.simps [simp del] idisprefix_loop.simps [simp del]
  idgetprefix_loop.simps [simp del] id2str_loop.simps [simp del]
  nodeid2str_loop.simps [simp del] idhaspath_loop.simps [simp del]

subsection \<open>Reading an id character by character\<close>

definition idchar :: "u64 \<Rightarrow> nat \<Rightarrow> u64" where
  "idchar ident k = drop_bit (57 - 5 * k) ident AND 31"

definition idchars :: "u64 \<Rightarrow> string" where
  "idchars ident = map (\<lambda>k. IDTABLE ! unat (idchar ident k)) [0..<11]"

lemma bit_31: "bit (31 :: u64) n \<longleftrightarrow> n < 5"
  by auto

lemma bit_idchar: "k \<le> 10 \<Longrightarrow> bit (idchar ident k) n \<longleftrightarrow> n < 5 \<and> bit ident (57 - 5 * k + n)"
  by (auto simp: idchar_def bit_and_iff bit_drop_bit_eq bit_31 add.commute)

lemma MMASK_NAME_push: "MMASK_NAME = push_bit 5 (mask 57)"
  by (simp add: MMASK_NAME_def mask_eq_exp_minus_1)

lemma bit_MMASK_NAME: "bit MMASK_NAME n \<longleftrightarrow> 5 \<le> n \<and> n < 62"
  by (auto simp: MMASK_NAME_push bit_push_bit_iff bit_mask_iff)

lemma MMASK_TYPE_push: "MMASK_TYPE = push_bit 62 (mask 2)"
  by (simp add: MMASK_TYPE_def mask_eq_exp_minus_1)

lemma bit_MMASK_TYPE: "bit MMASK_TYPE n \<longleftrightarrow> n = 62 \<or> n = 63"
  by (auto simp: MMASK_TYPE_push bit_push_bit_iff bit_mask_iff)

lemma bit_MMASK_COUNT: "bit MMASK_COUNT n \<longleftrightarrow> n < 5"
  by (auto simp: MMASK_COUNT_def)

lemmas bit_masks = bit_MMASK_NAME bit_MMASK_TYPE bit_MMASK_COUNT

lemma name_char: "k \<le> 10 \<Longrightarrow> drop_bit (57 - 5 * k) (ident AND MMASK_NAME) AND 31 = idchar ident k"
  by (rule bit_eqI) (auto simp: idchar_def bit_and_iff bit_drop_bit_eq bit_31 bit_MMASK_NAME)

lemma name_char' [simp]:
  "k \<le> 10 \<Longrightarrow> (drop_bit (57 - 5 * k) ident AND drop_bit (57 - 5 * k) MMASK_NAME) AND 31 = idchar ident k"
  using name_char[of k ident] by simp

lemma masked_char:
  "k \<le> 10 \<Longrightarrow> drop_bit (57 - 5 * k) (ident AND push_bit (57 - 5 * k) 31) = idchar ident k"
  by (rule bit_eqI)
     (auto simp: idchar_def bit_and_iff bit_drop_bit_eq bit_push_bit_iff bit_31 dest: bit_imp_le_length)

lemma idchar_bound: "unat (idchar ident k) < 32"
proof -
  have "idchar ident k \<le> 31" by (simp add: idchar_def word_and_le1)
  then show ?thesis by (simp add: word_le_nat_alt)
qed

lemma step_back: "k \<le> 10 \<Longrightarrow> (57 - 5 * k) - 5 = 57 - 5 * (Suc k :: nat)"
  by simp

lemma step_guard: "(57 - 5 * k > (2::nat)) \<longleftrightarrow> k \<le> 10"
  by auto

lemma slash_iff: "IDTABLE ! unat (idchar ident k) = CHR ''/'' \<longleftrightarrow> idchar ident k = 30"
proof -
  have "\<forall>n < 32. (IDTABLE ! n = CHR ''/'') = (n = 30)"
    by (simp add: IDTABLE_def All_less_Suc numeral_eq_Suc)
  with idchar_bound[of ident k]
  have "IDTABLE ! unat (idchar ident k) = CHR ''/'' \<longleftrightarrow> unat (idchar ident k) = 30" by blast
  also have "unat (idchar ident k) = 30 \<longleftrightarrow> idchar ident k = 30"
    using word_unat_eq_iff[of "idchar ident k" 30] by simp
  finally show ?thesis .
qed

lemma idchar_or: "idchar (a OR b) k = idchar a k OR idchar b k"
  by (rule bit_eqI) (auto simp: idchar_def bit_word_simps)

lemma small5_bits: "unat (v :: u64) < 32 \<Longrightarrow> bit v n \<Longrightarrow> n < 5"
proof (rule ccontr)
  assume "unat v < 32" "bit v n" "\<not> n < 5"
  have "v = take_bit 5 v"
    using \<open>unat v < 32\<close>
    by (simp add: word_unat_eq_iff unsigned_take_bit_eq take_bit_eq_mod unat_mod)
  with \<open>bit v n\<close> \<open>\<not> n < 5\<close> show False by (metis bit_take_bit_iff)
qed

lemma idchar_push:
  assumes "j \<le> 10" "k \<le> 10" "unat (v :: u64) < 32"
  shows "idchar (push_bit (57 - 5 * k) v) j = (if j = k then v else 0)"
proof (rule bit_eqI)
  fix n
  show "bit (idchar (push_bit (57 - 5 * k) v) j) n = bit (if j = k then v else 0) n"
    using assms small5_bits[OF assms(3)]
    by (cases "j < k"; cases "j = k")
       (fastforce simp: bit_idchar bit_push_bit_iff dest: bit_imp_le_length)+
qed

lemma ascii_code_bound: "char_idx c < 128 \<Longrightarrow> unat (ascii_code c) < 32"
proof -
  have "\<forall>x \<in> set ASCIITABLE. unat x < 32" "length ASCIITABLE = 128"
    by (simp_all add: ASCIITABLE_def)
  then show "char_idx c < 128 \<Longrightarrow> unat (ascii_code c) < 32"
    by (auto simp: ascii_code_def)
qed

definition label_ok :: "string \<Rightarrow> bool" where
  "label_ok s \<longleftrightarrow> (\<forall>c \<in> set s. char_idx c < 128 \<and> c \<noteq> CHR 0x00)"

lemma label_ok_Cons [simp]: "label_ok (c # s) \<longleftrightarrow> char_idx c < 128 \<and> c \<noteq> CHR 0x00 \<and> label_ok s"
  and label_ok_Nil [simp]: "label_ok []"
  and label_ok_append [simp]: "label_ok (s @ t) \<longleftrightarrow> label_ok s \<and> label_ok t"
  by (auto simp: label_ok_def)

lemma makeid_loop_idchar:
  assumes "label_ok s" "k \<le> 11" "j \<le> 10"
  shows "idchar (makeid_loop s (57 - 5 * k) res) j =
         idchar res j OR (if k \<le> j \<and> j < k + length s then ascii_code (s ! (j - k)) else 0)"
  using assms
proof (induction s arbitrary: k res)
  case Nil
  then show ?case by auto
next
  case (Cons c s)
  show ?case
  proof (cases "k = 11")
    case True
    with Cons.prems show ?thesis by simp
  next
    case False
    then have k: "k \<le> 10" and g: "2 < 57 - 5 * k" using Cons.prems by simp_all
    have "idchar (makeid_loop (c # s) (57 - 5 * k) res) j =
          idchar (makeid_loop s (57 - 5 * Suc k) (res OR push_bit (57 - 5 * k) (ascii_code c))) j"
      using Cons.prems k g by (simp add: step_back)
    also have "\<dots> = (idchar res j OR (if j = k then ascii_code c else 0)) OR
        (if Suc k \<le> j \<and> j < Suc k + length s then ascii_code (s ! (j - Suc k)) else 0)"
      using Cons.prems k Cons.IH[of "Suc k"] ascii_code_bound[of c]
      by (simp add: idchar_or idchar_push)
    also have "\<dots> = idchar res j OR
        (if k \<le> j \<and> j < k + length (c # s) then ascii_code ((c # s) ! (j - k)) else 0)"
      by (cases "j < k"; cases "j = k") (auto simp: nth_Cons' Suc_diff_le)
    finally show ?thesis .
  qed
qed

lemma idchar_makeid:
  assumes "label_ok s" "j \<le> 10" "idchar tp j = 0"
  shows "idchar (makeid s tp) j = (if j < length s then ascii_code (s ! j) else 0)"
  using makeid_loop_idchar[of s 0 j tp] assms by (simp add: makeid_def)

lemma idchar_types [simp]:
  "j \<le> 10 \<Longrightarrow> idchar MTYPE_INT j = 0" "j \<le> 10 \<Longrightarrow> idchar MTYPE_FRAC j = 0"
  "j \<le> 10 \<Longrightarrow> idchar MTYPE_STR j = 0"
proof -
  have "\<forall>j < 11. idchar MTYPE_INT j = 0 \<and> idchar MTYPE_FRAC j = 0 \<and> idchar MTYPE_STR j = 0"
    by (simp add: All_less_Suc numeral_eq_Suc) (simp add: idchar_def mask_defs)
  then show "j \<le> 10 \<Longrightarrow> idchar MTYPE_INT j = 0" "j \<le> 10 \<Longrightarrow> idchar MTYPE_FRAC j = 0"
    "j \<le> 10 \<Longrightarrow> idchar MTYPE_STR j = 0"
    by auto
qed

text \<open>The bits outside the name are those of the type argument.\<close>

lemma makeid_loop_other_bits:
  assumes "label_ok s" "k \<le> 11" "n < 5 \<or> 62 \<le> n"
  shows "bit (makeid_loop s (57 - 5 * k) res) n = bit res n"
  using assms
proof (induction s arbitrary: k res)
  case (Cons c s)
  show ?case
  proof (cases "k = 11")
    case False
    then have k: "k \<le> 10" using Cons.prems by simp
    have "\<not> bit (push_bit (57 - 5 * k) (ascii_code c)) n"
      using Cons.prems k small5_bits[OF ascii_code_bound[of c]]
      by (fastforce simp: bit_push_bit_iff)
    then show ?thesis
      using Cons.prems k Cons.IH[of "Suc k"] by (simp add: step_back bit_or_iff)
  qed simp
qed simp

lemma makeid_type: "label_ok s \<Longrightarrow> makeid s tp AND MMASK_TYPE = tp AND MMASK_TYPE"
  using makeid_loop_other_bits[of s 0 _ tp]
  by (intro bit_eqI) (auto simp: makeid_def bit_and_iff bit_MMASK_TYPE)

lemma makeid_count: "label_ok s \<Longrightarrow> makeid s tp AND MMASK_COUNT = tp AND MMASK_COUNT"
  using makeid_loop_other_bits[of s 0 _ tp]
  by (intro bit_eqI) (auto simp: makeid_def bit_and_iff bit_MMASK_COUNT)

subsection \<open>id2str inverts makeid\<close>

fun emit :: "string \<Rightarrow> string \<Rightarrow> nat \<Rightarrow> string" where
  "emit [] out e = take (e + 1) out"
| "emit (t # ts) out e = emit ts (out @ [t]) (if t \<noteq> CHR '' '' then length out else e)"

lemma id2str_loop_emit:
  "k \<le> 11 \<Longrightarrow> id2str_loop ident (57 - 5 * k) out e =
     emit (map (\<lambda>k. IDTABLE ! unat (idchar ident k)) [k..<11]) out e"
proof (induction "11 - k" arbitrary: k out e)
  case 0
  then show ?case by (simp add: id2str_loop.simps)
next
  case (Suc n)
  then have k: "k \<le> 10" by simp
  then show ?case
    using Suc.hyps(1)[of "Suc k"] Suc.hyps(2)
    by (subst id2str_loop.simps)
       (simp add: Let_def step_back name_char upt_conv_Cons)
qed

lemma id2str_emit: "id2str ident = emit (idchars ident) [] 0"
  using id2str_loop_emit[of 0 ident] by (simp add: id2str_def idchars_def)

lemma emit_append: "emit (xs @ ys) out e =
  emit ys (out @ xs) (if \<exists>x \<in> set xs. x \<noteq> CHR '' ''
     then length out + length (rev (dropWhile (\<lambda>c. c = CHR '' '') (rev xs))) - 1 else e)"
proof (induction xs arbitrary: out e)
  case Nil
  then show ?case by simp
next
  case (Cons x xs)
  show ?case
  proof (cases "\<exists>y \<in> set xs. y \<noteq> CHR '' ''")
    case True
    then have "dropWhile (\<lambda>c. c = CHR '' '') (rev xs) \<noteq> []" by auto
    then show ?thesis using True Cons.IH
      by (auto simp: dropWhile_append)
  next
    case False
    then have "dropWhile (\<lambda>c. c = CHR '' '') (rev xs) = []" by auto
    then show ?thesis using False Cons.IH
      by (auto simp: dropWhile_append)
  qed
qed

lemma emit_blanks: "emit (replicate n (CHR '' '')) out e = take (e + 1) (out @ replicate n (CHR '' ''))"
proof (induction n arbitrary: out)
  case (Suc n)
  have "out @ CHR '' '' # replicate n (CHR '' '') = (out @ [CHR '' '']) @ replicate n (CHR '' '')" by simp
  then show ?case using Suc[of "out @ [CHR '' '']"] by simp
qed simp

lemma emit_padded:
  assumes "s \<noteq> []" "last s \<noteq> CHR '' ''"
  shows "emit (s @ replicate n (CHR '' '')) [] 0 = s"
proof -
  from assms obtain ys c where "s = ys @ [c]" "c \<noteq> CHR '' ''"
    by (cases s rule: rev_cases) auto
  then have "dropWhile (\<lambda>c. c = CHR '' '') (rev s) = rev s" by simp
  moreover have "\<exists>x \<in> set s. x \<noteq> CHR '' ''" using assms last_in_set by blast
  ultimately show ?thesis using assms(1) by (simp add: emit_append emit_blanks)
qed

lemma id_codes: "\<forall>c \<in> set IDTABLE. char_idx c < 128 \<and> c \<noteq> CHR 0x00 \<and> IDTABLE ! unat (ascii_code c) = c"
  by code_simp

definition id_label :: "string \<Rightarrow> bool" where
  "id_label s \<longleftrightarrow> s \<noteq> [] \<and> length s \<le> 11 \<and> set s \<subseteq> set IDTABLE \<and> last s \<noteq> CHR '' ''"

lemma id_label_ok: "id_label s \<Longrightarrow> label_ok s"
  using id_codes by (auto simp: id_label_def label_ok_def)

lemma idchars_makeid:
  assumes "set s \<subseteq> set IDTABLE" "length s \<le> 11" "\<forall>j \<le> 10. idchar tp j = 0"
  shows "idchars (makeid s tp) = s @ replicate (11 - length s) (CHR '' '')"
proof (rule nth_equalityI)
  fix j assume "j < length (idchars (makeid s tp))"
  then have j: "j \<le> 10" by (simp add: idchars_def)
  have ok: "label_ok s" using assms(1) id_codes by (auto simp: label_ok_def)
  have blank: "IDTABLE ! 0 = CHR '' ''" by (simp add: IDTABLE_def)
  have known: "j < length s \<Longrightarrow> IDTABLE ! unat (ascii_code (s ! j)) = s ! j"
    using assms(1) id_codes nth_mem[of j s] by blast
  show "idchars (makeid s tp) ! j = (s @ replicate (11 - length s) (CHR '' '')) ! j"
    using j assms ok blank known
    by (simp add: idchars_def idchar_makeid nth_append del: upt_Suc)
qed (use assms in \<open>simp add: idchars_def\<close>)

lemma id2str_makeid:
  assumes "id_label s" "\<forall>j \<le> 10. idchar tp j = 0"
  shows "id2str (makeid s tp) = s"
  using assms by (simp add: id2str_emit idchars_makeid id_label_def emit_padded)

lemma id2str_empty: "id2str (makeid '''' MTYPE_INT) = '' ''"
  by code_simp

subsection \<open>Prefixes\<close>

lemma idmask_loop_or: "idmask_loop n b m = m OR idmask_loop n b 0"
proof (induction n arbitrary: b m)
  case (Suc n)
  show ?case
    using Suc[of "b - 5" "m OR push_bit b 31"] Suc[of "b - 5" "push_bit b 31"] by (simp add: or.assoc)
qed simp

lemma idmask_loop_snoc:
  "idmask_loop (Suc n) b 0 = idmask_loop n b 0 OR push_bit (b - 5 * n) 31"
proof (induction n arbitrary: b)
  case (Suc n)
  have "idmask_loop (Suc (Suc n)) b 0 = push_bit b 31 OR idmask_loop (Suc n) (b - 5) 0"
    using idmask_loop_or[of "Suc n" "b - 5" "push_bit b 31"] by simp
  also have "\<dots> = push_bit b 31 OR (idmask_loop n (b - 5) 0 OR push_bit (b - 5 - 5 * n) 31)"
    by (simp only: Suc)
  also have "\<dots> = idmask_loop (Suc n) b 0 OR push_bit (b - 5 * Suc n) 31"
    using idmask_loop_or[of n "b - 5" "push_bit b 31"] by (simp add: or.assoc diff_diff_add)
  finally show ?case .
qed simp

lemma idmask_Suc: "idmask (Suc k) = idmask k OR push_bit (57 - 5 * k) 31"
  unfolding idmask_def by (rule idmask_loop_snoc)

lemma idmask_0: "idmask 0 = 0"
  by (simp add: idmask_def)

lemma bit_idmask: "k \<le> 11 \<Longrightarrow> bit (idmask k) n \<longleftrightarrow> 62 - 5 * k \<le> n \<and> n < 62"
proof (induction k)
  case (Suc k)
  then show ?case by (auto simp: idmask_Suc bit_or_iff bit_push_bit_iff)
qed (simp add: idmask_0)

lemma idhaspath_loop_step:
  "k \<le> 10 \<Longrightarrow> idhaspath_loop ident (57 - 5 * k) r =
     (if idchar ident k = 30 then idmask r else idhaspath_loop ident (57 - 5 * Suc k) (Suc r))"
  using step_guard[of k] by (subst idhaspath_loop.simps) (simp add: Let_def slash_iff step_back)

lemma idgetprefix_loop_step:
  "k \<le> 10 \<Longrightarrow> idgetprefix_loop ident (57 - 5 * k) r =
     (if idchar ident k = 30 then r
      else idgetprefix_loop ident (57 - 5 * Suc k) (r OR (ident AND push_bit (57 - 5 * k) 31)))"
  using step_guard[of k] masked_char[of k ident]
  by (subst idgetprefix_loop.simps) (simp add: Let_def slash_iff step_back)

lemma prefix_loops:
  "k \<le> 11 \<Longrightarrow> idgetprefix_loop ident (57 - 5 * k) (ident AND idmask k) =
     ident AND idhaspath_loop ident (57 - 5 * k) k"
proof (induction "11 - k" arbitrary: k)
  case 0
  then show ?case by (simp add: idgetprefix_loop.simps idhaspath_loop.simps)
next
  case (Suc n)
  then have k: "k \<le> 10" by simp
  have "(ident AND idmask k) OR (ident AND push_bit (57 - 5 * k) 31) = ident AND idmask (Suc k)"
    by (simp add: idmask_Suc bit.conj_disj_distrib)
  then show ?case
    using k Suc.hyps(1)[of "Suc k"] Suc.hyps(2)
    by (simp add: idgetprefix_loop_step idhaspath_loop_step)
qed

lemma no_name_no_chars: "ident AND MMASK_NAME = 0 \<Longrightarrow> k \<le> 10 \<Longrightarrow> idchar ident k = 0"
  using name_char[of k ident] by simp

lemma idhaspath_none: "(\<forall>k \<le> 10. idchar ident k \<noteq> 30) \<Longrightarrow> k \<le> 11 \<Longrightarrow> idhaspath_loop ident (57 - 5 * k) r = 0"
proof (induction "11 - k" arbitrary: k r)
  case 0
  then show ?case by (simp add: idhaspath_loop.simps)
next
  case (Suc n)
  then have "k \<le> 10" by simp
  then show ?case using Suc.hyps(1)[of "Suc k"] Suc.hyps(2) Suc.prems
    by (simp add: idhaspath_loop_step)
qed

text \<open>The prefix of an id is the id under the mask that \<open>idhaspath\<close> computes.\<close>

lemma idgetprefix_idhaspath: "idgetprefix ident = ident AND idhaspath ident"
proof (cases "ident AND MMASK_NAME = 0")
  case True
  then show ?thesis using idhaspath_none[of ident 0 0] no_name_no_chars[OF True]
    by (simp add: idgetprefix_def idhaspath_def)
next
  case False
  then show ?thesis using prefix_loops[of 0 ident]
    by (simp add: idgetprefix_def idhaspath_def idmask_0)
qed

lemma idhaspath_first:
  assumes "p \<le> 10" "idchar ident p = 30" "\<forall>k < p. idchar ident k \<noteq> 30"
  shows "idhaspath ident = idmask p"
proof -
  have "k \<le> p \<Longrightarrow> idhaspath_loop ident (57 - 5 * k) k = idmask p" for k
  proof (induction "p - k" arbitrary: k)
    case 0
    then show ?case using assms by (simp add: idhaspath_loop_step)
  next
    case (Suc n)
    then show ?case using assms Suc.hyps(1)[of "Suc k"] by (simp add: idhaspath_loop_step)
  qed
  from this[of 0] show ?thesis by (simp add: idhaspath_def)
qed

subsection \<open>Properties\<close>

lemma idchar_prefix: "m \<le> 11 \<Longrightarrow> k \<le> 10 \<Longrightarrow> idchar (ident AND idmask m) k = (if k < m then idchar ident k else 0)"
  by (rule bit_word_eqI) (auto simp: bit_idchar bit_and_iff bit_idmask)

lemma idchars_prefix:
  assumes "set s \<subseteq> set IDTABLE" "length s \<le> 11" "\<forall>j \<le> 10. idchar tp j = 0" "s = p @ q"
  shows "idchars (makeid s tp AND idmask (length p)) = p @ replicate (11 - length p) (CHR '' '')"
proof (rule nth_equalityI)
  fix j assume "j < length (idchars (makeid s tp AND idmask (length p)))"
  then have j: "j \<le> 10" by (simp add: idchars_def)
  have lp: "length p \<le> 11" using assms(2,4) by simp
  have "idchars (makeid s tp AND idmask (length p)) ! j =
      (if j < length p then idchars (makeid s tp) ! j else CHR '' '')"
    using j lp by (simp add: idchars_def idchar_prefix IDTABLE_def del: upt_Suc)
  then show "idchars (makeid s tp AND idmask (length p)) ! j = (p @ replicate (11 - length p) (CHR '' '')) ! j"
    using j assms by (simp add: idchars_makeid nth_append)
qed (use assms in \<open>simp add: idchars_def\<close>)

lemma slash_code: "set s \<subseteq> set IDTABLE \<Longrightarrow> j < length s \<Longrightarrow> length s \<le> 11 \<Longrightarrow> \<forall>j \<le> 10. idchar tp j = 0 \<Longrightarrow>
  idchar (makeid s tp) j = 30 \<longleftrightarrow> s ! j = CHR ''/''"
proof -
  assume a: "set s \<subseteq> set IDTABLE" "j < length s" "length s \<le> 11" "\<forall>j \<le> 10. idchar tp j = 0"
  have "idchars (makeid s tp) ! j = s ! j" using a by (simp add: idchars_makeid nth_append)
  then have "IDTABLE ! unat (idchar (makeid s tp) j) = s ! j" using a by (simp add: idchars_def del: upt_Suc)
  then show ?thesis using slash_iff[of "makeid s tp" j] by metis
qed

text \<open>
  C5: A meter label over the 31 characters of the id alphabet, of 1 to 11 characters and not
  ending in a blank, packed into a meter id with any of the three value types, unpacks to
  the same label; the type is kept in the top two bits and the array size is 0.
\<close>

theorem makeid_roundtrip:
  assumes "id_label s" "tp \<in> {MTYPE_INT, MTYPE_FRAC, MTYPE_STR}"
  shows "id2str (makeid s tp) = s \<and> makeid s tp AND MMASK_TYPE = tp \<and> makeid s tp AND MMASK_COUNT = 0"
proof -
  have tp: "\<forall>j \<le> 10. idchar tp j = 0" using assms(2) by auto
  have "tp AND MMASK_TYPE = tp" "tp AND MMASK_COUNT = 0" using assms(2) by (auto simp: mask_defs)
  then show ?thesis
    using id2str_makeid[OF assms(1) tp] makeid_type[OF id_label_ok[OF assms(1)]]
      makeid_count[OF id_label_ok[OF assms(1)]] by simp
qed

theorem makeid_roundtrip_witness:
  "id2str (makeid ''net/in_kbs'' MTYPE_FRAC) = ''net/in_kbs''"
  using makeid_roundtrip[of "''net/in_kbs''" MTYPE_FRAC] by (simp add: id_label_def IDTABLE_def)

text \<open>
  The prefix \<^verbatim>\<open>idgetprefix\<close> computes from the packed id of a label with a slash is the
  packed form of what stands before the first slash.
\<close>

theorem idgetprefix_path:
  assumes "id_label (p @ ''/'' @ q)" "CHR ''/'' \<notin> set p" "p \<noteq> []" "last p \<noteq> CHR '' ''"
    "tp \<in> {MTYPE_INT, MTYPE_FRAC, MTYPE_STR}"
  shows "id2str (idgetprefix (makeid (p @ ''/'' @ q) tp)) = p"
proof -
  let ?s = "p @ ''/'' @ q"
  have tp: "\<forall>j \<le> 10. idchar tp j = 0" using assms(5) by auto
  have s: "set ?s \<subseteq> set IDTABLE" "length ?s \<le> 11" using assms(1) by (auto simp: id_label_def)
  note sl = slash_code[OF s(1) _ s(2) tp]
  have "idchar (makeid ?s tp) (length p) = 30" using sl[of "length p"] by simp
  moreover have "\<forall>k < length p. idchar (makeid ?s tp) k \<noteq> 30"
    using sl assms(2) by (auto simp: nth_append dest: nth_mem)
  ultimately have "idhaspath (makeid ?s tp) = idmask (length p)"
    using s(2) by (intro idhaspath_first) auto
  then have "idchars (idgetprefix (makeid ?s tp)) = p @ replicate (11 - length p) (CHR '' '')"
    using idchars_prefix[OF s tp refl] by (simp add: idgetprefix_idhaspath)
  then show ?thesis using assms(3,4) s(2) by (simp add: id2str_emit emit_padded)
qed

theorem idgetprefix_path_witness:
  "id2str (idgetprefix (makeid (''net'' @ ''/'' @ ''in_kbs'') MTYPE_FRAC)) = ''net''"
  using idgetprefix_path[of "''net''" "''in_kbs''" MTYPE_FRAC] by (simp add: id_label_def IDTABLE_def)

end
