(* ===== verification/Aes.thy ===== *)
theory Aes
  imports Prelude
begin

text \<open>
  The block cipher of \<^verbatim>\<open>libopticon/aes.c\<close>: AES-256, byte oriented. A block is a list of 16
  bytes, a key of 32; the functions that work in place return the new contents. The main
  result is that decryption inverts encryption for every key and block.
\<close>

type_synonym block = bytes

definition F_rcon :: "u8 \<Rightarrow> u8" where
  "F_rcon x = push_bit 1 x XOR (if bit x 7 then 0x1b else 0)"

definition FD_rcon :: "u8 \<Rightarrow> u8" where
  "FD_rcon x = drop_bit 1 x XOR (if bit x 0 then 0x8d else 0)"

definition sbox :: bytes where
  "sbox = [
    0x63, 0x7c, 0x77, 0x7b, 0xf2, 0x6b, 0x6f, 0xc5,
    0x30, 0x01, 0x67, 0x2b, 0xfe, 0xd7, 0xab, 0x76,
    0xca, 0x82, 0xc9, 0x7d, 0xfa, 0x59, 0x47, 0xf0,
    0xad, 0xd4, 0xa2, 0xaf, 0x9c, 0xa4, 0x72, 0xc0,
    0xb7, 0xfd, 0x93, 0x26, 0x36, 0x3f, 0xf7, 0xcc,
    0x34, 0xa5, 0xe5, 0xf1, 0x71, 0xd8, 0x31, 0x15,
    0x04, 0xc7, 0x23, 0xc3, 0x18, 0x96, 0x05, 0x9a,
    0x07, 0x12, 0x80, 0xe2, 0xeb, 0x27, 0xb2, 0x75,
    0x09, 0x83, 0x2c, 0x1a, 0x1b, 0x6e, 0x5a, 0xa0,
    0x52, 0x3b, 0xd6, 0xb3, 0x29, 0xe3, 0x2f, 0x84,
    0x53, 0xd1, 0x00, 0xed, 0x20, 0xfc, 0xb1, 0x5b,
    0x6a, 0xcb, 0xbe, 0x39, 0x4a, 0x4c, 0x58, 0xcf,
    0xd0, 0xef, 0xaa, 0xfb, 0x43, 0x4d, 0x33, 0x85,
    0x45, 0xf9, 0x02, 0x7f, 0x50, 0x3c, 0x9f, 0xa8,
    0x51, 0xa3, 0x40, 0x8f, 0x92, 0x9d, 0x38, 0xf5,
    0xbc, 0xb6, 0xda, 0x21, 0x10, 0xff, 0xf3, 0xd2,
    0xcd, 0x0c, 0x13, 0xec, 0x5f, 0x97, 0x44, 0x17,
    0xc4, 0xa7, 0x7e, 0x3d, 0x64, 0x5d, 0x19, 0x73,
    0x60, 0x81, 0x4f, 0xdc, 0x22, 0x2a, 0x90, 0x88,
    0x46, 0xee, 0xb8, 0x14, 0xde, 0x5e, 0x0b, 0xdb,
    0xe0, 0x32, 0x3a, 0x0a, 0x49, 0x06, 0x24, 0x5c,
    0xc2, 0xd3, 0xac, 0x62, 0x91, 0x95, 0xe4, 0x79,
    0xe7, 0xc8, 0x37, 0x6d, 0x8d, 0xd5, 0x4e, 0xa9,
    0x6c, 0x56, 0xf4, 0xea, 0x65, 0x7a, 0xae, 0x08,
    0xba, 0x78, 0x25, 0x2e, 0x1c, 0xa6, 0xb4, 0xc6,
    0xe8, 0xdd, 0x74, 0x1f, 0x4b, 0xbd, 0x8b, 0x8a,
    0x70, 0x3e, 0xb5, 0x66, 0x48, 0x03, 0xf6, 0x0e,
    0x61, 0x35, 0x57, 0xb9, 0x86, 0xc1, 0x1d, 0x9e,
    0xe1, 0xf8, 0x98, 0x11, 0x69, 0xd9, 0x8e, 0x94,
    0x9b, 0x1e, 0x87, 0xe9, 0xce, 0x55, 0x28, 0xdf,
    0x8c, 0xa1, 0x89, 0x0d, 0xbf, 0xe6, 0x42, 0x68,
    0x41, 0x99, 0x2d, 0x0f, 0xb0, 0x54, 0xbb, 0x16]"

definition sboxinv :: bytes where
  "sboxinv = [
    0x52, 0x09, 0x6a, 0xd5, 0x30, 0x36, 0xa5, 0x38,
    0xbf, 0x40, 0xa3, 0x9e, 0x81, 0xf3, 0xd7, 0xfb,
    0x7c, 0xe3, 0x39, 0x82, 0x9b, 0x2f, 0xff, 0x87,
    0x34, 0x8e, 0x43, 0x44, 0xc4, 0xde, 0xe9, 0xcb,
    0x54, 0x7b, 0x94, 0x32, 0xa6, 0xc2, 0x23, 0x3d,
    0xee, 0x4c, 0x95, 0x0b, 0x42, 0xfa, 0xc3, 0x4e,
    0x08, 0x2e, 0xa1, 0x66, 0x28, 0xd9, 0x24, 0xb2,
    0x76, 0x5b, 0xa2, 0x49, 0x6d, 0x8b, 0xd1, 0x25,
    0x72, 0xf8, 0xf6, 0x64, 0x86, 0x68, 0x98, 0x16,
    0xd4, 0xa4, 0x5c, 0xcc, 0x5d, 0x65, 0xb6, 0x92,
    0x6c, 0x70, 0x48, 0x50, 0xfd, 0xed, 0xb9, 0xda,
    0x5e, 0x15, 0x46, 0x57, 0xa7, 0x8d, 0x9d, 0x84,
    0x90, 0xd8, 0xab, 0x00, 0x8c, 0xbc, 0xd3, 0x0a,
    0xf7, 0xe4, 0x58, 0x05, 0xb8, 0xb3, 0x45, 0x06,
    0xd0, 0x2c, 0x1e, 0x8f, 0xca, 0x3f, 0x0f, 0x02,
    0xc1, 0xaf, 0xbd, 0x03, 0x01, 0x13, 0x8a, 0x6b,
    0x3a, 0x91, 0x11, 0x41, 0x4f, 0x67, 0xdc, 0xea,
    0x97, 0xf2, 0xcf, 0xce, 0xf0, 0xb4, 0xe6, 0x73,
    0x96, 0xac, 0x74, 0x22, 0xe7, 0xad, 0x35, 0x85,
    0xe2, 0xf9, 0x37, 0xe8, 0x1c, 0x75, 0xdf, 0x6e,
    0x47, 0xf1, 0x1a, 0x71, 0x1d, 0x29, 0xc5, 0x89,
    0x6f, 0xb7, 0x62, 0x0e, 0xaa, 0x18, 0xbe, 0x1b,
    0xfc, 0x56, 0x3e, 0x4b, 0xc6, 0xd2, 0x79, 0x20,
    0x9a, 0xdb, 0xc0, 0xfe, 0x78, 0xcd, 0x5a, 0xf4,
    0x1f, 0xdd, 0xa8, 0x33, 0x88, 0x07, 0xc7, 0x31,
    0xb1, 0x12, 0x10, 0x59, 0x27, 0x80, 0xec, 0x5f,
    0x60, 0x51, 0x7f, 0xa9, 0x19, 0xb5, 0x4a, 0x0d,
    0x2d, 0xe5, 0x7a, 0x9f, 0x93, 0xc9, 0x9c, 0xef,
    0xa0, 0xe0, 0x3b, 0x4d, 0xae, 0x2a, 0xf5, 0xb0,
    0xc8, 0xeb, 0xbb, 0x3c, 0x83, 0x53, 0x99, 0x61,
    0x17, 0x2b, 0x04, 0x7e, 0xba, 0x77, 0xd6, 0x26,
    0xe1, 0x69, 0x14, 0x63, 0x55, 0x21, 0x0c, 0x7d]"

definition rj_sbox :: "u8 \<Rightarrow> u8" where
  "rj_sbox x = sbox ! unat x"

definition rj_sbox_inv :: "u8 \<Rightarrow> u8" where
  "rj_sbox_inv x = sboxinv ! unat x"

definition rj_xtime :: "u8 \<Rightarrow> u8" where
  "rj_xtime x = (if x AND 0x80 \<noteq> 0 then push_bit 1 x XOR 0x1b else push_bit 1 x)"

definition aes_subBytes :: "block \<Rightarrow> block" where
  "aes_subBytes buf = map rj_sbox buf"

definition aes_subBytes_inv :: "block \<Rightarrow> block" where
  "aes_subBytes_inv buf = map rj_sbox_inv buf"

text \<open>\<open>key\<close> may point into a longer array: the first 16 bytes are used.\<close>

definition aes_addRoundKey :: "block \<Rightarrow> bytes \<Rightarrow> block" where
  "aes_addRoundKey buf key = map2 (XOR) buf (take 16 key)"

text \<open>Copies all 32 bytes of the key to \<open>cpk\<close> on the way.\<close>

definition aes_addRoundKey_cpy :: "block \<Rightarrow> bytes \<Rightarrow> block \<times> bytes" where
  "aes_addRoundKey_cpy buf key = (map2 (XOR) buf (take 16 key), take 32 key)"

definition aes_shiftRows :: "block \<Rightarrow> block" where
  "aes_shiftRows buf =
     (let i = buf ! 1; buf = buf[1 := buf ! 5]; buf = buf[5 := buf ! 9]; buf = buf[9 := buf ! 13];
          buf = buf[13 := i];
          i = buf ! 10; buf = buf[10 := buf ! 2]; buf = buf[2 := i];
          j = buf ! 3; buf = buf[3 := buf ! 15]; buf = buf[15 := buf ! 11]; buf = buf[11 := buf ! 7];
          buf = buf[7 := j];
          j = buf ! 14; buf = buf[14 := buf ! 6]; buf = buf[6 := j]
      in buf)"

definition aes_shiftRows_inv :: "block \<Rightarrow> block" where
  "aes_shiftRows_inv buf =
     (let i = buf ! 1; buf = buf[1 := buf ! 13]; buf = buf[13 := buf ! 9]; buf = buf[9 := buf ! 5];
          buf = buf[5 := i];
          i = buf ! 2; buf = buf[2 := buf ! 10]; buf = buf[10 := i];
          j = buf ! 3; buf = buf[3 := buf ! 7]; buf = buf[7 := buf ! 11]; buf = buf[11 := buf ! 15];
          buf = buf[15 := j];
          j = buf ! 6; buf = buf[6 := buf ! 14]; buf = buf[14 := j]
      in buf)"

fun aes_mixColumns :: "block \<Rightarrow> block" where
  "aes_mixColumns (a # b # c # d # buf) =
     (let e = a XOR b XOR c XOR d
      in (a XOR (e XOR rj_xtime (a XOR b))) # (b XOR (e XOR rj_xtime (b XOR c))) #
         (c XOR (e XOR rj_xtime (c XOR d))) # (d XOR (e XOR rj_xtime (d XOR a))) #
         aes_mixColumns buf)"
| "aes_mixColumns buf = buf"

fun aes_mixColumns_inv :: "block \<Rightarrow> block" where
  "aes_mixColumns_inv (a # b # c # d # buf) =
     (let e = a XOR b XOR c XOR d;
          z = rj_xtime e;
          x = e XOR rj_xtime (rj_xtime (z XOR a XOR c));
          y = e XOR rj_xtime (rj_xtime (z XOR b XOR d))
      in (a XOR (x XOR rj_xtime (a XOR b))) # (b XOR (y XOR rj_xtime (b XOR c))) #
         (c XOR (x XOR rj_xtime (c XOR d))) # (d XOR (y XOR rj_xtime (d XOR a))) #
         aes_mixColumns_inv buf)"
| "aes_mixColumns_inv buf = buf"

text \<open>One \<open>k[i] ^= v\<close> of the key schedule, and the comma sequence that adds a word to the next.\<close>

definition xor_at :: "nat \<Rightarrow> u8 \<Rightarrow> bytes \<Rightarrow> bytes" where
  "xor_at i v k = k[i := k ! i XOR v]"

definition add_word :: "nat \<Rightarrow> bytes \<Rightarrow> bytes" where
  "add_word i k =
     (let k = xor_at i (k ! (i - 4)) k; k = xor_at (i + 1) (k ! (i - 3)) k;
          k = xor_at (i + 2) (k ! (i - 2)) k; k = xor_at (i + 3) (k ! (i - 1)) k
      in k)"

text \<open>The two groups of four statements that go through the S-box, the same in both schedules.\<close>

definition add_first :: "u8 \<Rightarrow> bytes \<Rightarrow> bytes" where
  "add_first rc k =
     (let k = xor_at 0 (rj_sbox (k ! 29) XOR rc) k; k = xor_at 1 (rj_sbox (k ! 30)) k;
          k = xor_at 2 (rj_sbox (k ! 31)) k; k = xor_at 3 (rj_sbox (k ! 28)) k
      in k)"

definition add_middle :: "bytes \<Rightarrow> bytes" where
  "add_middle k =
     (let k = xor_at 16 (rj_sbox (k ! 12)) k; k = xor_at 17 (rj_sbox (k ! 13)) k;
          k = xor_at 18 (rj_sbox (k ! 14)) k; k = xor_at 19 (rj_sbox (k ! 15)) k
      in k)"

definition aes_expandEncKey :: "bytes \<times> u8 \<Rightarrow> bytes \<times> u8" where
  "aes_expandEncKey = (\<lambda>(k, rc).
     let k = add_first rc k; rc = F_rcon rc;
         k = fold add_word [4, 8, 12] k;
         k = add_middle k;
         k = fold add_word [20, 24, 28] k
     in (k, rc))"

definition aes_expandDecKey :: "bytes \<times> u8 \<Rightarrow> bytes \<times> u8" where
  "aes_expandDecKey = (\<lambda>(k, rc).
     let k = fold add_word [28, 24, 20] k;
         k = add_middle k;
         k = fold add_word [12, 8, 4] k;
         rc = FD_rcon rc;
         k = add_first rc k
     in (k, rc))"

record aes256_context =
  ctx_key :: bytes
  ctx_enckey :: bytes
  ctx_deckey :: bytes

text \<open>\<open>for (i = 8;--i;)\<close> runs seven times.\<close>

definition aes256_init :: "bytes \<Rightarrow> aes256_context \<Rightarrow> aes256_context" where
  "aes256_init k ctx =
     ctx\<lparr>ctx_enckey := take 32 k,
         ctx_deckey := fst ((aes_expandEncKey ^^ 7) (take 32 k, 1))\<rparr>"

definition aes256_done :: "aes256_context \<Rightarrow> aes256_context" where
  "aes256_done ctx = \<lparr>ctx_key = replicate 32 0, ctx_enckey = replicate 32 0, ctx_deckey = replicate 32 0\<rparr>"

text \<open>One round of the encryption loop over key, round constant and block.\<close>

definition enc_round :: "nat \<Rightarrow> (bytes \<times> u8) \<times> block \<Rightarrow> (bytes \<times> u8) \<times> block" where
  "enc_round i = (\<lambda>(krc, buf).
     let buf = aes_mixColumns (aes_shiftRows (aes_subBytes buf))
     in if odd i then (krc, aes_addRoundKey buf (drop 16 (fst krc)))
        else let krc = aes_expandEncKey krc in (krc, aes_addRoundKey buf (fst krc)))"

definition aes256_encrypt_ecb :: "aes256_context \<Rightarrow> block \<Rightarrow> aes256_context \<times> block" where
  "aes256_encrypt_ecb ctx buf =
     (case aes_addRoundKey_cpy buf (ctx_enckey ctx) of (buf, key) \<Rightarrow>
      case fold enc_round [1 ..< 14] ((key, 1), buf) of (krc, buf) \<Rightarrow>
      let buf = aes_shiftRows (aes_subBytes buf); krc = aes_expandEncKey krc
      in (ctx\<lparr>ctx_key := fst krc\<rparr>, aes_addRoundKey buf (fst krc)))"

definition dec_round :: "nat \<Rightarrow> (bytes \<times> u8) \<times> block \<Rightarrow> (bytes \<times> u8) \<times> block" where
  "dec_round i = (\<lambda>(krc, buf).
     let (krc, buf) =
       (if odd i then let krc = aes_expandDecKey krc in (krc, aes_addRoundKey buf (drop 16 (fst krc)))
        else (krc, aes_addRoundKey buf (fst krc)))
     in (krc, aes_subBytes_inv (aes_shiftRows_inv (aes_mixColumns_inv buf))))"

definition aes256_decrypt_ecb :: "aes256_context \<Rightarrow> block \<Rightarrow> aes256_context \<times> block" where
  "aes256_decrypt_ecb ctx buf =
     (case aes_addRoundKey_cpy buf (ctx_deckey ctx) of (buf, key) \<Rightarrow>
      let buf = aes_subBytes_inv (aes_shiftRows_inv buf) in
      case fold dec_round (rev [1 ..< 14]) ((key, 0x80), buf) of (krc, buf) \<Rightarrow>
      (ctx\<lparr>ctx_key := fst krc\<rparr>, aes_addRoundKey buf (fst krc)))"

subsection \<open>Each step has its inverse\<close>

lemma sbox_table: "map (\<lambda>y. sboxinv ! unat y) sbox = map of_nat [0 ..< 256]"
  by code_simp

lemma sbox_inverse: "rj_sbox_inv (rj_sbox x) = x"
proof -
  have l: "length sbox = 256" by (simp add: sbox_def)
  have x: "unat x < 256" using unsigned_less[of x] by simp
  have "map (\<lambda>y. sboxinv ! unat y) sbox ! unat x = map of_nat [0 ..< 256] ! unat x"
    unfolding sbox_table ..
  then show ?thesis using x l by (simp add: rj_sbox_def rj_sbox_inv_def)
qed

lemma xtime_xor: "rj_xtime (x XOR y) = rj_xtime x XOR rj_xtime y"
proof -
  have b: "v AND 0x80 \<noteq> 0 \<longleftrightarrow> bit v 7" for v :: u8
  proof
    assume "bit v 7"
    then have "bit (v AND 0x80) 7" by (simp add: bit_and_iff)
    then show "v AND 0x80 \<noteq> 0" by (metis bit_0_eq bot_apply bot_bool_def)
  next
    assume ne: "v AND 0x80 \<noteq> 0"
    show "bit v 7"
    proof (rule ccontr)
      assume n: "\<not> bit v 7"
      have "v AND 0x80 = 0" by (rule word8_eqI) (simp_all add: bit_word_simps n)
      then show False using ne by simp
    qed
  qed
  show ?thesis unfolding rj_xtime_def b by (rule word8_eqI) (auto simp: bit_word_simps)
qed

lemma xor_cancel: "x XOR (x XOR y) = (y :: u8)"
  by (simp flip: xor.assoc)

lemma mixColumns_inverse: "aes_mixColumns_inv (aes_mixColumns buf) = buf"
  by (induction buf rule: aes_mixColumns.induct)
     (simp_all add: Let_def xtime_xor xor.assoc xor.commute xor.left_commute xor_cancel)

lemma length_mixColumns [simp]: "length (aes_mixColumns buf) = length buf"
  by (induction buf rule: aes_mixColumns.induct) (simp_all add: Let_def)

lemma sixteen:
  assumes "length (buf :: u8 list) = 16"
  obtains a b c d e f g h i j k l m n p q where "buf = [a, b, c, d, e, f, g, h, i, j, k, l, m, n, p, q]"
  using assms by (auto simp: numeral_eq_Suc length_Suc_conv)

lemma shiftRows_inverse: "length buf = 16 \<Longrightarrow> aes_shiftRows_inv (aes_shiftRows buf) = buf"
  by (erule sixteen) (simp add: aes_shiftRows_def aes_shiftRows_inv_def)

lemma length_shiftRows [simp]: "length (aes_shiftRows buf) = length buf"
  by (simp add: aes_shiftRows_def Let_def)

lemma subBytes_inverse: "aes_subBytes_inv (aes_subBytes buf) = buf"
  by (simp add: aes_subBytes_def aes_subBytes_inv_def sbox_inverse map_idI)

lemma length_subBytes [simp]: "length (aes_subBytes buf) = length buf"
  by (simp add: aes_subBytes_def)

lemma length_addRoundKey [simp]: "length (aes_addRoundKey buf key) = min (length buf) (min 16 (length key))"
  by (simp add: aes_addRoundKey_def)

lemma addRoundKey_twice:
  assumes "length buf = 16" "16 \<le> length key"
  shows "aes_addRoundKey (aes_addRoundKey buf key) key = buf"
  by (rule nth_equalityI) (use assms in \<open>auto simp: aes_addRoundKey_def xor.assoc\<close>)

lemma rcon_inverse: "FD_rcon (F_rcon x) = x"
proof -
  have F: "bit (F_rcon x) n \<longleftrightarrow> (0 < n \<and> n < 8 \<and> bit x (n - 1)) \<noteq> (bit x 7 \<and> bit (0x1b :: u8) n)" for n
    unfolding F_rcon_def bit_xor_iff bit_push_bit_iff
    using bit_imp_le_length[of "0x1b :: u8" n] by (cases "bit x 7") (auto simp: Suc_le_eq)
  show ?thesis unfolding FD_rcon_def
    by (intro word8_eqI) (auto simp: F bit_word_simps simp flip: numeral_2_eq_2)
qed

lemma length_xor_at [simp]: "length (xor_at i v k) = length k"
  by (simp add: xor_at_def)

lemma nth_xor_at: "j < length k \<Longrightarrow> xor_at i v k ! j = (if j = i then k ! j XOR v else k ! j)"
  by (simp add: xor_at_def)

lemma length_add [simp]: "length (add_word i k) = length k" "length (add_first rc k) = length k"
  "length (add_middle k) = length k"
  by (simp_all add: add_word_def add_first_def add_middle_def Let_def)

lemma length_expandEncKey [simp]: "length (fst (aes_expandEncKey krc)) = length (fst krc)"
  by (simp add: aes_expandEncKey_def Let_def split: prod.splits)

text \<open>
  Each group changes one word by values that do not depend on it, so it undoes itself.
\<close>

lemma nth_add_word:
  "4 \<le> i \<Longrightarrow> i + 3 < length k \<Longrightarrow> j < length k \<Longrightarrow>
   add_word i k ! j = (if i \<le> j \<and> j < i + 4 then k ! j XOR k ! (j - 4) else k ! j)"
proof -
  assume a: "4 \<le> i" "i + 3 < length k" "j < length k"
  have "i \<le> j \<and> j < i + 4 \<longleftrightarrow> j = i \<or> j = i + 1 \<or> j = i + 2 \<or> j = i + 3" by arith
  then show ?thesis using a by (auto simp: add_word_def Let_def nth_xor_at)
qed

lemma add_word_twice: "4 \<le> i \<Longrightarrow> i + 3 < length k \<Longrightarrow> add_word i (add_word i k) = k"
  by (rule nth_equalityI) (auto simp: nth_add_word xor.assoc)

lemma nth_add_middle:
  "19 < length k \<Longrightarrow> j < length k \<Longrightarrow>
   add_middle k ! j = (if 16 \<le> j \<and> j < 20 then k ! j XOR rj_sbox (k ! (j - 4)) else k ! j)"
proof -
  assume a: "19 < length k" "j < length k"
  have "16 \<le> j \<and> j < 20 \<longleftrightarrow> j = 16 \<or> j = 17 \<or> j = 18 \<or> j = 19" by arith
  then show ?thesis using a by (auto simp: add_middle_def Let_def nth_xor_at)
qed

lemma add_middle_twice: "19 < length k \<Longrightarrow> add_middle (add_middle k) = k"
  by (rule nth_equalityI) (auto simp: nth_add_middle xor.assoc)

lemma nth_add_first:
  "length k = 32 \<Longrightarrow> j < 32 \<Longrightarrow>
   add_first rc k ! j = (if j = 0 then k ! 0 XOR (rj_sbox (k ! 29) XOR rc) else if j = 1 then k ! 1 XOR rj_sbox (k ! 30)
     else if j = 2 then k ! 2 XOR rj_sbox (k ! 31) else if j = 3 then k ! 3 XOR rj_sbox (k ! 28) else k ! j)"
  by (auto simp: add_first_def Let_def nth_xor_at)

lemma add_first_twice: "length k = 32 \<Longrightarrow> add_first rc (add_first rc k) = k"
  by (rule nth_equalityI) (auto simp: nth_add_first xor.assoc)

lemma key_schedule_inverse:
  assumes "length k = 32"
  shows "aes_expandDecKey (aes_expandEncKey (k, rc)) = (k, rc)"
  using assms by (simp add: aes_expandEncKey_def aes_expandDecKey_def Let_def rcon_inverse
      add_word_twice add_middle_twice add_first_twice)

definition round_key :: "bytes \<Rightarrow> nat \<Rightarrow> bytes \<times> u8" where
  "round_key k j = (aes_expandEncKey ^^ j) (k, 1)"

lemma round_key_Suc: "round_key k (Suc j) = aes_expandEncKey (round_key k j)"
  by (simp add: round_key_def)

lemma round_key_0: "round_key k 0 = (k, 1)"
  by (simp add: round_key_def)

lemma length_round_key [simp]: "length (fst (round_key k j)) = length k"
  by (induction j) (simp_all add: round_key_Suc round_key_0)

lemma round_key_back: "length k = 32 \<Longrightarrow> aes_expandDecKey (round_key k (Suc j)) = round_key k j"
  using key_schedule_inverse[of "fst (round_key k j)" "snd (round_key k j)"] by (simp add: round_key_Suc)

lemma last_rcon: "snd (round_key k 7) = 0x80"
proof -
  have s: "snd (round_key k (Suc j)) = F_rcon (snd (round_key k j))" for j
    by (simp add: round_key_Suc aes_expandEncKey_def Let_def split: prod.splits)
  then have "snd (round_key k 7) = (F_rcon ^^ 7) 1"
    by (simp add: eval_nat_numeral round_key_0)
  also have "\<dots> = 0x80" by code_simp
  finally show ?thesis .
qed

subsection \<open>The rounds\<close>

text \<open>The block after the first \<open>n\<close> encryption rounds.\<close>

fun enc_state :: "bytes \<Rightarrow> block \<Rightarrow> nat \<Rightarrow> block" where
  "enc_state k buf 0 = buf"
| "enc_state k buf (Suc n) = aes_addRoundKey (aes_mixColumns (aes_shiftRows (aes_subBytes (enc_state k buf n))))
     (if even n then drop 16 (fst (round_key k (Suc n div 2))) else fst (round_key k (Suc n div 2)))"

lemma length_enc_state: "length k = 32 \<Longrightarrow> length buf = 16 \<Longrightarrow> length (enc_state k buf n) = 16"
  by (induction n) simp_all

lemma enc_rounds:
  "fold enc_round [1 ..< Suc n] (round_key k 0, buf) = (round_key k (n div 2), enc_state k buf n)"
proof (induction n)
  case (Suc n)
  have d: "even n \<Longrightarrow> Suc n div 2 = n div 2" "odd n \<Longrightarrow> Suc n div 2 = Suc (n div 2)" by presburger+
  have r: "fold enc_round [1 ..< Suc (Suc n)] (round_key k 0, buf) =
      enc_round (Suc n) (round_key k (n div 2), enc_state k buf n)"
  proof -
    have "[1 ..< Suc (Suc n)] = [1 ..< Suc n] @ [Suc n]" by simp
    then show ?thesis using Suc by (simp only: fold_append o_apply fold.simps id_apply)
  qed
  show ?case unfolding r using d by (cases "even n") (simp_all add: enc_round_def round_key_Suc Let_def)
qed simp

lemma dec_rounds:
  assumes "length k = 32" "length buf = 16"
  shows "fold dec_round (rev [1 ..< Suc n]) (round_key k (Suc n div 2), enc_state k buf n) = (round_key k 0, buf)"
proof (induction n)
  case (Suc n)
  let ?x = "enc_state k buf n"
  let ?y = "aes_mixColumns (aes_shiftRows (aes_subBytes ?x))"
  have l: "length ?x = 16" "length ?y = 16" using length_enc_state[OF assms] by simp_all
  have inv: "aes_subBytes_inv (aes_shiftRows_inv (aes_mixColumns_inv ?y)) = ?x"
    using l by (simp add: mixColumns_inverse shiftRows_inverse subBytes_inverse)
  have step: "dec_round (Suc n) (round_key k (Suc (Suc n) div 2), enc_state k buf (Suc n)) = (round_key k (Suc n div 2), ?x)"
  proof (cases "even n")
    case True
    then have "Suc (Suc n) div 2 = Suc (Suc n div 2)" by presburger
    then show ?thesis using True inv l assms
      by (simp add: dec_round_def Let_def round_key_back addRoundKey_twice del: div_Suc)
  next
    case False
    then have "Suc (Suc n) div 2 = Suc n div 2" by presburger
    then show ?thesis using False inv l assms
      by (simp add: dec_round_def Let_def addRoundKey_twice del: div_Suc)
  qed
  have "rev [1 ..< Suc (Suc n)] = Suc n # rev [1 ..< Suc n]" by simp
  then show ?case using Suc.IH step by (simp only: fold.simps o_apply)
qed (simp add: round_key_0)

lemma decrypt_encrypt:
  assumes "length k = 32" "length buf = 16"
  shows "snd (aes256_decrypt_ecb (aes256_init k ctx) (snd (aes256_encrypt_ecb (aes256_init k ctx') buf))) = buf"
proof -
  let ?b0 = "aes_addRoundKey buf k"
  let ?s = "enc_state k ?b0 13"
  have l: "length ?b0 = 16" "length ?s = 16" using assms length_enc_state[of k ?b0] by simp_all
  have "fold enc_round [1 ..< 14] ((k, 1), ?b0) = (round_key k 6, ?s)"
    using enc_rounds[of 13 k ?b0] by (simp add: round_key_0)
  then have e: "snd (aes256_encrypt_ecb (aes256_init k ctx') buf) =
      aes_addRoundKey (aes_shiftRows (aes_subBytes ?s)) (fst (round_key k 7))"
    using assms round_key_Suc[of k 6]
    by (simp add: aes256_encrypt_ecb_def aes256_init_def aes_addRoundKey_cpy_def Let_def aes_addRoundKey_def)
  have rk: "fst (round_key k 7) = ctx_deckey (aes256_init k ctx)" "length (fst (round_key k 7)) = 32"
    using assms by (simp_all add: aes256_init_def) (simp add: round_key_def)
  have kr: "(fst (round_key k 7), 0x80) = round_key k 7"
    using last_rcon[of k] by (metis prod.collapse)
  have "fold dec_round (rev [1 ..< 14]) (round_key k 7, ?s) = ((k, 1), ?b0)"
    using dec_rounds[OF assms(1) l(1), of 13] by (simp add: round_key_0)
  then have "snd (aes256_decrypt_ecb (aes256_init k ctx)
      (aes_addRoundKey (aes_shiftRows (aes_subBytes ?s)) (fst (round_key k 7)))) = aes_addRoundKey ?b0 k"
    using l rk addRoundKey_twice[of "aes_shiftRows (aes_subBytes ?s)" "fst (round_key k 7)"]
    unfolding aes256_decrypt_ecb_def aes_addRoundKey_cpy_def rk(1)[symmetric] Let_def prod.case
    by (simp add: kr aes_addRoundKey_def shiftRows_inverse subBytes_inverse)
  then show ?thesis unfolding e using assms by (simp add: addRoundKey_twice)
qed

subsection \<open>Properties\<close>

text \<open>
  C2: For every 256-bit key and every 16-byte block, \<^verbatim>\<open>aes256_decrypt_ecb\<close> with a context
  initialised from the key recovers what \<^verbatim>\<open>aes256_encrypt_ecb\<close> with a context
  initialised from the same key encrypted.
\<close>

theorem aes_decrypt_encrypt:
  assumes "length k = 32" "length buf = 16"
  shows "snd (aes256_decrypt_ecb (aes256_init k ctx) (snd (aes256_encrypt_ecb (aes256_init k ctx') buf))) = buf"
  using assms by (rule decrypt_encrypt)

definition zero_context :: aes256_context where
  "zero_context = \<lparr>ctx_key = replicate 32 0, ctx_enckey = replicate 32 0, ctx_deckey = replicate 32 0\<rparr>"

theorem aes_decrypt_encrypt_witness:
  "snd (aes256_decrypt_ecb (aes256_init (replicate 32 7) zero_context)
     (snd (aes256_encrypt_ecb (aes256_init (replicate 32 7) zero_context) (replicate 16 65)))) = replicate 16 65"
  by (rule aes_decrypt_encrypt) simp_all

end
