(* ===== verification/Crypt.thy ===== *)
theory Crypt
  imports Aes Base64 IoportBuffer
begin

text \<open>
  The packet encryption of \<^verbatim>\<open>libopticon/aes.c\<close>: \<^verbatim>\<open>ioport_encrypt\<close> and
  \<^verbatim>\<open>ioport_decrypt\<close>. The plain length comes first, unencrypted; the first block
  carries time stamp and serial and eight data bytes, every other block sixteen.

  \<open>rand n\<close> is the byte the \<open>n\<close>-th call of \<^verbatim>\<open>rand\<close> leaves in the padding. The loop of
  \<^verbatim>\<open>ioport_encrypt\<close> runs as long as the input port reports bytes, so it has fuel; a
  buffer port needs at most one round per byte (\<open>encrypt_loop_ok\<close>). Decryption of a length
  below 8 hands \<^verbatim>\<open>ioport_write\<close> the length \<open>left-8\<close>, which wraps to almost 2^64: an
  access far outside the block.
\<close>

type_synonym aeskey = bytes

definition aeskey_from_base64 :: "aeskey \<Rightarrow> string \<Rightarrow> aeskey" where
  "aeskey_from_base64 junk b64 =
     (case base64_decode b64 of
        None \<Rightarrow> junk
      | Some buf \<Rightarrow> if length buf \<noteq> 32 then junk else buf)"

definition aeskey_to_base64 :: "aeskey \<Rightarrow> string" where
  "aeskey_to_base64 key = base64_encode (take 32 key)"

definition u32_of_time :: "time_t \<Rightarrow> u32" where
  "u32_of_time ts = word_of_int ts"

definition byte32 :: "u32 \<Rightarrow> nat \<Rightarrow> u8" where
  "byte32 w k = ucast (drop_bit k (w AND push_bit k 0xff))"

definition crypt_header :: "u32 \<Rightarrow> u32 \<Rightarrow> bytes" where
  "crypt_header tstamp serial =
     [byte32 tstamp 24, byte32 tstamp 16, byte32 tstamp 8, byte32 tstamp 0,
      byte32 serial 24, byte32 serial 16, byte32 serial 8, byte32 serial 0]"

text \<open>One pass of the loop: \<open>buf\<close> holds \<open>bufpos\<close> bytes already.\<close>

primrec encrypt_loop :: "nat \<Rightarrow> (nat \<Rightarrow> u8) \<Rightarrow> nat \<Rightarrow> aes256_context \<Rightarrow> 'a ioport \<Rightarrow> 'b ioport \<Rightarrow>
    nat \<Rightarrow> bytes \<Rightarrow> nat \<Rightarrow> ('a ioport \<times> 'b ioport) option" where
  "encrypt_loop 0 rand rn ctx inp outp left buf bufpos = None"
| "encrypt_loop (Suc fuel) rand rn ctx inp outp left buf bufpos =
     (if left = 0 then Some (inp, outp)
      else
        let left = (if left > 16 - bufpos then 16 - bufpos else left);
            (r, inp) = ioport_read inp left;
            buf = (case r of None \<Rightarrow> buf | Some d \<Rightarrow> take bufpos buf @ d @ drop (bufpos + left) buf);
            npad = 16 - (left + bufpos);
            buf = take (left + bufpos) buf @ map (\<lambda>i. rand (rn + i)) [0 ..< npad];
            (ctx, buf) = aes256_encrypt_ecb ctx buf;
            (ok, outp) = ioport_write outp buf;
            left = ioport_read_available inp
        in if left > 0 then encrypt_loop fuel rand (rn + npad) ctx inp outp left buf 0
           else Some (inp, outp))"

definition ioport_encrypt :: "nat \<Rightarrow> (nat \<Rightarrow> int) \<Rightarrow> (nat \<Rightarrow> u8) \<Rightarrow> aes256_context \<Rightarrow> bytes \<Rightarrow> aeskey \<Rightarrow>
    'a ioport \<Rightarrow> 'b ioport \<Rightarrow> time_t \<Rightarrow> u32 \<Rightarrow> ('a ioport \<times> 'b ioport) option" where
  "ioport_encrypt fuel ub rand ctx junk k inp outp ts serial =
     (let ctx = aes256_init k ctx;
          left = ioport_read_available inp;
          (ok, outp) = ioport_write_encint ub outp (of_nat left);
          buf = crypt_header (u32_of_time ts) serial @ junk
      in encrypt_loop fuel rand 0 ctx inp outp left buf 8)"

datatype decrypt_result = Decrypted | InvalidPacket | TimestampMismatch

definition be32_at :: "bytes \<Rightarrow> nat \<Rightarrow> u32" where
  "be32_at buf i = push_bit 24 (ucast (buf ! i)) OR push_bit 16 (ucast (buf ! (i + 1))) OR
     push_bit 8 (ucast (buf ! (i + 2))) OR ucast (buf ! (i + 3))"

definition ts_diff :: "u32 \<Rightarrow> u32 \<Rightarrow> u32" where
  "ts_diff pts uts = (if pts < uts then uts - pts else pts - uts)"

text \<open>
  One pass: the result of the whole call if it ends here, otherwise how many bytes were
  delivered (what the pass adds to \<open>done\<close>). The cipher context and the block buffer are
  carried along because a failed read leaves the buffer as it was.
\<close>

definition decrypt_block :: "aes256_context \<Rightarrow> 'a ioport \<Rightarrow> 'b ioport \<Rightarrow> u32 \<Rightarrow> u32 \<Rightarrow> bytes \<Rightarrow> bool \<Rightarrow> nat \<Rightarrow>
    ((decrypt_result + nat) \<times> aes256_context \<times> 'a ioport \<times> 'b ioport \<times> bytes) res" where
  "decrypt_block ctx inp outp uts serial buf absorb_ts left =
     (case ioport_read inp 16 of (r, inp) \<Rightarrow>
      case aes256_decrypt_ecb ctx (case r of None \<Rightarrow> buf | Some d \<Rightarrow> d) of (ctx, buf) \<Rightarrow>
      if absorb_ts then
        if be32_at buf 4 \<noteq> serial then Ok (Inl InvalidPacket, ctx, inp, outp, buf)
        else if ts_diff (be32_at buf 0) uts > 180 then Ok (Inl TimestampMismatch, ctx, inp, outp, buf)
        else if left < 8 then Fault OutOfBounds
        else Ok (Inr (left - 8), ctx, inp, snd (ioport_write outp (take (left - 8) (drop 8 buf))), buf)
      else Ok (Inr left, ctx, inp, snd (ioport_write outp (take left buf)), buf))"

text \<open>
  The loop, by \<open>n\<close> passes at most; every pass but the first delivers at least one byte, so
  \<open>sz + 2\<close> passes are enough (\<open>decrypt_loop_returns\<close>).
\<close>

primrec decrypt_loop :: "nat \<Rightarrow> aes256_context \<Rightarrow> 'a ioport \<Rightarrow> 'b ioport \<Rightarrow> u32 \<Rightarrow> u32 \<Rightarrow> bytes \<Rightarrow> bool \<Rightarrow>
    nat \<Rightarrow> nat \<Rightarrow> (decrypt_result \<times> 'a ioport \<times> 'b ioport) res option" where
  "decrypt_loop 0 ctx inp outp uts serial buf absorb_ts sz don = None"
| "decrypt_loop (Suc n) ctx inp outp uts serial buf absorb_ts sz don =
     (if sz - don = 0 then Some (Ok (Decrypted, inp, outp))
      else
        case decrypt_block ctx inp outp uts serial buf absorb_ts (min (sz - don) 16) of
          Inl e \<Rightarrow> Some (Fault e)
        | Inr (Inl res, ctx, inp, outp, buf) \<Rightarrow> Some (Ok (res, inp, outp))
        | Inr (Inr k, ctx, inp, outp, buf) \<Rightarrow>
            decrypt_loop n ctx inp outp uts serial buf False sz (don + k))"

definition ioport_decrypt :: "nat \<Rightarrow> aes256_context \<Rightarrow> bytes \<Rightarrow> aeskey \<Rightarrow> 'a ioport \<Rightarrow> 'b ioport \<Rightarrow>
    time_t \<Rightarrow> u32 \<Rightarrow> (decrypt_result \<times> 'a ioport \<times> 'b ioport) res option" where
  "ioport_decrypt fuel ctx junk k inp outp ts serial =
     (let ctx = aes256_init k ctx in
      case ioport_read_encint fuel inp of
        None \<Rightarrow> None
      | Some (sz, inp) \<Rightarrow>
          decrypt_loop (unat sz + 2) ctx inp outp (u32_of_time ts) serial junk True (unat sz) 0)"

subsection \<open>The block cipher under a fixed key\<close>

definition E :: "bytes \<Rightarrow> block \<Rightarrow> block" where
  "E k b = snd (aes256_encrypt_ecb (aes256_init k zero_context) b)"

definition D :: "bytes \<Rightarrow> block \<Rightarrow> block" where
  "D k b = snd (aes256_decrypt_ecb (aes256_init k zero_context) b)"

lemma ecb_step:
  assumes "ctx_enckey ctx = ctx_enckey (aes256_init k zero_context)"
  shows "snd (aes256_encrypt_ecb ctx b) = E k b"
    "ctx_enckey (fst (aes256_encrypt_ecb ctx b)) = ctx_enckey (aes256_init k zero_context)"
  using assms by (simp_all add: E_def aes256_encrypt_ecb_def Let_def split: prod.splits)

lemma dcb_step:
  assumes "ctx_deckey ctx = ctx_deckey (aes256_init k zero_context)"
  shows "snd (aes256_decrypt_ecb ctx b) = D k b"
    "ctx_deckey (fst (aes256_decrypt_ecb ctx b)) = ctx_deckey (aes256_init k zero_context)"
  using assms by (simp_all add: D_def aes256_decrypt_ecb_def Let_def split: prod.splits)

lemma D_E: "length k = 32 \<Longrightarrow> length b = 16 \<Longrightarrow> D k (E k b) = b"
  by (simp add: D_def E_def decrypt_encrypt)

lemma init_keys:
  "ctx_enckey (aes256_init k ctx) = ctx_enckey (aes256_init k zero_context)"
  "ctx_deckey (aes256_init k ctx) = ctx_deckey (aes256_init k zero_context)"
  by (simp_all add: aes256_init_def)

lemma length_enc_fold:
  "length (fst krc) = 32 \<Longrightarrow> length buf = 16 \<Longrightarrow>
   length (fst (fst (fold enc_round is (krc, buf)))) = 32 \<and> length (snd (fold enc_round is (krc, buf))) = 16"
proof (induction "is" arbitrary: krc buf)
  case (Cons i js)
  have "length (fst (fst (enc_round i (krc, buf)))) = 32 \<and> length (snd (enc_round i (krc, buf))) = 16"
    using Cons.prems by (auto simp: enc_round_def Let_def)
  then show ?case using Cons.IH[of "fst (enc_round i (krc, buf))" "snd (enc_round i (krc, buf))"] by simp
qed simp

lemma length_E: "length k = 32 \<Longrightarrow> length b = 16 \<Longrightarrow> length (E k b) = 16"
  using length_enc_fold[of "(k, 1)" "map2 (XOR) b (take 16 k)" "[1 ..< 14]"]
  by (auto simp: E_def aes256_encrypt_ecb_def aes_addRoundKey_cpy_def aes256_init_def Let_def
      split: prod.splits)

subsection \<open>The header\<close>

lemma bit_byte32: "bit (byte32 w k) n \<longleftrightarrow> n < 8 \<and> bit w (k + n)"
  using bit_imp_le_length[of w "k + n"] by (auto simp: byte32_def bit_ucast_iff bit_word_simps)

lemma byte32_up: "k \<le> 24 \<Longrightarrow> bit (push_bit k (ucast (byte32 w k)) :: u32) n \<longleftrightarrow> k \<le> n \<and> n < k + 8 \<and> bit w n"
  using bit_imp_le_length[of w n] by (auto simp: bit_word_simps bit_ucast_iff bit_byte32)

lemma be32_bytes32:
  "push_bit 24 (ucast (byte32 w 24)) OR push_bit 16 (ucast (byte32 w 16)) OR
   push_bit 8 (ucast (byte32 w 8)) OR ucast (byte32 w 0) = (w :: u32)"
proof (rule bit_word_eqI)
  fix n assume "n < LENGTH(32)"
  then show "bit (push_bit 24 (ucast (byte32 w 24)) OR push_bit 16 (ucast (byte32 w 16)) OR
   push_bit 8 (ucast (byte32 w 8)) OR ucast (byte32 w 0) :: u32) n = bit w n"
    using byte32_up[of 0 w n] by (simp add: bit_or_iff byte32_up del: bit_push_bit_iff) linarith
qed

lemma header_fields:
  "be32_at (crypt_header t s @ r) 0 = t" "be32_at (crypt_header t s @ r) 4 = s" "length (crypt_header t s) = 8"
  by (simp_all add: be32_at_def crypt_header_def be32_bytes32)

subsection \<open>The loops between two ports\<close>

text \<open>\<open>bs\<close> are the 16-byte blocks that carry \<open>data\<close>, the last one padded.\<close>

definition blocks_of :: "bytes \<Rightarrow> bytes list \<Rightarrow> bool" where
  "blocks_of data bs \<longleftrightarrow> (\<forall>b \<in> set bs. length b = 16) \<and> take (length data) (concat bs) = data \<and>
     length bs = (length data + 15) div 16"

lemma unat_of_small: "n < 2 ^ 28 \<Longrightarrow> unat (of_nat n :: u64) = n"
proof -
  assume "n < 2 ^ 28"
  then have "n < 2 ^ LENGTH(64)" by simp
  then have "take_bit LENGTH(64) n = n" by (simp only: take_bit_nat_eq_self_iff)
  then show ?thesis by (simp only: unsigned_of_nat of_nat_id)
qed

lemma blocks_of_Nil [simp]: "blocks_of [] bs \<longleftrightarrow> bs = []"
  by (auto simp: blocks_of_def)

lemma blocks_of_Cons:
  assumes "length b = 16" "take (length d) b = d" "length d = min 16 (length data)" "data = d @ data'" "data \<noteq> []"
    "blocks_of data' bs"
  shows "blocks_of data (b # bs)"
proof (cases "data' = []")
  case True
  then have "bs = []" "data = d" using assms(4,6) by simp_all
  moreover have "0 < length data" "length data \<le> 16" using assms(3,5) \<open>data = d\<close> by auto
  then have "(length data + 15) div 16 = 1" by linarith
  ultimately show ?thesis using assms(1,2) by (simp add: blocks_of_def)
next
  case False
  then have l: "0 < length data'" by simp
  have "length data = length d + length data'" using assms(4) by simp
  then have d: "length d = 16" using assms(3) l by linarith
  then have b: "b = d" using assms(1,2) by simp
  have "(length data + 15) div 16 = Suc ((length data' + 15) div 16)"
    using d assms(4) by (simp add: add.assoc)
  then show ?thesis using assms(4,6) d b by (simp add: blocks_of_def)
qed

locale cipher_ports =
  inp: sized_in_port r invi rest av + outp: out_port w invo written cap
  for r :: "'a \<Rightarrow> nat \<Rightarrow> bytes option \<times> 'a" and invi :: "'a \<Rightarrow> bool" and rest :: "'a \<Rightarrow> bytes"
    and av :: "'a \<Rightarrow> nat" and w :: "'b \<Rightarrow> bytes \<Rightarrow> bool \<times> 'b" and invo :: "'b \<Rightarrow> bool"
    and written :: "'b \<Rightarrow> bytes" and cap :: "'b \<Rightarrow> nat"
begin

lemma encrypt_pass:
  assumes io: "inp.sized i" "outp.ready out" "outp.fits out 16"
    and k: "length k = 32" "ctx_enckey ctx = ctx_enckey (aes256_init k zero_context)"
    and buf: "length buf = 16" "p < 16"
    and data: "rest (storage i) = data" "data \<noteq> []" "left = length data"
  shows "\<exists>d data' pad i' out' ctx'. data = d @ data' \<and> length d = min (16 - p) (length data) \<and>
    length (take p buf @ d @ pad) = 16 \<and> inp.sized i' \<and> rest (storage i') = data' \<and>
    outp.emits out (E k (take p buf @ d @ pad)) (True, out') \<and>
    ctx_enckey ctx' = ctx_enckey (aes256_init k zero_context) \<and>
    encrypt_loop (Suc fuel) rand rn ctx i out left buf p =
      (if data' = [] then Some (i', out')
       else encrypt_loop fuel rand (rn + length pad) ctx' i' out' (length data') (E k (take p buf @ d @ pad)) 0)"
proof -
  define n where "n = min (16 - p) (length data)"
  define d where "d = take n data"
  define data' where "data' = drop n data"
  define npad where "npad = 16 - (n + p)"
  define pad where "pad = map (\<lambda>j. rand (rn + j)) [0 ..< npad]"
  have n: "0 < n" "n \<le> length data" "n + p \<le> 16" using buf(2) data(2) by (auto simp: n_def)
  have dd: "data = d @ data'" "d \<noteq> []" "length d = n" using n data(2) by (auto simp: d_def data'_def)
  let ?b = "take p buf @ d @ pad"
  have b: "length ?b = 16" using n buf dd(3) by (simp add: pad_def npad_def)
  have src: "inp.source i" using io(1) by (simp add: inp.sized_def)
  obtain i' where i': "ioport_read i n = (Some d, i')" "rest (storage i') = data'" "inp.moves i i'"
    by (rule inp.givesE[OF inp.gives_read[OF src _ dd(2) refl, of data'] src]) (use data(1) dd in simp_all)
  have sz: "inp.sized i'" using inp.moves_sized[OF i'(3) io(1)] .
  obtain ctx' y where ey: "aes256_encrypt_ecb ctx ?b = (ctx', y)" by (metis surj_pair)
  then have e: "aes256_encrypt_ecb ctx ?b = (ctx', E k ?b)"
    "ctx_enckey ctx' = ctx_enckey (aes256_init k zero_context)"
    using ecb_step[OF k(2), of ?b] unfolding ey fst_conv snd_conv by simp_all
  have l: "length (E k ?b) = 16" by (rule length_E[OF k(1) b])
  then have "outp.emits out (E k ?b) (ioport_write out (E k ?b))"
    using io(2,3) by (intro outp.emits_write) auto
  then obtain out' where out': "ioport_write out (E k ?b) = (True, out')" "outp.emits out (E k ?b) (True, out')"
    unfolding outp.emits_def by auto
  have mn: "(if left > 16 - p then 16 - p else left) = n" using data(3) by (auto simp: n_def)
  have blk: "take (n + p) (take p buf @ d @ drop (n + p) buf) = take p buf @ d"
    using n buf dd(3) by simp
  have "encrypt_loop (Suc fuel) rand rn ctx i out left buf p =
      (if data' = [] then Some (i', out')
       else encrypt_loop fuel rand (rn + length pad) ctx' i' out' (length data') (E k ?b) 0)"
  proof -
    have av: "ioport_read_available i' = length data'" using inp.available_ok[OF sz] i'(2) by simp
    have "left \<noteq> 0" "length pad = npad" using data(2,3) by (simp_all add: pad_def)
    then show ?thesis
      unfolding encrypt_loop.simps Let_def mn i'(1) prod.case option.case add.commute[of p n] blk
        npad_def[symmetric] pad_def[symmetric] append_assoc e(1) out'(1) av
      by simp
  qed
  then show ?thesis using dd(1,3) b sz i'(2) out'(2) e(2) unfolding n_def by blast
qed

end

context cipher_ports
begin

lemma encrypt_loop_ok:
  assumes "inp.sized i" "outp.ready out" "outp.fits out (16 * ((length data + 15) div 16))"
    "length k = 32" "ctx_enckey ctx = ctx_enckey (aes256_init k zero_context)"
    "length buf = 16" "rest (storage i) = data" "data \<noteq> []" "length data \<le> fuel"
  shows "\<exists>bs i' out'. encrypt_loop fuel rand rn ctx i out (length data) buf 0 = Some (i', out') \<and>
    blocks_of data bs \<and> outp.emits out (concat (map (E k) bs)) (True, out')"
  using assms
proof (induction fuel arbitrary: data rn ctx i out buf)
  case (Suc fuel)
  have pos: "0 < length data" using Suc.prems(8) by simp
  have "1 \<le> (length data + 15) div 16" using pos by linarith
  then have f16: "outp.fits out 16" using Suc.prems(3) unfolding outp.fits_def by linarith
  have z: "0 < (16 :: nat)" by simp
  obtain d data' pad i' out' ctx' where p: "data = d @ data'" "length d = min 16 (length data)"
    "length (d @ pad) = 16" "inp.sized i'" "rest (storage i') = data'"
    "outp.emits out (E k (d @ pad)) (True, out')"
    "ctx_enckey ctx' = ctx_enckey (aes256_init k zero_context)"
    "encrypt_loop (Suc fuel) rand rn ctx i out (length data) buf 0 =
      (if data' = [] then Some (i', out')
       else encrypt_loop fuel rand (rn + length pad) ctx' i' out' (length data') (E k (d @ pad)) 0)"
    using encrypt_pass[OF Suc.prems(1,2) f16 Suc.prems(4,5,6) z Suc.prems(7,8) refl, of fuel rand rn]
    unfolding take_0 append_Nil diff_zero by blast
  have lE: "length (E k (d @ pad)) = 16" using length_E Suc.prems(4) p(3) by blast
  note out' = outp.emits_after[OF p(6) Suc.prems(2)]
  show ?case
  proof (cases "data' = []")
    case True
    then have "blocks_of data [d @ pad]"
      using p Suc.prems(8) by (intro blocks_of_Cons[of _ d _ "[]"]) auto
    then show ?thesis using True p(6,8) by (intro exI[of _ "[d @ pad]"]) auto
  next
    case False
    then have "length d = 16" using p(1,2) by (cases data') auto
    then have len: "length data = 16 + length data'" using p(1) by simp
    have fits': "outp.fits out' (16 * ((length data' + 15) div 16))"
    proof (rule out'(3))
      have "16 + 16 * ((length data' + 15) div 16) = 16 * ((length data + 15) div 16)"
        using div_add_self1[of 16 "length data' + 15"] unfolding len add.assoc by simp
      then show "outp.fits out (length (E k (d @ pad)) + 16 * ((length data' + 15) div 16))"
        using Suc.prems(3) lE by simp
    qed
    obtain bs i2 out2 where IH: "encrypt_loop fuel rand (rn + length pad) ctx' i' out' (length data') (E k (d @ pad)) 0 = Some (i2, out2)"
        "blocks_of data' bs" "outp.emits out' (concat (map (E k) bs)) (True, out2)"
      using Suc.IH[OF p(4) out'(2) fits' Suc.prems(4) p(7) lE p(5) False, of "rn + length pad"] Suc.prems(9) len by auto
    have "blocks_of data ((d @ pad) # bs)"
      using p IH(2) Suc.prems(8) by (intro blocks_of_Cons[of _ d _ data']) auto
    moreover have "outp.emits out (concat (map (E k) ((d @ pad) # bs))) (True, out2)"
      using out'(4)[OF IH(3)] by simp
    ultimately show ?thesis using False p(8) IH(1) by (intro exI[of _ "(d @ pad) # bs"]) auto
  qed
qed simp

text \<open>What \<^verbatim>\<open>ioport_encrypt\<close> writes for at least 9 bytes of plain text.\<close>

lemma encrypt_ok:
  assumes io: "inp.sized i" "outp.ready out" "rest (storage i) = data" "8 < length data"
    and room: "length data < 2 ^ 28" "outp.fits out (length data + 40)"
    and k: "length k = 32" "length junk = 8" "length data < fuel"
  shows "\<exists>bs i' out'. ioport_encrypt fuel ub rand ctx junk k i out ts serial = Some (i', out') \<and>
    blocks_of (drop 8 data) bs \<and>
    outp.emits out (enc_int (of_nat (length data)) @
      E k (crypt_header (u32_of_time ts) serial @ take 8 data) @ concat (map (E k) bs)) (True, out')"
proof -
  let ?h = "crypt_header (u32_of_time ts) serial"
  let ?n = "length data"
  have av: "ioport_read_available i = ?n" using inp.available_ok[OF io(1)] io(3) by simp
  have small: "(of_nat ?n :: u64) < 2 ^ 28"
    using unat_of_small[of ?n] room(1) by (simp add: word_less_nat_alt)
  have li: "length (enc_int (of_nat ?n)) \<le> 4" by (simp add: enc_int_def Let_def)
  have "outp.emits out (enc_int (of_nat ?n)) (ioport_write_encint ub out (of_nat ?n))"
    using io(2) room(2) li by (intro outp.emits_encint small) (auto simp: outp.fits_def)
  then obtain o1 where o1: "ioport_write_encint ub out (of_nat ?n) = (True, o1)"
      "outp.emits out (enc_int (of_nat ?n)) (True, o1)"
    unfolding outp.emits_def by auto
  note a1 = outp.emits_after[OF o1(2) io(2)]
  have f1: "outp.fits o1 (16 + 16 * ((length (drop 8 data) + 15) div 16))"
  proof (rule a1(3))
    show "outp.fits out (length (enc_int (of_nat ?n)) + (16 + 16 * ((length (drop 8 data) + 15) div 16)))"
      using room(2) li io(4) unfolding outp.fits_def by simp
  qed
  then have f16: "outp.fits o1 16" by (auto simp: outp.fits_def)
  obtain f where f: "fuel = Suc f" "?n \<le> f" using k(3) by (cases fuel) auto
  let ?ctx = "aes256_init k ctx"
  have ne: "data \<noteq> []" using io(4) by auto
  from encrypt_pass[OF io(1) a1(2) f16 k(1) init_keys(1)[of k ctx] _ _ io(3) ne refl, of "?h @ junk" 8 f rand 0]
  obtain d data' pad i' out' ctx' where p: "data = d @ data'" "length d = 8"
    "length (?h @ d @ pad) = 16" "inp.sized i'" "rest (storage i') = data'"
    "outp.emits o1 (E k (?h @ d @ pad)) (True, out')"
    "ctx_enckey ctx' = ctx_enckey (aes256_init k zero_context)"
    "encrypt_loop (Suc f) rand 0 ?ctx i o1 ?n (?h @ junk) 8 =
      (if data' = [] then Some (i', out')
       else encrypt_loop f rand (length pad) ctx' i' out' (length data') (E k (?h @ d @ pad)) 0)"
    using k(2) io(4) header_fields(3)[of "u32_of_time ts" serial] by auto
  have d: "d = take 8 data" "data' = drop 8 data" "data' \<noteq> []" using p(1,2) io(4) by auto
  have pad: "pad = []" using p(2,3) header_fields(3) by auto
  have lE: "length (E k (?h @ d @ pad)) = 16" using length_E k(1) p(3) by blast
  note a2 = outp.emits_after[OF p(6) a1(2)]
  have f2: "outp.fits out' (16 * ((length data' + 15) div 16))"
    using f1 lE d(2) by (intro a2(3)) simp
  have fl: "length data' \<le> f" using f(2) p(1) by simp
  obtain bs i2 out2 where L: "encrypt_loop f rand (length pad) ctx' i' out' (length data') (E k (?h @ d @ pad)) 0 = Some (i2, out2)"
      "blocks_of data' bs" "outp.emits out' (concat (map (E k) bs)) (True, out2)"
    using encrypt_loop_ok[OF p(4) a2(2) f2 k(1) p(7) lE p(5) d(3) fl, of rand "length pad"] by blast
  have "ioport_encrypt fuel ub rand ctx junk k i out ts serial = Some (i2, out2)"
    unfolding ioport_encrypt_def Let_def av o1(1) prod.case f(1) p(8) using d(3) L(1) by simp
  then show ?thesis using L(2,3) a1(4)[OF a2(4)[OF L(3)]] unfolding d pad by auto
qed

end

lemma blocks_of_ConsD:
  assumes "blocks_of data bs" "data \<noteq> []"
  obtains b bs' where "bs = b # bs'" "length b = 16" "take (min (length data) 16) b = take 16 data" "blocks_of (drop 16 data) bs'"
proof -
  have l: "length bs = (length data + 15) div 16" "0 < length data" using assms by (auto simp: blocks_of_def)
  then have "0 < length bs" by linarith
  then have "bs \<noteq> []" by simp
  then obtain b bs' where bs: "bs = b # bs'" by (cases bs) auto
  have all: "length b = 16" "\<forall>c \<in> set bs'. length c = 16" and tk: "take (length data) (b @ concat bs') = data"
    using assms(1) by (auto simp: blocks_of_def bs)
  have "take (min (length data) 16) b = take 16 (take (length data) (b @ concat bs'))"
    using all(1) by (cases "length data \<le> 16") (simp_all add: min_def)
  then have t: "take (min (length data) 16) b = take 16 data" unfolding tk .
  have "blocks_of (drop 16 data) bs'"
  proof -
    have "take (length data - 16) (concat bs') = drop 16 (take (length data) (b @ concat bs'))"
      unfolding drop_take drop_append using all(1) by simp
    then have "take (length (drop 16 data)) (concat bs') = drop 16 data" unfolding tk by simp
    moreover have "length bs' = (length (drop 16 data) + 15) div 16"
      using l unfolding bs by simp
    ultimately show ?thesis using all(2) by (simp add: blocks_of_def)
  qed
  then show ?thesis using that bs all(1) t by blast
qed

context cipher_ports
begin

lemma decrypt_block_ok:
  assumes io: "inp.source i" "outp.ready out" "outp.fits out (length d)"
    and k: "length k = 32" "ctx_deckey ctx = ctx_deckey (aes256_init k zero_context)" "length b = 16"
    and r: "rest (storage i) = E k b @ t"
    and d: "d = (if absorb_ts then take (left - 8) (drop 8 b) else take left b)"
    and hd: "absorb_ts \<longrightarrow> be32_at b 4 = serial \<and> ts_diff (be32_at b 0) uts \<le> 180 \<and> 8 \<le> left"
  shows "\<exists>ctx' i' out'. decrypt_block ctx i out uts serial buf absorb_ts left =
      Ok (Inr (if absorb_ts then left - 8 else left), ctx', i', out', b) \<and>
    inp.source i' \<and> rest (storage i') = t \<and> ctx_deckey ctx' = ctx_deckey (aes256_init k zero_context) \<and>
    (d \<noteq> [] \<longrightarrow> outp.emits out d (True, out'))"
proof -
  have ne: "E k b \<noteq> []" "length (E k b) = 16" using length_E[OF k(1,3)] by auto
  obtain i' where i': "ioport_read i 16 = (Some (E k b), i')" "inp.source i'" "rest (storage i') = t"
    using inp.givesE[OF inp.gives_read[OF io(1) r ne(1) ne(2)[symmetric]] io(1)] by blast
  obtain ctx' y where ey: "aes256_decrypt_ecb ctx (E k b) = (ctx', y)" by (metis surj_pair)
  have e: "y = b" "ctx_deckey ctx' = ctx_deckey (aes256_init k zero_context)"
    using dcb_step[OF k(2), of "E k b"] D_E[OF k(1,3)] unfolding ey fst_conv snd_conv by simp_all
  define out' where "out' = snd (ioport_write out d)"
  have em: "d \<noteq> [] \<longrightarrow> outp.emits out d (True, out')"
  proof
    assume "d \<noteq> []"
    then have "outp.emits out d (ioport_write out d)" using io by (intro outp.emits_write)
    then show "outp.emits out d (True, out')" unfolding out'_def outp.emits_def by auto
  qed
  have "decrypt_block ctx i out uts serial buf absorb_ts left =
      Ok (Inr (if absorb_ts then left - 8 else left), ctx', i', out', b)"
    using hd unfolding decrypt_block_def i'(1) prod.case option.case ey e(1) out'_def d by auto
  then show ?thesis using i'(2,3) e(2) em by blast
qed

lemma decrypt_loop_ok:
  assumes "inp.source i" "outp.ready out" "outp.fits out (length data)" "length k = 32"
    "ctx_deckey ctx = ctx_deckey (aes256_init k zero_context)"
    "rest (storage i) = concat (map (E k) bs) @ t" "blocks_of data bs"
    "sz = don + length data" "length bs < n"
  shows "\<exists>i' out'. decrypt_loop n ctx i out uts serial buf False sz don = Some (Ok (Decrypted, i', out')) \<and>
    outp.emits out data (True, out') \<and> rest (storage i') = t"
  using assms
proof (induction n arbitrary: data bs i out ctx buf don)
  case (Suc n)
  show ?case
  proof (cases "data = []")
    case True
    then show ?thesis using Suc.prems outp.emits_nil by auto
  next
    case False
    then obtain b bs' where b: "bs = b # bs'" "length b = 16"
        "take (min (length data) 16) b = take 16 data" "blocks_of (drop 16 data) bs'"
      using blocks_of_ConsD[OF Suc.prems(7)] by blast
    let ?left = "min (length data) 16"
    have left: "sz - don = length data" "length data \<noteq> 0" using Suc.prems(8) False by simp_all
    have f16: "outp.fits out (length (take 16 data))" using Suc.prems(3) by (simp add: outp.fits_def)
    have r: "rest (storage i) = E k b @ (concat (map (E k) bs') @ t)" using Suc.prems(6) b(1) by simp
    obtain ctx' i' out' where p: "decrypt_block ctx i out uts serial buf False ?left = Ok (Inr ?left, ctx', i', out', b)"
        "inp.source i'" "rest (storage i') = concat (map (E k) bs') @ t"
        "ctx_deckey ctx' = ctx_deckey (aes256_init k zero_context)"
        "outp.emits out (take 16 data) (True, out')"
      using decrypt_block_ok[OF Suc.prems(1,2) f16 Suc.prems(4,5) b(2) r, of False ?left serial uts buf] b(3) False
      by auto
    note out' = outp.emits_after[OF p(5) Suc.prems(2)]
    have "length (take 16 data) + length (drop 16 data) = length data" by simp
    then have fits': "outp.fits out' (length (drop 16 data))" using Suc.prems(3) by (intro out'(3)) (simp only:)
    have sz': "sz = (don + ?left) + length (drop 16 data)" "length bs' < n" using Suc.prems(8,9) b(1) by auto
    obtain i2 out2 where IH: "decrypt_loop n ctx' i' out' uts serial b False sz (don + ?left) = Some (Ok (Decrypted, i2, out2))"
        "outp.emits out' (drop 16 data) (True, out2)" "rest (storage i2) = t"
      using Suc.IH[OF p(2) out'(2) fits' Suc.prems(4) p(4,3) b(4) sz', of b] by blast
    have "decrypt_loop (Suc n) ctx i out uts serial buf False sz don = Some (Ok (Decrypted, i2, out2))"
      unfolding decrypt_loop.simps left(1) p(1) using left(2) IH(1) by simp
    then show ?thesis using out'(4)[OF IH(2)] IH(3) by auto
  qed
qed simp

text \<open>
  Decryption recovers the plain text if there are at least 16 bytes of it, the serial is
  the expected one and the clocks agree within three minutes.
\<close>

lemma decrypt_ok:
  assumes io: "inp.source i" "outp.ready out" "outp.fits out (length data)"
    and k: "length k = 32" and len: "16 \<le> length data" "length data < 2 ^ 28" "4 \<le> fuel"
    and r: "rest (storage i) = enc_int (of_nat (length data)) @
      E k (crypt_header (u32_of_time ts) serial @ take 8 data) @ concat (map (E k) bs) @ t"
    and bs: "blocks_of (drop 8 data) bs"
    and ts: "ts_diff (u32_of_time ts) (u32_of_time now) \<le> 180"
  shows "\<exists>i' out'. ioport_decrypt fuel ctx junk k i out now serial = Some (Ok (Decrypted, i', out')) \<and>
    outp.emits out data (True, out') \<and> rest (storage i') = t"
proof -
  let ?h = "crypt_header (u32_of_time ts) serial"
  let ?n = "length data" and ?b = "?h @ take 8 data"
  have small: "(of_nat ?n :: u64) < 2 ^ 28" "unat (of_nat ?n :: u64) = ?n"
    using unat_of_small[of ?n] len(2) by (simp_all add: word_less_nat_alt)
  obtain rr where rr: "ioport_read_encint fuel i = Some rr"
      "inp.gives i (of_nat ?n) (E k ?b @ (concat (map (E k) bs) @ t)) rr"
    using inp.gives_encint[OF io(1) r small(1) len(3)] by blast
  obtain i1 where i1: "ioport_read_encint fuel i = Some (of_nat ?n, i1)" "inp.source i1"
      "rest (storage i1) = E k ?b @ (concat (map (E k) bs) @ t)"
    by (rule inp.givesE[OF rr(2) io(1)]) (simp add: rr(1))
  have b: "length ?b = 16" "be32_at ?b 4 = serial" "be32_at ?b 0 = u32_of_time ts" "take 8 (drop 8 ?b) = take 8 data"
    using len(1) header_fields by auto
  have f8: "outp.fits out (length (take 8 data))" using io(3) by (simp add: outp.fits_def)
  obtain ctx' i' out' where p: "decrypt_block (aes256_init k ctx) i1 out (u32_of_time now) serial junk True 16 =
        Ok (Inr 8, ctx', i', out', ?b)" "inp.source i'" "rest (storage i') = concat (map (E k) bs) @ t"
      "ctx_deckey ctx' = ctx_deckey (aes256_init k zero_context)" "outp.emits out (take 8 data) (True, out')"
    using decrypt_block_ok[OF i1(2) io(2) f8 k init_keys(2)[of k ctx] b(1) i1(3), of True 16 serial "u32_of_time now" junk] b ts len(1)
    by auto
  note a = outp.emits_after[OF p(5) io(2)]
  have fits': "outp.fits out' (length (drop 8 data))" using io(3) len(1) by (intro a(3)) simp
  have n: "?n = 8 + length (drop 8 data)" using len(1) by simp
  have lb: "length bs < ?n + 1" using bs by (auto simp: blocks_of_def)
  obtain i2 out2 where L: "decrypt_loop (?n + 1) ctx' i' out' (u32_of_time now) serial ?b False ?n 8 = Some (Ok (Decrypted, i2, out2))"
      "outp.emits out' (drop 8 data) (True, out2)" "rest (storage i2) = t"
    using decrypt_loop_ok[OF p(2) a(2) fits' k p(4,3) bs n lb] by blast
  have m: "min (?n - 0) 16 = 16" "?n - 0 \<noteq> 0" "?n + 2 = Suc (?n + 1)" using len(1) by auto
  have "ioport_decrypt fuel ctx junk k i out now serial = Some (Ok (Decrypted, i2, out2))"
    unfolding ioport_decrypt_def Let_def i1(1) option.case prod.case small(2) m(3) decrypt_loop.simps m(1) p(1)
    using m(2) L(1) by simp
  moreover have "outp.emits out (take 8 data @ drop 8 data) (True, out2)" by (rule a(4)[OF L(2)])
  ultimately show ?thesis using L(3) by simp
qed

end

subsection \<open>Properties\<close>

text \<open>The contracts hold for a buffer read from and a buffer written to.\<close>

interpretation crypt: cipher_ports buffer_read buf_in buf_rest buffer_read_available
    buffer_write "buf_at 0" buf_written buf_cap
  by unfold_locales

lemma mem_port_sized: "mem_port io bs \<Longrightarrow> bs \<noteq> [] \<Longrightarrow> read_avail io = buffer_read_available \<Longrightarrow> br.sized io"
  using mem_port_source by (auto simp: br.sized_def)

lemma ioport_write_fresh:
  assumes "data \<noteq> []" "length data < 2 ^ 31" "sz < 2 ^ 32"
  shows "\<exists>io. ioport_write (ioport_create_buffer junk None sz) data = (True, io) \<and> mem_port io data \<and>
    read_avail io = buffer_read_available"
proof -
  let ?io = "ioport_create_buffer junk None sz"
  have "bw.emits 0 ?io data (ioport_write ?io data)"
    using mem_port_fits[OF mem_port_fresh[OF assms(3)], of "length data" junk] assms
    by (intro bw.emits_write mem_port_ready[OF mem_port_fresh[OF assms(3)]]) auto
  then obtain st' where s: "ioport_write ?io data = (True, ?io\<lparr>storage := st', bitpos := 0, bitbuffer := 0\<rparr>)"
      "buf_at 0 st'" "buf_written st' = buf_written (storage ?io) @ data" "buf_cap st' = buf_cap (storage ?io)"
    unfolding bw.emits_def by blast
  then show ?thesis using mem_port_fresh[OF assms(3), of junk]
    by (intro exI[of _ "?io\<lparr>storage := st', bitpos := 0, bitbuffer := 0\<rparr>"])
       (simp add: mem_port_def, simp add: ioport_create_buffer_def)
qed

text \<open>
  C1: A message of 16 bytes or more put into a memory port and sent through
  \<^verbatim>\<open>ioport_encrypt\<close> into a second one comes out of \<^verbatim>\<open>ioport_decrypt\<close> unchanged, if the
  receiver uses the same key and serial and its clock is within 180 seconds of the
  sender's; both calls return, within as many rounds as there are bytes.
\<close>

theorem encrypt_decrypt:
  assumes "16 \<le> length data" "length data < 2 ^ 28" "length k = 32" "length junk = 8"
    "ts_diff (u32_of_time ts) (u32_of_time now) \<le> 180" "length data < fuel" "s1 < 2 ^ 32" "s2 < 2 ^ 32" "s3 < 2 ^ 32"
  shows "\<exists>plain i c i2 out.
    ioport_write (ioport_create_buffer j1 None s1) data = (True, plain) \<and>
    ioport_encrypt fuel ub rand ctx1 junk k plain (ioport_create_buffer j2 None s2) ts serial = Some (i, c) \<and>
    ioport_decrypt 4 ctx2 junk2 k c (ioport_create_buffer j3 None s3) now serial = Some (Ok (Decrypted, i2, out)) \<and>
    buf_written (storage out) = data"
proof -
  have ne: "data \<noteq> []" using assms(1) by auto
  obtain plain where p: "ioport_write (ioport_create_buffer j1 None s1) data = (True, plain)" "mem_port plain data"
      "read_avail plain = buffer_read_available"
    using ioport_write_fresh[OF ne _ assms(7), of j1] assms(2) by auto
  let ?c = "ioport_create_buffer j2 None s2" and ?o = "ioport_create_buffer j3 None s3"
  have f: "bw.fits ?c (length data + 40)" "bw.fits ?o (length data)"
    using mem_port_fits[OF mem_port_fresh[OF assms(8)], of "length data + 40" j2]
      mem_port_fits[OF mem_port_fresh[OF assms(9)], of "length data" j3] assms(2) by simp_all
  have d8: "8 < length data" using assms(1) by simp
  obtain bs i c where e: "ioport_encrypt fuel ub rand ctx1 junk k plain ?c ts serial = Some (i, c)"
      "blocks_of (drop 8 data) bs" "bw.emits 0 ?c (enc_int (of_nat (length data)) @
      E k (crypt_header (u32_of_time ts) serial @ take 8 data) @ concat (map (E k) bs)) (True, c)"
    using crypt.encrypt_ok[OF mem_port_sized[OF p(2) ne p(3)] mem_port_ready[OF mem_port_fresh[OF assms(8)]]
      mem_port_source(2)[OF p(2) ne] d8 assms(2) f(1) assms(3,4,6), of ub rand ctx1 ts serial] by blast
  from mem_port_emits[OF mem_port_fresh[OF assms(8)] e(3)]
  have c: "mem_port c (enc_int (of_nat (length data)) @
      E k (crypt_header (u32_of_time ts) serial @ take 8 data) @ concat (map (E k) bs) @ [])"
    by auto
  obtain i2 out where o: "ioport_decrypt 4 ctx2 junk2 k c ?o now serial = Some (Ok (Decrypted, i2, out))"
      "bw.emits 0 ?o data (True, out)"
    using crypt.decrypt_ok[OF mem_port_source(1)[OF c] mem_port_ready[OF mem_port_fresh[OF assms(9)]] f(2) assms(3,1,2) _
      mem_port_source(2)[OF c] e(2) assms(5), of 4 ctx2 junk2] by auto
  from mem_port_emits[OF mem_port_fresh[OF assms(9)] o(2)]
  have "buf_written (storage out) = data" by (auto simp: mem_port_def)
  then show ?thesis using p(1) e(1) o(1) by blast
qed

theorem encrypt_decrypt_witness:
  "\<exists>plain i c i2 out.
    ioport_write (ioport_create_buffer (\<lambda>_. 0) None 64) (replicate 20 9) = (True, plain) \<and>
    ioport_encrypt 21 (\<lambda>_. 0) (\<lambda>_. 1) zero_context (replicate 8 0) (replicate 32 5) plain
      (ioport_create_buffer (\<lambda>_. 0) None 64) 1000 7 = Some (i, c) \<and>
    ioport_decrypt 4 zero_context [] (replicate 32 5) c (ioport_create_buffer (\<lambda>_. 0) None 64) 1100 7 = Some (Ok (Decrypted, i2, out)) \<and>
    buf_written (storage out) = replicate 20 9"
  by (rule encrypt_decrypt) (simp_all add: ts_diff_def u32_of_time_def)

text \<open>
  A packet whose length field is zero passes \<^verbatim>\<open>ioport_decrypt\<close> under every key, serial
  and clock: nothing in it is authenticated.
\<close>

theorem empty_packet_accepted:
  "\<exists>i out. ioport_decrypt 1 ctx junk2 k (ioport_create_buffer j1 (Some [0]) 1)
     (ioport_create_buffer j2 None sz) now serial = Some (Ok (Decrypted, i, out)) \<and>
     out = ioport_create_buffer j2 None sz"
  by (simp add: ioport_decrypt_def ioport_create_buffer_def ioport_read_encint_def ioport_read_byte_def
      ioport_read_def buffer_read_def)

text \<open>
  Exporting a key to base64 and importing it again gives the same key.
\<close>

theorem aeskey_roundtrip:
  assumes "length k = 32"
  shows "aeskey_from_base64 junk (aeskey_to_base64 k) = k"
  using assms by (simp add: aeskey_from_base64_def aeskey_to_base64_def base64_decode_encode)

theorem aeskey_roundtrip_witness:
  "aeskey_from_base64 [] (aeskey_to_base64 (replicate 32 3)) = replicate 32 3"
  by (rule aeskey_roundtrip) simp

end
