(* ===== verification/Meter.thy ===== *)
theory Meter
  imports Ids Double
begin

text \<open>
  \<^verbatim>\<open>libopticon/meter.c\<close>: one measured quantity of a host, a scalar or an array of at most
  29 integers, fractions or strings.

  The value pointer \<^verbatim>\<open>d\<close> is \<open>NoData\<close> (NULL) or a heap block of a byte size. A block fresh
  from \<^verbatim>\<open>calloc\<close> is \<open>Zeroed\<close> and takes the element type of the first store; an access
  beyond its size, through NULL or at an element type other than the stored one is a fault.
  The back pointer to the host is used for its \<^verbatim>\<open>lastmodified\<close> only, which the operations
  get as the argument \<open>lm\<close>. An \<open>fstring\<close> is 128 bytes; its value is the C string in it.
\<close>

datatype cells = Zeroed | U64s "u64 list" | Fracs "dbl list" | Strs "string list"

datatype mdata = NoData | Block nat cells

record meter =
  mt_id :: u64
  mt_count :: nat
  mt_badness :: rat
  mt_lastmodified :: time_t
  mt_d :: mdata

definition sizeof_u64 :: nat where "sizeof_u64 = 8"
definition sizeof_fstring :: nat where "sizeof_fstring = 128"

lemmas sizeof_defs = sizeof_u64_def sizeof_fstring_def

definition meter_type :: "meter \<Rightarrow> u64" where
  "meter_type m = mt_id m AND MMASK_TYPE"

definition elems :: "nat \<Rightarrow> nat" where
  "elems count = (if count = 0 then 1 else count)"

subsection \<open>Access to the block\<close>

fun load_u64 :: "mdata \<Rightarrow> nat \<Rightarrow> u64 res" where
  "load_u64 NoData i = Fault NullDeref"
| "load_u64 (Block sz c) i =
     (if Suc i * sizeof_u64 > sz then Fault OutOfBounds
      else case c of Zeroed \<Rightarrow> Ok 0 | U64s xs \<Rightarrow> Ok (xs ! i) | _ \<Rightarrow> Fault TypePun)"

fun load_frac :: "mdata \<Rightarrow> nat \<Rightarrow> dbl res" where
  "load_frac NoData i = Fault NullDeref"
| "load_frac (Block sz c) i =
     (if Suc i * sizeof_u64 > sz then Fault OutOfBounds
      else case c of Zeroed \<Rightarrow> Ok (Fin 0) | Fracs xs \<Rightarrow> Ok (xs ! i) | _ \<Rightarrow> Fault TypePun)"

fun load_str :: "mdata \<Rightarrow> nat \<Rightarrow> string res" where
  "load_str NoData i = Fault NullDeref"
| "load_str (Block sz c) i =
     (if Suc i * sizeof_fstring > sz then Fault OutOfBounds
      else case c of Zeroed \<Rightarrow> Ok '''' | Strs xs \<Rightarrow> Ok (xs ! i) | _ \<Rightarrow> Fault TypePun)"

fun store_u64 :: "mdata \<Rightarrow> nat \<Rightarrow> u64 \<Rightarrow> mdata res" where
  "store_u64 NoData i v = Fault NullDeref"
| "store_u64 (Block sz c) i v =
     (if Suc i * sizeof_u64 > sz then Fault HeapOverflow
      else case c of
        Zeroed \<Rightarrow> Ok (Block sz (U64s ((replicate (sz div sizeof_u64) 0)[i := v])))
      | U64s xs \<Rightarrow> Ok (Block sz (U64s (xs[i := v])))
      | _ \<Rightarrow> Fault TypePun)"

fun store_frac :: "mdata \<Rightarrow> nat \<Rightarrow> dbl \<Rightarrow> mdata res" where
  "store_frac NoData i v = Fault NullDeref"
| "store_frac (Block sz c) i v =
     (if Suc i * sizeof_u64 > sz then Fault HeapOverflow
      else case c of
        Zeroed \<Rightarrow> Ok (Block sz (Fracs ((replicate (sz div sizeof_u64) (Fin 0))[i := v])))
      | Fracs xs \<Rightarrow> Ok (Block sz (Fracs (xs[i := v])))
      | _ \<Rightarrow> Fault TypePun)"

text \<open>\<^verbatim>\<open>strncpy\<close> writes 127 bytes whatever the length, then the NUL at 127.\<close>

fun store_str :: "mdata \<Rightarrow> nat \<Rightarrow> string \<Rightarrow> mdata res" where
  "store_str NoData i v = Fault NullDeref"
| "store_str (Block sz c) i v =
     (if Suc i * sizeof_fstring > sz then Fault HeapOverflow
      else case c of
        Zeroed \<Rightarrow> Ok (Block sz (Strs ((replicate (sz div sizeof_fstring) '''')[i := c_truncate 127 v])))
      | Strs xs \<Rightarrow> Ok (Block sz (Strs (xs[i := c_truncate 127 v])))
      | _ \<Rightarrow> Fault TypePun)"

subsection \<open>The operations\<close>

text \<open>The id is set by every caller right after the allocation.\<close>

definition meter_alloc :: "u64 \<Rightarrow> meter" where
  "meter_alloc ident = \<lparr>mt_id = ident, mt_count = SZ_EMPTY_VAL, mt_badness = 0, mt_lastmodified = 0, mt_d = NoData\<rparr>"

definition meter_get_uint :: "meter \<Rightarrow> nat \<Rightarrow> u64 res" where
  "meter_get_uint m i =
     (if mt_count m \<ge> SZ_EMPTY_VAL then Ok 0
      else if i < elems (mt_count m) \<and> meter_type m = MTYPE_INT then load_u64 (mt_d m) i
      else Ok 0)"

definition meter_get_frac :: "meter \<Rightarrow> nat \<Rightarrow> dbl res" where
  "meter_get_frac m i =
     (if mt_count m \<ge> SZ_EMPTY_VAL then Ok (Fin 0)
      else if i < elems (mt_count m) \<and> meter_type m = MTYPE_FRAC then load_frac (mt_d m) i
      else Ok (Fin 0))"

definition meter_get_str :: "meter \<Rightarrow> nat \<Rightarrow> string res" where
  "meter_get_str m i =
     (if mt_count m \<ge> SZ_EMPTY_VAL then Ok ''''
      else if mt_d m = NoData then Ok ''''
      else if i < elems (mt_count m) \<and> meter_type m = MTYPE_STR then load_str (mt_d m) i
      else Ok '''')"

definition meter_setcount :: "time_t \<Rightarrow> meter \<Rightarrow> nat \<Rightarrow> meter res" where
  "meter_setcount lm m count =
     (let cnt = elems count in
      if cnt > SZ_EMPTY_ARRAY then Fault AssertFail
      else if cnt \<ge> SZ_EMPTY_VAL then
        Ok (m\<lparr>mt_count := count, mt_lastmodified := lm, mt_d := NoData\<rparr>)
      else
        let m = m\<lparr>mt_count := count, mt_lastmodified := lm\<rparr> in
        if meter_type m = MTYPE_INT \<or> meter_type m = MTYPE_FRAC
        then Ok (m\<lparr>mt_d := Block (cnt * sizeof_u64) Zeroed\<rparr>)
        else if meter_type m = MTYPE_STR
        then Ok (m\<lparr>mt_d := Block (cnt * sizeof_fstring) Zeroed\<rparr>)
        else Ok (m\<lparr>mt_d := NoData, mt_count := SZ_EMPTY_VAL\<rparr>))"

definition meter_set_empty :: "time_t \<Rightarrow> meter \<Rightarrow> meter res" where
  "meter_set_empty lm m = meter_setcount lm m SZ_EMPTY_VAL"

definition meter_set_empty_array :: "time_t \<Rightarrow> meter \<Rightarrow> meter res" where
  "meter_set_empty_array lm m = meter_setcount lm m SZ_EMPTY_ARRAY"

definition meter_set_uint :: "time_t \<Rightarrow> meter \<Rightarrow> nat \<Rightarrow> u64 \<Rightarrow> meter res" where
  "meter_set_uint lm m i v =
     (if mt_count m \<ge> SZ_EMPTY_VAL then Ok m
      else if meter_type m = MTYPE_INT \<and> i < elems (mt_count m) then
        rbind (store_u64 (mt_d m) i v) (\<lambda>d. Ok (m\<lparr>mt_lastmodified := lm, mt_d := d\<rparr>))
      else Ok m)"

definition meter_set_frac :: "time_t \<Rightarrow> meter \<Rightarrow> nat \<Rightarrow> dbl \<Rightarrow> meter res" where
  "meter_set_frac lm m i v =
     (if mt_count m \<ge> SZ_EMPTY_VAL then Ok m
      else if meter_type m = MTYPE_FRAC \<and> i < elems (mt_count m) then
        rbind (store_frac (mt_d m) i v) (\<lambda>d. Ok (m\<lparr>mt_lastmodified := lm, mt_d := d\<rparr>))
      else Ok m)"

definition meter_set_str :: "time_t \<Rightarrow> meter \<Rightarrow> nat \<Rightarrow> string \<Rightarrow> meter res" where
  "meter_set_str lm m i v =
     (if mt_count m \<ge> SZ_EMPTY_VAL then Ok m
      else if meter_type m = MTYPE_STR \<and> i < elems (mt_count m) then
        rbind (store_str (mt_d m) i v) (\<lambda>d. Ok (m\<lparr>mt_lastmodified := lm, mt_d := d\<rparr>))
      else Ok m)"

text \<open>The meters after \<open>m\<close> in its list; the result is the first with the same path prefix.\<close>

fun next_sibling_loop :: "u64 \<Rightarrow> u64 \<Rightarrow> meter list \<Rightarrow> meter option" where
  "next_sibling_loop msk ident [] = None"
| "next_sibling_loop msk ident (c # crsr) =
     (if mt_id c AND msk = ident AND msk then Some c else next_sibling_loop msk ident crsr)"

definition meter_next_sibling :: "meter \<Rightarrow> meter list \<Rightarrow> meter option" where
  "meter_next_sibling m after =
     (let msk = idhaspath (mt_id m) in if msk = 0 then None else next_sibling_loop msk (mt_id m) after)"

subsection \<open>The invariant\<close>

text \<open>
  The block of a meter with a value holds as many elements of its type as the count says,
  and what was stored in it was stored at that type; a meter without a value has no block.
\<close>

fun cells_fit :: "u64 \<Rightarrow> nat \<Rightarrow> cells \<Rightarrow> bool" where
  "cells_fit tp sz Zeroed \<longleftrightarrow> True"
| "cells_fit tp sz (U64s xs) \<longleftrightarrow> tp = MTYPE_INT \<and> length xs = sz div sizeof_u64"
| "cells_fit tp sz (Fracs xs) \<longleftrightarrow> tp = MTYPE_FRAC \<and> length xs = sz div sizeof_u64"
| "cells_fit tp sz (Strs xs) \<longleftrightarrow> tp = MTYPE_STR \<and> length xs = sz div sizeof_fstring \<and>
     list_all (\<lambda>s. cstr s \<and> length s \<le> 127) xs"

definition elem_size :: "u64 \<Rightarrow> nat" where
  "elem_size tp = (if tp = MTYPE_STR then sizeof_fstring else sizeof_u64)"

definition meter_ok :: "meter \<Rightarrow> bool" where
  "meter_ok m \<longleftrightarrow>
     (if mt_count m \<ge> SZ_EMPTY_VAL then mt_d m = NoData
      else meter_type m \<in> {MTYPE_INT, MTYPE_FRAC, MTYPE_STR} \<and>
           (case mt_d m of NoData \<Rightarrow> False
            | Block sz c \<Rightarrow> elems (mt_count m) * elem_size (meter_type m) \<le> sz \<and> cells_fit (meter_type m) sz c))"

lemma types_distinct [simp]:
  "MTYPE_INT \<noteq> MTYPE_FRAC" "MTYPE_INT \<noteq> MTYPE_STR" "MTYPE_FRAC \<noteq> MTYPE_STR"
  "MTYPE_FRAC \<noteq> MTYPE_INT" "MTYPE_STR \<noteq> MTYPE_INT" "MTYPE_STR \<noteq> MTYPE_FRAC"
  by (simp_all add: mask_defs)

lemma elems_pos [simp]: "0 < elems n"
  by (simp add: elems_def)

lemma meter_alloc_ok [inv_intro]: "meter_ok (meter_alloc ident)"
  by (simp add: meter_ok_def meter_alloc_def)

lemma meter_setcount_total: "count \<le> SZ_EMPTY_ARRAY \<Longrightarrow> \<exists>m'. meter_setcount lm m count = Ok m'"
  by (auto simp: meter_setcount_def elems_def sz_defs Let_def)

lemma meter_setcount_ok [inv_intro]:
  "meter_setcount lm m count = Ok m' \<Longrightarrow> meter_ok m'"
  by (auto simp: meter_setcount_def meter_ok_def meter_type_def elem_size_def elems_def sz_defs Let_def split: if_splits)

lemma meter_setcount_frame [frame]:
  "meter_setcount lm m count = Ok m' \<Longrightarrow> mt_id m' = mt_id m \<and> mt_badness m' = mt_badness m \<and> mt_lastmodified m' = lm"
  by (auto simp: meter_setcount_def Let_def split: if_splits)

lemma block_room:
  assumes "meter_ok m" "mt_count m < SZ_EMPTY_VAL" "i < elems (mt_count m)"
  obtains sz c where "mt_d m = Block sz c" "Suc i * elem_size (meter_type m) \<le> sz" "cells_fit (meter_type m) sz c"
proof -
  obtain sz c where b: "mt_d m = Block sz c" "elems (mt_count m) * elem_size (meter_type m) \<le> sz"
      "cells_fit (meter_type m) sz c"
    using assms(1,2) unfolding meter_ok_def by (auto split: mdata.splits)
  have "Suc i * elem_size (meter_type m) \<le> elems (mt_count m) * elem_size (meter_type m)"
    using assms(3) by (intro mult_right_mono) auto
  from order_trans[OF this b(2)] show ?thesis by (rule that[OF b(1) _ b(3)])
qed

text \<open>On a well-formed meter no accessor faults.\<close>

lemma load_total:
  assumes "meter_ok m" "mt_count m < SZ_EMPTY_VAL" "i < elems (mt_count m)"
  shows "meter_type m = MTYPE_INT \<Longrightarrow> \<exists>v. load_u64 (mt_d m) i = Ok v"
    "meter_type m = MTYPE_FRAC \<Longrightarrow> \<exists>v. load_frac (mt_d m) i = Ok v"
    "meter_type m = MTYPE_STR \<Longrightarrow> \<exists>v. load_str (mt_d m) i = Ok v"
proof -
  obtain sz c where b: "mt_d m = Block sz c" "Suc i * elem_size (meter_type m) \<le> sz" "cells_fit (meter_type m) sz c"
    by (rule block_room[OF assms])
  show "meter_type m = MTYPE_INT \<Longrightarrow> \<exists>v. load_u64 (mt_d m) i = Ok v"
    "meter_type m = MTYPE_FRAC \<Longrightarrow> \<exists>v. load_frac (mt_d m) i = Ok v"
    "meter_type m = MTYPE_STR \<Longrightarrow> \<exists>v. load_str (mt_d m) i = Ok v"
    using b by (cases c; simp add: elem_size_def)+
qed

lemma meter_get_total:
  assumes "meter_ok m"
  shows "\<exists>v. meter_get_uint m i = Ok v" "\<exists>v. meter_get_frac m i = Ok v" "\<exists>v. meter_get_str m i = Ok v"
  using load_total[OF assms, of i]
  by (simp_all add: meter_get_uint_def meter_get_frac_def meter_get_str_def not_le)

lemma list_all_update: "list_all P xs \<Longrightarrow> P x \<Longrightarrow> list_all P (xs[k := x])"
  by (auto simp: list_all_iff dest!: set_update_subset_insert[THEN subsetD])

text \<open>A store within the block succeeds and leaves its size and the type of its elements.\<close>

lemma store_u64_fit:
  assumes "cells_fit MTYPE_INT sz c" "Suc i * sizeof_u64 \<le> sz"
  shows "\<exists>c'. store_u64 (Block sz c) i v = Ok (Block sz c') \<and> cells_fit MTYPE_INT sz c'"
  using assms by (cases c) (simp_all add: not_less[symmetric])

lemma store_frac_fit:
  assumes "cells_fit MTYPE_FRAC sz c" "Suc i * sizeof_u64 \<le> sz"
  shows "\<exists>c'. store_frac (Block sz c) i v = Ok (Block sz c') \<and> cells_fit MTYPE_FRAC sz c'"
  using assms by (cases c) (simp_all add: not_less[symmetric])

lemma store_str_fit:
  assumes "cells_fit MTYPE_STR sz c" "Suc i * sizeof_fstring \<le> sz"
  shows "\<exists>c'. store_str (Block sz c) i v = Ok (Block sz c') \<and> cells_fit MTYPE_STR sz c'"
proof -
  let ?P = "\<lambda>s. cstr s \<and> length s \<le> 127"
  have new: "list_all ?P (xs[i := c_truncate 127 v])" if "list_all ?P xs" for xs
    using list_all_update[OF that, of "c_truncate 127 v" i] c_truncate_cstr[of 127 v] c_truncate_length[of 127 v] by blast
  have zero: "list_all ?P (replicate n '''')" for n
    by (simp add: list_all_iff cstr_def)
  have fits: "\<not> Suc i * sizeof_fstring > sz" using assms(2) by simp
  show ?thesis
  proof (cases c)
    case Zeroed
    then show ?thesis using fits new[OF zero] by (simp del: mult_Suc)
  next
    case (Strs xs)
    then show ?thesis using fits new[of xs] assms(1) by (simp del: mult_Suc)
  qed (use assms(1) in simp_all)
qed

lemma meter_ok_block:
  "meter_ok (m\<lparr>mt_lastmodified := lm, mt_d := Block sz c\<rparr>)"
  if "mt_count m < SZ_EMPTY_VAL" "meter_type m \<in> {MTYPE_INT, MTYPE_FRAC, MTYPE_STR}"
    "elems (mt_count m) * elem_size (meter_type m) \<le> sz" "cells_fit (meter_type m) sz c"
proof -
  have "meter_type (m\<lparr>mt_lastmodified := lm, mt_d := Block sz c\<rparr>) = meter_type m" by (simp add: meter_type_def)
  then show ?thesis using that unfolding meter_ok_def by (simp del: insert_iff)
qed

lemma store_total:
  assumes "meter_ok m" "mt_count m < SZ_EMPTY_VAL" "i < elems (mt_count m)"
  shows "meter_type m = MTYPE_INT \<Longrightarrow> \<exists>d. store_u64 (mt_d m) i u = Ok d \<and> meter_ok (m\<lparr>mt_lastmodified := lm, mt_d := d\<rparr>)"
    "meter_type m = MTYPE_FRAC \<Longrightarrow> \<exists>d. store_frac (mt_d m) i f = Ok d \<and> meter_ok (m\<lparr>mt_lastmodified := lm, mt_d := d\<rparr>)"
    "meter_type m = MTYPE_STR \<Longrightarrow> \<exists>d. store_str (mt_d m) i s = Ok d \<and> meter_ok (m\<lparr>mt_lastmodified := lm, mt_d := d\<rparr>)"
proof -
  obtain sz c where b: "mt_d m = Block sz c" "Suc i * elem_size (meter_type m) \<le> sz" "cells_fit (meter_type m) sz c"
    by (rule block_room[OF assms])
  have e: "elems (mt_count m) * elem_size (meter_type m) \<le> sz" using assms(1,2) b(1) by (simp add: meter_ok_def)
  show "\<exists>d. store_u64 (mt_d m) i u = Ok d \<and> meter_ok (m\<lparr>mt_lastmodified := lm, mt_d := d\<rparr>)" if t: "meter_type m = MTYPE_INT"
  proof -
    have "Suc i * sizeof_u64 \<le> sz" using b(2) t by (simp add: elem_size_def)
    from store_u64_fit[OF b(3)[unfolded t] this, of u] obtain c' where
      c: "store_u64 (Block sz c) i u = Ok (Block sz c')" "cells_fit MTYPE_INT sz c'" by blast
    have "meter_ok (m\<lparr>mt_lastmodified := lm, mt_d := Block sz c'\<rparr>)"
      by (rule meter_ok_block[OF assms(2) _ e]) (simp_all add: t c(2))
    then show ?thesis using b(1) c(1) by auto
  qed
  show "\<exists>d. store_frac (mt_d m) i f = Ok d \<and> meter_ok (m\<lparr>mt_lastmodified := lm, mt_d := d\<rparr>)" if t: "meter_type m = MTYPE_FRAC"
  proof -
    have "Suc i * sizeof_u64 \<le> sz" using b(2) t by (simp add: elem_size_def)
    from store_frac_fit[OF b(3)[unfolded t] this, of f] obtain c' where
      c: "store_frac (Block sz c) i f = Ok (Block sz c')" "cells_fit MTYPE_FRAC sz c'" by blast
    have "meter_ok (m\<lparr>mt_lastmodified := lm, mt_d := Block sz c'\<rparr>)"
      by (rule meter_ok_block[OF assms(2) _ e]) (simp_all add: t c(2))
    then show ?thesis using b(1) c(1) by auto
  qed
  show "\<exists>d. store_str (mt_d m) i s = Ok d \<and> meter_ok (m\<lparr>mt_lastmodified := lm, mt_d := d\<rparr>)" if t: "meter_type m = MTYPE_STR"
  proof -
    have "Suc i * sizeof_fstring \<le> sz" using b(2) t by (simp add: elem_size_def)
    from store_str_fit[OF b(3)[unfolded t] this, of s] obtain c' where
      c: "store_str (Block sz c) i s = Ok (Block sz c')" "cells_fit MTYPE_STR sz c'" by blast
    have "meter_ok (m\<lparr>mt_lastmodified := lm, mt_d := Block sz c'\<rparr>)"
      by (rule meter_ok_block[OF assms(2) _ e]) (simp_all add: t c(2))
    then show ?thesis using b(1) c(1) by auto
  qed
qed

lemma meter_set_ok [inv_intro]:
  assumes "meter_ok m"
  shows "\<exists>m'. meter_set_uint lm m i u = Ok m' \<and> meter_ok m' \<and> mt_id m' = mt_id m \<and> mt_count m' = mt_count m"
    "\<exists>m'. meter_set_frac lm m i f = Ok m' \<and> meter_ok m' \<and> mt_id m' = mt_id m \<and> mt_count m' = mt_count m"
    "\<exists>m'. meter_set_str lm m i s = Ok m' \<and> meter_ok m' \<and> mt_id m' = mt_id m \<and> mt_count m' = mt_count m"
proof -
  show "\<exists>m'. meter_set_uint lm m i u = Ok m' \<and> meter_ok m' \<and> mt_id m' = mt_id m \<and> mt_count m' = mt_count m"
    using store_total(1)[OF assms, of i u lm] assms unfolding meter_set_uint_def
    by (cases "mt_count m < SZ_EMPTY_VAL \<and> meter_type m = MTYPE_INT \<and> i < elems (mt_count m)") auto
  show "\<exists>m'. meter_set_frac lm m i f = Ok m' \<and> meter_ok m' \<and> mt_id m' = mt_id m \<and> mt_count m' = mt_count m"
    using store_total(2)[OF assms, of i f lm] assms unfolding meter_set_frac_def
    by (cases "mt_count m < SZ_EMPTY_VAL \<and> meter_type m = MTYPE_FRAC \<and> i < elems (mt_count m)") auto
  show "\<exists>m'. meter_set_str lm m i s = Ok m' \<and> meter_ok m' \<and> mt_id m' = mt_id m \<and> mt_count m' = mt_count m"
    using store_total(3)[OF assms, of i s lm] assms unfolding meter_set_str_def
    by (cases "mt_count m < SZ_EMPTY_VAL \<and> meter_type m = MTYPE_STR \<and> i < elems (mt_count m)") auto
qed

end
