(* ===== verification/Registry.thy ===== *)
theory Registry
  imports Prelude
begin

text \<open>Lists searched by key: the search loop and the contract of the lists built on it.\<close>

subsection \<open>Search in a list\<close>

text \<open>The loops that walk a linked list to its first match; a pointer into it is an index.\<close>

fun find_index :: "('a \<Rightarrow> bool) \<Rightarrow> 'a list \<Rightarrow> nat option" where
  "find_index P [] = None"
| "find_index P (x # xs) = (if P x then Some 0 else map_option Suc (find_index P xs))"

lemma find_index_None: "find_index P xs = None \<longleftrightarrow> (\<forall>x\<in>set xs. \<not> P x)"
  by (induction xs) auto

lemma find_index_Some:
  "find_index P xs = Some i \<longleftrightarrow> i < length xs \<and> P (xs ! i) \<and> (\<forall>j<i. \<not> P (xs ! j))"
proof (induction xs arbitrary: i)
  case (Cons x xs)
  show ?case
  proof (cases i)
    case (Suc j)
    then show ?thesis using Cons.IH[of j] by (auto simp: All_less_Suc2)
  qed auto
qed simp

lemma find_index_append:
  "find_index P (xs @ ys) =
     (case find_index P xs of Some i \<Rightarrow> Some i | None \<Rightarrow> map_option ((+) (length xs)) (find_index P ys))"
  by (induction xs) (auto split: option.splits simp: option.map_comp comp_def plus_nat.simps(1)[abs_def] option.map_ident intro!: option.map_cong)

lemma find_index_cong: "(\<And>x. x \<in> set xs \<Longrightarrow> P x = Q x) \<Longrightarrow> find_index P xs = find_index Q xs"
  by (induction xs) auto

subsection \<open>The contract\<close>

text \<open>
  The contract of a keyed list with a \<^verbatim>\<open>find\<close> and a find-or-create \<^verbatim>\<open>get\<close>, which several
  components implement (adjustments, sessions, tenants and their hosts): \<open>key\<close> is what the
  code compares in an entry and \<open>kof\<close> what it compares it with.
\<close>

locale registry =
  fixes look :: "'a list \<Rightarrow> 'k \<Rightarrow> nat option"
    and get :: "'a list \<Rightarrow> 'k \<Rightarrow> 'a list \<times> nat"
    and key :: "'a \<Rightarrow> 'c"
    and kof :: "'k \<Rightarrow> 'c"
  assumes find_hit: "look xs k = Some i \<Longrightarrow> i < length xs \<and> key (xs ! i) = kof k"
    and find_miss: "look xs k = None \<longleftrightarrow> kof k \<notin> key ` set xs"
    and get_hit: "look xs k = Some i \<Longrightarrow> get xs k = (xs, i)"
    and get_miss: "look xs k = None \<Longrightarrow> \<exists>x. key x = kof k \<and> get xs k = (xs @ [x], length xs)"
begin

lemma get_entry: "get xs k = (ys, i) \<Longrightarrow> i < length ys \<and> key (ys ! i) = kof k"
  using find_hit[of xs k] get_hit[of xs k] get_miss[of xs k] by (cases "look xs k") auto

lemma get_prefix: "get xs k = (ys, i) \<Longrightarrow> take (length xs) ys = xs"
  using get_hit[of xs k] get_miss[of xs k] by (cases "look xs k") auto

lemma get_keys: "get xs k = (ys, i) \<Longrightarrow> key ` set ys = insert (kof k) (key ` set xs)"
proof (cases "look xs k")
  case (Some j)
  assume "get xs k = (ys, i)"
  moreover have "kof k \<in> key ` set xs" using find_hit[OF Some] by (metis image_eqI nth_mem)
  ultimately show ?thesis using get_hit[OF Some] by (simp add: insert_absorb)
qed (use get_miss[of xs k] in auto)

lemma get_distinct: "distinct (map key xs) \<Longrightarrow> get xs k = (ys, i) \<Longrightarrow> distinct (map key ys)"
  using find_miss[of xs k] get_hit[of xs k] get_miss[of xs k] by (cases "look xs k") auto

lemma find_unique:
  assumes "distinct (map key xs)" "j < length xs" "key (xs ! j) = kof k"
  shows "look xs k = Some j"
proof (cases "look xs k")
  case None
  then show ?thesis using find_miss[of xs k] assms(2,3) by (metis image_eqI nth_mem)
next
  case (Some i)
  then show ?thesis using find_hit[OF Some] assms
    by (metis (no_types, lifting) distinct_conv_nth length_map nth_map)
qed

lemma find_get: "distinct (map key xs) \<Longrightarrow> get xs k = (ys, i) \<Longrightarrow> look ys k = Some i"
  using find_unique[OF get_distinct] get_entry by metis

lemma get_get:
  assumes "distinct (map key xs)" "get xs k = (ys, i)"
  shows "get ys k = (ys, i)"
  using find_get[OF assms] get_hit by blast

lemma find_other:
  assumes "distinct (map key xs)" "get xs k = (ys, i)" "look xs k' = Some j"
  shows "look ys k' = Some j"
proof (rule find_unique)
  show "distinct (map key ys)" using assms(1,2) by (rule get_distinct)
  have t: "take (length xs) ys = xs" using assms(2) by (rule get_prefix)
  have j: "j < length xs" "key (xs ! j) = kof k'" using find_hit[OF assms(3)] by auto
  have "length xs \<le> length ys" using t by (metis length_take min.cobounded1)
  then show "j < length ys" using j by simp
  show "key (ys ! j) = kof k'" using j t by (metis nth_take)
qed

end

text \<open>The implementations search with \<open>find_index\<close> and append.\<close>

lemma registry_find_index:
  assumes f: "\<And>xs k. look xs k = find_index (\<lambda>x. key x = kof k) xs"
    and g: "\<And>xs k. get xs k = (case look xs k of Some i \<Rightarrow> (xs, i) | None \<Rightarrow> (xs @ [new k], length xs))"
    and n: "\<And>k. key (new k) = kof k"
  shows "registry look get key kof"
proof
  show "look xs k = Some i \<Longrightarrow> i < length xs \<and> key (xs ! i) = kof k" for xs k i
    by (simp add: f find_index_Some)
  show "look xs k = None \<longleftrightarrow> kof k \<notin> key ` set xs" for xs k
    unfolding f find_index_None by (auto simp: image_iff)
  show "look xs k = Some i \<Longrightarrow> get xs k = (xs, i)" for xs k i by (simp add: g)
  show "look xs k = None \<Longrightarrow> \<exists>x. key x = kof k \<and> get xs k = (xs @ [x], length xs)" for xs k
    by (auto simp: g n)
qed

end
