(* ===== verification/Watch.thy ===== *)
theory Watch
  imports Meter Registry
begin

text \<open>
  \<^verbatim>\<open>libopticon/adjust.c\<close> and \<^verbatim>\<open>libopticon/watchlist.c\<close>: the watch definitions that turn a
  meter's value into badness, their adjustments per host, and the graph targets. The doubly
  linked lists are HOL lists in link order (their pointer operations are in \<open>Dll\<close>); a
  pointer into a list is an index. The mutex of a graph list is the flag \<open>gl_locked\<close>, since
  its iterator holds it between calls; the short critical sections are atomic operations.
\<close>

subsection \<open>Types\<close>

datatype watchtype = WATCH_FRAC_LT | WATCH_FRAC_GT | WATCH_UINT_LT | WATCH_UINT_GT | WATCH_STR_MATCH | WATCH_COUNT

datatype watchadjusttype = WATCHADJUST_NONE | WATCHADJUST_FRAC | WATCHADJUST_UINT | WATCHADJUST_STR

datatype watchtrigger = WATCH_NONE | WATCH_WARN | WATCH_ALERT | WATCH_CRIT

primrec trigger_num :: "watchtrigger \<Rightarrow> nat" where
  "trigger_num WATCH_NONE = 0"
| "trigger_num WATCH_WARN = 1"
| "trigger_num WATCH_ALERT = 2"
| "trigger_num WATCH_CRIT = 3"

instantiation watchtrigger :: linorder
begin

definition less_eq_watchtrigger :: "watchtrigger \<Rightarrow> watchtrigger \<Rightarrow> bool" where
  "a \<le> b \<longleftrightarrow> trigger_num a \<le> trigger_num b"

definition less_watchtrigger :: "watchtrigger \<Rightarrow> watchtrigger \<Rightarrow> bool" where
  "a < b \<longleftrightarrow> trigger_num a < trigger_num b"

instance
proof
  fix a b :: watchtrigger
  show "a \<le> b \<Longrightarrow> b \<le> a \<Longrightarrow> a = b"
    by (cases a; cases b) (simp_all add: less_eq_watchtrigger_def)
qed (auto simp: less_eq_watchtrigger_def less_watchtrigger_def)

end

lemmas trigger_order = less_eq_watchtrigger_def less_watchtrigger_def

text \<open>The union of the match values: \<open>WZero\<close> is its state after \<^verbatim>\<open>calloc\<close>.\<close>

datatype watchdata = WZero | WU64 u64 | WFrac dbl | WStr string

fun wd_u64 :: "watchdata \<Rightarrow> u64 res" where
  "wd_u64 WZero = Ok 0"
| "wd_u64 (WU64 v) = Ok v"
| "wd_u64 _ = Fault TypePun"

fun wd_frac :: "watchdata \<Rightarrow> dbl res" where
  "wd_frac WZero = Ok (Fin 0)"
| "wd_frac (WFrac v) = Ok v"
| "wd_frac _ = Fault TypePun"

fun wd_str :: "watchdata \<Rightarrow> string res" where
  "wd_str WZero = Ok ''''"
| "wd_str (WStr v) = Ok v"
| "wd_str _ = Fault TypePun"

record adjustdata =
  ad_data :: watchdata
  ad_weight :: rat

record watchadjust =
  wa_type :: watchadjusttype
  wa_id :: u64
  wa_adjust :: "adjustdata list"

type_synonym adjustlist = "watchadjust list"

record meterwatch =
  mw_trigger :: watchtrigger
  mw_id :: u64
  mw_tp :: watchtype
  mw_dat :: watchdata
  mw_badness :: rat

type_synonym watchlist = "meterwatch list"

record graphtarget =
  gt_id :: u64
  gt_graph :: "string option"
  gt_datum :: "string option"
  gt_title :: "string option"
  gt_unit :: "string option"
  gt_color :: "string option"
  gt_max :: rat

record graphlist =
  gl_targets :: "graphtarget list"
  gl_locked :: bool

subsection \<open>Adjustments\<close>

definition adjustlist_init :: adjustlist where "adjustlist_init = []"

definition adjustlist_clear :: "adjustlist \<Rightarrow> adjustlist" where "adjustlist_clear self = []"

definition adjustlist_find :: "adjustlist \<Rightarrow> u64 \<Rightarrow> nat option" where
  "adjustlist_find self ident = find_index (\<lambda>w. wa_id w AND MMASK_NAME = ident AND MMASK_NAME) self"

definition watchadjust_new :: "u64 \<Rightarrow> watchadjust" where
  "watchadjust_new ident = \<lparr>wa_type = WATCHADJUST_NONE, wa_id = ident AND MMASK_NAME,
     wa_adjust = replicate 4 \<lparr>ad_data = WZero, ad_weight = 0\<rparr>\<rparr>"

definition adjustlist_get :: "adjustlist \<Rightarrow> u64 \<Rightarrow> adjustlist \<times> nat" where
  "adjustlist_get self ident =
     (case adjustlist_find self ident of
        Some k \<Rightarrow> (self, k)
      | None \<Rightarrow> (self @ [watchadjust_new ident], length self))"

subsection \<open>Watch lists\<close>

definition watchlist_add :: "watchlist \<Rightarrow> meterwatch \<Rightarrow> watchlist" where
  "watchlist_add self m = self @ [m]"

definition watchlist_add_uint :: "watchlist \<Rightarrow> u64 \<Rightarrow> watchtype \<Rightarrow> u64 \<Rightarrow> rat \<Rightarrow> watchtrigger \<Rightarrow> watchlist" where
  "watchlist_add_uint self ident tp v bad trig = watchlist_add self
     \<lparr>mw_trigger = trig, mw_id = ident, mw_tp = tp, mw_dat = WU64 v, mw_badness = bad\<rparr>"

definition watchlist_add_frac :: "watchlist \<Rightarrow> u64 \<Rightarrow> watchtype \<Rightarrow> dbl \<Rightarrow> rat \<Rightarrow> watchtrigger \<Rightarrow> watchlist" where
  "watchlist_add_frac self ident tp v bad trig = watchlist_add self
     \<lparr>mw_trigger = trig, mw_id = ident, mw_tp = tp, mw_dat = WFrac v, mw_badness = bad\<rparr>"

definition watchlist_add_str :: "watchlist \<Rightarrow> u64 \<Rightarrow> watchtype \<Rightarrow> string \<Rightarrow> rat \<Rightarrow> watchtrigger \<Rightarrow> watchlist" where
  "watchlist_add_str self ident tp v bad trig = watchlist_add self
     \<lparr>mw_trigger = trig, mw_id = ident, mw_tp = tp, mw_dat = WStr (c_truncate 127 v), mw_badness = bad\<rparr>"

definition watchlist_clear :: "watchlist \<Rightarrow> watchlist" where "watchlist_clear self = []"

subsection \<open>Graph lists\<close>

definition graphlist_create :: graphlist where
  "graphlist_create = \<lparr>gl_targets = [], gl_locked = False\<rparr>"

definition graphlist_clear :: "graphlist \<Rightarrow> graphlist" where
  "graphlist_clear self = self\<lparr>gl_targets := []\<rparr>"

definition graphlist_add ::
  "graphlist \<Rightarrow> u64 \<Rightarrow> string option \<Rightarrow> string option \<Rightarrow> string option \<Rightarrow> string option \<Rightarrow> string option \<Rightarrow> rat \<Rightarrow> graphlist" where
  "graphlist_add self ident graph datum title unit color mx =
     self\<lparr>gl_targets := gl_targets self @
       [\<lparr>gt_id = ident, gt_graph = graph, gt_datum = datum, gt_title = title, gt_unit = unit,
         gt_color = color, gt_max = mx\<rparr>]\<rparr>"

definition graphlist_begin :: "graphlist \<Rightarrow> graphlist \<times> nat option" where
  "graphlist_begin self =
     (if gl_targets self = [] then (self, None) else (self\<lparr>gl_locked := True\<rparr>, Some 0))"

definition graphlist_next :: "graphlist \<Rightarrow> nat \<Rightarrow> graphlist \<times> nat option" where
  "graphlist_next self node =
     (if \<not> Suc node < length (gl_targets self) then (self\<lparr>gl_locked := False\<rparr>, None)
      else (self, Some (Suc node)))"

definition graphlist_break :: "graphlist \<Rightarrow> graphlist" where
  "graphlist_break self = self\<lparr>gl_locked := False\<rparr>"

subsection \<open>Badness of a meter\<close>

text \<open>The adjusted value of a watch at its trigger level, when the host has one.\<close>

definition adjusted :: "watchadjust option \<Rightarrow> watchadjusttype \<Rightarrow> watchtrigger \<Rightarrow> watchdata \<Rightarrow> watchdata" where
  "adjusted adj tp trig dat =
     (case adj of
        None \<Rightarrow> dat
      | Some a \<Rightarrow>
          if wa_type a = tp \<and> ad_weight (wa_adjust a ! trigger_num trig) > rnd (1 / 10000)
          then ad_data (wa_adjust a ! trigger_num trig) else dat)"

text \<open>The comparison of one element, per type of watch; \<open>cnt\<close> is the number of elements.\<close>

fun watch_matches :: "watchtype \<Rightarrow> meter \<Rightarrow> meterwatch \<Rightarrow> watchadjust option \<Rightarrow> nat \<Rightarrow> nat \<Rightarrow> bool res" where
  "watch_matches WATCH_FRAC_GT m w adj cnt i =
     rbind (wd_frac (adjusted adj WATCHADJUST_FRAC (mw_trigger w) (mw_dat w))) (\<lambda>fracadj.
     rbind (meter_get_frac m i) (\<lambda>v. Ok (dbl_less fracadj v)))"
| "watch_matches WATCH_FRAC_LT m w adj cnt i =
     rbind (wd_frac (adjusted adj WATCHADJUST_FRAC (mw_trigger w) (mw_dat w))) (\<lambda>fracadj.
     rbind (meter_get_frac m i) (\<lambda>v. Ok (dbl_less v fracadj)))"
| "watch_matches WATCH_UINT_GT m w adj cnt i =
     rbind (wd_u64 (adjusted adj WATCHADJUST_UINT (mw_trigger w) (mw_dat w))) (\<lambda>intadj.
     rbind (meter_get_uint m i) (\<lambda>v. Ok (v > intadj)))"
| "watch_matches WATCH_UINT_LT m w adj cnt i =
     rbind (wd_u64 (adjusted adj WATCHADJUST_UINT (mw_trigger w) (mw_dat w))) (\<lambda>intadj.
     rbind (meter_get_uint m i) (\<lambda>v. Ok (v < intadj)))"
| "watch_matches WATCH_COUNT m w adj cnt i =
     rbind (wd_u64 (adjusted adj WATCHADJUST_UINT (mw_trigger w) (mw_dat w))) (\<lambda>intadj.
     Ok (of_nat cnt \<ge> intadj))"
| "watch_matches WATCH_STR_MATCH m w adj cnt i =
     rbind (wd_str (adjusted adj WATCHADJUST_STR (mw_trigger w) (mw_dat w))) (\<lambda>stradj.
     rbind (meter_get_str m i) (\<lambda>v. Ok (v = stradj)))"

definition badness_step ::
  "meter \<Rightarrow> meterwatch \<Rightarrow> watchadjust option \<Rightarrow> nat \<Rightarrow> nat \<Rightarrow> rat \<times> watchtrigger \<Rightarrow> (rat \<times> watchtrigger) res" where
  "badness_step m w adj cnt i st =
     rbind (watch_matches (mw_tp w) m w adj cnt i) (\<lambda>hit.
       Ok (if hit then (rnd (fst st + mw_badness w), if mw_trigger w > snd st then mw_trigger w else snd st)
           else st))"

fun badness_loop ::
  "meter \<Rightarrow> meterwatch \<Rightarrow> watchadjust option \<Rightarrow> nat \<Rightarrow> nat list \<Rightarrow> rat \<times> watchtrigger \<Rightarrow> (rat \<times> watchtrigger) res" where
  "badness_loop m w adj cnt [] st = Ok st"
| "badness_loop m w adj cnt (i # is) st =
     rbind (badness_step m w adj cnt i st) (badness_loop m w adj cnt is)"

definition calculate_badness ::
  "meter \<Rightarrow> meterwatch \<Rightarrow> watchadjust option \<Rightarrow> watchtrigger \<Rightarrow> (rat \<times> watchtrigger) res" where
  "calculate_badness m w adj maxtrig =
     (let cnt = (if mt_count m \<ge> SZ_EMPTY_ARRAY then 0 else elems (mt_count m))
      in badness_loop m w adj cnt [0..<elems (mt_count m)] (0, maxtrig))"

subsection \<open>Adjustment lists are a registry\<close>

interpretation adj: registry adjustlist_find adjustlist_get
    "\<lambda>w. wa_id w AND MMASK_NAME" "\<lambda>ident. ident AND MMASK_NAME"
  by (rule registry_find_index[where new = watchadjust_new])
    (simp_all add: adjustlist_find_def adjustlist_get_def watchadjust_new_def and.assoc)

subsection \<open>What badness counts\<close>

text \<open>The match value of a watch and of its adjustments is stored at the type its comparison reads.\<close>

definition dat_fits :: "watchadjusttype \<Rightarrow> watchdata \<Rightarrow> bool" where
  "dat_fits tp d \<longleftrightarrow> (case d of WZero \<Rightarrow> True | WU64 _ \<Rightarrow> tp = WATCHADJUST_UINT
     | WFrac _ \<Rightarrow> tp = WATCHADJUST_FRAC | WStr _ \<Rightarrow> tp = WATCHADJUST_STR)"

fun watch_adjtype :: "watchtype \<Rightarrow> watchadjusttype" where
  "watch_adjtype WATCH_FRAC_GT = WATCHADJUST_FRAC"
| "watch_adjtype WATCH_FRAC_LT = WATCHADJUST_FRAC"
| "watch_adjtype WATCH_STR_MATCH = WATCHADJUST_STR"
| "watch_adjtype _ = WATCHADJUST_UINT"

definition watch_ok :: "meterwatch \<Rightarrow> bool" where
  "watch_ok w \<longleftrightarrow> dat_fits (watch_adjtype (mw_tp w)) (mw_dat w)"

definition adjust_ok :: "watchadjust \<Rightarrow> bool" where
  "adjust_ok a \<longleftrightarrow> length (wa_adjust a) = 4 \<and> list_all (\<lambda>d. dat_fits (wa_type a) (ad_data d)) (wa_adjust a)"

lemma trigger_num_less: "trigger_num t < 4"
  by (cases t) simp_all

lemma wd_total:
  "dat_fits WATCHADJUST_UINT d \<Longrightarrow> \<exists>v. wd_u64 d = Ok v"
  "dat_fits WATCHADJUST_FRAC d \<Longrightarrow> \<exists>v. wd_frac d = Ok v"
  "dat_fits WATCHADJUST_STR d \<Longrightarrow> \<exists>v. wd_str d = Ok v"
  by (cases d; simp add: dat_fits_def)+

lemma adjusted_fits:
  assumes "dat_fits tp dat" "\<And>a. adj = Some a \<Longrightarrow> adjust_ok a"
  shows "dat_fits tp (adjusted adj tp trig dat)"
  using assms trigger_num_less[of trig]
  by (auto simp: adjusted_def adjust_ok_def list_all_length split: option.splits)

lemma watch_matches_total:
  assumes "meter_ok m" "watch_ok w" "\<And>a. adj = Some a \<Longrightarrow> adjust_ok a"
  shows "\<exists>b. watch_matches (mw_tp w) m w adj cnt i = Ok b"
proof -
  have f: "dat_fits (watch_adjtype (mw_tp w)) (adjusted adj (watch_adjtype (mw_tp w)) (mw_trigger w) (mw_dat w))"
    using assms(2,3) by (intro adjusted_fits) (auto simp: watch_ok_def)
  note g = meter_get_total[OF assms(1), of i]
  show ?thesis
  proof (cases "mw_tp w")
    case WATCH_FRAC_LT then show ?thesis using wd_total(2)[of "adjusted adj WATCHADJUST_FRAC (mw_trigger w) (mw_dat w)"] f g(2) by auto
  next
    case WATCH_FRAC_GT then show ?thesis using wd_total(2)[of "adjusted adj WATCHADJUST_FRAC (mw_trigger w) (mw_dat w)"] f g(2) by auto
  next
    case WATCH_UINT_LT then show ?thesis using wd_total(1)[of "adjusted adj WATCHADJUST_UINT (mw_trigger w) (mw_dat w)"] f g(1) by auto
  next
    case WATCH_UINT_GT then show ?thesis using wd_total(1)[of "adjusted adj WATCHADJUST_UINT (mw_trigger w) (mw_dat w)"] f g(1) by auto
  next
    case WATCH_STR_MATCH then show ?thesis using wd_total(3)[of "adjusted adj WATCHADJUST_STR (mw_trigger w) (mw_dat w)"] f g(3) by auto
  next
    case WATCH_COUNT then show ?thesis using wd_total(1)[of "adjusted adj WATCHADJUST_UINT (mw_trigger w) (mw_dat w)"] f by auto
  qed
qed

text \<open>\<open>badness_sum b n\<close> is \<open>b\<close> added \<open>n\<close> times in double arithmetic.\<close>

fun badness_sum :: "rat \<Rightarrow> nat \<Rightarrow> rat \<Rightarrow> rat" where
  "badness_sum b 0 r = r"
| "badness_sum b (Suc n) r = badness_sum b n (rnd (r + b))"

definition watch_hits :: "meter \<Rightarrow> meterwatch \<Rightarrow> watchadjust option \<Rightarrow> nat \<Rightarrow> nat list \<Rightarrow> nat list" where
  "watch_hits m w adj cnt is = filter (\<lambda>i. watch_matches (mw_tp w) m w adj cnt i = Ok True) is"

lemma raise_trigger: "(if (t' :: watchtrigger) > t then t' else t) = max t t'"
  by (auto simp: max_def)

lemma badness_loop_filter:
  assumes "\<And>i. watch_matches (mw_tp w) m w adj cnt i = Ok (hit i)"
  shows "badness_loop m w adj cnt is st =
    Ok (badness_sum (mw_badness w) (length (filter hit is)) (fst st),
        if filter hit is = [] then snd st else max (snd st) (mw_trigger w))"
  by (induction "is" arbitrary: st) (simp_all add: badness_step_def assms raise_trigger max.assoc)

lemma badness_loop_hits:
  assumes "meter_ok m" "watch_ok w" "\<And>a. adj = Some a \<Longrightarrow> adjust_ok a"
  shows "badness_loop m w adj cnt is st =
    Ok (badness_sum (mw_badness w) (length (watch_hits m w adj cnt is)) (fst st),
        if watch_hits m w adj cnt is = [] then snd st else max (snd st) (mw_trigger w))"
proof -
  have "watch_matches (mw_tp w) m w adj cnt i = Ok (watch_matches (mw_tp w) m w adj cnt i = Ok True)" for i
    using watch_matches_total[OF assms, where cnt = cnt and i = i] by (metis (full_types))
  from badness_loop_filter[OF this] show ?thesis by (simp add: watch_hits_def)
qed

lemma badness_sum_exact:
  assumes "\<bar>k\<bar> + int n * \<bar>b\<bar> \<le> 2 ^ 53"
  shows "badness_sum (of_int b) n (of_int k) = of_int (k + int n * b)"
  using assms
proof (induction n arbitrary: k)
  case (Suc n)
  have a: "\<bar>k\<bar> + \<bar>b\<bar> + int n * \<bar>b\<bar> \<le> 2 ^ 53" using Suc.prems by (simp add: algebra_simps)
  have "0 \<le> int n * \<bar>b\<bar>" by simp
  then have "\<bar>k + b\<bar> \<le> 2 ^ 53" "\<bar>k + b\<bar> + int n * \<bar>b\<bar> \<le> 2 ^ 53" using a by linarith+
  then show ?case using Suc.IH[of "k + b"] rnd_int[of "k + b"] by (simp add: algebra_simps)
qed simp

text \<open>
  On a well-formed meter with a watch and adjustment of fitting types,
  \<^verbatim>\<open>calculate_badness\<close> never faults: it adds the badness of the watch once for every
  element that matches, and raises the trigger to that of the watch when one does.
\<close>

theorem calculate_badness_counts:
  assumes "meter_ok m" "watch_ok w" "\<And>a. adj = Some a \<Longrightarrow> adjust_ok a"
    "cnt = (if mt_count m \<ge> SZ_EMPTY_ARRAY then 0 else elems (mt_count m))"
    "hits = watch_hits m w adj cnt [0..<elems (mt_count m)]"
  shows "calculate_badness m w adj maxtrig =
    Ok (badness_sum (mw_badness w) (length hits) 0, if hits = [] then maxtrig else max maxtrig (mw_trigger w))"
  unfolding calculate_badness_def Let_def using badness_loop_hits[OF assms(1-3)] assms(4,5) by simp

theorem calculate_badness_counts_witness:
  "\<exists>r. calculate_badness
     \<lparr>mt_id = MTYPE_INT, mt_count = 2, mt_badness = 0, mt_lastmodified = 0, mt_d = Block 16 (U64s [3, 7])\<rparr>
     \<lparr>mw_trigger = WATCH_WARN, mw_id = 0, mw_tp = WATCH_UINT_GT, mw_dat = WU64 5, mw_badness = 4\<rparr> None WATCH_NONE = Ok r"
  by (rule exI, rule calculate_badness_counts)
    (simp_all add: meter_ok_def watch_ok_def dat_fits_def sz_defs meter_type_def elems_def elem_size_def sizeof_defs mask_defs)

text \<open>
  A meter without a value is not skipped: its count field is the marker 31 (or 30), the
  loop runs that many times, and every round reads 0. An \<^verbatim>\<open>is less than\<close> watch on an empty
  array therefore adds its badness 31 times.
\<close>

theorem empty_array_counts_31_times:
  assumes "mt_count m = SZ_EMPTY_ARRAY" "mw_tp w = WATCH_UINT_LT" "mw_dat w = WU64 v" "0 < v"
    "mw_badness w = of_int b" "\<bar>b\<bar> \<le> 2 ^ 40"
  shows "calculate_badness m w None maxtrig = Ok (of_int (31 * b), max maxtrig (mw_trigger w))"
proof -
  have m: "watch_matches (mw_tp w) m w None cnt i = Ok True" for cnt i
    using assms(1-4) by (simp add: adjusted_def meter_get_uint_def sz_defs)
  have "badness_loop m w None cnt is st =
    Ok (badness_sum (mw_badness w) (length is) (fst st), if is = [] then snd st else max (snd st) (mw_trigger w))" for cnt "is" st
    using badness_loop_filter[of w m None cnt "\<lambda>_. True" "is" st, OF m] by simp
  moreover have "badness_sum (of_int b) 31 (of_int 0) = of_int (0 + int 31 * b)"
    using assms(6) by (intro badness_sum_exact) simp
  ultimately show ?thesis by (simp add: calculate_badness_def Let_def assms(1,5) elems_def sz_defs)
qed

theorem empty_array_counts_31_times_witness:
  "calculate_badness
     \<lparr>mt_id = MTYPE_INT, mt_count = 31, mt_badness = 0, mt_lastmodified = 0, mt_d = NoData\<rparr>
     \<lparr>mw_trigger = WATCH_CRIT, mw_id = 0, mw_tp = WATCH_UINT_LT, mw_dat = WU64 1, mw_badness = of_int 5\<rparr> None WATCH_NONE
   = Ok (of_int (31 * 5), max WATCH_NONE WATCH_CRIT)"
  by (rule trans[OF empty_array_counts_31_times[where v = 1 and b = 5]]) (simp_all add: sz_defs)

end
