(* ===== verification/Host.thy ===== *)
theory Host
  imports Watch Uuid
begin

text \<open>
  \<^verbatim>\<open>libopticon/host.c\<close>: a monitored host and its meters. The doubly linked list of meters is
  a HOL list, a \<^verbatim>\<open>meter *\<close> into it an index; \<^verbatim>\<open>h->trash\<close> is a second list. The value pointer,
  timestamps and the count of meters are the fields of the source. The tenant pointer, the
  uuid list links and the lock belong to the tenant (theory \<open>Tenant\<close>).
\<close>

record host =
  h_uuid :: uuid
  h_lastmodified :: time_t
  h_lastserial :: u32
  h_badness :: rat
  h_status :: u32
  h_adjust :: adjustlist
  h_graphlist :: "graphlist option"
  h_lastmetasync :: time_t
  h_meters :: "meter list"
  h_trash :: "meter list"
  h_mcount :: int

definition default_meter_timeout :: int where "default_meter_timeout = 600"
definition default_host_max_meters :: int where "default_host_max_meters = 256"

definition host_alloc :: "uuid \<Rightarrow> host" where
  "host_alloc u = \<lparr>h_uuid = u, h_lastmodified = 0, h_lastserial = 0, h_badness = 0, h_status = 0,
     h_adjust = adjustlist_init, h_graphlist = None, h_lastmetasync = 0, h_meters = [], h_trash = [], h_mcount = 0\<rparr>"

subsection \<open>Finding meters\<close>

definition full_id :: "u64 \<Rightarrow> u64" where
  "full_id ident = ident AND (MMASK_TYPE OR MMASK_NAME)"

definition name_of :: "u64 \<Rightarrow> u64" where
  "name_of ident = ident AND MMASK_NAME"

definition host_find_meter :: "host \<Rightarrow> u64 \<Rightarrow> nat option" where
  "host_find_meter h ident = find_index (\<lambda>m. mt_id m = full_id ident) (h_meters h)"

definition host_has_meter :: "host \<Rightarrow> u64 \<Rightarrow> bool" where
  "host_has_meter h ident \<longleftrightarrow> list_ex (\<lambda>m. mt_id m = full_id ident) (h_meters h)"

definition host_find_meter_name :: "host \<Rightarrow> u64 \<Rightarrow> nat option" where
  "host_find_meter_name h ident = find_index (\<lambda>m. name_of (mt_id m) = name_of ident) (h_meters h)"

text \<open>
  A meter marked as an empty array is reused by name, whatever its type. A new meter starts
  without a value; its id has no count bits.
\<close>

definition host_get_meter :: "host \<Rightarrow> u64 \<Rightarrow> host \<times> nat" where
  "host_get_meter h ident =
     (let rid = full_id ident in
      case find_index (\<lambda>m. mt_id m = rid \<or> (name_of (mt_id m) = name_of rid \<and> mt_count m = SZ_EMPTY_ARRAY)) (h_meters h) of
        Some k \<Rightarrow> (h, k)
      | None \<Rightarrow> (h\<lparr>h_meters := h_meters h @ [meter_alloc rid],
                  h_mcount := (if h_meters h = [] then 1 else h_mcount h + 1)\<rparr>, length (h_meters h)))"

text \<open>The search begins after \<open>prev\<close>, or after the first meter when there is no \<open>prev\<close>.\<close>

definition host_find_prefix :: "host \<Rightarrow> u64 \<Rightarrow> nat option \<Rightarrow> nat option" where
  "host_find_prefix h prefix prev =
     (let msk = id2mask prefix; start = Suc (case prev of Some k \<Rightarrow> k | None \<Rightarrow> 0) in
      map_option ((+) start)
        (find_index (\<lambda>m. mt_id m AND msk = prefix AND MMASK_NAME \<and> idisprefix prefix (mt_id m) msk)
           (drop start (h_meters h))))"

subsection \<open>Removing meters\<close>

definition host_empty_trash :: "host \<Rightarrow> host" where
  "host_empty_trash h = h\<lparr>h_trash := []\<rparr>"

definition list_remove :: "nat \<Rightarrow> 'a list \<Rightarrow> 'a list" where
  "list_remove k xs = take k xs @ drop (Suc k) xs"

definition host_delete_meter :: "host \<Rightarrow> nat \<Rightarrow> host res" where
  "host_delete_meter h k =
     rbind (meter_set_empty (h_lastmodified h) (h_meters h ! k)) (\<lambda>m.
       let m = m\<lparr>mt_lastmodified := 0\<rparr> in
       Ok (h\<lparr>h_meters := list_remove k (h_meters h), h_mcount := h_mcount h - 1,
             h_trash := (if h_trash h \<noteq> [] then m # h_trash h else [])\<rparr>))"

subsection \<open>Update rounds\<close>

definition host_begin_update :: "host \<Rightarrow> time_t \<Rightarrow> host" where
  "host_begin_update h t = h\<lparr>h_lastmodified := t\<rparr>"

definition host_set_meter :: "host \<Rightarrow> nat \<Rightarrow> meter \<Rightarrow> host" where
  "host_set_meter h k m = h\<lparr>h_meters := (h_meters h)[k := m]\<rparr>"

definition mid_status :: u64 where
  "mid_status = makeid ''status'' MTYPE_STR"

definition host_is_stale :: "host \<Rightarrow> bool res" where
  "host_is_stale h =
     (case host_find_meter h mid_status of
        None \<Rightarrow> Ok False
      | Some k \<Rightarrow> rbind (meter_get_str (h_meters h ! k) 0) (\<lambda>s. Ok (s = ''STALE'')))"

definition reaped :: "time_t \<Rightarrow> meter \<Rightarrow> bool" where
  "reaped since m \<longleftrightarrow> mt_lastmodified m < since \<and> since - mt_lastmodified m > default_meter_timeout"

function reap_loop :: "bool \<Rightarrow> time_t \<Rightarrow> host \<Rightarrow> nat \<Rightarrow> host res" where
  "reap_loop stale since h k =
     (if k \<ge> length (h_meters h) then Ok h
      else if stale then
        reap_loop stale since (host_set_meter h k ((h_meters h ! k)\<lparr>mt_lastmodified := since\<rparr>)) (Suc k)
      else if reaped since (h_meters h ! k) then
        (case host_delete_meter h k of Fault e \<Rightarrow> Fault e | Ok h \<Rightarrow> reap_loop stale since h k)
      else reap_loop stale since h (Suc k))"
  by pat_completeness auto

lemma host_delete_meter_length:
  "host_delete_meter h k = Ok h' \<Longrightarrow> k < length (h_meters h) \<Longrightarrow> Suc (length (h_meters h')) = length (h_meters h)"
  by (auto simp: host_delete_meter_def rbind_Ok_iff list_remove_def Let_def)

termination reap_loop
  by (relation "measure (\<lambda>(stale, since, h, k). length (h_meters h) - k)")
    (auto simp: host_set_meter_def dest!: host_delete_meter_length)

declare reap_loop.simps [simp del]

definition host_end_update :: "host \<Rightarrow> host res" where
  "host_end_update h =
     (let h' = host_empty_trash h in
      rbind (host_is_stale h') (\<lambda>stale. reap_loop stale (h_lastmodified h) h' 0))"

subsection \<open>Bulk setters\<close>

text \<open>The block is copied as it is; nothing compares the type of the meter with the data.\<close>

definition host_set_meter_uint :: "host \<Rightarrow> u64 \<Rightarrow> nat \<Rightarrow> u64 list \<Rightarrow> (host \<times> nat) res" where
  "host_set_meter_uint h ident cnt dat =
     (let (h, k) = host_get_meter h ident; n = elems cnt in
      if length dat < n then Fault OutOfBounds
      else Ok (host_set_meter h k ((h_meters h ! k)\<lparr>mt_count := cnt, mt_lastmodified := h_lastmodified h,
             mt_d := Block (n * sizeof_u64) (U64s (take n dat))\<rparr>), k))"

definition host_set_meter_str :: "host \<Rightarrow> u64 \<Rightarrow> nat \<Rightarrow> string list \<Rightarrow> (host \<times> nat) res" where
  "host_set_meter_str h ident cnt dat =
     (let (h, k) = host_get_meter h ident; n = elems cnt in
      if length dat < n then Fault OutOfBounds
      else Ok (host_set_meter h k ((h_meters h ! k)\<lparr>mt_count := cnt, mt_lastmodified := h_lastmodified h,
             mt_d := Block (n * sizeof_fstring) (Strs (take n dat))\<rparr>), k))"

subsection \<open>The invariant\<close>

definition host_ok :: "host \<Rightarrow> bool" where
  "host_ok h \<longleftrightarrow> h_mcount h = int (length (h_meters h)) \<and> list_all meter_ok (h_meters h) \<and>
     list_all (\<lambda>m. mt_id m = full_id (mt_id m)) (h_meters h)"

definition names :: "host \<Rightarrow> u64 list" where
  "names h = map (\<lambda>m. name_of (mt_id m)) (h_meters h)"

lemma full_id_idem [simp]: "full_id (full_id x) = full_id x"
  by (simp add: full_id_def and.assoc)

lemma name_of_full [simp]: "name_of (full_id x) = name_of x"
  by (rule bit_word_eqI) (auto simp: name_of_def full_id_def bit_word_simps)

lemma name_of_idem [simp]: "name_of (name_of x) = name_of x"
  by (simp add: name_of_def and.assoc)

lemma host_alloc_ok [inv_intro]: "host_ok (host_alloc u)"
  by (simp add: host_ok_def host_alloc_def)

lemma host_get_meter_cases:
  assumes "host_get_meter h ident = (h', k)"
  obtains (found) "h' = h" "k < length (h_meters h)" "name_of (mt_id (h_meters h ! k)) = name_of ident"
  | (new) "h' = h\<lparr>h_meters := h_meters h @ [meter_alloc (full_id ident)],
        h_mcount := (if h_meters h = [] then 1 else h_mcount h + 1)\<rparr>" "k = length (h_meters h)"
      "\<forall>m\<in>set (h_meters h). mt_id m \<noteq> full_id ident"
proof (cases "find_index (\<lambda>m. mt_id m = full_id ident \<or> (name_of (mt_id m) = name_of (full_id ident) \<and> mt_count m = SZ_EMPTY_ARRAY)) (h_meters h)")
  case None
  then have "\<forall>m\<in>set (h_meters h). mt_id m \<noteq> full_id ident" by (auto simp: find_index_None)
  then show ?thesis using None assms that(2) unfolding host_get_meter_def Let_def by auto
next
  case (Some j)
  then have "host_get_meter h ident = (h, j)" by (simp only: host_get_meter_def Let_def option.case)
  moreover have "j < length (h_meters h)" "name_of (mt_id (h_meters h ! j)) = name_of ident"
    using Some by (auto simp: find_index_Some)
  ultimately show ?thesis using assms that(1) by simp
qed

lemma meter_alloc_id [simp]: "mt_id (meter_alloc i) = i"
  by (simp add: meter_alloc_def)

lemma host_get_meter_ok [inv_intro]:
  assumes "host_ok h" "host_get_meter h ident = (h', k)"
  shows "host_ok h'" "k < length (h_meters h')" "name_of (mt_id (h_meters h' ! k)) = name_of ident"
  by (cases rule: host_get_meter_cases[OF assms(2)]; use assms(1) in \<open>simp add: host_ok_def meter_alloc_ok\<close>)+

lemma host_get_meter_mcount:
  "host_ok h \<Longrightarrow> host_get_meter h ident = (h', k) \<Longrightarrow> h_mcount h' \<le> h_mcount h + 1"
  by (erule host_get_meter_cases) (auto simp: host_ok_def)

lemma host_delete_meter_ok [inv_intro]:
  assumes "host_ok h" "k < length (h_meters h)"
  shows "\<exists>h'. host_delete_meter h k = Ok h' \<and> host_ok h' \<and> h_meters h' = list_remove k (h_meters h)
    \<and> (h_trash h = [] \<longrightarrow> h_trash h' = []) \<and> h_lastmodified h' = h_lastmodified h"
proof -
  obtain m where m: "meter_set_empty (h_lastmodified h) (h_meters h ! k) = Ok m"
    using meter_setcount_total[of SZ_EMPTY_VAL "h_lastmodified h" "h_meters h ! k"]
    unfolding meter_set_empty_def sz_defs by auto
  have "list_all P (list_remove k xs)" if "list_all P xs" for P and xs :: "meter list"
    using that by (auto simp: list_remove_def list_all_iff dest: in_set_takeD in_set_dropD)
  moreover have "int (length (list_remove k (h_meters h))) = int (length (h_meters h)) - 1"
    using assms(2) by (simp add: list_remove_def of_nat_diff)
  ultimately show ?thesis using assms m by (simp add: host_delete_meter_def host_ok_def Let_def)
qed

lemma host_set_meter_ok [inv_intro]:
  "host_ok h \<Longrightarrow> meter_ok m \<Longrightarrow> mt_id m = full_id (mt_id m) \<Longrightarrow> host_ok (host_set_meter h k m)"
  by (auto simp: host_ok_def host_set_meter_def list_all_iff dest!: set_update_subset_insert[THEN subsetD])

lemma host_ok_nth: "host_ok h \<Longrightarrow> k < length (h_meters h) \<Longrightarrow> meter_ok (h_meters h ! k) \<and> mt_id (h_meters h ! k) = full_id (mt_id (h_meters h ! k))"
  by (simp add: host_ok_def list_all_length)

lemma meter_ok_lastmodified: "meter_ok m \<Longrightarrow> meter_ok (m\<lparr>mt_lastmodified := t\<rparr>)"
proof -
  have "meter_type (m\<lparr>mt_lastmodified := t\<rparr>) = meter_type m" by (simp add: meter_type_def)
  then show "meter_ok m \<Longrightarrow> meter_ok (m\<lparr>mt_lastmodified := t\<rparr>)" by (simp add: meter_ok_def del: insert_iff cong: mdata.case_cong)
qed

subsection \<open>Reaping\<close>

text \<open>
  What the loop leaves of the meters from \<open>k\<close> on: those not overdue, or all of them with a
  fresh time stamp on a stale host.
\<close>

definition reap_spec :: "bool \<Rightarrow> time_t \<Rightarrow> meter list \<Rightarrow> meter list" where
  "reap_spec stale since ms =
     (if stale then map (\<lambda>m. m\<lparr>mt_lastmodified := since\<rparr>) ms else filter (\<lambda>m. \<not> reaped since m) ms)"

lemma reap_spec_Cons:
  "reap_spec stale since (m # ms) =
     (if stale then [m\<lparr>mt_lastmodified := since\<rparr>] else if reaped since m then [] else [m]) @ reap_spec stale since ms"
  by (simp add: reap_spec_def)

lemma reap_loop_spec:
  assumes "host_ok h" "k \<le> length (h_meters h)"
  shows "\<exists>h'. reap_loop stale since h k = Ok h' \<and> host_ok h' \<and>
    h_meters h' = take k (h_meters h) @ reap_spec stale since (drop k (h_meters h)) \<and> (h_trash h = [] \<longrightarrow> h_trash h' = [])"
  using assms
proof (induction stale since h k rule: reap_loop.induct)
  case (1 stale since h k)
  show ?case
  proof (cases "k < length (h_meters h)")
    case False
    then show ?thesis using 1(4,5) by (subst reap_loop.simps) (simp add: reap_spec_def)
  next
    case True
    let ?m = "h_meters h ! k"
    have d: "drop k (h_meters h) = ?m # drop (Suc k) (h_meters h)" using True by (simp add: Cons_nth_drop_Suc)
    have t: "take (Suc k) (h_meters h) = take k (h_meters h) @ [?m]" using True by (simp add: take_Suc_conv_app_nth)
    consider (stale) "stale" | (reap) "\<not> stale" "reaped since ?m" | (keep) "\<not> stale" "\<not> reaped since ?m" by auto
    then show ?thesis
    proof cases
      case stale
      let ?h = "host_set_meter h k (?m\<lparr>mt_lastmodified := since\<rparr>)"
      have ok: "host_ok ?h" using host_ok_nth[OF 1(4) True] by (intro host_set_meter_ok[OF 1(4)]) (auto simp: meter_ok_lastmodified)
      have ms: "take (Suc k) (h_meters ?h) = take k (h_meters h) @ [?m\<lparr>mt_lastmodified := since\<rparr>]"
          "drop (Suc k) (h_meters ?h) = drop (Suc k) (h_meters h)" "h_trash ?h = h_trash h" "Suc k \<le> length (h_meters ?h)"
        using True by (simp_all add: host_set_meter_def take_Suc_conv_app_nth)
      have u: "reap_loop stale since h k = reap_loop stale since ?h (Suc k)"
        using True stale by (subst reap_loop.simps) simp
      show ?thesis using 1(1)[OF _ stale ok ms(4)] True ms(1-3) unfolding u d reap_spec_Cons using stale by simp
    next
      case reap
      obtain h' where h': "host_delete_meter h k = Ok h'" "host_ok h'" "h_meters h' = list_remove k (h_meters h)"
          "h_trash h = [] \<longrightarrow> h_trash h' = []"
        using host_delete_meter_ok[OF 1(4) True] by auto
      have ms: "take k (h_meters h') = take k (h_meters h)" "drop k (h_meters h') = drop (Suc k) (h_meters h)" "k \<le> length (h_meters h')"
        using True h'(3) by (simp_all add: list_remove_def)
      have u: "reap_loop stale since h k = reap_loop stale since h' k"
        using True reap h'(1) by (subst reap_loop.simps) simp
      show ?thesis using 1(2)[OF _ reap h'(1,2) ms(3)] True ms(1,2) h'(4) unfolding u d reap_spec_Cons using reap by auto
    next
      case keep
      have u: "reap_loop stale since h k = reap_loop stale since h (Suc k)"
        using True keep by (subst reap_loop.simps) simp
      show ?thesis using 1(3)[OF _ keep 1(4)] True t unfolding u d reap_spec_Cons using keep by auto
    qed
  qed
qed



text \<open>
  The trash list of a host stays empty for ever: \<^verbatim>\<open>host_delete_meter\<close> pushes on it only
  when it is not empty, so \<^verbatim>\<open>host_empty_trash\<close> has nothing to free and every meter removed
  from the list is lost to the allocator.
\<close>

theorem deleted_meters_leak:
  assumes "host_ok h" "h_trash h = []" "k < length (h_meters h)"
  shows "\<exists>h'. host_delete_meter h k = Ok h' \<and> h_trash h' = [] \<and> Suc (length (h_meters h')) = length (h_meters h)"
  using host_delete_meter_ok[OF assms(1,3)] host_delete_meter_length[OF _ assms(3)] assms(2) by auto

theorem deleted_meters_leak_witness:
  "\<exists>h'. host_delete_meter (fst (host_get_meter (host_alloc \<lparr>msb = 1, lsb = 2\<rparr>) 64)) 0 = Ok h' \<and> h_trash h' = []"
proof -
  have "host_ok (fst (host_get_meter (host_alloc \<lparr>msb = 1, lsb = 2\<rparr>) 64))"
    using host_get_meter_ok(1)[OF host_alloc_ok] by (metis prod.collapse)
  from deleted_meters_leak[OF this, of 0] show ?thesis
    by (auto simp: host_get_meter_def host_alloc_def Let_def)
qed

end
