(* ===== verification/CodecPkt.thy ===== *)
theory CodecPkt
  imports Host PortProps
begin

text \<open>
  \<^verbatim>\<open>libopticon/codec_pkt.c\<close>: the packet format, a sequence of a 64-bit meter id (name, type
  and count bits) followed by the encoded elements, ended by a zero id or the end of the
  port. \<open>ub\<close> is what the undefined shifts of the integer and fraction codecs compute.
  The decoder's variables are a record: the port, the host, \<^verbatim>\<open>lastpfx\<close> and \<^verbatim>\<open>strbuf\<close> with its
  uninitialised content at the start. \<open>None\<close> is out of fuel, which theorem
  \<open>decode_terminates\<close> bounds by the bytes of the packet.
\<close>

subsection \<open>Encoding\<close>

fun rthen :: "(bool \<times> 'a) res \<Rightarrow> ('a \<Rightarrow> (bool \<times> 'a) res) \<Rightarrow> (bool \<times> 'a) res" where
  "rthen (Inl e) f = Inl e"
| "rthen (Inr (False, a)) f = Inr (False, a)"
| "rthen (Inr (True, a)) f = f a"

definition pktcodec_write_value :: "(nat \<Rightarrow> int) \<Rightarrow> 'st ioport \<Rightarrow> meter \<Rightarrow> nat \<Rightarrow> (bool \<times> 'st ioport) res" where
  "pktcodec_write_value ub io m i =
     (if meter_type m = MTYPE_INT then rbind (load_u64 (mt_d m) i) (\<lambda>v. Ok (ioport_write_encint ub io v))
      else if meter_type m = MTYPE_FRAC then rbind (load_frac (mt_d m) i) (\<lambda>v. Ok (ioport_write_encfrac io v))
      else if meter_type m = MTYPE_STR then rbind (load_str (mt_d m) i) (\<lambda>s. ioport_write_encstring io s)
      else Ok (False, io))"

fun write_values :: "(nat \<Rightarrow> int) \<Rightarrow> 'st ioport \<Rightarrow> meter \<Rightarrow> nat list \<Rightarrow> (bool \<times> 'st ioport) res" where
  "write_values ub io m [] = Ok (True, io)"
| "write_values ub io m (i # is) = rthen (pktcodec_write_value ub io m i) (\<lambda>io. write_values ub io m is)"

definition wire_id :: "meter \<Rightarrow> u64" where
  "wire_id m = mt_id m OR of_nat (mt_count m)"

fun encode_meters :: "(nat \<Rightarrow> int) \<Rightarrow> 'st ioport \<Rightarrow> meter list \<Rightarrow> (bool \<times> 'st ioport) res" where
  "encode_meters ub io [] = Ok (True, io)"
| "encode_meters ub io (m # ms) =
     rthen (Ok (ioport_write_u64 io (wire_id m))) (\<lambda>io.
     rthen (if elems (mt_count m) < SZ_EMPTY_VAL then write_values ub io m [0..<elems (mt_count m)] else Ok (True, io))
       (\<lambda>io. encode_meters ub io ms))"

definition pktcodec_encode_host :: "(nat \<Rightarrow> int) \<Rightarrow> 'st ioport \<Rightarrow> host \<Rightarrow> (bool \<times> 'st ioport) res" where
  "pktcodec_encode_host ub io h = encode_meters ub io (h_meters h)"

subsection \<open>Decoding\<close>

record 'st decoder =
  d_io :: "'st ioport"
  d_host :: host
  d_pfx :: u64
  d_strbuf :: string

fun obind :: "'a res option \<Rightarrow> ('a \<Rightarrow> 'b res option) \<Rightarrow> 'b res option" where
  "obind None f = None"
| "obind (Some (Inl e)) f = Some (Inl e)"
| "obind (Some (Inr a)) f = f a"

definition with_meter :: "nat option \<Rightarrow> (meter \<Rightarrow> meter res) \<Rightarrow> 'st decoder \<Rightarrow> 'st decoder res" where
  "with_meter M f d =
     (case M of
        None \<Rightarrow> Ok d
      | Some k \<Rightarrow> rbind (f (h_meters (d_host d) ! k)) (\<lambda>m. Ok (d\<lparr>d_host := host_set_meter (d_host d) k m\<rparr>)))"

definition decode_value ::
  "(nat \<Rightarrow> int) \<Rightarrow> nat \<Rightarrow> u64 \<Rightarrow> nat option \<Rightarrow> nat \<Rightarrow> 'st decoder \<Rightarrow> 'st decoder res option" where
  "decode_value ub fuel mid M i d =
     (let lm = h_lastmodified (d_host d) in
      if mid AND MMASK_TYPE = MTYPE_INT then
        (case ioport_read_encint fuel (d_io d) of
           None \<Rightarrow> None
         | Some (v, io) \<Rightarrow> Some (with_meter M (\<lambda>m. meter_set_uint lm m i v) (d\<lparr>d_io := io\<rparr>)))
      else if mid AND MMASK_TYPE = MTYPE_FRAC then
        (case ioport_read_encfrac ub (d_io d) of
           (v, io) \<Rightarrow> Some (with_meter M (\<lambda>m. meter_set_frac lm m i v) (d\<lparr>d_io := io\<rparr>)))
      else
        (case ioport_read_encstring (d_io d) of
           (s, io) \<Rightarrow>
             let sb = (case s of Some s \<Rightarrow> s | None \<Rightarrow> d_strbuf d)
             in Some (with_meter M (\<lambda>m. meter_set_str lm m i sb) (d\<lparr>d_io := io, d_strbuf := sb\<rparr>))))"

fun decode_values ::
  "(nat \<Rightarrow> int) \<Rightarrow> nat \<Rightarrow> u64 \<Rightarrow> nat option \<Rightarrow> nat list \<Rightarrow> 'st decoder \<Rightarrow> 'st decoder res option" where
  "decode_values ub fuel mid M [] d = Some (Ok d)"
| "decode_values ub fuel mid M (i # is) d =
     obind (decode_value ub fuel mid M i d) (decode_values ub fuel mid M is)"

text \<open>An empty array empties the children of its path, if there are any past the first meter.\<close>

lemma host_find_prefix_range:
  "host_find_prefix h mid p = Some k \<Longrightarrow> (case p of Some j \<Rightarrow> j | None \<Rightarrow> 0) < k \<and> k < length (h_meters h)"
  by (auto simp: host_find_prefix_def Let_def find_index_Some split: option.splits)

function empty_children :: "u64 \<Rightarrow> host \<Rightarrow> nat \<Rightarrow> host res" where
  "empty_children mid h k =
     (case meter_set_empty_array (h_lastmodified h) (h_meters h ! k) of
        Inl e \<Rightarrow> Inl e
      | Inr m \<Rightarrow>
          (case host_find_prefix (host_set_meter h k m) mid (Some k) of
             None \<Rightarrow> Inr (host_set_meter h k m)
           | Some k' \<Rightarrow> empty_children mid (host_set_meter h k m) k'))"
  by pat_completeness auto
termination
proof (relation "measure (\<lambda>(mid, h, k). length (h_meters h) - k)")
  fix mid h k m k'
  assume "host_find_prefix (host_set_meter h k m) mid (Some k) = Some k'"
  from host_find_prefix_range[OF this]
  show "((mid, host_set_meter h k m, k'), mid, h, k) \<in> measure (\<lambda>(mid, h, k). length (h_meters h) - k)"
    by (auto simp: host_set_meter_def)
qed simp

declare empty_children.simps [simp del]

definition decode_empty :: "u64 \<Rightarrow> 'st decoder \<Rightarrow> (bool \<times> 'st decoder) res" where
  "decode_empty mid d =
     (let h = d_host d in
      if unat (mid AND MMASK_COUNT) \<noteq> SZ_EMPTY_ARRAY then Ok (False, d)
      else case host_find_prefix h mid None of
        Some k \<Rightarrow> rbind (empty_children mid h k) (\<lambda>h. Ok (True, d\<lparr>d_host := h\<rparr>))
      | None \<Rightarrow> rbind (with_meter (host_find_meter_name h mid) (meter_set_empty_array (h_lastmodified h)) d)
                  (\<lambda>d. Ok (False, d)))"

text \<open>A path removes every meter that has its prefix for a name, once per run of equal prefixes.\<close>

function delete_named :: "u64 \<Rightarrow> host \<Rightarrow> string \<Rightarrow> (host \<times> string) res" where
  "delete_named pfx h sb =
     (case host_find_meter_name h pfx of
        None \<Rightarrow> Inr (h, sb)
      | Some k \<Rightarrow>
          (case host_delete_meter h k of
             Inl e \<Rightarrow> Inl e
           | Inr h' \<Rightarrow> delete_named pfx h' (id2str (mt_id (h_meters h ! k)))))"
  by pat_completeness auto
termination
  by (relation "measure (\<lambda>(pfx, h, sb). length (h_meters h))")
    (auto simp: host_find_meter_name_def find_index_Some dest!: host_delete_meter_length)

declare delete_named.simps [simp del]

definition decode_prefix :: "u64 \<Rightarrow> 'st decoder \<Rightarrow> 'st decoder res" where
  "decode_prefix mid d =
     (let pfx = idgetprefix mid in
      if pfx \<noteq> 0 \<and> pfx \<noteq> d_pfx d then
        rbind (delete_named pfx (d_host d) (d_strbuf d))
          (\<lambda>(h, sb). Ok (d\<lparr>d_host := h, d_strbuf := sb, d_pfx := pfx\<rparr>))
      else Ok d)"

definition decode_target :: "u64 \<Rightarrow> 'st decoder \<Rightarrow> nat option \<times> 'st decoder" where
  "decode_target mid d =
     (case host_find_meter_name (d_host d) mid of
        Some k \<Rightarrow> (Some k, d)
      | None \<Rightarrow>
          if h_mcount (d_host d) \<le> default_host_max_meters then
            (case host_get_meter (d_host d) mid of (h, k) \<Rightarrow> (Some k, d\<lparr>d_host := h\<rparr>))
          else (None, d))"

text \<open>The block is allocated for the type the meter had before.\<close>

definition decode_retype :: "time_t \<Rightarrow> u64 \<Rightarrow> meter \<Rightarrow> meter res" where
  "decode_retype lm mid m =
     rbind (meter_setcount lm m (unat (mid AND MMASK_COUNT)))
       (\<lambda>m. Ok (m\<lparr>mt_id := (mt_id m AND (MMASK_NAME OR MMASK_COUNT)) OR (mid AND MMASK_TYPE)\<rparr>))"

definition decode_record ::
  "(nat \<Rightarrow> int) \<Rightarrow> nat \<Rightarrow> u64 \<Rightarrow> 'st decoder \<Rightarrow> (bool \<times> 'st decoder) res option" where
  "decode_record ub fuel mid d =
     obind (Some (decode_empty mid d)) (\<lambda>(skip, d).
       if skip then Some (Ok (True, d))
       else obind (Some (decode_prefix mid d)) (\<lambda>d.
         case decode_target mid d of (M, d) \<Rightarrow>
         obind (Some (with_meter M (decode_retype (h_lastmodified (d_host d)) mid) d)) (\<lambda>d.
           let count = elems (unat (mid AND MMASK_COUNT)) in
           if count \<ge> SZ_EMPTY_VAL then Some (Ok (True, d))
           else if mid AND MMASK_TYPE \<notin> {MTYPE_INT, MTYPE_FRAC, MTYPE_STR} then Some (Ok (False, d))
           else obind (decode_values ub fuel mid M [0..<count] d) (\<lambda>d. Some (Ok (True, d))))))"

fun decode_loop :: "(nat \<Rightarrow> int) \<Rightarrow> nat \<Rightarrow> nat \<Rightarrow> 'st decoder \<Rightarrow> (bool \<times> 'st decoder) res option" where
  "decode_loop ub fuel 0 d = None"
| "decode_loop ub fuel (Suc n) d =
     (case ioport_read_u64 (d_io d) of (mid, io) \<Rightarrow>
        if mid = 0 then Some (Ok (True, d\<lparr>d_io := io\<rparr>))
        else obind (decode_record ub fuel mid (d\<lparr>d_io := io\<rparr>)) (\<lambda>(ok, d).
          if ok then decode_loop ub fuel n d else Some (Ok (False, d))))"

definition pktcodec_decode_host ::
  "(nat \<Rightarrow> int) \<Rightarrow> nat \<Rightarrow> string \<Rightarrow> 'st ioport \<Rightarrow> host \<Rightarrow> (bool \<times> 'st decoder) res option" where
  "pktcodec_decode_host ub fuel junk io h =
     decode_loop ub fuel fuel \<lparr>d_io = io, d_host = h, d_pfx = 0, d_strbuf = junk\<rparr>"

end
