(* ===== verification/MeterAccess.thy ===== *)
theory MeterAccess
  imports Host
begin

text \<open>
  The contract shared by the three pairs of element accessors of \<^verbatim>\<open>meter.c\<close>: a value set at
  an index within the count is what the getter returns there, other indices are unaffected.
  \<open>norm\<close> is what storing does to a value (a string loses what is past 127 characters).
\<close>

locale meter_access =
  fixes tp :: u64
    and getv :: "meter \<Rightarrow> nat \<Rightarrow> 'v res"
    and setv :: "time_t \<Rightarrow> meter \<Rightarrow> nat \<Rightarrow> 'v \<Rightarrow> meter res"
    and norm :: "'v \<Rightarrow> 'v"
  assumes set_get: "meter_ok m \<Longrightarrow> meter_type m = tp \<Longrightarrow> mt_count m < SZ_EMPTY_VAL \<Longrightarrow> i < elems (mt_count m) \<Longrightarrow>
      \<exists>d. setv lm m i v = Ok (m\<lparr>mt_lastmodified := lm, mt_d := d\<rparr>) \<and>
        meter_ok (m\<lparr>mt_lastmodified := lm, mt_d := d\<rparr>) \<and>
        getv (m\<lparr>mt_lastmodified := lm, mt_d := d\<rparr>) i = Ok (norm v) \<and>
        (\<forall>j < elems (mt_count m). j \<noteq> i \<longrightarrow> getv (m\<lparr>mt_lastmodified := lm, mt_d := d\<rparr>) j = getv m j)"

text \<open>Storing a list of values from an index on.\<close>

fun store_all :: "(time_t \<Rightarrow> meter \<Rightarrow> nat \<Rightarrow> 'v \<Rightarrow> meter res) \<Rightarrow> time_t \<Rightarrow> meter \<Rightarrow> nat \<Rightarrow> 'v list \<Rightarrow> meter res" where
  "store_all setv lm m i [] = Ok m"
| "store_all setv lm m i (v # vs) = rbind (setv lm m i v) (\<lambda>m. store_all setv lm m (Suc i) vs)"

context meter_access
begin

lemma store_all_ok:
  assumes "meter_ok m" "meter_type m = tp" "mt_count m < SZ_EMPTY_VAL" "i + length vs \<le> elems (mt_count m)"
  shows "\<exists>t d. store_all setv lm m i vs = Ok (m\<lparr>mt_lastmodified := t, mt_d := d\<rparr>) \<and>
    meter_ok (m\<lparr>mt_lastmodified := t, mt_d := d\<rparr>) \<and>
    (\<forall>j < length vs. getv (m\<lparr>mt_lastmodified := t, mt_d := d\<rparr>) (i + j) = Ok (norm (vs ! j))) \<and>
    (\<forall>j < i. getv (m\<lparr>mt_lastmodified := t, mt_d := d\<rparr>) j = getv m j)"
  using assms
proof (induction vs arbitrary: m i)
  case Nil
  then show ?case by (intro exI[of _ "mt_lastmodified m"] exI[of _ "mt_d m"]) (cases m, simp)
next
  case (Cons v vs)
  have i: "i < elems (mt_count m)" using Cons.prems(4) by simp
  from set_get[OF Cons.prems(1-3) i, of lm v] obtain d where s: "setv lm m i v = Ok (m\<lparr>mt_lastmodified := lm, mt_d := d\<rparr>) \<and>
        meter_ok (m\<lparr>mt_lastmodified := lm, mt_d := d\<rparr>) \<and>
        getv (m\<lparr>mt_lastmodified := lm, mt_d := d\<rparr>) i = Ok (norm v) \<and>
        (\<forall>j < elems (mt_count m). j \<noteq> i \<longrightarrow> getv (m\<lparr>mt_lastmodified := lm, mt_d := d\<rparr>) j = getv m j)" ..
  let ?m = "m\<lparr>mt_lastmodified := lm, mt_d := d\<rparr>"
  have d: "setv lm m i v = Ok ?m"
      "meter_ok ?m" "getv ?m i = Ok (norm v)" "\<forall>j < elems (mt_count m). j \<noteq> i \<longrightarrow> getv ?m j = getv m j"
    using s by blast+
  have p: "meter_type ?m = tp" "mt_count ?m < SZ_EMPTY_VAL" "Suc i + length vs \<le> elems (mt_count ?m)"
    using Cons.prems(2-4) by (simp_all add: meter_type_def)
  obtain t d' where e: "store_all setv lm ?m (Suc i) vs = Ok (?m\<lparr>mt_lastmodified := t, mt_d := d'\<rparr>)"
      "meter_ok (?m\<lparr>mt_lastmodified := t, mt_d := d'\<rparr>)"
      "\<forall>j < length vs. getv (?m\<lparr>mt_lastmodified := t, mt_d := d'\<rparr>) (Suc i + j) = Ok (norm (vs ! j))"
      "\<forall>j < Suc i. getv (?m\<lparr>mt_lastmodified := t, mt_d := d'\<rparr>) j = getv ?m j"
    using Cons.IH[OF d(2) p] by blast
  have j: "getv (?m\<lparr>mt_lastmodified := t, mt_d := d'\<rparr>) (i + j) = Ok (norm ((v # vs) ! j))" if "j < length (v # vs)" for j
    using that e(3,4) d(3) by (cases j) auto
  have "\<forall>j < i. getv (?m\<lparr>mt_lastmodified := t, mt_d := d'\<rparr>) j = getv m j"
    using e(4) d(4) Cons.prems(4) by simp
  then show ?case using e(1,2) d(1) j by (intro exI[of _ t] exI[of _ d']) simp
qed

end

text \<open>The three accessors satisfy it.\<close>

lemma load_store_u64:
  assumes "cells_fit MTYPE_INT sz c" "Suc i * sizeof_u64 \<le> sz"
  shows "\<exists>c'. store_u64 (Block sz c) i v = Ok (Block sz c') \<and> cells_fit MTYPE_INT sz c' \<and>
    load_u64 (Block sz c') i = Ok v \<and>
    (\<forall>j. j \<noteq> i \<longrightarrow> Suc j * sizeof_u64 \<le> sz \<longrightarrow> load_u64 (Block sz c') j = load_u64 (Block sz c) j)"
proof -
  have l: "j < sz div sizeof_u64" if "Suc j * sizeof_u64 \<le> sz" for j
    using that by (simp add: sizeof_defs less_eq_div_iff_mult_less_eq Suc_le_eq[symmetric])
  show ?thesis using assms l[OF assms(2)] l
    by (cases c) (simp_all add: not_less[symmetric] del: mult_Suc)
qed

lemma load_store_frac:
  assumes "cells_fit MTYPE_FRAC sz c" "Suc i * sizeof_u64 \<le> sz"
  shows "\<exists>c'. store_frac (Block sz c) i v = Ok (Block sz c') \<and> cells_fit MTYPE_FRAC sz c' \<and>
    load_frac (Block sz c') i = Ok v \<and>
    (\<forall>j. j \<noteq> i \<longrightarrow> Suc j * sizeof_u64 \<le> sz \<longrightarrow> load_frac (Block sz c') j = load_frac (Block sz c) j)"
proof -
  have l: "j < sz div sizeof_u64" if "Suc j * sizeof_u64 \<le> sz" for j
    using that by (simp add: sizeof_defs less_eq_div_iff_mult_less_eq Suc_le_eq[symmetric])
  show ?thesis using assms l[OF assms(2)] l
    by (cases c) (simp_all add: not_less[symmetric] del: mult_Suc)
qed

lemma load_store_str:
  assumes "cells_fit MTYPE_STR sz c" "Suc i * sizeof_fstring \<le> sz"
  shows "\<exists>c'. store_str (Block sz c) i v = Ok (Block sz c') \<and> cells_fit MTYPE_STR sz c' \<and>
    load_str (Block sz c') i = Ok (c_truncate 127 v) \<and>
    (\<forall>j. j \<noteq> i \<longrightarrow> Suc j * sizeof_fstring \<le> sz \<longrightarrow> load_str (Block sz c') j = load_str (Block sz c) j)"
proof -
  have l: "j < sz div sizeof_fstring" if "Suc j * sizeof_fstring \<le> sz" for j
    using that by (simp add: sizeof_defs less_eq_div_iff_mult_less_eq Suc_le_eq[symmetric])
  obtain c' where c': "store_str (Block sz c) i v = Ok (Block sz c')" "cells_fit MTYPE_STR sz c'"
    using store_str_fit[OF assms] by blast
  have "load_str (Block sz c') i = Ok (c_truncate 127 v) \<and>
    (\<forall>j. j \<noteq> i \<longrightarrow> Suc j * sizeof_fstring \<le> sz \<longrightarrow> load_str (Block sz c') j = load_str (Block sz c) j)"
    using assms c'(1) l[OF assms(2)] l
    by (cases c) (auto simp: not_less[symmetric] simp del: mult_Suc)
  then show ?thesis using c' by blast
qed

lemma access_within:
  assumes "meter_ok m" "mt_count m < SZ_EMPTY_VAL"
  obtains sz c where "mt_d m = Block sz c" "cells_fit (meter_type m) sz c"
    "\<And>i. i < elems (mt_count m) \<Longrightarrow> Suc i * elem_size (meter_type m) \<le> sz"
    "elems (mt_count m) * elem_size (meter_type m) \<le> sz"
proof -
  have p: "0 < elems (mt_count m)" by simp
  obtain sz c where b: "mt_d m = Block sz c" "cells_fit (meter_type m) sz c" by (rule block_room[OF assms p])
  have e: "elems (mt_count m) * elem_size (meter_type m) \<le> sz" using assms b(1) by (simp add: meter_ok_def)
  have "Suc i * elem_size (meter_type m) \<le> sz" if "i < elems (mt_count m)" for i
    using mult_right_mono[of "Suc i" "elems (mt_count m)" "elem_size (meter_type m)"] that e by linarith
  from that[OF b this e] show ?thesis by blast
qed

lemma meter_upd_simps [simp]:
  "meter_type (m\<lparr>mt_lastmodified := lm, mt_d := d\<rparr>) = meter_type m"
  "meter_type (m\<lparr>mt_d := d\<rparr>) = meter_type m" "meter_type (m\<lparr>mt_lastmodified := lm\<rparr>) = meter_type m"
  by (simp_all add: meter_type_def)

interpretation mu: meter_access MTYPE_INT meter_get_uint meter_set_uint id
proof
  fix m i lm v
  assume a: "meter_ok m" "meter_type m = MTYPE_INT" "mt_count m < SZ_EMPTY_VAL" "i < elems (mt_count m)"
  obtain sz c where b: "mt_d m = Block sz c" "cells_fit MTYPE_INT sz c" "\<And>i. i < elems (mt_count m) \<Longrightarrow> Suc i * sizeof_u64 \<le> sz"
      "elems (mt_count m) * elem_size (meter_type m) \<le> sz"
    by (rule access_within[OF a(1,3)]) (simp add: a(2) elem_size_def)
  obtain c' where c: "store_u64 (Block sz c) i v = Ok (Block sz c')" "cells_fit MTYPE_INT sz c'"
      "load_u64 (Block sz c') i = Ok v" "\<And>j. j \<noteq> i \<Longrightarrow> Suc j * sizeof_u64 \<le> sz \<Longrightarrow> load_u64 (Block sz c') j = load_u64 (Block sz c) j"
    using load_store_u64[OF b(2) b(3)[OF a(4)], of v] by blast
  have ok: "meter_ok (m\<lparr>mt_lastmodified := lm, mt_d := Block sz c'\<rparr>)"
    by (rule meter_ok_block[OF a(3) _ b(4)]) (simp_all add: a(2) c(2))
  have "\<forall>j < elems (mt_count m). j \<noteq> i \<longrightarrow> load_u64 (Block sz c') j = load_u64 (Block sz c) j" using b(3) c(4) by blast
  then show "\<exists>d. meter_set_uint lm m i v = Ok (m\<lparr>mt_lastmodified := lm, mt_d := d\<rparr>) \<and> meter_ok (m\<lparr>mt_lastmodified := lm, mt_d := d\<rparr>) \<and>
      meter_get_uint (m\<lparr>mt_lastmodified := lm, mt_d := d\<rparr>) i = Ok (id v) \<and>
      (\<forall>j < elems (mt_count m). j \<noteq> i \<longrightarrow> meter_get_uint (m\<lparr>mt_lastmodified := lm, mt_d := d\<rparr>) j = meter_get_uint m j)"
    using a b(1) c ok by (intro exI[of _ "Block sz c'"]) (simp add: meter_set_uint_def meter_get_uint_def del: load_u64.simps store_u64.simps)
qed

interpretation mf: meter_access MTYPE_FRAC meter_get_frac meter_set_frac id
proof
  fix m i lm v
  assume a: "meter_ok m" "meter_type m = MTYPE_FRAC" "mt_count m < SZ_EMPTY_VAL" "i < elems (mt_count m)"
  obtain sz c where b: "mt_d m = Block sz c" "cells_fit MTYPE_FRAC sz c" "\<And>i. i < elems (mt_count m) \<Longrightarrow> Suc i * sizeof_u64 \<le> sz"
      "elems (mt_count m) * elem_size (meter_type m) \<le> sz"
    by (rule access_within[OF a(1,3)]) (simp add: a(2) elem_size_def)
  obtain c' where c: "store_frac (Block sz c) i v = Ok (Block sz c')" "cells_fit MTYPE_FRAC sz c'"
      "load_frac (Block sz c') i = Ok v" "\<And>j. j \<noteq> i \<Longrightarrow> Suc j * sizeof_u64 \<le> sz \<Longrightarrow> load_frac (Block sz c') j = load_frac (Block sz c) j"
    using load_store_frac[OF b(2) b(3)[OF a(4)], of v] by blast
  have ok: "meter_ok (m\<lparr>mt_lastmodified := lm, mt_d := Block sz c'\<rparr>)"
    by (rule meter_ok_block[OF a(3) _ b(4)]) (simp_all add: a(2) c(2))
  have "\<forall>j < elems (mt_count m). j \<noteq> i \<longrightarrow> load_frac (Block sz c') j = load_frac (Block sz c) j" using b(3) c(4) by blast
  then show "\<exists>d. meter_set_frac lm m i v = Ok (m\<lparr>mt_lastmodified := lm, mt_d := d\<rparr>) \<and> meter_ok (m\<lparr>mt_lastmodified := lm, mt_d := d\<rparr>) \<and>
      meter_get_frac (m\<lparr>mt_lastmodified := lm, mt_d := d\<rparr>) i = Ok (id v) \<and>
      (\<forall>j < elems (mt_count m). j \<noteq> i \<longrightarrow> meter_get_frac (m\<lparr>mt_lastmodified := lm, mt_d := d\<rparr>) j = meter_get_frac m j)"
    using a b(1) c ok by (intro exI[of _ "Block sz c'"]) (simp add: meter_set_frac_def meter_get_frac_def del: load_frac.simps store_frac.simps)
qed

interpretation ms: meter_access MTYPE_STR meter_get_str meter_set_str "c_truncate 127"
proof
  fix m i lm v
  assume a: "meter_ok m" "meter_type m = MTYPE_STR" "mt_count m < SZ_EMPTY_VAL" "i < elems (mt_count m)"
  obtain sz c where b: "mt_d m = Block sz c" "cells_fit MTYPE_STR sz c" "\<And>i. i < elems (mt_count m) \<Longrightarrow> Suc i * sizeof_fstring \<le> sz"
      "elems (mt_count m) * elem_size (meter_type m) \<le> sz"
    by (rule access_within[OF a(1,3)]) (simp add: a(2) elem_size_def)
  obtain c' where c: "store_str (Block sz c) i v = Ok (Block sz c')" "cells_fit MTYPE_STR sz c'"
      "load_str (Block sz c') i = Ok (c_truncate 127 v)" "\<And>j. j \<noteq> i \<Longrightarrow> Suc j * sizeof_fstring \<le> sz \<Longrightarrow> load_str (Block sz c') j = load_str (Block sz c) j"
    using load_store_str[OF b(2) b(3)[OF a(4)], of v] by blast
  have ok: "meter_ok (m\<lparr>mt_lastmodified := lm, mt_d := Block sz c'\<rparr>)"
    by (rule meter_ok_block[OF a(3) _ b(4)]) (simp_all add: a(2) c(2))
  have "\<forall>j < elems (mt_count m). j \<noteq> i \<longrightarrow> load_str (Block sz c') j = load_str (Block sz c) j" using b(3) c(4) by blast
  then show "\<exists>d. meter_set_str lm m i v = Ok (m\<lparr>mt_lastmodified := lm, mt_d := d\<rparr>) \<and> meter_ok (m\<lparr>mt_lastmodified := lm, mt_d := d\<rparr>) \<and>
      meter_get_str (m\<lparr>mt_lastmodified := lm, mt_d := d\<rparr>) i = Ok (c_truncate 127 v) \<and>
      (\<forall>j < elems (mt_count m). j \<noteq> i \<longrightarrow> meter_get_str (m\<lparr>mt_lastmodified := lm, mt_d := d\<rparr>) j = meter_get_str m j)"
    using a b(1) c ok by (intro exI[of _ "Block sz c'"]) (simp add: meter_set_str_def meter_get_str_def del: load_str.simps store_str.simps)
qed

end
