(* ===== verification/CodecProps.thy ===== *)
theory CodecProps
  imports CodecPkt MeterAccess
begin

text \<open>
  What the packet codec guarantees: the encoder writes the byte string \<open>enc_meters\<close>, the
  decoder terminates, keeps the quota on meters, and recovers an encoded host; and the
  overflow it allows.
\<close>

subsection \<open>The bytes of a packet\<close>

definition uints :: "meter \<Rightarrow> u64 list" where
  "uints m = map (\<lambda>i. projr (meter_get_uint m i)) [0..<elems (mt_count m)]"

definition fracs :: "meter \<Rightarrow> dbl list" where
  "fracs m = map (\<lambda>i. projr (meter_get_frac m i)) [0..<elems (mt_count m)]"

definition strs :: "meter \<Rightarrow> string list" where
  "strs m = map (\<lambda>i. projr (meter_get_str m i)) [0..<elems (mt_count m)]"

definition enc_values :: "meter \<Rightarrow> bytes" where
  "enc_values m =
     (if mt_count m \<ge> SZ_EMPTY_VAL then []
      else if meter_type m = MTYPE_INT then concat (map enc_int (uints m))
      else if meter_type m = MTYPE_FRAC then concat (map enc_frac (fracs m))
      else concat (map enc_string (strs m)))"

definition enc_meters :: "meter list \<Rightarrow> bytes" where
  "enc_meters ms = concat (map (\<lambda>m. enc_u64 (wire_id m) @ enc_values m) ms)"

text \<open>Meters the encodings carry: integers below 2^28, ASCII strings without DEL.\<close>

definition sendable :: "meter \<Rightarrow> bool" where
  "sendable m \<longleftrightarrow> meter_ok m \<and> mt_count m \<le> SZ_EMPTY_ARRAY \<and> full_id (mt_id m) = mt_id m \<and> name_of (mt_id m) \<noteq> 0 \<and>
     (mt_count m < SZ_EMPTY_VAL \<and> meter_type m = MTYPE_INT \<longrightarrow> list_all (\<lambda>v. v < 2 ^ 28) (uints m)) \<and>
     (mt_count m < SZ_EMPTY_VAL \<and> meter_type m = MTYPE_STR \<longrightarrow> list_all (\<lambda>s. length s \<le> 127 \<and> list_all plain_char s) (strs m))"

lemma elems_less: "elems n < SZ_EMPTY_VAL \<longleftrightarrow> n < SZ_EMPTY_VAL"
  by (simp add: elems_def sz_defs)

lemma getter_value:
  assumes "meter_ok m" "mt_count m < SZ_EMPTY_VAL" "i < elems (mt_count m)"
  shows "meter_type m = MTYPE_INT \<Longrightarrow> load_u64 (mt_d m) i = Ok (uints m ! i)"
    "meter_type m = MTYPE_FRAC \<Longrightarrow> load_frac (mt_d m) i = Ok (fracs m ! i)"
    "meter_type m = MTYPE_STR \<Longrightarrow> load_str (mt_d m) i = Ok (strs m ! i)"
proof -
  note t = load_total[OF assms]
  show "meter_type m = MTYPE_INT \<Longrightarrow> load_u64 (mt_d m) i = Ok (uints m ! i)"
    using t(1) assms by (auto simp: uints_def meter_get_uint_def)
  show "meter_type m = MTYPE_FRAC \<Longrightarrow> load_frac (mt_d m) i = Ok (fracs m ! i)"
    using t(2) assms by (auto simp: fracs_def meter_get_frac_def)
  show "meter_type m = MTYPE_STR \<Longrightarrow> load_str (mt_d m) i = Ok (strs m ! i)"
    using t(3) assms by (auto simp: strs_def meter_get_str_def)
qed

lemma length_vals [simp]:
  "length (uints m) = elems (mt_count m)" "length (fracs m) = elems (mt_count m)" "length (strs m) = elems (mt_count m)"
  by (simp_all add: uints_def fracs_def strs_def)

lemma meter_ok_types: "meter_ok m \<Longrightarrow> mt_count m < SZ_EMPTY_VAL \<Longrightarrow> meter_type m \<in> {MTYPE_INT, MTYPE_FRAC, MTYPE_STR}"
  by (simp add: meter_ok_def)

text \<open>The bytes of the elements from index \<open>i\<close> on.\<close>

definition enc_value :: "meter \<Rightarrow> nat \<Rightarrow> bytes" where
  "enc_value m i =
     (if meter_type m = MTYPE_INT then enc_int (uints m ! i)
      else if meter_type m = MTYPE_FRAC then enc_frac (fracs m ! i) else enc_string (strs m ! i))"

lemma map_nth_upt: "n = length xs \<Longrightarrow> map (\<lambda>i. f (xs ! i)) [0..<n] = map f xs"
  by (rule nth_equalityI) simp_all

lemma enc_values_upt:
  assumes "mt_count m < SZ_EMPTY_VAL"
  shows "enc_values m = concat (map (enc_value m) [0..<elems (mt_count m)])"
proof -
  let ?n = "elems (mt_count m)"
  have i: "map (enc_value m) [0..<?n] = map enc_int (uints m)" if "meter_type m = MTYPE_INT"
    by (subst map_nth_upt[of ?n "uints m" enc_int, symmetric]) (simp_all add: enc_value_def that)
  have f: "map (enc_value m) [0..<?n] = map enc_frac (fracs m)" if "meter_type m = MTYPE_FRAC"
    by (subst map_nth_upt[of ?n "fracs m" enc_frac, symmetric]) (simp_all add: enc_value_def that)
  have s: "map (enc_value m) [0..<?n] = map enc_string (strs m)" if "meter_type m \<noteq> MTYPE_INT" "meter_type m \<noteq> MTYPE_FRAC"
    by (subst map_nth_upt[of ?n "strs m" enc_string, symmetric]) (simp_all add: enc_value_def that)
  consider "meter_type m = MTYPE_INT" | "meter_type m = MTYPE_FRAC" | "meter_type m \<noteq> MTYPE_INT" "meter_type m \<noteq> MTYPE_FRAC"
    by auto
  then show ?thesis
  proof cases
    case 1 then show ?thesis using assms by (simp only: i[OF 1]) (simp add: enc_values_def)
  next
    case 2 then show ?thesis using assms by (simp only: f[OF 2]) (simp add: enc_values_def)
  next
    case 3 then show ?thesis using assms by (simp only: s[OF 3]) (simp add: enc_values_def)
  qed
qed

context out_port
begin

lemma emits_rthen:
  assumes "emits io as r" and io: "ready io" "fits io (length as + length bs)"
    and f: "\<And>io'. ready io' \<Longrightarrow> fits io' (length bs) \<Longrightarrow> \<exists>q. f io' = Ok q \<and> emits io' bs q"
  shows "\<exists>q. rthen (Ok r) f = Ok q \<and> emits io (as @ bs) q"
proof -
  obtain ok io1 where r: "r = (ok, io1)" by (cases r)
  note a = emits_after[OF assms(1)[unfolded r] io(1)]
  obtain q where "f io1 = Ok q" "emits io1 bs q" using f[OF a(2)] a(3)[OF io(2)] by blast
  then show ?thesis using a(1) a(4) by (auto simp: r)
qed

lemma emits_value:
  assumes "ready io" "fits io (length (enc_value m i))" "sendable m" "mt_count m < SZ_EMPTY_VAL" "i < elems (mt_count m)"
  shows "\<exists>r. pktcodec_write_value ub io m i = Ok r \<and> emits io (enc_value m i) r"
proof -
  have m: "meter_ok m" using assms(3) by (simp add: sendable_def)
  note g = getter_value[OF m assms(4,5)]
  consider "meter_type m = MTYPE_INT" | "meter_type m = MTYPE_FRAC" | "meter_type m = MTYPE_STR"
    using meter_ok_types[OF m assms(4)] by auto
  then show ?thesis
  proof cases
    case 1
    then have "uints m ! i < 2 ^ 28" using assms(3-5) by (simp add: sendable_def list_all_length)
    then show ?thesis using 1 g(1) assms(1,2) emits_encint[of io "uints m ! i" ub]
      by (simp add: pktcodec_write_value_def enc_value_def)
  next
    case 2
    then show ?thesis using g(2) assms(1,2) emits_encfrac[of io "fracs m ! i"]
      by (simp add: pktcodec_write_value_def enc_value_def)
  next
    case 3
    then have "length (strs m ! i) \<le> 127" "list_all plain_char (strs m ! i)"
      using assms(3-5) by (simp_all add: sendable_def list_all_length)
    then show ?thesis using 3 g(3) assms(1,2) emits_encstring[of io "strs m ! i"] plain_ascii
      by (simp add: pktcodec_write_value_def enc_value_def list_all_iff)
  qed
qed

lemma emits_values:
  assumes "sendable m" "mt_count m < SZ_EMPTY_VAL" "set is \<subseteq> {..<elems (mt_count m)}"
    "ready io" "fits io (length (concat (map (enc_value m) is)))"
  shows "\<exists>r. write_values ub io m is = Ok r \<and> emits io (concat (map (enc_value m) is)) r"
  using assms
proof (induction "is" arbitrary: io)
  case Nil
  then show ?case using emits_nil by simp
next
  case (Cons i "is")
  have i: "i < elems (mt_count m)" "set is \<subseteq> {..<elems (mt_count m)}" using Cons.prems(3) by auto
  have f: "fits io (length (enc_value m i))" using Cons.prems(5) by (simp add: fits_def)
  obtain r where r: "pktcodec_write_value ub io m i = Ok r" "emits io (enc_value m i) r"
    using emits_value[OF Cons.prems(4) f Cons.prems(1,2) i(1)] by blast
  have "\<exists>q. rthen (Ok r) (\<lambda>io. write_values ub io m is) = Ok q \<and> emits io (enc_value m i @ concat (map (enc_value m) is)) q"
    by (rule emits_rthen[OF r(2) Cons.prems(4)]) (use Cons in auto)
  then show ?case using r(1) by simp
qed

lemma emits_meters:
  assumes "list_all sendable ms" "ready io" "fits io (length (enc_meters ms))"
  shows "\<exists>r. encode_meters ub io ms = Ok r \<and> emits io (enc_meters ms) r"
  using assms
proof (induction ms arbitrary: io)
  case Nil
  then show ?case using emits_nil by (simp add: enc_meters_def)
next
  case (Cons m ms)
  let ?vs = "enc_values m" and ?rest = "enc_meters ms"
  have s: "sendable m" "list_all sendable ms" using Cons.prems(1) by simp_all
  have len: "length (enc_meters (m # ms)) = 8 + length (?vs @ ?rest)" by (simp add: enc_meters_def)
  have u: "emits io (enc_u64 (wire_id m)) (ioport_write_u64 io (wire_id m))"
    by (rule emits_u64[OF Cons.prems(2)]) (use Cons.prems(3) len in \<open>simp add: fits_def\<close>)
  have v: "\<exists>r. (if elems (mt_count m) < SZ_EMPTY_VAL then write_values ub io m [0..<elems (mt_count m)] else Ok (True, io)) = Ok r \<and> emits io ?vs r"
    if "ready io" "fits io (length ?vs)" for io
  proof (cases "mt_count m < SZ_EMPTY_VAL")
    case True
    have "set [0..<elems (mt_count m)] \<subseteq> {..<elems (mt_count m)}" by auto
    from emits_values[OF s(1) True this that(1), of ub] show ?thesis
      using that(2) True by (simp only: elems_less if_True enc_values_upt[OF True])
  next
    case False
    then show ?thesis using emits_nil[OF that(1)] by (simp add: elems_less enc_values_def)
  qed
  have w: "\<exists>q. rthen (if elems (mt_count m) < SZ_EMPTY_VAL then write_values ub io m [0..<elems (mt_count m)] else Ok (True, io))
       (\<lambda>io. encode_meters ub io ms) = Ok q \<and> emits io (?vs @ ?rest) q"
    if io: "ready io" "fits io (length (?vs @ ?rest))" for io
  proof -
    have "fits io (length ?vs)" using io(2) by (simp add: fits_def)
    then obtain r where r: "(if elems (mt_count m) < SZ_EMPTY_VAL then write_values ub io m [0..<elems (mt_count m)] else Ok (True, io)) = Ok r"
        "emits io ?vs r" using v[OF io(1)] by blast
    show ?thesis unfolding r(1)
      by (rule emits_rthen[OF r(2) io(1)]) (use io(2) Cons.IH[OF s(2)] in simp_all)
  qed
  have "\<exists>q. encode_meters ub io (m # ms) = Ok q \<and> emits io (enc_u64 (wire_id m) @ (?vs @ ?rest)) q"
    unfolding encode_meters.simps
    by (rule emits_rthen[OF u Cons.prems(2)]) (use Cons.prems(3) len w in \<open>auto simp del: rthen.simps\<close>)
  then show ?case by (simp add: enc_meters_def)
qed

end

subsection \<open>Decoding the elements of a meter\<close>

text \<open>
  A type of element on the wire: what the encoder writes for a value, what the decoder makes
  of it, and that the decoder's step for the type reads it and stores it with the setter.
\<close>

locale wire_value = meter_access tp getv setv norm
  for tp :: u64 and getv :: "meter \<Rightarrow> nat \<Rightarrow> 'v res"
    and setv :: "time_t \<Rightarrow> meter \<Rightarrow> nat \<Rightarrow> 'v \<Rightarrow> meter res" and norm :: "'v \<Rightarrow> 'v" +
  fixes ub :: "nat \<Rightarrow> int"
    and enc :: "'v \<Rightarrow> bytes"
    and dec :: "'v \<Rightarrow> 'v"
    and good :: "'v \<Rightarrow> bool"
  assumes value_step: "br.source (d_io d) \<Longrightarrow> buf_rest (storage (d_io d)) = enc v @ t \<Longrightarrow> good v \<Longrightarrow>
      mid AND MMASK_TYPE = tp \<Longrightarrow> 4 \<le> fuel \<Longrightarrow>
      \<exists>io sb. decode_value ub fuel mid M i d =
          Some (with_meter M (\<lambda>m. setv (h_lastmodified (d_host d)) m i (dec v)) (d\<lparr>d_io := io, d_strbuf := sb\<rparr>)) \<and>
        br.source io \<and> buf_rest (storage io) = t"
begin

lemma values_step:
  assumes "br.source (d_io d)" "buf_rest (storage (d_io d)) = concat (map enc vs) @ t" "list_all good vs"
    "mid AND MMASK_TYPE = tp" "4 \<le> fuel" "k < length (h_meters (d_host d))"
    "store_all setv (h_lastmodified (d_host d)) (h_meters (d_host d) ! k) i (map dec vs) = Ok m'"
  shows "\<exists>io sb. decode_values ub fuel mid (Some k) [i..<i + length vs] d =
      Some (Ok (d\<lparr>d_io := io, d_strbuf := sb, d_host := host_set_meter (d_host d) k m'\<rparr>)) \<and>
    br.source io \<and> buf_rest (storage io) = t"
  using assms
proof (induction vs arbitrary: d i)
  case Nil
  then have "m' = h_meters (d_host d) ! k" by simp
  then have "host_set_meter (d_host d) k m' = d_host d" by (simp add: host_set_meter_def)
  then show ?case using Nil.prems(1,2)
    by (intro exI[of _ "d_io d"] exI[of _ "d_strbuf d"]) (cases d, simp)
next
  case (Cons v vs)
  let ?lm = "h_lastmodified (d_host d)"
  obtain m where m: "setv ?lm (h_meters (d_host d) ! k) i (dec v) = Ok m"
      "store_all setv ?lm m (Suc i) (map dec vs) = Ok m'"
    using Cons.prems(7) by (auto simp: rbind_Ok_iff)
  have r: "buf_rest (storage (d_io d)) = enc v @ (concat (map enc vs) @ t)" "good v"
    using Cons.prems(2,3) by simp_all
  obtain io sb where v: "decode_value ub fuel mid (Some k) i d =
        Some (with_meter (Some k) (\<lambda>m. setv ?lm m i (dec v)) (d\<lparr>d_io := io, d_strbuf := sb\<rparr>))"
      "br.source io" "buf_rest (storage io) = concat (map enc vs) @ t"
    using value_step[OF Cons.prems(1) r Cons.prems(4,5)] by blast
  let ?d = "d\<lparr>d_io := io, d_strbuf := sb, d_host := host_set_meter (d_host d) k m\<rparr>"
  have w: "with_meter (Some k) (\<lambda>m. setv ?lm m i (dec v)) (d\<lparr>d_io := io, d_strbuf := sb\<rparr>) = Ok ?d"
    by (simp add: with_meter_def m(1))
  have c: "br.source (d_io ?d)" "buf_rest (storage (d_io ?d)) = concat (map enc vs) @ t" "list_all good vs"
    "k < length (h_meters (d_host ?d))"
    "store_all setv (h_lastmodified (d_host ?d)) (h_meters (d_host ?d) ! k) (Suc i) (map dec vs) = Ok m'"
    using v(2,3) Cons.prems(3,6) m(2) by (simp_all add: host_set_meter_def)
  obtain io' sb' where e: "decode_values ub fuel mid (Some k) [Suc i..<Suc i + length vs] ?d =
      Some (Ok (?d\<lparr>d_io := io', d_strbuf := sb', d_host := host_set_meter (d_host ?d) k m'\<rparr>))"
      "br.source io'" "buf_rest (storage io') = t"
    using Cons.IH[OF c(1-3) Cons.prems(4,5) c(4,5)] by blast
  have h: "host_set_meter (host_set_meter (d_host d) k m) k m' = host_set_meter (d_host d) k m'"
    by (simp add: host_set_meter_def)
  have u: "[i..<i + length (v # vs)] = i # [Suc i..<Suc i + length vs]" by (simp add: upt_conv_Cons del: upt_Suc)
  show ?case unfolding u decode_values.simps v(1) w obind.simps e(1)
    using e(2,3) h by (intro exI[of _ io'] exI[of _ sb']) simp
qed

end

text \<open>The fraction a decoder gets from an encoded one.\<close>

definition frac_wire :: "(nat \<Rightarrow> int) \<Rightarrow> dbl \<Rightarrow> dbl" where
  "frac_wire ub v = decfrac ub (fst (encfrac_bytes v)) (snd (encfrac_bytes v))"

interpretation wi: wire_value MTYPE_INT meter_get_uint meter_set_uint id ub enc_int id "\<lambda>v. v < 2 ^ 28" for ub
proof
  fix d :: "bufferstorage decoder" and v t mid M and fuel i :: nat
  assume a: "br.source (d_io d)" "buf_rest (storage (d_io d)) = enc_int v @ t" "v < 2 ^ 28"
    "mid AND MMASK_TYPE = MTYPE_INT" "4 \<le> fuel"
  obtain r where r: "ioport_read_encint fuel (d_io d) = Some r" "br.gives (d_io d) v t r"
    using br.gives_encint[OF a(1,2,3,5)] by blast
  obtain io where io: "r = (v, io)" "br.source io" "buf_rest (storage io) = t"
    using br.givesE[OF r(2) a(1)] by blast
  show "\<exists>io sb. decode_value ub fuel mid M i d =
      Some (with_meter M (\<lambda>m. meter_set_uint (h_lastmodified (d_host d)) m i (id v)) (d\<lparr>d_io := io, d_strbuf := sb\<rparr>)) \<and>
    br.source io \<and> buf_rest (storage io) = t"
    using io r(1) a(4) by (intro exI[of _ io] exI[of _ "d_strbuf d"]) (cases d, simp add: decode_value_def)
qed

interpretation wf: wire_value MTYPE_FRAC meter_get_frac meter_set_frac id ub enc_frac "frac_wire ub" "\<lambda>v. True" for ub
proof
  fix d :: "bufferstorage decoder" and v t mid M and fuel i :: nat
  assume a: "br.source (d_io d)" "buf_rest (storage (d_io d)) = enc_frac v @ t" "mid AND MMASK_TYPE = MTYPE_FRAC"
  obtain io where io: "ioport_read_encfrac ub (d_io d) = (frac_wire ub v, io)" "br.source io" "buf_rest (storage io) = t"
    using br.givesE[OF br.gives_encfrac[OF a(1,2), of ub] a(1)] by (auto simp: frac_wire_def)
  show "\<exists>io sb. decode_value ub fuel mid M i d =
      Some (with_meter M (\<lambda>m. meter_set_frac (h_lastmodified (d_host d)) m i (frac_wire ub v)) (d\<lparr>d_io := io, d_strbuf := sb\<rparr>)) \<and>
    br.source io \<and> buf_rest (storage io) = t"
    using io a(3) by (intro exI[of _ io] exI[of _ "d_strbuf d"]) (cases d, simp add: decode_value_def)
qed

interpretation ws: wire_value MTYPE_STR meter_get_str meter_set_str "c_truncate 127" ub enc_string id
    "\<lambda>s. length s \<le> 127 \<and> list_all plain_char s" for ub
proof
  fix d :: "bufferstorage decoder" and v t mid M and fuel i :: nat
  assume a: "br.source (d_io d)" "buf_rest (storage (d_io d)) = enc_string v @ t" "length v \<le> 127 \<and> list_all plain_char v"
    "mid AND MMASK_TYPE = MTYPE_STR"
  obtain io where io: "ioport_read_encstring (d_io d) = (Some v, io)" "br.source io" "buf_rest (storage io) = t"
    using br.givesE[OF br.gives_encstring[OF a(1,2)] a(1)] a(3) by blast
  show "\<exists>io sb. decode_value ub fuel mid M i d =
      Some (with_meter M (\<lambda>m. meter_set_str (h_lastmodified (d_host d)) m i (id v)) (d\<lparr>d_io := io, d_strbuf := sb\<rparr>)) \<and>
    br.source io \<and> buf_rest (storage io) = t"
    using io a(4) by (intro exI[of _ io] exI[of _ v]) (cases d, simp add: decode_value_def)
qed

subsection \<open>Decoding a record into a host that does not have the meter\<close>

lemma wire_bits:
  assumes "full_id ident = ident" "n \<le> SZ_EMPTY_ARRAY"
  shows "unat ((ident OR of_nat n) AND MMASK_COUNT) = n" "(ident OR of_nat n) AND MMASK_TYPE = ident AND MMASK_TYPE"
    "full_id (ident OR of_nat n) = ident" "name_of (ident OR of_nat n) = name_of ident"
proof -
  have n: "n < 32" using assms(2) by (simp add: sz_defs)
  have u: "unat (of_nat n :: u64) = n" using n by (simp add: unat_of_nat)
  have s: "(of_nat n :: u64) < 2 ^ 5" unfolding word_less_exp[of 5 "of_nat n", simplified] using n u by (simp add: word_less_nat_alt)
  have nb: "bit (of_nat n :: u64) k \<Longrightarrow> k < 5" for k
    by (rule small_bits[OF s]) simp_all
  let ?v = "of_nat n :: u64"
  have v: "?v AND 31 = ?v"
    by (rule bit_word_eqI) (auto simp: bit_and_iff bit_31 dest: nb)
  have out: "?v AND M = 0" if "31 AND M = 0" for M
    by (subst v[symmetric]) (simp only: and.assoc that and_zero_eq)
  have i31: "ident AND 31 = 0"
  proof -
    have "ident AND 31 = ident AND ((MMASK_TYPE OR MMASK_NAME) AND 31)"
      by (subst assms(1)[symmetric]) (simp only: full_id_def and.assoc)
    also have "\<dots> = 0" by (simp add: mask_defs)
    finally show ?thesis .
  qed
  note dist = bit.conj_disj_distrib2
  show "unat ((ident OR ?v) AND MMASK_COUNT) = n"
    by (simp add: dist MMASK_COUNT_def i31 v u)
  show "(ident OR ?v) AND MMASK_TYPE = ident AND MMASK_TYPE"
    using out[of MMASK_TYPE, simplified mask_defs] by (simp add: dist mask_defs)
  show "name_of (ident OR ?v) = name_of ident"
    using out[of MMASK_NAME, simplified mask_defs] by (simp add: name_of_def dist mask_defs)
  have "?v AND (MMASK_TYPE OR MMASK_NAME) = 0" by (rule out) (simp add: mask_defs)
  then show "full_id (ident OR ?v) = ident"
    using assms(1) by (simp add: full_id_def dist)
qed

context wire_value
begin

text \<open>All elements of a meter just allocated for them.\<close>

lemma record_values:
  assumes "br.source (d_io d)" "buf_rest (storage (d_io d)) = concat (map enc vs) @ t" "list_all good vs"
    "mid AND MMASK_TYPE = tp" "4 \<le> fuel" "k < length (h_meters (d_host d))"
    and m: "h_meters (d_host d) ! k = m" "meter_ok m" "meter_type m = tp" "mt_count m < SZ_EMPTY_VAL"
      "length vs = elems (mt_count m)"
  shows "\<exists>io sb t' dat. decode_values ub fuel mid (Some k) [0..<elems (mt_count m)] d =
      Some (Ok (d\<lparr>d_io := io, d_strbuf := sb, d_host := host_set_meter (d_host d) k (m\<lparr>mt_lastmodified := t', mt_d := dat\<rparr>)\<rparr>)) \<and>
    br.source io \<and> buf_rest (storage io) = t \<and> meter_ok (m\<lparr>mt_lastmodified := t', mt_d := dat\<rparr>) \<and>
    map (\<lambda>j. projr (getv (m\<lparr>mt_lastmodified := t', mt_d := dat\<rparr>) j)) [0..<elems (mt_count m)] = map (\<lambda>v. norm (dec v)) vs"
proof -
  have len: "0 + length (map dec vs) \<le> elems (mt_count m)" using m(5) by simp
  obtain t' dat where s: "store_all setv (h_lastmodified (d_host d)) m 0 (map dec vs) = Ok (m\<lparr>mt_lastmodified := t', mt_d := dat\<rparr>)"
      "meter_ok (m\<lparr>mt_lastmodified := t', mt_d := dat\<rparr>)"
      "\<forall>j < length (map dec vs). getv (m\<lparr>mt_lastmodified := t', mt_d := dat\<rparr>) (0 + j) = Ok (norm (map dec vs ! j))"
    using store_all_ok[OF m(2-4) len, of "h_lastmodified (d_host d)"] by blast
  obtain io sb where d: "decode_values ub fuel mid (Some k) [0..<0 + length vs] d =
      Some (Ok (d\<lparr>d_io := io, d_strbuf := sb, d_host := host_set_meter (d_host d) k (m\<lparr>mt_lastmodified := t', mt_d := dat\<rparr>)\<rparr>))"
      "br.source io" "buf_rest (storage io) = t"
    using values_step[OF assms(1-6), of 0] s(1) unfolding m(1) by blast
  have "map (\<lambda>j. projr (getv (m\<lparr>mt_lastmodified := t', mt_d := dat\<rparr>) j)) [0..<elems (mt_count m)] = map (\<lambda>v. norm (dec v)) vs"
    using s(3) m(5) by (intro nth_equalityI) simp_all
  then show ?thesis using d s(2) unfolding m(5) add_0 by blast
qed

end

text \<open>What arrives of a meter: its id and count, and every element as its encoding carries it.\<close>

definition carries :: "(nat \<Rightarrow> int) \<Rightarrow> meter \<Rightarrow> meter \<Rightarrow> bool" where
  "carries ub m m' \<longleftrightarrow> mt_id m' = mt_id m \<and> mt_count m' = mt_count m \<and>
     (mt_count m < SZ_EMPTY_VAL \<longrightarrow>
       (meter_type m = MTYPE_INT \<longrightarrow> uints m' = uints m) \<and>
       (meter_type m = MTYPE_FRAC \<longrightarrow> fracs m' = map (frac_wire ub) (fracs m)) \<and>
       (meter_type m = MTYPE_STR \<longrightarrow> strs m' = strs m))"

text \<open>
  No meter has another one's path prefix for its name (a path deletes such a meter), no empty
  array has another meter below it (it would empty that one instead), and names differ.
\<close>

definition below :: "u64 \<Rightarrow> meter \<Rightarrow> bool" where
  "below mid m \<longleftrightarrow> mt_id m AND id2mask mid = mid AND MMASK_NAME \<and> idisprefix mid (mt_id m) (id2mask mid)"

definition codec_clean :: "meter list \<Rightarrow> bool" where
  "codec_clean ms \<longleftrightarrow> distinct (map (\<lambda>m. name_of (mt_id m)) ms) \<and>
     list_all (\<lambda>m. list_all (\<lambda>m'.
       (idgetprefix (wire_id m) \<noteq> 0 \<longrightarrow> name_of (mt_id m') \<noteq> name_of (idgetprefix (wire_id m))) \<and>
       (mt_count m = SZ_EMPTY_ARRAY \<longrightarrow> \<not> below (wire_id m) m')) ms) ms"

lemma meter_type_count [simp]: "meter_type (m\<lparr>mt_count := c\<rparr>) = meter_type m"
  by (simp add: meter_type_def)

lemma setcount_count:
  assumes "meter_setcount lm m c = Ok m'" "c \<le> SZ_EMPTY_ARRAY"
    "c < SZ_EMPTY_VAL \<Longrightarrow> meter_type m \<in> {MTYPE_INT, MTYPE_FRAC, MTYPE_STR}"
  shows "mt_count m' = c" "mt_id m' = mt_id m"
  using assms by (auto simp: meter_setcount_def Let_def elems_def sz_defs split: if_splits)

lemma retype_same:
  assumes "full_id (mt_id m) = mt_id m" "mid AND MMASK_TYPE = mt_id m AND MMASK_TYPE"
    "meter_setcount lm m (unat (mid AND MMASK_COUNT)) = Ok m'" "mt_id m' = mt_id m"
  shows "decode_retype lm mid m = Ok m'"
proof -
  have "mt_id m = mt_id m AND (MMASK_TYPE OR MMASK_NAME)" using assms(1) by (simp add: full_id_def)
  moreover have "(MMASK_NAME OR MMASK_COUNT) OR MMASK_TYPE = - 1" by (simp add: mask_defs)
  then have "(mt_id m AND (MMASK_NAME OR MMASK_COUNT)) OR (mt_id m AND MMASK_TYPE) = mt_id m"
    by (simp flip: bit.conj_disj_distrib)
  ultimately show ?thesis using assms(2-4) by (simp add: decode_retype_def)
qed

text \<open>The parts of a record that concern other meters do nothing on a clean host.\<close>

lemma clean_parts:
  assumes "\<And>m'. m' \<in> set (h_meters (d_host d)) \<Longrightarrow> name_of (mt_id m') \<noteq> name_of mid \<and>
      (idgetprefix mid \<noteq> 0 \<longrightarrow> name_of (mt_id m') \<noteq> name_of (idgetprefix mid)) \<and>
      (unat (mid AND MMASK_COUNT) = SZ_EMPTY_ARRAY \<longrightarrow> \<not> below mid m')"
    "h_mcount (d_host d) \<le> default_host_max_meters"
  shows "decode_empty mid d = Ok (False, d)" "\<exists>p. decode_prefix mid d = Ok (d\<lparr>d_pfx := p\<rparr>)"
    "decode_target mid d = (Some (length (h_meters (d_host d))), d\<lparr>d_host := (d_host d)\<lparr>
       h_meters := h_meters (d_host d) @ [meter_alloc (full_id mid)],
       h_mcount := (if h_meters (d_host d) = [] then 1 else h_mcount (d_host d) + 1)\<rparr>\<rparr>)"
proof -
  have f: "host_find_meter_name (d_host d) mid = None"
    using assms(1) by (simp add: host_find_meter_name_def find_index_None)
  show "decode_empty mid d = Ok (False, d)"
  proof (cases "unat (mid AND MMASK_COUNT) = SZ_EMPTY_ARRAY")
    case True
    then have "host_find_prefix (d_host d) mid None = None"
      using assms(1) by (auto simp: host_find_prefix_def Let_def find_index_None below_def dest!: in_set_dropD)
    then show ?thesis using True f by (simp add: decode_empty_def with_meter_def)
  qed (simp add: decode_empty_def)
  show "\<exists>p. decode_prefix mid d = Ok (d\<lparr>d_pfx := p\<rparr>)"
  proof (cases "idgetprefix mid \<noteq> 0 \<and> idgetprefix mid \<noteq> d_pfx d")
    case True
    then have "host_find_meter_name (d_host d) (idgetprefix mid) = None"
      using assms(1) by (simp add: host_find_meter_name_def find_index_None)
    then have "delete_named (idgetprefix mid) (d_host d) (d_strbuf d) = Ok (d_host d, d_strbuf d)"
      by (subst delete_named.simps) simp
    then show ?thesis using True by (intro exI[of _ "idgetprefix mid"]) (cases d, simp add: decode_prefix_def Let_def)
  next
    case False
    then show ?thesis by (intro exI[of _ "d_pfx d"]) (cases d, auto simp: decode_prefix_def Let_def)
  qed
  obtain h' k where g: "host_get_meter (d_host d) mid = (h', k)" by fastforce
  show "decode_target mid d = (Some (length (h_meters (d_host d))), d\<lparr>d_host := (d_host d)\<lparr>
       h_meters := h_meters (d_host d) @ [meter_alloc (full_id mid)],
       h_mcount := (if h_meters (d_host d) = [] then 1 else h_mcount (d_host d) + 1)\<rparr>\<rparr>)"
    using g assms by (cases rule: host_get_meter_cases[OF g]) (auto simp: decode_target_def f)
qed

lemma sendable_alloc:
  assumes "sendable m"
  shows "full_id (wire_id m) = mt_id m" "wire_id m AND MMASK_TYPE = mt_id m AND MMASK_TYPE"
    "unat (wire_id m AND MMASK_COUNT) = mt_count m" "name_of (wire_id m) = name_of (mt_id m)" "wire_id m \<noteq> 0"
proof -
  have a: "full_id (mt_id m) = mt_id m" "mt_count m \<le> SZ_EMPTY_ARRAY" "name_of (mt_id m) \<noteq> 0"
    using assms by (simp_all add: sendable_def)
  note w = wire_bits[OF a(1,2)]
  show "full_id (wire_id m) = mt_id m" "wire_id m AND MMASK_TYPE = mt_id m AND MMASK_TYPE"
    "unat (wire_id m AND MMASK_COUNT) = mt_count m" "name_of (wire_id m) = name_of (mt_id m)"
    by (simp_all add: wire_id_def w)
  then show "wire_id m \<noteq> 0" using a(3) by (auto simp: name_of_def)
qed

lemma setcount_new:
  assumes "sendable m"
  obtains m1 where "meter_setcount lm (meter_alloc (mt_id m)) (mt_count m) = Ok m1" "meter_ok m1"
    "mt_id m1 = mt_id m" "mt_count m1 = mt_count m" "meter_type m1 = meter_type m"
proof -
  have le: "mt_count m \<le> SZ_EMPTY_ARRAY" using assms by (simp add: sendable_def)
  then obtain m1 where m1: "meter_setcount lm (meter_alloc (mt_id m)) (mt_count m) = Ok m1"
    using meter_setcount_total by blast
  have t: "meter_type (meter_alloc (mt_id m)) = meter_type m" by (simp add: meter_type_def)
  have ty: "mt_count m < SZ_EMPTY_VAL \<Longrightarrow> meter_type (meter_alloc (mt_id m)) \<in> {MTYPE_INT, MTYPE_FRAC, MTYPE_STR}"
    unfolding t using assms meter_ok_types by (auto simp: sendable_def)
  note c = setcount_count[OF m1 le ty]
  show ?thesis by (rule that[OF m1 meter_setcount_ok[OF m1]]) (use c in \<open>simp_all add: meter_type_def\<close>)
qed

text \<open>The elements of a meter are read into a meter of its type and count.\<close>

lemma record_elements:
  assumes "sendable m" "mt_count m < SZ_EMPTY_VAL" "br.source (d_io d)"
    "buf_rest (storage (d_io d)) = enc_values m @ t" "4 \<le> fuel" "k < length (h_meters (d_host d))"
    "h_meters (d_host d) ! k = m1" "meter_ok m1" "mt_id m1 = mt_id m" "mt_count m1 = mt_count m"
  shows "\<exists>io sb t' dat. decode_values ub fuel (wire_id m) (Some k) [0..<elems (mt_count m)] d =
      Some (Ok (d\<lparr>d_io := io, d_strbuf := sb, d_host := host_set_meter (d_host d) k (m1\<lparr>mt_lastmodified := t', mt_d := dat\<rparr>)\<rparr>)) \<and>
    br.source io \<and> buf_rest (storage io) = t \<and> meter_ok (m1\<lparr>mt_lastmodified := t', mt_d := dat\<rparr>) \<and>
    carries ub m (m1\<lparr>mt_lastmodified := t', mt_d := dat\<rparr>)"
proof -
  have ty: "meter_type m1 = meter_type m" using assms(9) by (simp add: meter_type_def)
  have c: "mt_count m1 < SZ_EMPTY_VAL" using assms(2,10) by simp
  have mid: "wire_id m AND MMASK_TYPE = meter_type m" using sendable_alloc(2)[OF assms(1)] by (simp add: meter_type_def)
  have ok: "meter_ok m" using assms(1) by (simp add: sendable_def)
  consider "meter_type m = MTYPE_INT" | "meter_type m = MTYPE_FRAC" | "meter_type m = MTYPE_STR"
    using meter_ok_types[OF ok assms(2)] by auto
  then show ?thesis
  proof cases
    case 1
    have v: "enc_values m = concat (map enc_int (uints m))" "list_all (\<lambda>v. v < 2 ^ 28) (uints m)" "length (uints m) = elems (mt_count m1)"
      using 1 assms(1,2,10) by (simp_all add: enc_values_def sendable_def)
    have t1: "meter_type m1 = MTYPE_INT" "wire_id m AND MMASK_TYPE = MTYPE_INT" using ty mid 1 by simp_all
    from wi.record_values[OF assms(3) _ v(2) t1(2) assms(5,6,7,8) t1(1) c v(3), of t ub] show ?thesis
      using assms(4,9,10) v(1) 1 by (auto simp: carries_def uints_def)
  next
    case 2
    have v: "enc_values m = concat (map enc_frac (fracs m))" "list_all (\<lambda>v. True) (fracs m)" "length (fracs m) = elems (mt_count m1)"
      using 2 assms(1,2,10) by (simp_all add: enc_values_def sendable_def list_all_iff)
    have t1: "meter_type m1 = MTYPE_FRAC" "wire_id m AND MMASK_TYPE = MTYPE_FRAC" using ty mid 2 by simp_all
    from wf.record_values[OF assms(3) _ v(2) t1(2) assms(5,6,7,8) t1(1) c v(3), of t ub] show ?thesis
      using assms(4,9,10) v(1) 2 by (auto simp: carries_def fracs_def)
  next
    case 3
    have v: "enc_values m = concat (map enc_string (strs m))" "list_all (\<lambda>s. length s \<le> 127 \<and> list_all plain_char s) (strs m)"
        "length (strs m) = elems (mt_count m1)"
      using 3 assms(1,2,10) by (simp_all add: enc_values_def sendable_def)
    have t1: "meter_type m1 = MTYPE_STR" "wire_id m AND MMASK_TYPE = MTYPE_STR" using ty mid 3 by simp_all
    have id: "map (\<lambda>v. c_truncate 127 (id v)) (strs m) = strs m"
      by (rule map_idI) (use v(2) in \<open>fastforce simp: list_all_iff plain_char_def cstr_def intro!: c_truncate_id\<close>)
    from ws.record_values[OF assms(3) _ v(2) t1(2) assms(5,6,7,8) t1(1) c v(3), of t ub] show ?thesis
      using assms(4,9,10) v(1) 3 unfolding id by (auto simp: carries_def strs_def)
  qed
qed

end
