(* ===== verification/CodecRound.thy ===== *)
theory CodecRound
  imports CodecProps
begin

text \<open>
  Encoding a host and decoding the packet into a new one, termination of the decoder, the
  quota on meters, and the heap overflow a change of type allows.
\<close>

lemma decode_record_ok:
  assumes s: "sendable m" and io: "br.source (d_io d)" "buf_rest (storage (d_io d)) = enc_values m @ t" "4 \<le> fuel"
    and h: "host_ok (d_host d)" "h_mcount (d_host d) \<le> default_host_max_meters"
    and clean: "\<And>m'. m' \<in> set (h_meters (d_host d)) \<Longrightarrow> name_of (mt_id m') \<noteq> name_of (mt_id m) \<and>
      (idgetprefix (wire_id m) \<noteq> 0 \<longrightarrow> name_of (mt_id m') \<noteq> name_of (idgetprefix (wire_id m))) \<and>
      (mt_count m = SZ_EMPTY_ARRAY \<longrightarrow> \<not> below (wire_id m) m')"
  shows "\<exists>d' m'. decode_record ub fuel (wire_id m) d = Some (Ok (True, d')) \<and>
    h_meters (d_host d') = h_meters (d_host d) @ [m'] \<and> carries ub m m' \<and> host_ok (d_host d') \<and>
    br.source (d_io d') \<and> buf_rest (storage (d_io d')) = t"
proof -
  note w = sendable_alloc[OF s]
  let ?h = "d_host d" and ?k = "length (h_meters (d_host d))" and ?mid = "wire_id m"
  have cl: "name_of (mt_id m') \<noteq> name_of ?mid \<and>
      (idgetprefix ?mid \<noteq> 0 \<longrightarrow> name_of (mt_id m') \<noteq> name_of (idgetprefix ?mid)) \<and>
      (unat (?mid AND MMASK_COUNT) = SZ_EMPTY_ARRAY \<longrightarrow> \<not> below ?mid m')" if "m' \<in> set (h_meters ?h)" for m'
    using clean[OF that] w(3,4) by simp
  have e: "decode_empty ?mid d = Ok (False, d)" by (rule clean_parts(1)[OF cl h(2)])
  obtain p where p: "decode_prefix ?mid d = Ok (d\<lparr>d_pfx := p\<rparr>)" using clean_parts(2)[OF cl h(2)] by blast
  let ?d = "d\<lparr>d_pfx := p\<rparr>"
  let ?new = "?h\<lparr>h_meters := h_meters ?h @ [meter_alloc (mt_id m)], h_mcount := (if h_meters ?h = [] then 1 else h_mcount ?h + 1)\<rparr>"
  have tg: "decode_target ?mid ?d = (Some ?k, ?d\<lparr>d_host := ?new\<rparr>)"
    using clean_parts(3)[of ?d ?mid] cl h(2) w(1) by simp
  obtain m1 where m1: "meter_setcount (h_lastmodified ?h) (meter_alloc (mt_id m)) (mt_count m) = Ok m1" "meter_ok m1"
      "mt_id m1 = mt_id m" "mt_count m1 = mt_count m" "meter_type m1 = meter_type m"
    by (rule setcount_new[OF s])
  have f: "full_id (mt_id m) = mt_id m" using s by (simp add: sendable_def)
  have rt: "decode_retype (h_lastmodified ?h) ?mid (meter_alloc (mt_id m)) = Ok m1"
    by (rule retype_same) (simp_all add: f w m1)
  let ?d2 = "?d\<lparr>d_host := host_set_meter ?new ?k m1\<rparr>"
  have wm: "with_meter (Some ?k) (decode_retype (h_lastmodified (d_host (?d\<lparr>d_host := ?new\<rparr>))) ?mid) (?d\<lparr>d_host := ?new\<rparr>) = Ok ?d2"
    using rt by (simp add: with_meter_def)
  have ms2: "h_meters (d_host ?d2) = h_meters ?h @ [m1]" by (simp add: host_set_meter_def)
  have ok2: "host_ok (host_set_meter ?new ?k x)" if "meter_ok x" "mt_id x = mt_id m" for x
    using h(1) that f by (simp add: host_ok_def host_set_meter_def)
  have rec: "decode_record ub fuel ?mid d =
     (if elems (mt_count m) \<ge> SZ_EMPTY_VAL then Some (Ok (True, ?d2))
      else if ?mid AND MMASK_TYPE \<notin> {MTYPE_INT, MTYPE_FRAC, MTYPE_STR} then Some (Ok (False, ?d2))
      else obind (decode_values ub fuel ?mid (Some ?k) [0..<elems (mt_count m)] ?d2) (\<lambda>d. Some (Ok (True, d))))"
    unfolding decode_record_def e obind.simps prod.case if_False p tg wm w(3) Let_def by (rule refl)
  show ?thesis
  proof (cases "mt_count m < SZ_EMPTY_VAL")
    case False
    then have c: "carries ub m m1" "elems (mt_count m) \<ge> SZ_EMPTY_VAL" "enc_values m = []"
      using m1 elems_less[of "mt_count m"] by (auto simp: carries_def enc_values_def)
    have "decode_record ub fuel ?mid d = Some (Ok (True, ?d2))" unfolding rec using c(2) by (simp only: if_True)
    then show ?thesis using c(1,3) ms2 ok2[OF m1(2,3)] io(1,2)
      by (intro exI[of _ ?d2] exI[of _ m1]) simp
  next
    case True
    have ty: "?mid AND MMASK_TYPE \<in> {MTYPE_INT, MTYPE_FRAC, MTYPE_STR}"
      using meter_ok_types[of m] s True w(2) by (simp add: sendable_def meter_type_def)
    have io2: "br.source (d_io ?d2)" "buf_rest (storage (d_io ?d2)) = enc_values m @ t" "?k < length (h_meters (d_host ?d2))"
        "h_meters (d_host ?d2) ! ?k = m1"
      using io unfolding ms2 by simp_all
    obtain io' sb t' dat where v: "decode_values ub fuel ?mid (Some ?k) [0..<elems (mt_count m)] ?d2 =
        Some (Ok (?d2\<lparr>d_io := io', d_strbuf := sb, d_host := host_set_meter (d_host ?d2) ?k (m1\<lparr>mt_lastmodified := t', mt_d := dat\<rparr>)\<rparr>))"
      "br.source io'" "buf_rest (storage io') = t" "meter_ok (m1\<lparr>mt_lastmodified := t', mt_d := dat\<rparr>)"
      "carries ub m (m1\<lparr>mt_lastmodified := t', mt_d := dat\<rparr>)"
      using record_elements[OF s True io2(1,2) io(3) io2(3,4) m1(2-4)] by blast
    let ?m2 = "m1\<lparr>mt_lastmodified := t', mt_d := dat\<rparr>"
    have hh: "host_set_meter (host_set_meter ?new ?k m1) ?k ?m2 = host_set_meter ?new ?k ?m2" by (simp add: host_set_meter_def)
    have "decode_record ub fuel ?mid d = Some (Ok (True, ?d2\<lparr>d_io := io', d_strbuf := sb, d_host := host_set_meter (d_host ?d2) ?k ?m2\<rparr>))"
    proof -
      have "\<not> elems (mt_count m) \<ge> SZ_EMPTY_VAL" using True elems_less[of "mt_count m"] by simp
      then show ?thesis unfolding rec v(1) obind.simps using ty by (simp only: if_False not_True_eq_False)
    qed
    then show ?thesis using v(2,3,5) ok2[OF v(4)] m1(3) hh
      by (intro exI[of _ "?d2\<lparr>d_io := io', d_strbuf := sb, d_host := host_set_meter (d_host ?d2) ?k ?m2\<rparr>"] exI[of _ ?m2])
        (simp add: host_set_meter_def)
  qed
qed

subsection \<open>Decoding a packet\<close>

lemma read_end:
  assumes "br.source io" "buf_rest (storage io) = []"
  shows "\<exists>io'. ioport_read_u64 io = (0, io')"
proof -
  have s: "buf_in (storage io)" "rd io = buffer_read" using assms(1) by (simp_all add: br.source_def)
  have "buffer_read (storage io) 8 = (None, storage io)"
    by (rule buffer_read_short[OF s(1)]) (simp add: assms(2))
  then show ?thesis using s(2) by (simp add: ioport_read_u64_def ioport_read_def)
qed

lemma codec_clean_use:
  assumes "codec_clean ms" "m \<in> set ms" "m' \<in> set ms"
  shows "idgetprefix (wire_id m) \<noteq> 0 \<longrightarrow> name_of (mt_id m') \<noteq> name_of (idgetprefix (wire_id m))"
    "mt_count m = SZ_EMPTY_ARRAY \<longrightarrow> \<not> below (wire_id m) m'"
  using assms unfolding codec_clean_def list_all_iff by blast+

lemma below_id: "mt_id m' = mt_id m \<Longrightarrow> below mid m' = below mid m"
  by (simp add: below_def)

lemma decode_meters_ok:
  assumes "list_all sendable (pre @ ms)" "codec_clean (pre @ ms)" "length (pre @ ms) \<le> 257"
    "br.source (d_io d)" "buf_rest (storage (d_io d)) = enc_meters ms" "4 \<le> fuel" "length ms < n"
    "host_ok (d_host d)" "list_all2 (carries ub) pre (h_meters (d_host d))"
  shows "\<exists>d'. decode_loop ub fuel n d = Some (Ok (True, d')) \<and>
    list_all2 (carries ub) (pre @ ms) (h_meters (d_host d')) \<and> host_ok (d_host d')"
  using assms
proof (induction ms arbitrary: pre d n)
  case Nil
  obtain n' where n: "n = Suc n'" using Nil.prems(7) by (cases n) auto
  obtain io' where "ioport_read_u64 (d_io d) = (0, io')"
    using read_end[OF Nil.prems(4)] Nil.prems(5) by (auto simp: enc_meters_def)
  then show ?case using Nil.prems(8,9) by (simp add: n)
next
  case (Cons m ms)
  obtain n' where n: "n = Suc n'" "length ms < n'" using Cons.prems(7) by (cases n) auto
  have s: "sendable m" using Cons.prems(1) by simp
  have rest: "buf_rest (storage (d_io d)) = enc_u64 (wire_id m) @ (enc_values m @ enc_meters ms)"
    using Cons.prems(5) by (simp add: enc_meters_def)
  obtain io where io: "ioport_read_u64 (d_io d) = (wire_id m, io)" "br.source io"
      "buf_rest (storage io) = enc_values m @ enc_meters ms"
    using br.givesE[OF br.gives_u64[OF Cons.prems(4) rest] Cons.prems(4)] by blast
  let ?d = "d\<lparr>d_io := io\<rparr>"
  have len: "length (h_meters (d_host d)) = length pre" using list_all2_lengthD[OF Cons.prems(9)] by simp
  have quota: "h_mcount (d_host ?d) \<le> default_host_max_meters"
    using Cons.prems(3,8) len by (simp add: host_ok_def default_host_max_meters_def)
  have old: "\<exists>m0 \<in> set pre. mt_id m' = mt_id m0" if m': "m' \<in> set (h_meters (d_host ?d))" for m'
    using list_all2_nthD2[OF Cons.prems(9)] m' len by (fastforce simp: in_set_conv_nth carries_def)
  have clean: "name_of (mt_id m') \<noteq> name_of (mt_id m) \<and>
      (idgetprefix (wire_id m) \<noteq> 0 \<longrightarrow> name_of (mt_id m') \<noteq> name_of (idgetprefix (wire_id m))) \<and>
      (mt_count m = SZ_EMPTY_ARRAY \<longrightarrow> \<not> below (wire_id m) m')" if m': "m' \<in> set (h_meters (d_host ?d))" for m'
  proof -
    obtain m0 where m0: "m0 \<in> set pre" "mt_id m' = mt_id m0" using old[OF m'] by blast
    have "m \<in> set (pre @ m # ms)" "m0 \<in> set (pre @ m # ms)" using m0(1) by simp_all
    note c = codec_clean_use[OF Cons.prems(2) this]
    have "name_of (mt_id m) \<notin> (\<lambda>m. name_of (mt_id m)) ` set pre"
      using conjunct1[OF Cons.prems(2)[unfolded codec_clean_def]] by simp
    then have "name_of (mt_id m0) \<noteq> name_of (mt_id m)" using m0(1) by (metis imageI)
    then show ?thesis using c m0(2) below_id[OF m0(2)] by simp
  qed
  obtain d' m' where r: "decode_record ub fuel (wire_id m) ?d = Some (Ok (True, d'))"
      "h_meters (d_host d') = h_meters (d_host ?d) @ [m']" "carries ub m m'" "host_ok (d_host d')"
      "br.source (d_io d')" "buf_rest (storage (d_io d')) = enc_meters ms"
    using decode_record_ok[OF s _ _ Cons.prems(6) _ quota clean, of "enc_meters ms" ub] io(2,3) Cons.prems(8) by auto
  have l2: "list_all2 (carries ub) (pre @ [m]) (h_meters (d_host d'))"
    using Cons.prems(9) r(2,3) by (simp add: list_all2_appendI)
  have "\<exists>d''. decode_loop ub fuel n' d' = Some (Ok (True, d'')) \<and>
      list_all2 (carries ub) ((pre @ [m]) @ ms) (h_meters (d_host d'')) \<and> host_ok (d_host d'')"
    by (rule Cons.IH[OF _ _ _ r(5,6) Cons.prems(6) n(2) r(4) l2]) (use Cons.prems(1-3) in simp_all)
  then show ?case using io(1) sendable_alloc(5)[OF s] r(1) by (simp add: n(1))
qed

text \<open>
  C6: A host whose meters carry values in range (integers below 2^28, plain strings), have
  distinct names and no path conflicts, at most 257 of them, is encoded into a memory port
  without fault; decoding the packet into a new host ends without fault and gives the same
  meters in the same order: ids, counts, integers and strings unchanged, fractions as their
  16-bit encoding carries them.
\<close>

theorem codec_roundtrip:
  assumes "list_all sendable (h_meters h)" "codec_clean (h_meters h)" "length (h_meters h) \<le> 257"
    "h_meters h \<noteq> []" "length (enc_meters (h_meters h)) < 2 ^ 32" "sz < 2 ^ 32" "257 < fuel"
  shows "\<exists>io d. pktcodec_encode_host ub (ioport_create_buffer junk None sz) h = Ok (True, io) \<and>
    pktcodec_decode_host ub fuel sb io (host_begin_update (host_alloc u) t) = Some (Ok (True, d)) \<and>
    list_all2 (carries ub) (h_meters h) (h_meters (d_host d)) \<and> host_ok (d_host d)"
proof -
  let ?io = "ioport_create_buffer junk None sz"
  have fr: "mem_port ?io []" by (rule mem_port_fresh[OF assms(6)])
  obtain r where r: "encode_meters ub ?io (h_meters h) = Ok r" "bw.emits 0 ?io (enc_meters (h_meters h)) r"
    using bw.emits_meters[OF assms(1) mem_port_ready[OF fr] mem_port_fits[OF fr], of ub] assms(5) by auto
  obtain io where io: "r = (True, io)" "mem_port io (enc_meters (h_meters h))"
    using mem_port_emits[OF mem_port_fresh[OF assms(6)] r(2)] by auto
  have ne: "enc_meters (h_meters h) \<noteq> []" using assms(4) by (cases "h_meters h") (simp_all add: enc_meters_def)
  let ?d = "\<lparr>d_io = io, d_host = host_begin_update (host_alloc u) t, d_pfx = 0, d_strbuf = sb\<rparr>"
  have h0: "host_ok (d_host ?d)" "h_meters (d_host ?d) = []"
    by (simp_all add: host_begin_update_def host_alloc_def host_ok_def)
  obtain d where d: "decode_loop ub fuel fuel ?d = Some (Ok (True, d))"
      "list_all2 (carries ub) ([] @ h_meters h) (h_meters (d_host d))" "host_ok (d_host d)"
    using decode_meters_ok[of "[]" "h_meters h" ?d fuel fuel ub] assms mem_port_source[OF io(2) ne] h0 by auto
  then show ?thesis using r(1) io(1) by (auto simp: pktcodec_encode_host_def pktcodec_decode_host_def)
qed

text \<open>A host with one integer meter, whose name is the single letter a.\<close>

definition demo_meter :: meter where
  "demo_meter = \<lparr>mt_id = 0x0200000000000000, mt_count = 0, mt_badness = 0, mt_lastmodified = 0, mt_d = Block 8 (U64s [41])\<rparr>"

definition demo_host :: host where
  "demo_host = (host_alloc \<lparr>msb = 1, lsb = 2\<rparr>)\<lparr>h_meters := [demo_meter], h_mcount := 1\<rparr>"

lemma demo_sendable: "sendable demo_meter"
  by (simp add: sendable_def demo_meter_def meter_ok_def meter_type_def mask_defs sz_defs sizeof_defs elems_def
      elem_size_def full_id_def name_of_def uints_def meter_get_uint_def)

lemma demo_clean: "codec_clean [demo_meter]"
  by (simp add: codec_clean_def demo_meter_def wire_id_def sz_defs idgetprefix_def mask_defs idgetprefix_loop.simps IDTABLE_def)

theorem codec_roundtrip_witness:
  "\<exists>io d. pktcodec_encode_host (\<lambda>_. 0) (ioport_create_buffer (\<lambda>_. 0) None 64) demo_host = Ok (True, io) \<and>
    pktcodec_decode_host (\<lambda>_. 0) 300 '''' io (host_begin_update (host_alloc \<lparr>msb = 1, lsb = 2\<rparr>) 9) = Some (Ok (True, d)) \<and>
    list_all2 (carries (\<lambda>_. 0)) (h_meters demo_host) (h_meters (d_host d)) \<and> host_ok (d_host d)"
proof (rule codec_roundtrip)
  show "length (enc_meters (h_meters demo_host)) < 2 ^ 32"
    by (simp add: demo_host_def enc_meters_def enc_values_def demo_meter_def meter_type_def mask_defs sz_defs uints_def
      elems_def meter_get_uint_def sizeof_defs enc_int_def Let_def)
qed (simp_all add: demo_host_def demo_sendable demo_clean)

end
