(* ===== verification/CodecSafety.thy ===== *)
theory CodecSafety
  imports CodecRound
begin

text \<open>
  What holds of the packet decoder on any input: it terminates on a memory port, never lets a
  host exceed its quota of meters, and writes past a heap block when a packet changes the type
  of a meter the host has.
\<close>

subsection \<open>Reading only consumes\<close>

context in_port
begin

definition shrinks :: "'st ioport \<Rightarrow> 'st ioport \<Rightarrow> bool" where
  "shrinks io io' \<longleftrightarrow> source io' \<and> length (rest (storage io')) \<le> length (rest (storage io))"

lemma shrinks_trans: "shrinks a b \<Longrightarrow> shrinks b c \<Longrightarrow> shrinks a c"
  by (simp add: shrinks_def)

lemma shrinks_bits [simp]:
  "shrinks io (io'\<lparr>bitpos := bp\<rparr>) = shrinks io io'" "shrinks io (io'\<lparr>bitbuffer := bb\<rparr>) = shrinks io io'"
  "shrinks (io\<lparr>bitpos := bp\<rparr>) io' = shrinks io io'" "shrinks (io\<lparr>bitbuffer := bb\<rparr>) io' = shrinks io io'"
  by (simp_all add: shrinks_def source_def)

lemma source_bits [simp]: "source (io\<lparr>bitpos := bp\<rparr>) = source io" "source (io\<lparr>bitbuffer := bb\<rparr>) = source io"
  by (simp_all add: source_def)

lemma read_shrinks:
  assumes "source io" "0 < n" "ioport_read io n = (x, io')"
  shows "shrinks io io'" "x \<noteq> None \<Longrightarrow> length (rest (storage io')) + n = length (rest (storage io))"
proof -
  have s: "inv (storage io)" "rd io = r" using assms(1) by (simp_all add: source_def)
  have "shrinks io io' \<and> (x \<noteq> None \<longrightarrow> length (rest (storage io')) + n = length (rest (storage io)))"
  proof (cases "n \<le> length (rest (storage io))")
    case True
    then show ?thesis using r_ok[OF s(1) assms(2)] s assms(3) by (auto simp: ioport_read_def shrinks_def source_def)
  next
    case False
    then show ?thesis using r_short[OF s(1), of n] s assms(3) by (auto simp: ioport_read_def shrinks_def source_def)
  qed
  then show "shrinks io io'" "x \<noteq> None \<Longrightarrow> length (rest (storage io')) + n = length (rest (storage io))" by simp_all
qed

lemma read_byte_shrinks: "source io \<Longrightarrow> ioport_read_byte io = (b, io') \<Longrightarrow> shrinks io io'"
  unfolding ioport_read_byte_def
  using read_shrinks(1)[of io 1] by (auto split: prod.splits option.splits)

lemma read_bits_shrinks:
  assumes "source io" "ioport_read_bits io n = (b, io')"
  shows "shrinks io io'"
proof -
  let ?io1 = "if bitpos io = 0 then (case ioport_read_byte io of (b, io) \<Rightarrow> io\<lparr>bitbuffer := b\<rparr>) else io"
  have 1: "shrinks io ?io1" using assms(1) read_byte_shrinks[OF assms(1)] by (auto simp: shrinks_def split: prod.splits)
  then have s1: "source ?io1" by (simp add: shrinks_def)
  have 2: "shrinks io io2" if "ioport_read_byte ?io1 = (c, io2)" for c io2
    using shrinks_trans[OF 1 read_byte_shrinks[OF s1 that]] .
  have 0: "shrinks io io" using assms(1) by (simp add: shrinks_def)
  show ?thesis using assms(2) 0 1 2 unfolding ioport_read_bits_def Let_def
    by (auto split: if_splits prod.splits)
qed

lemma read_sixbits_shrinks: "source io \<Longrightarrow> read_sixbits n io = (s, io') \<Longrightarrow> shrinks io io'"
proof (induction n arbitrary: io s io')
  case (Suc n)
  obtain c io1 where 1: "ioport_read_bits io 6 = (c, io1)" by fastforce
  obtain s' io2 where 2: "read_sixbits n io1 = (s', io2)" by fastforce
  have s1: "shrinks io io1" by (rule read_bits_shrinks[OF Suc.prems(1) 1])
  then have "shrinks io1 io2" using Suc.IH[OF _ 2] by (simp add: shrinks_def)
  then show ?case using Suc.prems(2) 1 2 shrinks_trans[OF s1] by simp
qed (simp add: shrinks_def)

lemma encstring_shrinks:
  assumes "source io" "ioport_read_encstring io = (s, io')"
  shows "shrinks io io'"
proof -
  let ?io = "io\<lparr>bitpos := 0, bitbuffer := 0\<rparr>"
  have src: "source ?io" using assms(1) by simp
  obtain sz io1 where 1: "ioport_read_byte ?io = (sz, io1)" by fastforce
  have s1: "shrinks io io1" using read_byte_shrinks[OF src 1] by simp
  then have src1: "source io1" by (simp add: shrinks_def)
  have 2: "shrinks io io2" if "ioport_read io1 (unat sz) = (x, io2)" "sz \<noteq> 0" for x io2
    using shrinks_trans[OF s1 read_shrinks(1)[OF src1 _ that(1)]] that(2) by (simp add: unat_gt_0)
  have 3: "shrinks io io2" if "read_sixbits k io1 = (x, io2)" for x k io2
    using shrinks_trans[OF s1 read_sixbits_shrinks[OF src1 that]] .
  show ?thesis using assms(2) s1 2 3 unfolding ioport_read_encstring_def Let_def 1
    by (auto split: if_splits prod.splits option.splits)
qed

lemma encfrac_shrinks:
  assumes "source io" "ioport_read_encfrac ub io = (v, io')"
  shows "shrinks io io'"
proof -
  obtain a io1 where 1: "ioport_read_byte io = (a, io1)" by fastforce
  obtain b io2 where 2: "ioport_read_byte io1 = (b, io2)" by fastforce
  have s1: "shrinks io io1" by (rule read_byte_shrinks[OF assms(1) 1])
  then have "shrinks io1 io2" using read_byte_shrinks[OF _ 2] by (simp add: shrinks_def)
  then show ?thesis using assms(2) 1 2 shrinks_trans[OF s1] by (simp add: ioport_read_encfrac_def)
qed

lemma decint_shrinks: "source io \<Longrightarrow> decint_loop fuel io res = Some (v, io') \<Longrightarrow> shrinks io io'"
proof (induction fuel arbitrary: io res)
  case (Suc fuel)
  obtain b io1 where 1: "ioport_read_byte io = (b, io1)" by fastforce
  have s1: "shrinks io io1" by (rule read_byte_shrinks[OF Suc.prems(1) 1])
  then have "source io1" by (simp add: shrinks_def)
  note IH = Suc.IH[OF this]
  show ?case using Suc.prems(2) s1 shrinks_trans[OF s1 IH] by (auto simp: 1 Let_def split: if_splits)
qed simp

lemma u64_shrinks:
  assumes "source io" "ioport_read_u64 io = (v, io')"
  shows "shrinks io io'" "v \<noteq> 0 \<Longrightarrow> length (rest (storage io')) + 8 = length (rest (storage io))"
proof -
  let ?io = "io\<lparr>bitpos := 0, bitbuffer := 0\<rparr>"
  obtain x io1 where 1: "ioport_read ?io 8 = (x, io1)" by fastforce
  have "source ?io" using assms(1) by simp
  note r = read_shrinks[OF this _ 1]
  show "shrinks io io'" "v \<noteq> 0 \<Longrightarrow> length (rest (storage io')) + 8 = length (rest (storage io))"
    using r assms(2) 1 by (auto simp: ioport_read_u64_def split: option.splits)
qed

end

subsection \<open>Termination\<close>

lemma with_meter_io: "with_meter M f d = Ok d' \<Longrightarrow> d_io d' = d_io d"
  by (auto simp: with_meter_def rbind_Ok_iff split: option.splits)

lemma obind_total: "(\<exists>y. obind x f = Some y) \<longleftrightarrow> (\<exists>y. x = Some y) \<and> (\<forall>a. x = Some (Ok a) \<longrightarrow> (\<exists>y. f a = Some y))"
  by (cases "(x, f)" rule: obind.cases) auto

lemma obind_Ok: "obind x f = Some (Ok b) \<longleftrightarrow> (\<exists>a. x = Some (Ok a) \<and> f a = Some (Ok b))"
  by (cases "(x, f)" rule: obind.cases) auto

abbreviation left :: "bufferstorage decoder \<Rightarrow> nat" where
  "left d \<equiv> length (buf_rest (storage (d_io d)))"

lemma decode_value_reads:
  assumes "br.source (d_io d)" "left d < fuel"
  shows "decode_value ub fuel mid M i d \<noteq> None"
    "decode_value ub fuel mid M i d = Some (Ok d') \<Longrightarrow> br.shrinks (d_io d) (d_io d')"
proof -
  show "decode_value ub fuel mid M i d \<noteq> None"
    using br.decint_total[OF assms, of 0] by (auto simp: decode_value_def ioport_read_encint_def Let_def simp del: not_None_eq split: prod.splits option.splits)
  show "br.shrinks (d_io d) (d_io d')" if "decode_value ub fuel mid M i d = Some (Ok d')"
    using that br.decint_shrinks[OF assms(1)] br.encfrac_shrinks[OF assms(1)] br.encstring_shrinks[OF assms(1)]
    by (auto simp: decode_value_def ioport_read_encint_def Let_def dest!: with_meter_io
        split: if_splits option.splits prod.splits)
qed

lemma decode_values_reads:
  assumes "br.source (d_io d)" "left d < fuel"
  shows "decode_values ub fuel mid M is d \<noteq> None \<and>
    (\<forall>d'. decode_values ub fuel mid M is d = Some (Ok d') \<longrightarrow> br.shrinks (d_io d) (d_io d'))"
  using assms
proof (induction "is" arbitrary: d)
  case (Cons i "is")
  note v = decode_value_reads[OF Cons.prems, of ub mid M i]
  have IH: "decode_values ub fuel mid M is d1 \<noteq> None \<and>
      (\<forall>d'. decode_values ub fuel mid M is d1 = Some (Ok d') \<longrightarrow> br.shrinks (d_io d) (d_io d'))"
    if "decode_value ub fuel mid M i d = Some (Ok d1)" for d1
  proof -
    have s: "br.shrinks (d_io d) (d_io d1)" by (rule v(2)[OF that])
    then have "br.source (d_io d1)" "left d1 < fuel" using Cons.prems(2) by (simp_all add: br.shrinks_def)
    from Cons.IH[OF this] show ?thesis using br.shrinks_trans[OF s] by blast
  qed
  show ?case using v(1) IH by (auto simp: obind_total obind_Ok)
qed (simp add: br.shrinks_def)

lemma parts_io:
  "decode_empty mid d = Ok (b, d') \<Longrightarrow> d_io d' = d_io d"
  "decode_prefix mid d = Ok d' \<Longrightarrow> d_io d' = d_io d"
  "decode_target mid d = (M, d') \<Longrightarrow> d_io d' = d_io d"
  by (auto simp: decode_empty_def decode_prefix_def decode_target_def Let_def rbind_Ok_iff
      dest!: with_meter_io split: if_splits option.splits prod.splits)

lemma decode_record_cases:
  assumes "decode_record ub fuel mid d = Some (Ok (b, d'))"
  obtains (skip) "decode_empty mid d = Ok (True, d')"
  | (run) d1 d2 M d3 d4 where "decode_empty mid d = Ok (False, d1)" "decode_prefix mid d1 = Ok d2"
      "decode_target mid d2 = (M, d3)" "with_meter M (decode_retype (h_lastmodified (d_host d3)) mid) d3 = Ok d4"
      "d' = d4 \<or> (\<exists>is. decode_values ub fuel mid M is d4 = Some (Ok d'))"
proof -
  obtain s d1 where e: "decode_empty mid d = Ok (s, d1)"
    using assms by (auto simp: decode_record_def obind_Ok)
  show ?thesis
  proof (cases s)
    case True
    then show ?thesis using assms e skip by (auto simp: decode_record_def)
  next
    case False
    obtain d2 where p: "decode_prefix mid d1 = Ok d2" using assms e False by (auto simp: decode_record_def obind_Ok)
    obtain M d3 where t: "decode_target mid d2 = (M, d3)" by fastforce
    obtain d4 where w: "with_meter M (decode_retype (h_lastmodified (d_host d3)) mid) d3 = Ok d4"
      using assms e False p t by (auto simp: decode_record_def obind_Ok)
    have "d' = d4 \<or> (\<exists>is. decode_values ub fuel mid M is d4 = Some (Ok d'))"
      using assms e False p t w by (auto simp: decode_record_def obind_Ok Let_def split: if_splits)
    moreover have "decode_empty mid d = Ok (False, d1)" using e False by simp
    ultimately show ?thesis by (intro run[OF _ p t w])
  qed
qed

lemma decode_record_reads:
  assumes "br.source (d_io d)" "left d < fuel"
  shows "decode_record ub fuel mid d \<noteq> None"
    "decode_record ub fuel mid d = Some (Ok (b, d')) \<Longrightarrow> br.shrinks (d_io d) (d_io d')"
proof -
  have self: "br.shrinks (d_io d) (d_io d)" using assms(1) by (simp add: br.shrinks_def)
  have v: "decode_values ub fuel mid M is d1 \<noteq> None"
      "decode_values ub fuel mid M is d1 = Some (Ok d') \<Longrightarrow> br.shrinks (d_io d) (d_io d')" if "d_io d1 = d_io d" for M "is" d1 d'
    using decode_values_reads[of d1 fuel ub mid M "is"] assms that by simp_all
  show "decode_record ub fuel mid d \<noteq> None"
    using v(1) unfolding decode_record_def
    by (auto simp: obind_total Let_def dest!: parts_io with_meter_io split: prod.splits)
  show "decode_record ub fuel mid d = Some (Ok (b, d')) \<Longrightarrow> br.shrinks (d_io d) (d_io d')"
    by (erule decode_record_cases) (use v(2) self in \<open>auto dest!: parts_io with_meter_io\<close>)
qed

lemma decode_loop_total:
  assumes "br.source (d_io d)" "left d < fuel" "left d < 8 * n"
  shows "decode_loop ub fuel n d \<noteq> None"
  using assms
proof (induction n arbitrary: d)
  case (Suc n)
  obtain mid io where r: "ioport_read_u64 (d_io d) = (mid, io)" by fastforce
  note u = br.u64_shrinks[OF Suc.prems(1) r]
  let ?d = "d\<lparr>d_io := io\<rparr>"
  have d: "br.source (d_io ?d)" "left ?d < fuel" using u(1) Suc.prems(2) by (simp_all add: br.shrinks_def)
  note rec = decode_record_reads[OF d, of ub mid]
  have "decode_loop ub fuel n d' \<noteq> None" if "decode_record ub fuel mid ?d = Some (Ok (True, d'))" "mid \<noteq> 0" for d'
  proof (rule Suc.IH)
    have s: "br.shrinks io (d_io d')" using rec(2)[OF that(1)] by simp
    then show "br.source (d_io d')" "left d' < fuel" using d(2) by (simp_all add: br.shrinks_def)
    show "left d' < 8 * n" using s u(2)[OF that(2)] Suc.prems(3) by (simp add: br.shrinks_def)
  qed
  then show ?case using rec(1) by (auto simp: r obind_total split: if_splits)
qed simp

text \<open>
  C8: Decoding a memory port ends, whatever its bytes and the host: with fuel above the
  number of bytes left the decoder returns or faults, it never runs on.
\<close>

theorem decode_terminates:
  assumes "br.source io" "length (buf_rest (storage io)) < fuel"
  shows "pktcodec_decode_host ub fuel sb io h \<noteq> None"
  unfolding pktcodec_decode_host_def by (rule decode_loop_total) (use assms in simp_all)

theorem decode_terminates_witness:
  "pktcodec_decode_host (\<lambda>_. 0) 4 '''' (ioport_create_buffer (\<lambda>_. 0) (Some [1, 2, 3]) 3) (host_alloc \<lparr>msb = 1, lsb = 2\<rparr>) \<noteq> None"
  by (rule decode_terminates)
    (simp_all add: br.source_def ioport_create_buffer_def buf_in_def buf_ok_def buf_rest_def)

subsection \<open>The quota on meters\<close>

definition quota :: "host \<Rightarrow> bool" where
  "quota h \<longleftrightarrow> h_mcount h = int (length (h_meters h)) \<and> h_mcount h \<le> default_host_max_meters + 1"

lemma set_meter_quota [simp]: "quota (host_set_meter h k m) = quota h"
  by (simp add: quota_def host_set_meter_def)

lemma with_meter_quota: "with_meter M f d = Ok d' \<Longrightarrow> quota (d_host d') = quota (d_host d)"
  by (auto simp: with_meter_def rbind_Ok_iff split: option.splits)

lemma empty_children_quota: "empty_children mid h k = Ok h' \<Longrightarrow> quota h \<Longrightarrow> quota h'"
  by (induction mid h k rule: empty_children.induct)
    (subst (asm) empty_children.simps, auto split: sum.splits option.splits)

lemma delete_meter_quota: "host_delete_meter h k = Ok h' \<Longrightarrow> k < length (h_meters h) \<Longrightarrow> quota h \<Longrightarrow> quota h'"
  by (auto simp: host_delete_meter_def rbind_Ok_iff quota_def list_remove_def Let_def of_nat_diff)

lemma delete_named_quota: "delete_named pfx h sb = Ok (h', sb') \<Longrightarrow> quota h \<Longrightarrow> quota h'"
  by (induction pfx h sb rule: delete_named.induct)
    (subst (asm) delete_named.simps, auto simp: host_find_meter_name_def find_index_Some
      dest: delete_meter_quota split: sum.splits option.splits)

lemma parts_quota:
  "decode_empty mid d = Ok (b, d') \<Longrightarrow> quota (d_host d) \<Longrightarrow> quota (d_host d')"
  "decode_prefix mid d = Ok d' \<Longrightarrow> quota (d_host d) \<Longrightarrow> quota (d_host d')"
  "decode_target mid d = (M, d') \<Longrightarrow> quota (d_host d) \<Longrightarrow> quota (d_host d')"
proof -
  show "decode_empty mid d = Ok (b, d') \<Longrightarrow> quota (d_host d) \<Longrightarrow> quota (d_host d')"
    by (auto simp: decode_empty_def Let_def rbind_Ok_iff with_meter_quota dest: empty_children_quota split: if_splits option.splits)
  show "decode_prefix mid d = Ok d' \<Longrightarrow> quota (d_host d) \<Longrightarrow> quota (d_host d')"
    by (auto simp: decode_prefix_def Let_def rbind_Ok_iff dest: delete_named_quota split: if_splits)
  show "decode_target mid d = (M, d') \<Longrightarrow> quota (d_host d) \<Longrightarrow> quota (d_host d')"
    by (auto simp: decode_target_def quota_def elim!: host_get_meter_cases split: if_splits option.splits prod.splits)
qed

lemma decode_value_quota: "decode_value ub fuel mid M i d = Some (Ok d') \<Longrightarrow> quota (d_host d) \<Longrightarrow> quota (d_host d')"
  by (auto simp: decode_value_def Let_def with_meter_quota split: if_splits option.splits prod.splits)

lemma decode_values_quota: "decode_values ub fuel mid M is d = Some (Ok d') \<Longrightarrow> quota (d_host d) \<Longrightarrow> quota (d_host d')"
  by (induction "is" arbitrary: d) (auto simp: obind_Ok dest: decode_value_quota)

lemma decode_record_quota:
  "decode_record ub fuel mid d = Some (Ok (b, d')) \<Longrightarrow> quota (d_host d) \<Longrightarrow> quota (d_host d')"
  by (erule decode_record_cases) (auto dest!: with_meter_quota dest: parts_quota decode_values_quota)

lemma decode_loop_quota:
  "decode_loop ub fuel n d = Some (Ok (b, d')) \<Longrightarrow> quota (d_host d) \<Longrightarrow> quota (d_host d')"
  by (induction n arbitrary: d)
    (auto simp: obind_Ok dest: decode_record_quota split: if_splits prod.splits)

text \<open>
  No packet, from any kind of port, takes a host past 257 meters, and the count the quota
  is checked against stays the length of the meter list. (The source means 256: it compares
  with \<open>\<le>\<close> before it adds one.)
\<close>

theorem decode_quota:
  assumes "pktcodec_decode_host ub fuel sb io h = Some (Ok (b, d))" "h_mcount h = int (length (h_meters h))" "h_mcount h \<le> 257"
  shows "h_mcount (d_host d) = int (length (h_meters (d_host d))) \<and> h_mcount (d_host d) \<le> 257"
  using decode_loop_quota[of ub fuel fuel "\<lparr>d_io = io, d_host = h, d_pfx = 0, d_strbuf = sb\<rparr>" b d] assms
  by (simp_all add: pktcodec_decode_host_def quota_def default_host_max_meters_def)

theorem decode_quota_witness:
  "\<exists>d. pktcodec_decode_host (\<lambda>_. 0) 1 '''' (ioport_create_buffer (\<lambda>_. 0) (Some []) 0) (host_alloc \<lparr>msb = 1, lsb = 2\<rparr>) = Some (Ok (True, d)) \<and>
     h_mcount (d_host d) \<le> 257"
proof -
  obtain d where d: "pktcodec_decode_host (\<lambda>_. 0) 1 '''' (ioport_create_buffer (\<lambda>_. 0) (Some []) 0) (host_alloc \<lparr>msb = 1, lsb = 2\<rparr>) = Some (Ok (True, d))"
    by (simp add: pktcodec_decode_host_def ioport_create_buffer_def ioport_read_u64_def ioport_read_def buffer_read_def)
  show ?thesis using decode_quota[OF d] d by (simp add: host_alloc_def)
qed

subsection \<open>A change of type\<close>

text \<open>
  C7: A packet can make the decoder write past the end of a heap block. If the host has an
  integer or fraction meter and a packet carries a scalar string under the same name, the
  decoder allocates the 8 bytes of the old type, then changes the type, and \<^verbatim>\<open>meter_set_str\<close>
  stores 128 bytes there. Any sender with a valid session can do this, whatever the string.
\<close>

theorem type_change_overflows:
  assumes "host_find_meter_name h mid = Some k" "meter_type (h_meters h ! k) \<in> {MTYPE_INT, MTYPE_FRAC}"
    "mid AND MMASK_TYPE = MTYPE_STR" "mid AND MMASK_COUNT = 0" "idgetprefix mid = 0"
    "br.source io" "buf_rest (storage io) = enc_u64 mid @ t" "0 < fuel"
  shows "pktcodec_decode_host ub fuel sb io h = Some (Fault HeapOverflow)"
proof -
  obtain n where n: "fuel = Suc n" using assms(8) by (cases fuel) auto
  have mid0: "mid \<noteq> 0" using assms(3) by (auto simp: mask_defs)
  obtain io1 where io1: "ioport_read_u64 io = (mid, io1)"
    using br.givesE[OF br.gives_u64[OF assms(6,7)] assms(6)] by blast
  let ?d = "\<lparr>d_io = io1, d_host = h, d_pfx = 0, d_strbuf = sb\<rparr>" and ?m = "h_meters h ! k"
  have k: "k < length (h_meters h)" using assms(1) by (simp add: host_find_meter_name_def find_index_Some)
  have parts: "decode_empty mid ?d = Ok (False, ?d)" "decode_prefix mid ?d = Ok ?d" "decode_target mid ?d = (Some k, ?d)"
    using assms(1,4,5) by (simp_all add: decode_empty_def decode_prefix_def decode_target_def sz_defs)
  define m1 where "m1 = ?m\<lparr>mt_count := 0, mt_lastmodified := h_lastmodified h, mt_d := Block 8 Zeroed,
      mt_id := (mt_id ?m AND (MMASK_NAME OR MMASK_COUNT)) OR MTYPE_STR\<rparr>"
  have rt: "decode_retype (h_lastmodified h) mid ?m = Ok m1"
    using assms(2,3,4) by (auto simp: decode_retype_def meter_setcount_def elems_def sz_defs sizeof_defs m1_def)
  let ?d1 = "?d\<lparr>d_host := host_set_meter h k m1\<rparr>"
  have wm: "with_meter (Some k) (decode_retype (h_lastmodified (d_host ?d)) mid) ?d = Ok ?d1"
    using rt by (simp add: with_meter_def)
  have ty: "meter_type m1 = MTYPE_STR"
  proof -
    have "(MMASK_NAME OR MMASK_COUNT) AND MMASK_TYPE = 0" "MTYPE_STR AND MMASK_TYPE = MTYPE_STR" by (simp_all add: mask_defs)
    then show ?thesis by (simp add: m1_def meter_type_def bit.conj_disj_distrib2 and.assoc)
  qed
  have set: "meter_set_str lm m1 0 s = Fault HeapOverflow" for lm s
    using ty by (simp add: meter_set_str_def) (simp add: m1_def sz_defs elems_def sizeof_defs)
  have "decode_value ub fuel mid (Some k) 0 ?d1 = Some (Fault HeapOverflow)"
    using assms(3) k set by (simp add: decode_value_def Let_def with_meter_def host_set_meter_def split: prod.split)
  then have "decode_values ub fuel mid (Some k) [0..<elems 0] ?d1 = Some (Fault HeapOverflow)"
    by (simp add: elems_def)
  then have "decode_record ub fuel mid ?d = Some (Fault HeapOverflow)"
    unfolding decode_record_def parts obind.simps prod.case wm if_False using assms(3,4)
    by (simp add: Let_def elems_def sz_defs)
  then show ?thesis using mid0 by (simp add: pktcodec_decode_host_def n io1)
qed

theorem type_change_overflows_witness:
  "pktcodec_decode_host (\<lambda>_. 0) 1 '''' (ioport_create_buffer (\<lambda>_. 0) (Some (enc_u64 0x8200000000000000)) 8) demo_host
     = Some (Fault HeapOverflow)"
  by (rule type_change_overflows[where k = 0 and mid = "0x8200000000000000" and t = "[]"])
    (simp_all add: demo_host_def demo_meter_def host_find_meter_name_def name_of_def meter_type_def mask_defs
    idgetprefix_def idgetprefix_loop.simps IDTABLE_def br.source_def ioport_create_buffer_def buf_in_def buf_ok_def buf_rest_def)

end
