(* ===== verification/Dll.thy ===== *)
theory Dll
  imports Prelude
begin

text \<open>
  Doubly linked lists at the level of pointers. Every component of opticon writes out the
  same few updates of \<^verbatim>\<open>next\<close>, \<^verbatim>\<open>prev\<close>, \<^verbatim>\<open>first\<close> and \<^verbatim>\<open>last\<close>: the append of
  \<^verbatim>\<open>watchlist_add\<close>, \<^verbatim>\<open>adjustlist_get\<close>, \<^verbatim>\<open>graphlist_add\<close> and \<^verbatim>\<open>host_get_meter\<close>, the push of
  \<^verbatim>\<open>session_link\<close> and the four-way unlink of \<^verbatim>\<open>host_delete_meter\<close>, \<^verbatim>\<open>session_expire\<close>,
  \<^verbatim>\<open>notifylist_remove\<close> and \<^verbatim>\<open>host_delete\<close>. They are modelled here once, on a heap of nodes,
  and shown to implement the list operations the other theories use in their place.

  A pointer is an address or \<open>None\<close> for NULL; a freed or never allocated address is not in
  the heap, and an access to it a fault.
\<close>

record 'a node =
  n_next :: "nat option"
  n_prev :: "nat option"
  n_val :: 'a

type_synonym 'a heap = "nat \<Rightarrow> 'a node option"

record header =
  l_first :: "nat option"
  l_last :: "nat option"

definition header_init :: header where
  "header_init = \<lparr>l_first = None, l_last = None\<rparr>"

definition deref :: "'a heap \<Rightarrow> nat option \<Rightarrow> 'a node res" where
  "deref h p = (case p of None \<Rightarrow> Fault NullDeref
     | Some a \<Rightarrow> (case h a of None \<Rightarrow> Fault UseAfterFree | Some n \<Rightarrow> Ok n))"

definition update_node :: "nat option \<Rightarrow> ('a node \<Rightarrow> 'a node) \<Rightarrow> 'a heap \<Rightarrow> 'a heap res" where
  "update_node p f h = rbind (deref h p) (\<lambda>n. Ok (h(the p \<mapsto> f n)))"

abbreviation set_next :: "nat option \<Rightarrow> nat option \<Rightarrow> 'a heap \<Rightarrow> 'a heap res" where
  "set_next p q \<equiv> update_node p (\<lambda>n. n\<lparr>n_next := q\<rparr>)"

abbreviation set_prev :: "nat option \<Rightarrow> nat option \<Rightarrow> 'a heap \<Rightarrow> 'a heap res" where
  "set_prev p q \<equiv> update_node p (\<lambda>n. n\<lparr>n_prev := q\<rparr>)"

subsection \<open>The operations\<close>

text \<open>The new node \<open>a\<close> comes from its allocation with both links NULL.\<close>

definition dll_append :: "'a heap \<Rightarrow> header \<Rightarrow> nat \<Rightarrow> ('a heap \<times> header) res" where
  "dll_append h l a =
     (if l_last l \<noteq> None then
        rbind (set_prev (Some a) (l_last l) h) (\<lambda>h.
        rbind (set_next (l_last l) (Some a) h) (\<lambda>h. Ok (h, l\<lparr>l_last := Some a\<rparr>)))
      else Ok (h, \<lparr>l_first = Some a, l_last = Some a\<rparr>))"

definition dll_push :: "'a heap \<Rightarrow> header \<Rightarrow> nat \<Rightarrow> ('a heap \<times> header) res" where
  "dll_push h l a =
     (if l_first l \<noteq> None then
        rbind (set_next (Some a) (l_first l) h) (\<lambda>h.
        rbind (set_prev (l_first l) (Some a) h) (\<lambda>h. Ok (h, l\<lparr>l_first := Some a\<rparr>)))
      else Ok (h, \<lparr>l_first = Some a, l_last = Some a\<rparr>))"

definition dll_unlink :: "'a heap \<Rightarrow> header \<Rightarrow> nat \<Rightarrow> ('a heap \<times> header) res" where
  "dll_unlink h l a =
     rbind (deref h (Some a)) (\<lambda>n.
       if n_prev n \<noteq> None then
         (if n_next n \<noteq> None then
            rbind (set_next (n_prev n) (n_next n) h) (\<lambda>h.
            rbind (set_prev (n_next n) (n_prev n) h) (\<lambda>h. Ok (h, l)))
          else rbind (set_next (n_prev n) None h) (\<lambda>h. Ok (h, l\<lparr>l_last := n_prev n\<rparr>)))
       else
         (if n_next n \<noteq> None then
            rbind (set_prev (n_next n) None h) (\<lambda>h. Ok (h, l\<lparr>l_first := n_next n\<rparr>))
          else Ok (h, \<lparr>l_first = None, l_last = None\<rparr>)))"

subsection \<open>What a list represents\<close>

definition first_of :: "nat option \<Rightarrow> nat list \<Rightarrow> nat option" where
  "first_of q xs = (case xs of [] \<Rightarrow> q | x # _ \<Rightarrow> Some x)"

definition last_of :: "nat option \<Rightarrow> nat list \<Rightarrow> nat option" where
  "last_of p xs = (if xs = [] then p else Some (last xs))"

lemma first_of_simps [simp]: "first_of q [] = q" "first_of q (x # xs) = Some x"
  by (simp_all add: first_of_def)

lemma last_of_simps [simp]: "last_of p [] = p" "last_of p (xs @ [x]) = Some x" "last_of p (x # xs) = last_of (Some x) xs"
  by (simp_all add: last_of_def)

lemma first_of_append [simp]: "first_of q (xs @ ys) = first_of (first_of q ys) xs"
  by (cases xs) simp_all

lemma last_of_append [simp]: "last_of p (xs @ ys) = last_of (last_of p xs) ys"
  by (simp add: last_of_def)

text \<open>A segment: its nodes are linked both ways, from \<open>p\<close> before it to \<open>q\<close> after it.\<close>

fun seg :: "'a heap \<Rightarrow> nat option \<Rightarrow> nat list \<Rightarrow> nat option \<Rightarrow> bool" where
  "seg h p [] q \<longleftrightarrow> True"
| "seg h p (x # xs) q \<longleftrightarrow>
     (\<exists>v. h x = Some \<lparr>n_next = first_of q xs, n_prev = p, n_val = v\<rparr>) \<and> seg h (Some x) xs q"

definition dll :: "'a heap \<Rightarrow> header \<Rightarrow> nat list \<Rightarrow> bool" where
  "dll h l xs \<longleftrightarrow> distinct xs \<and> seg h None xs None \<and> l_first l = first_of None xs \<and> l_last l = last_of None xs"

definition vals :: "'a heap \<Rightarrow> nat list \<Rightarrow> 'a list" where
  "vals h xs = map (\<lambda>x. n_val (the (h x))) xs"

lemma seg_append: "seg h p (xs @ ys) q \<longleftrightarrow> seg h p xs (first_of q ys) \<and> seg h (last_of p xs) ys q"
  by (induction xs arbitrary: p) auto

lemma seg_frame: "x \<notin> set xs \<Longrightarrow> seg (h(x := v)) p xs q = seg h p xs q"
  by (induction xs arbitrary: p) auto

lemma seg_in_heap: "seg h p xs q \<Longrightarrow> x \<in> set xs \<Longrightarrow> h x \<noteq> None"
  by (induction xs arbitrary: p) auto

lemma dll_empty [simp]: "dll h l [] \<longleftrightarrow> l = header_init"
  by (cases l) (simp add: dll_def header_init_def)

text \<open>Setting the links at the two ends of a segment.\<close>

lemma set_next_end:
  assumes "seg h p (xs @ [a]) q" "a \<notin> set xs"
  shows "\<exists>h'. set_next (Some a) q' h = Ok h' \<and> seg h' p (xs @ [a]) q' \<and>
    (\<forall>b. b \<noteq> a \<longrightarrow> h' b = h b) \<and> n_val (the (h' a)) = n_val (the (h a))"
proof -
  obtain v where v: "h a = Some \<lparr>n_next = q, n_prev = last_of p xs, n_val = v\<rparr>" "seg h p xs (Some a)"
    using assms(1) by (auto simp: seg_append)
  let ?h = "h(a \<mapsto> \<lparr>n_next = q', n_prev = last_of p xs, n_val = v\<rparr>)"
  show ?thesis
    by (rule exI[of _ ?h]) (use v assms(2) in \<open>simp_all add: update_node_def deref_def seg_append seg_frame\<close>)
qed

lemma set_prev_end:
  assumes "seg h p (a # xs) q" "a \<notin> set xs"
  shows "\<exists>h'. set_prev (Some a) p' h = Ok h' \<and> seg h' p' (a # xs) q \<and>
    (\<forall>b. b \<noteq> a \<longrightarrow> h' b = h b) \<and> n_val (the (h' a)) = n_val (the (h a))"
proof -
  obtain v where v: "h a = Some \<lparr>n_next = first_of q xs, n_prev = p, n_val = v\<rparr>" "seg h (Some a) xs q"
    using assms(1) by auto
  let ?h = "h(a \<mapsto> \<lparr>n_next = first_of q xs, n_prev = p', n_val = v\<rparr>)"
  show ?thesis
    by (rule exI[of _ ?h]) (use v assms(2) in \<open>simp_all add: update_node_def deref_def seg_frame\<close>)
qed

lemma seg_cong: "(\<And>x. x \<in> set xs \<Longrightarrow> h' x = h x) \<Longrightarrow> seg h' p xs q = seg h p xs q"
  by (induction xs arbitrary: p) auto

lemma vals_cong: "(\<And>x. x \<in> set xs \<Longrightarrow> n_val (the (h' x)) = n_val (the (h x))) \<Longrightarrow> vals h' xs = vals h xs"
  by (simp add: vals_def)

subsection \<open>The operations implement those on lists\<close>

lemma dll_append_list:
  assumes "dll h l xs" "a \<notin> set xs" "h a = Some \<lparr>n_next = None, n_prev = None, n_val = v\<rparr>"
  obtains h' l' where "dll_append h l a = Ok (h', l')" "dll h' l' (xs @ [a])" "vals h' (xs @ [a]) = vals h xs @ [v]"
    "\<And>b. b \<notin> insert a (set xs) \<Longrightarrow> h' b = h b"
proof (cases xs rule: rev_cases)
  case Nil
  then show ?thesis using assms that[of h "\<lparr>l_first = Some a, l_last = Some a\<rparr>"]
    by (simp add: dll_append_def dll_def header_init_def vals_def)
next
  case (snoc ys b)
  note d = assms(1)[unfolded dll_def snoc]
  have ab: "a \<noteq> b" "a \<notin> set ys" "b \<notin> set ys" "distinct ys" using assms(2) d snoc by auto
  obtain h1 where h1: "set_prev (Some a) (Some b) h = Ok h1" "seg h1 (Some b) [a] None" "\<And>c. c \<noteq> a \<Longrightarrow> h1 c = h c"
      "n_val (the (h1 a)) = n_val (the (h a))"
    using set_prev_end[of h None a "[]" None "Some b"] assms(3) by auto
  have same: "h1 x = h x" if "x \<in> set (ys @ [b])" for x by (rule h1(3)) (use that ab in auto)
  have s1: "seg h1 None (ys @ [b]) None" using d seg_cong[where h' = h1 and h = h, OF same, of "ys @ [b]"] by simp
  obtain h2 where h2: "set_next (Some b) (Some a) h1 = Ok h2" "seg h2 None (ys @ [b]) (Some a)" "\<And>c. c \<noteq> b \<Longrightarrow> h2 c = h1 c"
      "n_val (the (h2 b)) = n_val (the (h1 b))"
    using set_next_end[OF s1 ab(3), of "Some a"] by blast
  have sa: "seg h2 (Some b) [a] None" using h1(2) h2(3) ab(1) by simp
  have "dll_append h l a = Ok (h2, l\<lparr>l_last := Some a\<rparr>)" using d h1(1) h2(1) by (simp add: dll_append_def)
  moreover have "dll h2 (l\<lparr>l_last := Some a\<rparr>) (xs @ [a])"
    using d h2(2) sa assms(2) snoc by (cases ys) (auto simp: dll_def seg_append)
  moreover have "vals h2 (xs @ [a]) = vals h xs @ [v]"
  proof -
    have "n_val (the (h2 x)) = n_val (the (h x))" if "x \<in> set (xs @ [a])" for x
      using that h1(3,4) h2(3,4) ab(1) by (cases "x = a"; cases "x = b") auto
    then show ?thesis using assms(3) by (simp add: vals_def)
  qed
  ultimately show ?thesis using that h1(3) h2(3) snoc by simp
qed

lemma dll_push_list:
  assumes "dll h l xs" "a \<notin> set xs" "h a = Some \<lparr>n_next = None, n_prev = None, n_val = v\<rparr>"
  obtains h' l' where "dll_push h l a = Ok (h', l')" "dll h' l' (a # xs)" "vals h' (a # xs) = v # vals h xs"
proof (cases xs)
  case Nil
  then show ?thesis using assms that[of h "\<lparr>l_first = Some a, l_last = Some a\<rparr>"]
    by (simp add: dll_push_def dll_def header_init_def vals_def)
next
  case (Cons b ys)
  note d = assms(1)[unfolded dll_def Cons]
  have ab: "a \<noteq> b" "a \<notin> set ys" "b \<notin> set ys" using assms(2) d Cons by auto
  obtain h1 where h1: "set_next (Some a) (Some b) h = Ok h1" "seg h1 None ([] @ [a]) (Some b)" "\<And>c. c \<noteq> a \<Longrightarrow> h1 c = h c"
      "n_val (the (h1 a)) = n_val (the (h a))"
    using set_next_end[of h None "[]" a None "Some b"] assms(3) by auto
  have same: "h1 x = h x" if "x \<in> set (b # ys)" for x by (rule h1(3)) (use that ab in auto)
  have s1: "seg h1 None (b # ys) None" using d seg_cong[where h' = h1 and h = h, OF same, of "b # ys"] by blast
  obtain h2 where h2: "set_prev (Some b) (Some a) h1 = Ok h2" "seg h2 (Some a) (b # ys) None" "\<And>c. c \<noteq> b \<Longrightarrow> h2 c = h1 c"
      "n_val (the (h2 b)) = n_val (the (h1 b))"
    using set_prev_end[OF s1 ab(3), of "Some a"] by blast
  have "dll_push h l a = Ok (h2, l\<lparr>l_first := Some a\<rparr>)" using d h1(1) h2(1) by (simp add: dll_push_def)
  moreover have "dll h2 (l\<lparr>l_first := Some a\<rparr>) (a # xs)"
    using d h2(2,3) h1(2) assms(2) ab(1) Cons by (simp add: dll_def del: seg.simps(2)) (simp add: last_of_def)
  moreover have "vals h2 (a # xs) = v # vals h xs"
  proof -
    have "n_val (the (h2 x)) = n_val (the (h x))" if "x \<in> set (a # xs)" for x
      using that h1(3,4) h2(3,4) ab(1) by (cases "x = a"; cases "x = b") auto
    then show ?thesis using assms(3) by (simp add: vals_def)
  qed
  ultimately show ?thesis using that by blast
qed

lemma dll_unlink_list:
  assumes "dll h l (ys @ a # zs)"
  obtains h' l' where "dll_unlink h l a = Ok (h', l')" "dll h' l' (ys @ zs)" "vals h' (ys @ zs) = vals h (ys @ zs)"
    "h' a = h a"
proof -
  note d = assms[unfolded dll_def]
  have a: "a \<notin> set ys" "a \<notin> set zs" "set ys \<inter> set zs = {}" "distinct ys" "distinct zs" using d by auto
  obtain v where v: "h a = Some \<lparr>n_next = first_of None zs, n_prev = last_of None ys, n_val = v\<rparr>"
      "seg h None ys (Some a)" "seg h (Some a) zs None"
    using d by (auto simp: seg_append)
  have "\<exists>h'. seg h' None ys (first_of None zs) \<and> seg h' (last_of None ys) zs None \<and> h' a = h a \<and>
      (\<forall>x. n_val (the (h' x)) = n_val (the (h x))) \<and>
      dll_unlink h l a = Ok (h', \<lparr>l_first = first_of None (ys @ zs), l_last = last_of None (ys @ zs)\<rparr>)"
  proof (cases ys rule: rev_cases)
    case Nil
    show ?thesis
    proof (cases zs)
      case Nil
      then show ?thesis using v \<open>ys = []\<close> by (intro exI[of _ h]) (simp add: dll_unlink_def deref_def)
    next
      case (Cons z zs')
      have s: "seg h (Some a) (z # zs') None" "z \<notin> set zs'" using v(3) a(5) Cons by simp_all
      obtain h1 where h1: "set_prev (Some z) None h = Ok h1" "seg h1 None (z # zs') None" "\<And>c. c \<noteq> z \<Longrightarrow> h1 c = h c"
          "n_val (the (h1 z)) = n_val (the (h z))"
        using set_prev_end[OF s, of None] by blast
      have "z \<noteq> a" using a(2) Cons by auto
      moreover have "n_val (the (h1 x)) = n_val (the (h x))" for x using h1(3,4) by (cases "x = z") auto
      ultimately show ?thesis using v(1) \<open>ys = []\<close> Cons h1 d
        by (intro exI[of _ h1]) (simp add: dll_unlink_def deref_def del: seg.simps(2))
    qed
  next
    case (snoc ys' y)
    have s: "seg h None (ys' @ [y]) (Some a)" "y \<notin> set ys'" using v(2) a(4) snoc by simp_all
    obtain h1 where h1: "set_next (Some y) (first_of None zs) h = Ok h1" "seg h1 None (ys' @ [y]) (first_of None zs)"
        "\<And>c. c \<noteq> y \<Longrightarrow> h1 c = h c" "n_val (the (h1 y)) = n_val (the (h y))"
      using set_next_end[OF s, of "first_of None zs"] by blast
    have ya: "y \<noteq> a" "y \<notin> set zs" using a snoc by auto
    have v1: "n_val (the (h1 x)) = n_val (the (h x))" for x using h1(3,4) by (cases "x = y") auto
    have same: "h1 x = h x" if "x \<in> set zs" for x by (rule h1(3)) (use that ya in auto)
    show ?thesis
    proof (cases zs)
      case Nil
      then show ?thesis using v(1) snoc h1 d v1 ya by (intro exI[of _ h1]) (simp add: dll_unlink_def deref_def)
    next
      case (Cons z zs')
      have s2: "seg h1 (Some a) (z # zs') None" "z \<notin> set zs'" using v(3) a(5) seg_cong[where h' = h1 and h = h, OF same, of zs] unfolding Cons by simp_all
      obtain h2 where h2: "set_prev (Some z) (Some y) h1 = Ok h2" "seg h2 (Some y) (z # zs') None" "\<And>c. c \<noteq> z \<Longrightarrow> h2 c = h1 c"
          "n_val (the (h2 z)) = n_val (the (h1 z))"
        using set_prev_end[OF s2, of "Some y"] by blast
      have z: "z \<noteq> a" "z \<notin> set (ys' @ [y])" using a Cons snoc by auto
      have "h2 x = h1 x" if "x \<in> set (ys' @ [y])" for x by (rule h2(3)) (use that z in auto)
      from seg_cong[where h' = h2 and h = h1, OF this, of "ys' @ [y]"] have "seg h2 None (ys' @ [y]) (Some z)" using h1(2) Cons by simp
      moreover have "n_val (the (h2 x)) = n_val (the (h x))" for x using v1 h2(3,4) by (cases "x = z") auto
      ultimately show ?thesis using v(1) snoc Cons h1(1,3) h2 ya z d
        by (intro exI[of _ h2]) (simp add: dll_unlink_def deref_def del: seg.simps(2))
    qed
  qed
  then obtain h' where h': "seg h' None ys (first_of None zs)" "seg h' (last_of None ys) zs None" "h' a = h a"
      "\<forall>x. n_val (the (h' x)) = n_val (the (h x))"
      "dll_unlink h l a = Ok (h', \<lparr>l_first = first_of None (ys @ zs), l_last = last_of None (ys @ zs)\<rparr>)"
    by blast
  show ?thesis
    by (rule that[OF h'(5)]) (use h' a in \<open>simp_all add: dll_def seg_append vals_def\<close>)
qed

text \<open>
  C9: On a well-linked list the unlink that \<^verbatim>\<open>host_delete_meter\<close>, \<^verbatim>\<open>session_expire\<close>,
  \<^verbatim>\<open>host_delete\<close> and \<^verbatim>\<open>notifylist_remove\<close> write out never follows a bad pointer, and
  leaves a well-linked list with the same nodes and values but the one removed, wherever in
  the list it stood.
\<close>

theorem unlink_removes:
  assumes "dll h l xs" "a \<in> set xs"
  shows "\<exists>h' l'. dll_unlink h l a = Ok (h', l') \<and> dll h' l' (remove1 a xs) \<and>
    vals h' (remove1 a xs) = vals h (remove1 a xs)"
proof -
  obtain ys zs where xs: "xs = ys @ a # zs" using assms(2) by (meson split_list)
  have "a \<notin> set ys" using assms(1) xs by (simp add: dll_def)
  then have "remove1 a xs = ys @ zs" by (simp add: xs remove1_append)
  then show ?thesis using dll_unlink_list[OF assms(1)[unfolded xs]] by metis
qed

definition demo_heap :: "nat heap" where
  "demo_heap = [1 \<mapsto> \<lparr>n_next = Some 2, n_prev = None, n_val = 10\<rparr>, 2 \<mapsto> \<lparr>n_next = None, n_prev = Some 1, n_val = 20\<rparr>]"

theorem unlink_removes_witness:
  "\<exists>h' l'. dll_unlink demo_heap \<lparr>l_first = Some 1, l_last = Some 2\<rparr> 2 = Ok (h', l') \<and> dll h' l' (remove1 2 [1, 2]) \<and>
    vals h' (remove1 2 [1, 2]) = vals demo_heap (remove1 2 [1, 2])"
  by (rule unlink_removes) (simp_all add: dll_def demo_heap_def)

text \<open>
  The append that watch lists, adjustments, graph lists and meters use, and the push of
  sessions, implement adding at the end and at the front of the list represented.
\<close>

theorem append_push_link:
  assumes "dll h l xs" "a \<notin> set xs" "h a = Some \<lparr>n_next = None, n_prev = None, n_val = v\<rparr>"
  shows "(\<exists>h1 l1. dll_append h l a = Ok (h1, l1) \<and> dll h1 l1 (xs @ [a]) \<and> vals h1 (xs @ [a]) = vals h xs @ [v]) \<and>
    (\<exists>h2 l2. dll_push h l a = Ok (h2, l2) \<and> dll h2 l2 (a # xs) \<and> vals h2 (a # xs) = v # vals h xs)"
  using dll_append_list[OF assms] dll_push_list[OF assms] by metis+

theorem append_push_link_witness:
  "\<exists>h1 l1. dll_append [5 \<mapsto> \<lparr>n_next = None, n_prev = None, n_val = 7 :: nat\<rparr>] header_init 5 = Ok (h1, l1) \<and>
    dll h1 l1 ([] @ [5]) \<and> vals h1 ([] @ [5]) = vals [5 \<mapsto> \<lparr>n_next = None, n_prev = None, n_val = 7 :: nat\<rparr>] [] @ [7]"
  using append_push_link[of "[5 \<mapsto> \<lparr>n_next = None, n_prev = None, n_val = 7 :: nat\<rparr>]" header_init "[]" 5 7] by simp

end
