(* ===== verification/Notify.thy ===== *)
theory Notify
  imports Dll Uuid
begin

text \<open>
  \<^verbatim>\<open>libopticon/notify.c\<close> and the two functions of \<^verbatim>\<open>libopticon/tenant.c\<close> that drive it: the
  outstanding notifications of a tenant. The list is modelled at the level of pointers,
  because \<^verbatim>\<open>notifylist_link\<close> does not keep it well-linked: it is the one list operation that
  is not that of theory \<open>Dll\<close>. \<open>nl_brk\<close> hands out addresses; \<^verbatim>\<open>now\<close> is \<^verbatim>\<open>time (NULL)\<close>.
  The walks take fuel, one step per node.
\<close>

record notification =
  nt_hostid :: uuid
  nt_notified :: bool
  nt_isproblem :: bool
  nt_status :: string
  nt_lastchange :: time_t

record notifylist =
  nl_heap :: "notification heap"
  nl_hdr :: header
  nl_brk :: nat

definition notifylist_init :: notifylist where
  "notifylist_init = \<lparr>nl_heap = (\<lambda>_. None), nl_hdr = header_init, nl_brk = 0\<rparr>"

definition notification_create :: "time_t \<Rightarrow> notifylist \<Rightarrow> notifylist \<times> nat" where
  "notification_create now self =
     (self\<lparr>nl_heap := (nl_heap self)(nl_brk self \<mapsto>
        \<lparr>n_next = None, n_prev = None, n_val = \<lparr>nt_hostid = \<lparr>msb = 0, lsb = 0\<rparr>, nt_notified = False,
           nt_isproblem = False, nt_status = '''', nt_lastchange = now\<rparr>\<rparr>), nl_brk := Suc (nl_brk self)\<rparr>, nl_brk self)"

definition notification_delete :: "notifylist \<Rightarrow> nat \<Rightarrow> notifylist" where
  "notification_delete self a = self\<lparr>nl_heap := (nl_heap self)(a := None)\<rparr>"

definition notifylist_remove :: "notifylist \<Rightarrow> nat \<Rightarrow> notifylist res" where
  "notifylist_remove self a =
     rbind (dll_unlink (nl_heap self) (nl_hdr self) a) (\<lambda>(h, l).
       Ok (notification_delete (self\<lparr>nl_heap := h, nl_hdr := l\<rparr>) a))"

text \<open>The field \<^verbatim>\<open>last\<close> is set only when the list was empty.\<close>

definition notifylist_link :: "notifylist \<Rightarrow> nat \<Rightarrow> notifylist res" where
  "notifylist_link self a =
     rbind (set_next (Some a) None (nl_heap self)) (\<lambda>h.
       if l_last (nl_hdr self) \<noteq> None then
         rbind (set_prev (Some a) (l_last (nl_hdr self)) h) (\<lambda>h.
         rbind (set_next (l_last (nl_hdr self)) (Some a) h) (\<lambda>h. Ok (self\<lparr>nl_heap := h\<rparr>)))
       else
         rbind (set_prev (Some a) None h) (\<lambda>h.
           Ok (self\<lparr>nl_heap := h, nl_hdr := \<lparr>l_first = Some a, l_last = Some a\<rparr>\<rparr>)))"

fun notifylist_clear_loop :: "nat \<Rightarrow> notifylist \<Rightarrow> nat option \<Rightarrow> notifylist res option" where
  "notifylist_clear_loop fuel self None = Some (Ok (self\<lparr>nl_hdr := header_init\<rparr>))"
| "notifylist_clear_loop 0 self (Some a) = None"
| "notifylist_clear_loop (Suc fuel) self (Some a) =
     (case deref (nl_heap self) (Some a) of
        Inl e \<Rightarrow> Some (Inl e)
      | Inr n \<Rightarrow> notifylist_clear_loop fuel (notification_delete self a) (n_next n))"

definition notifylist_clear :: "nat \<Rightarrow> notifylist \<Rightarrow> notifylist res option" where
  "notifylist_clear fuel self = notifylist_clear_loop fuel self (l_first (nl_hdr self))"

text \<open>The first node from \<open>p\<close> on whose notification satisfies \<open>P\<close>.\<close>

fun nl_walk :: "nat \<Rightarrow> notification heap \<Rightarrow> (notification \<Rightarrow> bool) \<Rightarrow> nat option \<Rightarrow> nat option res option" where
  "nl_walk fuel h P None = Some (Ok None)"
| "nl_walk 0 h P (Some a) = None"
| "nl_walk (Suc fuel) h P (Some a) =
     (case deref h (Some a) of
        Inl e \<Rightarrow> Some (Inl e)
      | Inr n \<Rightarrow> if P (n_val n) then Some (Ok (Some a)) else nl_walk fuel h P (n_next n))"

definition notifylist_find :: "nat \<Rightarrow> notifylist \<Rightarrow> uuid \<Rightarrow> nat option res option" where
  "notifylist_find fuel self hostid =
     nl_walk fuel (nl_heap self) (\<lambda>n. uuidcmp hostid (nt_hostid n)) (l_first (nl_hdr self))"

definition actionable :: "time_t \<Rightarrow> notification \<Rightarrow> bool" where
  "actionable now n \<longleftrightarrow> now - nt_lastchange n > 290 \<and> \<not> nt_notified n"

definition overdue :: "time_t \<Rightarrow> notification \<Rightarrow> bool" where
  "overdue now n \<longleftrightarrow> now - nt_lastchange n > 120 \<and> \<not> nt_notified n"

definition notifylist_check_actionable :: "nat \<Rightarrow> time_t \<Rightarrow> notifylist \<Rightarrow> bool res option" where
  "notifylist_check_actionable fuel now self =
     map_option (\<lambda>r. rbind r (\<lambda>p. Ok (p \<noteq> None)))
       (nl_walk fuel (nl_heap self) (actionable now) (l_first (nl_hdr self)))"

definition notifylist_find_overdue :: "nat \<Rightarrow> time_t \<Rightarrow> notifylist \<Rightarrow> nat option \<Rightarrow> nat option res option" where
  "notifylist_find_overdue fuel now self n =
     (case n of
        None \<Rightarrow> nl_walk fuel (nl_heap self) (overdue now) (l_first (nl_hdr self))
      | Some a \<Rightarrow>
          (case deref (nl_heap self) (Some a) of
             Inl e \<Rightarrow> Some (Inl e)
           | Inr nd \<Rightarrow> nl_walk fuel (nl_heap self) (overdue now) (n_next nd)))"

subsection \<open>Driving the list\<close>

definition upd_val :: "nat \<Rightarrow> (notification \<Rightarrow> notification) \<Rightarrow> notifylist \<Rightarrow> notifylist res" where
  "upd_val a f self =
     rbind (update_node (Some a) (\<lambda>n. n\<lparr>n_val := f (n_val n)\<rparr>) (nl_heap self)) (\<lambda>h. Ok (self\<lparr>nl_heap := h\<rparr>))"

definition tenant_set_notification ::
  "nat \<Rightarrow> time_t \<Rightarrow> notifylist \<Rightarrow> bool \<Rightarrow> string \<Rightarrow> uuid \<Rightarrow> notifylist res option" where
  "tenant_set_notification fuel now self isproblem status hostid =
     (case notifylist_find fuel self hostid of
        None \<Rightarrow> None
      | Some (Inl e) \<Rightarrow> Some (Inl e)
      | Some (Inr (Some a)) \<Rightarrow> Some
          (rbind (upd_val a (\<lambda>n. n\<lparr>nt_status := c_truncate 15 status\<rparr>) self) (\<lambda>self.
           rbind (deref (nl_heap self) (Some a)) (\<lambda>nd.
             let n = n_val nd in
             if nt_isproblem n = isproblem then Ok self
             else if nt_isproblem n \<and> \<not> nt_notified n then notifylist_remove self a
             else upd_val a (\<lambda>n. n\<lparr>nt_lastchange := now, nt_notified := False\<rparr>) self)))
      | Some (Inr None) \<Rightarrow> Some
          (if isproblem then
             (case notification_create now self of (self, a) \<Rightarrow>
                rbind (upd_val a (\<lambda>n. n\<lparr>nt_status := c_truncate 15 status, nt_notified := False,
                         nt_isproblem := isproblem, nt_lastchange := now, nt_hostid := hostid\<rparr>) self)
                  (\<lambda>self. notifylist_link self a))
           else Ok self))"

text \<open>The issues reported: host, status and whether it is a problem, in list order.\<close>

type_synonym issue = "uuid \<times> string \<times> bool"

fun check_loop :: "nat \<Rightarrow> nat \<Rightarrow> time_t \<Rightarrow> notifylist \<Rightarrow> nat option \<Rightarrow> (notifylist \<times> issue list) res option" where
  "check_loop n fuel now self None = Some (Ok (self, []))"
| "check_loop 0 fuel now self (Some a) = None"
| "check_loop (Suc n) fuel now self (Some a) =
     (case rbind (deref (nl_heap self) (Some a)) (\<lambda>nd.
             rbind (upd_val a (\<lambda>n. n\<lparr>nt_notified := True\<rparr>) self) (\<lambda>self. Ok (n_val nd, self))) of
        Inl e \<Rightarrow> Some (Inl e)
      | Inr (v, self) \<Rightarrow>
          (case notifylist_find_overdue fuel now self (Some a) of
             None \<Rightarrow> None
           | Some (Inl e) \<Rightarrow> Some (Inl e)
           | Some (Inr p) \<Rightarrow>
               map_option (\<lambda>r. rbind r (\<lambda>(self, is). Ok (self, (nt_hostid v, nt_status v, nt_isproblem v) # is)))
                 (check_loop n fuel now self p)))"

definition tenant_check_notification :: "nat \<Rightarrow> time_t \<Rightarrow> notifylist \<Rightarrow> (notifylist \<times> issue list option) res option" where
  "tenant_check_notification fuel now self =
     (case notifylist_check_actionable fuel now self of
        None \<Rightarrow> None
      | Some (Inl e) \<Rightarrow> Some (Inl e)
      | Some (Inr False) \<Rightarrow> Some (Ok (self, None))
      | Some (Inr True) \<Rightarrow>
          (case notifylist_find_overdue fuel now self None of
             None \<Rightarrow> None
           | Some (Inl e) \<Rightarrow> Some (Inl e)
           | Some (Inr p) \<Rightarrow>
               map_option (\<lambda>r. rbind r (\<lambda>(self, is). Ok (self, Some is))) (check_loop fuel fuel now self p)))"

subsection \<open>Runs\<close>

text \<open>The status changes of a tenant's hosts, each with its time: problem or not, status, host.\<close>

fun notify_run :: "nat \<Rightarrow> (time_t \<times> bool \<times> string \<times> uuid) list \<Rightarrow> notifylist \<Rightarrow> notifylist res option" where
  "notify_run fuel [] self = Some (Ok self)"
| "notify_run fuel ((now, p, st, u) # es) self =
     (case tenant_set_notification fuel now self p st u of
        None \<Rightarrow> None
      | Some (Inl e) \<Rightarrow> Some (Inl e)
      | Some (Inr self) \<Rightarrow> notify_run fuel es self)"

lemmas notify_defs = tenant_set_notification_def notifylist_find_def notification_create_def notifylist_link_def
  notifylist_remove_def notification_delete_def upd_val_def update_node_def deref_def notifylist_init_def
  header_init_def dll_unlink_def Let_def

text \<open>
  A host that has a problem for more than 290 seconds is reported once: the first check
  after that lists it, a second check lists nothing; a problem that went away before any
  check is forgotten.
\<close>

theorem single_problem_reported_once:
  assumes "length st \<le> 15" "cstr st" "now - t > 290"
  shows "(\<exists>s1 s2. notify_run 4 [(t, True, st, u)] notifylist_init = Some (Ok s1) \<and>
      tenant_check_notification 4 now s1 = Some (Ok (s2, Some [(u, st, True)])) \<and>
      tenant_check_notification 4 now s2 = Some (Ok (s2, None))) \<and>
    (\<exists>s1. notify_run 4 [(t, True, st, u), (t', False, st', u)] notifylist_init = Some (Ok s1) \<and>
      l_first (nl_hdr s1) = None \<and> l_last (nl_hdr s1) = None \<and> nl_heap s1 = (\<lambda>_. None))"
proof (rule conjI)
  have st: "c_truncate 15 st = st" by (rule c_truncate_id[OF assms(2,1)])
  have two: "(4 :: nat) = Suc (Suc (Suc (Suc 0)))" by simp
  show "\<exists>s1 s2. notify_run 4 [(t, True, st, u)] notifylist_init = Some (Ok s1) \<and>
      tenant_check_notification 4 now s1 = Some (Ok (s2, Some [(u, st, True)])) \<and>
      tenant_check_notification 4 now s2 = Some (Ok (s2, None))"
    using assms(3) unfolding two
    by (simp add: notify_defs st tenant_check_notification_def notifylist_check_actionable_def actionable_def overdue_def
        notifylist_find_overdue_def)
  show "\<exists>s1. notify_run 4 [(t, True, st, u), (t', False, st', u)] notifylist_init = Some (Ok s1) \<and>
      l_first (nl_hdr s1) = None \<and> l_last (nl_hdr s1) = None \<and> nl_heap s1 = (\<lambda>_. None)"
    unfolding two by (simp add: notify_defs )
qed



theorem single_problem_reported_once_witness:
  "\<exists>s1 s2. notify_run 4 [(0, True, ''CRIT'', \<lparr>msb = 0, lsb = 1\<rparr>)] notifylist_init = Some (Ok s1) \<and>
      tenant_check_notification 4 300 s1 = Some (Ok (s2, Some [(\<lparr>msb = 0, lsb = 1\<rparr>, ''CRIT'', True)])) \<and>
      tenant_check_notification 4 300 s2 = Some (Ok (s2, None))"
  using single_problem_reported_once[of "''CRIT''" 300 0 "\<lparr>msb = 0, lsb = 1\<rparr>"] by (simp add: cstr_def)

text \<open>
  When the first of two hosts with problems recovers before it was reported, its node is
  freed while \<^verbatim>\<open>last\<close> still points to it; the next host with a problem writes to freed memory.
\<close>

theorem recovery_leaves_dangling_last:
  assumes "u1 \<noteq> u2" "u1 \<noteq> u3" "u2 \<noteq> u3"
  shows "notify_run 4 [(t1, True, s1, u1), (t2, True, s2, u2), (t3, False, s3, u1), (t4, True, s4, u3)] notifylist_init
    = Some (Fault UseAfterFree)"
proof -
  have two: "(4 :: nat) = Suc (Suc (Suc (Suc 0)))" by simp
  show ?thesis using assms unfolding two by (simp add: notify_defs )
qed

theorem recovery_leaves_dangling_last_witness:
  "notify_run 4 [(0, True, ''CRIT'', \<lparr>msb = 0, lsb = 1\<rparr>), (9, True, ''ALERT'', \<lparr>msb = 0, lsb = 2\<rparr>),
     (60, False, ''OK'', \<lparr>msb = 0, lsb = 1\<rparr>), (70, True, ''STALE'', \<lparr>msb = 0, lsb = 3\<rparr>)] notifylist_init
   = Some (Fault UseAfterFree)"
  by (rule recovery_leaves_dangling_last) simp_all

end
