(* ===== verification/Cnum.thy ===== *)
theory Cnum
  imports Prelude Double
begin

text \<open>
  The conversions from text of the C library that opticon uses: \<^verbatim>\<open>strtoull\<close> with base 10,
  \<^verbatim>\<open>atoi\<close> and \<^verbatim>\<open>atof\<close> on decimal texts. A text of \<^verbatim>\<open>atof\<close> in hexadecimal, or spelling an
  infinity or a NaN, is treated as one without digits.
\<close>

definition c_isspace :: "char \<Rightarrow> bool" where
  "c_isspace c \<longleftrightarrow> c \<in> {CHR '' '', CHR 0x09, CHR 0x0A, CHR 0x0B, CHR 0x0C, CHR 0x0D}"

definition c_isdigit :: "char \<Rightarrow> bool" where
  "c_isdigit c \<longleftrightarrow> 48 \<le> (of_char c :: nat) \<and> (of_char c :: nat) \<le> 57"

definition digit_val :: "char \<Rightarrow> nat" where
  "digit_val c = of_char c - 48"

definition digits_val :: "string \<Rightarrow> nat" where
  "digits_val s = foldl (\<lambda>n c. 10 * n + digit_val c) 0 s"

definition c_sign :: "string \<Rightarrow> bool \<times> string" where
  "c_sign s = (case s of
      c # r \<Rightarrow> if c = CHR ''-'' then (True, r) else if c = CHR ''+'' then (False, r) else (False, s)
    | [] \<Rightarrow> (False, s))"

text \<open>Out of range gives \<^verbatim>\<open>ULLONG_MAX\<close>; a minus sign negates modulo 2^64.\<close>

definition strtoull10 :: "string \<Rightarrow> u64" where
  "strtoull10 s =
     (let (neg, r) = c_sign (dropWhile c_isspace s);
          n = digits_val (takeWhile c_isdigit r)
      in if n \<ge> 2 ^ 64 then - 1 else if neg then - of_nat n else of_nat n)"

text \<open>\<^verbatim>\<open>atoi\<close> is the \<^verbatim>\<open>int\<close> cut of \<^verbatim>\<open>strtol\<close>, as glibc defines it.\<close>

definition c_atoi :: "string \<Rightarrow> int" where
  "c_atoi s =
     (let (neg, r) = c_sign (dropWhile c_isspace s);
          n = int (digits_val (takeWhile c_isdigit r));
          l = (if neg then max (- n) (- (2 ^ 63)) else min n (2 ^ 63 - 1))
      in signed_take_bit 31 l)"

definition c_exponent :: "string \<Rightarrow> int" where
  "c_exponent s = (case s of
      c # r \<Rightarrow>
        if c \<in> {CHR ''e'', CHR ''E''} then
          (let (neg, r) = c_sign r; n = int (digits_val (takeWhile c_isdigit r)) in if neg then - n else n)
        else 0
    | [] \<Rightarrow> 0)"

definition c_atof :: "string \<Rightarrow> rat" where
  "c_atof s =
     (let (neg, r) = c_sign (dropWhile c_isspace s);
          ip = takeWhile c_isdigit r;
          r = dropWhile c_isdigit r;
          (fp, r) = (case r of c # r' \<Rightarrow> if c = CHR ''.'' then (takeWhile c_isdigit r', dropWhile c_isdigit r') else ('''', r)
                             | [] \<Rightarrow> ('''', []));
          m = of_nat (digits_val (ip @ fp));
          e = (if ip @ fp = [] then 0 else c_exponent r) - int (length fp);
          v = rnd (m * 10 powi e)
      in if neg then - v else v)"

lemma digits_val_Nil [simp]: "digits_val [] = 0"
  by (simp add: digits_val_def)

lemma digits_val_snoc: "digits_val (s @ [c]) = 10 * digits_val s + digit_val c"
  by (simp add: digits_val_def)

text \<open>Decimal output of \<^verbatim>\<open>printf\<close>'s \<^verbatim>\<open>%llu\<close>, and that \<^verbatim>\<open>strtoull\<close> reads it back.\<close>

fun dec_digits :: "nat \<Rightarrow> string" where
  "dec_digits n = (if n < 10 then [char_of (48 + n)] else dec_digits (n div 10) @ [char_of (48 + n mod 10)])"

declare dec_digits.simps [simp del]

lemma digit_char: "n < 10 \<Longrightarrow> digit_val (char_of (48 + n)) = n \<and> c_isdigit (char_of (48 + n))"
  by (simp add: digit_val_def c_isdigit_def of_char_of)

lemma dec_digits_props: "digits_val (dec_digits n) = n \<and> (\<forall>c\<in>set (dec_digits n). c_isdigit c) \<and> dec_digits n \<noteq> []"
proof (induction n rule: dec_digits.induct)
  case (1 n)
  show ?case
  proof (cases "n < 10")
    case True
    then show ?thesis using digit_char[OF True] by (subst (1 2 3) dec_digits.simps) (simp add: digits_val_def)
  next
    case False
    have "n mod 10 < 10" by simp
    note d = digit_char[OF this]
    show ?thesis using 1[OF False] False d
      by (subst (1 2 3) dec_digits.simps) (auto simp: digits_val_snoc)
  qed
qed

lemma digit_not_space: "c_isdigit c \<Longrightarrow> \<not> c_isspace c \<and> c \<noteq> CHR ''-'' \<and> c \<noteq> CHR ''+''"
  by (auto simp: c_isdigit_def c_isspace_def)

lemma strtoull_dec:
  assumes "n < 2 ^ 64" "r = [] \<or> \<not> c_isdigit (hd r)"
  shows "strtoull10 (dec_digits n @ r) = of_nat n"
proof -
  note p = dec_digits_props[of n]
  obtain c cs where c: "dec_digits n = c # cs" using p by (cases "dec_digits n") auto
  then have "c_isdigit c" using p by auto
  then have "dropWhile c_isspace (dec_digits n @ r) = dec_digits n @ r" "c_sign (dec_digits n @ r) = (False, dec_digits n @ r)"
    using c digit_not_space[of c] by (simp_all add: c_sign_def)
  moreover have "takeWhile c_isdigit (dec_digits n @ r) = dec_digits n"
    using p assms(2) by (subst takeWhile_append2) (auto, cases r, auto)
  ultimately show ?thesis using p assms(1) by (simp add: strtoull10_def)
qed

end
