(* ===== verification/Summary.thy ===== *)
theory Summary
  imports Meter Cnum
begin

text \<open>
  \<^verbatim>\<open>libopticon/summary.c\<close>: the summaries of a tenant, averages, totals and counts over the
  meters of all its hosts. \<open>summaryinfo\<close> is the array of \<^verbatim>\<open>summarydata\<close>; a meter's data reaches
  it as the value pointer \<open>mdata\<close> of theory \<open>Meter\<close>. \<open>ub\<close> is what the conversion of a double
  outside the range of \<^verbatim>\<open>uint64_t\<close> gives, which C leaves undefined. The result of a round is
  the dictionary the tally writes, an association list of names and numbers.
\<close>

datatype summarytype = SUMMARY_NONE | SUMMARY_AVG | SUMMARY_TOTAL | SUMMARY_COUNT

record summarydata =
  sd_meter :: u64
  sd_name :: string
  sd_type :: summarytype
  sd_d :: mdata
  sd_samplecount :: nat

type_synonym summaryinfo = "summarydata list"

definition summarydata_create :: summarydata where
  "summarydata_create = \<lparr>sd_meter = 0, sd_name = '''', sd_type = SUMMARY_NONE, sd_d = NoData, sd_samplecount = 0\<rparr>"

definition summarydata_clear :: "summarydata \<Rightarrow> summarydata" where
  "summarydata_clear self = self\<lparr>sd_samplecount := 0, sd_d := NoData\<rparr>"

definition summarydata_clear_sample :: "summarydata \<Rightarrow> summarydata" where
  "summarydata_clear_sample self =
     (if sd_meter self AND MMASK_TYPE = MTYPE_STR then self\<lparr>sd_samplecount := 0\<rparr> else summarydata_clear self)"

subsection \<open>Adding a sample\<close>

definition dbl_to_u64 :: "(dbl \<Rightarrow> u64) \<Rightarrow> dbl \<Rightarrow> u64" where
  "dbl_to_u64 ub d = (case d of
      Fin x \<Rightarrow> if -1 < x \<and> x < 2 ^ 64 then word_of_int (if x < 0 then 0 else \<lfloor>x\<rfloor>) else ub d
    | Inf \<Rightarrow> ub d)"

fun dbl_add :: "dbl \<Rightarrow> dbl \<Rightarrow> dbl" where
  "dbl_add (Fin a) (Fin b) = Fin (rnd (a + b))"
| "dbl_add _ _ = Inf"

text \<open>The operand a meter contributes to a sum of integers or of doubles.\<close>

definition sample_u64 :: "(dbl \<Rightarrow> u64) \<Rightarrow> mdata \<Rightarrow> u64 \<Rightarrow> u64 res" where
  "sample_u64 ub d tp =
     (if tp AND MMASK_TYPE = MTYPE_INT then load_u64 d 0
      else if tp AND MMASK_TYPE = MTYPE_FRAC then rbind (load_frac d 0) (\<lambda>v. Ok (dbl_to_u64 ub v))
      else if tp AND MMASK_TYPE = MTYPE_STR then rbind (load_str d 0) (\<lambda>s. Ok (strtoull10 s))
      else Ok 0)"

definition sample_frac :: "mdata \<Rightarrow> u64 \<Rightarrow> dbl res" where
  "sample_frac d tp =
     (if tp AND MMASK_TYPE = MTYPE_INT then rbind (load_u64 d 0) (\<lambda>v. Ok (Fin (rnd (of_nat (unat v)))))
      else if tp AND MMASK_TYPE = MTYPE_FRAC then load_frac d 0
      else if tp AND MMASK_TYPE = MTYPE_STR then rbind (load_str d 0) (\<lambda>s. Ok (Fin (c_atof s)))
      else Ok (Fin 0))"

definition summarydata_add :: "(dbl \<Rightarrow> u64) \<Rightarrow> summarydata \<Rightarrow> mdata \<Rightarrow> u64 \<Rightarrow> summarydata res" where
  "summarydata_add ub self d tp =
     (if sd_meter self AND MMASK_TYPE = MTYPE_INT then
        (let own = (if sd_d self = NoData then Block 8 (U64s [0]) else sd_d self) in
         rbind (load_u64 own 0) (\<lambda>acc.
         rbind (sample_u64 ub d tp) (\<lambda>v.
         rbind (store_u64 own 0 (acc + v)) (\<lambda>own.
           Ok (self\<lparr>sd_d := own, sd_samplecount := Suc (sd_samplecount self)\<rparr>)))))
      else if sd_meter self AND MMASK_TYPE = MTYPE_FRAC then
        (let own = (if sd_d self = NoData then Block 8 (Fracs [Fin 0]) else sd_d self) in
         rbind (load_frac own 0) (\<lambda>acc.
         rbind (sample_frac d tp) (\<lambda>v.
         rbind (store_frac own 0 (dbl_add acc v)) (\<lambda>own.
           Ok (self\<lparr>sd_d := own, sd_samplecount := Suc (sd_samplecount self)\<rparr>)))))
      else if sd_meter self AND MMASK_TYPE = MTYPE_STR then
        (let own = (if sd_d self = NoData then Block 128 (Strs ['''']) else sd_d self);
             self = self\<lparr>sd_d := own\<rparr> in
         if tp AND MMASK_TYPE \<noteq> MTYPE_STR then Ok self
         else rbind (load_str own 0) (\<lambda>a. rbind (load_str d 0) (\<lambda>b.
           Ok (if a = b then self\<lparr>sd_samplecount := Suc (sd_samplecount self)\<rparr> else self))))
      else Ok self)"

subsection \<open>The list of summaries\<close>

definition summaryinfo_init :: summaryinfo where "summaryinfo_init = []"
definition summaryinfo_clear :: "summaryinfo \<Rightarrow> summaryinfo" where "summaryinfo_clear self = []"

definition summaryinfo_add_summary_any :: "summaryinfo \<Rightarrow> string \<Rightarrow> u64 \<Rightarrow> summarytype \<Rightarrow> summaryinfo" where
  "summaryinfo_add_summary_any self name mid mytype =
     self @ [summarydata_create\<lparr>sd_meter := mid, sd_name := c_truncate 127 name, sd_type := mytype\<rparr>]"

definition summaryinfo_add_summary_avg :: "summaryinfo \<Rightarrow> string \<Rightarrow> u64 \<Rightarrow> summaryinfo" where
  "summaryinfo_add_summary_avg self name mid = summaryinfo_add_summary_any self name mid SUMMARY_AVG"

definition summaryinfo_add_summary_total :: "summaryinfo \<Rightarrow> string \<Rightarrow> u64 \<Rightarrow> summaryinfo" where
  "summaryinfo_add_summary_total self name mid = summaryinfo_add_summary_any self name mid SUMMARY_TOTAL"

definition summaryinfo_add_summary_count :: "summaryinfo \<Rightarrow> string \<Rightarrow> u64 \<Rightarrow> string \<Rightarrow> summaryinfo" where
  "summaryinfo_add_summary_count self name mid match =
     self @ [summarydata_create\<lparr>sd_meter := (mid AND MMASK_NAME) OR MTYPE_STR, sd_name := c_truncate 127 name,
       sd_type := SUMMARY_COUNT, sd_d := Block 128 (Strs [c_truncate 127 match])\<rparr>]"

definition summaryinfo_start_round :: "summaryinfo \<Rightarrow> summaryinfo" where
  "summaryinfo_start_round self = map summarydata_clear_sample self"

fun summaryinfo_add_meterdata :: "(dbl \<Rightarrow> u64) \<Rightarrow> summaryinfo \<Rightarrow> u64 \<Rightarrow> mdata \<Rightarrow> summaryinfo res" where
  "summaryinfo_add_meterdata ub [] mid d = Ok []"
| "summaryinfo_add_meterdata ub (s # ss) mid d =
     rbind (if sd_meter s AND MMASK_NAME = mid AND MMASK_NAME then summarydata_add ub s d mid else Ok s) (\<lambda>s.
     rbind (summaryinfo_add_meterdata ub ss mid d) (\<lambda>ss. Ok (s # ss)))"

subsection \<open>The tally\<close>

datatype sumval = SumInt u64 | SumFrac dbl

fun dbl_div_nat :: "dbl \<Rightarrow> nat \<Rightarrow> dbl" where
  "dbl_div_nat (Fin a) n = Fin (rnd (a / of_nat n))"
| "dbl_div_nat Inf n = Inf"

definition sum_zero :: "summarydata \<Rightarrow> sumval" where
  "sum_zero self = (if sd_meter self AND MMASK_TYPE = MTYPE_FRAC then SumFrac (Fin 0) else SumInt 0)"

definition summarydata_calc_avg :: "summarydata \<Rightarrow> sumval res" where
  "summarydata_calc_avg self =
     (if \<not> (sd_samplecount self \<noteq> 0 \<and> sd_d self \<noteq> NoData) then Ok (sum_zero self)
      else if sd_meter self AND MMASK_TYPE = MTYPE_INT then
        rbind (load_u64 (sd_d self) 0) (\<lambda>v. Ok (SumInt (v div of_nat (sd_samplecount self))))
      else if sd_meter self AND MMASK_TYPE = MTYPE_FRAC then
        rbind (load_frac (sd_d self) 0) (\<lambda>v. Ok (SumFrac (dbl_div_nat v (sd_samplecount self))))
      else Ok (SumInt 0))"

definition summarydata_calc_total :: "summarydata \<Rightarrow> sumval res" where
  "summarydata_calc_total self =
     (if sd_d self = NoData then Ok (sum_zero self)
      else if sd_meter self AND MMASK_TYPE = MTYPE_INT then rbind (load_u64 (sd_d self) 0) (\<lambda>v. Ok (SumInt v))
      else if sd_meter self AND MMASK_TYPE = MTYPE_FRAC then rbind (load_frac (sd_d self) 0) (\<lambda>v. Ok (SumFrac v))
      else Ok (SumInt 0))"

definition tally_value :: "summarydata \<Rightarrow> sumval res" where
  "tally_value crsr = (case sd_type crsr of
      SUMMARY_AVG \<Rightarrow> summarydata_calc_avg crsr
    | SUMMARY_TOTAL \<Rightarrow> summarydata_calc_total crsr
    | SUMMARY_COUNT \<Rightarrow> Ok (SumInt (of_nat (sd_samplecount crsr)))
    | SUMMARY_NONE \<Rightarrow> Ok (SumInt 0))"

text \<open>\<^verbatim>\<open>var_set_int\<close> and \<^verbatim>\<open>var_set_double\<close> leave a key of the other type alone.\<close>

fun same_kind :: "sumval \<Rightarrow> sumval \<Rightarrow> bool" where
  "same_kind (SumInt _) (SumInt _) = True"
| "same_kind (SumFrac _) (SumFrac _) = True"
| "same_kind _ _ = False"

fun dict_set :: "(string \<times> sumval) list \<Rightarrow> string \<Rightarrow> sumval \<Rightarrow> (string \<times> sumval) list" where
  "dict_set [] k v = [(k, v)]"
| "dict_set ((k', v') # kvs) k v =
     (if k' = k then (k', if same_kind v' v then v else v') # kvs else (k', v') # dict_set kvs k v)"

fun tally_loop :: "summaryinfo \<Rightarrow> (string \<times> sumval) list \<Rightarrow> (string \<times> sumval) list res" where
  "tally_loop [] res = Ok res"
| "tally_loop (crsr # ss) res = rbind (tally_value crsr) (\<lambda>v. tally_loop ss (dict_set res (sd_name crsr) v))"

definition summaryinfo_tally_round :: "summaryinfo \<Rightarrow> (string \<times> sumval) list res" where
  "summaryinfo_tally_round self = tally_loop self []"

subsection \<open>A round\<close>

text \<open>What the watch thread feeds the summaries: every meter of every host of the tenant.\<close>

fun feed :: "(dbl \<Rightarrow> u64) \<Rightarrow> summaryinfo \<Rightarrow> (u64 \<times> mdata) list \<Rightarrow> summaryinfo res" where
  "feed ub self [] = Ok self"
| "feed ub self ((mid, d) # ms) = rbind (summaryinfo_add_meterdata ub self mid d) (\<lambda>self. feed ub self ms)"

definition summary_round :: "(dbl \<Rightarrow> u64) \<Rightarrow> summaryinfo \<Rightarrow> (u64 \<times> mdata) list \<Rightarrow> (string \<times> sumval) list res" where
  "summary_round ub self ms = rbind (feed ub (summaryinfo_start_round self) ms) summaryinfo_tally_round"

subsection \<open>Averages and totals of integers\<close>

definition int_block :: "u64 \<Rightarrow> mdata" where
  "int_block v = Block 8 (U64s [v])"

lemma add_int:
  assumes "sd_meter s AND MMASK_TYPE = MTYPE_INT" "tp AND MMASK_TYPE = MTYPE_INT"
    "sd_d s = NoData \<and> acc = 0 \<or> sd_d s = int_block acc" "load_u64 d 0 = Ok v"
  shows "summarydata_add ub s d tp = Ok (s\<lparr>sd_d := int_block (acc + v), sd_samplecount := Suc (sd_samplecount s)\<rparr>)"
  using assms by (auto simp: summarydata_add_def sample_u64_def int_block_def sizeof_defs Let_def)

text \<open>The samples a summary takes from a round, and the meters of other names it ignores.\<close>

definition samples_ok :: "u64 \<Rightarrow> (u64 \<times> mdata) list \<Rightarrow> bool" where
  "samples_ok ident ms \<longleftrightarrow> list_all (\<lambda>(mid, d). mid AND MMASK_NAME = ident AND MMASK_NAME \<longrightarrow>
     mid AND MMASK_TYPE = MTYPE_INT \<and> (\<exists>v. load_u64 d 0 = Ok v)) ms"

definition sample_vals :: "u64 \<Rightarrow> (u64 \<times> mdata) list \<Rightarrow> u64 list" where
  "sample_vals ident ms = map (\<lambda>(mid, d). projr (load_u64 d 0)) (filter (\<lambda>(mid, d). mid AND MMASK_NAME = ident AND MMASK_NAME) ms)"

lemma feed_int:
  assumes "sd_meter s AND MMASK_TYPE = MTYPE_INT" "samples_ok (sd_meter s) ms"
    "sd_d s = NoData \<and> acc = 0 \<and> sd_samplecount s = 0 \<or> sd_d s = int_block acc \<and> sd_samplecount s \<noteq> 0"
  shows "\<exists>s'. feed ub [s] ms = Ok [s'] \<and> sd_type s' = sd_type s \<and> sd_name s' = sd_name s \<and> sd_meter s' = sd_meter s \<and>
    sd_samplecount s' = sd_samplecount s + length (sample_vals (sd_meter s) ms) \<and>
    (if sd_samplecount s' = 0 then sd_d s' = NoData
     else sd_d s' = int_block (acc + sum_list (sample_vals (sd_meter s) ms)))"
  using assms
proof (induction ms arbitrary: s acc)
  case Nil
  then show ?case by (auto simp: sample_vals_def)
next
  case (Cons p ms)
  obtain mid d where p: "p = (mid, d)" by (cases p)
  show ?case
  proof (cases "mid AND MMASK_NAME = sd_meter s AND MMASK_NAME")
    case False
    then have e1: "sample_vals (sd_meter s) (p # ms) = sample_vals (sd_meter s) ms" by (simp add: p sample_vals_def)
    have e2: "feed ub [s] (p # ms) = feed ub [s] ms" using False by (simp add: p)
    have "samples_ok (sd_meter s) ms" using Cons.prems(2) by (simp add: samples_ok_def)
    from Cons.IH[OF Cons.prems(1) this Cons.prems(3)] show ?thesis unfolding e1 e2 .
  next
    case True
    obtain v where v: "mid AND MMASK_TYPE = MTYPE_INT" "load_u64 d 0 = Ok v"
      using Cons.prems(2) True by (auto simp: samples_ok_def p)
    let ?s = "s\<lparr>sd_d := int_block (acc + v), sd_samplecount := Suc (sd_samplecount s)\<rparr>"
    have a: "summarydata_add ub s d mid = Ok ?s" by (rule add_int[OF Cons.prems(1) v(1) _ v(2)]) (use Cons.prems(3) in auto)
    have vals: "sample_vals (sd_meter s) (p # ms) = v # sample_vals (sd_meter s) ms" using True v(2) by (simp add: p sample_vals_def)
    have "samples_ok (sd_meter ?s) ms" using Cons.prems(2) by (simp add: samples_ok_def)
    from Cons.IH[of ?s "acc + v", OF _ this] have "\<exists>s'. feed ub [?s] ms = Ok [s'] \<and> sd_type s' = sd_type s \<and> sd_name s' = sd_name s \<and> sd_meter s' = sd_meter s \<and>
        sd_samplecount s' = sd_samplecount s + Suc (length (sample_vals (sd_meter s) ms)) \<and>
        sd_d s' = int_block (acc + v + sum_list (sample_vals (sd_meter s) ms))"
      using Cons.prems(1) by auto
    then obtain s' where s': "feed ub [?s] ms = Ok [s']" "sd_type s' = sd_type s" "sd_name s' = sd_name s" "sd_meter s' = sd_meter s"
        "sd_samplecount s' = sd_samplecount s + Suc (length (sample_vals (sd_meter s) ms))"
        "sd_d s' = int_block (acc + v + sum_list (sample_vals (sd_meter s) ms))" by blast
    have "feed ub [s] (p # ms) = Ok [s']" using a True s'(1) by (simp add: p)
    then show ?thesis unfolding vals using s'(2-) by (intro exI[of _ s']) (simp add: add.assoc)
  qed
qed

text \<open>
  A round over any list of meters gives, for an average of an integer meter, the sum of
  the first elements of the meters of that name, modulo 2^64, divided by their number, and 0
  when there are none; for a total it gives the sum. Meters of other names do not count.
\<close>

theorem summary_round_int:
  assumes "ident AND MMASK_TYPE = MTYPE_INT" "samples_ok ident ms" "length name \<le> 127" "cstr name"
    "vs = sample_vals ident ms"
  shows "summary_round ub (summaryinfo_add_summary_avg summaryinfo_init name ident) ms =
      Ok [(name, SumInt (sum_list vs div of_nat (length vs)))] \<and>
    summary_round ub (summaryinfo_add_summary_total summaryinfo_init name ident) ms = Ok [(name, SumInt (sum_list vs))]"
proof -
  let ?s = "\<lambda>t. summarydata_create\<lparr>sd_meter := ident, sd_name := name, sd_type := t\<rparr>"
  have n: "c_truncate 127 name = name" using assms(4,3) by (rule c_truncate_id)
  have start: "summaryinfo_start_round [?s t] = [?s t]" for t
    using assms(1) by (simp add: summaryinfo_start_round_def summarydata_clear_sample_def summarydata_clear_def summarydata_create_def)
  have f: "\<exists>s'. feed ub [?s t] ms = Ok [s'] \<and> sd_type s' = t \<and> sd_name s' = name \<and> sd_meter s' = ident \<and>
      sd_samplecount s' = length vs \<and> (if vs = [] then sd_d s' = NoData else sd_d s' = int_block (sum_list vs))" for t
    using feed_int[of "?s t" ms 0 ub] assms(1,2,5) by (auto simp: summarydata_create_def)
  obtain sa where sa: "feed ub [?s SUMMARY_AVG] ms = Ok [sa]" "sd_type sa = SUMMARY_AVG" "sd_name sa = name" "sd_meter sa = ident"
      "sd_samplecount sa = length vs" "if vs = [] then sd_d sa = NoData else sd_d sa = int_block (sum_list vs)"
    using f by blast
  obtain st where st: "feed ub [?s SUMMARY_TOTAL] ms = Ok [st]" "sd_type st = SUMMARY_TOTAL" "sd_name st = name" "sd_meter st = ident"
      "sd_samplecount st = length vs" "if vs = [] then sd_d st = NoData else sd_d st = int_block (sum_list vs)"
    using f by blast
  have "summarydata_calc_avg sa = Ok (SumInt (sum_list vs div of_nat (length vs)))"
    using sa assms(1) by (cases "vs = []") (auto simp: summarydata_calc_avg_def sum_zero_def int_block_def sizeof_defs)
  moreover have "summarydata_calc_total st = Ok (SumInt (sum_list vs))"
    using st assms(1) by (cases "vs = []") (auto simp: summarydata_calc_total_def sum_zero_def int_block_def sizeof_defs)
  ultimately show ?thesis using sa(1-3) st(1-3) start
    by (simp add: summary_round_def summaryinfo_add_summary_avg_def summaryinfo_add_summary_total_def
        summaryinfo_add_summary_any_def summaryinfo_init_def n summaryinfo_tally_round_def tally_value_def)
qed

theorem summary_round_int_witness:
  "summary_round (\<lambda>_. 0) (summaryinfo_add_summary_avg summaryinfo_init ''cpu'' 64)
     [(64, int_block 7), (96, NoData), (64, int_block 4)] = Ok [(''cpu'', SumInt (sum_list [7, 4] div of_nat (length [7 :: u64, 4])))] \<and>
   summary_round (\<lambda>_. 0) (summaryinfo_add_summary_total summaryinfo_init ''cpu'' 64)
     [(64, int_block 7), (96, NoData), (64, int_block 4)] = Ok [(''cpu'', SumInt (sum_list [7, 4]))]"
  by (rule summary_round_int)
    (simp_all add: mask_defs samples_ok_def sample_vals_def int_block_def sizeof_defs cstr_def)

text \<open>
  A meter without a value kills the round: its value pointer is NULL, and
  \<^verbatim>\<open>summarydata_add\<close> reads through it whenever a summary has its name and a number type,
  whatever the type of the meter.
\<close>

theorem empty_meter_stops_summary:
  assumes "sd_meter s AND MMASK_NAME = mid AND MMASK_NAME" "sd_meter s AND MMASK_TYPE \<in> {MTYPE_INT, MTYPE_FRAC}"
    "mid AND MMASK_TYPE \<in> {MTYPE_INT, MTYPE_FRAC, MTYPE_STR}" "sd_d s = NoData"
  shows "summaryinfo_add_meterdata ub (s # ss) mid NoData = Fault NullDeref"
  using assms by (auto simp: summarydata_add_def sample_u64_def sample_frac_def sizeof_defs Let_def)

theorem empty_meter_stops_summary_witness:
  "summaryinfo_add_meterdata (\<lambda>_. 0) (summarydata_create\<lparr>sd_meter := 64, sd_type := SUMMARY_AVG\<rparr> # []) 64 NoData = Fault NullDeref"
  by (rule empty_meter_stops_summary) (simp_all add: summarydata_create_def mask_defs)

end
