(* ===== verification/Watcher.thy ===== *)
theory Watcher
  imports Host Summary
begin

text \<open>
  \<^verbatim>\<open>opticon-collector/watcher.c\<close>: the watch thread. Once a minute it scores every meter of
  every host against the watch lists, turns the accumulated badness into a status, stores
  problems, badness and status as meters of the host, and feeds the summaries. What it asks of
  the database and of the ping thread are the fields of \<open>watch_env\<close>; what it tells the
  database and the notifications is the list of events it leaves, in order.
\<close>

datatype event =
    DbLog uuid string
  | DbSave time_t host
  | DbGraph uuid "string option" "string option" dbl
  | Notified bool string uuid
  | HostDeleted uuid

text \<open>
  \<open>we_rtt\<close> and \<open>we_loss\<close> are \<^verbatim>\<open>ping_get_rtt\<close> and \<^verbatim>\<open>ping_get_loss\<close> of an address text,
  \<open>we_watch\<close> is the watch list of \<^verbatim>\<open>APP\<close>, \<open>we_tenant_watch\<close> that of the tenant.
\<close>

record watch_env =
  we_now :: time_t
  we_rtt :: "string \<Rightarrow> dbl"
  we_loss :: "string \<Rightarrow> dbl"
  we_db_opens :: bool
  we_host_exists :: "uuid \<Rightarrow> bool"
  we_watch :: watchlist
  we_tenant_watch :: watchlist

definition mid_ip :: u64 where "mid_ip = makeid ''link/ip'' MTYPE_STR"
definition mid_rtt :: u64 where "mid_rtt = makeid ''link/rtt'' MTYPE_FRAC"
definition mid_loss :: u64 where "mid_loss = makeid ''link/loss'' MTYPE_FRAC"
definition mid_problems :: u64 where "mid_problems = makeid ''problems'' MTYPE_STR"
definition mid_badness :: u64 where "mid_badness = makeid ''badness'' MTYPE_FRAC"

subsection \<open>Before the watches\<close>

definition host_on :: "host \<Rightarrow> nat \<Rightarrow> (meter \<Rightarrow> meter res) \<Rightarrow> host res" where
  "host_on h k f = rbind (f (h_meters h ! k)) (\<lambda>m. Ok (host_set_meter h k m))"

definition put_frac :: "host \<Rightarrow> nat \<Rightarrow> dbl \<Rightarrow> host res" where
  "put_frac h k v =
     rbind (host_on h k (\<lambda>m. meter_setcount (h_lastmodified h) m 0)) (\<lambda>h.
     host_on h k (\<lambda>m. meter_set_frac (h_lastmodified h) m 0 v))"

definition watch_link :: "watch_env \<Rightarrow> host \<Rightarrow> host res" where
  "watch_link env h =
     (case host_find_meter h mid_ip of
        None \<Rightarrow> Ok h
      | Some k \<Rightarrow>
          rbind (meter_get_str (h_meters h ! k) 0) (\<lambda>ip.
            if ip = '''' then Ok h
            else
              let (h, kr) = host_get_meter h mid_rtt;
                  (h, kl) = host_get_meter h mid_loss
              in rbind (put_frac h kr (we_rtt env ip)) (\<lambda>h. put_frac h kl (we_loss env ip))))"

text \<open>The status meter, its index and the status of the last round.\<close>

definition watch_prepare :: "watch_env \<Rightarrow> host \<Rightarrow> (host \<times> nat \<times> string) res" where
  "watch_prepare env h =
     rbind (watch_link env h) (\<lambda>h.
       let (h, ks) = host_get_meter h mid_status in
       rbind (meter_get_str (h_meters h ! ks) 0) (\<lambda>ostatus.
       rbind (host_on h ks (\<lambda>m. meter_setcount (h_lastmodified h) m 0)) (\<lambda>h.
         Ok (h, ks, if ostatus = '''' then ''UNSET'' else ostatus))))"

subsection \<open>Scoring the meters\<close>

text \<open>The watches of one list with the meter's name; the flag is \<^verbatim>\<open>handled\<close>.\<close>

fun list_badness :: "meter \<Rightarrow> watchadjust option \<Rightarrow> watchlist \<Rightarrow> rat \<times> bool \<times> watchtrigger \<Rightarrow> (rat \<times> bool \<times> watchtrigger) res" where
  "list_badness m adj [] st = Ok st"
| "list_badness m adj (w # ws) (bad, handled, mx) =
     (if mw_id w AND MMASK_NAME = mt_id m AND MMASK_NAME then
        rbind (calculate_badness m w adj mx) (\<lambda>(b, mx). list_badness m adj ws (rnd (bad + b), True, mx))
      else list_badness m adj ws (bad, handled, mx))"

definition meter_badness :: "watch_env \<Rightarrow> adjustlist \<Rightarrow> meter \<Rightarrow> watchtrigger \<Rightarrow> (rat \<times> watchtrigger) res" where
  "meter_badness env adjs m mx =
     (let adj = map_option ((!) adjs) (adjustlist_find adjs (mt_id m)) in
      rbind (list_badness m adj (we_tenant_watch env) (0, False, mx)) (\<lambda>(bad, handled, mx).
        if handled then Ok (bad, mx)
        else rbind (list_badness m adj (we_watch env) (bad, handled, mx)) (\<lambda>(bad, _, mx). Ok (bad, mx))))"

record scores =
  sc_problems :: nat
  sc_total :: rat
  sc_trigger :: watchtrigger

definition scores0 :: scores where
  "scores0 = \<lparr>sc_problems = 0, sc_total = 0, sc_trigger = WATCH_NONE\<rparr>"

definition score_add :: "scores \<Rightarrow> rat \<Rightarrow> watchtrigger \<Rightarrow> scores" where
  "score_add sc bad mx =
     \<lparr>sc_problems = (if bad \<noteq> 0 then Suc (sc_problems sc) else sc_problems sc),
      sc_total = rnd (sc_total sc + bad), sc_trigger = mx\<rparr>"

fun score_meters :: "watch_env \<Rightarrow> adjustlist \<Rightarrow> meter list \<Rightarrow> scores \<Rightarrow> (meter list \<times> scores) res" where
  "score_meters env adjs [] sc = Ok ([], sc)"
| "score_meters env adjs (m # ms) sc =
     rbind (meter_badness env adjs m (sc_trigger sc)) (\<lambda>(bad, mx).
     rbind (score_meters env adjs ms (score_add sc bad mx)) (\<lambda>(ms, sc).
       Ok (m\<lparr>mt_badness := bad\<rparr> # ms, sc)))"

text \<open>
  \<^verbatim>\<open>m\<close> was read before the status meter was made: a host that had no meters then is not
  scored at all.
\<close>

definition watch_score :: "watch_env \<Rightarrow> bool \<Rightarrow> host \<Rightarrow> (meter list \<times> scores) res" where
  "watch_score env had_meters h =
     (if had_meters then score_meters env (h_adjust h) (h_meters h) scores0 else Ok (h_meters h, scores0))"

subsection \<open>From badness to status\<close>

fun gate :: "watchtrigger \<Rightarrow> rat \<Rightarrow> rat \<Rightarrow> rat" where
  "gate WATCH_NONE hb tot = 0"
| "gate WATCH_WARN hb tot = (if hb > 50 then 0 else tot)"
| "gate WATCH_ALERT hb tot = (if hb > 90 then 0 else tot)"
| "gate WATCH_CRIT hb tot = (if hb > 150 then 0 else tot)"

definition cooled :: "rat \<Rightarrow> rat" where
  "cooled b = (if b > 100 then rnd (b / 2) else if b > 50 then rnd (b * (3 / 4))
     else if b > 25 then rnd (b - 25 / 2) else 0)"

definition status_text :: "rat \<Rightarrow> string" where
  "status_text b = (if b < 30 then ''OK'' else if b < 80 then ''WARN'' else if b < 120 then ''ALERT'' else ''CRIT'')"

text \<open>The badness after a round with the given scores.\<close>

definition next_badness :: "scores \<Rightarrow> rat \<Rightarrow> rat" where
  "next_badness sc hb =
     (let tot = gate (sc_trigger sc) hb (sc_total sc); b = rnd (hb + tot) in
      if sc_problems sc = 0 then cooled b else if tot = 0 then rnd (b * rnd (9 / 10)) else b)"

fun fill_problems :: "meter list \<Rightarrow> nat \<Rightarrow> nat \<Rightarrow> host \<Rightarrow> host res" where
  "fill_problems [] i kp h = Ok h"
| "fill_problems (m # ms) i kp h =
     (if i < 16 then
        if mt_badness m > 0 then
          rbind (host_on h kp (\<lambda>pm. meter_set_str (h_lastmodified h) pm i (id2str (mt_id m)))) (fill_problems ms (Suc i) kp)
        else fill_problems ms i kp h
      else Ok h)"

definition put_problems :: "nat \<Rightarrow> nat \<Rightarrow> host \<Rightarrow> host res" where
  "put_problems n kp h =
     (if n = 0 then host_on h kp (meter_set_empty_array (h_lastmodified h))
      else rbind (host_on h kp (\<lambda>m. meter_setcount (h_lastmodified h) m n)) (\<lambda>h. fill_problems (h_meters h) 0 kp h))"

definition change_events :: "host \<Rightarrow> string \<Rightarrow> string \<Rightarrow> event list" where
  "change_events h ostatus nstatus =
     (if nstatus \<noteq> ostatus then
        [DbLog (h_uuid h) (''Status change '' @ ostatus @ '' -> '' @ nstatus), Notified (h_badness h \<ge> 80) nstatus (h_uuid h)]
      else [])"

definition watch_live :: "watch_env \<Rightarrow> bool \<Rightarrow> host \<Rightarrow> nat \<Rightarrow> string \<Rightarrow> (host \<times> event list) res" where
  "watch_live env had_meters h ks ostatus =
     rbind (watch_score env had_meters h) (\<lambda>(ms, sc).
       let (h, kp) = host_get_meter (h\<lparr>h_meters := ms, h_badness := next_badness sc (h_badness h)\<rparr>) mid_problems in
       rbind (put_problems (sc_problems sc) kp h) (\<lambda>h.
       let (h, kb) = host_get_meter h mid_badness in
       rbind (put_frac h kb (Fin (h_badness h))) (\<lambda>h.
       let nstatus = status_text (h_badness h) in
       rbind (host_on h ks (\<lambda>m. meter_set_str (h_lastmodified h) m 0 nstatus)) (\<lambda>h'.
         Ok (h', change_events h ostatus nstatus)))))"

definition watch_stale :: "watch_env \<Rightarrow> host \<Rightarrow> nat \<Rightarrow> string \<Rightarrow> (host \<times> event list) res" where
  "watch_stale env h ks ostatus =
     rbind (host_on h ks (\<lambda>m. meter_set_str (h_lastmodified h) m 0 ''STALE'')) (\<lambda>h'.
       Ok (h', if ostatus \<noteq> ''STALE'' then [DbLog (h_uuid h) ''Host went STALE'', Notified True ''STALE'' (h_uuid h)] else []))"

definition is_stale :: "watch_env \<Rightarrow> host \<Rightarrow> bool" where
  "is_stale env h \<longleftrightarrow> we_now env - h_lastmodified h > 80"

definition watch_status :: "watch_env \<Rightarrow> host \<Rightarrow> (host \<times> event list) res" where
  "watch_status env h =
     rbind (watch_prepare env h) (\<lambda>(h', ks, ostatus).
       if is_stale env h then watch_stale env h' ks ostatus
       else watch_live env (h_meters h \<noteq> []) h' ks ostatus)"

subsection \<open>Graphs and the whole round\<close>

definition graph_value :: "host \<Rightarrow> graphtarget \<Rightarrow> dbl res" where
  "graph_value h tgt =
     (case host_find_meter_name h (gt_id tgt) of
        None \<Rightarrow> Ok (Fin 0)
      | Some k \<Rightarrow>
          let m = h_meters h ! k in
          if mt_count m < SZ_EMPTY_VAL then
            if meter_type m = MTYPE_INT then rbind (load_u64 (mt_d m) 0) (\<lambda>v. Ok (Fin (rnd (of_nat (unat v)))))
            else if meter_type m = MTYPE_FRAC then load_frac (mt_d m) 0
            else Ok (Fin 0)
          else Ok (Fin 0))"

function graph_loop :: "watch_env \<Rightarrow> host \<Rightarrow> graphlist \<times> nat option \<Rightarrow> (graphlist \<times> event list) res" where
  "graph_loop env h (gl, None) = Ok (gl, [])"
| "graph_loop env h (gl, Some k) =
     (let tgt = gl_targets gl ! k in
      rbind (graph_value h tgt) (\<lambda>v.
      rbind (graph_loop env h (graphlist_next gl k)) (\<lambda>(gl, evs).
        Ok (gl, (if we_db_opens env then [DbGraph (h_uuid h) (gt_graph tgt) (gt_datum tgt) v] else []) @ evs))))"
  by pat_completeness auto

termination graph_loop
  by (relation "measure (\<lambda>(env, h, gl, k). case k of None \<Rightarrow> 0 | Some k \<Rightarrow> Suc (length (gl_targets gl) - k))")
    (auto simp: graphlist_next_def)

definition watchthread_handle_graph :: "watch_env \<Rightarrow> host \<Rightarrow> graphlist \<Rightarrow> (graphlist \<times> event list) res" where
  "watchthread_handle_graph env h gl = graph_loop env h (graphlist_begin gl)"

definition handle_graphs :: "watch_env \<Rightarrow> host \<Rightarrow> graphlist option \<Rightarrow> (graphlist option \<times> event list) res" where
  "handle_graphs env h gl =
     (case gl of None \<Rightarrow> Ok (None, [])
      | Some gl \<Rightarrow> rbind (watchthread_handle_graph env h gl) (\<lambda>(gl, evs). Ok (Some gl, evs)))"

text \<open>
  The round of one host: a stale host that the database no longer knows is deleted, and the
  function returns before the rest.
\<close>

definition watchthread_handle_host ::
  "(dbl \<Rightarrow> u64) \<Rightarrow> watch_env \<Rightarrow> host \<Rightarrow> graphlist option \<Rightarrow> summaryinfo \<Rightarrow>
     (host option \<times> graphlist option \<times> summaryinfo \<times> event list) res" where
  "watchthread_handle_host ub env h0 graphs summ =
     rbind (watch_status env h0) (\<lambda>(h, evs).
       if is_stale env h0 \<and> we_db_opens env \<and> \<not> we_host_exists env (h_uuid h)
       then Ok (None, graphs, summ, evs @ [HostDeleted (h_uuid h)])
       else
         rbind (handle_graphs env h (h_graphlist h)) (\<lambda>(hg, ev1).
         rbind (handle_graphs env h graphs) (\<lambda>(graphs, ev2).
         rbind (feed ub summ (map (\<lambda>m. (mt_id m, mt_d m)) (h_meters h))) (\<lambda>summ.
           Ok (Some (h\<lparr>h_graphlist := hg\<rparr>), graphs, summ,
             evs @ (if we_db_opens env then [DbSave (we_now env) h] else []) @ ev1 @ ev2)))))"

text \<open>One pass of \<^verbatim>\<open>watchthread_run\<close> over the hosts of a tenant, and the tally of its summaries.\<close>

fun watch_hosts ::
  "(dbl \<Rightarrow> u64) \<Rightarrow> watch_env \<Rightarrow> host list \<Rightarrow> graphlist option \<Rightarrow> summaryinfo \<Rightarrow>
     (host list \<times> graphlist option \<times> summaryinfo \<times> event list) res" where
  "watch_hosts ub env [] graphs summ = Ok ([], graphs, summ, [])"
| "watch_hosts ub env (h # hs) graphs summ =
     rbind (watchthread_handle_host ub env h graphs summ) (\<lambda>(ho, graphs, summ, ev1).
     rbind (watch_hosts ub env hs graphs summ) (\<lambda>(hs, graphs, summ, ev2).
       Ok ((case ho of None \<Rightarrow> hs | Some h \<Rightarrow> h # hs), graphs, summ, ev1 @ ev2)))"

definition watch_tenant ::
  "(dbl \<Rightarrow> u64) \<Rightarrow> watch_env \<Rightarrow> host list \<Rightarrow> graphlist option \<Rightarrow> summaryinfo \<Rightarrow>
     (host list \<times> graphlist option \<times> summaryinfo \<times> event list \<times> (string \<times> sumval) list) res" where
  "watch_tenant ub env hosts graphs summ =
     rbind (watch_hosts ub env hosts graphs (summaryinfo_start_round summ)) (\<lambda>(hosts, graphs, summ, evs).
     rbind (summaryinfo_tally_round summ) (\<lambda>tally. Ok (hosts, graphs, summ, evs, tally)))"

end
