(* ===== verification/WatcherProps.thy ===== *)
theory WatcherProps
  imports Watcher MeterAccess
begin

text \<open>
  The watch thread on well-formed hosts: totality of the scoring, what a round leaves of a
  host, and how its badness and status move from round to round.
\<close>

subsection \<open>Scoring is total\<close>

definition env_ok :: "watch_env \<Rightarrow> host \<Rightarrow> bool" where
  "env_ok env h \<longleftrightarrow> list_all watch_ok (we_tenant_watch env) \<and> list_all watch_ok (we_watch env) \<and>
     list_all adjust_ok (h_adjust h)"

lemma calculate_badness_total:
  assumes "meter_ok m" "watch_ok w" "\<And>a. adj = Some a \<Longrightarrow> adjust_ok a"
  shows "\<exists>r. calculate_badness m w adj mx = Ok r"
  unfolding calculate_badness_def Let_def by (rule exI, rule badness_loop_hits[OF assms])

lemma list_badness_total:
  assumes "meter_ok m" "list_all watch_ok ws" "\<And>a. adj = Some a \<Longrightarrow> adjust_ok a"
  shows "\<exists>r. list_badness m adj ws st = Ok r"
  using assms(2)
proof (induction ws arbitrary: st)
  case Nil
  show ?case unfolding list_badness.simps by (rule exI, rule refl)
next
  case (Cons w ws)
  obtain bad handled mx where st: "st = (bad, handled, mx)" by (cases st)
  obtain b mx' where "calculate_badness m w adj mx = Ok (b, mx')"
    using calculate_badness_total[OF assms(1) _ assms(3)] Cons.prems by (metis list.pred_inject(2) prod.collapse)
  moreover obtain r where "list_badness m adj ws (rnd (bad + b), True, mx') = Ok r"
    using Cons.IH[of "(rnd (bad + b), True, mx')"] Cons.prems by (metis list.pred_inject(2))
  moreover obtain r' where "list_badness m adj ws (bad, handled, mx) = Ok r'"
    using Cons.IH[of "(bad, handled, mx)"] Cons.prems by (metis list.pred_inject(2))
  ultimately show ?case by (cases r; cases r') (simp add: st)
qed

lemma meter_badness_total:
  assumes "meter_ok m" "env_ok env h"
  shows "\<exists>r. meter_badness env (h_adjust h) m mx = Ok r"
proof -
  define adj where "adj = map_option ((!) (h_adjust h)) (adjustlist_find (h_adjust h) (mt_id m))"
  have a: "adjust_ok a" if "adj = Some a" for a
    using that assms(2) adj.find_hit by (auto simp: adj_def env_ok_def list_all_length)
  have w: "list_all watch_ok (we_tenant_watch env)" "list_all watch_ok (we_watch env)" using assms(2) by (simp_all add: env_ok_def)
  obtain b hd mx' where "list_badness m adj (we_tenant_watch env) (0, False, mx) = Ok (b, hd, mx')"
    using list_badness_total[OF assms(1) w(1) a] by (metis prod_cases3)
  moreover obtain r where "list_badness m adj (we_watch env) (b, hd, mx') = Ok r"
    using list_badness_total[OF assms(1) w(2) a] by blast
  ultimately show ?thesis by (cases r; cases hd) (simp_all add: meter_badness_def adj_def[symmetric])
qed

text \<open>Scoring changes nothing but the badness of the meters.\<close>

definition rescored :: "meter \<Rightarrow> meter \<Rightarrow> bool" where
  "rescored m m' \<longleftrightarrow> (\<exists>b. m' = m\<lparr>mt_badness := b\<rparr>)"

lemma rescored_refl: "rescored m m"
  unfolding rescored_def by (intro exI[of _ "mt_badness m"]) (cases m, simp)

lemma score_meters_total:
  assumes "list_all meter_ok ms" "env_ok env h"
  shows "\<exists>ms' sc'. score_meters env (h_adjust h) ms sc = Ok (ms', sc') \<and> list_all2 rescored ms ms'"
  using assms(1)
proof (induction ms arbitrary: sc)
  case (Cons m ms)
  obtain b mx where b: "meter_badness env (h_adjust h) m (sc_trigger sc) = Ok (b, mx)"
    using meter_badness_total[OF _ assms(2)] Cons.prems by (metis list.pred_inject(2) prod.collapse)
  obtain ms' sc' where "score_meters env (h_adjust h) ms (score_add sc b mx) = Ok (ms', sc')" "list_all2 rescored ms ms'"
    using Cons.IH[of "score_add sc b mx"] Cons.prems by auto
  moreover have "rescored m (m\<lparr>mt_badness := b\<rparr>)" by (auto simp: rescored_def)
  ultimately show ?case using b by auto
qed simp

lemma watch_score_total:
  assumes "host_ok h" "env_ok env h"
  shows "\<exists>ms' sc'. watch_score env b h = Ok (ms', sc') \<and> list_all2 rescored (h_meters h) ms'"
  using score_meters_total[OF _ assms(2)] assms(1)
  by (auto simp: watch_score_def host_ok_def intro: list_all2_refl rescored_refl)

text \<open>With no problem the total is 0.\<close>

lemma score_problems_mono:
  "score_meters env adjs ms sc = Ok (ms', sc') \<Longrightarrow> sc_problems sc \<le> sc_problems sc' \<and>
     (sc_problems sc' = sc_problems sc \<longrightarrow> sc_total sc = 0 \<longrightarrow> sc_total sc' = 0)"
proof (induction ms arbitrary: sc ms')
  case (Cons m ms)
  then obtain b mx ms1 where "score_meters env adjs ms (score_add sc b mx) = Ok (ms1, sc')"
    by (auto simp: rbind_Ok_iff)
  from Cons.IH[OF this] show ?case by (auto simp: score_add_def split: if_splits)
qed simp

lemma quiet_total: "watch_score env b h = Ok (ms, sc) \<Longrightarrow> sc_problems sc = 0 \<Longrightarrow> sc_total sc = 0"
  using score_problems_mono by (fastforce simp: watch_score_def scores0_def split: if_splits)

subsection \<open>Frames\<close>

text \<open>
  \<open>touched\<close>: one meter replaced by one with the same id. \<open>core\<close>: the fields of a host that
  only a verdict changes. \<open>keeps\<close>: one meter and the core unchanged.
\<close>

definition touched :: "nat \<Rightarrow> host \<Rightarrow> host \<Rightarrow> bool" where
  "touched k h h' \<longleftrightarrow> (\<exists>m. h' = host_set_meter h k m \<and> mt_id m = mt_id (h_meters h ! k))"

definition core :: "host \<Rightarrow> uuid \<times> time_t \<times> rat \<times> adjustlist" where
  "core h = (h_uuid h, h_lastmodified h, h_badness h, h_adjust h)"

definition keeps :: "nat \<Rightarrow> host \<Rightarrow> host \<Rightarrow> bool" where
  "keeps k h h' \<longleftrightarrow> k < length (h_meters h') \<and> h_meters h' ! k = h_meters h ! k \<and> core h' = core h"

lemma touched_refl: "touched k h h"
  unfolding touched_def by (intro exI[of _ "h_meters h ! k"]) (simp add: host_set_meter_def)

lemma touched_trans: "touched k h h' \<Longrightarrow> touched k h' h'' \<Longrightarrow> k < length (h_meters h) \<Longrightarrow> touched k h h''"
  by (auto simp: touched_def host_set_meter_def)

lemma touched_core: "touched k h h' \<Longrightarrow> core h' = core h"
  by (auto simp: touched_def core_def host_set_meter_def)

lemma touched_length: "touched k h h' \<Longrightarrow> length (h_meters h') = length (h_meters h)"
  by (auto simp: touched_def host_set_meter_def)

lemma touched_id: "touched k h h' \<Longrightarrow> k < length (h_meters h) \<Longrightarrow> mt_id (h_meters h' ! j) = mt_id (h_meters h ! j)"
  by (cases "j = k") (auto simp: touched_def host_set_meter_def)

lemma touched_keeps: "touched j h h' \<Longrightarrow> j \<noteq> k \<Longrightarrow> k < length (h_meters h) \<Longrightarrow> keeps k h h'"
  using touched_core[of j h h'] by (auto simp: touched_def keeps_def host_set_meter_def)

lemma keeps_trans: "keeps k h h' \<Longrightarrow> keeps k h' h'' \<Longrightarrow> keeps k h h''"
  by (simp add: keeps_def)

lemma get_meter_keeps: "host_get_meter h ident = (h', j) \<Longrightarrow> k < length (h_meters h) \<Longrightarrow> keeps k h h'"
  by (erule host_get_meter_cases) (auto simp: keeps_def core_def nth_append)

lemma get_meter_core: "host_get_meter h ident = (h', j) \<Longrightarrow> core h' = core h"
  by (erule host_get_meter_cases) (auto simp: core_def)

subsection \<open>Writing meters\<close>

lemma host_on_ok:
  assumes "host_ok h" "k < length (h_meters h)"
    "\<exists>m'. f (h_meters h ! k) = Ok m' \<and> meter_ok m' \<and> mt_id m' = mt_id (h_meters h ! k) \<and> P m'"
  shows "\<exists>h'. host_on h k f = Ok h' \<and> host_ok h' \<and> touched k h h' \<and> P (h_meters h' ! k)"
proof -
  obtain m' where m': "f (h_meters h ! k) = Ok m'" "meter_ok m'" "mt_id m' = mt_id (h_meters h ! k)" "P m'"
    using assms(3) by blast
  have "host_ok (host_set_meter h k m')"
    using host_ok_nth[OF assms(1,2)] m'(2,3) by (intro host_set_meter_ok[OF assms(1)]) simp_all
  moreover have "h_meters (host_set_meter h k m') ! k = m'" using assms(2) by (simp add: host_set_meter_def)
  moreover have "touched k h (host_set_meter h k m')" using m'(3) by (auto simp: touched_def)
  ultimately show ?thesis using m'(1,4) by (simp add: host_on_def)
qed

lemma setcount_good:
  assumes "n \<le> SZ_EMPTY_ARRAY"
  shows "\<exists>m'. meter_setcount lm m n = Ok m' \<and> meter_ok m' \<and> mt_id m' = mt_id m \<and>
    (n = 0 \<longrightarrow> meter_type m = MTYPE_STR \<longrightarrow> mt_count m' = 0)"
proof -
  obtain m' where m': "meter_setcount lm m n = Ok m'" using meter_setcount_total[OF assms] by blast
  have "n = 0 \<longrightarrow> meter_type m = MTYPE_STR \<longrightarrow> mt_count m' = 0"
    using m' by (auto simp: meter_setcount_def Let_def elems_def sz_defs meter_type_def)
  then show ?thesis using m' meter_setcount_ok[OF m'] meter_setcount_frame[OF m'] by simp
qed

lemma host_setcount_ok:
  assumes "host_ok h" "k < length (h_meters h)" "n \<le> SZ_EMPTY_ARRAY"
  shows "\<exists>h'. host_on h k (\<lambda>m. meter_setcount lm m n) = Ok h' \<and> host_ok h' \<and> touched k h h' \<and>
    (n = 0 \<longrightarrow> meter_type (h_meters h ! k) = MTYPE_STR \<longrightarrow> mt_count (h_meters h' ! k) = 0)"
  by (rule host_on_ok[OF assms(1,2)]) (rule setcount_good[OF assms(3)])

lemma host_setfrac_ok:
  assumes "host_ok h" "k < length (h_meters h)"
  shows "\<exists>h'. host_on h k (\<lambda>m. meter_set_frac lm m i v) = Ok h' \<and> host_ok h' \<and> touched k h h' \<and> True"
  using host_ok_nth[OF assms] meter_set_ok(2)[of "h_meters h ! k" lm i v] by (intro host_on_ok[OF assms]) blast

lemma host_setstr_ok:
  assumes "host_ok h" "k < length (h_meters h)"
  shows "\<exists>h'. host_on h k (\<lambda>m. meter_set_str lm m i v) = Ok h' \<and> host_ok h' \<and> touched k h h' \<and>
    (meter_type (h_meters h ! k) = MTYPE_STR \<longrightarrow> mt_count (h_meters h ! k) = 0 \<longrightarrow> i = 0 \<longrightarrow>
       meter_get_str (h_meters h' ! k) 0 = Ok (c_truncate 127 v))"
proof (rule host_on_ok[OF assms, where P = "\<lambda>m'. meter_type (h_meters h ! k) = MTYPE_STR \<longrightarrow> mt_count (h_meters h ! k) = 0 \<longrightarrow>
    i = 0 \<longrightarrow> meter_get_str m' 0 = Ok (c_truncate 127 v)"])
  let ?m = "h_meters h ! k"
  have ok: "meter_ok ?m" using host_ok_nth[OF assms] by simp
  obtain m' where m': "meter_set_str lm ?m i v = Ok m'" "meter_ok m'" "mt_id m' = mt_id ?m"
    using meter_set_ok(3)[OF ok] by blast
  have q: "meter_get_str m' 0 = Ok (c_truncate 127 v)" if "meter_type ?m = MTYPE_STR" "mt_count ?m = 0" "i = 0"
  proof -
    note t = that
    have "0 < SZ_EMPTY_VAL" by (simp add: sz_defs)
    then obtain d where "meter_set_str lm ?m 0 v = Ok (?m\<lparr>mt_lastmodified := lm, mt_d := d\<rparr>)"
        "meter_get_str (?m\<lparr>mt_lastmodified := lm, mt_d := d\<rparr>) 0 = Ok (c_truncate 127 v)"
      using ms.set_get[OF ok t(1), of 0 lm v] t(2) elems_pos by metis
    then show ?thesis using m'(1) t(3) by simp
  qed
  then show "\<exists>m'. meter_set_str lm ?m i v = Ok m' \<and> meter_ok m' \<and> mt_id m' = mt_id ?m \<and>
      (meter_type ?m = MTYPE_STR \<longrightarrow> mt_count ?m = 0 \<longrightarrow> i = 0 \<longrightarrow> meter_get_str m' 0 = Ok (c_truncate 127 v))"
    by (intro exI[of _ m'] conjI impI m') (rule q)
qed

lemma put_frac_ok:
  assumes "host_ok h" "k < length (h_meters h)"
  shows "\<exists>h'. put_frac h k v = Ok h' \<and> host_ok h' \<and> touched k h h'"
proof -
  have z: "0 \<le> SZ_EMPTY_ARRAY" by simp
  obtain h1 where h1: "host_on h k (\<lambda>m. meter_setcount (h_lastmodified h) m 0) = Ok h1" "host_ok h1" "touched k h h1"
    using host_setcount_ok[OF assms z] by blast
  have k: "k < length (h_meters h1)" using assms(2) touched_length[OF h1(3)] by simp
  obtain h2 where "host_on h1 k (\<lambda>m. meter_set_frac (h_lastmodified h1) m 0 v) = Ok h2" "host_ok h2" "touched k h1 h2"
    using host_setfrac_ok[OF h1(2) k] by blast
  then show ?thesis using h1 touched_trans[OF h1(3) _ assms(2)] by (auto simp: put_frac_def)
qed

lemma fill_problems_ok:
  assumes "host_ok h" "k < length (h_meters h)"
  shows "\<exists>h'. fill_problems ms i k h = Ok h' \<and> host_ok h' \<and> touched k h h'"
  using assms
proof (induction ms i k h rule: fill_problems.induct)
  case (2 m ms i kp h)
  obtain h1 where h1: "host_on h kp (\<lambda>pm. meter_set_str (h_lastmodified h) pm i (id2str (mt_id m))) = Ok h1" "host_ok h1" "touched kp h h1"
    using host_setstr_ok[OF 2(3,4)] by blast
  have k: "kp < length (h_meters h1)" using 2(4) touched_length[OF h1(3)] by simp
  consider (full) "\<not> i < 16" | (hit) "i < 16" "mt_badness m > 0" | (miss) "i < 16" "\<not> mt_badness m > 0" by blast
  then show ?case
  proof cases
    case hit
    obtain h2 where "fill_problems ms (Suc i) kp h1 = Ok h2" "host_ok h2" "touched kp h1 h2"
      using 2(1)[OF hit h1(2) k] by blast
    then show ?thesis using h1(1) hit touched_trans[OF h1(3) _ 2(4)] by (intro exI[of _ h2]) simp
  next
    case miss
    then show ?thesis using 2(2)[OF miss 2(3,4)] by (simp only: fill_problems.simps if_True if_False)
  qed (use 2(3) touched_refl in simp)
qed (use touched_refl in simp)

lemma put_problems_ok:
  assumes "host_ok h" "k < length (h_meters h)" "n \<le> 31"
  shows "\<exists>h'. put_problems n k h = Ok h' \<and> host_ok h' \<and> touched k h h'"
proof -
  have s: "n \<le> SZ_EMPTY_ARRAY" "SZ_EMPTY_ARRAY \<le> SZ_EMPTY_ARRAY" using assms(3) by (simp_all add: sz_defs)
  obtain h0 where h0: "host_on h k (meter_set_empty_array (h_lastmodified h)) = Ok h0" "host_ok h0" "touched k h h0"
    unfolding meter_set_empty_array_def[abs_def]
    using host_setcount_ok[OF assms(1,2) s(2)] by blast
  obtain h1 where h1: "host_on h k (\<lambda>m. meter_setcount (h_lastmodified h) m n) = Ok h1" "host_ok h1" "touched k h h1"
    using host_setcount_ok[OF assms(1,2) s(1)] by blast
  have k: "k < length (h_meters h1)" using assms(2) touched_length[OF h1(3)] by simp
  obtain h2 where "fill_problems (h_meters h1) 0 k h1 = Ok h2" "host_ok h2" "touched k h1 h2"
    using fill_problems_ok[OF h1(2) k] by blast
  then show ?thesis using h0 h1 touched_trans[OF h1(3) _ assms(2)] by (auto simp: put_problems_def)
qed

lemma put_problems_crash: "n > 31 \<Longrightarrow> put_problems n k h = Fault AssertFail"
  by (simp add: put_problems_def host_on_def meter_setcount_def elems_def sz_defs)

subsection \<open>Before the watches\<close>

lemma watch_link_ok:
  assumes "host_ok h"
  shows "\<exists>h'. watch_link env h = Ok h' \<and> host_ok h' \<and> core h' = core h"
proof (cases "host_find_meter h mid_ip")
  case None
  then show ?thesis using assms by (simp add: watch_link_def)
next
  case (Some k)
  then have k: "k < length (h_meters h)" by (simp add: host_find_meter_def find_index_Some)
  obtain ip where ip: "meter_get_str (h_meters h ! k) 0 = Ok ip"
    using meter_get_total(3) host_ok_nth[OF assms k] by blast
  obtain h1 kr where g1: "host_get_meter h mid_rtt = (h1, kr)" by (cases "host_get_meter h mid_rtt")
  obtain h2 kl where g2: "host_get_meter h1 mid_loss = (h2, kl)" by (cases "host_get_meter h1 mid_loss")
  note o1 = host_get_meter_ok[OF assms g1]
  note o2 = host_get_meter_ok[OF o1(1) g2]
  have kr: "kr < length (h_meters h2)" using get_meter_keeps[OF g2 o1(2)] by (simp add: keeps_def)
  obtain h3 where h3: "put_frac h2 kr (we_rtt env ip) = Ok h3" "host_ok h3" "touched kr h2 h3"
    using put_frac_ok[OF o2(1) kr] by blast
  have kl: "kl < length (h_meters h3)" using touched_length[OF h3(3)] o2(2) by simp
  obtain h4 where h4: "put_frac h3 kl (we_loss env ip) = Ok h4" "host_ok h4" "touched kl h3 h4"
    using put_frac_ok[OF h3(2) kl] by blast
  have "core h4 = core h"
    using touched_core[OF h4(3)] touched_core[OF h3(3)] get_meter_core[OF g1] get_meter_core[OF g2] by simp
  then show ?thesis using Some ip g1 g2 h3 h4 assms by (simp add: watch_link_def)
qed

lemma watch_prepare_ok:
  assumes "host_ok h"
  shows "\<exists>h' ks ostatus. watch_prepare env h = Ok (h', ks, ostatus) \<and> host_ok h' \<and> core h' = core h \<and>
    ks < length (h_meters h') \<and> name_of (mt_id (h_meters h' ! ks)) = name_of mid_status \<and>
    (meter_type (h_meters h' ! ks) = MTYPE_STR \<longrightarrow> mt_count (h_meters h' ! ks) = 0)"
proof -
  obtain h1 where h1: "watch_link env h = Ok h1" "host_ok h1" "core h1 = core h" using watch_link_ok[OF assms] by blast
  obtain h2 ks where g: "host_get_meter h1 mid_status = (h2, ks)" by (cases "host_get_meter h1 mid_status")
  note o = host_get_meter_ok[OF h1(2) g]
  obtain os where os: "meter_get_str (h_meters h2 ! ks) 0 = Ok os" using meter_get_total(3) host_ok_nth[OF o(1,2)] by blast
  have z: "0 \<le> SZ_EMPTY_ARRAY" by simp
  obtain h3 where h3: "host_on h2 ks (\<lambda>m. meter_setcount (h_lastmodified h2) m 0) = Ok h3" "host_ok h3" "touched ks h2 h3"
      "meter_type (h_meters h2 ! ks) = MTYPE_STR \<longrightarrow> mt_count (h_meters h3 ! ks) = 0"
    using host_setcount_ok[OF o(1,2) z] by blast
  have "mt_id (h_meters h3 ! ks) = mt_id (h_meters h2 ! ks)" by (rule touched_id[OF h3(3) o(2)])
  then show ?thesis using h1 g os h3 o touched_core[OF h3(3)] get_meter_core[OF g] touched_length[OF h3(3)]
    by (simp add: watch_prepare_def meter_type_def)
qed

subsection \<open>A round\<close>

lemma meter_type_rescored: "rescored m m' \<Longrightarrow> meter_ok m' = meter_ok m \<and> mt_id m' = mt_id m \<and> mt_count m' = mt_count m"
proof -
  have t: "meter_type (m\<lparr>mt_badness := b\<rparr>) = meter_type m" for b by (simp add: meter_type_def)
  have "meter_ok (m\<lparr>mt_badness := b\<rparr>) = meter_ok m" for b
    by (simp add: meter_ok_def t del: insert_iff cong: mdata.case_cong)
  then show "rescored m m' \<Longrightarrow> meter_ok m' = meter_ok m \<and> mt_id m' = mt_id m \<and> mt_count m' = mt_count m"
    by (auto simp: rescored_def)
qed

lemma host_ok_rescored:
  assumes "host_ok h" "list_all2 rescored (h_meters h) ms"
  shows "host_ok (h\<lparr>h_meters := ms, h_badness := b\<rparr>)"
  using assms meter_type_rescored
  by (auto simp: host_ok_def list_all_length list_all2_conv_all_nth)

lemma mid_names: "name_of mid_problems \<noteq> name_of mid_status" "name_of mid_badness \<noteq> name_of mid_status"
  by code_simp+

lemma status_text_short: "c_truncate 127 (status_text b) = status_text b"
  by (rule c_truncate_id) (auto simp: status_text_def cstr_def)

lemma watch_live_ok:
  assumes "host_ok h" "watch_score env had h = Ok (ms, sc)" "list_all2 rescored (h_meters h) ms"
    "ks < length (h_meters h)" "name_of (mt_id (h_meters h ! ks)) = name_of mid_status" "sc_problems sc \<le> 31"
    "meter_type (h_meters h ! ks) = MTYPE_STR \<longrightarrow> mt_count (h_meters h ! ks) = 0"
  defines "b \<equiv> next_badness sc (h_badness h)"
  shows "\<exists>h'. watch_live env had h ks ostatus =
      Ok (h', change_events (h\<lparr>h_badness := b\<rparr>) ostatus (status_text b)) \<and>
    host_ok h' \<and> core h' = core (h\<lparr>h_badness := b\<rparr>) \<and>
    (meter_type (h_meters h ! ks) = MTYPE_STR \<longrightarrow> meter_get_str (h_meters h' ! ks) 0 = Ok (status_text b))"
proof -
  let ?h = "h\<lparr>h_meters := ms, h_badness := b\<rparr>"
  have len: "length ms = length (h_meters h)" using assms(3) by (simp add: list_all2_lengthD)
  have r: "rescored (h_meters h ! ks) (ms ! ks)" using assms(3,4) by (simp add: list_all2_nthD)
  obtain h1 kp where g1: "host_get_meter ?h mid_problems = (h1, kp)" by (cases "host_get_meter ?h mid_problems")
  note o1 = host_get_meter_ok[OF host_ok_rescored[OF assms(1,3)] g1]
  have k1: "keeps ks ?h h1" using get_meter_keeps[OF g1] assms(4) len by simp
  obtain h2 where h2: "put_problems (sc_problems sc) kp h1 = Ok h2" "host_ok h2" "touched kp h1 h2"
    using put_problems_ok[OF o1(1,2) assms(6)] by blast
  have "mt_id (h_meters h1 ! ks) = mt_id (h_meters h ! ks)" using k1 meter_type_rescored[OF r] by (simp add: keeps_def)
  then have "kp \<noteq> ks" using o1(3) mid_names(1) assms(5) by auto
  then have k2: "keeps ks h1 h2" using touched_keeps[OF h2(3)] k1 by (simp add: keeps_def)
  obtain h3 kb where g3: "host_get_meter h2 mid_badness = (h3, kb)" by (cases "host_get_meter h2 mid_badness")
  note o3 = host_get_meter_ok[OF h2(2) g3]
  have k3: "keeps ks h2 h3" using get_meter_keeps[OF g3, of ks] k2 by (simp add: keeps_def)
  obtain h4 where h4: "put_frac h3 kb (Fin (h_badness h3)) = Ok h4" "host_ok h4" "touched kb h3 h4"
    using put_frac_ok[OF o3(1,2)] by blast
  have i3: "h_meters h3 ! ks = ms ! ks" using k1 k2 k3 by (simp add: keeps_def)
  then have "kb \<noteq> ks" using o3(3) mid_names(2) assms(5) meter_type_rescored[OF r] by auto
  then have k4: "keeps ks h3 h4" using touched_keeps[OF h4(3)] k3 by (simp add: keeps_def)
  have k: "keeps ks ?h h4" using k1 k2 k3 k4 keeps_trans by blast
  have i4: "ks < length (h_meters h4)" "h_meters h4 ! ks = ms ! ks" "core h4 = core ?h" using k by (simp_all add: keeps_def)
  have b: "h_badness h3 = b" "h_badness h4 = b" using k1 k2 k3 k4 by (simp_all add: keeps_def core_def)
  obtain h5 where h5: "host_on h4 ks (\<lambda>m. meter_set_str (h_lastmodified h4) m 0 (status_text b)) = Ok h5" "host_ok h5" "touched ks h4 h5"
      "meter_type (h_meters h4 ! ks) = MTYPE_STR \<longrightarrow> mt_count (h_meters h4 ! ks) = 0 \<longrightarrow> 0 = (0::nat) \<longrightarrow>
         meter_get_str (h_meters h5 ! ks) 0 = Ok (c_truncate 127 (status_text b))"
    using host_setstr_ok[OF h4(2) i4(1)] by blast
  have "change_events h4 os n = change_events (h\<lparr>h_badness := b\<rparr>) os n" for os n
    using i4(3) by (simp add: change_events_def core_def)
  then have "watch_live env had h ks ostatus = Ok (h5, change_events (h\<lparr>h_badness := b\<rparr>) ostatus (status_text b))"
    using assms(2) g1 h2(1) g3 h4(1) h5(1) by (simp add: watch_live_def b_def[symmetric] b)
  moreover have "core h5 = core (h\<lparr>h_badness := b\<rparr>)" using touched_core[OF h5(3)] i4(3) by (simp add: core_def)
  moreover have "meter_type (h_meters h ! ks) = MTYPE_STR \<longrightarrow> meter_get_str (h_meters h5 ! ks) 0 = Ok (status_text b)"
    using h5(4) i4(2) meter_type_rescored[OF r] assms(7) by (simp add: meter_type_def status_text_short)
  ultimately show ?thesis using h5(2) by blast
qed

text \<open>The scores a round gives the meters of a host.\<close>

definition round_scores :: "watch_env \<Rightarrow> host \<Rightarrow> scores res" where
  "round_scores env h =
     rbind (watch_prepare env h) (\<lambda>(h', ks, ostatus).
     rbind (watch_score env (h_meters h \<noteq> []) h') (\<lambda>(ms, sc). Ok sc))"

lemma watch_status_round:
  assumes "host_ok h" "env_ok env h" "\<not> is_stale env h"
  shows "\<exists>sc h1 ks ostatus. round_scores env h = Ok sc \<and> watch_prepare env h = Ok (h1, ks, ostatus) \<and>
    (if sc_problems sc \<le> 31 then
       \<exists>h'. watch_status env h =
           Ok (h', change_events (h\<lparr>h_badness := next_badness sc (h_badness h)\<rparr>) ostatus (status_text (next_badness sc (h_badness h)))) \<and>
         host_ok h' \<and> core h' = core (h\<lparr>h_badness := next_badness sc (h_badness h)\<rparr>) \<and>
         (meter_type (h_meters h1 ! ks) = MTYPE_STR \<longrightarrow>
            meter_get_str (h_meters h' ! ks) 0 = Ok (status_text (next_badness sc (h_badness h))))
     else watch_status env h = Fault AssertFail)"
proof -
  obtain h1 ks os where p: "watch_prepare env h = Ok (h1, ks, os)" "host_ok h1" "core h1 = core h" "ks < length (h_meters h1)"
      "name_of (mt_id (h_meters h1 ! ks)) = name_of mid_status"
      "meter_type (h_meters h1 ! ks) = MTYPE_STR \<longrightarrow> mt_count (h_meters h1 ! ks) = 0"
    using watch_prepare_ok[OF assms(1)] by blast
  have hb: "h_badness h1 = h_badness h" "h_uuid h1 = h_uuid h" "h_adjust h1 = h_adjust h" using p(3) by (simp_all add: core_def)
  have e: "env_ok env h1" using assms(2) hb(3) by (simp add: env_ok_def)
  obtain ms sc where s: "watch_score env (h_meters h \<noteq> []) h1 = Ok (ms, sc)" "list_all2 rescored (h_meters h1) ms"
    using watch_score_total[OF p(2) e] by blast
  have r: "round_scores env h = Ok sc" using p(1) s(1) by (simp add: round_scores_def)
  have c: "change_events (h1\<lparr>h_badness := b\<rparr>) os n = change_events (h\<lparr>h_badness := b\<rparr>) os n" for b n
    by (simp add: change_events_def hb)
  show ?thesis
  proof (cases "sc_problems sc \<le> 31")
    case True
    obtain h' where "watch_live env (h_meters h \<noteq> []) h1 ks os =
          Ok (h', change_events (h1\<lparr>h_badness := next_badness sc (h_badness h1)\<rparr>) os (status_text (next_badness sc (h_badness h1))))"
        "host_ok h'" "core h' = core (h1\<lparr>h_badness := next_badness sc (h_badness h1)\<rparr>)"
        "meter_type (h_meters h1 ! ks) = MTYPE_STR \<longrightarrow>
           meter_get_str (h_meters h' ! ks) 0 = Ok (status_text (next_badness sc (h_badness h1)))"
      using watch_live_ok[OF p(2) s p(4,5) True p(6)] by blast
    then show ?thesis using True r p(1,3) assms(3) unfolding hb(1) c
      by (intro exI[of _ sc] exI[of _ h1] exI[of _ ks] exI[of _ os]) (simp add: watch_status_def core_def)
  next
    case False
    have "watch_live env (h_meters h \<noteq> []) h1 ks os = Fault AssertFail"
      using False s(1) put_problems_crash by (simp add: watch_live_def split: prod.splits)
    then show ?thesis using False r p(1) assms(3)
      by (intro exI[of _ sc] exI[of _ h1] exI[of _ ks] exI[of _ os]) (simp add: watch_status_def)
  qed
qed

subsection \<open>Cooling down\<close>

fun level :: "nat \<Rightarrow> int" where
  "level 0 = 0"
| "level (Suc 0) = 25"
| "level (Suc (Suc 0)) = 37"
| "level (Suc (Suc (Suc 0))) = 49"
| "level (Suc (Suc (Suc (Suc 0)))) = 65"
| "level (Suc (Suc (Suc (Suc (Suc n))))) = 86 * 2 ^ n"

lemma rnd_le_int: "x \<le> of_int n \<Longrightarrow> \<bar>n\<bar> \<le> 2 ^ 53 \<Longrightarrow> rnd x \<le> of_int n"
  using rnd_mono[of x "of_int n"] by (simp add: rnd_int)

lemma int_le_rnd: "of_int n \<le> x \<Longrightarrow> \<bar>n\<bar> \<le> 2 ^ 53 \<Longrightarrow> of_int n \<le> rnd x"
  using rnd_mono[of "of_int n" x] by (simp add: rnd_int)

lemma cooled_nonneg: "0 \<le> cooled b"
  by (auto simp: cooled_def intro!: rnd_nonneg)

lemma cooled_le:
  assumes "b > 100 \<Longrightarrow> b / 2 \<le> of_int m" "50 < b \<Longrightarrow> b \<le> 100 \<Longrightarrow> b * (3 / 4) \<le> of_int m"
    "25 < b \<Longrightarrow> b \<le> 50 \<Longrightarrow> b - 25 / 2 \<le> of_int m" "0 \<le> m" "m \<le> 2 ^ 53"
  shows "cooled b \<le> of_int m"
  using assms(1-3) rnd_le_int[of _ m] assms(4,5) by (simp add: cooled_def not_less)

lemma cooled_level:
  assumes "b \<le> of_int (level (Suc j))" "j \<le> 50"
  shows "cooled b \<le> of_int (level j)"
proof (cases j rule: level.cases)
  case (6 n)
  have "(1 :: rat) \<le> 2 ^ n" by simp
  then have c: "75 \<le> (86 :: rat) * 2 ^ n" by linarith
  have "(86 :: int) * 2 ^ n \<le> 86 * 2 ^ 45" using assms(2) 6 by (intro mult_left_mono power_increasing) simp_all
  then have "(86 :: int) * 2 ^ n \<le> 2 ^ 53" by simp
  then show ?thesis using assms(1) 6 c by (intro cooled_le) simp_all
qed (rule cooled_le; use assms(1) in simp)+

lemma next_badness_quiet: "sc_problems sc = 0 \<Longrightarrow> sc_total sc = 0 \<Longrightarrow> next_badness sc b = cooled (rnd b)"
  by (cases "sc_trigger sc") (simp_all add: next_badness_def)

lemma level_bound: "j \<le> 50 \<Longrightarrow> 0 \<le> level j \<and> level j \<le> 2 ^ 53"
proof (cases j rule: level.cases)
  case (6 n)
  assume "j \<le> 50"
  then have "(86 :: int) * 2 ^ n \<le> 86 * 2 ^ 45" using 6 by (intro mult_left_mono power_increasing) simp_all
  then show ?thesis using 6 by simp
qed simp_all

lemma level_mono: "i \<le> j \<Longrightarrow> level i \<le> level j"
proof (rule lift_Suc_mono_le[of level])
  show "level n \<le> level (Suc n)" for n
    by (cases n rule: level.cases) simp_all
qed

subsection \<open>Histories of a host\<close>

text \<open>
  What happens to a host over time: rounds of the watch thread, between them updates that
  leave its badness alone, as those of the packet decoder do. \<open>qt\<close> restricts the rounds to
  those without a problem, \<open>n\<close> counts them, \<open>B\<close> bounds the badness one round may add.
\<close>

inductive history :: "bool \<Rightarrow> rat \<Rightarrow> nat \<Rightarrow> host \<Rightarrow> host \<Rightarrow> bool" where
  start: "history qt B 0 h h"
| update: "history qt B n h h' \<Longrightarrow> host_ok h'' \<Longrightarrow> h_badness h'' = h_badness h' \<Longrightarrow> history qt B n h h''"
| round: "history qt B n h h' \<Longrightarrow> env_ok env h' \<Longrightarrow> \<not> is_stale env h' \<Longrightarrow> round_scores env h' = Ok sc \<Longrightarrow>
    0 \<le> sc_total sc \<Longrightarrow> sc_total sc \<le> B \<Longrightarrow> qt \<longrightarrow> sc_problems sc = 0 \<Longrightarrow>
    watch_status env h' = Ok (h'', ev) \<Longrightarrow> history qt B (Suc n) h h''"

inductive_simps history_simps: "history qt B n h h'"

lemma history_ok: "history qt B n h h' \<Longrightarrow> host_ok h \<Longrightarrow> host_ok h'"
proof (induction rule: history.induct)
  case (round qt B n h h' env sc h'' ev)
  then show ?case using watch_status_round[of h' env] by (auto split: if_splits)
qed simp_all

text \<open>Every round of a history that runs at all sets the badness to \<open>next_badness\<close>.\<close>

lemma round_badness:
  assumes "host_ok h" "env_ok env h" "\<not> is_stale env h" "round_scores env h = Ok sc" "watch_status env h = Ok (h', ev)"
  shows "h_badness h' = next_badness sc (h_badness h)"
  using watch_status_round[OF assms(1-3)] assms(4,5) by (auto simp: core_def split: if_splits)

lemma round_quiet: "round_scores env h = Ok sc \<Longrightarrow> sc_problems sc = 0 \<Longrightarrow> sc_total sc = 0"
  using quiet_total by (fastforce simp: round_scores_def rbind_Ok_iff)

lemma quiet_history:
  assumes "history qt B n h h'" "qt" "host_ok h" "h_badness h \<le> of_int (level k)" "k \<le> 50"
  shows "h_badness h' \<le> of_int (level (k - n)) \<and> (n > 0 \<longrightarrow> 0 \<le> h_badness h')"
  using assms
proof (induction rule: history.induct)
  case (round qt B n h h' env sc h'' ev)
  have ok: "host_ok h'" using history_ok round.hyps(1) round.prems(2) by blast
  have b: "h_badness h'' = cooled (rnd (h_badness h'))"
    using round_badness[OF ok round.hyps(2-4) round.hyps(8)] round_quiet[OF round.hyps(4)] round.hyps(7) round.prems(1) next_badness_quiet
    by simp
  have le: "h_badness h' \<le> of_int (level (k - n))" using round.IH round.prems by blast
  have "level (k - n) \<le> level (Suc (k - Suc n))" by (rule level_mono) simp
  then have "h_badness h' \<le> of_int (level (Suc (k - Suc n)))" using le by (meson of_int_le_iff order_trans)
  moreover have "Suc (k - Suc n) \<le> 50 \<or> k = 50 \<and> n = 0" using round.prems(4) by linarith
  ultimately have "cooled (rnd (h_badness h')) \<le> of_int (level (k - Suc n))"
    using round.prems(4) level_bound[of "Suc (k - Suc n)"] level_bound[of "k - n"] le
    by (intro cooled_level rnd_le_int) auto
  then show ?case using b cooled_nonneg by simp
qed simp_all

text \<open>
  C12: One pass of the watch thread over a well-formed host with fresh data never faults unless
  more than 31 of its meters are problems; it leaves the host well-formed, sets its badness by the rules of
  \<open>next_badness\<close>, writes the status the badness stands for into the status meter, and logs and
  notifies exactly when that differs from the status read before. With 32 problems
  \<^verbatim>\<open>meter_setcount\<close> fails its assertion and the collector dies.
\<close>

theorem watch_round:
  assumes "host_ok h" "env_ok env h" "\<not> is_stale env h"
  shows "\<exists>sc h1 ks ostatus. round_scores env h = Ok sc \<and> watch_prepare env h = Ok (h1, ks, ostatus) \<and>
    (if sc_problems sc \<le> 31 then
       \<exists>h'. watch_status env h =
           Ok (h', change_events (h\<lparr>h_badness := next_badness sc (h_badness h)\<rparr>) ostatus (status_text (next_badness sc (h_badness h)))) \<and>
         host_ok h' \<and> core h' = core (h\<lparr>h_badness := next_badness sc (h_badness h)\<rparr>) \<and>
         (meter_type (h_meters h1 ! ks) = MTYPE_STR \<longrightarrow>
            meter_get_str (h_meters h' ! ks) 0 = Ok (status_text (next_badness sc (h_badness h))))
     else watch_status env h = Fault AssertFail)"
  using watch_status_round[OF assms] .

text \<open>
  C13: Whatever watches are configured, as long as no round adds more than B, the badness of a
  host that starts at or below 150 + B stays between 0 and 150 + B for ever.
\<close>

theorem badness_bounded:
  assumes "history qt (of_int B) n h h'" "host_ok h" "0 \<le> h_badness h" "h_badness h \<le> of_int (150 + B)" "0 \<le> B" "B \<le> 2 ^ 50"
  shows "0 \<le> h_badness h' \<and> h_badness h' \<le> of_int (150 + B)"
  using assms
proof (induction qt "of_int B :: rat" n h h' rule: history.induct)
  case (round qt n h h' env sc h'' ev)
  have ok: "host_ok h'" using history_ok round.hyps(1) round.prems(1) by blast
  have b: "0 \<le> h_badness h'" "h_badness h' \<le> of_int (150 + B)" using round by blast+
  define g where "g = gate (sc_trigger sc) (h_badness h') (sc_total sc)"
  have g: "0 \<le> g" "h_badness h' + g \<le> of_int (150 + B)"
    using b round.hyps(6,7) round.prems(4) by (cases "sc_trigger sc"; auto simp: g_def)+
  define c where "c = rnd (h_badness h' + g)"
  have c: "0 \<le> c" "c \<le> of_int (150 + B)"
    unfolding c_def by (rule rnd_nonneg, use b g in simp, rule rnd_le_int, use g round.prems(4,5) in simp_all)
  have n: "rnd (9 / 10) \<le> 1" using rnd_le_int[of "9/10" 1] by simp
  have d: "0 \<le> rnd (9 / 10)" by (rule rnd_nonneg) simp
  have "c * rnd (9 / 10) \<le> of_int (150 + B)" using mult_left_mono[OF n c(1)] c by simp
  then have "rnd (c * rnd (9 / 10)) \<le> of_int (150 + B)" using round.prems(4,5) by (intro rnd_le_int) auto
  moreover have "cooled c \<le> of_int (150 + B)" using c round.prems(4,5) by (intro cooled_le) auto
  moreover have "0 \<le> rnd (c * rnd (9 / 10))" using c d by (intro rnd_nonneg) simp
  moreover have "h_badness h'' = (if sc_problems sc = 0 then cooled c else if g = 0 then rnd (c * rnd (9 / 10)) else c)"
    using round_badness[OF ok round.hyps(3-5) round.hyps(9)] by (simp add: next_badness_def g_def c_def Let_def)
  ultimately show ?case using c cooled_nonneg by simp
qed simp_all

text \<open>
  C14: A host without problems recovers: after k + 5 rounds without one, from a badness of at
  most 86 times 2^k, its badness is 0 and its status OK.
\<close>

theorem badness_cools:
  assumes "history True B n h h'" "host_ok h" "h_badness h \<le> 86 * 2 ^ k" "k + 5 \<le> n" "k \<le> 45"
  shows "h_badness h' = 0 \<and> status_text (h_badness h') = ''OK''"
proof -
  have "k + 5 = Suc (Suc (Suc (Suc (Suc k))))" by simp
  then have "level (k + 5) = 86 * 2 ^ k" by (simp only: level.simps)
  then have "h_badness h \<le> of_int (level (k + 5))" using assms(3) by simp
  from quiet_history[OF assms(1) TrueI assms(2) this] assms(4,5) have "h_badness h' = 0" by simp
  then show ?thesis by (simp add: status_text_def)
qed

text \<open>
  The gate does not keep a warning from raising a critical alert, which the comment of the
  code says it does: a round whose highest trigger is WARN takes a host from a badness of at
  most 50 to CRIT when it adds 120 or more, and the change is notified as a problem.
\<close>

theorem warning_raises_crit:
  assumes "host_ok h" "env_ok env h" "\<not> is_stale env h" "round_scores env h = Ok sc" "sc_trigger sc = WATCH_WARN"
    "1 \<le> sc_problems sc" "sc_problems sc \<le> 31" "120 \<le> sc_total sc" "0 \<le> h_badness h" "h_badness h \<le> 50"
    "watch_prepare env h = Ok (h1, ks, ostatus)" "ostatus \<noteq> ''CRIT''"
  shows "\<exists>h' ev. watch_status env h = Ok (h', ev) \<and> Notified True ''CRIT'' (h_uuid h) \<in> set ev"
proof -
  have "of_int 120 \<le> rnd (h_badness h + sc_total sc)" by (rule int_le_rnd) (use assms(8,9) in simp_all)
  then have "120 \<le> rnd (h_badness h + sc_total sc)" by simp
  moreover have "next_badness sc (h_badness h) = rnd (h_badness h + sc_total sc)"
    using assms(5,6,8,10) by (simp add: next_badness_def)
  ultimately show ?thesis using watch_status_round[OF assms(1-3)] assms(4,7,11,12)
    by (auto simp: change_events_def status_text_def)
qed

subsection \<open>Examples\<close>

definition demo_watched :: host where
  "demo_watched = (host_alloc \<lparr>msb = 1, lsb = 2\<rparr>)\<lparr>h_lastmodified := 5, h_mcount := 1,
     h_meters := [\<lparr>mt_id = 64, mt_count = 0, mt_badness = 0, mt_lastmodified = 0, mt_d = Block 8 (U64s [99])\<rparr>]\<rparr>"

definition demo_env :: "rat \<Rightarrow> watch_env" where
  "demo_env b = \<lparr>we_now = 10, we_rtt = (\<lambda>_. Fin 0), we_loss = (\<lambda>_. Fin 0), we_db_opens = True, we_host_exists = (\<lambda>_. True),
     we_watch = [\<lparr>mw_trigger = WATCH_WARN, mw_id = 64, mw_tp = WATCH_UINT_GT, mw_dat = WU64 90, mw_badness = b\<rparr>],
     we_tenant_watch = []\<rparr>"

lemma demo_hyps: "host_ok demo_watched" "env_ok (demo_env b) demo_watched" "\<not> is_stale (demo_env b) demo_watched"
  by (simp_all add: demo_watched_def demo_env_def host_ok_def host_alloc_def meter_ok_def meter_type_def full_id_def mask_defs
      sz_defs elems_def elem_size_def sizeof_defs env_ok_def watch_ok_def dat_fits_def adjustlist_init_def is_stale_def)

lemma demo_scores:
  "round_scores (demo_env 120) demo_watched = Ok \<lparr>sc_problems = 1, sc_total = 120, sc_trigger = WATCH_WARN\<rparr>"
  by code_simp

lemma demo_ostatus: "map_sum id (snd \<circ> snd) (watch_prepare (demo_env 120) demo_watched) = Ok ''UNSET''"
  by code_simp

text \<open>A quiet history of any length exists for any well-formed host.\<close>

definition no_watches :: "host \<Rightarrow> watch_env" where
  "no_watches h = \<lparr>we_now = h_lastmodified h, we_rtt = (\<lambda>_. Fin 0), we_loss = (\<lambda>_. Fin 0), we_db_opens = True,
     we_host_exists = (\<lambda>_. True), we_watch = [], we_tenant_watch = []\<rparr>"

lemma no_watch_scores:
  assumes "we_watch env = []" "we_tenant_watch env = []" "sc_problems sc = 0" "sc_total sc = 0"
  shows "score_meters env adjs ms sc = Ok (ms', sc') \<Longrightarrow> sc_problems sc' = 0 \<and> sc_total sc' = 0"
  using assms(3,4)
proof (induction ms arbitrary: sc ms')
  case (Cons m ms)
  then show ?case using assms(1,2) by (auto simp: meter_badness_def rbind_Ok_iff score_add_def)
qed simp

lemma quiet_round:
  assumes "host_ok h" "env_ok (no_watches h) h"
  shows "\<exists>sc h' ev. round_scores (no_watches h) h = Ok sc \<and> sc_problems sc = 0 \<and> sc_total sc = 0 \<and>
    watch_status (no_watches h) h = Ok (h', ev)"
proof -
  have st: "\<not> is_stale (no_watches h) h" by (simp add: is_stale_def no_watches_def)
  obtain sc where sc: "round_scores (no_watches h) h = Ok sc"
      "sc_problems sc \<le> 31 \<longrightarrow> (\<exists>h' ev. watch_status (no_watches h) h = Ok (h', ev))"
    using watch_status_round[OF assms st] by fastforce
  have "sc_problems sc = 0 \<and> sc_total sc = 0"
    using sc(1) no_watch_scores[of "no_watches h" scores0]
    by (auto simp: round_scores_def rbind_Ok_iff watch_score_def no_watches_def scores0_def split: if_splits)
  then show ?thesis using sc by auto
qed

lemma quiet_history_exists:
  assumes "host_ok h" "h_adjust h = []"
  shows "\<exists>h'. history True 0 n h h' \<and> host_ok h' \<and> h_adjust h' = []"
proof (induction n)
  case 0
  then show ?case using assms history.start by blast
next
  case (Suc n)
  then obtain h' where h': "history True 0 n h h'" "host_ok h'" "h_adjust h' = []" by blast
  have e: "env_ok (no_watches h') h'" "\<not> is_stale (no_watches h') h'"
    using h'(3) by (simp_all add: env_ok_def no_watches_def is_stale_def)
  obtain sc h'' ev where r: "round_scores (no_watches h') h' = Ok sc" "sc_problems sc = 0" "sc_total sc = 0"
      "watch_status (no_watches h') h' = Ok (h'', ev)"
    using quiet_round[OF h'(2) e(1)] by blast
  have "history True 0 (Suc n) h h''" using h'(1) e r by (intro history.round) auto
  moreover have "host_ok h'' \<and> core h'' = core (h'\<lparr>h_badness := next_badness sc (h_badness h')\<rparr>)"
    using watch_status_round[OF h'(2) e] r by auto
  ultimately show ?case using h'(3) by (auto simp: core_def)
qed

theorem watch_round_witness:
  "\<exists>sc h1 ks ostatus. round_scores (demo_env 120) demo_watched = Ok sc \<and>
     watch_prepare (demo_env 120) demo_watched = Ok (h1, ks, ostatus)"
  using watch_round[OF demo_hyps] by blast

theorem badness_bounded_witness:
  "\<exists>h'. history True (of_int 0) 3 (demo_watched\<lparr>h_badness := 150\<rparr>) h' \<and> h_badness h' \<le> 150"
proof -
  have "host_ok (demo_watched\<lparr>h_badness := 150\<rparr>)" "h_adjust (demo_watched\<lparr>h_badness := 150\<rparr>) = []"
    using demo_hyps(1) by (simp_all add: host_ok_def demo_watched_def host_alloc_def adjustlist_init_def)
  from quiet_history_exists[OF this, of 3] this(1) obtain h' where
    "history True (of_int 0) 3 (demo_watched\<lparr>h_badness := 150\<rparr>) h'" "host_ok (demo_watched\<lparr>h_badness := 150\<rparr>)" by auto
  from badness_bounded[OF this] this show ?thesis by auto
qed

theorem badness_cools_witness:
  "\<exists>h'. history True 0 6 (demo_watched\<lparr>h_badness := 150\<rparr>) h' \<and> h_badness h' = 0"
proof -
  have "host_ok (demo_watched\<lparr>h_badness := 150\<rparr>)" "h_adjust (demo_watched\<lparr>h_badness := 150\<rparr>) = []"
    using demo_hyps(1) by (simp_all add: host_ok_def demo_watched_def host_alloc_def adjustlist_init_def)
  from quiet_history_exists[OF this, of 6] this(1) obtain h' where
    "history True 0 6 (demo_watched\<lparr>h_badness := 150\<rparr>) h'" "host_ok (demo_watched\<lparr>h_badness := 150\<rparr>)" by auto
  from badness_cools[OF this, of 1] this show ?thesis by auto
qed

theorem warning_raises_crit_witness:
  "\<exists>h' ev. watch_status (demo_env 120) demo_watched = Ok (h', ev) \<and> Notified True ''CRIT'' (h_uuid demo_watched) \<in> set ev"
proof -
  obtain h1 ks where p: "watch_prepare (demo_env 120) demo_watched = Ok (h1, ks, ''UNSET'')"
    using demo_ostatus by (cases "watch_prepare (demo_env 120) demo_watched") auto
  show ?thesis
    by (rule warning_raises_crit[OF demo_hyps demo_scores _ _ _ _ _ _ p]) (simp_all add: demo_watched_def host_alloc_def)
qed

end
