(* ===== verification/Sessions.thy ===== *)
theory Sessions
  imports Crypt Registry
begin

text \<open>
  \<^verbatim>\<open>libopticon/auth.c\<close>: the session database of the collector, 256 buckets of linked lists.
  A bucket is a list in link order, a \<^verbatim>\<open>session *\<close> the pair of a bucket and an index, the
  host of a session an address (theory \<open>Tenant\<close> has the heap of hosts). What the JSON export
  writes for a session is the record \<open>saved\<close>.
\<close>

datatype sockaddr = Inet u32 | Inet6 u32 u32 u32 u32 | Unspec

record session =
  s_tenantid :: uuid
  s_hostid :: uuid
  s_addr :: u32
  s_sessid :: u32
  s_lastserial :: u32
  s_key :: aeskey
  s_lastcycle :: time_t
  s_remote :: sockaddr
  s_host :: nat
  s_expired :: bool

type_synonym sessiondb = "session list list"
type_synonym session_ref = "nat \<times> nat"

definition sessiondb_init :: sessiondb where
  "sessiondb_init = replicate 256 []"

definition session_bucket :: "u32 \<Rightarrow> u32 \<Rightarrow> nat" where
  "session_bucket addr sessid =
     (let sid = sessid XOR addr in
      unat (ucast (drop_bit 24 sid XOR drop_bit 16 (sid AND 0x00ff0000) XOR drop_bit 8 (sid AND 0x0000ff00) XOR
        (sid AND 0xff)) :: u8))"

text \<open>The first 8 bytes of the key are cleared; the rest is what \<^verbatim>\<open>malloc\<close> returned.\<close>

definition session_alloc :: "bytes \<Rightarrow> uuid \<Rightarrow> sockaddr \<Rightarrow> time_t \<Rightarrow> session" where
  "session_alloc junk u r now = \<lparr>s_tenantid = u, s_hostid = u, s_addr = 0, s_sessid = 0, s_lastserial = 0,
     s_key = replicate 8 0 @ junk, s_lastcycle = now, s_remote = r, s_host = 0, s_expired = False\<rparr>"

definition session_link :: "session \<Rightarrow> sessiondb \<Rightarrow> sessiondb" where
  "session_link s db = (let b = session_bucket (s_addr s) (s_sessid s) in db[b := s # db ! b])"

definition session_matches :: "u32 \<Rightarrow> u32 \<Rightarrow> session \<Rightarrow> bool" where
  "session_matches addr sessid s \<longleftrightarrow> s_addr s = addr \<and> s_sessid s = sessid \<and> \<not> s_expired s"

definition session_find :: "sessiondb \<Rightarrow> u32 \<Rightarrow> u32 \<Rightarrow> session_ref option" where
  "session_find db addr sessid =
     (let b = session_bucket addr sessid in
      map_option (Pair b) (find_index (session_matches addr sessid) (db ! b)))"

definition session_at :: "sessiondb \<Rightarrow> session_ref \<Rightarrow> session" where
  "session_at db r = db ! fst r ! snd r"

definition session_update :: "session_ref \<Rightarrow> (session \<Rightarrow> session) \<Rightarrow> sessiondb \<Rightarrow> sessiondb" where
  "session_update r f db = db[fst r := (db ! fst r)[snd r := f (session_at db r)]]"

text \<open>
  The \<^verbatim>\<open>host\<close> is the result of \<^verbatim>\<open>host_find\<close>. An existing session gets the new key and
  address; its tenant and host stay as they are.
\<close>

definition session_register ::
  "bytes \<Rightarrow> time_t \<Rightarrow> nat option \<Rightarrow> uuid \<Rightarrow> uuid \<Rightarrow> u32 \<Rightarrow> u32 \<Rightarrow> aeskey \<Rightarrow> sockaddr \<Rightarrow> sessiondb \<Rightarrow> sessiondb \<times> session_ref option" where
  "session_register junk now host tenantid hostid addrpart sess_id sess_key ss db =
     (case host of None \<Rightarrow> (db, None)
      | Some h \<Rightarrow>
          (case session_find db addrpart sess_id of
             Some r \<Rightarrow> (session_update r (\<lambda>s. s\<lparr>s_lastcycle := now, s_key := sess_key, s_remote := ss\<rparr>) db, Some r)
           | None \<Rightarrow>
               let s = (session_alloc junk tenantid ss now)\<lparr>s_tenantid := tenantid, s_hostid := hostid, s_host := h,
                     s_addr := addrpart, s_sessid := sess_id, s_key := sess_key, s_lastcycle := now, s_remote := ss\<rparr>
               in (session_link s db, Some (session_bucket addrpart sess_id, 0))))"

definition sessiondb_remove_tenant :: "uuid \<Rightarrow> sessiondb \<Rightarrow> sessiondb" where
  "sessiondb_remove_tenant tenantid db =
     map (map (\<lambda>s. if uuidcmp (s_tenantid s) tenantid then s\<lparr>s_expired := True\<rparr> else s)) db"

text \<open>
  The loop over a bucket: a session that has just been marked is looked at again, because the
  \<^verbatim>\<open>continue\<close> leaves \<^verbatim>\<open>s\<close> where it is.
\<close>

function expire_loop :: "time_t \<Rightarrow> session list \<Rightarrow> session list" where
  "expire_loop cutoff [] = []"
| "expire_loop cutoff (s # ns) =
     (if s_expired s \<or> s_lastcycle s < cutoff then
        if \<not> s_expired s then expire_loop cutoff (s\<lparr>s_expired := True\<rparr> # ns) else expire_loop cutoff ns
      else s # expire_loop cutoff ns)"
  by pat_completeness auto

termination expire_loop
  by (relation "measure (\<lambda>(c, ss). 2 * length ss + (case ss of [] \<Rightarrow> 0 | s # _ \<Rightarrow> if s_expired s then 0 else 1))")
    (auto split: list.split)

definition session_expire :: "time_t \<Rightarrow> sessiondb \<Rightarrow> sessiondb" where
  "session_expire cutoff db = map (expire_loop cutoff) db"

subsection \<open>Saving and restoring\<close>

record saved =
  v_tenantid :: uuid
  v_hostid :: uuid
  v_addr :: u64
  v_sessid :: u64
  v_lastcycle :: time_t
  v_lastserial :: u64
  v_key :: string
  v_remote :: string

text \<open>\<open>ip2str\<close> and \<open>str2ip\<close> wrap \<^verbatim>\<open>inet_ntop\<close> and \<^verbatim>\<open>inet_pton\<close>.\<close>

definition save_session :: "(sockaddr \<Rightarrow> string) \<Rightarrow> session \<Rightarrow> saved" where
  "save_session ip2str s = \<lparr>v_tenantid = s_tenantid s, v_hostid = s_hostid s, v_addr = ucast (s_addr s),
     v_sessid = ucast (s_sessid s), v_lastcycle = s_lastcycle s, v_lastserial = ucast (s_lastserial s),
     v_key = aeskey_to_base64 (s_key s), v_remote = ip2str (s_remote s)\<rparr>"

definition sessiondb_save :: "(sockaddr \<Rightarrow> string) \<Rightarrow> sessiondb \<Rightarrow> saved list" where
  "sessiondb_save ip2str db = map (save_session ip2str) (filter (\<lambda>s. \<not> s_expired s) (concat db))"

definition restore_session :: "bytes \<Rightarrow> (string \<Rightarrow> sockaddr) \<Rightarrow> time_t \<Rightarrow> saved \<Rightarrow> nat \<Rightarrow> session" where
  "restore_session junk str2ip now v h =
     (session_alloc junk (v_tenantid v) Unspec now)\<lparr>s_tenantid := v_tenantid v, s_hostid := v_hostid v,
        s_addr := ucast (v_addr v AND 0xffffffff), s_sessid := ucast (v_sessid v AND 0xffffffff),
        s_lastcycle := v_lastcycle v, s_lastserial := ucast (v_lastserial v),
        s_key := aeskey_from_base64 junk (v_key v), s_remote := str2ip (v_remote v), s_host := h\<rparr>"

text \<open>
  When \<^verbatim>\<open>host_find\<close> gives no host the loop continues without moving to the next entry; a
  result of None is a loop that never ends.
\<close>

partial_function (option) restore_loop ::
  "bytes \<Rightarrow> (string \<Rightarrow> sockaddr) \<Rightarrow> time_t \<Rightarrow> (uuid \<Rightarrow> uuid \<Rightarrow> nat option) \<Rightarrow> saved list \<Rightarrow> sessiondb \<Rightarrow> sessiondb option" where
  "restore_loop junk str2ip now host_find vs db =
     (case vs of
        [] \<Rightarrow> Some db
      | crsr # rest \<Rightarrow>
          (case host_find (v_tenantid crsr) (v_hostid crsr) of
             None \<Rightarrow> restore_loop junk str2ip now host_find vs db
           | Some h \<Rightarrow> restore_loop junk str2ip now host_find rest (session_link (restore_session junk str2ip now crsr h) db)))"

declare restore_loop.simps [code]

definition sessiondb_restore ::
  "bytes \<Rightarrow> (string \<Rightarrow> sockaddr) \<Rightarrow> time_t \<Rightarrow> (uuid \<Rightarrow> uuid \<Rightarrow> nat option) \<Rightarrow> saved list \<Rightarrow> sessiondb \<Rightarrow> sessiondb option" where
  "sessiondb_restore = restore_loop"

end
