(* ===== verification/Store.thy ===== *)
theory Store
  imports Prelude
begin

text \<open>
  The contract of a keyed store: what its lookup returns after an insertion and after the
  removal of all entries a query names. The client lemma is proved once for all providers: any
  sequence of such operations on the store is the same sequence on a finite map.
\<close>

lemma find_cases: "List.find P xs = Some x \<Longrightarrow> P x \<and> x \<in> set xs"
  by (induction xs) (auto split: if_splits)

lemma find_None_iff': "List.find P xs = None \<longleftrightarrow> (\<forall>x\<in>set xs. \<not> P x)"
  by (induction xs) auto

definition keep_unless :: "('v \<Rightarrow> bool) \<Rightarrow> 'v option \<Rightarrow> 'v option" where
  "keep_unless dead o' = (case o' of Some v \<Rightarrow> if dead v then None else Some v | None \<Rightarrow> None)"

lemma keep_unless_simps [simp]: "keep_unless P None = None" "keep_unless P (Some v) = (if P v then None else Some v)"
  by (simp_all add: keep_unless_def)

text \<open>
  Removing the entries in \<open>dead\<close>, by filtering them out or by a mark that makes them invisible,
  acts on the lookup of a list with distinct visible keys as it should.
\<close>

lemma find_fresh:
  assumes "distinct (map key (filter live (x # xs)))" "live x"
  shows "List.find (\<lambda>y. key y = key x \<and> live y) xs = None"
  using assms by (auto simp: find_None_iff' image_iff)

lemma find_filter_unique:
  assumes "distinct (map key (filter live xs))"
  shows "List.find (\<lambda>x. key x = k \<and> live x) (filter (\<lambda>x. live x \<and> \<not> dead x) xs) =
    keep_unless dead (List.find (\<lambda>x. key x = k \<and> live x) xs)"
  using assms
proof (induction xs)
  case (Cons x xs)
  have "List.find (\<lambda>x. key x = k \<and> live x) xs = None" if "key x = k" "live x"
    using find_fresh[OF Cons.prems that(2)] that(1) by simp
  then show ?case using Cons by (auto split: if_splits)
qed simp

lemma find_mark_unique:
  assumes "distinct (map key (filter live xs))" "\<And>x. key (mark x) = key x" "\<And>x. live (mark x) \<longleftrightarrow> live x \<and> \<not> dead x"
    "\<And>x. \<not> dead x \<Longrightarrow> mark x = x"
  shows "List.find (\<lambda>x. key x = k \<and> live x) (map mark xs) = keep_unless dead (List.find (\<lambda>x. key x = k \<and> live x) xs)"
  using assms(1)
proof (induction xs)
  case (Cons x xs)
  have "List.find (\<lambda>x. key x = k \<and> live x) xs = None" if "key x = k" "live x"
    using find_fresh[OF Cons.prems that(2)] that(1) by simp
  then show ?case using Cons assms(2-4) by (auto split: if_splits)
qed simp

datatype ('v, 'q) store_op = Put 'v | Drop 'q

fun store_run :: "('v \<Rightarrow> 'd \<Rightarrow> 'd) \<Rightarrow> ('q \<Rightarrow> 'd \<Rightarrow> 'd) \<Rightarrow> ('v, 'q) store_op list \<Rightarrow> 'd \<Rightarrow> 'd" where
  "store_run put drp [] d = d"
| "store_run put drp (Put v # ops) d = store_run put drp ops (put v d)"
| "store_run put drp (Drop q # ops) d = store_run put drp ops (drp q d)"

definition map_put :: "('v \<Rightarrow> 'k) \<Rightarrow> 'v \<Rightarrow> ('k \<rightharpoonup> 'v) \<Rightarrow> ('k \<rightharpoonup> 'v)" where
  "map_put key v m = m(key v \<mapsto> v)"

definition map_drop :: "('q \<Rightarrow> 'v \<Rightarrow> bool) \<Rightarrow> 'q \<Rightarrow> ('k \<rightharpoonup> 'v) \<Rightarrow> ('k \<rightharpoonup> 'v)" where
  "map_drop dead q m = (\<lambda>k. keep_unless (dead q) (m k))"

text \<open>Insertions are of live entries whose key is not present.\<close>

fun ops_ok :: "('v \<Rightarrow> 'k) \<Rightarrow> ('v \<Rightarrow> bool) \<Rightarrow> ('q \<Rightarrow> 'v \<Rightarrow> bool) \<Rightarrow> ('v, 'q) store_op list \<Rightarrow> ('k \<rightharpoonup> 'v) \<Rightarrow> bool" where
  "ops_ok key live dead [] m \<longleftrightarrow> True"
| "ops_ok key live dead (Put v # ops) m \<longleftrightarrow> live v \<and> m (key v) = None \<and> ops_ok key live dead ops (map_put key v m)"
| "ops_ok key live dead (Drop q # ops) m \<longleftrightarrow> ops_ok key live dead ops (map_drop dead q m)"

locale keyed_store =
  fixes inv :: "'d \<Rightarrow> bool"
    and look :: "'d \<Rightarrow> 'k \<Rightarrow> 'v option"
    and key :: "'v \<Rightarrow> 'k"
    and live :: "'v \<Rightarrow> bool"
    and put :: "'v \<Rightarrow> 'd \<Rightarrow> 'd"
    and drp :: "'q \<Rightarrow> 'd \<Rightarrow> 'd"
    and dead :: "'q \<Rightarrow> 'v \<Rightarrow> bool"
  assumes put_law: "inv d \<Longrightarrow> live v \<Longrightarrow> look d (key v) = None \<Longrightarrow> inv (put v d) \<and> look (put v d) = map_put key v (look d)"
    and drop_law: "inv d \<Longrightarrow> inv (drp q d) \<and> look (drp q d) = map_drop dead q (look d)"
    and look_law: "inv d \<Longrightarrow> look d k = Some v \<Longrightarrow> key v = k \<and> live v"
begin

lemma run_refines:
  "inv d \<Longrightarrow> ops_ok key live dead ops (look d) \<Longrightarrow>
     inv (store_run put drp ops d) \<and> look (store_run put drp ops d) = store_run (map_put key) (map_drop dead) ops (look d)"
proof (induction ops arbitrary: d)
  case (Cons op ops)
  then show ?case using put_law drop_law by (cases op) auto
qed simp

text \<open>What a query removed stays away until it is put back.\<close>

lemma dropped: "inv d \<Longrightarrow> look (drp q d) k = Some v \<Longrightarrow> \<not> dead q v \<and> look d k = Some v"
  using drop_law[of d q] by (auto simp: map_drop_def keep_unless_def split: option.splits if_splits)

lemma put_look: "inv d \<Longrightarrow> live v \<Longrightarrow> look d (key v) = None \<Longrightarrow> look (put v d) (key v) = Some v"
  using put_law by (simp add: map_put_def)

end

end
