(* ===== verification/SessionProps.thy ===== *)
theory SessionProps
  imports Sessions Store
begin

text \<open>
  The session database as a finite map from an address and a session id to a live session:
  it satisfies the contract of theory \<open>Store\<close>.
\<close>

abbreviation session_key :: "session \<Rightarrow> u32 \<times> u32" where
  "session_key s \<equiv> (s_addr s, s_sessid s)"

abbreviation session_live :: "session \<Rightarrow> bool" where
  "session_live s \<equiv> \<not> s_expired s"

definition session_look :: "sessiondb \<Rightarrow> u32 \<times> u32 \<Rightarrow> session option" where
  "session_look db k = map_option (session_at db) (session_find db (fst k) (snd k))"

definition bucket_of :: "u32 \<times> u32 \<Rightarrow> nat" where
  "bucket_of k = session_bucket (fst k) (snd k)"

definition sessiondb_ok :: "sessiondb \<Rightarrow> bool" where
  "sessiondb_ok db \<longleftrightarrow> length db = 256 \<and>
     (\<forall>b < 256. list_all (\<lambda>s. bucket_of (session_key s) = b) (db ! b) \<and>
        distinct (map session_key (filter session_live (db ! b))))"

lemma bucket_less: "bucket_of k < 256"
  unfolding bucket_of_def session_bucket_def Let_def
  by (rule order_less_le_trans[OF unsigned_less]) simp

lemma find_index_find: "map_option ((!) xs) (find_index P xs) = List.find P xs"
  by (induction xs) (simp_all add: option.map_comp comp_def)

lemma session_look_find:
  "session_look db k = List.find (\<lambda>s. session_key s = k \<and> session_live s) (db ! bucket_of k)"
proof -
  have "session_look db k = List.find (session_matches (fst k) (snd k)) (db ! bucket_of k)"
    unfolding find_index_find[symmetric] session_look_def session_find_def session_at_def bucket_of_def Let_def
    by (simp add: option.map_comp comp_def)
  moreover have "session_matches (fst k) (snd k) = (\<lambda>s. session_key s = k \<and> session_live s)"
    by (auto simp: session_matches_def fun_eq_iff)
  ultimately show ?thesis by simp
qed

lemma expire_loop_filter: "expire_loop cutoff ss = filter (\<lambda>s. session_live s \<and> \<not> s_lastcycle s < cutoff) ss"
  by (induction cutoff ss rule: expire_loop.induct) auto

datatype session_query = OfTenant uuid | OlderThan time_t

fun session_drop :: "session_query \<Rightarrow> sessiondb \<Rightarrow> sessiondb" where
  "session_drop (OfTenant t) db = sessiondb_remove_tenant t db"
| "session_drop (OlderThan c) db = session_expire c db"

fun session_dead :: "session_query \<Rightarrow> session \<Rightarrow> bool" where
  "session_dead (OfTenant t) s \<longleftrightarrow> s_tenantid s = t"
| "session_dead (OlderThan c) s \<longleftrightarrow> s_lastcycle s < c"

lemma session_link_law:
  assumes "sessiondb_ok db" "session_live s" "session_look db (session_key s) = None"
  shows "sessiondb_ok (session_link s db) \<and> session_look (session_link s db) = map_put session_key s (session_look db)"
proof
  let ?b = "bucket_of (session_key s)"
  have l: "session_link s db = db[?b := s # db ! ?b]" by (simp add: session_link_def bucket_of_def Let_def)
  have len: "length db = 256" using assms(1) by (simp add: sessiondb_ok_def)
  have new: "session_key s \<notin> session_key ` set (filter session_live (db ! ?b))"
    using assms(3) by (auto simp: session_look_find find_None_iff')
  show "sessiondb_ok (session_link s db)"
    using assms(1,2) new bucket_less[of "session_key s"] by (auto simp: l sessiondb_ok_def nth_list_update)
  show "session_look (session_link s db) = map_put session_key s (session_look db)"
  proof
    fix k
    show "session_look (session_link s db) k = map_put session_key s (session_look db) k"
      using assms(2) len bucket_less[of "session_key s"]
      by (auto simp: l session_look_find map_put_def nth_list_update)
  qed
qed

lemma session_drop_law:
  assumes "sessiondb_ok db"
  shows "sessiondb_ok (session_drop q db) \<and> session_look (session_drop q db) = map_drop session_dead q (session_look db)"
proof (cases q)
  case (OfTenant t)
  let ?mark = "\<lambda>s. if uuidcmp (s_tenantid s) t then s\<lparr>s_expired := True\<rparr> else s"
  have k: "session_key (?mark s) = session_key s" "session_live (?mark s) \<longleftrightarrow> session_live s \<and> \<not> session_dead q s" for s
    using OfTenant by simp_all
  have f: "map session_key (filter session_live (map ?mark ss)) = map session_key (filter (\<lambda>s. session_live s \<and> \<not> session_dead q s) ss)" for ss
    by (simp only: filter_map map_map comp_def k)
  have "sessiondb_ok (session_drop q db)"
    unfolding sessiondb_ok_def
  proof (intro conjI allI impI)
    fix b :: nat assume b: "b < 256"
    have l: "length db = 256" using assms by (simp add: sessiondb_ok_def)
    have n: "session_drop q db ! b = map ?mark (db ! b)" using b l OfTenant by (simp add: sessiondb_remove_tenant_def)
    show "list_all (\<lambda>s. bucket_of (session_key s) = b) (session_drop q db ! b)"
      using assms b k(1) unfolding n sessiondb_ok_def by (auto simp: list_all_iff)
    have "distinct (map session_key (filter session_live (db ! b)))" using assms b by (simp add: sessiondb_ok_def)
    from distinct_map_filter[OF this, of "\<lambda>s. \<not> session_dead q s"] show "distinct (map session_key (filter session_live (session_drop q db ! b)))" unfolding n f by (simp add: conj_commute)
  qed (use assms OfTenant in \<open>simp add: sessiondb_ok_def sessiondb_remove_tenant_def\<close>)
  moreover have "session_look (session_drop q db) = map_drop session_dead q (session_look db)"
  proof
    fix k'
    have b: "bucket_of k' < 256" by (rule bucket_less)
    then have n: "session_drop q db ! bucket_of k' = map ?mark (db ! bucket_of k')"
      using assms OfTenant by (simp add: sessiondb_ok_def sessiondb_remove_tenant_def)
    have d: "distinct (map session_key (filter session_live (db ! bucket_of k')))" using assms b by (simp add: sessiondb_ok_def)
    show "session_look (session_drop q db) k' = map_drop session_dead q (session_look db) k'"
      unfolding session_look_find n map_drop_def
      by (rule find_mark_unique[OF d]) (use OfTenant in auto)
  qed
  ultimately show ?thesis ..
next
  case (OlderThan c)
  have n: "session_drop q db ! b = filter (\<lambda>s. session_live s \<and> \<not> session_dead q s) (db ! b)" if "b < 256" for b
    using that assms OlderThan by (simp add: sessiondb_ok_def session_expire_def expire_loop_filter)
  have d: "distinct (map session_key (filter (\<lambda>s. session_live s \<and> \<not> session_dead q s) (db ! b)))" if "b < 256" for b
    using assms that distinct_map_filter[of session_key "filter session_live (db ! b)" "\<lambda>s. \<not> session_dead q s"]
    by (simp add: sessiondb_ok_def conj_commute)
  have "sessiondb_ok (session_drop q db)"
    using assms n d OlderThan by (auto simp: sessiondb_ok_def list_all_iff session_expire_def conj_commute)
  moreover have "session_look (session_drop q db) = map_drop session_dead q (session_look db)"
  proof
    fix k'
    have b: "bucket_of k' < 256" by (rule bucket_less)
    have "distinct (map session_key (filter session_live (db ! bucket_of k')))" using assms b by (simp add: sessiondb_ok_def)
    then show "session_look (session_drop q db) k' = map_drop session_dead q (session_look db) k'"
      unfolding session_look_find n[OF b] map_drop_def by (rule find_filter_unique)
  qed
  ultimately show ?thesis ..
qed

interpretation sdb: keyed_store sessiondb_ok session_look session_key session_live session_link session_drop session_dead
proof
  fix db k v assume "session_look db k = Some v"
  then show "session_key v = k \<and> session_live v" unfolding session_look_find by (auto dest!: find_cases)
qed (use session_link_law session_drop_law in blast)+

lemma sessiondb_init_ok [inv_intro]: "sessiondb_ok sessiondb_init"
  by (simp add: sessiondb_ok_def sessiondb_init_def)

lemma sessiondb_init_look: "session_look sessiondb_init = (\<lambda>_. None)"
  using bucket_less by (simp add: fun_eq_iff session_look_find sessiondb_init_def)

subsection \<open>Restoring a saved database\<close>

lemma restore_needs_hosts:
  "restore_loop junk str2ip now hf vs db = Some r \<Longrightarrow> list_all (\<lambda>v. hf (v_tenantid v) (v_hostid v) \<noteq> None) vs"
proof (rule restore_loop.raw_induct[where P = "\<lambda>junk str2ip now hf vs db r. list_all (\<lambda>v. hf (v_tenantid v) (v_hostid v) \<noteq> None) vs"])
  fix f junk str2ip now hf vs db r
  assume 1: "\<And>junk str2ip now hf vs db r. f junk str2ip now hf vs db = Some r \<Longrightarrow> list_all (\<lambda>v. hf (v_tenantid v) (v_hostid v) \<noteq> None) vs"
    "(case vs of [] \<Rightarrow> Some db
      | crsr # rest \<Rightarrow> (case hf (v_tenantid crsr) (v_hostid crsr) of None \<Rightarrow> f junk str2ip now hf vs db
           | Some h \<Rightarrow> f junk str2ip now hf rest (session_link (restore_session junk str2ip now crsr h) db))) = Some r"
  show "list_all (\<lambda>v. hf (v_tenantid v) (v_hostid v) \<noteq> None) vs"
  proof (cases vs)
    case (Cons v vs')
    show ?thesis
    proof (cases "hf (v_tenantid v) (v_hostid v)")
      case None
      then show ?thesis using 1(2) 1(1)[where vs = vs and hf = hf] Cons by simp
    next
      case (Some h)
      then show ?thesis using 1(2) 1(1)[where vs = vs' and hf = hf] Cons by simp
    qed
  qed simp
qed

definition relink :: "bytes \<Rightarrow> (string \<Rightarrow> sockaddr) \<Rightarrow> time_t \<Rightarrow> (uuid \<Rightarrow> uuid \<Rightarrow> nat option) \<Rightarrow> saved \<Rightarrow> session" where
  "relink junk str2ip now hf v = restore_session junk str2ip now v (the (hf (v_tenantid v) (v_hostid v)))"

lemma restore_all:
  "list_all (\<lambda>v. hf (v_tenantid v) (v_hostid v) \<noteq> None) vs \<Longrightarrow>
   restore_loop junk str2ip now hf vs db = Some (fold (session_link \<circ> relink junk str2ip now hf) vs db)"
proof (induction vs arbitrary: db)
  case Nil
  then show ?case by (subst restore_loop.simps) simp
next
  case (Cons v vs)
  then obtain h where h: "hf (v_tenantid v) (v_hostid v) = Some h" "list_all (\<lambda>v. hf (v_tenantid v) (v_hostid v) \<noteq> None) vs" by auto
  then have "relink junk str2ip now hf v = restore_session junk str2ip now v h" by (simp add: relink_def)
  then show ?case using h(1) Cons.IH[OF h(2)] by (subst restore_loop.simps) (simp only: list.case option.case fold.simps comp_def)
qed

lemma link_all:
  assumes "sessiondb_ok db" "distinct (map session_key ss)" "\<And>s. s \<in> set ss \<Longrightarrow> session_live s \<and> session_look db (session_key s) = None"
  shows "sessiondb_ok (fold session_link ss db) \<and>
    session_look (fold session_link ss db) = session_look db ++ map_of (map (\<lambda>s. (session_key s, s)) ss)"
  using assms
proof (induction ss arbitrary: db)
  case (Cons s ss)
  have new: "session_live s" "session_look db (session_key s) = None" using Cons.prems(3) by auto
  note p = session_link_law[OF Cons.prems(1) new]
  have "sessiondb_ok (fold session_link ss (session_link s db)) \<and>
      session_look (fold session_link ss (session_link s db)) =
        session_look (session_link s db) ++ map_of (map (\<lambda>s. (session_key s, s)) ss)"
  proof (rule Cons.IH)
    show "sessiondb_ok (session_link s db)" using p ..
    fix t assume t: "t \<in> set ss"
    then have "session_key t \<noteq> session_key s" using Cons.prems(2) by (auto simp: image_iff)
    then show "session_live t \<and> session_look (session_link s db) (session_key t) = None"
      using p Cons.prems(3) t by (simp add: map_put_def)
  qed (use Cons.prems(2) in simp)
  moreover have "session_key s \<notin> dom (map_of (map (\<lambda>s. (session_key s, s)) ss))"
    using Cons.prems(2) by (simp add: dom_map_of_conv_image_fst image_image)
  then have "map_put session_key s (session_look db) ++ map_of (map (\<lambda>s. (session_key s, s)) ss) =
      session_look db ++ (map_of (map (\<lambda>s. (session_key s, s)) ss))(session_key s \<mapsto> s)"
    by (auto simp: fun_eq_iff map_put_def map_add_def split: option.splits)
  moreover have "map_of (map (\<lambda>s. (session_key s, s)) (s # ss)) = (map_of (map (\<lambda>s. (session_key s, s)) ss))(session_key s \<mapsto> s)"
    by (simp only: list.map map_of.simps fst_conv snd_conv)
  ultimately show ?case using p by (simp only: fold.simps comp_apply)
qed simp

lemma live_distinct:
  assumes "sessiondb_ok db"
  shows "distinct (map session_key (filter session_live (concat db)))"
proof -
  have n: "distinct (map session_key (filter session_live b))" "list_all (\<lambda>s. bucket_of (session_key s) = i) b"
    if "i < 256" "b = db ! i" for i b
    using assms that by (auto simp: sessiondb_ok_def)
  have "n \<le> 256 \<Longrightarrow> distinct (map session_key (filter session_live (concat (take n db)))) \<and>
      list_all (\<lambda>s. bucket_of (session_key s) < n) (concat (take n db))" for n
  proof (induction n)
    case (Suc n)
    then have l: "n < length db" "n < 256" using assms by (auto simp: sessiondb_ok_def)
    have t: "concat (take (Suc n) db) = concat (take n db) @ db ! n" using l(1) by (simp add: take_Suc_conv_app_nth)
    note i = n[OF l(2) refl]
    have "session_key ` set (filter session_live (concat (take n db))) \<inter> session_key ` set (filter session_live (db ! n)) = {}"
      using Suc i(2) by (fastforce simp: list_all_iff)
    then show ?case using Suc i by (auto simp: t list_all_iff less_Suc_eq)
  qed simp
  from this[of 256] show ?thesis using assms by (simp add: sessiondb_ok_def)
qed

lemma look_concat:
  assumes "sessiondb_ok db"
  shows "session_look db k = Some s \<longleftrightarrow> s \<in> set (concat db) \<and> session_live s \<and> session_key s = k"
proof
  have b: "bucket_of k < 256" by (rule bucket_less)
  then have mem: "db ! bucket_of k \<in> set db" using assms by (simp add: sessiondb_ok_def)
  show "session_look db k = Some s \<Longrightarrow> s \<in> set (concat db) \<and> session_live s \<and> session_key s = k"
    unfolding session_look_find using find_cases[of _ "db ! bucket_of k" s] mem by fastforce
  assume s: "s \<in> set (concat db) \<and> session_live s \<and> session_key s = k"
  then obtain b where "b \<in> set db" "s \<in> set b" by auto
  then obtain i where i: "i < 256" "s \<in> set (db ! i)" using assms by (auto simp: sessiondb_ok_def in_set_conv_nth[of b])
  then have "i = bucket_of k" using assms s by (auto simp: sessiondb_ok_def list_all_iff)
  then have m: "s \<in> set (db ! bucket_of k)" using i by simp
  then obtain t where t: "List.find (\<lambda>s. session_key s = k \<and> session_live s) (db ! bucket_of k) = Some t"
    using s by (cases "List.find (\<lambda>s. session_key s = k \<and> session_live s) (db ! bucket_of k)") (auto simp: find_None_iff')
  have "inj_on session_key (set (filter session_live (db ! bucket_of k)))"
    using assms b by (simp add: sessiondb_ok_def distinct_map)
  then have "t = s" using find_cases[OF t] m s by (auto simp: inj_on_def)
  then show "session_look db k = Some s" using t by (simp add: session_look_find)
qed

lemma session_link_set: "s' \<in> set (concat (session_link s sessiondb_init)) \<Longrightarrow> s' = s"
proof -
  let ?b = "session_bucket (s_addr s) (s_sessid s)"
  have "?b < 256" using bucket_less[of "session_key s"] by (simp add: bucket_of_def)
  then have "session_link s sessiondb_init = (replicate 256 [])[?b := [s]]"
    by (simp add: session_link_def sessiondb_init_def Let_def)
  then show "s' \<in> set (concat (session_link s sessiondb_init)) \<Longrightarrow> s' = s"
    using set_update_subset_insert[of "replicate 256 []" ?b "[s]"] by auto
qed

lemma mask32: "ucast ((ucast x :: u64) AND 0xffffffff) = (x :: u32)"
  by (rule bit_word_eqI) (auto simp: bit_word_simps bit_ucast_iff bit_imp_le_length)

lemma relink_save:
  assumes "session_live s" "length (s_key s) = 32" "str2ip (ip2str (s_remote s)) = s_remote s"
  shows "relink junk str2ip now hf (save_session ip2str s) = s\<lparr>s_host := the (hf (s_tenantid s) (s_hostid s))\<rparr>"
proof -
  have "aeskey_from_base64 junk (aeskey_to_base64 (s_key s)) = s_key s"
    using assms(2) by (simp add: aeskey_from_base64_def aeskey_to_base64_def base64_decode_encode)
  moreover have "ucast (ucast x :: u64) = x" for x :: u32
    by (rule bit_word_eqI) (auto simp: bit_ucast_iff bit_imp_le_length)
  ultimately show ?thesis using assms(1,3) mask32
    by (cases s) (simp add: relink_def restore_session_def save_session_def session_alloc_def)
qed

text \<open>
  C17: The database of 256 hashed buckets implements a finite map from address and session id
  to session: whatever the order of registrations of new keys, of removals by tenant and of
  expirations, what a lookup finds is what the map has, and no key has two live sessions.
\<close>

theorem sessions_refine_map:
  assumes "ops_ok session_key session_live session_dead ops Map.empty"
  shows "sessiondb_ok (store_run session_link session_drop ops sessiondb_init) \<and>
    session_look (store_run session_link session_drop ops sessiondb_init) =
      store_run (map_put session_key) (map_drop session_dead) ops Map.empty"
  using sdb.run_refines[OF sessiondb_init_ok, of ops] assms unfolding sessiondb_init_look by blast

theorem sessions_refine_map_witness:
  "session_look (store_run session_link session_drop
     [Put ((session_alloc [] \<lparr>msb = 1, lsb = 2\<rparr> Unspec 50)\<lparr>s_sessid := 7\<rparr>), Drop (OlderThan 40)] sessiondb_init) (0, 7) \<noteq> None"
  by (subst sessions_refine_map[THEN conjunct2]) (simp_all add: session_alloc_def map_put_def map_drop_def)


definition demo_session :: session where
  "demo_session = (session_alloc [] \<lparr>msb = 1, lsb = 2\<rparr> Unspec 50)\<lparr>s_key := replicate 32 7\<rparr>"

lemma demo_session_fields:
  "s_addr demo_session = 0" "s_sessid demo_session = 0" "s_remote demo_session = Unspec"
  "length (s_key demo_session) = 32" "session_live demo_session"
  by (simp_all add: demo_session_def session_alloc_def)


end
