(* ===== verification/Tenant.thy ===== *)
theory Tenant
  imports Host Summary Notify SessionProps
begin

text \<open>
  \<^verbatim>\<open>libopticon/tenant.c\<close> and the host list of \<^verbatim>\<open>libopticon/host.c\<close>: the tenants, their
  hosts, and the sessions that point to them. The list of tenants is a HOL list, a
  \<^verbatim>\<open>tenant *\<close> an index into it; hosts live in a heap, since sessions keep pointers to them
  across their deletion, and a \<^verbatim>\<open>host *\<close> is an address. A call that would wait for a lock
  nobody is left to release gives None. The lock of the list itself only guards the single
  calls; what two threads can do to each other between its critical sections is the
  step relation at the end.
\<close>

subsection \<open>Locks\<close>

text \<open>\<open>ReadLocked n\<close> has \<open>n + 1\<close> readers.\<close>

datatype rwlock = Unlocked | ReadLocked nat | WriteLocked
datatype tenantlock = TENANT_LOCK_READ | TENANT_LOCK_WRITE

fun acquire :: "tenantlock \<Rightarrow> rwlock \<Rightarrow> rwlock option" where
  "acquire TENANT_LOCK_READ Unlocked = Some (ReadLocked 0)"
| "acquire TENANT_LOCK_READ (ReadLocked n) = Some (ReadLocked (Suc n))"
| "acquire TENANT_LOCK_WRITE Unlocked = Some WriteLocked"
| "acquire _ _ = None"

fun release :: "rwlock \<Rightarrow> rwlock" where
  "release (ReadLocked (Suc n)) = ReadLocked n"
| "release _ = Unlocked"

subsection \<open>State\<close>

record tenant =
  t_uuid :: uuid
  t_key :: aeskey
  t_hosts :: "nat list"
  t_watch :: watchlist
  t_notify :: notifylist
  t_summ :: summaryinfo
  t_lock :: rwlock

record world =
  w_tenants :: "tenant list"
  w_heap :: "nat \<Rightarrow> host option"
  w_next :: nat
  w_sessions :: sessiondb

definition world_init :: world where
  "world_init = \<lparr>w_tenants = [], w_heap = Map.empty, w_next = 0, w_sessions = sessiondb_init\<rparr>"

definition tenant_new :: "uuid \<Rightarrow> tenant" where
  "tenant_new u = \<lparr>t_uuid = u, t_key = replicate 32 0, t_hosts = [], t_watch = [],
     t_notify = notifylist_init, t_summ = summaryinfo_init, t_lock = Unlocked\<rparr>"

subsection \<open>Finding tenants\<close>

definition tenant_look :: "tenant list \<Rightarrow> uuid \<Rightarrow> nat option" where
  "tenant_look ts u = find_index (\<lambda>t. uuidcmp (t_uuid t) u) ts"

definition tenant_get :: "tenant list \<Rightarrow> uuid \<Rightarrow> tenant list \<times> nat" where
  "tenant_get ts u = (case tenant_look ts u of Some k \<Rightarrow> (ts, k) | None \<Rightarrow> (ts @ [tenant_new u], length ts))"

definition lock_tenant :: "tenantlock \<Rightarrow> nat \<Rightarrow> tenant list \<Rightarrow> tenant list option" where
  "lock_tenant lockt k ts = map_option (\<lambda>l. ts[k := (ts ! k)\<lparr>t_lock := l\<rparr>]) (acquire lockt (t_lock (ts ! k)))"

definition unlock_tenant :: "nat \<Rightarrow> tenant list \<Rightarrow> tenant list" where
  "unlock_tenant k ts = ts[k := (ts ! k)\<lparr>t_lock := release (t_lock (ts ! k))\<rparr>]"

definition tenant_find :: "uuid \<Rightarrow> tenantlock \<Rightarrow> tenant list \<Rightarrow> (tenant list \<times> nat) option" where
  "tenant_find u lockt ts = (let (ts, k) = tenant_get ts u in map_option (\<lambda>ts. (ts, k)) (lock_tenant lockt k ts))"

definition tenant_first :: "tenantlock \<Rightarrow> tenant list \<Rightarrow> (tenant list \<times> nat option) option" where
  "tenant_first lockt ts =
     (if ts = [] then Some (ts, None) else map_option (\<lambda>ts. (ts, Some 0)) (lock_tenant lockt 0 ts))"

text \<open>The next tenant is locked before the old one is released.\<close>

definition tenant_next :: "nat \<Rightarrow> tenantlock \<Rightarrow> tenant list \<Rightarrow> (tenant list \<times> nat option) option" where
  "tenant_next k lockt ts =
     (if Suc k < length ts then map_option (\<lambda>ts. (unlock_tenant k ts, Some (Suc k))) (lock_tenant lockt (Suc k) ts)
      else Some (unlock_tenant k ts, None))"

definition tenant_relock :: "nat \<Rightarrow> tenantlock \<Rightarrow> tenant list \<Rightarrow> tenant list option" where
  "tenant_relock k lockt ts = lock_tenant lockt k (unlock_tenant k ts)"

definition tenant_done :: "nat \<Rightarrow> tenant list \<Rightarrow> tenant list" where
  "tenant_done k ts = unlock_tenant k ts"

definition tenant_create :: "uuid \<Rightarrow> aeskey \<Rightarrow> tenant list \<Rightarrow> (tenant list \<times> nat) option" where
  "tenant_create u key ts =
     map_option (\<lambda>(ts, k). (ts[k := (ts ! k)\<lparr>t_key := key\<rparr>], k)) (tenant_find u TENANT_LOCK_WRITE ts)"

subsection \<open>Hosts of a tenant\<close>

fun host_search :: "(nat \<Rightarrow> host option) \<Rightarrow> uuid \<Rightarrow> nat list \<Rightarrow> nat option res" where
  "host_search heap u [] = Ok None"
| "host_search heap u (a # as) =
     (case heap a of None \<Rightarrow> Fault UseAfterFree
      | Some h \<Rightarrow> if uuidcmp (h_uuid h) u then Ok (Some a) else host_search heap u as)"

definition host_find :: "uuid \<Rightarrow> uuid \<Rightarrow> world \<Rightarrow> (world \<times> nat) res option" where
  "host_find tenantid hostid w =
     (case tenant_find tenantid TENANT_LOCK_WRITE (w_tenants w) of
        None \<Rightarrow> None
      | Some (ts, k) \<Rightarrow>
          Some (rbind (host_search (w_heap w) hostid (t_hosts (ts ! k))) (\<lambda>found.
            case found of
              Some a \<Rightarrow> Ok (w\<lparr>w_tenants := tenant_done k ts\<rparr>, a)
            | None \<Rightarrow>
                let a = w_next w; ts = ts[k := (ts ! k)\<lparr>t_hosts := t_hosts (ts ! k) @ [a]\<rparr>] in
                Ok (w\<lparr>w_tenants := tenant_done k ts, w_heap := (w_heap w)(a \<mapsto> host_alloc hostid), w_next := Suc a\<rparr>, a))))"

text \<open>\<open>k\<close> is the tenant of the host; its meters are freed with it.\<close>

definition host_delete :: "nat \<Rightarrow> nat \<Rightarrow> world \<Rightarrow> world" where
  "host_delete k a w =
     (let t = w_tenants w ! k in
      w\<lparr>w_tenants := (w_tenants w)[k := t\<lparr>t_hosts := removeAll a (t_hosts t)\<rparr>], w_heap := (w_heap w)(a := None)\<rparr>)"

subsection \<open>Deleting a tenant\<close>

definition neighbour_free :: "tenant list \<Rightarrow> nat \<Rightarrow> bool" where
  "neighbour_free ts k \<longleftrightarrow> (k > 0 \<longrightarrow> t_lock (ts ! (k - 1)) = Unlocked) \<and>
     (Suc k < length ts \<longrightarrow> t_lock (ts ! Suc k) = Unlocked)"

text \<open>When a neighbour is locked, nothing happens, and the caller's lock on the tenant stays.\<close>

definition tenant_delete :: "nat \<Rightarrow> world \<Rightarrow> world" where
  "tenant_delete k w =
     (let ts = w_tenants w; t = ts ! k in
      if \<not> neighbour_free ts k then w
      else w\<lparr>w_tenants := take k ts @ drop (Suc k) ts,
             w_sessions := sessiondb_remove_tenant (t_uuid t) (w_sessions w),
             w_heap := (\<lambda>a. if a \<in> set (t_hosts t) then None else w_heap w a)\<rparr>)"

subsection \<open>The list of tenants is a registry\<close>

interpretation tl: registry tenant_look tenant_get t_uuid "\<lambda>u. u"
  by (rule registry_find_index[where new = tenant_new])
    (simp_all add: tenant_look_def tenant_get_def tenant_new_def uuidcmp_eq)

subsection \<open>Two threads in tenant_find\<close>

text \<open>
  \<^verbatim>\<open>tenant_find\<close> releases the read lock of the list before it takes the write lock. Where a
  thread stands between its critical sections: before the first, having seen an empty list,
  back from finding it filled meanwhile (with its cursor still NULL), about to append, done
  with the tenant it returns.
\<close>

datatype find_pc = FindStart | FindEmpty | FindRetry | FindAppend | FindDone "nat option"

fun find_section :: "uuid \<Rightarrow> uuid list \<Rightarrow> find_pc \<Rightarrow> uuid list \<times> find_pc" where
  "find_section u ts FindStart =
     (if ts = [] then (ts, FindEmpty)
      else case find_index (\<lambda>t. uuidcmp t u) ts of Some k \<Rightarrow> (ts, FindDone (Some k)) | None \<Rightarrow> (ts, FindAppend))"
| "find_section u ts FindEmpty = (if ts = [] then ([u], FindDone (Some 0)) else (ts, FindRetry))"
| "find_section u ts FindRetry = (ts, FindDone None)"
| "find_section u ts FindAppend = (ts @ [u], FindDone (Some (length ts)))"
| "find_section u ts (FindDone r) = (ts, FindDone r)"

fun_cases find_section_appends: "find_section u ts pc = (ts', FindDone (Some k))"

inductive find_step :: "uuid list \<times> (uuid \<times> find_pc) list \<Rightarrow> uuid list \<times> (uuid \<times> find_pc) list \<Rightarrow> bool" where
  "i < length ps \<Longrightarrow> ps ! i = (u, pc) \<Longrightarrow> find_section u ts pc = (ts', pc') \<Longrightarrow>
     find_step (ts, ps) (ts', ps[i := (u, pc')])"

inductive_cases find_stepE: "find_step (ts, ps) s"

definition find_threads :: "uuid list \<Rightarrow> uuid list \<times> (uuid \<times> find_pc) list" where
  "find_threads us = ([], map (\<lambda>u. (u, FindStart)) us)"

text \<open>
  In every interleaving of any number of threads: what a thread returned is a tenant with the
  uuid it asked for, and no tenant is ever moved.
\<close>

definition find_inv :: "uuid list \<times> (uuid \<times> find_pc) list \<Rightarrow> bool" where
  "find_inv st \<longleftrightarrow> list_all (\<lambda>(u, pc). case pc of FindDone (Some k) \<Rightarrow> k < length (fst st) \<and> fst st ! k = u
     | FindRetry \<Rightarrow> fst st \<noteq> [] | FindAppend \<Rightarrow> fst st \<noteq> [] | _ \<Rightarrow> True) (snd st)"

lemma find_section_grows: "find_section u ts pc = (ts', pc') \<Longrightarrow> \<exists>new. ts' = ts @ new"
  by (cases "(u, ts, pc)" rule: find_section.cases) (auto split: if_splits option.splits)

lemma find_section_done:
  "find_section u ts pc = (ts', FindDone (Some k)) \<Longrightarrow> pc \<noteq> FindDone (Some k) \<Longrightarrow> k < length ts' \<and> ts' ! k = u"
  by (erule find_section_appends) (auto simp: find_index_Some uuidcmp_eq split: if_splits option.splits)

lemma find_inv_step: "find_step st st' \<Longrightarrow> find_inv st \<Longrightarrow> find_inv st'"
proof (induction rule: find_step.induct)
  case (1 i ps u pc ts ts' pc')
  obtain new where new: "ts' = ts @ new" using find_section_grows[OF 1(3)] by blast
  have others: "case q of FindDone (Some k) \<Rightarrow> k < length ts' \<and> ts' ! k = v
      | FindRetry \<Rightarrow> ts' \<noteq> [] | FindAppend \<Rightarrow> ts' \<noteq> [] | _ \<Rightarrow> True" if "(v, q) \<in> set ps" for v q
    using 1(4) that new by (fastforce simp: find_inv_def list_all_iff nth_append split: find_pc.splits option.splits)
  have "(u, pc) \<in> set ps" using 1(1,2) by (metis nth_mem)
  from others[OF this] have "case pc' of FindDone (Some k) \<Rightarrow> k < length ts' \<and> ts' ! k = u
      | FindRetry \<Rightarrow> ts' \<noteq> [] | FindAppend \<Rightarrow> ts' \<noteq> [] | _ \<Rightarrow> True"
    using 1(3) by (cases "(u, ts, pc)" rule: find_section.cases)
      (auto simp: find_index_Some uuidcmp_eq split: if_splits option.splits)
  then show ?case using others by (auto simp: find_inv_def list_all_iff dest!: set_update_subset_insert[THEN subsetD])
qed

lemma find_inv_reachable: "find_step\<^sup>*\<^sup>* st st' \<Longrightarrow> find_inv st \<Longrightarrow> find_inv st'"
  by (induction rule: rtranclp_induct) (auto intro: find_inv_step)

lemma find_step_first: "find_section u ts pc = (ts', pc') \<Longrightarrow> find_step (ts, (u, pc) # ps) (ts', (u, pc') # ps)"
  using find_step.intros[of 0 "(u, pc) # ps" u pc ts ts' pc'] by simp

lemma find_step_second:
  "find_section u ts pc = (ts', pc') \<Longrightarrow> find_step (ts, p # (u, pc) # ps) (ts', p # (u, pc') # ps)"
  using find_step.intros[of 1 "p # (u, pc) # ps" u pc ts ts' pc'] by simp

text \<open>
  C19: However the critical sections of threads calling \<^verbatim>\<open>tenant_find\<close> interleave, a thread
  that gets a tenant gets one with the uuid it asked for. But find-or-create is not atomic: of
  two threads that ask for the same new tenant one is told there is none when the list was
  empty, and when it was not, both append one and the list has the tenant twice.
\<close>

theorem tenant_find_races:
  "(find_step\<^sup>*\<^sup>* (find_threads us) (ts, ps) \<longrightarrow> (u, FindDone (Some k)) \<in> set ps \<longrightarrow> k < length ts \<and> ts ! k = u) \<and>
   find_step\<^sup>*\<^sup>* (find_threads [u, u]) ([u], [(u, FindDone (Some 0)), (u, FindDone None)]) \<and>
   (u \<noteq> v \<longrightarrow> find_step\<^sup>*\<^sup>* ([v], [(u, FindStart), (u, FindStart)]) ([v, u, u], [(u, FindDone (Some 1)), (u, FindDone (Some 2))]))"
proof (intro conjI impI)
  assume a: "find_step\<^sup>*\<^sup>* (find_threads us) (ts, ps)" "(u, FindDone (Some k)) \<in> set ps"
  have "find_inv (find_threads us)" by (auto simp: find_inv_def find_threads_def list_all_iff)
  from find_inv_reachable[OF a(1) this] a(2) show "k < length ts" "ts ! k = u"
    by (fastforce simp: find_inv_def list_all_iff)+
next
  have "find_step ([], [(u, FindStart), (u, FindStart)]) ([], [(u, FindEmpty), (u, FindStart)])"
    "find_step ([], [(u, FindEmpty), (u, FindStart)]) ([], [(u, FindEmpty), (u, FindEmpty)])"
    "find_step ([], [(u, FindEmpty), (u, FindEmpty)]) ([u], [(u, FindDone (Some 0)), (u, FindEmpty)])"
    "find_step ([u], [(u, FindDone (Some 0)), (u, FindEmpty)]) ([u], [(u, FindDone (Some 0)), (u, FindRetry)])"
    "find_step ([u], [(u, FindDone (Some 0)), (u, FindRetry)]) ([u], [(u, FindDone (Some 0)), (u, FindDone None)])"
    by (rule find_step_first, simp, rule find_step_second, simp, rule find_step_first, simp,
        rule find_step_second, simp, rule find_step_second, simp)
  then show "find_step\<^sup>*\<^sup>* (find_threads [u, u]) ([u], [(u, FindDone (Some 0)), (u, FindDone None)])"
    unfolding find_threads_def by (auto intro: converse_rtranclp_into_rtranclp)
next
  assume "u \<noteq> v"
  then have "find_step ([v], [(u, FindStart), (u, FindStart)]) ([v], [(u, FindAppend), (u, FindStart)])"
    "find_step ([v], [(u, FindAppend), (u, FindStart)]) ([v], [(u, FindAppend), (u, FindAppend)])"
    "find_step ([v], [(u, FindAppend), (u, FindAppend)]) ([v, u], [(u, FindDone (Some 1)), (u, FindAppend)])"
    "find_step ([v, u], [(u, FindDone (Some 1)), (u, FindAppend)]) ([v, u, u], [(u, FindDone (Some 1)), (u, FindDone (Some 2))])"
    by - (rule find_step_first, simp add: uuidcmp_eq, rule find_step_second, simp add: uuidcmp_eq,
        rule find_step_first, simp, rule find_step_second, simp)
  then show "find_step\<^sup>*\<^sup>* ([v], [(u, FindStart), (u, FindStart)]) ([v, u, u], [(u, FindDone (Some 1)), (u, FindDone (Some 2))])"
    by (auto intro: converse_rtranclp_into_rtranclp)
qed

theorem tenant_find_races_witness:
  "\<exists>ts ps. find_step\<^sup>*\<^sup>* (find_threads [\<lparr>msb = 1, lsb = 2\<rparr>, \<lparr>msb = 1, lsb = 2\<rparr>]) (ts, ps) \<and>
     (\<lparr>msb = 1, lsb = 2\<rparr>, FindDone (Some 0)) \<in> set ps \<and> ts ! 0 = \<lparr>msb = 1, lsb = 2\<rparr>"
proof -
  let ?u = "\<lparr>msb = 1, lsb = 2\<rparr> :: uuid"
  have r: "find_step\<^sup>*\<^sup>* (find_threads [?u, ?u]) ([?u], [(?u, FindDone (Some 0)), (?u, FindDone None)])"
    using tenant_find_races by blast
  have "(?u, FindDone (Some 0)) \<in> set [(?u, FindDone (Some 0)), (?u, FindDone None)]" by simp
  then show ?thesis using tenant_find_races r by blast
qed

end
