(* ===== verification/Pktwrap.thy ===== *)
theory Pktwrap
  imports Crypt Sessions
begin

text \<open>
  \<^verbatim>\<open>libopticon/pktwrap.c\<close> and \<^verbatim>\<open>libopticon/compress.c\<close>: the envelopes of authentication
  and meter packets. \<open>deflate\<close> and \<open>inflate\<close> are zlib's, on whole byte strings; \<open>jn\<close> is what
  \<^verbatim>\<open>malloc\<close> leaves in the blocks of the ports the functions create. The resolvers are
  functions on a state, since those of the collector change it.
\<close>

record authinfo =
  au_sessionid :: u32
  au_serial :: u32
  au_tenantid :: uuid
  au_hostid :: uuid
  au_sessionkey :: aeskey
  au_tenantkey :: aeskey

subsection \<open>Identifiers\<close>

fun gen_networkid :: "sockaddr \<Rightarrow> u32" where
  "gen_networkid (Inet a) = a"
| "gen_networkid (Inet6 a b c d) = a XOR b XOR c XOR d"
| "gen_networkid Unspec = 0"

text \<open>\<^verbatim>\<open>SERIAL\<close> is the state.\<close>

definition gen_serial :: "time_t \<Rightarrow> u32 \<Rightarrow> u32" where
  "gen_serial now SERIAL = (if SERIAL = 0 then word_of_int now else SERIAL + 1)"

subsection \<open>Compression\<close>

definition ioport_get_buffer :: "bufferstorage ioport \<Rightarrow> bytes" where
  "ioport_get_buffer io = mbuf (storage io)"

definition compress_data :: "(bytes \<Rightarrow> bytes) \<Rightarrow> bufferstorage ioport \<Rightarrow> bufferstorage ioport \<Rightarrow> bool \<times> bufferstorage ioport" where
  "compress_data deflate inp outp =
     (if ioport_read_available inp = 0 then (False, outp)
      else
        let z = deflate (take (ioport_read_available inp) (ioport_get_buffer inp)) in
        if length z > ioport_write_available outp then (False, outp)
        else (True, snd (ioport_write outp z)))"

definition decompress_data :: "(bytes \<Rightarrow> bytes option) \<Rightarrow> bufferstorage ioport \<Rightarrow> bufferstorage ioport \<Rightarrow> bool \<times> bufferstorage ioport" where
  "decompress_data inflate inp outp =
     (if ioport_read_available inp = 0 then (False, outp)
      else
        (case inflate (take (ioport_read_available inp) (ioport_get_buffer inp)) of
           None \<Rightarrow> (False, outp)
         | Some d \<Rightarrow>
             if length d > ioport_write_available outp then (False, outp)
             else (True, snd (ioport_write outp d))))"

subsection \<open>Wrapping\<close>

definition o6m1 :: bytes where "o6m1 = str_bytes ''o6m1''"
definition o6a1 :: bytes where "o6a1 = str_bytes ''o6a1''"

definition ioport_wrap_meterdata ::
  "(bytes \<Rightarrow> bytes) \<Rightarrow> (nat \<Rightarrow> u8) \<Rightarrow> nat \<Rightarrow> (nat \<Rightarrow> int) \<Rightarrow> (nat \<Rightarrow> u8) \<Rightarrow> aes256_context \<Rightarrow> bytes \<Rightarrow> time_t \<Rightarrow>
     u32 \<Rightarrow> u32 \<Rightarrow> aeskey \<Rightarrow> bufferstorage ioport \<Rightarrow> bufferstorage ioport option option" where
  "ioport_wrap_meterdata deflate jn fuel ub rand ctx junk now sessid serial key inp =
     (let gzipped = ioport_create_buffer jn None 2048;
          res = ioport_create_buffer jn None 2048;
          (ok, res) = and_then (and_then (ioport_write res o6m1) (\<lambda>res. ioport_write_u32 res sessid))
            (\<lambda>res. ioport_write_u32 res serial)
      in if \<not> ok then Some None
         else
           let (ok, gzipped) = compress_data deflate inp gzipped in
           if \<not> ok then Some None
           else case ioport_encrypt fuel ub rand ctx junk key gzipped res now serial of
                  None \<Rightarrow> None | Some (_, res) \<Rightarrow> Some (Some res))"

definition auth_payload :: "authinfo \<Rightarrow> bytes \<Rightarrow> bufferstorage ioport \<Rightarrow> bool \<times> bufferstorage ioport" where
  "auth_payload auth pad payload =
     and_then (and_then (and_then (ioport_write_u32 payload (au_sessionid auth))
       (\<lambda>p. ioport_write_uuid p (au_hostid auth)))
       (\<lambda>p. ioport_write p (au_sessionkey auth)))
       (\<lambda>p. ioport_write p pad)"

definition ioport_wrap_authdata ::
  "(nat \<Rightarrow> u8) \<Rightarrow> nat \<Rightarrow> (nat \<Rightarrow> int) \<Rightarrow> (nat \<Rightarrow> u8) \<Rightarrow> aes256_context \<Rightarrow> bytes \<Rightarrow> bytes \<Rightarrow> time_t \<Rightarrow>
     authinfo \<Rightarrow> u32 \<Rightarrow> bufferstorage ioport option option" where
  "ioport_wrap_authdata jn fuel ub rand ctx junk pad now auth serial =
     (let payload = ioport_create_buffer jn None 2048;
          res = ioport_create_buffer jn None 2048;
          (ok, res) = and_then (and_then (ioport_write res o6a1) (\<lambda>res. ioport_write_uuid res (au_tenantid auth)))
            (\<lambda>res. ioport_write_u32 res serial)
      in if \<not> ok then Some None
         else
           let (ok, payload) = auth_payload auth pad payload in
           if \<not> ok then Some None
           else case ioport_encrypt fuel ub rand ctx junk (au_tenantkey auth) payload res now serial of
                  None \<Rightarrow> None | Some (_, res) \<Rightarrow> Some (Some res))"

subsection \<open>Unwrapping\<close>

datatype unwrap_error = UNWRAP_TYPE_ERROR | UNWRAP_KEYRESOLVE_ERROR | UNWRAP_DECRYPT_ERROR
  | UNWRAP_DECOMPRESS_ERROR | UNWRAP_READ_ERROR

text \<open>
  The result is the state after the resolver and either \<^verbatim>\<open>unwrap_errno\<close> or the unpacked
  port with the resolver's session. None is a decryption out of fuel; it gets as much as the
  length field needs.
\<close>

definition ioport_unwrap_meterdata ::
  "(bytes \<Rightarrow> bytes option) \<Rightarrow> (nat \<Rightarrow> u8) \<Rightarrow> aes256_context \<Rightarrow> bytes \<Rightarrow> nat \<Rightarrow> time_t \<Rightarrow> u32 \<Rightarrow> 'a ioport \<Rightarrow>
     (u32 \<Rightarrow> u32 \<Rightarrow> u32 \<Rightarrow> 's \<Rightarrow> ('s \<times> (aeskey \<times> 'c) option) res) \<Rightarrow> 's \<Rightarrow>
     ('s \<times> (unwrap_error + bufferstorage ioport \<times> 'c)) res option" where
  "ioport_unwrap_meterdata inflate jn ctx junk fuel now networkid inp resolve s =
     (case ioport_read inp 4 of
        (None, inp) \<Rightarrow> Some (Ok (s, Inl UNWRAP_READ_ERROR))
      | (Some packettype, inp) \<Rightarrow>
          if packettype \<noteq> o6m1 then Some (Ok (s, Inl UNWRAP_TYPE_ERROR))
          else
            let (sessid, inp) = ioport_read_u32 inp; (serial, inp) = ioport_read_u32 inp in
            (case resolve networkid sessid serial s of
               Fault e \<Rightarrow> Some (Fault e)
             | Ok (s, None) \<Rightarrow> Some (Ok (s, Inl UNWRAP_KEYRESOLVE_ERROR))
             | Ok (s, Some (k, c)) \<Rightarrow>
                 (case ioport_decrypt fuel ctx junk k inp (ioport_create_buffer jn None 2048) now serial of
                    None \<Rightarrow> None
                  | Some (Fault e) \<Rightarrow> Some (Fault e)
                  | Some (Ok (r, inp, decrypted)) \<Rightarrow>
                      if r \<noteq> Decrypted then Some (Ok (s, Inl UNWRAP_DECRYPT_ERROR))
                      else
                        let (ok, res) = decompress_data inflate decrypted (ioport_create_buffer jn None 2048) in
                        Some (Ok (s, if ok then Inr (res, c) else Inl UNWRAP_DECOMPRESS_ERROR)))))"

definition ioport_unwrap_authdata ::
  "(nat \<Rightarrow> u8) \<Rightarrow> aes256_context \<Rightarrow> bytes \<Rightarrow> nat \<Rightarrow> time_t \<Rightarrow> 'a ioport \<Rightarrow>
     (uuid \<Rightarrow> u32 \<Rightarrow> 's \<Rightarrow> ('s \<times> aeskey option) res) \<Rightarrow> 's \<Rightarrow> ('s \<times> authinfo option) res option" where
  "ioport_unwrap_authdata jn ctx junk fuel now inp resolve s =
     (case ioport_read inp 4 of
        (None, inp) \<Rightarrow> Some (Ok (s, None))
      | (Some packettype, inp) \<Rightarrow>
          if packettype \<noteq> o6a1 then Some (Ok (s, None))
          else
            let (tenantid, inp) = ioport_read_uuid inp; (serial, inp) = ioport_read_u32 inp in
            (case resolve tenantid serial s of
               Fault e \<Rightarrow> Some (Fault e)
             | Ok (s, None) \<Rightarrow> Some (Ok (s, None))
             | Ok (s, Some k) \<Rightarrow>
                 (case ioport_decrypt fuel ctx junk k inp (ioport_create_buffer jn None 2048) now serial of
                    None \<Rightarrow> None
                  | Some (Fault e) \<Rightarrow> Some (Fault e)
                  | Some (Ok (r, inp, decrypted)) \<Rightarrow>
                      if r \<noteq> Decrypted then Some (Ok (s, None))
                      else
                        let (sessionid, decrypted) = ioport_read_u32 decrypted;
                            (hostid, decrypted) = ioport_read_uuid decrypted
                        in Some (Ok (s, case ioport_read decrypted 32 of
                             (None, _) \<Rightarrow> None
                           | (Some sessionkey, _) \<Rightarrow> Some \<lparr>au_sessionid = sessionid, au_serial = serial, au_tenantid = tenantid,
                               au_hostid = hostid, au_sessionkey = sessionkey, au_tenantkey = k\<rparr>)))))"

end
