(* ===== verification/Collector.thy ===== *)
theory Collector
  imports Tenant Pktwrap CodecPkt Watcher
begin

text \<open>
  The packet handlers of \<^verbatim>\<open>opticon-collector/main.c\<close>: \<^verbatim>\<open>resolve_sessionkey\<close>,
  \<^verbatim>\<open>handle_auth_packet\<close> and \<^verbatim>\<open>handle_meter_packet\<close>, on the world of tenants, hosts and
  sessions. What they load from the database into a host (its metadata and, when it has no
  meters, its last record) are the functions \<open>meta\<close> and \<open>current\<close>. A host pointer that no longer
  points to a host is a fault.
\<close>

definition get_host :: "world \<Rightarrow> nat \<Rightarrow> host res" where
  "get_host w a = (case w_heap w a of None \<Rightarrow> Fault UseAfterFree | Some h \<Rightarrow> Ok h)"

definition put_host :: "nat \<Rightarrow> host \<Rightarrow> world \<Rightarrow> world" where
  "put_host a h w = w\<lparr>w_heap := (w_heap w)(a \<mapsto> h)\<rparr>"

subsection \<open>Sessions of meter packets\<close>

text \<open>Serials at most the last one are old, unless the counter has just wrapped around.\<close>

definition serial_old :: "u32 \<Rightarrow> u32 \<Rightarrow> bool" where
  "serial_old lastserial serial \<longleftrightarrow> lastserial \<ge> serial \<and> (lastserial < 0xfffffff8 \<or> serial > 8)"

text \<open>The serial is noted in the host before anything of the packet has been authenticated.\<close>

definition resolve_sessionkey :: "u32 \<Rightarrow> u32 \<Rightarrow> u32 \<Rightarrow> world \<Rightarrow> (world \<times> (aeskey \<times> session_ref) option) res" where
  "resolve_sessionkey netid sid serial w =
     (case session_find (w_sessions w) netid sid of
        None \<Rightarrow> Ok (w, None)
      | Some r \<Rightarrow>
          let S = session_at (w_sessions w) r in
          if serial_old (s_lastserial S) serial then Ok (w, None)
          else rbind (get_host w (s_host S)) (\<lambda>h.
            if serial_old (h_lastserial h) serial then Ok (w, None)
            else Ok (put_host (s_host S) (h\<lparr>h_lastserial := serial\<rparr>) w, Some (s_key S, r))))"

subsection \<open>Authentication packets\<close>

definition touch_host :: "(sockaddr \<Rightarrow> string) \<Rightarrow> time_t \<Rightarrow> session_ref \<Rightarrow> world \<Rightarrow> world res" where
  "touch_host ip2str now r w =
     (let S = session_at (w_sessions w) r in
      rbind (get_host w (s_host S)) (\<lambda>h.
        let (h, k) = host_get_meter (h\<lparr>h_lastmodified := now\<rparr>) mid_ip in
        rbind (host_on h k (\<lambda>m. meter_setcount (h_lastmodified h) m 0)) (\<lambda>h.
        rbind (host_on h k (\<lambda>m. meter_set_str (h_lastmodified h) m 0 (ip2str (s_remote S)))) (\<lambda>h.
          Ok (put_host (s_host S) h w)))))"

definition expire_old :: "time_t \<Rightarrow> world \<Rightarrow> world" where
  "expire_old now w = w\<lparr>w_sessions := session_expire (now - 905) (w_sessions w)\<rparr>"

text \<open>
  A session that exists is renewed when the serial grows; nothing compares its tenant and
  host with those of the packet.
\<close>

definition accept_auth ::
  "bytes \<Rightarrow> (sockaddr \<Rightarrow> string) \<Rightarrow> time_t \<Rightarrow> u32 \<Rightarrow> sockaddr \<Rightarrow> authinfo \<Rightarrow> world \<Rightarrow> world res option" where
  "accept_auth junk ip2str now netid remote auth w =
     (if \<not> uuidvalid (au_hostid auth) then Some (Ok w)
      else
        (case session_find (w_sessions w) netid (au_sessionid auth) of
           Some r \<Rightarrow>
             if s_lastserial (session_at (w_sessions w) r) < au_serial auth then
               let w = w\<lparr>w_sessions := session_update r
                   (\<lambda>S. S\<lparr>s_key := au_sessionkey auth, s_lastcycle := now, s_lastserial := au_serial auth\<rparr>) (w_sessions w)\<rparr>
               in Some (rbind (touch_host ip2str now r w) (\<lambda>w. Ok (expire_old now w)))
             else Some (Ok w)
         | None \<Rightarrow>
             (case host_find (au_tenantid auth) (au_hostid auth) w of
                None \<Rightarrow> None
              | Some (Fault e) \<Rightarrow> Some (Fault e)
              | Some (Ok (w, a)) \<Rightarrow>
                  let (db, ro) = session_register junk now (Some a) (au_tenantid auth) (au_hostid auth) netid
                        (au_sessionid auth) (au_sessionkey auth) remote (w_sessions w);
                      w = w\<lparr>w_sessions := db\<rparr>
                  in (case ro of
                        None \<Rightarrow> Some (Ok (expire_old now w))
                      | Some r \<Rightarrow> Some (rbind (touch_host ip2str now r w) (\<lambda>w. Ok (expire_old now w)))))))"

definition handle_auth_packet ::
  "(nat \<Rightarrow> u8) \<Rightarrow> aes256_context \<Rightarrow> bytes \<Rightarrow> nat \<Rightarrow> bytes \<Rightarrow> (sockaddr \<Rightarrow> string) \<Rightarrow> time_t \<Rightarrow>
     (uuid \<Rightarrow> u32 \<Rightarrow> world \<Rightarrow> (world \<times> aeskey option) res) \<Rightarrow> 'a ioport \<Rightarrow> u32 \<Rightarrow> sockaddr \<Rightarrow> world \<Rightarrow> world res option" where
  "handle_auth_packet jn ctx junk2 fuel junk ip2str now resolve_tenantkey pktbuf netid remote w =
     (case ioport_unwrap_authdata jn ctx junk2 fuel now pktbuf resolve_tenantkey w of
        None \<Rightarrow> None
      | Some (Fault e) \<Rightarrow> Some (Fault e)
      | Some (Ok (w, None)) \<Rightarrow> Some (Ok w)
      | Some (Ok (w, Some auth)) \<Rightarrow> accept_auth junk ip2str now netid remote auth w)"

subsection \<open>Meter packets\<close>

definition update_host ::
  "nat \<Rightarrow> (nat \<Rightarrow> int) \<Rightarrow> string \<Rightarrow> time_t \<Rightarrow> (host \<Rightarrow> host) \<Rightarrow> (host \<Rightarrow> host) \<Rightarrow> bufferstorage ioport \<Rightarrow> host \<Rightarrow> host res option" where
  "update_host fuel ub sjunk now meta current unwrap H =
     (let H = (if now - h_lastmetasync H > 300 then (meta H)\<lparr>h_lastmetasync := now\<rparr> else H);
          H = host_begin_update H now;
          H = (if h_mcount H = 0 then current H else H)
      in case pktcodec_decode_host ub fuel sjunk unwrap H of
           None \<Rightarrow> None
         | Some (Fault e) \<Rightarrow> Some (Fault e)
         | Some (Ok (ok, d)) \<Rightarrow>
             let (H, _) = host_get_meter (d_host d) mid_rtt; (H, _) = host_get_meter H mid_loss in
             Some (host_end_update H))"

definition handle_meter_packet ::
  "(bytes \<Rightarrow> bytes option) \<Rightarrow> (nat \<Rightarrow> u8) \<Rightarrow> aes256_context \<Rightarrow> bytes \<Rightarrow> nat \<Rightarrow> nat \<Rightarrow> (nat \<Rightarrow> int) \<Rightarrow> string \<Rightarrow> time_t \<Rightarrow>
     (host \<Rightarrow> host) \<Rightarrow> (host \<Rightarrow> host) \<Rightarrow> 'a ioport \<Rightarrow> u32 \<Rightarrow> world \<Rightarrow> world res option" where
  "handle_meter_packet inflate jn ctx junk fuel1 fuel2 ub sjunk now meta current pktbuf netid w =
     (case ioport_unwrap_meterdata inflate jn ctx junk fuel1 now netid pktbuf resolve_sessionkey w of
        None \<Rightarrow> None
      | Some (Fault e) \<Rightarrow> Some (Fault e)
      | Some (Ok (w, Inl err)) \<Rightarrow> Some (Ok w)
      | Some (Ok (w, Inr (unwrap, r))) \<Rightarrow>
          let a = s_host (session_at (w_sessions w) r) in
          (case get_host w a of
             Fault e \<Rightarrow> Some (Fault e)
           | Ok H \<Rightarrow>
               (case update_host fuel2 ub sjunk now meta current unwrap H of
                  None \<Rightarrow> None
                | Some (Fault e) \<Rightarrow> Some (Fault e)
                | Some (Ok H) \<Rightarrow> Some (Ok (put_host a H w)))))"

end
