(* ===== verification/PktProps.thy ===== *)
theory PktProps
  imports Pktwrap
begin

text \<open>The envelopes of packets: what is wrapped is what is unwrapped, and what else is.\<close>

subsection \<open>Memory ports\<close>

text \<open>A write keeps the methods of the port as they are.\<close>

lemma mem_write:
  assumes "bw.emits 0 io d r" "mem_port io bs"
  obtains io' where "r = (True, io')" "mem_port io' (bs @ d)" "read_avail io' = read_avail io"
  using assms by (auto simp: mem_port_def bw.emits_def)

lemma mem_ready: "mem_port io bs \<Longrightarrow> length bs + n < 2 ^ 32 \<Longrightarrow> bw.ready 0 io \<and> bw.fits io n"
  using mem_port_ready mem_port_fits by blast

lemma gives_decint0:
  assumes "br.source io" "buf_rest (storage io) = 0 # t" "0 < fuel"
  shows "\<exists>io'. ioport_read_encint fuel io = Some (0, io') \<and> br.source io' \<and> buf_rest (storage io') = t"
proof -
  obtain f where f: "fuel = Suc f" using assms(3) by (cases fuel) auto
  obtain io' where r: "ioport_read_byte io = (0, io')" "br.source io'" "buf_rest (storage io') = t"
    using br.givesE[OF br.gives_byte[OF assms(1,2)] assms(1)] by blast
  then show ?thesis by (auto simp: f ioport_read_encint_def)
qed

text \<open>The block of a fresh owned port that was never written reads as what \<^verbatim>\<open>malloc\<close> left there.\<close>

lemma fresh_reads_junk:
  "br.source (ioport_create_buffer jn None 2048)"
  "buf_rest (storage (ioport_create_buffer jn None 2048)) = map jn [0 ..< 2048]"
  by (simp_all add: br.source_def ioport_create_buffer_def buf_in_def buf_ok_def buf_rest_def)

lemma packet_source:
  assumes "length bs < 2 ^ 32"
  shows "br.source (ioport_create_buffer j (Some bs) (length bs))"
    "buf_rest (storage (ioport_create_buffer j (Some bs) (length bs))) = bs"
  using assms by (simp_all add: br.source_def ioport_create_buffer_def buf_in_def buf_ok_def buf_rest_def)

lemma length_o6 [simp]: "length o6m1 = 4" "length o6a1 = 4" "o6a1 \<noteq> []" "o6m1 \<noteq> []"
  by (simp_all add: o6m1_def o6a1_def str_bytes_def)

subsection \<open>Reading an envelope\<close>

lemma read_auth_header:
  assumes "br.source io" "buf_rest (storage io) = o6a1 @ enc_uuid t @ enc_u32 serial @ rest"
  shows "\<exists>i1 i2 i3. ioport_read io 4 = (Some o6a1, i1) \<and> ioport_read_uuid i1 = (t, i2) \<and>
    ioport_read_u32 i2 = (serial, i3) \<and> br.source i3 \<and> buf_rest (storage i3) = rest"
proof -
  obtain i1 where i1: "ioport_read io 4 = (Some o6a1, i1)" "br.source i1" "buf_rest (storage i1) = enc_uuid t @ enc_u32 serial @ rest"
    using br.givesE[OF br.gives_read[OF assms _ , of 4] assms(1)] by auto
  obtain i2 where i2: "ioport_read_uuid i1 = (t, i2)" "br.source i2" "buf_rest (storage i2) = enc_u32 serial @ rest"
    using br.givesE[OF br.gives_uuid[OF i1(2,3)] i1(2)] by blast
  obtain i3 where "ioport_read_u32 i2 = (serial, i3)" "br.source i3" "buf_rest (storage i3) = rest"
    using br.givesE[OF br.gives_u32[OF i2(2,3)] i2(2)] by blast
  then show ?thesis using i1(1) i2(1) by blast
qed

lemma read_payload:
  assumes "br.source io" "buf_rest (storage io) = enc_u32 sid @ enc_uuid h @ key @ rest" "length key = 32"
  shows "\<exists>i1 i2 i3. ioport_read_u32 io = (sid, i1) \<and> ioport_read_uuid i1 = (h, i2) \<and> ioport_read i2 32 = (Some key, i3)"
proof -
  obtain i1 where i1: "ioport_read_u32 io = (sid, i1)" "br.source i1" "buf_rest (storage i1) = enc_uuid h @ key @ rest"
    using br.givesE[OF br.gives_u32[OF assms(1,2)] assms(1)] by blast
  obtain i2 where i2: "ioport_read_uuid i1 = (h, i2)" "br.source i2" "buf_rest (storage i2) = key @ rest"
    using br.givesE[OF br.gives_uuid[OF i1(2,3)] i1(2)] by blast
  have k: "key \<noteq> []" using assms(3) by auto
  obtain i3 where "ioport_read i2 32 = (Some key, i3)"
    using br.givesE[OF br.gives_read[OF i2(2,3) k, of 32] i2(2)] assms(3) by auto
  then show ?thesis using i1(1) i2(1) by blast
qed

lemma upt_split: "i \<le> j \<Longrightarrow> j \<le> k \<Longrightarrow> [i..<k] = [i..<j] @ [j..<k]"
  using upt_add_eq_append[of i j "k - j"] by simp

text \<open>What the readers make of any bytes.\<close>

lemma read_u32_any:
  assumes "br.source io" "buf_rest (storage io) = b @ t" "length b = 4"
  shows "\<exists>io'. ioport_read_u32 io = (be32 b, io') \<and> br.source io' \<and> buf_rest (storage io') = t"
proof -
  let ?io = "io\<lparr>bitpos := 0, bitbuffer := 0\<rparr>"
  have "br.source ?io" "buf_rest (storage ?io) = b @ t" "b \<noteq> []" using assms by (auto simp: br.source_def)
  from br.givesE[OF br.gives_read[OF this, of 4] this(1)] assms(3) obtain io' where
    "ioport_read ?io 4 = (Some b, io')" "br.source io'" "buf_rest (storage io') = t" by auto
  then show ?thesis by (auto simp: ioport_read_u32_def)
qed

lemma read_uuid_any:
  assumes "br.source io" "buf_rest (storage io) = b @ t" "length b = 16"
  shows "\<exists>io'. ioport_read_uuid io = (\<lparr>msb = be64 b, lsb = be64 (drop 8 b)\<rparr>, io') \<and> br.source io' \<and> buf_rest (storage io') = t"
proof -
  have "b \<noteq> []" using assms(3) by auto
  from br.givesE[OF br.gives_read[OF assms(1,2) this, of 16] assms(1)] assms(3) obtain io' where
    "ioport_read io 16 = (Some b, io')" "br.source io'" "buf_rest (storage io') = t" by auto
  then show ?thesis by (auto simp: ioport_read_uuid_def)
qed

text \<open>
  C15: Anyone can authenticate as any host of any tenant the collector knows, without a key: an
  authentication packet whose encrypted part has length 0 passes decryption, and the session
  id, host and session key are then read from the never written block of the receiving port,
  that is from whatever the heap held there.
\<close>

theorem forged_auth_accepted:
  assumes "resolve tenantid serial s = Ok (s', Some k)"
  defines "pkt \<equiv> o6a1 @ enc_uuid tenantid @ enc_u32 serial @ [0]"
  shows "ioport_unwrap_authdata jn ctx junk 1 now (ioport_create_buffer j (Some pkt) (length pkt)) resolve s =
    Some (Ok (s', Some \<lparr>au_sessionid = be32 (map jn [0..<4]), au_serial = serial, au_tenantid = tenantid,
      au_hostid = \<lparr>msb = be64 (map jn [4..<20]), lsb = be64 (drop 8 (map jn [4..<20]))\<rparr>,
      au_sessionkey = map jn [20..<52], au_tenantkey = k\<rparr>))"
proof -
  let ?io = "ioport_create_buffer j (Some pkt) (length pkt)" and ?f = "ioport_create_buffer jn None 2048"
  have "length pkt = 25" by (simp add: pkt_def)
  then have src: "br.source ?io" "buf_rest (storage ?io) = o6a1 @ enc_uuid tenantid @ enc_u32 serial @ [0]"
    using packet_source[of pkt j] by (simp_all add: pkt_def)
  obtain i1 i2 i3 where h: "ioport_read ?io 4 = (Some o6a1, i1)" "ioport_read_uuid i1 = (tenantid, i2)"
      "ioport_read_u32 i2 = (serial, i3)" "br.source i3" "buf_rest (storage i3) = [0]"
    using read_auth_header[OF src] by blast
  obtain i4 where i4: "ioport_read_encint 1 i3 = Some (0, i4)" using gives_decint0[OF h(4,5), of 1] by auto
  have dec: "ioport_decrypt 1 ctx junk k i3 ?f now serial = Some (Ok (Decrypted, i4, ?f))"
    using i4 by (simp add: ioport_decrypt_def)
  define a b c where abc: "a = map jn [0..<4]" "b = map jn [4..<20]" "c = map jn [20..<52]"
  have l: "length a = 4" "length b = 16" "length c = 32" by (simp_all add: abc del: upt_Suc)
  have u: "[0..<2048] = [0..<4] @ [4..<2048]" "[4..<2048] = [4..<20] @ [20..<2048]" "[20..<2048] = [20..<52] @ [52..<2048 :: nat]"
    by (rule upt_split; simp only: numeral_le_iff semiring_norm zero_le)+
  obtain d where m: "map jn [0..<2048] = a @ b @ c @ d" unfolding u map_append abc[symmetric] by blast
  obtain o1 where o1: "ioport_read_u32 ?f = (be32 a, o1)" "br.source o1" "buf_rest (storage o1) = b @ c @ d"
    using read_u32_any[OF fresh_reads_junk(1)[of jn] fresh_reads_junk(2)[of jn, unfolded m] l(1)] by blast
  obtain o2 where o2: "ioport_read_uuid o1 = (\<lparr>msb = be64 b, lsb = be64 (drop 8 b)\<rparr>, o2)" "br.source o2"
      "buf_rest (storage o2) = c @ d"
    using read_uuid_any[OF o1(2,3) l(2)] by blast
  have "c \<noteq> []" "32 = length c" using l(3) by auto
  then obtain o3 where "ioport_read o2 32 = (Some c, o3)" using br.givesE[OF br.gives_read[OF o2(2,3)] o2(2)] by metis
  then show ?thesis unfolding abc[symmetric] using h(1-3) dec o1(1) o2(1) assms(1) by (simp add: ioport_unwrap_authdata_def)
qed

theorem forged_auth_accepted_witness:
  "\<exists>auth. ioport_unwrap_authdata (\<lambda>i. of_nat i) zero_context [] 1 1000
     (ioport_create_buffer (\<lambda>_. 0) (Some (o6a1 @ enc_uuid \<lparr>msb = 1, lsb = 2\<rparr> @ enc_u32 9 @ [0])) 25)
     (\<lambda>t n s. Ok (s, if t = \<lparr>msb = 1, lsb = 2\<rparr> then Some (replicate 32 5) else None)) () = Some (Ok ((), Some auth)) \<and>
     au_tenantid auth = \<lparr>msb = 1, lsb = 2\<rparr> \<and> length (au_sessionkey auth) = 32"
proof -
  have l: "length (o6a1 @ enc_uuid \<lparr>msb = 1, lsb = 2\<rparr> @ enc_u32 9 @ [0]) = 25" by simp
  show ?thesis
    using forged_auth_accepted[where resolve = "\<lambda>t n s. Ok (s, if t = \<lparr>msb = 1, lsb = 2\<rparr> then Some (replicate 32 5) else None)"
        and tenantid = "\<lparr>msb = 1, lsb = 2\<rparr>" and serial = 9 and s = "()" and s' = "()" and k = "replicate 32 5"
        and jn = "\<lambda>i. of_nat i" and ctx = zero_context and junk = "[]" and now = 1000 and j = "\<lambda>_. 0"]
    unfolding l by simp
qed

subsection \<open>Round trips\<close>

lemma write_auth_header:
  "\<exists>io. and_then (and_then (ioport_write (ioport_create_buffer jn None 2048) o6a1) (\<lambda>r. ioport_write_uuid r t))
      (\<lambda>r. ioport_write_u32 r serial) = (True, io) \<and> mem_port io (o6a1 @ enc_uuid t @ enc_u32 serial)"
proof -
  let ?io = "ioport_create_buffer jn None 2048"
  have m: "mem_port ?io []" by (rule mem_port_fresh) simp
  have "bw.emits 0 ?io ((o6a1 @ enc_uuid t) @ enc_u32 serial)
      (and_then (and_then (ioport_write ?io o6a1) (\<lambda>r. ioport_write_uuid r t)) (\<lambda>r. ioport_write_u32 r serial))"
    using mem_ready[OF m, of 100]
    by (intro bw.emits_then bw.emits_write bw.emits_uuid bw.emits_u32) (auto simp: bw.fits_def)
  from mem_write[OF this m] show ?thesis by auto
qed

lemma write_payload:
  assumes "length (au_sessionkey auth) = 32" "length pad = 64"
  shows "\<exists>io. auth_payload auth pad (ioport_create_buffer jn None 2048) = (True, io) \<and> read_avail io = buffer_read_available \<and>
    mem_port io (enc_u32 (au_sessionid auth) @ enc_uuid (au_hostid auth) @ au_sessionkey auth @ pad)"
proof -
  let ?io = "ioport_create_buffer jn None 2048"
  have m: "mem_port ?io []" by (rule mem_port_fresh) simp
  have ne: "au_sessionkey auth \<noteq> []" "pad \<noteq> []" using assms by auto
  have "bw.emits 0 ?io (((enc_u32 (au_sessionid auth) @ enc_uuid (au_hostid auth)) @ au_sessionkey auth) @ pad) (auth_payload auth pad ?io)"
    using mem_ready[OF m, of 200] assms ne unfolding auth_payload_def
    by (intro bw.emits_then bw.emits_write bw.emits_uuid bw.emits_u32) (auto simp: bw.fits_def)
  from mem_write[OF this m] show ?thesis by (auto simp: ioport_create_buffer_def)
qed

text \<open>
  C16: An authentication packet made by the agent is unpacked by the collector to the same
  session id, tenant, host and session key, with the serial of the packet, when the collector
  has the tenant's key and its clock is within 180 seconds of the agent's.
\<close>

theorem auth_packet_roundtrip:
  assumes "length (au_sessionkey auth) = 32" "length (au_tenantkey auth) = 32" "length pad = 64" "length junk = 8"
    "ts_diff (u32_of_time ts) (u32_of_time now) \<le> 180" "116 < fuel"
    "resolve (au_tenantid auth) serial s = Ok (s', Some (au_tenantkey auth))"
  shows "\<exists>pkt. ioport_wrap_authdata jn fuel ub rand ctx junk pad ts auth serial = Some (Some pkt) \<and>
    ioport_unwrap_authdata jn2 ctx2 junk2 4 now pkt resolve s = Some (Ok (s', Some (auth\<lparr>au_serial := serial\<rparr>)))"
proof -
  let ?k = "au_tenantkey auth"
  obtain r1 where r1: "and_then (and_then (ioport_write (ioport_create_buffer jn None 2048) o6a1)
      (\<lambda>r. ioport_write_uuid r (au_tenantid auth))) (\<lambda>r. ioport_write_u32 r serial) = (True, r1)"
      "mem_port r1 (o6a1 @ enc_uuid (au_tenantid auth) @ enc_u32 serial)"
    using write_auth_header by blast
  define data where "data = enc_u32 (au_sessionid auth) @ enc_uuid (au_hostid auth) @ au_sessionkey auth @ pad"
  have len: "length data = 116" using assms(1,3) by (simp add: data_def)
  then have ne: "data \<noteq> []" by auto
  obtain p1 where p1: "auth_payload auth pad (ioport_create_buffer jn None 2048) = (True, p1)" "read_avail p1 = buffer_read_available"
      "mem_port p1 data"
    using write_payload[OF assms(1,3), of jn] unfolding data_def by blast
  have f1: "bw.ready 0 r1" "bw.fits r1 (length data + 40)" using mem_ready[OF r1(2), of 200] len by (auto simp: bw.fits_def)
  obtain bs i c where e: "ioport_encrypt fuel ub rand ctx junk ?k p1 r1 ts serial = Some (i, c)" "blocks_of (drop 8 data) bs"
      "bw.emits 0 r1 (enc_int (of_nat (length data)) @ E ?k (crypt_header (u32_of_time ts) serial @ take 8 data) @ concat (map (E ?k) bs)) (True, c)"
    using crypt.encrypt_ok[OF mem_port_sized[OF p1(3) ne p1(2)] f1(1) mem_port_source(2)[OF p1(3) ne] _ _ f1(2) assms(2,4), of fuel ub rand ctx ts serial]
      len assms(6) by auto
  have w: "ioport_wrap_authdata jn fuel ub rand ctx junk pad ts auth serial = Some (Some c)"
    using r1(1) p1(1) e(1) by (simp add: ioport_wrap_authdata_def)
  have cm: "mem_port c ((o6a1 @ enc_uuid (au_tenantid auth) @ enc_u32 serial) @ enc_int (of_nat (length data)) @
      E ?k (crypt_header (u32_of_time ts) serial @ take 8 data) @ concat (map (E ?k) bs))"
    using mem_write[OF e(3) r1(2)] by auto
  have cne: "(o6a1 @ enc_uuid (au_tenantid auth) @ enc_u32 serial) @ enc_int (of_nat (length data)) @
      E ?k (crypt_header (u32_of_time ts) serial @ take 8 data) @ concat (map (E ?k) bs) \<noteq> []" by simp
  obtain i1 i2 i3 where h: "ioport_read c 4 = (Some o6a1, i1)" "ioport_read_uuid i1 = (au_tenantid auth, i2)"
      "ioport_read_u32 i2 = (serial, i3)" "br.source i3" "buf_rest (storage i3) = enc_int (of_nat (length data)) @
      E ?k (crypt_header (u32_of_time ts) serial @ take 8 data) @ concat (map (E ?k) bs) @ []"
    using read_auth_header[OF mem_port_source(1)[OF cm cne]] mem_port_source(2)[OF cm cne] by fastforce
  let ?f = "ioport_create_buffer jn2 None 2048"
  have m: "mem_port ?f []" by (rule mem_port_fresh) simp
  have f2: "bw.ready 0 ?f" "bw.fits ?f (length data)" using mem_ready[OF m, of 200] len by (auto simp: bw.fits_def)
  obtain i4 out where d: "ioport_decrypt 4 ctx2 junk2 ?k i3 ?f now serial = Some (Ok (Decrypted, i4, out))" "bw.emits 0 ?f data (True, out)"
    using crypt.decrypt_ok[OF h(4) f2 assms(2) _ _ _ h(5) e(2) assms(5), of 4 ctx2 junk2] len by auto
  have om: "mem_port out data" using mem_write[OF d(2) m] by auto
  obtain o1 o2 o3 where "ioport_read_u32 out = (au_sessionid auth, o1)" "ioport_read_uuid o1 = (au_hostid auth, o2)"
      "ioport_read o2 32 = (Some (au_sessionkey auth), o3)"
    using read_payload[OF mem_port_source(1)[OF om ne], of "au_sessionid auth" "au_hostid auth" "au_sessionkey auth" pad]
      mem_port_source(2)[OF om ne] assms(1) data_def by auto
  then have "ioport_unwrap_authdata jn2 ctx2 junk2 4 now c resolve s = Some (Ok (s', Some (auth\<lparr>au_serial := serial\<rparr>)))"
    using h(1-3) d(1) assms(7) by (simp add: ioport_unwrap_authdata_def)
  then show ?thesis using w by blast
qed

definition demo_auth :: authinfo where
  "demo_auth = \<lparr>au_sessionid = 7, au_serial = 0, au_tenantid = \<lparr>msb = 1, lsb = 2\<rparr>, au_hostid = \<lparr>msb = 3, lsb = 4\<rparr>,
     au_sessionkey = replicate 32 8, au_tenantkey = replicate 32 5\<rparr>"

theorem auth_packet_roundtrip_witness:
  "\<exists>pkt. ioport_wrap_authdata (\<lambda>_. 0) 200 (\<lambda>_. 0) (\<lambda>_. 1) zero_context (replicate 8 0) (replicate 64 1) 1000 demo_auth 77 = Some (Some pkt) \<and>
    ioport_unwrap_authdata (\<lambda>_. 0) zero_context [] 4 1100 pkt (\<lambda>t n s. Ok (s, Some (replicate 32 5))) () =
      Some (Ok ((), Some (demo_auth\<lparr>au_serial := 77\<rparr>)))"
  by (rule auth_packet_roundtrip) (simp_all add: demo_auth_def ts_diff_def u32_of_time_def)

end
