(* ===== verification/CollectorProps.thy ===== *)
theory CollectorProps
  imports Collector WatcherProps PktProps
begin

text \<open>
  The collector over time: the invariant that every live session points to a host that is
  there, the packets that keep it, and what breaks it; the replay window; who can take a
  session over.
\<close>

subsection \<open>The invariant\<close>

definition session_has_host :: "tenant list \<Rightarrow> session \<Rightarrow> bool" where
  "session_has_host ts s \<longleftrightarrow> (\<exists>t\<in>set ts. t_uuid t = s_tenantid s \<and> s_host s \<in> set (t_hosts t))"

definition hosts_apart :: "tenant list \<Rightarrow> bool" where
  "hosts_apart ts \<longleftrightarrow> (\<forall>i<length ts. \<forall>j<length ts. i \<noteq> j \<longrightarrow> set (t_hosts (ts ! i)) \<inter> set (t_hosts (ts ! j)) = {})"

definition world_ok :: "world \<Rightarrow> bool" where
  "world_ok w \<longleftrightarrow> sessiondb_ok (w_sessions w) \<and>
     (\<forall>t\<in>set (w_tenants w). t_lock t = Unlocked \<and> (\<forall>a\<in>set (t_hosts t). \<exists>h. w_heap w a = Some h)) \<and>
     hosts_apart (w_tenants w) \<and> distinct (map t_uuid (w_tenants w)) \<and>
     (\<forall>a \<ge> w_next w. w_heap w a = None) \<and>
     (\<forall>s\<in>set (concat (w_sessions w)). session_live s \<longrightarrow> session_has_host (w_tenants w) s)"

lemma world_init_ok: "world_ok world_init"
  using sessiondb_init_ok by (auto simp: world_ok_def world_init_def sessiondb_init_def hosts_apart_def)

lemma world_okD:
  assumes "world_ok w"
  shows "sessiondb_ok (w_sessions w)" "t \<in> set (w_tenants w) \<Longrightarrow> t_lock t = Unlocked"
    "t \<in> set (w_tenants w) \<Longrightarrow> a \<in> set (t_hosts t) \<Longrightarrow> \<exists>h. w_heap w a = Some h"
    "hosts_apart (w_tenants w)" "distinct (map t_uuid (w_tenants w))" "w_next w \<le> a \<Longrightarrow> w_heap w a = None"
    "s \<in> set (concat (w_sessions w)) \<Longrightarrow> session_live s \<Longrightarrow> session_has_host (w_tenants w) s"
  using assms unfolding world_ok_def by blast+

text \<open>A session found is a live session of the database, and its host is there.\<close>

lemma found_session:
  assumes "sessiondb_ok db" "session_find db netid sid = Some r"
  shows "session_at db r \<in> set (concat db)" "session_live (session_at db r)" "session_key (session_at db r) = (netid, sid)"
    "fst r = session_bucket netid sid" "snd r < length (db ! fst r)"
proof -
  have "session_look db (netid, sid) = Some (session_at db r)" using assms(2) by (simp add: session_look_def)
  then show "session_at db r \<in> set (concat db)" "session_live (session_at db r)" "session_key (session_at db r) = (netid, sid)"
    using look_concat[OF assms(1)] by blast+
  show "fst r = session_bucket netid sid" "snd r < length (db ! fst r)"
    using assms(2) by (auto simp: session_find_def Let_def find_index_Some)
qed

lemma session_host_there:
  assumes "world_ok w" "s \<in> set (concat (w_sessions w))" "session_live s"
  shows "\<exists>h. w_heap w (s_host s) = Some h"
  using world_okD(7)[OF assms] world_okD(3)[OF assms(1)] unfolding session_has_host_def by blast

text \<open>Replacing a host.\<close>

lemma put_host_ok:
  assumes "world_ok w" "w_heap w a = Some h"
  shows "world_ok (put_host a h' w)"
  using assms unfolding world_ok_def put_host_def by auto

text \<open>Changing the sessions to ones whose live ones have hosts.\<close>

lemma sessions_ok:
  assumes "world_ok w" "sessiondb_ok db"
    "\<And>s. s \<in> set (concat db) \<Longrightarrow> session_live s \<Longrightarrow> session_has_host (w_tenants w) s"
  shows "world_ok (w\<lparr>w_sessions := db\<rparr>)"
  using assms unfolding world_ok_def by simp

lemma session_drop_set: "s \<in> set (concat (session_drop q db)) \<Longrightarrow> session_live s \<Longrightarrow> s \<in> set (concat db) \<and> \<not> session_dead q s"
  by (cases q) (auto simp: sessiondb_remove_tenant_def session_expire_def expire_loop_filter split: if_splits)

lemma drop_ok:
  assumes "world_ok w"
  shows "world_ok (w\<lparr>w_sessions := session_drop q (w_sessions w)\<rparr>)"
proof (rule sessions_ok[OF assms])
  show "sessiondb_ok (session_drop q (w_sessions w))" using session_drop_law world_okD(1)[OF assms] by blast
  fix s assume "s \<in> set (concat (session_drop q (w_sessions w)))" "session_live s"
  then show "session_has_host (w_tenants w) s" using session_drop_set world_okD(7)[OF assms] by blast
qed

lemma expire_ok: "world_ok w \<Longrightarrow> world_ok (expire_old now w)"
  unfolding expire_old_def using drop_ok[of w "OlderThan (now - 905)"] by simp

subsection \<open>Hosts\<close>

lemma tenant_unlocked: "t_lock t = Unlocked \<Longrightarrow> t\<lparr>t_lock := Unlocked\<rparr> = t"
  by (cases t) simp

lemma host_search_ok:
  assumes "\<And>a. a \<in> set as \<Longrightarrow> \<exists>h. heap a = Some h"
  shows "host_search heap u as = Ok None \<or> (\<exists>a\<in>set as. host_search heap u as = Ok (Some a))"
  using assms
proof (induction as)
  case (Cons a as)
  obtain h where h: "heap a = Some h" using Cons.prems[of a] by auto
  have IH: "host_search heap u as = Ok None \<or> (\<exists>a\<in>set as. host_search heap u as = Ok (Some a))"
    using Cons by simp
  show ?case
  proof (cases "uuidcmp (h_uuid h) u")
    case True
    then show ?thesis using h by simp
  next
    case False
    then have "host_search heap u (a # as) = host_search heap u as" using h by simp
    then show ?thesis using IH by auto
  qed
qed simp

lemma hosts_apart_append: "hosts_apart ts \<Longrightarrow> t_hosts t = [] \<Longrightarrow> hosts_apart (ts @ [t])"
  unfolding hosts_apart_def by (auto simp: nth_append less_Suc_eq)

lemma hosts_apart_update:
  assumes "hosts_apart ts" "k < length ts" "set (t_hosts t) \<subseteq> insert a (set (t_hosts (ts ! k)))"
    "\<And>x. x \<in> set ts \<Longrightarrow> a \<notin> set (t_hosts x)"
  shows "hosts_apart (ts[k := t])"
proof -
  have "set (t_hosts (ts[k := t] ! i)) \<inter> set (t_hosts (ts[k := t] ! j)) = {}"
    if "i < length ts" "j < length ts" "i \<noteq> j" for i j
  proof -
    have ij: "set (t_hosts (ts ! i)) \<inter> set (t_hosts (ts ! j)) = {}" using assms(1) that unfolding hosts_apart_def by blast
    have "a \<notin> set (t_hosts (ts ! i))" "a \<notin> set (t_hosts (ts ! j))" using assms(4) that by auto
    then show ?thesis using ij assms(3) that by (cases "i = k"; cases "j = k") auto
  qed
  then show ?thesis unfolding hosts_apart_def by simp
qed

lemma tenant_get_ok:
  assumes "world_ok w" "tenant_get (w_tenants w) t = (ts, k)"
  shows "world_ok (w\<lparr>w_tenants := ts\<rparr>)"
proof -
  have "ts = w_tenants w \<or> ts = w_tenants w @ [tenant_new t]"
    using assms(2) unfolding tenant_get_def by (auto split: option.splits)
  moreover have "distinct (map t_uuid ts)" by (rule tl.get_distinct[OF world_okD(5)[OF assms(1)] assms(2)])
  ultimately show ?thesis
    using assms(1) hosts_apart_append[of "w_tenants w" "tenant_new t"]
    unfolding world_ok_def session_has_host_def by (auto simp: tenant_new_def)
qed

text \<open>A tenant gets a new host.\<close>

lemma new_host_ok:
  assumes "world_ok w" "k < length (w_tenants w)"
  defines "t \<equiv> w_tenants w ! k" and "a \<equiv> w_next w"
  shows "world_ok (w\<lparr>w_tenants := (w_tenants w)[k := t\<lparr>t_hosts := t_hosts t @ [a]\<rparr>],
    w_heap := (w_heap w)(a \<mapsto> host_alloc u), w_next := Suc a\<rparr>)"
proof -
  let ?t = "t\<lparr>t_hosts := t_hosts t @ [a]\<rparr>"
  let ?ts = "(w_tenants w)[k := ?t]"
  have tm: "t \<in> set (w_tenants w)" using assms(2) by (simp add: t_def)
  have fresh: "a \<notin> set (t_hosts x)" if "x \<in> set (w_tenants w)" for x
    using world_okD(3)[OF assms(1) that, of a] world_okD(6)[OF assms(1), of a] by (auto simp: a_def)
  have el: "x \<in> set (w_tenants w) \<or> x = ?t" if "x \<in> set ?ts" for x using that set_update_subset_insert by fastforce
  have apart: "hosts_apart ?ts"
    by (rule hosts_apart_update[OF world_okD(4)[OF assms(1)] assms(2) _ fresh]) (auto simp: t_def)
  have uu: "distinct (map t_uuid ?ts)"
    using world_okD(5)[OF assms(1)] list_update_id[of "map t_uuid (w_tenants w)" k] assms(2) by (simp add: map_update t_def)
  have hs: "\<exists>h. ((w_heap w)(a \<mapsto> host_alloc u)) b = Some h" if "x \<in> set ?ts" "b \<in> set (t_hosts x)" for x b
    using el[OF that(1)] that(2) world_okD(3)[OF assms(1)] tm by (cases "b = a") auto
  have lk: "t_lock x = Unlocked" if "x \<in> set ?ts" for x
    using el[OF that] world_okD(2)[OF assms(1)] tm by auto
  have se: "session_has_host ?ts s" if "s \<in> set (concat (w_sessions w))" "session_live s" for s
  proof -
    note t = that
    obtain x where x: "x \<in> set (w_tenants w)" "t_uuid x = s_tenantid s" "s_host s \<in> set (t_hosts x)"
      using world_okD(7)[OF assms(1) t] unfolding session_has_host_def by blast
    obtain j where j: "j < length (w_tenants w)" "w_tenants w ! j = x" using x(1) by (metis in_set_conv_nth)
    then have "?ts ! j \<in> set ?ts" by simp
    moreover have "t_uuid (?ts ! j) = s_tenantid s" "s_host s \<in> set (t_hosts (?ts ! j))"
      using x j by (cases "j = k"; simp add: t_def)+
    ultimately show ?thesis unfolding session_has_host_def by blast
  qed
  have nx: "\<forall>b\<ge>Suc a. ((w_heap w)(a \<mapsto> host_alloc u)) b = None" using world_okD(6)[OF assms(1)] by (simp add: a_def)
  show ?thesis unfolding world_ok_def using apart uu hs lk se nx world_okD(1)[OF assms(1)] by simp
qed

lemma host_find_ok:
  assumes "world_ok w"
  shows "\<exists>w' a. host_find t u w = Some (Ok (w', a)) \<and> world_ok w' \<and> w_sessions w' = w_sessions w \<and>
    (\<exists>x\<in>set (w_tenants w'). t_uuid x = t \<and> a \<in> set (t_hosts x))"
proof -
  obtain ts k where g: "tenant_get (w_tenants w) t = (ts, k)" by (cases "tenant_get (w_tenants w) t")
  have k: "k < length ts" "t_uuid (ts ! k) = t" using tl.get_entry[OF g] by auto
  define w1 where "w1 = w\<lparr>w_tenants := ts\<rparr>"
  have w1: "world_ok w1" unfolding w1_def by (rule tenant_get_ok[OF assms g])
  have mem: "ts ! k \<in> set (w_tenants w1)" using k by (simp add: w1_def)
  have lock: "t_lock (ts ! k) = Unlocked" by (rule world_okD(2)[OF w1 mem])
  let ?L = "ts[k := (ts ! k)\<lparr>t_lock := WriteLocked\<rparr>]"
  have f: "tenant_find t TENANT_LOCK_WRITE (w_tenants w) = Some (?L, k)" using g lock by (simp add: tenant_find_def lock_tenant_def)
  have hosts: "t_hosts (?L ! k) = t_hosts (ts ! k)" using k by simp
  have un: "tenant_done k ?L = ts"
    using k tenant_unlocked[OF lock] by (simp add: tenant_done_def unlock_tenant_def list_update_same_conv)
  have there: "\<exists>h. w_heap w a = Some h" if "a \<in> set (t_hosts (ts ! k))" for a
    using world_okD(3)[OF w1 mem that] by (auto simp: w1_def)
  consider (new) "host_search (w_heap w) u (t_hosts (ts ! k)) = Ok None"
    | (old) a where "a \<in> set (t_hosts (ts ! k))" "host_search (w_heap w) u (t_hosts (ts ! k)) = Ok (Some a)"
    using host_search_ok[of "t_hosts (ts ! k)" "w_heap w" u, OF there] by blast
  then show ?thesis
  proof cases
    case old
    have "host_find t u w = Some (Ok (w1, a))" using f un old hosts by (simp add: host_find_def w1_def)
    moreover have "w_sessions w1 = w_sessions w" by (simp add: w1_def)
    ultimately show ?thesis using w1 mem k old(1) by blast
  next
    case new
    let ?a = "w_next w"
    let ?t = "(ts ! k)\<lparr>t_hosts := t_hosts (ts ! k) @ [?a]\<rparr>"
    let ?w = "w\<lparr>w_tenants := ts[k := ?t], w_heap := (w_heap w)(?a \<mapsto> host_alloc u), w_next := Suc ?a\<rparr>"
    have "(ts ! k)\<lparr>t_hosts := t_hosts (ts ! k) @ [?a], t_lock := Unlocked\<rparr> = ?t" using lock by (cases "ts ! k") simp
    then have un2: "tenant_done k (?L[k := (?L ! k)\<lparr>t_hosts := t_hosts (?L ! k) @ [?a]\<rparr>]) = ts[k := ?t]"
      using k by (simp add: tenant_done_def unlock_tenant_def)
    have r: "host_find t u w = Some (Ok (?w, ?a))" using f new hosts un2 by (simp add: host_find_def Let_def)
    have "world_ok ?w" using new_host_ok[OF w1, of k u] k by (simp add: w1_def)
    moreover have "?t \<in> set (w_tenants ?w)" using k by (simp add: set_update_memI)
    moreover have "t_uuid ?t = t" "?a \<in> set (t_hosts ?t)" "w_sessions ?w = w_sessions w" using k by simp_all
    ultimately show ?thesis using r by blast
  qed
qed

subsection \<open>Authentication packets keep the invariant\<close>

lemma session_update_ok:
  assumes "sessiondb_ok db" "\<And>s. session_key (f s) = session_key s" "\<And>s. s_expired (f s) = s_expired s"
  shows "sessiondb_ok (session_update r f db)"
proof -
  obtain b i where r: "r = (b, i)" by (cases r)
  let ?good = "\<lambda>c xs. list_all (\<lambda>s. bucket_of (session_key s) = c) xs \<and> distinct (map session_key (filter session_live xs))"
  have row: "?good c (xs[i := f (xs ! i)])" if g: "?good c xs" for c xs
  proof (cases "i < length xs")
    case True
    have xs: "xs = take i xs @ xs ! i # drop (Suc i) xs" by (rule id_take_nth_drop[OF True])
    have "map session_key (filter session_live (xs[i := f (xs ! i)])) = map session_key (filter session_live xs)"
      unfolding upd_conv_take_nth_drop[OF True] arg_cong[OF xs, of "\<lambda>xs. map session_key (filter session_live xs)"]
      by (simp add: assms(2,3))
    moreover have "list_all (\<lambda>s. bucket_of (session_key s) = c) (xs[i := f (xs ! i)])"
      using g True assms(2) by (auto simp: list_all_length nth_list_update)
    ultimately show ?thesis using g by simp
  qed (use g in \<open>simp add: list_update_beyond\<close>)
  have upd: "session_update r f db = db[b := (db ! b)[i := f (db ! b ! i)]]"
    by (simp add: r session_update_def session_at_def)
  have "?good c (session_update r f db ! c)" if "c < 256" for c
  proof -
    have "?good c (db ! c)" using assms(1) that unfolding sessiondb_ok_def by blast
    moreover have "session_update r f db ! c = (if c = b then (db ! c)[i := f (db ! c ! i)] else db ! c)"
      using assms(1) that unfolding upd by (auto simp: sessiondb_ok_def nth_list_update)
    ultimately show ?thesis using row by auto
  qed
  then show ?thesis using assms(1) unfolding sessiondb_ok_def upd by simp
qed

lemma session_update_set:
  assumes "s \<in> set (concat (session_update r f db))"
  shows "s \<in> set (concat db) \<or> (\<exists>s'\<in>set (concat db). s = f s')"
proof -
  obtain b i where r: "r = (b, i)" by (cases r)
  show ?thesis
  proof (cases "b < length db \<and> i < length (db ! b)")
    case True
    then have "db ! b ! i \<in> set (concat db)" by (auto intro!: bexI[of _ "db ! b"])
    moreover have "s \<in> set (concat db) \<or> s = f (db ! b ! i)"
      using assms True unfolding r session_update_def session_at_def
      by (fastforce dest!: set_update_subset_insert[THEN subsetD])
    ultimately show ?thesis by blast
  next
    case False
    then have "session_update r f db = db" unfolding r session_update_def by (cases "b < length db") (simp_all add: list_update_beyond)
    then show ?thesis using assms by simp
  qed
qed


lemma store_str_faults: "store_str d i v = Fault e \<Longrightarrow> e \<noteq> UseAfterFree"
  by (induction d i v rule: store_str.induct) (auto split: if_splits cells.splits)

lemma set_str_faults: "meter_set_str lm m i v = Fault e \<Longrightarrow> e \<noteq> UseAfterFree"
  using store_str_faults[of "mt_d m" i v] unfolding meter_set_str_def
  by (cases "store_str (mt_d m) i v") (auto split: if_splits)

text \<open>A host that is there is updated, or a value of it is written past its block; never through a dangling pointer.\<close>

lemma touch_host_ok:
  assumes "world_ok w" "session_at (w_sessions w) r \<in> set (concat (w_sessions w))" "session_live (session_at (w_sessions w) r)"
  shows "(\<exists>w'. touch_host ip2str now r w = Ok w' \<and> world_ok w') \<or> (\<exists>e. touch_host ip2str now r w = Fault e \<and> e \<noteq> UseAfterFree)"
proof -
  let ?S = "session_at (w_sessions w) r"
  obtain h where h: "w_heap w (s_host ?S) = Some h" using session_host_there[OF assms] by blast
  obtain h1 k where g: "host_get_meter (h\<lparr>h_lastmodified := now\<rparr>) mid_ip = (h1, k)" by (cases "host_get_meter (h\<lparr>h_lastmodified := now\<rparr>) mid_ip")
  obtain m where m: "meter_setcount (h_lastmodified h1) (h_meters h1 ! k) 0 = Ok m"
    using meter_setcount_total[of 0 "h_lastmodified h1" "h_meters h1 ! k"] by (auto simp: sz_defs)
  define h2 where "h2 = host_set_meter h1 k m"
  have t: "touch_host ip2str now r w = rbind (host_on h2 k (\<lambda>m. meter_set_str (h_lastmodified h2) m 0 (ip2str (s_remote ?S))))
      (\<lambda>h. Ok (put_host (s_host ?S) h w))"
    using h g m by (simp add: touch_host_def Let_def get_host_def host_on_def h2_def)
  show ?thesis
  proof (cases "meter_set_str (h_lastmodified h2) (h_meters h2 ! k) 0 (ip2str (s_remote ?S))")
    case (Inl e)
    then show ?thesis using set_str_faults[OF Inl] t by (simp add: host_on_def)
  next
    case (Inr m')
    then show ?thesis using put_host_ok[OF assms(1) h] t by (simp add: host_on_def)
  qed
qed

lemma touch_host_sessions: "touch_host ip2str now r w = Ok w' \<Longrightarrow> w_sessions w' = w_sessions w"
  by (auto simp: touch_host_def Let_def rbind_Ok_iff put_host_def split_beta)

text \<open>The session that a registration gives.\<close>

lemma session_at_update:
  assumes "fst r < length db" "snd r < length (db ! fst r)"
  shows "session_at (session_update r f db) r = f (session_at db r)"
  using assms by (simp add: session_at_def session_update_def)

lemma update_found:
  assumes "sessiondb_ok db" "session_find db netid sid = Some r" "\<And>s. session_key (f s) = session_key s" "\<And>s. s_expired (f s) = s_expired s"
  defines "db' \<equiv> session_update r f db"
  shows "session_at db' r = f (session_at db r)" "session_at db' r \<in> set (concat db')" "session_live (session_at db' r)"
proof -
  note f = found_session[OF assms(1,2)]
  have len: "fst r < length db"
    using f(4) bucket_less[of "(netid, sid)"] assms(1) by (simp add: bucket_of_def sessiondb_ok_def)
  then show a: "session_at db' r = f (session_at db r)" using f(5) unfolding db'_def by (rule session_at_update)
  have "db' ! fst r ! snd r \<in> set (db' ! fst r)" using len f(5)
    by (simp add: db'_def session_update_def set_update_memI)
  moreover have "db' ! fst r \<in> set db'" using len by (simp add: db'_def session_update_def set_update_memI)
  ultimately show "session_at db' r \<in> set (concat db')" unfolding session_at_def by auto
  show "session_live (session_at db' r)" using a f(2) assms(4) by simp
qed

lemma session_link_concat:
  assumes "length db = 256"
  shows "set (concat (session_link s db)) = insert s (set (concat db))"
proof -
  let ?b = "session_bucket (s_addr s) (s_sessid s)"
  have b: "?b < length db" using bucket_less[of "session_key s"] assms by (simp add: bucket_of_def)
  have db: "db = take ?b db @ db ! ?b # drop (Suc ?b) db" by (rule id_take_nth_drop[OF b])
  show ?thesis
    unfolding session_link_def Let_def upd_conv_take_nth_drop[OF b] arg_cong[OF db, of "\<lambda>x. set (concat x)"] by auto
qed

lemma linked_at:
  assumes "length db = 256"
  shows "session_at (session_link s db) (session_bucket (s_addr s) (s_sessid s), 0) = s"
  using bucket_less[of "session_key s"] assms by (simp add: session_at_def session_link_def Let_def bucket_of_def)


definition safe_result :: "world res option \<Rightarrow> bool" where
  "safe_result x \<longleftrightarrow> (\<exists>w. x = Some (Ok w) \<and> world_ok w) \<or> (\<exists>e. x = Some (Fault e) \<and> e \<noteq> UseAfterFree)"

lemma touch_expire_safe:
  assumes "world_ok w" "session_at (w_sessions w) r \<in> set (concat (w_sessions w))" "session_live (session_at (w_sessions w) r)"
  shows "safe_result (Some (rbind (touch_host ip2str now r w) (\<lambda>w. Ok (expire_old now w))))"
  using touch_host_ok[OF assms, of ip2str now] expire_ok unfolding safe_result_def by auto

lemma renew_ok:
  assumes "world_ok w" "session_find (w_sessions w) netid sid = Some r"
    "\<And>s. session_key (f s) = session_key s" "\<And>s. s_expired (f s) = s_expired s"
    "\<And>s. s_tenantid (f s) = s_tenantid s" "\<And>s. s_host (f s) = s_host s"
  shows "world_ok (w\<lparr>w_sessions := session_update r f (w_sessions w)\<rparr>)"
proof (rule sessions_ok[OF assms(1)])
  show "sessiondb_ok (session_update r f (w_sessions w))" by (rule session_update_ok[OF world_okD(1)[OF assms(1)] assms(3,4)])
  fix s assume s: "s \<in> set (concat (session_update r f (w_sessions w)))" "session_live s"
  then obtain s' where "s' \<in> set (concat (w_sessions w))" "s = s' \<or> s = f s'" using session_update_set by blast
  moreover from this have "session_live s'" using s(2) assms(4) by auto
  ultimately show "session_has_host (w_tenants w) s" using world_okD(7)[OF assms(1), of s'] assms(5,6) unfolding session_has_host_def by auto
qed

lemma register_ok:
  assumes "world_ok w" "session_find (w_sessions w) netid sid = None"
    and x: "x \<in> set (w_tenants w)" "t_uuid x = tid" "a \<in> set (t_hosts x)"
    and r: "session_register junk now (Some a) tid hid netid sid key remote (w_sessions w) = (db, ro)"
  shows "\<exists>r. ro = Some r \<and> world_ok (w\<lparr>w_sessions := db\<rparr>) \<and> session_at db r \<in> set (concat db) \<and> session_live (session_at db r)"
proof -
  define s where "s = (session_alloc junk tid remote now)\<lparr>s_tenantid := tid, s_hostid := hid, s_host := a,
    s_addr := netid, s_sessid := sid, s_key := key, s_lastcycle := now, s_remote := remote\<rparr>"
  have f: "session_key s = (netid, sid)" "session_live s" "s_tenantid s = tid" "s_host s = a"
    by (simp_all add: s_def session_alloc_def)
  have db: "db = session_link s (w_sessions w)" "ro = Some (session_bucket (s_addr s) (s_sessid s), 0)"
    using r assms(2) f(1) by (simp_all add: session_register_def Let_def s_def)
  have len: "length (w_sessions w) = 256" using world_okD(1)[OF assms(1)] by (simp add: sessiondb_ok_def)
  have look: "session_look (w_sessions w) (session_key s) = None" using assms(2) f(1) by (simp add: session_look_def)
  have c: "set (concat db) = insert s (set (concat (w_sessions w)))" unfolding db by (rule session_link_concat[OF len])
  have "world_ok (w\<lparr>w_sessions := db\<rparr>)"
  proof (rule sessions_ok[OF assms(1)])
    show "sessiondb_ok db" unfolding db using session_link_law[OF world_okD(1)[OF assms(1)] f(2) look] by blast
    fix s' assume s': "s' \<in> set (concat db)" "session_live s'"
    have "session_has_host (w_tenants w) s" unfolding session_has_host_def using x f(3,4) by auto
    moreover have "s' = s \<or> s' \<in> set (concat (w_sessions w))" using s'(1) c by blast
    ultimately show "session_has_host (w_tenants w) s'" using world_okD(7)[OF assms(1) _ s'(2)] by blast
  qed
  moreover have "session_at db (session_bucket (s_addr s) (s_sessid s), 0) = s" unfolding db by (rule linked_at[OF len])
  ultimately show ?thesis using c f(2) db(2) by auto
qed

lemma accept_auth_safe:
  assumes "world_ok w"
  shows "safe_result (accept_auth junk ip2str now netid remote auth w)"
proof (cases "uuidvalid (au_hostid auth)")
  case False
  then show ?thesis using assms by (simp add: accept_auth_def safe_result_def)
next
  case valid: True
  show ?thesis
  proof (cases "session_find (w_sessions w) netid (au_sessionid auth)")
    case None
    obtain w1 a where h: "host_find (au_tenantid auth) (au_hostid auth) w = Some (Ok (w1, a))" "world_ok w1"
        "w_sessions w1 = w_sessions w" "\<exists>x\<in>set (w_tenants w1). t_uuid x = au_tenantid auth \<and> a \<in> set (t_hosts x)"
      using host_find_ok[OF assms] by blast
    obtain db ro where reg: "session_register junk now (Some a) (au_tenantid auth) (au_hostid auth) netid
        (au_sessionid auth) (au_sessionkey auth) remote (w_sessions w1) = (db, ro)" by fastforce
    have none: "session_find (w_sessions w1) netid (au_sessionid auth) = None" using None h(3) by simp
    obtain x where x: "x \<in> set (w_tenants w1)" "t_uuid x = au_tenantid auth" "a \<in> set (t_hosts x)" using h(4) by blast
    obtain r where r: "ro = Some r" "world_ok (w1\<lparr>w_sessions := db\<rparr>)" "session_at db r \<in> set (concat db)" "session_live (session_at db r)"
      using register_ok[OF h(2) none x reg] by blast
    have "accept_auth junk ip2str now netid remote auth w =
        Some (rbind (touch_host ip2str now r (w1\<lparr>w_sessions := db\<rparr>)) (\<lambda>w. Ok (expire_old now w)))"
      using valid None h(1) reg r(1) by (simp add: accept_auth_def)
    then show ?thesis using touch_expire_safe[OF r(2), of r ip2str now] r(3,4) by simp
  next
    case (Some r)
    show ?thesis
    proof (cases "s_lastserial (session_at (w_sessions w) r) < au_serial auth")
      case False
      then show ?thesis using Some valid assms by (simp add: accept_auth_def safe_result_def)
    next
      case True
      define f where "f = (\<lambda>S :: session. S\<lparr>s_key := au_sessionkey auth, s_lastcycle := now, s_lastserial := au_serial auth\<rparr>)"
      define w1 where "w1 = w\<lparr>w_sessions := session_update r f (w_sessions w)\<rparr>"
      have f: "session_key (f s) = session_key s" "s_expired (f s) = s_expired s" "s_tenantid (f s) = s_tenantid s" "s_host (f s) = s_host s" for s
        by (simp_all add: f_def)
      have "world_ok w1" unfolding w1_def by (rule renew_ok[OF assms Some f])
      moreover have "session_at (w_sessions w1) r \<in> set (concat (w_sessions w1))" "session_live (session_at (w_sessions w1) r)"
        using update_found(2,3)[OF world_okD(1)[OF assms] Some f(1,2)] by (simp_all add: w1_def)
      moreover have "accept_auth junk ip2str now netid remote auth w =
          Some (rbind (touch_host ip2str now r w1) (\<lambda>w. Ok (expire_old now w)))"
        using valid Some True by (simp add: accept_auth_def w1_def f_def)
      ultimately show ?thesis using touch_expire_safe by simp
    qed
  qed
qed


subsection \<open>The collector's steps\<close>

text \<open>
  What the packet handlers do to the world: the tenant of an authentication packet is resolved,
  the packet is accepted, the session of a meter packet is resolved, and a host that is there is
  updated (by a meter packet or by the watch thread). The contents of the packets are arbitrary.
\<close>

inductive collector_step :: "(uuid \<Rightarrow> u32 \<Rightarrow> world \<Rightarrow> (world \<times> aeskey option) res) \<Rightarrow> world \<Rightarrow> world \<Rightarrow> bool"
  for resolve where
  tenant: "resolve t serial w = Ok (w', k) \<Longrightarrow> collector_step resolve w w'"
| auth: "accept_auth junk ip2str now netid remote a w = Some (Ok w') \<Longrightarrow> collector_step resolve w w'"
| session: "resolve_sessionkey netid sid serial w = Ok (w', x) \<Longrightarrow> collector_step resolve w w'"
| update: "w_heap w a = Some h \<Longrightarrow> collector_step resolve w (put_host a h' w)"

inductive_cases collector_stepE: "collector_step resolve w w'"

definition keeps_world :: "(uuid \<Rightarrow> u32 \<Rightarrow> world \<Rightarrow> (world \<times> aeskey option) res) \<Rightarrow> bool" where
  "keeps_world resolve \<longleftrightarrow> (\<forall>t serial w w' k. world_ok w \<longrightarrow> resolve t serial w = Ok (w', k) \<longrightarrow> world_ok w')"

lemma resolve_session_ok:
  assumes "world_ok w"
  shows "\<exists>w' x. resolve_sessionkey netid sid serial w = Ok (w', x) \<and> world_ok w'"
proof (cases "session_find (w_sessions w) netid sid")
  case (Some r)
  let ?S = "session_at (w_sessions w) r"
  obtain h where h: "w_heap w (s_host ?S) = Some h"
    using session_host_there[OF assms found_session(1,2)[OF world_okD(1)[OF assms] Some]] by blast
  show ?thesis using assms put_host_ok[OF assms h] h Some by (auto simp: resolve_sessionkey_def Let_def get_host_def)
qed (use assms in \<open>simp add: resolve_sessionkey_def\<close>)

lemma step_ok: "keeps_world resolve \<Longrightarrow> collector_step resolve w w' \<Longrightarrow> world_ok w \<Longrightarrow> world_ok w'"
proof (erule collector_stepE)
  fix junk ip2str now netid remote a
  assume "world_ok w" "accept_auth junk ip2str now netid remote a w = Some (Ok w')"
  then show "world_ok w'" using accept_auth_safe[of w junk ip2str now netid remote a] unfolding safe_result_def by auto
next
  fix netid sid serial x
  assume "world_ok w" "resolve_sessionkey netid sid serial w = Ok (w', x)"
  then show "world_ok w'" using resolve_session_ok[of w netid sid serial] by auto
next
  fix a h h'
  assume "world_ok w" "w' = put_host a h' w" "w_heap w a = Some h"
  then show "world_ok w'" using put_host_ok by blast
qed (unfold keeps_world_def, blast)

lemma steps_ok: "(collector_step resolve)\<^sup>*\<^sup>* w w' \<Longrightarrow> keeps_world resolve \<Longrightarrow> world_ok w \<Longrightarrow> world_ok w'"
  by (induction rule: rtranclp_induct) (auto intro: step_ok)

text \<open>The handlers make such steps.\<close>

lemma handle_auth_steps:
  assumes "handle_auth_packet jn ctx junk2 fuel junk ip2str now resolve pktbuf netid remote w = Some (Ok w')"
  shows "(collector_step resolve)\<^sup>*\<^sup>* w w'"
proof -
  let ?u = "ioport_unwrap_authdata jn ctx junk2 fuel now pktbuf resolve w"
  obtain w1 x where u: "?u = Some (Ok (w1, x))"
    and x: "case x of None \<Rightarrow> w' = w1 | Some auth \<Rightarrow> accept_auth junk ip2str now netid remote auth w1 = Some (Ok w')"
    using assms unfolding handle_auth_packet_def by (auto split: option.splits sum.splits)
  have "w1 = w \<or> (\<exists>t serial k. resolve t serial w = Ok (w1, k))"
    using u unfolding ioport_unwrap_authdata_def
    by (auto split: option.splits sum.splits prod.splits if_splits simp: Let_def)
  then have 1: "(collector_step resolve)\<^sup>*\<^sup>* w w1" by (auto intro: collector_step.tenant)
  moreover have "(collector_step resolve)\<^sup>*\<^sup>* w1 w'" using x by (auto split: option.splits intro: collector_step.auth)
  ultimately show ?thesis by (rule rtranclp_trans)
qed

lemma handle_meter_steps:
  assumes "handle_meter_packet inflate jn ctx junk fuel1 fuel2 ub sjunk now meta current pktbuf netid w = Some (Ok w')"
  shows "(collector_step resolve)\<^sup>*\<^sup>* w w'"
proof -
  let ?u = "ioport_unwrap_meterdata inflate jn ctx junk fuel1 now netid pktbuf resolve_sessionkey w"
  obtain w1 x where u: "?u = Some (Ok (w1, x))"
    using assms unfolding handle_meter_packet_def by (auto split: option.splits sum.splits)
  have x: "w' = w1 \<or> (\<exists>a h h'. w_heap w1 a = Some h \<and> w' = put_host a h' w1)"
    using assms u unfolding handle_meter_packet_def get_host_def Let_def
    by (auto split: option.splits sum.splits) (metis option.distinct(1))
  have "w1 = w \<or> (\<exists>sid serial k. resolve_sessionkey netid sid serial w = Ok (w1, k))"
    using u unfolding ioport_unwrap_meterdata_def
    by (auto split: option.splits sum.splits prod.splits if_splits simp: Let_def)
  then have "(collector_step resolve)\<^sup>*\<^sup>* w w1" by (auto intro: collector_step.session)
  moreover have "(collector_step resolve)\<^sup>*\<^sup>* w1 w'" using x by (auto intro: collector_step.update)
  ultimately show ?thesis by (rule rtranclp_trans)
qed


subsection \<open>Properties\<close>

lemma serial_old_self: "serial_old s s"
  unfolding serial_old_def by (simp add: word_le_nat_alt word_less_nat_alt) linarith


definition demo_resolve :: "uuid \<Rightarrow> u32 \<Rightarrow> world \<Rightarrow> (world \<times> aeskey option) res" where
  "demo_resolve t serial w = Ok (w, map_option (\<lambda>k. t_key (w_tenants w ! k)) (tenant_look (w_tenants w) t))"

lemma demo_resolve_keeps: "keeps_world demo_resolve"
  by (simp add: keeps_world_def demo_resolve_def)

definition demo_auth :: "u32 \<Rightarrow> uuid \<Rightarrow> u8 \<Rightarrow> authinfo" where
  "demo_auth serial t key = \<lparr>au_sessionid = 7, au_serial = serial, au_tenantid = t, au_hostid = \<lparr>msb = 3, lsb = 4\<rparr>,
     au_sessionkey = replicate 32 key, au_tenantkey = replicate 32 0\<rparr>"

definition demo_accept :: "authinfo \<Rightarrow> world \<Rightarrow> world res option" where
  "demo_accept auth w = accept_auth [] (\<lambda>_. []) 1000 9 Unspec auth w"

definition demo_world :: world where
  "demo_world = (case demo_accept (demo_auth 5 \<lparr>msb = 1, lsb = 2\<rparr> 1) world_init of Some (Inr w) \<Rightarrow> w | _ \<Rightarrow> world_init)"

lemma demo_world_step: "demo_accept (demo_auth 5 \<lparr>msb = 1, lsb = 2\<rparr> 1) world_init = Some (Ok demo_world)"
proof -
  have "case demo_accept (demo_auth 5 \<lparr>msb = 1, lsb = 2\<rparr> 1) world_init of Some (Inr w) \<Rightarrow> True | _ \<Rightarrow> False" by code_simp
  then show ?thesis unfolding demo_world_def by (auto split: option.splits sum.splits)
qed

lemma demo_world_session:
  "\<exists>r. session_find (w_sessions demo_world) 9 7 = Some r \<and> s_lastserial (session_at (w_sessions demo_world) r) = 0"
proof -
  have "case session_find (w_sessions demo_world) 9 7 of Some r \<Rightarrow> s_lastserial (session_at (w_sessions demo_world) r) = 0 | None \<Rightarrow> False"
    by code_simp
  then show ?thesis by (auto split: option.splits)
qed

lemma demo_world_reachable: "(collector_step demo_resolve)\<^sup>*\<^sup>* world_init demo_world"
  using demo_world_step unfolding demo_accept_def by (auto intro: collector_step.auth)


text \<open>
  C21: a serial is spent before the packet is authenticated. Once a meter packet with some serial
  has been resolved for a session - decrypted or not - every packet with this serial or an older
  one is refused, on every session of the same host. Replays are refused, but so are the genuine
  packets after a forged one with a high serial.
\<close>

theorem serial_spent_before_decryption:
  assumes "resolve_sessionkey netid sid serial w = Ok (w', Some (k, r))"
    and "session_find (w_sessions w) netid' sid' = Some r'"
    and "s_host (session_at (w_sessions w) r') = s_host (session_at (w_sessions w) r)"
    and "serial' = serial \<or> serial_old serial serial'"
  shows "resolve_sessionkey netid' sid' serial' w' = Ok (w', None)"
proof -
  obtain h where f: "session_find (w_sessions w) netid sid = Some r" "w_heap w (s_host (session_at (w_sessions w) r)) = Some h"
    and w': "w' = put_host (s_host (session_at (w_sessions w) r)) (h\<lparr>h_lastserial := serial\<rparr>) w"
    using assms(1) unfolding resolve_sessionkey_def Let_def get_host_def
    by (auto split: option.splits if_splits)
  have "serial_old serial serial'" using assms(4) serial_old_self by auto
  then show ?thesis using assms(2,3) by (simp add: w' resolve_sessionkey_def Let_def get_host_def put_host_def)
qed

theorem serial_spent_before_decryption_witness:
  "\<exists>w'. resolve_sessionkey 9 7 100 demo_world = Ok (w', Some (replicate 32 1, (14, 0))) \<and>
     resolve_sessionkey 9 7 99 w' = Ok (w', None)"
proof -
  have "case resolve_sessionkey 9 7 100 demo_world of Inr (w', Some (k, r)) \<Rightarrow> k = replicate 32 1 \<and> r = (14, 0) | _ \<Rightarrow> False"
    by code_simp
  then obtain w' where w': "resolve_sessionkey 9 7 100 demo_world = Ok (w', Some (replicate 32 1, (14, 0)))"
    by (auto split: sum.splits option.splits prod.splits)
  have "session_find (w_sessions demo_world) 9 7 = Some (14, 0)" by code_simp
  moreover have "serial_old 100 99" by (simp add: serial_old_def)
  ultimately show ?thesis using serial_spent_before_decryption[OF w', of 9 7 "(14, 0)" 99] w' by blast
qed

text \<open>
  C22: the holder of any tenant's key takes over a session of another tenant that comes from the
  same address. An authentication packet with the session id of a known session and a higher
  serial replaces its key, whatever tenant and host the packet names: meter packets under the
  attacker's key are then booked on the victim's host.
\<close>

theorem session_takeover:
  assumes "sessiondb_ok (w_sessions w)" "session_find (w_sessions w) netid (au_sessionid auth) = Some r"
    and "uuidvalid (au_hostid auth)" "s_lastserial (session_at (w_sessions w) r) < au_serial auth"
    and "accept_auth junk ip2str now netid remote auth w = Some (Ok w')"
  shows "session_look (w_sessions w') (netid, au_sessionid auth) =
    Some ((session_at (w_sessions w) r)\<lparr>s_key := au_sessionkey auth, s_lastcycle := now, s_lastserial := au_serial auth\<rparr>)"
proof -
  define f where "f = (\<lambda>S :: session. S\<lparr>s_key := au_sessionkey auth, s_lastcycle := now, s_lastserial := au_serial auth\<rparr>)"
  define db where "db = session_update r f (w_sessions w)"
  let ?S = "f (session_at (w_sessions w) r)"
  have f: "session_key (f s) = session_key s" "s_expired (f s) = s_expired s" for s by (simp_all add: f_def)
  have ok: "sessiondb_ok db" unfolding db_def by (rule session_update_ok[OF assms(1) f])
  have at: "?S \<in> set (concat db)" "session_live ?S"
    using update_found[OF assms(1,2) f] unfolding db_def by auto
  have key: "session_key ?S = (netid, au_sessionid auth)" using found_session(3)[OF assms(1,2)] f(1) by simp
  have look: "session_look db (netid, au_sessionid auth) = Some ?S" using look_concat[OF ok] at key by blast
  obtain w1 where t: "touch_host ip2str now r (w\<lparr>w_sessions := db\<rparr>) = Ok w1" "w' = expire_old now w1"
    using assms(2-5) by (auto simp: accept_auth_def db_def f_def rbind_Ok_iff)
  have "w_sessions w1 = db" using touch_host_sessions[OF t(1)] by simp
  then have "w_sessions w' = session_drop (OlderThan (now - 905)) db" using t(2) by (simp add: expire_old_def)
  moreover have "session_look (session_drop (OlderThan (now - 905)) db) = map_drop session_dead (OlderThan (now - 905)) (session_look db)"
    using session_drop_law[OF ok] by blast
  ultimately show ?thesis using look by (simp add: map_drop_def f_def)
qed

theorem session_takeover_witness:
  "\<exists>w' S. demo_accept (demo_auth 6 \<lparr>msb = 8, lsb = 9\<rparr> 2) demo_world = Some (Ok w') \<and>
     session_look (w_sessions w') (9, 7) = Some S \<and> s_key S = replicate 32 2 \<and> s_tenantid S = \<lparr>msb = 1, lsb = 2\<rparr>"
proof -
  let ?a = "demo_auth 6 \<lparr>msb = 8, lsb = 9\<rparr> 2"
  have "case demo_accept ?a demo_world of Some (Inr w') \<Rightarrow> True | _ \<Rightarrow> False" by code_simp
  then obtain w' where w': "demo_accept ?a demo_world = Some (Ok w')" by (auto split: option.splits sum.splits)
  have ok: "sessiondb_ok (w_sessions demo_world)"
    using steps_ok[OF demo_world_reachable demo_resolve_keeps world_init_ok] by (rule world_okD(1))
  obtain r where r: "session_find (w_sessions demo_world) 9 7 = Some r" "s_lastserial (session_at (w_sessions demo_world) r) = 0"
    using demo_world_session by blast
  have "case session_find (w_sessions demo_world) 9 7 of Some r \<Rightarrow> s_tenantid (session_at (w_sessions demo_world) r) = \<lparr>msb = 1, lsb = 2\<rparr> | None \<Rightarrow> False"
    by code_simp
  then have t: "s_tenantid (session_at (w_sessions demo_world) r) = \<lparr>msb = 1, lsb = 2\<rparr>" using r(1) by simp
  have a: "uuidvalid (au_hostid ?a)" "au_sessionid ?a = 7" "au_serial ?a = 6" "au_sessionkey ?a = replicate 32 2"
    by (simp_all add: demo_auth_def uuidvalid_def)
  show ?thesis
    using session_takeover[OF ok, of 9 ?a r, OF _ a(1) _ w'[unfolded demo_accept_def]] r t a w' by auto
qed

end
