(* ===== verification/Var.thy ===== *)
theory Var
  imports Cnum Uuid Summary Registry
begin

text \<open>
  The variables of \<^verbatim>\<open>libopticon/var.c\<close>: a tree of typed nodes that opticon parses JSON into and
  keeps its configuration in.

  A node is a header (\<open>vhdr\<close>) and a value (\<open>vval\<close>); the children of an array or a dictionary
  are a list. The pointers of the C struct become positions: \<open>prev\<close> and \<open>next\<close> are the
  neighbours in the list, \<open>parent\<close> is the node the list belongs to, \<open>root\<close> is the number of
  levels to climb (\<open>RootUp n\<close>), NULL (\<open>RootNone\<close>) or a freed node (\<open>RootFreed\<close>), and
  \<open>cachenode\<close> is the position its node has in the list now, None once that node is freed.
  An operation on a node inside a tree also gets the headers of its ancestors, innermost
  first (\<open>chain\<close>), because \<^verbatim>\<open>var_update_gendata\<close> writes to them.

  \<open>ih\<close> is the start value of the token hash, \<open>cv\<close> what converting an out-of-range double to
  an integer gives.
\<close>

subsection \<open>Data\<close>

datatype rootptr = RootNone | RootUp nat | RootFreed

record vhdr =
  v_id :: string
  v_hash :: u32
  v_gen :: u32
  v_lastmod :: u32
  v_first :: u32
  v_root :: rootptr

datatype 'v vlink = VLink (kids: "'v list") (kcount: u32) (cachepos: int) (cachenode: "nat option")

datatype 'v vval = VNull | VInt u64 | VDouble dbl | VStr string | VArray "'v vlink" | VDict "'v vlink"

datatype var = Var (hdr: vhdr) (vv: "var vval")

type_synonym chain = "vhdr list"

definition hdr0 :: vhdr where
  "hdr0 = \<lparr>v_id = '''', v_hash = 0, v_gen = 0, v_lastmod = 0, v_first = 0, v_root = RootNone\<rparr>"

definition var_alloc :: var where
  "var_alloc = Var hdr0 VNull"

definition no_kids :: "var vlink" where
  "no_kids = VLink [] 0 (- 1) None"

fun links :: "'v vval \<Rightarrow> 'v vlink option" where
  "links (VArray l) = Some l"
| "links (VDict l) = Some l"
| "links _ = None"

fun relink :: "'v vval \<Rightarrow> 'v vlink \<Rightarrow> 'v vval" where
  "relink (VArray _) l = VArray l"
| "relink (VDict _) l = VDict l"
| "relink x l = x"

definition kids_of :: "var \<Rightarrow> var list" where
  "kids_of v = (case links (vv v) of Some l \<Rightarrow> kids l | None \<Rightarrow> [])"

definition set_kids :: "var \<Rightarrow> var list \<Rightarrow> var" where
  "set_kids v ks = (case links (vv v) of
     Some l \<Rightarrow> Var (hdr v) (relink (vv v) (VLink ks (kcount l) (cachepos l) (cachenode l))) | None \<Rightarrow> v)"

definition var_first :: "var \<Rightarrow> var option" where
  "var_first self = (case kids_of self of c # _ \<Rightarrow> Some c | [] \<Rightarrow> None)"

abbreviation var_id :: "var \<Rightarrow> string" where "var_id v \<equiv> v_id (hdr v)"

abbreviation with_hdr :: "(vhdr \<Rightarrow> vhdr) \<Rightarrow> var \<Rightarrow> var" where "with_hdr f v \<equiv> Var (f (hdr v)) (vv v)"

subsection \<open>Generations\<close>

text \<open>The generation of the root a header points to, None for a NULL pointer.\<close>

fun root_gen :: "vhdr \<Rightarrow> chain \<Rightarrow> u32 option res" where
  "root_gen h anc = (case v_root h of
      RootNone \<Rightarrow> Ok None
    | RootFreed \<Rightarrow> Fault UseAfterFree
    | RootUp n \<Rightarrow> if 0 < n \<and> n \<le> length anc then Ok (Some (v_gen (anc ! (n - 1)))) else Fault UseAfterFree)"

text \<open>The headers from the node up; the walk stops at the first that has what it needs.\<close>

fun var_update_gendata :: "bool \<Rightarrow> chain \<Rightarrow> chain res" where
  "var_update_gendata is_updated [] = Ok []"
| "var_update_gendata is_updated (v # anc) =
     rbind (root_gen v anc) (\<lambda>root. case root of
       None \<Rightarrow> Ok (v # anc)
     | Some g \<Rightarrow>
         if is_updated \<and> v_lastmod v = g then Ok (v # anc)
         else
           let v = (if is_updated then v\<lparr>v_lastmod := g\<rparr> else v) in
           if v_gen v = g then Ok (v # anc)
           else rbind (var_update_gendata is_updated anc) (\<lambda>anc. Ok (v\<lparr>v_gen := g\<rparr> # anc)))"

definition touch :: "bool \<Rightarrow> var \<Rightarrow> chain \<Rightarrow> (var \<times> chain) res" where
  "touch is_updated v anc =
     rbind (var_update_gendata is_updated (hdr v # anc)) (\<lambda>hs. Ok (Var (hd hs) (vv v), tl hs))"

definition var_new_generation :: "var \<Rightarrow> var res" where
  "var_new_generation rootnode =
     (if v_root (hdr rootnode) \<noteq> RootNone then Fault AssertFail
      else Ok (with_hdr (\<lambda>h. h\<lparr>v_gen := v_gen h + 1\<rparr>) rootnode))"

text \<open>Freeing \<open>n\<close> children of a list resets its cache.\<close>

definition freed :: "var vlink \<Rightarrow> nat \<Rightarrow> var list \<Rightarrow> var vlink" where
  "freed l n ks = VLink ks (kcount l - of_nat n) (if n = 0 then cachepos l else - 1) (if n = 0 then cachenode l else None)"

definition needs_gen :: "vhdr \<Rightarrow> chain \<Rightarrow> u32 res" where
  "needs_gen h anc = rbind (root_gen h anc) (\<lambda>root. Ok (case root of Some g \<Rightarrow> g | None \<Rightarrow> v_gen h))"

fun var_clean_generation :: "var \<Rightarrow> chain \<Rightarrow> var res"
  and clean_kids :: "u32 \<Rightarrow> var list \<Rightarrow> chain \<Rightarrow> (var list \<times> nat) res" where
  "var_clean_generation (Var h (VArray (VLink ks ct cp cn))) anc =
     rbind (needs_gen h anc) (\<lambda>needgen.
     rbind (clean_kids needgen ks (h # anc)) (\<lambda>(ks', n). Ok (Var h (VArray (freed (VLink ks ct cp cn) n ks')))))"
| "var_clean_generation (Var h (VDict (VLink ks ct cp cn))) anc =
     rbind (needs_gen h anc) (\<lambda>needgen.
     rbind (clean_kids needgen ks (h # anc)) (\<lambda>(ks', n). Ok (Var h (VDict (freed (VLink ks ct cp cn) n ks')))))"
| "var_clean_generation v anc = rbind (needs_gen (hdr v) anc) (\<lambda>needgen. Ok v)"
| "clean_kids needgen [] anc = Ok ([], 0)"
| "clean_kids needgen (c # cs) anc =
     (if v_gen (hdr c) < needgen then rbind (clean_kids needgen cs anc) (\<lambda>(ks, n). Ok (ks, Suc n))
      else rbind (var_clean_generation c anc) (\<lambda>c.
           rbind (clean_kids needgen cs anc) (\<lambda>(ks, n). Ok (c # ks, n))))"

subsection \<open>Linking\<close>

text \<open>
  \<open>attach\<close> links \<open>self\<close> into a parent whose root has generation \<open>g\<close>. The result is the node,
  the parent and whether the node is now in the parent's list: a node without a name only
  goes into arrays, one with a name only into dictionaries.
\<close>

definition attach :: "u32 \<Rightarrow> u32 \<Rightarrow> var \<Rightarrow> var \<Rightarrow> var \<times> var \<times> bool" where
  "attach ih g self parent =
     (let h = hdr self;
          h = (if v_hash h = 0 \<and> v_id h \<noteq> '''' then h\<lparr>v_hash := hash_token ih (v_id h)\<rparr> else h);
          h = h\<lparr>v_root := (case v_root (hdr parent) of RootNone \<Rightarrow> RootUp 1 | RootUp n \<Rightarrow> RootUp (Suc n) | RootFreed \<Rightarrow> RootFreed),
                v_first := g, v_lastmod := g, v_gen := g\<rparr>;
          self = Var h (vv self);
          x = (if vv parent = VNull then (if v_id h = '''' then VArray no_kids else VDict no_kids) else vv parent)
      in case x of
           VArray l \<Rightarrow>
             if v_id h = '''' then (self, Var (hdr parent) (VArray (VLink (kids l @ [self]) (kcount l + 1) (cachepos l) (cachenode l))), True)
             else (self, Var (hdr parent) x, False)
         | VDict l \<Rightarrow>
             if v_id h \<noteq> '''' then (self, Var (hdr parent) (VDict (VLink (kids l @ [self]) (kcount l + 1) (cachepos l) (cachenode l))), True)
             else (self, Var (hdr parent) x, False)
         | _ \<Rightarrow> (self, Var (hdr parent) x, False))"

definition var_link :: "u32 \<Rightarrow> var \<Rightarrow> var \<Rightarrow> chain \<Rightarrow> (var \<times> var \<times> bool) res" where
  "var_link ih self parent anc = rbind (needs_gen (hdr parent) anc) (\<lambda>g. Ok (attach ih g self parent))"

definition rename :: "string \<Rightarrow> var \<Rightarrow> var" where
  "rename k v = with_hdr (\<lambda>h. h\<lparr>v_id := c_truncate 127 k\<rparr>) v"

definition var_link_as :: "u32 \<Rightarrow> var \<Rightarrow> var \<Rightarrow> chain \<Rightarrow> string \<Rightarrow> (var \<times> var \<times> bool) res" where
  "var_link_as ih self parent anc k = var_link ih (rename k self) parent anc"

text \<open>The clone is built from a fresh node, which is its own root.\<close>

fun var_clone :: "u32 \<Rightarrow> var \<Rightarrow> var" where
  "var_clone ih (Var h (VDict (VLink ks ct cp cn))) =
     foldl (\<lambda>res (k, ins). fst (snd (attach ih 0 (rename k ins) res))) (Var hdr0 (VDict no_kids))
       (map (\<lambda>crsr. (var_id crsr, var_clone ih crsr)) ks)"
| "var_clone ih (Var h (VArray (VLink ks ct cp cn))) =
     foldl (\<lambda>res ins. fst (snd (attach ih 0 ins res))) (Var hdr0 (VArray no_kids)) (map (var_clone ih) ks)"
| "var_clone ih (Var h VNull) = Var hdr0 VNull"
| "var_clone ih (Var h (VInt i)) = Var hdr0 (VInt i)"
| "var_clone ih (Var h (VDouble d)) = Var hdr0 (VDouble d)"
| "var_clone ih (Var h (VStr s)) = Var hdr0 (VStr s)"

subsection \<open>Values\<close>

text \<open>Truncation to a signed 32-bit \<^verbatim>\<open>int\<close> happens where the code assigns to one.\<close>

definition var_get_int :: "(dbl \<Rightarrow> u64) \<Rightarrow> var \<Rightarrow> u64" where
  "var_get_int cv self = (case vv self of VStr s \<Rightarrow> strtoull10 s | VDouble d \<Rightarrow> dbl_to_u64 cv d | VInt i \<Rightarrow> i | _ \<Rightarrow> 0)"

definition var_get_double :: "var \<Rightarrow> dbl" where
  "var_get_double self = (case vv self of
     VStr s \<Rightarrow> Fin (c_atof s) | VDouble d \<Rightarrow> d | VInt i \<Rightarrow> Fin (rnd (of_nat (unat i))) | _ \<Rightarrow> Fin 0)"

definition var_get_str :: "var \<Rightarrow> string option" where
  "var_get_str self = (case vv self of VStr s \<Rightarrow> Some s | _ \<Rightarrow> None)"

definition var_get_uuid :: "var \<Rightarrow> uuid" where
  "var_get_uuid self = mkuuid (var_get_str self)"

definition var_get_count :: "var \<Rightarrow> int" where
  "var_get_count self = (case links (vv self) of Some l \<Rightarrow> sint (kcount l) | None \<Rightarrow> - 1)"

definition var_set_int :: "var \<Rightarrow> chain \<Rightarrow> u64 \<Rightarrow> (var \<times> chain) res" where
  "var_set_int v anc val =
     rbind (root_gen (hdr v) anc) (\<lambda>root.
       let h = (case root of Some g \<Rightarrow> (hdr v)\<lparr>v_gen := g\<rparr> | None \<Rightarrow> hdr v) in
       case vv v of
         VNull \<Rightarrow> touch True (Var (h\<lparr>v_lastmod := v_gen h\<rparr>) (VInt val)) anc
       | VInt i \<Rightarrow> touch (i \<noteq> val) (Var h (VInt val)) anc
       | _ \<Rightarrow> Ok (Var h (vv v), anc))"

definition var_set_double :: "var \<Rightarrow> chain \<Rightarrow> dbl \<Rightarrow> (var \<times> chain) res" where
  "var_set_double v anc val =
     rbind (root_gen (hdr v) anc) (\<lambda>root.
       let h = (case root of Some g \<Rightarrow> (hdr v)\<lparr>v_gen := g\<rparr> | None \<Rightarrow> hdr v) in
       case vv v of
         VNull \<Rightarrow> touch True (Var (h\<lparr>v_lastmod := v_gen h\<rparr>) (VDouble val)) anc
       | VDouble d \<Rightarrow> touch (d \<noteq> val) (Var h (VDouble val)) anc
       | _ \<Rightarrow> Ok (Var h (vv v), anc))"

definition var_own_str :: "var \<Rightarrow> chain \<Rightarrow> string \<Rightarrow> (var \<times> chain) res" where
  "var_own_str v anc val =
     (case vv v of
        VNull \<Rightarrow> touch True (Var (hdr v) (VStr val)) anc
      | VStr s \<Rightarrow> touch True (Var (hdr v) (VStr val)) anc
      | _ \<Rightarrow> Ok (v, anc))"

definition var_set_str :: "var \<Rightarrow> chain \<Rightarrow> string \<Rightarrow> (var \<times> chain) res" where
  "var_set_str v anc val =
     (case vv v of
        VNull \<Rightarrow> touch True (Var (hdr v) (VStr val)) anc
      | VStr s \<Rightarrow> if s = val then touch False v anc else touch True (Var (hdr v) (VStr val)) anc
      | _ \<Rightarrow> Ok (v, anc))"

definition var_set_uuid :: "var \<Rightarrow> chain \<Rightarrow> uuid \<Rightarrow> (var \<times> chain) res" where
  "var_set_uuid v anc u = var_set_str v anc (uuid2str u)"

definition var_set_unixtime :: "var \<Rightarrow> chain \<Rightarrow> time_t \<Rightarrow> (var \<times> chain) res" where
  "var_set_unixtime v anc t = var_set_int v anc (word_of_int t)"

subsection \<open>Dictionaries\<close>

text \<open>
  The search compares names only where the hash codes agree, and fills in missing hash codes.
  An unset node becomes an empty dictionary. The result is the node and the position found.
\<close>

fun find_key_loop :: "u32 \<Rightarrow> u32 \<Rightarrow> string \<Rightarrow> var list \<Rightarrow> var list \<times> nat option" where
  "find_key_loop ih hash key [] = ([], None)"
| "find_key_loop ih hash key (c # cs) =
     (if v_hash (hdr c) = 0 \<or> v_hash (hdr c) = hash then
        if var_id c = key then (c # cs, Some 0)
        else
          let c = (if v_hash (hdr c) = 0 then with_hdr (\<lambda>h. h\<lparr>v_hash := hash_token ih (v_id h)\<rparr>) c else c);
              (cs, r) = find_key_loop ih hash key cs
          in (c # cs, map_option Suc r)
      else let (cs, r) = find_key_loop ih hash key cs in (c # cs, map_option Suc r))"

definition var_find_key :: "u32 \<Rightarrow> var \<Rightarrow> string \<Rightarrow> var \<times> nat option" where
  "var_find_key ih self key =
     (case vv self of
        VNull \<Rightarrow> (Var (hdr self) (VDict no_kids), None)
      | VDict l \<Rightarrow> (let (ks, r) = find_key_loop ih (hash_token ih key) key (kids l) in (set_kids self ks, r))
      | _ \<Rightarrow> (self, None))"

text \<open>
  A node inside its parent (at a position) or outside every list (\<open>Loose\<close>): a node without a
  name that was to go into a dictionary keeps its \<open>parent\<close> pointer but is never reached again.
\<close>

datatype place = Kid nat | Loose var

fun place_var :: "var \<Rightarrow> place \<Rightarrow> var" where
  "place_var self (Kid i) = kids_of self ! i"
| "place_var self (Loose v) = v"

text \<open>
  Run \<open>f\<close> on a child in its place; it sees the parent as its innermost ancestor. \<open>leave\<close> goes
  back up with the child and the headers that \<open>f\<close> left.
\<close>

fun leave :: "place \<Rightarrow> var \<Rightarrow> var \<Rightarrow> chain \<Rightarrow> var \<times> chain" where
  "leave (Kid i) self c hs = (Var (hd hs) (vv (set_kids self ((kids_of self)[i := c]))), tl hs)"
| "leave (Loose v) self c hs = (Var (hd hs) (vv self), tl hs)"

definition at_place :: "place \<Rightarrow> (var \<Rightarrow> chain \<Rightarrow> (var \<times> chain) res) \<Rightarrow> var \<Rightarrow> chain \<Rightarrow> (var \<times> chain) res" where
  "at_place p f self anc = rbind (f (place_var self p) (hdr self # anc)) (\<lambda>(c, hs). Ok (leave p self c hs))"

text \<open>The node a key leads to, or a fresh one of value \<open>x\<close>.\<close>

definition find_or_make :: "u32 \<Rightarrow> var \<Rightarrow> chain \<Rightarrow> string \<Rightarrow> var vval \<Rightarrow> (var \<times> place) res" where
  "find_or_make ih self anc key x =
     (case var_find_key ih self key of
        (self, Some i) \<Rightarrow> Ok (self, Kid i)
      | (self, None) \<Rightarrow>
          rbind (var_link ih (Var (hdr0\<lparr>v_id := c_truncate 127 key, v_hash := hash_token ih key\<rparr>) x) self anc)
            (\<lambda>(res, self, linked). Ok (self, if linked then Kid (length (kids_of self) - 1) else Loose res)))"

definition var_get_or_make :: "u32 \<Rightarrow> var \<Rightarrow> chain \<Rightarrow> string \<Rightarrow> (var \<times> place) res" where
  "var_get_or_make ih self anc key =
     (let self = (if vv self = VNull then Var (hdr self) (VDict no_kids) else self) in find_or_make ih self anc key VNull)"

definition is_dict :: "var \<Rightarrow> bool" where
  "is_dict v = (case vv v of VDict _ \<Rightarrow> True | _ \<Rightarrow> False)"

definition is_array :: "var \<Rightarrow> bool" where
  "is_array v = (case vv v of VArray _ \<Rightarrow> True | _ \<Rightarrow> False)"

definition var_get_dict_forkey :: "u32 \<Rightarrow> var \<Rightarrow> chain \<Rightarrow> string \<Rightarrow> (var \<times> place option) res" where
  "var_get_dict_forkey ih self anc key =
     rbind (find_or_make ih self anc key (VDict no_kids)) (\<lambda>(self, p).
       Ok (self, if is_dict (place_var self p) then Some p else None))"

definition var_get_array_forkey :: "u32 \<Rightarrow> var \<Rightarrow> chain \<Rightarrow> string \<Rightarrow> (var \<times> place option) res" where
  "var_get_array_forkey ih self anc key =
     rbind (find_or_make ih self anc key (VArray no_kids)) (\<lambda>(self, p).
       Ok (self, if is_array (place_var self p) then Some p else None))"

text \<open>The child a key leads to. (The node itself after the lookup is \<open>fst (var_find_key ih self key)\<close>.)\<close>

definition kid_forkey :: "u32 \<Rightarrow> var \<Rightarrow> string \<Rightarrow> var option" where
  "kid_forkey ih self key = (case var_find_key ih self key of (self, r) \<Rightarrow> map_option (\<lambda>i. kids_of self ! i) r)"

definition var_get_int_forkey :: "(dbl \<Rightarrow> u64) \<Rightarrow> u32 \<Rightarrow> var \<Rightarrow> string \<Rightarrow> u64" where
  "var_get_int_forkey cv ih self key = (case kid_forkey ih self key of None \<Rightarrow> 0 | Some c \<Rightarrow> var_get_int cv c)"

definition var_get_double_forkey :: "u32 \<Rightarrow> var \<Rightarrow> string \<Rightarrow> dbl" where
  "var_get_double_forkey ih self key = (case kid_forkey ih self key of None \<Rightarrow> Fin 0 | Some c \<Rightarrow> var_get_double c)"

definition var_get_str_forkey :: "u32 \<Rightarrow> var \<Rightarrow> string \<Rightarrow> string option" where
  "var_get_str_forkey ih self key = (case kid_forkey ih self key of None \<Rightarrow> None | Some c \<Rightarrow> var_get_str c)"

definition var_get_uuid_forkey :: "u32 \<Rightarrow> var \<Rightarrow> string \<Rightarrow> uuid" where
  "var_get_uuid_forkey ih self key = mkuuid (var_get_str_forkey ih self key)"

definition set_forkey ::
  "u32 \<Rightarrow> var \<Rightarrow> chain \<Rightarrow> string \<Rightarrow> (var \<Rightarrow> chain \<Rightarrow> (var \<times> chain) res) \<Rightarrow> (var \<times> chain) res" where
  "set_forkey ih self anc key f =
     rbind (var_get_or_make ih self anc key) (\<lambda>(self, p). at_place p f self anc)"

definition var_set_int_forkey :: "u32 \<Rightarrow> var \<Rightarrow> chain \<Rightarrow> string \<Rightarrow> u64 \<Rightarrow> (var \<times> chain) res" where
  "var_set_int_forkey ih self anc key val = set_forkey ih self anc key (\<lambda>v anc. var_set_int v anc val)"

definition var_set_double_forkey :: "u32 \<Rightarrow> var \<Rightarrow> chain \<Rightarrow> string \<Rightarrow> dbl \<Rightarrow> (var \<times> chain) res" where
  "var_set_double_forkey ih self anc key val = set_forkey ih self anc key (\<lambda>v anc. var_set_double v anc val)"

definition var_set_str_forkey :: "u32 \<Rightarrow> var \<Rightarrow> chain \<Rightarrow> string \<Rightarrow> string \<Rightarrow> (var \<times> chain) res" where
  "var_set_str_forkey ih self anc key val = set_forkey ih self anc key (\<lambda>v anc. var_set_str v anc val)"

definition var_set_uuid_forkey :: "u32 \<Rightarrow> var \<Rightarrow> chain \<Rightarrow> string \<Rightarrow> uuid \<Rightarrow> (var \<times> chain) res" where
  "var_set_uuid_forkey ih self anc key u = set_forkey ih self anc key (\<lambda>v anc. var_set_uuid v anc u)"

definition var_set_unixtime_forkey :: "u32 \<Rightarrow> var \<Rightarrow> chain \<Rightarrow> string \<Rightarrow> time_t \<Rightarrow> (var \<times> chain) res" where
  "var_set_unixtime_forkey ih self anc key t = set_forkey ih self anc key (\<lambda>v anc. var_set_int v anc (word_of_int t))"

text \<open>
  Taking a child out of its list. \<^verbatim>\<open>var_free\<close> resets the cache of the parent; \<^verbatim>\<open>var_delete_key\<close>
  does not, so that a cached pointer to the child dangles.
\<close>

definition drop_at :: "nat \<Rightarrow> 'a list \<Rightarrow> 'a list" where
  "drop_at i xs = take i xs @ drop (Suc i) xs"

definition var_free :: "nat \<Rightarrow> var \<Rightarrow> var" where
  "var_free i self = (case links (vv self) of
     Some l \<Rightarrow> Var (hdr self) (relink (vv self) (freed l 1 (drop_at i (kids l)))) | None \<Rightarrow> self)"

definition shift_cache :: "nat \<Rightarrow> nat option \<Rightarrow> nat option" where
  "shift_cache i c = (case c of None \<Rightarrow> None | Some k \<Rightarrow> if k = i then None else if i < k then Some (k - 1) else Some k)"

definition var_delete_key :: "u32 \<Rightarrow> var \<Rightarrow> string \<Rightarrow> var" where
  "var_delete_key ih v k =
     (if \<not> is_dict v then v
      else case var_find_key ih v k of
             (v, None) \<Rightarrow> v
           | (v, Some i) \<Rightarrow> (case links (vv v) of
               Some l \<Rightarrow> Var (hdr v) (relink (vv v) (VLink (drop_at i (kids l)) (kcount l - 1) (cachepos l) (shift_cache i (cachenode l))))
             | None \<Rightarrow> v))"


subsection \<open>Copying\<close>

text \<open>
  \<open>var_copy_merge ih merge orig self anc\<close> copies \<open>orig\<close> into \<open>self\<close>. Merging into a string frees
  it and leaves a NULL string pointer behind that every later read of the node follows; the
  model reports this at once. A merge adds the members of a dictionary that are missing and
  goes down into dictionaries; it leaves other existing members alone.
\<close>

fun var_copy_merge :: "u32 \<Rightarrow> bool \<Rightarrow> var \<Rightarrow> var \<Rightarrow> chain \<Rightarrow> (var \<times> chain) res"
  and copy_members :: "u32 \<Rightarrow> bool \<Rightarrow> var list \<Rightarrow> var \<Rightarrow> chain \<Rightarrow> (var \<times> chain) res" where
  "var_copy_merge ih merge (Var oh (VDict (VLink ks ct cp cn))) self anc =
     (if merge then (case vv self of
          VStr s \<Rightarrow> Fault NullDeref
        | VDict l \<Rightarrow> copy_members ih True ks self anc
        | _ \<Rightarrow> Ok (self, anc))
      else copy_members ih False ks (Var (hdr self) (VDict no_kids)) anc)"
| "var_copy_merge ih merge (Var oh (VArray (VLink ks ct cp cn))) self anc =
     (if merge \<and> \<not> is_dict self then (case vv self of VStr s \<Rightarrow> Fault NullDeref | _ \<Rightarrow> Ok (self, anc))
      else rbind (needs_gen (hdr self) anc) (\<lambda>g.
        Ok (foldl (\<lambda>self crsr. fst (snd (attach ih g (with_hdr (\<lambda>h. h\<lparr>v_id := '''', v_hash := 0\<rparr>) (var_clone ih crsr)) self)))
              (Var (hdr self) (VArray no_kids)) ks, anc)))"
| "var_copy_merge ih merge orig self anc =
     (if merge \<and> \<not> is_dict self then (case vv self of VStr s \<Rightarrow> Fault NullDeref | _ \<Rightarrow> Ok (self, anc))
      else
        let self = (if merge then self else Var (hdr self) VNull) in
        case vv orig of
          VInt i \<Rightarrow> var_set_int self anc i
        | VDouble d \<Rightarrow> var_set_double self anc d
        | VStr s \<Rightarrow> var_set_str self anc s
        | _ \<Rightarrow> Ok (self, anc))"
| "copy_members ih merge [] self anc = Ok (self, anc)"
| "copy_members ih merge (crsr # cs) self anc =
     (case (if merge then var_find_key ih self (var_id crsr) else (self, None)) of
        (self, Some i) \<Rightarrow>
          rbind (if is_dict (kids_of self ! i) then at_place (Kid i) (\<lambda>c hs. var_copy_merge ih True crsr c hs) self anc else Ok (self, anc))
            (\<lambda>(self, anc). copy_members ih merge cs self anc)
      | (self, None) \<Rightarrow>
          rbind (var_link_as ih (var_clone ih crsr) self anc (var_id crsr))
            (\<lambda>(nvar, self, linked). copy_members ih merge cs self anc))"

definition var_copy :: "u32 \<Rightarrow> var \<Rightarrow> var \<Rightarrow> chain \<Rightarrow> (var \<times> chain) res" where
  "var_copy ih orig self anc = var_copy_merge ih False orig self anc"

definition var_merge :: "u32 \<Rightarrow> var \<Rightarrow> var \<Rightarrow> chain \<Rightarrow> (var \<times> chain) res" where
  "var_merge ih orig self anc = var_copy_merge ih True orig self anc"

subsection \<open>Arrays\<close>

definition add_node :: "u32 \<Rightarrow> var \<Rightarrow> chain \<Rightarrow> var vval \<Rightarrow> var res" where
  "add_node ih self anc x = rbind (var_link ih (Var hdr0 x) self anc) (\<lambda>(nvar, self, linked). Ok self)"

definition var_add_int :: "u32 \<Rightarrow> var \<Rightarrow> chain \<Rightarrow> u64 \<Rightarrow> var res" where
  "var_add_int ih self anc nval = (if \<not> is_array self then Ok self else add_node ih self anc (VInt nval))"

definition var_add_double :: "u32 \<Rightarrow> var \<Rightarrow> chain \<Rightarrow> dbl \<Rightarrow> var res" where
  "var_add_double ih self anc nval = (if \<not> is_array self then Ok self else add_node ih self anc (VDouble nval))"

definition var_add_str :: "u32 \<Rightarrow> var \<Rightarrow> chain \<Rightarrow> string \<Rightarrow> var res" where
  "var_add_str ih self anc nval = (if \<not> is_array self then Ok self else add_node ih self anc (VStr nval))"

definition var_add_uuid :: "u32 \<Rightarrow> var \<Rightarrow> chain \<Rightarrow> uuid \<Rightarrow> var res" where
  "var_add_uuid ih self anc u = var_add_str ih self anc (uuid2str u)"

definition var_add_unixtime :: "u32 \<Rightarrow> var \<Rightarrow> chain \<Rightarrow> time_t \<Rightarrow> var res" where
  "var_add_unixtime ih self anc t = (if \<not> is_array self then Ok self else add_node ih self anc (VInt (word_of_int t)))"

text \<open>The new node is the last child.\<close>

definition add_container :: "u32 \<Rightarrow> var \<Rightarrow> chain \<Rightarrow> var vval \<Rightarrow> (var \<times> nat option) res" where
  "add_container ih self anc x =
     (let self = (if vv self = VNull then Var (hdr self) (VArray no_kids) else self) in
      if \<not> is_array self then Ok (self, None)
      else rbind (add_node ih self anc x) (\<lambda>self. Ok (self, Some (length (kids_of self) - 1))))"

definition var_add_array :: "u32 \<Rightarrow> var \<Rightarrow> chain \<Rightarrow> (var \<times> nat option) res" where
  "var_add_array ih self anc = add_container ih self anc (VArray no_kids)"

definition var_add_dict :: "u32 \<Rightarrow> var \<Rightarrow> chain \<Rightarrow> (var \<times> nat option) res" where
  "var_add_dict ih self anc = add_container ih self anc (VDict no_kids)"

definition var_clear_array :: "var \<Rightarrow> chain \<Rightarrow> (var \<times> chain) res" where
  "var_clear_array v anc =
     (case vv v of
        VArray l \<Rightarrow> touch True (Var (hdr v) (VArray (VLink [] (kcount l - of_nat (length (kids l))) (- 1)
                      (if kids l = [] then cachenode l else None)))) anc
      | _ \<Rightarrow> Ok (v, anc))"

text \<open>
  The lookup by position. A negative index is \<^verbatim>\<open>count - index\<close>, past the end. A hit of the cache,
  or of the position next to it, follows the cached pointer.
\<close>

definition cached :: "'v vlink \<Rightarrow> int \<Rightarrow> nat option res" where
  "cached l absindex =
     (if cachepos l = absindex + 1 then
        (case cachenode l of None \<Rightarrow> Fault UseAfterFree | Some k \<Rightarrow> Ok (if k = 0 then None else Some (k - 1)))
      else if absindex \<noteq> 0 \<and> cachepos l = absindex - 1 then
        (case cachenode l of None \<Rightarrow> Fault UseAfterFree | Some k \<Rightarrow> Ok (if Suc k < length (kids l) then Some (Suc k) else None))
      else Ok None)"

definition var_find_index :: "var \<Rightarrow> int \<Rightarrow> (var \<times> nat option) res" where
  "var_find_index self index =
     (case links (vv self) of
        None \<Rightarrow> Ok (self, None)
      | Some l \<Rightarrow>
          let absindex = (if index < 0 then int (unat (kcount l)) - index else index) in
          if absindex \<ge> int (unat (kcount l)) then Ok (self, None)
          else if cachepos l = absindex then
            (case cachenode l of None \<Rightarrow> Fault UseAfterFree | Some k \<Rightarrow> Ok (self, Some k))
          else
            rbind (cached l absindex) (\<lambda>res.
              let res = (case res of Some k \<Rightarrow> Some k
                         | None \<Rightarrow> if nat absindex < length (kids l) then Some (nat absindex) else None)
              in case res of
                   None \<Rightarrow> Ok (self, None)
                 | Some k \<Rightarrow> Ok (Var (hdr self) (relink (vv self) (VLink (kids l) (kcount l) absindex (Some k))), Some k)))"

definition get_atindex :: "(var \<Rightarrow> 'a) \<Rightarrow> 'a \<Rightarrow> var \<Rightarrow> int \<Rightarrow> (var \<times> 'a) res" where
  "get_atindex f z self idx =
     rbind (var_find_index self idx) (\<lambda>(self, r). Ok (self, case r of None \<Rightarrow> z | Some i \<Rightarrow> f (kids_of self ! i)))"

definition var_get_int_atindex :: "(dbl \<Rightarrow> u64) \<Rightarrow> var \<Rightarrow> int \<Rightarrow> (var \<times> u64) res" where
  "var_get_int_atindex cv self idx = get_atindex (var_get_int cv) 0 self idx"

definition var_get_double_atindex :: "var \<Rightarrow> int \<Rightarrow> (var \<times> dbl) res" where
  "var_get_double_atindex self idx = get_atindex var_get_double (Fin 0) self idx"

definition var_get_str_atindex :: "var \<Rightarrow> int \<Rightarrow> (var \<times> string option) res" where
  "var_get_str_atindex self idx = get_atindex var_get_str None self idx"

definition var_get_uuid_atindex :: "var \<Rightarrow> int \<Rightarrow> (var \<times> uuid) res" where
  "var_get_uuid_atindex self idx = get_atindex var_get_uuid uuidnil self idx"

text \<open>\<^verbatim>\<open>var_indexof\<close> and \<^verbatim>\<open>var_contains_str\<close>.\<close>

fun indexof_loop :: "string \<Rightarrow> var list \<Rightarrow> int \<Rightarrow> int" where
  "indexof_loop str [] pos = - 1"
| "indexof_loop str (node # ns) pos = (if var_get_str node = Some str then pos else indexof_loop str ns (pos + 1))"

definition var_indexof :: "var \<Rightarrow> string \<Rightarrow> int" where
  "var_indexof self str = (if is_array self then indexof_loop str (kids_of self) 0 else - 1)"

definition var_contains_str :: "var \<Rightarrow> string \<Rightarrow> bool" where
  "var_contains_str self str \<longleftrightarrow> is_array self \<and> \<not> var_indexof self str < 0"

subsection \<open>Sorting\<close>

definition c_tolower :: "char \<Rightarrow> nat" where
  "c_tolower c = (let n = of_char c in if 65 \<le> n \<and> n \<le> 90 then n + 32 else n)"

fun strcasecmp :: "string \<Rightarrow> string \<Rightarrow> int" where
  "strcasecmp [] [] = 0"
| "strcasecmp [] (b # bs) = - int (c_tolower b)"
| "strcasecmp (a # as) [] = int (c_tolower a)"
| "strcasecmp (a # as) (b # bs) =
     (if c_tolower a = c_tolower b then strcasecmp as bs else int (c_tolower a) - int (c_tolower b))"

fun strcmp :: "string \<Rightarrow> string \<Rightarrow> int" where
  "strcmp [] [] = 0"
| "strcmp [] (b # bs) = - int (of_char b)"
| "strcmp (a # as) [] = int (of_char a)"
| "strcmp (a # as) (b # bs) = (if a = b then strcmp as bs else int (of_char a) - int (of_char b))"

definition c_cmp :: "'a::linorder \<Rightarrow> 'a \<Rightarrow> int" where
  "c_cmp a b = (if a > b then 1 else if a = b then 0 else - 1)"

fun dbl_gt :: "dbl \<Rightarrow> dbl \<Rightarrow> bool" where
  "dbl_gt (Fin a) (Fin b) = (a > b)"
| "dbl_gt Inf (Fin b) = True"
| "dbl_gt _ Inf = False"

definition to_int32 :: "u64 \<Rightarrow> int" where
  "to_int32 i = sint (ucast i :: 32 word)"

definition var_comp_values :: "(dbl \<Rightarrow> u64) \<Rightarrow> var \<Rightarrow> var \<Rightarrow> int res" where
  "var_comp_values cv left right =
     (case vv left of
        VNull \<Rightarrow> Ok (if vv right \<noteq> VNull then 1 else 0)
      | VInt i \<Rightarrow> Ok (c_cmp (to_int32 i) (to_int32 (var_get_int cv right)))
      | VDouble d \<Rightarrow> Ok (if dbl_gt d (var_get_double right) then 1 else if d = var_get_double right then 0 else - 1)
      | VStr s \<Rightarrow> (case var_get_str right of None \<Rightarrow> Fault NullDeref | Some t \<Rightarrow> Ok (strcasecmp s t))
      | VDict l \<Rightarrow> Ok (case vv right of VDict r \<Rightarrow> c_cmp (kcount l) (kcount r) | _ \<Rightarrow> 0)
      | VArray l \<Rightarrow> Ok (case vv right of VArray r \<Rightarrow> c_cmp (kcount l) (kcount r) | _ \<Rightarrow> 0))"

datatype sortby = SORT_VALUE | SORT_ID | SORT_KEY

text \<open>The later keys are looked at while the earlier ones compare equal or are missing.\<close>

fun comp_keys :: "(dbl \<Rightarrow> u64) \<Rightarrow> u32 \<Rightarrow> var \<Rightarrow> var \<Rightarrow> string option list \<Rightarrow> int res" where
  "comp_keys cv ih crsr i [] = Ok 0"
| "comp_keys cv ih crsr i (None # ks) = comp_keys cv ih crsr i ks"
| "comp_keys cv ih crsr i (Some k # ks) =
     (case (kid_forkey ih crsr k, kid_forkey ih i k) of
        (Some left, Some right) \<Rightarrow>
          rbind (var_comp_values cv left right) (\<lambda>res. if res = 0 then comp_keys cv ih crsr i ks else Ok res)
      | _ \<Rightarrow> comp_keys cv ih crsr i ks)"

definition var_sortfunc ::
  "(dbl \<Rightarrow> u64) \<Rightarrow> u32 \<Rightarrow> sortby \<Rightarrow> bool \<Rightarrow> string option list \<Rightarrow> var \<Rightarrow> var \<Rightarrow> int res" where
  "var_sortfunc cv ih by_what descend ks crsr i =
     rbind (case by_what of
         SORT_VALUE \<Rightarrow> var_comp_values cv crsr i
       | SORT_ID \<Rightarrow> Ok (strcmp (var_id crsr) (var_id i))
       | SORT_KEY \<Rightarrow> if \<not> is_dict crsr then Ok (- 1) else if \<not> is_dict i then Ok 1 else comp_keys cv ih crsr i ks)
     (\<lambda>res. Ok (if descend then - res else res))"

text \<open>
  The insertion sort. A node that belongs before the first one becomes the first, one that
  belongs after all of them the last. One that belongs between two gets its own \<^verbatim>\<open>next\<close> and
  \<^verbatim>\<open>prev\<close>, but the node before it keeps its \<^verbatim>\<open>next\<close>: the list from \<^verbatim>\<open>first\<close> does not contain it.
\<close>

fun first_greater :: "(var \<Rightarrow> var \<Rightarrow> int res) \<Rightarrow> var \<Rightarrow> var list \<Rightarrow> nat option res" where
  "first_greater cmp crsr [] = Ok None"
| "first_greater cmp crsr (i # is) =
     rbind (cmp i crsr) (\<lambda>res. if res > 0 then Ok (Some 0)
       else rbind (first_greater cmp crsr is) (\<lambda>r. Ok (map_option Suc r)))"

definition sort_insert :: "(var \<Rightarrow> var \<Rightarrow> int res) \<Rightarrow> var \<Rightarrow> var list \<Rightarrow> var list res" where
  "sort_insert cmp crsr acc =
     rbind (first_greater cmp crsr acc) (\<lambda>r. Ok (case r of
       None \<Rightarrow> acc @ [crsr] | Some 0 \<Rightarrow> crsr # acc | Some (Suc k) \<Rightarrow> acc))"

fun sort_loop :: "(var \<Rightarrow> var \<Rightarrow> int res) \<Rightarrow> var list \<Rightarrow> var list \<Rightarrow> var list res" where
  "sort_loop cmp [] acc = Ok acc"
| "sort_loop cmp (crsr # cs) acc = rbind (sort_insert cmp crsr acc) (sort_loop cmp cs)"

text \<open>
  The old node is freed. Its children point to the new one as their root; deeper nodes that
  had it for a root keep the dangling pointer.
\<close>

fun unroot :: "nat \<Rightarrow> var \<Rightarrow> var" where
  "unroot d (Var h (VArray (VLink ks ct cp cn))) =
     Var (h\<lparr>v_root := (if v_root h = RootUp d then RootFreed else v_root h)\<rparr>) (VArray (VLink (map (unroot (Suc d)) ks) ct cp cn))"
| "unroot d (Var h (VDict (VLink ks ct cp cn))) =
     Var (h\<lparr>v_root := (if v_root h = RootUp d then RootFreed else v_root h)\<rparr>) (VDict (VLink (map (unroot (Suc d)) ks) ct cp cn))"
| "unroot d (Var h x) = Var (h\<lparr>v_root := (if v_root h = RootUp d then RootFreed else v_root h)\<rparr>) x"

definition reroot :: "var \<Rightarrow> var" where
  "reroot c = with_hdr (\<lambda>h. h\<lparr>v_root := RootUp 1\<rparr>) (unroot 1 c)"

text \<open>The sorted node by itself; its count stays 0.\<close>

definition sorted_node :: "(var \<Rightarrow> var \<Rightarrow> int res) \<Rightarrow> var \<Rightarrow> var res" where
  "sorted_node cmp orig =
     (case links (vv orig) of
        None \<Rightarrow> Ok orig
      | Some l \<Rightarrow> rbind (sort_loop cmp (kids l) []) (\<lambda>ks.
          Ok (Var hdr0 (relink (vv orig) (VLink (map reroot ks) 0 (- 1) None)))))"

text \<open>Sorting a child: the new node goes to the end of the parent's list.\<close>

definition sort_kid :: "u32 \<Rightarrow> (var \<Rightarrow> var \<Rightarrow> int res) \<Rightarrow> nat \<Rightarrow> var \<Rightarrow> chain \<Rightarrow> var res" where
  "sort_kid ih cmp i parent anc =
     (let orig = kids_of parent ! i in
      if links (vv orig) = None then Ok parent
      else rbind (sorted_node cmp orig) (\<lambda>res.
        let parent = (case links (vv parent) of
              Some l \<Rightarrow> Var (hdr parent) (relink (vv parent) (VLink (drop_at i (kids l)) (kcount l - 1)
                (if cachenode l = Some i then - 1 else cachepos l) (shift_cache i (cachenode l))))
            | None \<Rightarrow> parent)
        in rbind (var_link ih (rename (var_id orig) res) parent anc) (\<lambda>(res, parent, linked). Ok parent)))"

definition var_sort_keys ::
  "(dbl \<Rightarrow> u64) \<Rightarrow> u32 \<Rightarrow> bool \<Rightarrow> string option list \<Rightarrow> var \<Rightarrow> var res" where
  "var_sort_keys cv ih descend ks orig = sorted_node (var_sortfunc cv ih SORT_KEY descend ks) orig"

definition var_sort_key :: "(dbl \<Rightarrow> u64) \<Rightarrow> u32 \<Rightarrow> bool \<Rightarrow> string \<Rightarrow> var \<Rightarrow> var res" where
  "var_sort_key cv ih descend key orig = var_sort_keys cv ih descend [Some key, None, None] orig"

subsection \<open>Escaping\<close>

fun var_escape_str :: "string \<Rightarrow> string" where
  "var_escape_str [] = []"
| "var_escape_str (c # cs) =
     (if c = CHR 0x5C \<or> c = CHR 0x22 then CHR 0x5C # c # var_escape_str cs
      else if c = CHR 0x0A then CHR 0x5C # CHR ''n'' # var_escape_str cs
      else c # var_escape_str cs)"


end
