(* ===== verification/VarProps.thy ===== *)
theory VarProps
  imports Var
begin

text \<open>
  What the operations on variables do: the invariant of a variable tree and its preservation,
  the JSON value a tree stands for and the operations on it, the search by hash code, the
  lookup by position with its cache, sorting, and the generations.
\<close>

subsection \<open>Headers on the way to the root\<close>

text \<open>In a tree that was built in place, every root pointer leads to the top.\<close>

definition root_at :: "nat \<Rightarrow> vhdr \<Rightarrow> bool" where
  "root_at d h \<longleftrightarrow> v_root h = (if d = 0 then RootNone else RootUp d)"

fun chain_ok :: "chain \<Rightarrow> bool" where
  "chain_ok [] = True"
| "chain_ok (h # hs) = (root_at (length hs) h \<and> chain_ok hs)"

definition same_hdr :: "vhdr \<Rightarrow> vhdr \<Rightarrow> bool" where
  "same_hdr h h' \<longleftrightarrow> v_id h' = v_id h \<and> v_hash h' = v_hash h \<and> v_root h' = v_root h \<and> v_first h' = v_first h"

abbreviation same_chain :: "chain \<Rightarrow> chain \<Rightarrow> bool" where
  "same_chain \<equiv> list_all2 same_hdr"

lemma same_hdr_refl [simp]: "same_hdr h h"
  by (simp add: same_hdr_def)

lemma same_hdr_upd [simp]:
  "same_hdr h (h\<lparr>v_gen := g\<rparr>)" "same_hdr h (h\<lparr>v_lastmod := g\<rparr>)" "same_hdr h (h\<lparr>v_gen := g, v_lastmod := g'\<rparr>)"
  "same_hdr h (h\<lparr>v_lastmod := g', v_gen := g\<rparr>)"
  by (simp_all add: same_hdr_def)

lemma same_hdr_trans: "same_hdr a b \<Longrightarrow> same_hdr b c \<Longrightarrow> same_hdr a c"
  by (simp add: same_hdr_def)

lemma same_chain_refl [simp]: "same_chain hs hs"
  by (simp add: list_all2_refl)

lemma same_chain_trans: "same_chain a b \<Longrightarrow> same_chain b c \<Longrightarrow> same_chain a c"
  using list_all2_trans[of same_hdr same_hdr same_hdr] same_hdr_trans by blast

lemma same_chain_ok: "same_chain hs hs' \<Longrightarrow> chain_ok hs \<Longrightarrow> chain_ok hs'"
proof (induction rule: list_all2_induct)
  case (Cons h hs h' hs')
  then show ?case by (auto simp: root_at_def same_hdr_def dest: list_all2_lengthD)
qed simp

lemma root_gen_ok: "root_at (length anc) h \<Longrightarrow> root_gen h anc = Ok (if anc = [] then None else Some (v_gen (last anc)))"
  by (auto simp: root_at_def last_conv_nth)

lemma needs_gen_ok: "root_at (length anc) h \<Longrightarrow> needs_gen h anc = Ok (v_gen (last (h # anc)))"
  by (simp add: needs_gen_def root_gen_ok del: root_gen.simps)

lemma gendata_ok:
  "chain_ok hs \<Longrightarrow> \<exists>hs'. var_update_gendata u hs = Ok hs' \<and> same_chain hs hs'"
proof (induction u hs rule: var_update_gendata.induct)
  case (2 u v anc)
  have r: "root_gen v anc = Ok (if anc = [] then None else Some (v_gen (last anc)))" using 2(2) by (simp add: root_gen_ok del: root_gen.simps)
  show ?case
  proof (cases "anc = []")
    case True
    then show ?thesis using r by (simp del: root_gen.simps)
  next
    case False
    let ?g = "v_gen (last anc)" and ?v = "if u then v\<lparr>v_lastmod := v_gen (last anc)\<rparr> else v"
    have e: "root_gen v anc = Ok (Some ?g)" using r False by simp
    obtain hs' where "(u \<and> v_lastmod v = ?g) \<or> v_gen ?v = ?g \<or> (var_update_gendata u anc = Ok hs' \<and> same_chain anc hs')"
      using "2.IH"[of ?g ?v] 2(2) e by auto
    then show ?thesis using e by (auto simp: Let_def simp del: root_gen.simps)
  qed
qed simp

text \<open>A node touched in its place keeps what is not generation data, and so do its ancestors.\<close>

lemma touch_ok:
  assumes "chain_ok (hdr v # anc)"
  shows "\<exists>v' anc'. touch u v anc = Ok (v', anc') \<and> vv v' = vv v \<and> same_hdr (hdr v) (hdr v') \<and> same_chain anc anc'"
proof -
  obtain hs where hs: "var_update_gendata u (hdr v # anc) = Ok hs" "same_chain (hdr v # anc) hs"
    using gendata_ok[OF assms] by blast
  then show ?thesis by (cases hs) (auto simp: touch_def)
qed

subsection \<open>The tree invariant\<close>

definition link_ok :: "u32 \<Rightarrow> int \<Rightarrow> nat option \<Rightarrow> nat \<Rightarrow> bool" where
  "link_ok ct cp cn n \<longleftrightarrow> ct = of_nat n \<and> (cp = - 1 \<or> 0 \<le> cp \<and> cp < int n \<and> cn = Some (nat cp))"

definition key_ok :: "string \<Rightarrow> bool" where
  "key_ok k \<longleftrightarrow> k \<noteq> '''' \<and> length k \<le> 127 \<and> cstr k"

definition hash_ok :: "u32 \<Rightarrow> vhdr \<Rightarrow> bool" where
  "hash_ok ih h \<longleftrightarrow> v_hash h = 0 \<or> v_hash h = hash_token ih (v_id h)"

fun var_ok :: "u32 \<Rightarrow> nat \<Rightarrow> var \<Rightarrow> bool" where
  "var_ok ih d (Var h (VDict (VLink ks ct cp cn))) \<longleftrightarrow> root_at d h \<and> link_ok ct cp cn (length ks) \<and>
     distinct (map var_id ks) \<and> (\<forall>c\<in>set ks. key_ok (var_id c) \<and> hash_ok ih (hdr c) \<and> var_ok ih (Suc d) c)"
| "var_ok ih d (Var h (VArray (VLink ks ct cp cn))) \<longleftrightarrow> root_at d h \<and> link_ok ct cp cn (length ks) \<and>
     (\<forall>c\<in>set ks. var_id c = '''' \<and> var_ok ih (Suc d) c)"
| "var_ok ih d (Var h x) \<longleftrightarrow> root_at d h"

lemma var_ok_root: "var_ok ih d v \<Longrightarrow> root_at d (hdr v)"
  by (induction ih d v rule: var_ok.induct) simp_all

lemma var_ok_hdr: "var_ok ih d (Var h x) \<Longrightarrow> same_hdr h h' \<Longrightarrow> var_ok ih d (Var h' x)"
  by (induction ih d "Var h x" rule: var_ok.induct) (auto simp: same_hdr_def root_at_def)

lemma var_alloc_ok: "var_ok ih 0 var_alloc"
  by (simp add: var_alloc_def hdr0_def root_at_def)

text \<open>A dictionary and an array, seen through their children.\<close>

lemma var_ok_dict:
  "var_ok ih d v \<Longrightarrow> is_dict v \<Longrightarrow> \<exists>ct cp cn. vv v = VDict (VLink (kids_of v) ct cp cn) \<and> link_ok ct cp cn (length (kids_of v)) \<and>
     distinct (map var_id (kids_of v)) \<and> (\<forall>c\<in>set (kids_of v). key_ok (var_id c) \<and> hash_ok ih (hdr c) \<and> var_ok ih (Suc d) c)"
  by (induction ih d v rule: var_ok.induct) (auto simp: is_dict_def kids_of_def)

lemma var_ok_array:
  "var_ok ih d v \<Longrightarrow> is_array v \<Longrightarrow> \<exists>ct cp cn. vv v = VArray (VLink (kids_of v) ct cp cn) \<and> link_ok ct cp cn (length (kids_of v)) \<and>
     (\<forall>c\<in>set (kids_of v). var_id c = '''' \<and> var_ok ih (Suc d) c)"
  by (induction ih d v rule: var_ok.induct) (auto simp: is_array_def kids_of_def)

subsection \<open>JSON values\<close>

datatype json = JNull | JInt u64 | JDouble dbl | JStr string | JArr "json list" | JDict "(string \<times> json) list"

fun json_of :: "var \<Rightarrow> json" where
  "json_of (Var h VNull) = JNull"
| "json_of (Var h (VInt i)) = JInt i"
| "json_of (Var h (VDouble d)) = JDouble d"
| "json_of (Var h (VStr s)) = JStr s"
| "json_of (Var h (VArray (VLink ks ct cp cn))) = JArr (map json_of ks)"
| "json_of (Var h (VDict (VLink ks ct cp cn))) = JDict (map (\<lambda>c. (var_id c, json_of c)) ks)"

text \<open>Setting a node keeps its kind: a value of another kind is ignored.\<close>

fun json_fits :: "json \<Rightarrow> json \<Rightarrow> bool" where
  "json_fits JNull _ = True"
| "json_fits (JInt _) (JInt _) = True"
| "json_fits (JDouble _) (JDouble _) = True"
| "json_fits (JStr _) (JStr _) = True"
| "json_fits _ _ = False"

definition overwrite :: "json \<Rightarrow> json \<Rightarrow> json" where
  "overwrite new old = (if json_fits old new then new else old)"

fun put_member :: "string \<Rightarrow> json \<Rightarrow> (json \<Rightarrow> json) \<Rightarrow> (string \<times> json) list \<Rightarrow> (string \<times> json) list" where
  "put_member k z f [] = [(k, f z)]"
| "put_member k z f ((k', x) # ms) = (if k' = k then (k', f x) # ms else (k', x) # put_member k z f ms)"

fun members :: "json \<Rightarrow> (string \<times> json) list" where
  "members (JDict ms) = ms"
| "members _ = []"

lemma json_hdr [simp]: "json_of (Var h x) = json_of (Var h' x)"
  by (cases "Var h' x" rule: json_of.cases) auto

lemma json_dict: "vv v = VDict l \<Longrightarrow> json_of v = JDict (map (\<lambda>c. (var_id c, json_of c)) (kids l))"
  by (cases v; cases l) simp

lemma json_array: "vv v = VArray l \<Longrightarrow> json_of v = JArr (map json_of (kids l))"
  by (cases v; cases l) simp

text \<open>Setting a node in its place.\<close>

definition sets :: "u32 \<Rightarrow> nat \<Rightarrow> (json \<Rightarrow> json) \<Rightarrow> (var \<Rightarrow> chain \<Rightarrow> (var \<times> chain) res) \<Rightarrow> bool" where
  "sets ih d f op \<longleftrightarrow> (\<forall>v anc. var_ok ih d v \<longrightarrow> length anc = d \<longrightarrow> chain_ok anc \<longrightarrow>
     (\<exists>v' anc'. op v anc = Ok (v', anc') \<and> var_ok ih d v' \<and> same_hdr (hdr v) (hdr v') \<and> same_chain anc anc' \<and>
        json_of v' = f (json_of v)))"

lemma setsI:
  assumes "\<And>h x anc. var_ok ih d (Var h x) \<Longrightarrow> length anc = d \<Longrightarrow> chain_ok (h # anc) \<Longrightarrow>
    \<exists>v' anc'. op (Var h x) anc = Ok (v', anc') \<and> var_ok ih d v' \<and> same_hdr h (hdr v') \<and> same_chain anc anc' \<and> json_of v' = f (json_of (Var h x))"
  shows "sets ih d f op"
  unfolding sets_def
proof (intro allI impI)
  fix v anc assume a: "var_ok ih d v" "length anc = d" "chain_ok anc"
  have "chain_ok (hdr v # anc)" using var_ok_root[OF a(1)] a(2,3) by simp
  then show "\<exists>v' anc'. op v anc = Ok (v', anc') \<and> var_ok ih d v' \<and> same_hdr (hdr v) (hdr v') \<and> same_chain anc anc' \<and> json_of v' = f (json_of v)"
    using assms[of "hdr v" "vv v" anc] a by simp
qed

lemma touch_sets:
  assumes "chain_ok (h # anc)" "length anc = d" "var_ok ih d (Var h x)" "same_hdr h h'"
  shows "\<exists>v' anc'. touch u (Var h' x) anc = Ok (v', anc') \<and> var_ok ih d v' \<and> same_hdr h (hdr v') \<and> same_chain anc anc' \<and>
    json_of v' = json_of (Var h x)"
proof -
  have "chain_ok (hdr (Var h' x) # anc)" using assms(1,4) by (simp add: root_at_def same_hdr_def)
  then obtain v' anc' where t: "touch u (Var h' x) anc = Ok (v', anc')" "vv v' = x" "same_hdr h' (hdr v')" "same_chain anc anc'"
    using touch_ok[of "Var h' x" anc u] by auto
  have s: "same_hdr h (hdr v')" using assms(4) t(3) by (rule same_hdr_trans)
  have v': "v' = Var (hdr v') x" using t(2) by (cases v') simp
  have "var_ok ih d v'" by (subst v') (rule var_ok_hdr[OF assms(3) s])
  moreover have "json_of v' = json_of (Var h x)" by (subst v') (rule json_hdr)
  ultimately show ?thesis using t(1,4) s by blast
qed

lemma scalar_root [simp]:
  "var_ok ih d (Var h (VInt i)) = root_at d h" "var_ok ih d (Var h (VDouble r)) = root_at d h"
  "var_ok ih d (Var h (VStr s)) = root_at d h" "var_ok ih d (Var h VNull) = root_at d h"
  by simp_all

lemma set_gen_hdr:
  "chain_ok (h # anc) \<Longrightarrow> \<exists>r. root_gen h anc = Ok r \<and> same_hdr h (case r of Some g \<Rightarrow> h\<lparr>v_gen := g\<rparr> | None \<Rightarrow> h)"
  using root_gen_ok[of anc h] by (auto simp: same_hdr_def split: option.split simp del: root_gen.simps)

lemma var_set_int_sets: "sets ih d (overwrite (JInt i)) (\<lambda>v anc. var_set_int v anc i)"
proof (rule setsI)
  fix h x anc
  assume a: "var_ok ih d (Var h x)" "length anc = d" "chain_ok (h # anc)"
  obtain r where r: "root_gen h anc = Ok r" and s: "same_hdr h (case r of Some g \<Rightarrow> h\<lparr>v_gen := g\<rparr> | None \<Rightarrow> h)"
    using set_gen_hdr[OF a(3)] by blast
  define h' where "h' = (case r of Some g \<Rightarrow> h\<lparr>v_gen := g\<rparr> | None \<Rightarrow> h)"
  have rt: "root_at d h" using a(2,3) by auto
  have s': "same_hdr h h'" "same_hdr h (h'\<lparr>v_lastmod := v_gen h'\<rparr>)" using s unfolding h'_def same_hdr_def by simp_all
  have e: "var_set_int (Var h x) anc i = (case x of VNull \<Rightarrow> touch True (Var (h'\<lparr>v_lastmod := v_gen h'\<rparr>) (VInt i)) anc
       | VInt j \<Rightarrow> touch (j \<noteq> i) (Var h' (VInt i)) anc | _ \<Rightarrow> Ok (Var h' x, anc))"
    unfolding var_set_int_def var.sel h'_def by (simp add: r Let_def del: root_gen.simps)
  have new: "\<exists>v' anc'. touch u (Var h'' (VInt i)) anc = Ok (v', anc') \<and> var_ok ih d v' \<and> same_hdr h (hdr v') \<and> same_chain anc anc' \<and>
      json_of v' = JInt i" if "same_hdr h h''" for u h''
    using touch_sets[OF a(3,2) _ that, of ih "VInt i" u] rt by simp
  show "\<exists>v' anc'. var_set_int (Var h x) anc i = Ok (v', anc') \<and> var_ok ih d v' \<and> same_hdr h (hdr v') \<and> same_chain anc anc' \<and>
      json_of v' = overwrite (JInt i) (json_of (Var h x))"
  proof (cases "x = VNull \<or> (\<exists>j. x = VInt j)")
    case True
    then show ?thesis using new[OF s'(1)] new[OF s'(2)] unfolding e by (auto simp: overwrite_def)
  next
    case False
    then have "var_set_int (Var h x) anc i = Ok (Var h' x, anc)" unfolding e by (cases x) auto
    moreover have "overwrite (JInt i) (json_of (Var h x)) = json_of (Var h x)"
      using False by (cases "Var h x" rule: json_of.cases) (auto simp: overwrite_def)
    ultimately show ?thesis using var_ok_hdr[OF a(1) s'(1)] s'(1) by auto
  qed
qed

lemma var_set_str_sets: "sets ih d (overwrite (JStr s)) (\<lambda>v anc. var_set_str v anc s)"
proof (rule setsI)
  fix h x anc
  assume a: "var_ok ih d (Var h x)" "length anc = d" "chain_ok (h # anc)"
  have rt: "root_at d h" using a(2,3) by auto
  have new: "\<exists>v' anc'. touch u (Var h (VStr s)) anc = Ok (v', anc') \<and> var_ok ih d v' \<and> same_hdr h (hdr v') \<and> same_chain anc anc' \<and>
      json_of v' = JStr s" for u
    using touch_sets[OF a(3,2) _ same_hdr_refl, of ih "VStr s" u] rt by simp
  show "\<exists>v' anc'. var_set_str (Var h x) anc s = Ok (v', anc') \<and> var_ok ih d v' \<and> same_hdr h (hdr v') \<and> same_chain anc anc' \<and>
      json_of v' = overwrite (JStr s) (json_of (Var h x))"
  proof (cases "x = VNull \<or> (\<exists>t. x = VStr t)")
    case True
    then show ?thesis using new by (auto simp: overwrite_def var_set_str_def)
  next
    case False
    then have "var_set_str (Var h x) anc s = Ok (Var h x, anc)" by (cases x) (auto simp: var_set_str_def)
    moreover have "overwrite (JStr s) (json_of (Var h x)) = json_of (Var h x)"
      using False by (cases "Var h x" rule: json_of.cases) (auto simp: overwrite_def)
    ultimately show ?thesis using a(1) by auto
  qed
qed

subsection \<open>The search by hash code\<close>

text \<open>
  While every hash code is missing or right, the search finds the first child with the name;
  the codes it fills in are right too.
\<close>

definition rehashed :: "u32 \<Rightarrow> var \<Rightarrow> var \<Rightarrow> bool" where
  "rehashed ih c c' \<longleftrightarrow> vv c' = vv c \<and> (\<exists>x. hdr c' = (hdr c)\<lparr>v_hash := x\<rparr>) \<and> (hash_ok ih (hdr c) \<longrightarrow> hash_ok ih (hdr c'))"

lemma rehashed_refl [simp]: "rehashed ih c c"
  unfolding rehashed_def by (auto intro: exI[of _ "v_hash (hdr c)"])

lemma rehashed_fill [simp]: "rehashed ih c (with_hdr (\<lambda>h. h\<lparr>v_hash := hash_token ih (v_id h)\<rparr>) c)"
  by (auto simp: rehashed_def hash_ok_def)

lemma rehashedD:
  assumes "rehashed ih c c'"
  shows "var_id c' = var_id c" "json_of c' = json_of c" "var_ok ih d c \<Longrightarrow> var_ok ih d c'" "hash_ok ih (hdr c) \<Longrightarrow> hash_ok ih (hdr c')"
proof -
  obtain x where x: "c' = Var ((hdr c)\<lparr>v_hash := x\<rparr>) (vv c)" using assms unfolding rehashed_def by (cases c') auto
  show "var_id c' = var_id c" by (simp add: x)
  show "json_of c' = json_of c" unfolding x using json_hdr[of _ "vv c" "hdr c"] by simp
  show "hash_ok ih (hdr c) \<Longrightarrow> hash_ok ih (hdr c')" using assms by (simp add: rehashed_def)
  show "var_ok ih d c \<Longrightarrow> var_ok ih d c'" unfolding x
    by (induction ih d c rule: var_ok.induct) (auto simp: root_at_def)
qed

lemma find_key_loop_spec:
  assumes "\<forall>c\<in>set ks. hash_ok ih (hdr c)"
  shows "snd (find_key_loop ih (hash_token ih key) key ks) = find_index (\<lambda>c. var_id c = key) ks"
  using assms
proof (induction ks)
  case (Cons c cs)
  have h: "v_hash (hdr c) = 0 \<or> v_hash (hdr c) = hash_token ih (var_id c)" using Cons.prems by (simp add: hash_ok_def)
  show ?case using Cons.IH Cons.prems h by (auto simp: Let_def split_beta)
qed simp

lemma find_key_loop_same: "list_all2 (rehashed ih) ks (fst (find_key_loop ih hash key ks))"
  by (induction ks) (auto simp: Let_def split_beta list_all2_refl)

lemma rehashed_kids:
  assumes "list_all2 (rehashed ih) ks ks'"
  shows "map var_id ks' = map var_id ks" "map (\<lambda>c. (var_id c, json_of c)) ks' = map (\<lambda>c. (var_id c, json_of c)) ks"
    "length ks' = length ks"
    "\<forall>c\<in>set ks. key_ok (var_id c) \<and> hash_ok ih (hdr c) \<and> var_ok ih d c \<Longrightarrow>
     \<forall>c\<in>set ks'. key_ok (var_id c) \<and> hash_ok ih (hdr c) \<and> var_ok ih d c"
  using assms by (induction rule: list_all2_induct) (auto dest: rehashedD)

lemma vlink_ex: "\<exists>ks ct cp cn. l = VLink ks ct cp cn"
  by (cases l) simp

lemma is_dict_vv: "is_dict v \<longleftrightarrow> (\<exists>ks ct cp cn. vv v = VDict (VLink ks ct cp cn))"
proof (cases "vv v")
  case (VDict l)
  then show ?thesis using vlink_ex[of l] by (simp add: is_dict_def)
qed (simp_all add: is_dict_def)

lemma is_array_vv: "is_array v \<longleftrightarrow> (\<exists>ks ct cp cn. vv v = VArray (VLink ks ct cp cn))"
proof (cases "vv v")
  case (VArray l)
  then show ?thesis using vlink_ex[of l] by (simp add: is_array_def)
qed (simp_all add: is_array_def)

text \<open>A lookup in a dictionary changes nothing but hash codes.\<close>

lemma find_key_dict:
  assumes "var_ok ih d v" "is_dict v" "var_find_key ih v k = (v', r)"
  shows "r = find_index (\<lambda>c. var_id c = k) (kids_of v)" "var_ok ih d v'" "is_dict v'" "hdr v' = hdr v"
    "json_of v' = json_of v" "map var_id (kids_of v') = map var_id (kids_of v)" "length (kids_of v') = length (kids_of v)"
proof -
  obtain h ks ct cp cn where v: "v = Var h (VDict (VLink ks ct cp cn))" using assms(2) by (cases v) (auto simp: is_dict_vv)
  define ks' where "ks' = fst (find_key_loop ih (hash_token ih k) k ks)"
  have same: "list_all2 (rehashed ih) ks ks'" unfolding ks'_def by (rule find_key_loop_same)
  note rk = rehashed_kids[OF same]
  have hs: "\<forall>c\<in>set ks. hash_ok ih (hdr c)" using assms(1) v by simp
  have v': "v' = Var h (VDict (VLink ks' ct cp cn))" and r: "r = snd (find_key_loop ih (hash_token ih k) k ks)"
    using assms(3) by (auto simp: v var_find_key_def ks'_def set_kids_def split_beta Let_def)
  show "r = find_index (\<lambda>c. var_id c = k) (kids_of v)" using find_key_loop_spec[OF hs] r by (simp add: v kids_of_def)
  have a: "root_at d h" "link_ok ct cp cn (length ks)" "distinct (map var_id ks)"
    and k: "\<forall>c\<in>set ks. key_ok (var_id c) \<and> hash_ok ih (hdr c) \<and> var_ok ih (Suc d) c"
    using assms(1) unfolding v var_ok.simps by blast+
  show "var_ok ih d v'" unfolding v' var_ok.simps rk(1,3) using a rk(4)[OF k] by blast
  show "is_dict v'" "hdr v' = hdr v" by (simp_all add: v v' is_dict_def)
  show "json_of v' = json_of v" using rk(2) by (simp add: v v')
  show "map var_id (kids_of v') = map var_id (kids_of v)" "length (kids_of v') = length (kids_of v)"
    using rk by (simp_all add: v v' kids_of_def)
qed

text \<open>Linking a named node into a dictionary, or an unnamed one into an array.\<close>

lemma link_ok_grow: "link_ok ct cp cn n \<Longrightarrow> link_ok (ct + 1) cp cn (Suc n)"
  by (auto simp: link_ok_def)

lemma link_ok_new: "link_ok 0 (- 1) None 0"
  by (simp add: link_ok_def)

lemma attach_root: "root_at d (hdr p) \<Longrightarrow> (case v_root (hdr p) of RootNone \<Rightarrow> RootUp 1 | RootUp n \<Rightarrow> RootUp (Suc n) | RootFreed \<Rightarrow> RootFreed) = RootUp (Suc d)"
  by (auto simp: root_at_def)

definition leaf_ok :: "u32 \<Rightarrow> vhdr \<Rightarrow> var vval \<Rightarrow> bool" where
  "leaf_ok ih h x \<longleftrightarrow> hash_ok ih h \<and> (case x of VArray l \<Rightarrow> l = no_kids | VDict l \<Rightarrow> l = no_kids | _ \<Rightarrow> True)"

lemma leaf_var_ok: "leaf_ok ih h x \<Longrightarrow> root_at d h' \<Longrightarrow> var_ok ih d (Var h' x)"
  by (cases x) (auto simp: leaf_ok_def no_kids_def link_ok_new)

lemma attach_dict:
  assumes "var_ok ih d p" "is_dict p" "leaf_ok ih h x" "key_ok (v_id h)" "v_id h \<notin> var_id ` set (kids_of p)"
  shows "\<exists>c p'. attach ih g (Var h x) p = (c, p', True) \<and> var_ok ih d p' \<and> is_dict p' \<and> hdr p' = hdr p \<and> kids_of p' = kids_of p @ [c] \<and>
    var_id c = v_id h \<and> vv c = x \<and> json_of p' = JDict (members (json_of p) @ [(v_id h, json_of (Var h x))])"
proof -
  obtain ph ks ct cp cn where p: "p = Var ph (VDict (VLink ks ct cp cn))" using assms(2) by (cases p) (auto simp: is_dict_vv)
  define h' where "h' = (if v_hash h = 0 \<and> v_id h \<noteq> '''' then h\<lparr>v_hash := hash_token ih (v_id h)\<rparr> else h)
    \<lparr>v_root := RootUp (Suc d), v_first := g, v_lastmod := g, v_gen := g\<rparr>"
  have id: "v_id h' = v_id h" by (simp add: h'_def)
  have hash: "hash_ok ih h'" using assms(3) by (simp add: h'_def leaf_ok_def hash_ok_def)
  have rt: "root_at (Suc d) h'" by (simp add: h'_def root_at_def)
  have ok: "var_ok ih (Suc d) (Var h' x)" by (rule leaf_var_ok[OF assms(3) rt])
  have ne: "v_id h \<noteq> ''''" using assms(4) by (simp add: key_ok_def)
  have r: "(case v_root ph of RootNone \<Rightarrow> RootUp 1 | RootUp n \<Rightarrow> RootUp (Suc n) | RootFreed \<Rightarrow> RootFreed) = RootUp (Suc d)"
    using attach_root[OF var_ok_root[OF assms(1)]] by (simp add: p)
  let ?p = "Var ph (VDict (VLink (ks @ [Var h' x]) (ct + 1) cp cn))"
  have a: "attach ih g (Var h x) p = (Var h' x, ?p, True)" using ne r by (simp add: attach_def p h'_def Let_def)
  have dist: "v_id h' \<notin> var_id ` set ks" using assms(5) id by (simp add: p kids_of_def)
  have "var_ok ih d ?p"
    using assms(1,4) ok hash id dist unfolding p by (auto simp: link_ok_grow)
  moreover have "json_of (Var h' x) = json_of (Var h x)" by (rule json_hdr)
  ultimately show ?thesis using a id by (auto simp: p kids_of_def is_dict_def)
qed

lemma attach_array:
  assumes "var_ok ih d p" "is_array p" "leaf_ok ih h x" "v_id h = ''''"
  shows "\<exists>c p'. attach ih g (Var h x) p = (c, p', True) \<and> var_ok ih d p' \<and> is_array p' \<and> hdr p' = hdr p \<and> kids_of p' = kids_of p @ [c] \<and>
    var_id c = v_id h \<and> vv c = x"
proof -
  obtain ph ks ct cp cn where p: "p = Var ph (VArray (VLink ks ct cp cn))"
    using assms(2) by (cases p) (auto simp: is_array_vv)
  define h' where "h' = h\<lparr>v_root := RootUp (Suc d), v_first := g, v_lastmod := g, v_gen := g\<rparr>"
  have rt: "root_at (Suc d) h'" by (simp add: h'_def root_at_def)
  have ok: "var_ok ih (Suc d) (Var h' x)" by (rule leaf_var_ok[OF assms(3) rt])
  have r: "(case v_root ph of RootNone \<Rightarrow> RootUp 1 | RootUp n \<Rightarrow> RootUp (Suc n) | RootFreed \<Rightarrow> RootFreed) = RootUp (Suc d)"
    using attach_root[OF var_ok_root[OF assms(1)]] by (simp add: p)
  let ?p = "Var ph (VArray (VLink (ks @ [Var h' x]) (ct + 1) cp cn))"
  have a: "attach ih g (Var h x) p = (Var h' x, ?p, True)" using assms(4) r by (simp add: attach_def p h'_def Let_def)
  have "var_ok ih d ?p"
    using assms(1,4) ok unfolding p by (auto simp: link_ok_grow h'_def)
  then show ?thesis using a assms(4) by (auto simp: p kids_of_def is_array_def h'_def)
qed

text \<open>Working on a child in its place.\<close>

lemma leave_dict:
  assumes "var_ok ih d v" "is_dict v" "i < length (kids_of v)" "var_ok ih (Suc d) c'" "same_hdr (hdr (kids_of v ! i)) (hdr c')"
    "same_chain (hdr v # anc) hs"
  shows "\<exists>v' anc'. leave (Kid i) v c' hs = (v', anc') \<and> var_ok ih d v' \<and> is_dict v' \<and> same_hdr (hdr v) (hdr v') \<and> same_chain anc anc' \<and>
    json_of v' = JDict ((members (json_of v))[i := (var_id (kids_of v ! i), json_of c')])"
proof -
  obtain h ks ct cp cn where v: "v = Var h (VDict (VLink ks ct cp cn))" using assms(2) by (cases v) (auto simp: is_dict_vv)
  have ks: "kids_of v = ks" by (simp add: v kids_of_def)
  have a: "root_at d h" "link_ok ct cp cn (length ks)" "distinct (map var_id ks)"
    and k: "\<forall>c\<in>set ks. key_ok (var_id c) \<and> hash_ok ih (hdr c) \<and> var_ok ih (Suc d) c"
    using assms(1) unfolding v var_ok.simps by blast+
  have i: "i < length ks" using assms(3) ks by simp
  have c: "key_ok (var_id (ks ! i))" "hash_ok ih (hdr (ks ! i))" using k nth_mem[OF i] by blast+
  obtain h' anc' where hs: "hs = h' # anc'" "same_hdr h h'" "same_chain anc anc'" using assms(6) by (auto simp: list_all2_Cons1 v)
  let ?v = "Var h' (VDict (VLink (ks[i := c']) ct cp cn))"
  have ids: "var_id c' = var_id (ks ! i)" "v_hash (hdr c') = v_hash (hdr (ks ! i))" using assms(5) by (simp_all add: same_hdr_def ks)
  have "map var_id (ks[i := c']) = map var_id ks" using i ids by (simp add: map_update list_update_same_conv)
  moreover have "key_ok (var_id c') \<and> hash_ok ih (hdr c') \<and> var_ok ih (Suc d) c'" using c ids assms(4) by (simp add: hash_ok_def)
  then have "\<forall>x\<in>set (ks[i := c']). key_ok (var_id x) \<and> hash_ok ih (hdr x) \<and> var_ok ih (Suc d) x"
    using k set_update_subset_insert[of ks i c'] by blast
  moreover have "root_at d h'" using a(1) hs(2) by (simp add: root_at_def same_hdr_def)
  ultimately have "var_ok ih d ?v" unfolding var_ok.simps length_list_update using a by metis
  moreover have "leave (Kid i) v c' hs = (?v, anc')" using hs(1) by (simp add: v set_kids_def kids_of_def)
  moreover have "json_of ?v = JDict ((members (json_of v))[i := (var_id (ks ! i), json_of c')])"
    using ids by (simp add: v map_update)
  ultimately show ?thesis using hs(2,3) unfolding ks by (auto simp: v is_dict_def)
qed

fun elements :: "json \<Rightarrow> json list" where
  "elements (JArr xs) = xs"
| "elements _ = []"

lemma leave_array:
  assumes "var_ok ih d v" "is_array v" "i < length (kids_of v)" "var_ok ih (Suc d) c'" "same_hdr (hdr (kids_of v ! i)) (hdr c')"
    "same_chain (hdr v # anc) hs"
  shows "\<exists>v' anc'. leave (Kid i) v c' hs = (v', anc') \<and> var_ok ih d v' \<and> is_array v' \<and> same_hdr (hdr v) (hdr v') \<and> same_chain anc anc' \<and>
    json_of v' = JArr ((elements (json_of v))[i := json_of c'])"
proof -
  obtain h ks ct cp cn where v: "v = Var h (VArray (VLink ks ct cp cn))" using assms(2) by (cases v) (auto simp: is_array_vv)
  have ks: "kids_of v = ks" by (simp add: v kids_of_def)
  have a: "root_at d h" "link_ok ct cp cn (length ks)" and k: "\<forall>c\<in>set ks. var_id c = '''' \<and> var_ok ih (Suc d) c"
    using assms(1) unfolding v var_ok.simps by blast+
  have i: "i < length ks" using assms(3) ks by simp
  obtain h' anc' where hs: "hs = h' # anc'" "same_hdr h h'" "same_chain anc anc'" using assms(6) by (auto simp: list_all2_Cons1 v)
  let ?v = "Var h' (VArray (VLink (ks[i := c']) ct cp cn))"
  have "var_id c' = ''''" using assms(5) k nth_mem[OF i] by (simp add: same_hdr_def ks)
  then have "\<forall>x\<in>set (ks[i := c']). var_id x = '''' \<and> var_ok ih (Suc d) x"
    using k assms(4) set_update_subset_insert[of ks i c'] by blast
  moreover have "root_at d h'" using a(1) hs(2) by (simp add: root_at_def same_hdr_def)
  ultimately have "var_ok ih d ?v" unfolding var_ok.simps length_list_update using a by metis
  moreover have "leave (Kid i) v c' hs = (?v, anc')" using hs(1) by (simp add: v set_kids_def kids_of_def)
  moreover have "json_of ?v = JArr ((elements (json_of v))[i := json_of c'])" by (simp add: v map_update)
  ultimately show ?thesis using hs(2,3) unfolding ks by (auto simp: v is_array_def)
qed

text \<open>The children of a good node are good nodes below it.\<close>

lemma kid_ok:
  assumes "var_ok ih d v" "i < length (kids_of v)"
  shows "var_ok ih (Suc d) (kids_of v ! i)"
proof -
  have "kids_of v ! i \<in> set (kids_of v)" using assms(2) by simp
  then show ?thesis using assms(1) by (induction ih d v rule: var_ok.induct) (auto simp: kids_of_def)
qed

lemma at_kid_dict:
  assumes "var_ok ih d v" "is_dict v" "i < length (kids_of v)" "length anc = d" "chain_ok anc" "sets ih (Suc d) f op"
  shows "\<exists>v' anc'. at_place (Kid i) op v anc = Ok (v', anc') \<and> var_ok ih d v' \<and> is_dict v' \<and> same_hdr (hdr v) (hdr v') \<and> same_chain anc anc' \<and>
    json_of v' = JDict ((members (json_of v))[i := (var_id (kids_of v ! i), f (json_of (kids_of v ! i)))])"
proof -
  have ch: "chain_ok (hdr v # anc)" "length (hdr v # anc) = Suc d" using var_ok_root[OF assms(1)] assms(4,5) by simp_all
  obtain c' hs where o: "op (kids_of v ! i) (hdr v # anc) = Ok (c', hs)" "var_ok ih (Suc d) c'" "same_hdr (hdr (kids_of v ! i)) (hdr c')"
      "same_chain (hdr v # anc) hs" "json_of c' = f (json_of (kids_of v ! i))"
    using assms(6)[unfolded sets_def, rule_format, OF kid_ok[OF assms(1,3)] ch(2,1)] by blast
  show ?thesis using leave_dict[OF assms(1-3) o(2-4)] o(1,5) by (auto simp: at_place_def simp del: leave.simps)
qed

text \<open>Replacing the member with the first matching name.\<close>

lemma put_member_hit:
  "find_index (\<lambda>c. var_id c = k) ks = Some i \<Longrightarrow>
   (map (\<lambda>c. (var_id c, json_of c)) ks)[i := (var_id (ks ! i), f (json_of (ks ! i)))] = put_member k z f (map (\<lambda>c. (var_id c, json_of c)) ks)"
proof (induction ks arbitrary: i)
  case (Cons c cs)
  then show ?case by (cases i) (auto split: if_splits)
qed simp

lemma put_member_miss:
  "find_index (\<lambda>c. var_id c = k) ks = None \<Longrightarrow>
   put_member k z f (map (\<lambda>c. (var_id c, json_of c)) ks) = map (\<lambda>c. (var_id c, json_of c)) ks @ [(k, f z)]"
  by (induction ks) (auto split: if_splits)

text \<open>Finding a member, or making one.\<close>

lemma find_or_make_dict:
  assumes "var_ok ih d v" "is_dict v" "key_ok k" "length anc = d" "chain_ok anc" "leaf_ok ih hdr0 x"
  shows "\<exists>v' i. find_or_make ih v anc k x = Ok (v', Kid i) \<and> var_ok ih d v' \<and> is_dict v' \<and> hdr v' = hdr v \<and> i < length (kids_of v') \<and>
    find_index (\<lambda>c. var_id c = k) (kids_of v') = Some i \<and>
    (case find_index (\<lambda>c. var_id c = k) (kids_of v) of
       Some j \<Rightarrow> i = j \<and> json_of v' = json_of v
     | None \<Rightarrow> json_of v' = JDict (members (json_of v) @ [(k, json_of (Var hdr0 x))]) \<and> i = length (kids_of v) \<and> vv (kids_of v' ! i) = x)"
proof -
  obtain v1 r where f: "var_find_key ih v k = (v1, r)" by fastforce
  note f1 = find_key_dict[OF assms(1,2) f]
  have same: "find_index (\<lambda>c. var_id c = k) (kids_of v1) = find_index (\<lambda>c. var_id c = k) (kids_of v)"
  proof -
    have "find_index (\<lambda>c. var_id c = k) ks = find_index (\<lambda>s. s = k) (map var_id ks)" for ks by (induction ks) auto
    then show ?thesis using f1(6) by metis
  qed
  show ?thesis
  proof (cases r)
    case (Some i)
    then have "i < length (kids_of v1)" using f1(1,7) by (simp add: find_index_Some)
    moreover have "find_or_make ih v anc k x = Ok (v1, Kid i)" using f Some by (simp add: find_or_make_def)
    moreover have "find_index (\<lambda>c. var_id c = k) (kids_of v) = Some i" using f1(1) Some by simp
    ultimately show ?thesis using f1(2-5) same by (intro exI[of _ v1] exI[of _ i]) simp
  next
    case None
    let ?h = "hdr0\<lparr>v_id := c_truncate 127 k, v_hash := hash_token ih k\<rparr>"
    have k: "c_truncate 127 k = k" using assms(3) c_truncate_id unfolding key_ok_def by blast
    have leaf: "leaf_ok ih ?h x" using assms(6) by (simp add: leaf_ok_def hash_ok_def k)
    have "find_index (\<lambda>c. var_id c = k) (kids_of v1) = None" using None f1(1) same by simp
    then have "\<forall>c\<in>set (kids_of v1). var_id c \<noteq> k" by (simp add: find_index_None)
    then have new: "v_id ?h \<notin> var_id ` set (kids_of v1)" using k by auto
    have rt: "root_at (length anc) (hdr v1)" using var_ok_root[OF f1(2)] assms(4) by simp
    obtain c p where a: "attach ih (v_gen (last (hdr v1 # anc))) (Var ?h x) v1 = (c, p, True)" "var_ok ih d p" "is_dict p" "hdr p = hdr v1"
        "kids_of p = kids_of v1 @ [c]" "var_id c = v_id ?h" "vv c = x" "json_of p = JDict (members (json_of v1) @ [(v_id ?h, json_of (Var ?h x))])"
      using attach_dict[OF f1(2,3) leaf _ new, of "v_gen (last (hdr v1 # anc))"] assms(3) k by auto
    have l: "var_link ih (Var ?h x) v1 anc = Ok (c, p, True)"
      using needs_gen_ok[OF rt] a(1) by (simp add: var_link_def)
    have j: "json_of (Var ?h x) = json_of (Var hdr0 x)" by (rule json_hdr)
    have "find_index (\<lambda>c. var_id c = k) (kids_of p) = Some (length (kids_of v1))"
      using None f1(1) same a(5,6) k by (simp add: find_index_append)
    moreover have "(kids_of v1 @ [c]) ! length (kids_of v) = c" using f1(7) by (metis nth_append_length)
    ultimately show ?thesis using f l None a f1 same k j
      by (intro exI[of _ p] exI[of _ "length (kids_of v1)"]) (simp add: find_or_make_def)
  qed
qed

subsection \<open>Setting by key\<close>

text \<open>
  What setting a member does to the JSON value: an unset node becomes a dictionary, the member
  is created or changed as \<open>f\<close> says, and anything but a dictionary stays as it is.
\<close>

definition put_key :: "string \<Rightarrow> (json \<Rightarrow> json) \<Rightarrow> json \<Rightarrow> json" where
  "put_key k f j = (case j of
      JDict ms \<Rightarrow> JDict (put_member k JNull f ms) | JNull \<Rightarrow> JDict (put_member k JNull f []) | _ \<Rightarrow> j)"

lemma as_dict:
  assumes "var_ok ih d v"
  defines "v' \<equiv> (if vv v = VNull then Var (hdr v) (VDict no_kids) else v)"
  shows "var_ok ih d v'" "hdr v' = hdr v" "vv v = VNull \<Longrightarrow> is_dict v' \<and> json_of v' = JDict []" "vv v \<noteq> VNull \<Longrightarrow> v' = v"
    "put_key k f (json_of v') = put_key k f (json_of v)"
  using assms var_ok_root[OF assms(1)]
  by (cases v; auto simp: no_kids_def link_ok_new is_dict_def put_key_def)+

lemma json_not_dict: "\<not> is_dict v \<Longrightarrow> vv v \<noteq> VNull \<Longrightarrow> put_key k f (json_of v) = json_of v"
  by (cases v rule: json_of.cases) (auto simp: is_dict_def put_key_def)

lemma attach_loose:
  assumes "\<not> is_dict p" "vv p \<noteq> VNull" "v_id h \<noteq> ''''" "root_at d (hdr p)" "leaf_ok ih h x"
  shows "\<exists>c. attach ih g (Var h x) p = (c, p, False) \<and> var_ok ih (Suc d) c \<and> vv c = x"
proof -
  define c where "c = fst (attach ih g (Var h x) p)"
  have r: "root_at (Suc d) (hdr c)" "vv c = x"
    using attach_root[OF assms(4)] by (simp_all add: c_def attach_def Let_def root_at_def split: vval.split)
  have "attach ih g (Var h x) p = (c, p, False)"
    using assms(1-3) unfolding c_def by (cases p) (auto simp: attach_def Let_def is_dict_def split: vval.split)
  moreover have "var_ok ih (Suc d) (Var (hdr c) (vv c))" unfolding r(2) by (rule leaf_var_ok[OF assms(5) r(1)])
  ultimately show ?thesis using r(2) by auto
qed

lemma set_forkey_sets:
  assumes "key_ok k" "sets ih (Suc d) f op"
  shows "sets ih d (put_key k f) (\<lambda>v anc. set_forkey ih v anc k op)"
  unfolding sets_def
proof (intro allI impI)
  fix v0 anc assume v0: "var_ok ih d v0" "length anc = d" "chain_ok anc"
  define v where "v = (if vv v0 = VNull then Var (hdr v0) (VDict no_kids) else v0)"
  note ad = as_dict[OF v0(1), folded v_def]
  have e: "set_forkey ih v0 anc k op = rbind (find_or_make ih v anc k VNull) (\<lambda>(self, p). at_place p op self anc)"
    by (simp add: set_forkey_def var_get_or_make_def v_def Let_def)
  have leaf: "leaf_ok ih hdr0 VNull" by (simp add: leaf_ok_def hash_ok_def hdr0_def)
  show "\<exists>v' anc'. set_forkey ih v0 anc k op = Ok (v', anc') \<and> var_ok ih d v' \<and> same_hdr (hdr v0) (hdr v') \<and> same_chain anc anc' \<and>
      json_of v' = put_key k f (json_of v0)"
  proof (cases "is_dict v")
    case True
    obtain v1 i where f: "find_or_make ih v anc k VNull = Ok (v1, Kid i)" "var_ok ih d v1" "is_dict v1" "hdr v1 = hdr v" "i < length (kids_of v1)"
        "find_index (\<lambda>c. var_id c = k) (kids_of v1) = Some i"
      and j: "case find_index (\<lambda>c. var_id c = k) (kids_of v) of
       Some j \<Rightarrow> i = j \<and> json_of v1 = json_of v
     | None \<Rightarrow> json_of v1 = JDict (members (json_of v) @ [(k, json_of (Var hdr0 VNull))]) \<and> i = length (kids_of v) \<and> vv (kids_of v1 ! i) = VNull"
      using find_or_make_dict[OF ad(1) True assms(1) v0(2,3) leaf] by blast
    obtain v2 anc2 where k: "at_place (Kid i) op v1 anc = Ok (v2, anc2)" "var_ok ih d v2" "same_hdr (hdr v1) (hdr v2)" "same_chain anc anc2"
        "json_of v2 = JDict ((members (json_of v1))[i := (var_id (kids_of v1 ! i), f (json_of (kids_of v1 ! i)))])"
      using at_kid_dict[OF f(2,3,5) v0(2,3) assms(2)] by blast
    have mem: "members (json_of w) = map (\<lambda>c. (var_id c, json_of c)) (kids_of w)" if "is_dict w" for w
      using that by (cases w) (auto simp: is_dict_vv kids_of_def)
    have m1: "json_of v2 = JDict (put_member k JNull f (members (json_of v1)))"
      using k(5) put_member_hit[OF f(6), of f JNull] unfolding mem[OF f(3)] by simp
    have "put_member k JNull f (members (json_of v1)) = put_member k JNull f (members (json_of v))"
    proof (cases "find_index (\<lambda>c. var_id c = k) (kids_of v)")
      case (Some a)
      then show ?thesis using j by simp
    next
      case None
      have "put_member k JNull f (ms @ [(k, JNull)]) = put_member k JNull f ms" if "k \<notin> fst ` set ms" for ms
        using that by (induction ms) auto
      moreover have "k \<notin> fst ` set (members (json_of v))" using None unfolding mem[OF True] find_index_None by auto
      ultimately show ?thesis using j None by simp
    qed
    then have "json_of v2 = put_key k f (json_of v)"
      using m1 True by (cases v) (auto simp: put_key_def is_dict_vv)
    then show ?thesis using e f(1,4) k ad(2,5) by simp
  next
    case False
    then have nn: "vv v \<noteq> VNull" using ad(3) by (auto simp: v_def split: if_splits)
    have fk: "var_find_key ih v k = (v, None)" using False nn by (auto simp: var_find_key_def is_dict_def split: vval.split)
    let ?h = "hdr0\<lparr>v_id := c_truncate 127 k, v_hash := hash_token ih k\<rparr>"
    have kt: "c_truncate 127 k = k" "k \<noteq> ''''" using assms(1) c_truncate_id unfolding key_ok_def by blast+
    have rt: "root_at (length anc) (hdr v)" using var_ok_root[OF ad(1)] v0(2) by simp
    have lf: "leaf_ok ih ?h VNull" by (simp add: leaf_ok_def hash_ok_def kt)
    obtain c where a: "attach ih (v_gen (last (hdr v # anc))) (Var ?h VNull) v = (c, v, False)" "var_ok ih (Suc d) c"
      using attach_loose[OF False nn _ _ lf, of d] kt rt v0(2) by auto
    have fm: "find_or_make ih v anc k VNull = Ok (v, Loose c)"
      using fk a(1) needs_gen_ok[OF rt] by (simp add: find_or_make_def var_link_def)
    have ch: "chain_ok (hdr v # anc)" using rt v0(3) by simp
    obtain c' hs where o: "op c (hdr v # anc) = Ok (c', hs)" "same_chain (hdr v # anc) hs"
      using assms(2)[unfolded sets_def, rule_format, OF a(2), of "hdr v # anc"] ch v0(2) by auto
    obtain h' anc' where hs: "hs = h' # anc'" "same_hdr (hdr v) h'" "same_chain anc anc'" using o(2) by (auto simp: list_all2_Cons1)
    have "at_place (Loose c) op v anc = Ok (Var h' (vv v), anc')" using o(1) hs(1) by (simp add: at_place_def)
    moreover have "var_ok ih d (Var h' (vv v))" using var_ok_hdr[of ih d "hdr v" "vv v" h'] ad(1) hs(2) by simp
    moreover have "json_of (Var h' (vv v)) = put_key k f (json_of v0)"
      using json_hdr[of h' "vv v" "hdr v"] json_not_dict[OF False nn, of k f] ad(5)[of k f] by simp
    ultimately show ?thesis using e fm hs ad(2) by simp
  qed
qed

subsection \<open>New containers and array elements\<close>

lemma leaf_ok_container [simp]: "leaf_ok ih hdr0 (VDict no_kids)" "leaf_ok ih hdr0 (VArray no_kids)" "leaf_ok ih hdr0 VNull"
    "leaf_ok ih hdr0 (VInt i)" "leaf_ok ih hdr0 (VDouble r)" "leaf_ok ih hdr0 (VStr s)"
  by (simp_all add: leaf_ok_def hash_ok_def hdr0_def)

lemma json_no_kids [simp]: "json_of (Var h (VDict no_kids)) = JDict []" "json_of (Var h (VArray no_kids)) = JArr []"
  by (simp_all add: no_kids_def)

lemma members_kids: "is_dict w \<Longrightarrow> members (json_of w) = map (\<lambda>c. (var_id c, json_of c)) (kids_of w)"
  by (cases w) (auto simp: is_dict_vv kids_of_def)

lemma elements_kids: "is_array w \<Longrightarrow> elements (json_of w) = map json_of (kids_of w)"
  by (cases w) (auto simp: is_array_vv kids_of_def)

lemma json_is_dict: "is_dict w \<Longrightarrow> json_of w = JDict (members (json_of w))"
  by (cases w) (auto simp: is_dict_vv)

lemma json_is_array: "is_array w \<Longrightarrow> json_of w = JArr (elements (json_of w))"
  by (cases w) (auto simp: is_array_vv)

text \<open>A new member.\<close>

lemma find_or_make_new:
  assumes "var_ok ih d v" "is_dict v" "key_ok k" "length anc = d" "chain_ok anc" "leaf_ok ih hdr0 x" "k \<notin> fst ` set (members (json_of v))"
  shows "\<exists>v' i. find_or_make ih v anc k x = Ok (v', Kid i) \<and> var_ok ih d v' \<and> is_dict v' \<and> hdr v' = hdr v \<and> i < length (kids_of v') \<and>
    i = length (members (json_of v)) \<and> var_id (kids_of v' ! i) = k \<and> vv (kids_of v' ! i) = x \<and>
    json_of v' = JDict (members (json_of v) @ [(k, json_of (Var hdr0 x))])"
proof -
  have none: "find_index (\<lambda>c. var_id c = k) (kids_of v) = None"
    using assms(7) unfolding members_kids[OF assms(2)] find_index_None by force
  show ?thesis
    using find_or_make_dict[OF assms(1-6)] none members_kids[OF assms(2)] by (auto simp: find_index_Some)
qed

lemma get_dict_new:
  assumes "var_ok ih d v" "is_dict v" "key_ok k" "length anc = d" "chain_ok anc" "k \<notin> fst ` set (members (json_of v))"
  shows "\<exists>v' i. var_get_dict_forkey ih v anc k = Ok (v', Some (Kid i)) \<and> var_ok ih d v' \<and> is_dict v' \<and> hdr v' = hdr v \<and> i < length (kids_of v') \<and>
    i = length (members (json_of v)) \<and> var_id (kids_of v' ! i) = k \<and> vv (kids_of v' ! i) = VDict no_kids \<and>
    json_of v' = JDict (members (json_of v) @ [(k, JDict [])])"
  using find_or_make_new[OF assms(1-5) leaf_ok_container(1) assms(6)]
  by (auto simp: var_get_dict_forkey_def is_dict_def)

lemma get_array_new:
  assumes "var_ok ih d v" "is_dict v" "key_ok k" "length anc = d" "chain_ok anc" "k \<notin> fst ` set (members (json_of v))"
  shows "\<exists>v' i. var_get_array_forkey ih v anc k = Ok (v', Some (Kid i)) \<and> var_ok ih d v' \<and> is_dict v' \<and> hdr v' = hdr v \<and> i < length (kids_of v') \<and>
    i = length (members (json_of v)) \<and> var_id (kids_of v' ! i) = k \<and> vv (kids_of v' ! i) = VArray no_kids \<and>
    json_of v' = JDict (members (json_of v) @ [(k, JArr [])])"
  using find_or_make_new[OF assms(1-5) leaf_ok_container(2) assms(6)]
  by (auto simp: var_get_array_forkey_def is_array_def)

lemma add_node_array:
  assumes "var_ok ih d v" "is_array v" "length anc = d" "leaf_ok ih hdr0 x"
  shows "\<exists>v'. add_node ih v anc x = Ok v' \<and> var_ok ih d v' \<and> is_array v' \<and> hdr v' = hdr v \<and>
    length (kids_of v') = Suc (length (kids_of v)) \<and> vv (kids_of v' ! length (kids_of v)) = x \<and>
    json_of v' = JArr (elements (json_of v) @ [json_of (Var hdr0 x)])"
proof -
  have rt: "root_at (length anc) (hdr v)" using var_ok_root[OF assms(1)] assms(3) by simp
  obtain c p where a: "attach ih (v_gen (last (hdr v # anc))) (Var hdr0 x) v = (c, p, True)" "var_ok ih d p" "is_array p" "hdr p = hdr v"
      "kids_of p = kids_of v @ [c]" "vv c = x"
    using attach_array[OF assms(1,2,4), of "v_gen (last (hdr v # anc))"] by (auto simp: hdr0_def)
  have "json_of c = json_of (Var hdr0 x)" using a(6) json_hdr[of "hdr c" x hdr0] by (cases c) simp
  then have "json_of p = JArr (elements (json_of v) @ [json_of (Var hdr0 x)])"
    using json_is_array[OF a(3)] elements_kids[OF a(3)] elements_kids[OF assms(2)] a(5) by simp
  moreover have "add_node ih v anc x = Ok p" using needs_gen_ok[OF rt] a(1) by (simp add: add_node_def var_link_def)
  ultimately show ?thesis using a by simp
qed

text \<open>Clearing an array that is empty already only touches it.\<close>

lemma clear_empty_array:
  assumes "var_ok ih d v" "vv v = VArray no_kids" "length anc = d" "chain_ok anc"
  shows "\<exists>v' anc'. var_clear_array v anc = Ok (v', anc') \<and> var_ok ih d v' \<and> vv v' = VArray no_kids \<and> same_hdr (hdr v) (hdr v') \<and> same_chain anc anc'"
proof -
  have "chain_ok (hdr v # anc)" using var_ok_root[OF assms(1)] assms(3,4) by simp
  then obtain v' anc' where t: "touch True v anc = Ok (v', anc')" "vv v' = vv v" "same_hdr (hdr v) (hdr v')" "same_chain anc anc'"
    using touch_ok by blast
  have "var_clear_array v anc = touch True v anc" using assms(2) by (cases v) (simp add: var_clear_array_def no_kids_def)
  moreover have "var_ok ih d v'"
    using var_ok_hdr[of ih d "hdr v" "vv v" "hdr v'"] assms(1) t(2,3) by (cases v; cases v') simp
  ultimately show ?thesis using t assms(2) by simp
qed

end
