(* ===== verification/VarParse.thy ===== *)
theory VarParse
  imports VarProps
begin

text \<open>
  \<^verbatim>\<open>libopticon/var_parse.c\<close> and \<^verbatim>\<open>libopticon/var_dump.c\<close>: the state machine that reads JSON-like
  text into a variable, and the writer.

  The cursor is the rest of the text; \<open>[]\<close> is its terminating NUL. Going on from there reads
  past the text and is a fault. The error messages are left out. One call of the loop body is
  \<open>pstep\<close>; its result says how the loop goes on, and \<open>parse_loop\<close> is the loop with the recursive
  call for nested values, with fuel.
\<close>

definition default_max_json_depth :: int where
  "default_max_json_depth = 7"

definition alnum :: string where
  "alnum = ''abcdefghijklmnopqrstuvwxyzABCDEFGHIJKLMNOPQRSTUVWXYZ0123456789''"

definition VALIDUNQUOTED :: string where
  "VALIDUNQUOTED = alnum @ ''-_.*/''"

definition VALIDUNQUOTEDV :: string where
  "VALIDUNQUOTEDV = alnum @ ''-_./:*%''"

datatype parse_state =
    PSTATE_BEGINNING | PSTATE_DICT_WAITKEY | PSTATE_DICT_KEY | PSTATE_DICT_KEY_QUOTED
  | PSTATE_DICT_WAITVALUE | PSTATE_DICT_VALUE | PSTATE_DICT_VALUE_QUOTED
  | PSTATE_ARRAY_WAITVALUE | PSTATE_ARRAY_VALUE | PSTATE_ARRAY_VALUE_QUOTED | PSTATE_COMMENT

text \<open>The local variables of one level.\<close>

record locals =
  p_st :: parse_state
  p_next :: parse_state
  p_key :: string
  p_val :: string
  p_nondigits :: bool
  p_dots :: nat

text \<open>
  How a step ends: go on at a cursor, go down into a child (in which state, and with the cursor
  there) and go on in some state behind it, or return.
\<close>

datatype pnext =
    Go locals var chain string
  | Down place parse_state locals var chain string
  | Return bool var chain string

text \<open>The \<^verbatim>\<open>++c\<close> at the end of the loop body, on a cursor that may stand on the NUL.\<close>

definition advance :: "locals \<Rightarrow> var \<Rightarrow> chain \<Rightarrow> string \<Rightarrow> pnext res" where
  "advance L v anc c = (case c of [] \<Rightarrow> Fault OutOfBounds | x # cs \<Rightarrow> Ok (Go L v anc cs))"

definition comment :: "locals \<Rightarrow> parse_state \<Rightarrow> locals" where
  "comment L stnext = L\<lparr>p_st := PSTATE_COMMENT, p_next := stnext\<rparr>"

definition fresh_value :: "locals \<Rightarrow> locals" where
  "fresh_value L = L\<lparr>p_val := ''''\<rparr>"

text \<open>A buffer of 4096 bytes takes 4095 characters.\<close>

definition bufmax :: nat where "bufmax = 4095"

subsection \<open>Dictionaries\<close>

definition step_waitkey :: "locals \<Rightarrow> var \<Rightarrow> chain \<Rightarrow> char \<Rightarrow> string \<Rightarrow> pnext res" where
  "step_waitkey L v anc c cs =
     (if p_st L = PSTATE_BEGINNING \<and> c = CHR ''{'' then Ok (Go (L\<lparr>p_st := PSTATE_DICT_WAITKEY\<rparr>) v anc cs)
      else if c = CHR ''#'' then Ok (Go (comment L (p_st L)) v anc cs)
      else if c_isspace c \<or> c = CHR '','' then Ok (Go L v anc cs)
      else if c = CHR ''}'' then Ok (Return True v anc (c # cs))
      else if c = CHR 0x22 then
        Ok (Go ((fresh_value L)\<lparr>p_st := PSTATE_DICT_KEY_QUOTED, p_key := ''''\<rparr>) v anc cs)
      else if c \<notin> set VALIDUNQUOTED then Ok (Return False v anc (c # cs))
      else Ok (Go ((fresh_value L)\<lparr>p_st := PSTATE_DICT_KEY, p_key := ''''\<rparr>) v anc (c # cs)))"

definition enter_dict :: "u32 \<Rightarrow> locals \<Rightarrow> var \<Rightarrow> chain \<Rightarrow> string \<Rightarrow> pnext res" where
  "enter_dict ih L v anc cs =
     rbind (var_get_dict_forkey ih v anc (p_key L)) (\<lambda>(v, p). Ok (case p of
       None \<Rightarrow> Return False v anc cs
     | Some p \<Rightarrow> Down p PSTATE_DICT_WAITKEY (L\<lparr>p_st := PSTATE_DICT_WAITKEY\<rparr>) v anc cs))"

definition enter_array :: "u32 \<Rightarrow> locals \<Rightarrow> var \<Rightarrow> chain \<Rightarrow> string \<Rightarrow> pnext res" where
  "enter_array ih L v anc cs =
     rbind (var_get_array_forkey ih v anc (p_key L)) (\<lambda>(v, p). case p of
       None \<Rightarrow> Ok (Return False v anc cs)
     | Some p \<Rightarrow> rbind (at_place p var_clear_array v anc) (\<lambda>(v, anc).
         Ok (Down p PSTATE_ARRAY_WAITVALUE (L\<lparr>p_st := PSTATE_DICT_WAITKEY\<rparr>) v anc cs)))"

definition step_key :: "u32 \<Rightarrow> locals \<Rightarrow> var \<Rightarrow> chain \<Rightarrow> char \<Rightarrow> string \<Rightarrow> pnext res" where
  "step_key ih L v anc c cs =
     (if c = CHR ''#'' then Ok (Go (comment L PSTATE_DICT_WAITVALUE) v anc cs)
      else if c_isspace c then Ok (Go (L\<lparr>p_st := PSTATE_DICT_WAITVALUE\<rparr>) v anc cs)
      else if c = CHR ''{'' then enter_dict ih L v anc cs
      else if c = CHR ''['' then enter_array ih L v anc cs
      else if c = CHR '':'' then Ok (Go (L\<lparr>p_st := PSTATE_DICT_WAITVALUE\<rparr>) v anc cs)
      else if c \<notin> set VALIDUNQUOTED \<or> length (p_key L) \<ge> bufmax then Ok (Return False v anc (c # cs))
      else Ok (Go (L\<lparr>p_key := p_key L @ [c]\<rparr>) v anc cs))"

text \<open>A backslash takes the next character as it is, even the NUL.\<close>

definition step_key_quoted :: "locals \<Rightarrow> var \<Rightarrow> chain \<Rightarrow> char \<Rightarrow> string \<Rightarrow> pnext res" where
  "step_key_quoted L v anc c cs =
     (if c = CHR 0x22 then Ok (Go (L\<lparr>p_st := PSTATE_DICT_WAITVALUE\<rparr>) v anc cs)
      else
        let cur = (if c = CHR 0x5C then cs else c # cs) in
        if length (p_key L) \<ge> bufmax then Ok (Return False v anc (c # cs))
        else advance (L\<lparr>p_key := p_key L @ take 1 cur\<rparr>) v anc cur)"

definition step_waitvalue :: "u32 \<Rightarrow> locals \<Rightarrow> var \<Rightarrow> chain \<Rightarrow> char \<Rightarrow> string \<Rightarrow> pnext res" where
  "step_waitvalue ih L v anc c cs =
     (if c = CHR ''#'' then Ok (Go (comment L (p_st L)) v anc cs)
      else if c_isspace c \<or> c = CHR '':'' \<or> c = CHR ''='' then Ok (Go L v anc cs)
      else if c = CHR ''{'' then enter_dict ih L v anc cs
      else if c = CHR ''['' then enter_array ih L v anc cs
      else if c = CHR 0x22 then Ok (Go ((fresh_value L)\<lparr>p_st := PSTATE_DICT_VALUE_QUOTED\<rparr>) v anc cs)
      else if c \<notin> set VALIDUNQUOTEDV then Ok (Return False v anc (c # cs))
      else Ok (Go ((fresh_value L)\<lparr>p_st := PSTATE_DICT_VALUE, p_nondigits := False, p_dots := 0\<rparr>) v anc (c # cs)))"

text \<open>What an unquoted value is: digits only, digits with one dot, or a string.\<close>

definition collect :: "locals \<Rightarrow> char \<Rightarrow> locals" where
  "collect L c =
     L\<lparr>p_dots := (if c = CHR ''.'' then Suc (p_dots L) else p_dots L),
       p_nondigits := (p_nondigits L \<or> c \<noteq> CHR ''.'' \<and> \<not> c_isdigit c),
       p_val := p_val L @ [c]\<rparr>"

definition store_dict :: "u32 \<Rightarrow> locals \<Rightarrow> var \<Rightarrow> chain \<Rightarrow> (var \<times> chain) res" where
  "store_dict ih L v anc =
     (if \<not> p_nondigits L \<and> p_dots L < 2 then
        (if p_dots L = 0 then var_set_int_forkey ih v anc (p_key L) (strtoull10 (p_val L))
         else var_set_double_forkey ih v anc (p_key L) (Fin (c_atof (p_val L))))
      else var_set_str_forkey ih v anc (p_key L) (p_val L))"

definition step_value :: "u32 \<Rightarrow> locals \<Rightarrow> var \<Rightarrow> chain \<Rightarrow> char \<Rightarrow> string \<Rightarrow> pnext res" where
  "step_value ih L v anc c cs =
     (if c_isspace c \<or> c \<in> {CHR '','', CHR ''}'', CHR ''#''} then
        rbind (store_dict ih L v anc) (\<lambda>(v, anc). Ok (
          if c = CHR ''#'' then Go (comment L PSTATE_DICT_WAITKEY) v anc cs
          else if c = CHR ''}'' then Return True v anc (c # cs)
          else Go (L\<lparr>p_st := PSTATE_DICT_WAITKEY\<rparr>) v anc cs))
      else if c \<notin> set VALIDUNQUOTEDV \<or> length (p_val L) \<ge> bufmax then Ok (Return False v anc (c # cs))
      else Ok (Go (collect L c) v anc cs))"

text \<open>The escapes of a quoted value, at a cursor behind the backslash.\<close>

definition unescape :: "locals \<Rightarrow> var \<Rightarrow> chain \<Rightarrow> string \<Rightarrow> pnext res" where
  "unescape L v anc cur =
     (let ch = (case cur of
            CHR ''n'' # _ \<Rightarrow> [CHR 0x0A] | CHR ''t'' # _ \<Rightarrow> [CHR 0x09] | CHR ''r'' # _ \<Rightarrow> [CHR 0x0D] | _ \<Rightarrow> take 1 cur)
      in advance (L\<lparr>p_val := p_val L @ ch\<rparr>) v anc cur)"

definition quoted_char :: "locals \<Rightarrow> var \<Rightarrow> chain \<Rightarrow> char \<Rightarrow> string \<Rightarrow> pnext res" where
  "quoted_char L v anc c cs =
     (if length (p_val L) \<ge> bufmax then Ok (Return False v anc (c # cs))
      else if c = CHR 0x5C then unescape L v anc cs
      else Ok (Go (L\<lparr>p_val := p_val L @ [c]\<rparr>) v anc cs))"

definition step_value_quoted :: "u32 \<Rightarrow> locals \<Rightarrow> var \<Rightarrow> chain \<Rightarrow> char \<Rightarrow> string \<Rightarrow> pnext res" where
  "step_value_quoted ih L v anc c cs =
     (if c = CHR 0x22 then
        rbind (var_set_str_forkey ih v anc (p_key L) (p_val L)) (\<lambda>(v, anc).
          Ok (Go (L\<lparr>p_st := PSTATE_DICT_WAITKEY\<rparr>) v anc cs))
      else quoted_char L v anc c cs)"

subsection \<open>Arrays\<close>

definition enter_added :: "parse_state \<Rightarrow> locals \<Rightarrow> var \<Rightarrow> chain \<Rightarrow> string \<Rightarrow> (var \<times> nat option) res \<Rightarrow> pnext res" where
  "enter_added st L v anc cs added =
     rbind added (\<lambda>(v, r). case r of
       None \<Rightarrow> Ok (Return False v anc cs)
     | Some i \<Rightarrow> rbind (if st = PSTATE_ARRAY_WAITVALUE then at_place (Kid i) var_clear_array v anc else Ok (v, anc))
         (\<lambda>(v, anc). Ok (Down (Kid i) st (L\<lparr>p_st := PSTATE_ARRAY_WAITVALUE\<rparr>) v anc cs)))"

definition step_array_waitvalue :: "u32 \<Rightarrow> locals \<Rightarrow> var \<Rightarrow> chain \<Rightarrow> char \<Rightarrow> string \<Rightarrow> pnext res" where
  "step_array_waitvalue ih L v anc c cs =
     (if c = CHR ''#'' then Ok (Go (comment L (p_st L)) v anc cs)
      else if c_isspace c \<or> c = CHR '','' then Ok (Go L v anc cs)
      else if c = CHR '']'' then Ok (Return True v anc (c # cs))
      else if c = CHR ''{'' then enter_added PSTATE_DICT_WAITKEY L v anc cs (var_add_dict ih v anc)
      else if c = CHR ''['' then enter_added PSTATE_ARRAY_WAITVALUE L v anc cs (var_add_array ih v anc)
      else if c = CHR 0x22 then Ok (Go ((fresh_value L)\<lparr>p_st := PSTATE_ARRAY_VALUE_QUOTED\<rparr>) v anc cs)
      else if c \<notin> set VALIDUNQUOTED then Ok (Return False v anc (c # cs))
      else Ok (Go ((fresh_value L)\<lparr>p_st := PSTATE_ARRAY_VALUE, p_nondigits := False, p_dots := 0\<rparr>) v anc (c # cs)))"

definition store_array :: "u32 \<Rightarrow> locals \<Rightarrow> var \<Rightarrow> chain \<Rightarrow> var res" where
  "store_array ih L v anc =
     (if \<not> p_nondigits L \<and> p_dots L < 2 then
        (if p_dots L = 0 then var_add_int ih v anc (strtoull10 (p_val L))
         else var_add_double ih v anc (Fin (c_atof (p_val L))))
      else var_add_str ih v anc (p_val L))"

definition step_array_value :: "u32 \<Rightarrow> locals \<Rightarrow> var \<Rightarrow> chain \<Rightarrow> char \<Rightarrow> string \<Rightarrow> pnext res" where
  "step_array_value ih L v anc c cs =
     (if c_isspace c \<or> c \<in> {CHR '']'', CHR '','', CHR ''#''} then
        rbind (store_array ih L v anc) (\<lambda>v. Ok (
          if c = CHR ''#'' then Go (comment L PSTATE_ARRAY_WAITVALUE) v anc cs
          else if c = CHR '']'' then Return True v anc (c # cs)
          else Go (L\<lparr>p_st := PSTATE_ARRAY_WAITVALUE\<rparr>) v anc cs))
      else if c \<notin> set VALIDUNQUOTEDV \<or> length (p_val L) \<ge> bufmax then Ok (Return False v anc (c # cs))
      else Ok (Go (collect L c) v anc cs))"

definition step_array_value_quoted :: "u32 \<Rightarrow> locals \<Rightarrow> var \<Rightarrow> chain \<Rightarrow> char \<Rightarrow> string \<Rightarrow> pnext res" where
  "step_array_value_quoted ih L v anc c cs =
     (if c = CHR 0x22 then
        rbind (var_add_str ih v anc (p_val L)) (\<lambda>v. Ok (Go (L\<lparr>p_st := PSTATE_ARRAY_WAITVALUE\<rparr>) v anc cs))
      else quoted_char L v anc c cs)"

definition step_comment :: "locals \<Rightarrow> var \<Rightarrow> chain \<Rightarrow> char \<Rightarrow> string \<Rightarrow> pnext res" where
  "step_comment L v anc c cs = Ok (Go (if c = CHR 0x0A then L\<lparr>p_st := p_next L\<rparr> else L) v anc cs)"

subsection \<open>The loop\<close>

definition pstep :: "u32 \<Rightarrow> locals \<Rightarrow> var \<Rightarrow> chain \<Rightarrow> char \<Rightarrow> string \<Rightarrow> pnext res" where
  "pstep ih L v anc c cs = (case p_st L of
      PSTATE_BEGINNING \<Rightarrow> step_waitkey L v anc c cs
    | PSTATE_DICT_WAITKEY \<Rightarrow> step_waitkey L v anc c cs
    | PSTATE_DICT_KEY \<Rightarrow> step_key ih L v anc c cs
    | PSTATE_DICT_KEY_QUOTED \<Rightarrow> step_key_quoted L v anc c cs
    | PSTATE_DICT_WAITVALUE \<Rightarrow> step_waitvalue ih L v anc c cs
    | PSTATE_DICT_VALUE \<Rightarrow> step_value ih L v anc c cs
    | PSTATE_DICT_VALUE_QUOTED \<Rightarrow> step_value_quoted ih L v anc c cs
    | PSTATE_ARRAY_WAITVALUE \<Rightarrow> step_array_waitvalue ih L v anc c cs
    | PSTATE_ARRAY_VALUE \<Rightarrow> step_array_value ih L v anc c cs
    | PSTATE_ARRAY_VALUE_QUOTED \<Rightarrow> step_array_value_quoted ih L v anc c cs
    | PSTATE_COMMENT \<Rightarrow> step_comment L v anc c cs)"

definition locals0 :: "parse_state \<Rightarrow> locals" where
  "locals0 st = \<lparr>p_st = st, p_next = st, p_key = '''', p_val = '''', p_nondigits = False, p_dots = 0\<rparr>"

text \<open>The result of a level: what the C function returns, the node, its ancestors and the cursor.\<close>

type_synonym parsed = "bool \<times> var \<times> chain \<times> string"

fun parse_loop :: "u32 \<Rightarrow> nat \<Rightarrow> int \<Rightarrow> locals \<Rightarrow> var \<Rightarrow> chain \<Rightarrow> string \<Rightarrow> parsed res option" where
  "parse_loop ih 0 depth L v anc cs = None"
| "parse_loop ih (Suc n) depth L v anc [] = Some (Ok (True, v, anc, []))"
| "parse_loop ih (Suc n) depth L v anc (c # cs) =
     (case pstep ih L v anc c cs of
        Inl e \<Rightarrow> Some (Fault e)
      | Inr (Go L v anc cs) \<Rightarrow> parse_loop ih n depth L v anc cs
      | Inr (Return b v anc cs) \<Rightarrow> Some (Ok (b, v, anc, cs))
      | Inr (Down p st L v anc cs) \<Rightarrow>
          if depth + 1 > default_max_json_depth then Some (Ok (False, v, anc, cs))
          else (case parse_loop ih n (depth + 1) (locals0 st) (place_var v p) (hdr v # anc) cs of
              None \<Rightarrow> None
            | Some (Inl e) \<Rightarrow> Some (Fault e)
            | Some (Inr (b, w, hs, cs)) \<Rightarrow>
                (case leave p v w hs of (v, anc) \<Rightarrow>
                   if \<not> b then Some (Ok (False, v, anc, cs))
                   else (case cs of [] \<Rightarrow> Some (Fault OutOfBounds) | x # cs \<Rightarrow> parse_loop ih n depth L v anc cs))))"

definition var_parse_json_level :: "u32 \<Rightarrow> nat \<Rightarrow> parse_state \<Rightarrow> int \<Rightarrow> var \<Rightarrow> chain \<Rightarrow> string \<Rightarrow> parsed res option" where
  "var_parse_json_level ih fuel st depth v anc txt =
     (if depth > default_max_json_depth then Some (Ok (False, v, anc, txt))
      else parse_loop ih fuel depth (locals0 st) v anc txt)"

text \<open>The fuel is what a text of this length can use (see \<open>parse_total\<close>).\<close>

definition parse_fuel :: "string \<Rightarrow> nat" where
  "parse_fuel txt = 2 * length txt + 2"

definition var_parse_json :: "u32 \<Rightarrow> var \<Rightarrow> string \<Rightarrow> parsed res option" where
  "var_parse_json ih into txt = var_parse_json_level ih (parse_fuel txt) PSTATE_BEGINNING 0 into [] txt"

subsection \<open>The writer\<close>

text \<open>
  The text goes out in calls of \<^verbatim>\<open>ioport_printf\<close>, each of which writes at most 4095 characters.
  The indentation stops at 128 columns.
\<close>

definition printf_out :: "string \<Rightarrow> string" where
  "printf_out s = take 4095 s"

definition SPC :: "nat \<Rightarrow> string" where
  "SPC n = replicate n (CHR '' '')"

text \<open>\<^verbatim>\<open>%f\<close>: six decimals, rounded half to even.\<close>

definition pad_zeros :: "nat \<Rightarrow> string \<Rightarrow> string" where
  "pad_zeros n s = replicate (n - length s) (CHR ''0'') @ s"

fun fmt_f :: "dbl \<Rightarrow> string" where
  "fmt_f (Fin x) =
     (let n = nat (round_even (\<bar>x\<bar> * 1000000))
      in (if x < 0 then ''-'' else '''') @ dec_digits (n div 1000000) @ ''.'' @ pad_zeros 6 (dec_digits (n mod 1000000)))"
| "fmt_f Inf = ''inf''"

definition quoted :: "string \<Rightarrow> string" where
  "quoted s = [CHR 0x22] @ s @ [CHR 0x22]"

definition write_key :: "string \<Rightarrow> string" where
  "write_key k = printf_out (quoted (var_escape_str k) @ '': '')"

definition newline :: string where "newline = [CHR 0x0A]"

fun write_node :: "nat \<Rightarrow> var \<Rightarrow> string" and write_kids :: "nat \<Rightarrow> bool \<Rightarrow> var list \<Rightarrow> string" where
  "write_node indent (Var h VNull) = quoted ''''"
| "write_node indent (Var h (VInt i)) = dec_digits (unat i)"
| "write_node indent (Var h (VDouble d)) = printf_out (fmt_f d)"
| "write_node indent (Var h (VStr s)) = printf_out (quoted (var_escape_str s))"
| "write_node indent (Var h (VDict (VLink ks ct cp cn))) =
     ''{'' @ newline @ write_kids (min 128 (indent + 4)) True ks @ SPC indent @ ''}''"
| "write_node indent (Var h (VArray (VLink ks ct cp cn))) =
     ''['' @ newline @ write_kids (min 128 (indent + 4)) False ks @ SPC indent @ '']''"
| "write_kids indent isdict [] = ''''"
| "write_kids indent isdict (c # cs) =
     SPC indent @ (if isdict then write_key (var_id c) else '''') @ write_node indent c @
       (if cs = [] then newline else '','' @ newline) @ write_kids indent isdict cs"

definition var_write_indented :: "var \<Rightarrow> nat \<Rightarrow> bool \<times> string" where
  "var_write_indented v indent =
     (if is_dict v \<or> is_array v then (True, write_kids (min 128 indent) (is_dict v) (kids_of v)) else (False, ''''))"

definition var_write :: "var \<Rightarrow> bool \<times> string" where
  "var_write v = (case var_write_indented v 4 of (res, txt) \<Rightarrow> (res, ''{'' @ newline @ txt @ ''}'' @ newline))"

end
