(* ===== verification/VarTyped.thy ===== *)
theory VarTyped
  imports VarParse
begin

text \<open>
  What the parser makes of an arbitrary text: a tree whose root pointers, counts, caches and
  names are right and whose generations are all those of the root. As long as the root stays in
  one generation, marking a node as changed does nothing.
\<close>

subsection \<open>The invariant\<close>

definition hdr_ok :: "u32 \<Rightarrow> nat \<Rightarrow> vhdr \<Rightarrow> bool" where
  "hdr_ok g d h \<longleftrightarrow> root_at d h \<and> v_gen h = g \<and> v_lastmod h = g \<and> v_first h = g"

fun typed :: "u32 \<Rightarrow> nat \<Rightarrow> var \<Rightarrow> bool" where
  "typed g d (Var h (VDict (VLink ks ct cp cn))) \<longleftrightarrow> hdr_ok g d h \<and> link_ok ct cp cn (length ks) \<and>
     (\<forall>c\<in>set ks. var_id c \<noteq> '''' \<and> length (var_id c) \<le> 127 \<and> typed g (Suc d) c)"
| "typed g d (Var h (VArray (VLink ks ct cp cn))) \<longleftrightarrow> hdr_ok g d h \<and> link_ok ct cp cn (length ks) \<and>
     (\<forall>c\<in>set ks. var_id c = '''' \<and> typed g (Suc d) c)"
| "typed g d (Var h x) \<longleftrightarrow> hdr_ok g d h"

fun chain_typed :: "u32 \<Rightarrow> chain \<Rightarrow> bool" where
  "chain_typed g [] = True"
| "chain_typed g (h # hs) \<longleftrightarrow> hdr_ok g (length hs) h \<and> chain_typed g hs"

lemma typed_hdr: "typed g d v \<Longrightarrow> hdr_ok g d (hdr v)"
  by (induction g d v rule: typed.induct) simp_all

lemma typed_scalar [simp]:
  "typed g d (Var h VNull) = hdr_ok g d h" "typed g d (Var h (VInt i)) = hdr_ok g d h"
  "typed g d (Var h (VDouble r)) = hdr_ok g d h" "typed g d (Var h (VStr s)) = hdr_ok g d h"
  by simp_all

lemma typed_empty [simp]: "typed g d (Var h (VDict no_kids)) = hdr_ok g d h" "typed g d (Var h (VArray no_kids)) = hdr_ok g d h"
  by (auto simp: no_kids_def link_ok_new)

lemma chain_gen: "chain_typed g hs \<Longrightarrow> hs \<noteq> [] \<Longrightarrow> v_gen (last hs) = g"
  by (induction hs) (auto simp: hdr_ok_def)

lemma chain_root: "hdr_ok g (length anc) h \<Longrightarrow> chain_typed g anc \<Longrightarrow> root_gen h anc = Ok (if anc = [] then None else Some g)"
  using root_gen_ok[of anc h] chain_gen[of g anc] by (auto simp: hdr_ok_def simp del: root_gen.simps)

lemma chain_needs: "hdr_ok g (length anc) h \<Longrightarrow> chain_typed g anc \<Longrightarrow> needs_gen h anc = Ok g"
  using chain_root[of g anc h] by (simp add: needs_gen_def hdr_ok_def del: root_gen.simps)

lemma touch_typed:
  assumes "hdr_ok g (length anc) (hdr v)" "chain_typed g anc"
  shows "touch u v anc = Ok (v, anc)"
proof -
  obtain h x where v: "v = Var h x" by (cases v)
  have h: "h\<lparr>v_lastmod := g\<rparr> = h" "v_gen h = g" using assms(1) by (auto simp: v hdr_ok_def)
  have "var_update_gendata u (h # anc) = Ok (h # anc)"
    using chain_root[OF assms[unfolded v var.sel]] h by (simp add: Let_def del: root_gen.simps)
  then show ?thesis by (simp add: touch_def v)
qed

definition keeps :: "u32 \<Rightarrow> nat \<Rightarrow> (var \<Rightarrow> chain \<Rightarrow> (var \<times> chain) res) \<Rightarrow> bool" where
  "keeps g d op \<longleftrightarrow> (\<forall>v anc. typed g d v \<longrightarrow> length anc = d \<longrightarrow> chain_typed g anc \<longrightarrow>
     (\<exists>v'. op v anc = Ok (v', anc) \<and> typed g d v' \<and> var_id v' = var_id v))"

lemma gen_self: "hdr_ok g d h \<Longrightarrow> h\<lparr>v_gen := g\<rparr> = h"
  "hdr_ok g d h \<Longrightarrow> h\<lparr>v_lastmod := g\<rparr> = h"
  by (auto simp: hdr_ok_def)

lemma root_case:
  assumes "hdr_ok g (length anc) h" "chain_typed g anc"
  shows "\<exists>r. root_gen h anc = Ok r \<and> (case r of Some g \<Rightarrow> h\<lparr>v_gen := g\<rparr> | None \<Rightarrow> h) = h"
  using chain_root[OF assms] gen_self[OF assms(1)] by (auto simp del: root_gen.simps)

lemma set_scalar_typed:
  assumes "typed g (length anc) (Var h x)" "chain_typed g anc"
  shows "\<exists>v'. var_set_int (Var h x) anc i = Ok (v', anc) \<and> typed g (length anc) v' \<and> var_id v' = v_id h"
    "\<exists>v'. var_set_double (Var h x) anc r = Ok (v', anc) \<and> typed g (length anc) v' \<and> var_id v' = v_id h"
    "\<exists>v'. var_set_str (Var h x) anc s = Ok (v', anc) \<and> typed g (length anc) v' \<and> var_id v' = v_id h"
proof -
  have h: "hdr_ok g (length anc) h" using typed_hdr[OF assms(1)] by simp
  obtain q where q: "root_gen h anc = Ok q" "(case q of Some g \<Rightarrow> h\<lparr>v_gen := g\<rparr> | None \<Rightarrow> h) = h"
    using root_case[OF h assms(2)] by blast
  have t: "touch u (Var h y) anc = Ok (Var h y, anc)" for u y using touch_typed[of g anc "Var h y" u] h assms(2) by simp
  have g: "h\<lparr>v_lastmod := v_gen h\<rparr> = h" using h by (simp add: hdr_ok_def)
  show "\<exists>v'. var_set_int (Var h x) anc i = Ok (v', anc) \<and> typed g (length anc) v' \<and> var_id v' = v_id h"
    unfolding var_set_int_def var.sel using q t g h assms(1) by (cases x) (simp_all add: Let_def del: root_gen.simps)
  show "\<exists>v'. var_set_double (Var h x) anc r = Ok (v', anc) \<and> typed g (length anc) v' \<and> var_id v' = v_id h"
    unfolding var_set_double_def var.sel using q t g h assms(1) by (cases x) (simp_all add: Let_def del: root_gen.simps)
  show "\<exists>v'. var_set_str (Var h x) anc s = Ok (v', anc) \<and> typed g (length anc) v' \<and> var_id v' = v_id h"
    unfolding var_set_str_def var.sel using q t g h assms(1) by (cases x) (simp_all add: Let_def del: root_gen.simps)
qed

lemma keepsI:
  assumes "\<And>h x anc. typed g (length anc) (Var h x) \<Longrightarrow> chain_typed g anc \<Longrightarrow> length anc = d \<Longrightarrow>
    \<exists>v'. op (Var h x) anc = Ok (v', anc) \<and> typed g (length anc) v' \<and> var_id v' = v_id h"
  shows "keeps g d op"
  unfolding keeps_def
proof (intro allI impI)
  fix v anc assume a: "typed g d v" "length anc = d" "chain_typed g anc"
  obtain h x where v: "v = Var h x" by (cases v)
  show "\<exists>v'. op v anc = Ok (v', anc) \<and> typed g d v' \<and> var_id v' = var_id v" using assms[of anc h x] a by (simp add: v)
qed

lemma set_keeps: "keeps g d (\<lambda>v anc. var_set_int v anc i)" "keeps g d (\<lambda>v anc. var_set_double v anc r)" "keeps g d (\<lambda>v anc. var_set_str v anc s)"
  by (rule keepsI, rule set_scalar_typed; assumption)+

lemma clear_keeps: "keeps g d var_clear_array"
proof (rule keepsI)
  fix h x anc assume a: "typed g (length anc) (Var h x)" "chain_typed g anc"
  have h: "hdr_ok g (length anc) h" using typed_hdr[OF a(1)] by simp
  have t: "touch u (Var h y) anc = Ok (Var h y, anc)" for u y using touch_typed[of g anc "Var h y" u] h a(2) by simp
  show "\<exists>v'. var_clear_array (Var h x) anc = Ok (v', anc) \<and> typed g (length anc) v' \<and> var_id v' = v_id h"
  proof (cases x)
    case (VArray l)
    obtain ks ct cp cn where l: "l = VLink ks ct cp cn" by (cases l)
    have "ct = of_nat (length ks)" using a(1) by (simp add: VArray l link_ok_def)
    then show ?thesis using h t by (simp add: var_clear_array_def VArray l link_ok_def)
  qed (use a(1) in \<open>simp_all add: var_clear_array_def\<close>)
qed

subsection \<open>Children\<close>

fun place_ok :: "u32 \<Rightarrow> nat \<Rightarrow> var \<Rightarrow> place \<Rightarrow> bool" where
  "place_ok g d v (Kid i) \<longleftrightarrow> i < length (kids_of v)"
| "place_ok g d v (Loose c) \<longleftrightarrow> typed g (Suc d) c"

lemma typed_links:
  assumes "typed g d v" "vv v = VDict l \<or> vv v = VArray l"
  shows "hdr_ok g d (hdr v)" "link_ok (kcount l) (cachepos l) (cachenode l) (length (kids l))"
    "\<forall>c\<in>set (kids l). typed g (Suc d) c \<and> length (var_id c) \<le> 127 \<and> (var_id c = '''') = is_array v" "kids_of v = kids l"
  using assms by (cases v; cases l; auto simp: kids_of_def is_array_def)+

lemma typed_dictI:
  "hdr_ok g d h \<Longrightarrow> link_ok ct cp cn (length ks) \<Longrightarrow> (\<And>c. c \<in> set ks \<Longrightarrow> var_id c \<noteq> '''' \<and> length (var_id c) \<le> 127 \<and> typed g (Suc d) c) \<Longrightarrow>
   typed g d (Var h (VDict (VLink ks ct cp cn)))"
  by simp

lemma typed_arrayI:
  "hdr_ok g d h \<Longrightarrow> link_ok ct cp cn (length ks) \<Longrightarrow> (\<And>c. c \<in> set ks \<Longrightarrow> var_id c = '''' \<and> typed g (Suc d) c) \<Longrightarrow>
   typed g d (Var h (VArray (VLink ks ct cp cn)))"
  by simp

lemma place_typed:
  assumes "typed g d v" "place_ok g d v p"
  shows "typed g (Suc d) (place_var v p)"
proof (cases p)
  case (Kid i)
  have i: "i < length (kids_of v)" using assms(2) by (simp add: Kid)
  then obtain l where l: "vv v = VDict l \<or> vv v = VArray l" by (cases "vv v") (auto simp: kids_of_def)
  then show ?thesis using typed_links[OF assms(1) l] i by (simp add: Kid)
qed (use assms in simp)

lemma hash_typed [simp]: "typed g d (with_hdr (\<lambda>h. h\<lparr>v_hash := x h\<rparr>) c) = typed g d c"
  by (induction g d c rule: typed.induct) (simp_all add: hdr_ok_def root_at_def)

lemma hash_typed' [simp]: "typed g d (with_hdr (v_hash_update (\<lambda>_. y)) c) = typed g d c"
  using hash_typed[of g d "\<lambda>_. y" c] by simp

lemma find_key_loop_typed:
  assumes "\<forall>c\<in>set ks. P (var_id c) \<and> typed g d c"
  shows "\<forall>c\<in>set (fst (find_key_loop ih hash key ks)). P (var_id c) \<and> typed g d c"
    "length (fst (find_key_loop ih hash key ks)) = length ks"
    "snd (find_key_loop ih hash key ks) = Some i \<Longrightarrow> i < length ks"
  using assms by (induction ks arbitrary: i) (auto simp: Let_def split_beta split: if_splits)

lemma find_key_typed:
  assumes "typed g d v" "var_find_key ih v k = (v', r)"
  shows "typed g d v'" "hdr v' = hdr v" "r = Some i \<Longrightarrow> i < length (kids_of v')" "vv v' \<noteq> VNull"
proof -
  obtain h x where v: "v = Var h x" by (cases v)
  have "typed g d v' \<and> hdr v' = hdr v \<and> (r = Some i \<longrightarrow> i < length (kids_of v')) \<and> vv v' \<noteq> VNull"
  proof (cases x)
    case (VDict l)
    obtain ks ct cp cn where l: "l = VLink ks ct cp cn" by (cases l)
    let ?ks = "fst (find_key_loop ih (hash_token ih k) k ks)"
    have a: "\<forall>c\<in>set ks. (var_id c \<noteq> '''' \<and> length (var_id c) \<le> 127) \<and> typed g (Suc d) c" using assms(1) by (simp add: v VDict l)
    note f = find_key_loop_typed[of ks "\<lambda>s. s \<noteq> '''' \<and> length s \<le> 127", OF a, where ih = ih and hash = "hash_token ih k" and key = k]
    have "v' = Var h (VDict (VLink ?ks ct cp cn))" "r = snd (find_key_loop ih (hash_token ih k) k ks)"
      using assms(2) by (auto simp: v VDict l var_find_key_def Let_def split_beta set_kids_def)
    then show ?thesis using assms(1) f by (auto simp: v VDict l kids_of_def)
  qed (use assms in \<open>auto simp: v var_find_key_def\<close>)
  then show "typed g d v'" "hdr v' = hdr v" "r = Some i \<Longrightarrow> i < length (kids_of v')" "vv v' \<noteq> VNull" by blast+
qed

definition leafy :: "var vval \<Rightarrow> bool" where
  "leafy x \<longleftrightarrow> (case x of VArray l \<Rightarrow> l = no_kids | VDict l \<Rightarrow> l = no_kids | _ \<Rightarrow> True)"

lemma leafy_typed: "leafy x \<Longrightarrow> typed g d (Var h x) = hdr_ok g d h"
  by (cases x) (auto simp: leafy_def)

lemma attach_typed:
  assumes "typed g d p" "leafy x" "length (v_id h) \<le> 127"
  shows "\<exists>c p' b. attach ih g (Var h x) p = (c, p', b) \<and> typed g d p' \<and> typed g (Suc d) c \<and> hdr p' = hdr p \<and>
    (b \<longrightarrow> kids_of p' = kids_of p @ [c]) \<and> (is_array p \<longrightarrow> v_id h = '''' \<longrightarrow> b)"
proof -
  have hp: "hdr_ok g d (hdr p)" by (rule typed_hdr[OF assms(1)])
  define h' where "h' = (if v_hash h = 0 \<and> v_id h \<noteq> '''' then h\<lparr>v_hash := hash_token ih (v_id h)\<rparr> else h)
    \<lparr>v_root := RootUp (Suc d), v_first := g, v_lastmod := g, v_gen := g\<rparr>"
  have id: "v_id h' = v_id h" by (simp add: h'_def)
  have c: "typed g (Suc d) (Var h' x)" unfolding leafy_typed[OF assms(2)] by (simp add: h'_def hdr_ok_def root_at_def)
  have r: "(case v_root (hdr p) of RootNone \<Rightarrow> RootUp 1 | RootUp n \<Rightarrow> RootUp (Suc n) | RootFreed \<Rightarrow> RootFreed) = RootUp (Suc d)"
    using attach_root[of d p] hp by (simp add: hdr_ok_def)
  define y where "y = (if vv p = VNull then (if v_id h = '''' then VArray no_kids else VDict no_kids) else vv p)"
  have ty: "typed g d (Var (hdr p) y)" using assms(1) hp by (cases p) (auto simp: y_def)
  have ky: "kids_of (Var (hdr p) y) = kids_of p" by (cases p) (auto simp: y_def kids_of_def no_kids_def)
  have e: "attach ih g (Var h x) p = (case y of
           VArray l \<Rightarrow>
             if v_id h = '''' then (Var h' x, Var (hdr p) (VArray (VLink (kids l @ [Var h' x]) (kcount l + 1) (cachepos l) (cachenode l))), True)
             else (Var h' x, Var (hdr p) y, False)
         | VDict l \<Rightarrow>
             if v_id h \<noteq> '''' then (Var h' x, Var (hdr p) (VDict (VLink (kids l @ [Var h' x]) (kcount l + 1) (cachepos l) (cachenode l))), True)
             else (Var h' x, Var (hdr p) y, False)
         | _ \<Rightarrow> (Var h' x, Var (hdr p) y, False))"
    by (cases "vv p"; cases "v_id h = ''''") (simp_all add: attach_def h'_def y_def Let_def r)

  show ?thesis
  proof (cases y)
    case (VDict l)
    have t: "link_ok (kcount l) (cachepos l) (cachenode l) (length (kids l))" "\<forall>c\<in>set (kids l). typed g (Suc d) c \<and> var_id c \<noteq> '''' \<and> length (var_id c) \<le> 127"
      using ty by (cases l; auto simp: VDict)+
    then have "typed g d (Var (hdr p) (VDict (VLink (kids l @ [Var h' x]) (kcount l + 1) (cachepos l) (cachenode l))))" if "v_id h \<noteq> ''''"
      using hp c id assms(3) that by (auto simp: link_ok_grow)
    moreover have "\<not> is_array p" using VDict by (auto simp: y_def is_array_def split: if_splits)
    ultimately show ?thesis unfolding e VDict using c ty ky by (auto simp: VDict kids_of_def)
  next
    case (VArray l)
    have t: "link_ok (kcount l) (cachepos l) (cachenode l) (length (kids l))" "\<forall>c\<in>set (kids l). typed g (Suc d) c \<and> var_id c = ''''"
      using ty by (cases l; auto simp: VArray)+
    then have "typed g d (Var (hdr p) (VArray (VLink (kids l @ [Var h' x]) (kcount l + 1) (cachepos l) (cachenode l))))" if "v_id h = ''''"
      using hp c id that by (auto simp: link_ok_grow)
    then show ?thesis unfolding e VArray using c ty ky by (auto simp: VArray kids_of_def)
  qed (use e c ty in \<open>auto simp: y_def is_array_def split: if_splits\<close>)
qed

lemma link_typed:
  assumes "typed g (length anc) p" "chain_typed g anc" "leafy x" "length (v_id h) \<le> 127"
  shows "\<exists>c p' b. var_link ih (Var h x) p anc = Ok (c, p', b) \<and> typed g (length anc) p' \<and> typed g (Suc (length anc)) c \<and> hdr p' = hdr p \<and>
    (b \<longrightarrow> kids_of p' = kids_of p @ [c]) \<and> (is_array p \<longrightarrow> v_id h = '''' \<longrightarrow> b)"
  using attach_typed[OF assms(1,3,4), of ih] chain_needs[OF typed_hdr[OF assms(1)] assms(2)] by (auto simp: var_link_def)

lemma find_or_make_typed:
  assumes "typed g (length anc) v" "chain_typed g anc" "leafy x"
  shows "\<exists>v' p. find_or_make ih v anc k x = Ok (v', p) \<and> typed g (length anc) v' \<and> place_ok g (length anc) v' p \<and> hdr v' = hdr v"
proof -
  obtain v1 r where f: "var_find_key ih v k = (v1, r)" by fastforce
  note f1 = find_key_typed[OF assms(1) f]
  show ?thesis
  proof (cases r)
    case (Some i)
    then show ?thesis using f f1 by (auto simp: find_or_make_def)
  next
    case None
    let ?h = "hdr0\<lparr>v_id := c_truncate 127 k, v_hash := hash_token ih k\<rparr>"
    obtain c p b where l: "var_link ih (Var ?h x) v1 anc = Ok (c, p, b)" "typed g (length anc) p" "typed g (Suc (length anc)) c" "hdr p = hdr v1"
        "b \<longrightarrow> kids_of p = kids_of v1 @ [c]"
      using link_typed[OF f1(1) assms(2,3), of ?h ih] c_truncate_length[of 127 k] by auto
    then show ?thesis using f None f1(2) by (cases b) (auto simp: find_or_make_def)
  qed
qed

text \<open>Going back up to the parent after work on a child.\<close>

lemma kid_id:
  assumes "typed g d v" "i < length (kids_of v)" "vv v = VDict l \<or> vv v = VArray l"
  shows "length (var_id (kids_of v ! i)) \<le> 127 \<and> (var_id (kids_of v ! i) = '''') = is_array v"
  using typed_links[OF assms(1,3)] assms(2) by simp

lemma leave_typed:
  assumes "typed g d v" "place_ok g d v p" "typed g (Suc d) c'" "var_id c' = var_id (place_var v p)"
  shows "\<exists>v'. leave p v c' (hdr v # anc) = (v', anc) \<and> typed g d v' \<and> hdr v' = hdr v"
proof (cases p)
  case (Loose c)
  then show ?thesis using assms(1) by (cases v) simp
next
  case (Kid i)
  have i: "i < length (kids_of v)" using assms(2) by (simp add: Kid)
  then obtain l where l: "vv v = VDict l \<or> vv v = VArray l" by (cases "vv v") (auto simp: kids_of_def)
  obtain ks ct cp cn where ks: "l = VLink ks ct cp cn" by (cases l)
  have k: "kids_of v = ks" using typed_links(4)[OF assms(1) l] ks by simp
  have id: "var_id c' = var_id (ks ! i)" using assms(4) k by (simp add: Kid)
  note idk = kid_id[OF assms(1) i l, unfolded k]
  have t: "typed g d v" "typed g (Suc d) c'" using assms(1,3) .
  from l show ?thesis
  proof
    assume v: "vv v = VDict l"
    then obtain h where v': "v = Var h (VDict (VLink ks ct cp cn))" using ks by (cases v) simp
    have "typed g d (Var h (VDict (VLink (ks[i := c']) ct cp cn)))"
    proof (rule typed_dictI)
      fix c assume "c \<in> set (ks[i := c'])"
      then have "c = c' \<or> c \<in> set ks" using set_update_subset_insert[of ks i c'] by blast
      then show "var_id c \<noteq> '''' \<and> length (var_id c) \<le> 127 \<and> typed g (Suc d) c" using t idk id v by (auto simp: v' is_array_def)
    qed (use t in \<open>simp_all add: v'\<close>)
    then show ?thesis by (simp add: Kid v' kids_of_def set_kids_def)
  next
    assume v: "vv v = VArray l"
    then obtain h where v': "v = Var h (VArray (VLink ks ct cp cn))" using ks by (cases v) simp
    have "typed g d (Var h (VArray (VLink (ks[i := c']) ct cp cn)))"
    proof (rule typed_arrayI)
      fix c assume "c \<in> set (ks[i := c'])"
      then have "c = c' \<or> c \<in> set ks" using set_update_subset_insert[of ks i c'] by blast
      then show "var_id c = '''' \<and> typed g (Suc d) c" using t idk id v by (auto simp: v' is_array_def)
    qed (use t in \<open>simp_all add: v'\<close>)
    then show ?thesis by (simp add: Kid v' kids_of_def set_kids_def)
  qed
qed

lemma at_place_typed:
  assumes "typed g (length anc) v" "chain_typed g anc" "place_ok g (length anc) v p" "keeps g (Suc (length anc)) op"
  shows "\<exists>v'. at_place p op v anc = Ok (v', anc) \<and> typed g (length anc) v' \<and> hdr v' = hdr v"
proof -
  have ch: "chain_typed g (hdr v # anc)" "length (hdr v # anc) = Suc (length anc)" using typed_hdr[OF assms(1)] assms(2) by simp_all
  obtain c' where o: "op (place_var v p) (hdr v # anc) = Ok (c', hdr v # anc)" "typed g (Suc (length anc)) c'" "var_id c' = var_id (place_var v p)"
    using assms(4) place_typed[OF assms(1,3)] ch unfolding keeps_def by blast
  show ?thesis using leave_typed[OF assms(1,3) o(2,3)] o(1) by (auto simp: at_place_def simp del: leave.simps)
qed

lemma set_kids_length: "length (kids_of (Var h (vv (set_kids v ((kids_of v)[i := c]))))) = length (kids_of v)"
  by (cases "vv v") (auto simp: set_kids_def kids_of_def)

lemma at_place_stays:
  assumes "at_place p op v anc = Ok (v', anc)" "place_ok g d v p"
  shows "place_ok g d v' p"
proof (cases p)
  case (Kid i)
  then show ?thesis using assms set_kids_length by (auto simp: at_place_def rbind_Ok_iff split: prod.splits)
qed (use assms(2) in simp)

lemma get_or_make_typed:
  assumes "typed g (length anc) v" "chain_typed g anc"
  shows "\<exists>v' p. var_get_or_make ih v anc k = Ok (v', p) \<and> typed g (length anc) v' \<and> place_ok g (length anc) v' p \<and> hdr v' = hdr v"
proof -
  let ?v = "if vv v = VNull then Var (hdr v) (VDict no_kids) else v"
  have "typed g (length anc) ?v" using assms(1) typed_hdr[OF assms(1)] by simp
  from find_or_make_typed[OF this assms(2), of VNull ih k] show ?thesis by (auto simp: var_get_or_make_def Let_def leafy_def split: if_splits)
qed

lemma set_forkey_keeps:
  assumes "keeps g (Suc d) op"
  shows "keeps g d (\<lambda>v anc. set_forkey ih v anc k op)"
proof (rule keepsI)
  fix h x anc assume a: "typed g (length anc) (Var h x)" "chain_typed g anc" "length anc = d"
  obtain v' p where m: "var_get_or_make ih (Var h x) anc k = Ok (v', p)" "typed g (length anc) v'" "place_ok g (length anc) v' p" "hdr v' = h"
    using get_or_make_typed[OF a(1,2), of ih k] by auto
  show "\<exists>v'. set_forkey ih (Var h x) anc k op = Ok (v', anc) \<and> typed g (length anc) v' \<and> var_id v' = v_id h"
    using at_place_typed[OF m(2) a(2) m(3), of op] assms a(3) m(1,4) by (auto simp: set_forkey_def)
qed

lemma add_node_typed:
  assumes "typed g (length anc) v" "chain_typed g anc" "is_array v" "leafy x"
  shows "\<exists>v'. add_node ih v anc x = Ok v' \<and> typed g (length anc) v' \<and> hdr v' = hdr v \<and> length (kids_of v') = Suc (length (kids_of v))"
proof -
  obtain c p' where l: "var_link ih (Var hdr0 x) v anc = Ok (c, p', True)" "typed g (length anc) p'" "hdr p' = hdr v" "kids_of p' = kids_of v @ [c]"
    using link_typed[OF assms(1,2,4), of hdr0 ih] assms(3) by (auto simp: hdr0_def)
  then show ?thesis by (simp add: add_node_def)
qed

lemma get_dict_typed:
  assumes "typed g (length anc) v" "chain_typed g anc"
  shows "\<exists>v' r. var_get_dict_forkey ih v anc k = Ok (v', r) \<and> typed g (length anc) v' \<and> hdr v' = hdr v \<and> (\<forall>p. r = Some p \<longrightarrow> place_ok g (length anc) v' p)"
    "\<exists>v' r. var_get_array_forkey ih v anc k = Ok (v', r) \<and> typed g (length anc) v' \<and> hdr v' = hdr v \<and> (\<forall>p. r = Some p \<longrightarrow> place_ok g (length anc) v' p)"
  using find_or_make_typed[OF assms, of "VDict no_kids" ih k] find_or_make_typed[OF assms, of "VArray no_kids" ih k]
  by (auto simp: var_get_dict_forkey_def var_get_array_forkey_def leafy_def)

lemma add_container_typed:
  assumes "typed g (length anc) v" "chain_typed g anc" "leafy x"
  shows "\<exists>v' r. add_container ih v anc x = Ok (v', r) \<and> typed g (length anc) v' \<and> hdr v' = hdr v \<and> (\<forall>i. r = Some i \<longrightarrow> i < length (kids_of v'))"
proof -
  let ?v = "if vv v = VNull then Var (hdr v) (VArray no_kids) else v"
  have t: "typed g (length anc) ?v" "hdr ?v = hdr v" using assms(1) typed_hdr[OF assms(1)] by simp_all
  show ?thesis
  proof (cases "is_array ?v")
    case True
    then show ?thesis using add_node_typed[OF t(1) assms(2) True assms(3), of ih] t(2) by (auto simp: add_container_def Let_def)
  next
    case False
    then show ?thesis using t by (auto simp: add_container_def Let_def)
  qed
qed

subsection \<open>The parser\<close>

text \<open>What a step may do in a tree of generation \<open>g\<close>: the ancestors stay as they are.\<close>

fun next_typed :: "u32 \<Rightarrow> var \<Rightarrow> chain \<Rightarrow> pnext \<Rightarrow> bool" where
  "next_typed g v anc (Go L v' anc' cs) \<longleftrightarrow> anc' = anc \<and> typed g (length anc) v' \<and> var_id v' = var_id v"
| "next_typed g v anc (Return b v' anc' cs) \<longleftrightarrow> anc' = anc \<and> typed g (length anc) v' \<and> var_id v' = var_id v"
| "next_typed g v anc (Down p st L v' anc' cs) \<longleftrightarrow> anc' = anc \<and> typed g (length anc) v' \<and> var_id v' = var_id v \<and> place_ok g (length anc) v' p"

definition step_typed :: "u32 \<Rightarrow> var \<Rightarrow> chain \<Rightarrow> pnext res \<Rightarrow> bool" where
  "step_typed g v anc r \<longleftrightarrow> (case r of Inl e \<Rightarrow> e = OutOfBounds | Inr n \<Rightarrow> next_typed g v anc n)"

lemma step_typed_Ok [simp]: "step_typed g v anc (Ok n) = next_typed g v anc n" "step_typed g v anc (Fault e) = (e = OutOfBounds)"
  by (simp_all add: step_typed_def)

definition in_gen :: "u32 \<Rightarrow> var \<Rightarrow> chain \<Rightarrow> bool" where
  "in_gen g v anc \<longleftrightarrow> typed g (length anc) v \<and> chain_typed g anc"

lemma in_genD: "in_gen g v anc \<Longrightarrow> typed g (length anc) v" "in_gen g v anc \<Longrightarrow> chain_typed g anc"
  by (simp_all add: in_gen_def)


lemma advance_typed:
  assumes here: "in_gen g v anc"
  shows "step_typed g v anc (advance L v anc cs)"
  using in_genD[OF here] by (cases cs) (simp_all add: advance_def)

lemma enter_dict_typed:
  assumes here: "in_gen g v anc"
  shows "step_typed g v anc (enter_dict ih L v anc cs)"
  using get_dict_typed(1)[OF in_genD[OF here], of ih "p_key L"] by (auto simp: enter_dict_def split: option.split)

lemma enter_array_typed:
  assumes here: "in_gen g v anc"
  shows "step_typed g v anc (enter_array ih L v anc cs)"
proof -
  obtain v1 r where m: "var_get_array_forkey ih v anc (p_key L) = Ok (v1, r)" "typed g (length anc) v1" "hdr v1 = hdr v"
      "\<forall>p. r = Some p \<longrightarrow> place_ok g (length anc) v1 p"
    using get_dict_typed(2)[OF in_genD[OF here], of ih "p_key L"] by blast
  show ?thesis
  proof (cases r)
    case (Some p)
    obtain v2 where "at_place p var_clear_array v1 anc = Ok (v2, anc)" "typed g (length anc) v2" "hdr v2 = hdr v1" "place_ok g (length anc) v2 p"
      using at_place_typed[OF m(2) in_genD(2)[OF here] _ clear_keeps] at_place_stays m(4) Some by blast
    then show ?thesis using m Some by (simp add: enter_array_def)
  qed (use m in \<open>simp add: enter_array_def\<close>)
qed

lemma enter_added_typed:
  assumes here: "in_gen g v anc" and "leafy x"
  shows "step_typed g v anc (enter_added st L v anc cs (add_container ih v anc x))"
proof -
  obtain v1 r where m: "add_container ih v anc x = Ok (v1, r)" "typed g (length anc) v1" "hdr v1 = hdr v" "\<forall>i. r = Some i \<longrightarrow> i < length (kids_of v1)"
    using add_container_typed[OF in_genD[OF here] assms(2), of ih] by blast
  show ?thesis
  proof (cases r)
    case (Some i)
    then have p: "place_ok g (length anc) v1 (Kid i)" using m(4) by simp
    obtain v2 where "at_place (Kid i) var_clear_array v1 anc = Ok (v2, anc)" "typed g (length anc) v2" "hdr v2 = hdr v1" "place_ok g (length anc) v2 (Kid i)"
      using at_place_typed[OF m(2) in_genD(2)[OF here] p clear_keeps] at_place_stays p by blast
    then show ?thesis using m Some by (simp add: enter_added_def)
  qed (use m in \<open>simp add: enter_added_def\<close>)
qed

lemma forkey_typed:
  assumes here: "in_gen g v anc"
  shows "keeps g (Suc (length anc)) op \<Longrightarrow> \<exists>v'. set_forkey ih v anc k op = Ok (v', anc) \<and> typed g (length anc) v' \<and> var_id v' = var_id v"
  using set_forkey_keeps[of g "length anc" op ih k] in_genD[OF here] unfolding keeps_def by blast

lemma store_dict_typed:
  assumes here: "in_gen g v anc"
  shows "\<exists>v'. store_dict ih L v anc = Ok (v', anc) \<and> typed g (length anc) v' \<and> var_id v' = var_id v"
  by (simp add: store_dict_def var_set_int_forkey_def var_set_double_forkey_def var_set_str_forkey_def forkey_typed[OF here] set_keeps)

lemma add_typed:
  assumes here: "in_gen g v anc"
  shows "leafy x \<Longrightarrow> \<exists>v'. (if \<not> is_array v then Ok v else add_node ih v anc x) = Ok v' \<and> typed g (length anc) v' \<and> var_id v' = var_id v"
  using add_node_typed[OF in_genD[OF here], of x ih] in_genD(1)[OF here] by auto

lemma store_array_typed:
  assumes here: "in_gen g v anc"
  shows "\<exists>v'. store_array ih L v anc = Ok v' \<and> typed g (length anc) v' \<and> var_id v' = var_id v"
proof -
  have "\<exists>v'. var_add_int ih v anc i = Ok v' \<and> typed g (length anc) v' \<and> var_id v' = var_id v"
    "\<exists>v'. var_add_double ih v anc r = Ok v' \<and> typed g (length anc) v' \<and> var_id v' = var_id v"
    "\<exists>v'. var_add_str ih v anc s = Ok v' \<and> typed g (length anc) v' \<and> var_id v' = var_id v" for i r s
    unfolding var_add_int_def var_add_double_def var_add_str_def by (rule add_typed[OF here], simp add: leafy_def)+
  then show ?thesis unfolding store_array_def by simp
qed

lemma quoted_char_typed:
  assumes here: "in_gen g v anc"
  shows "step_typed g v anc (quoted_char L v anc c cs)"
  using in_genD[OF here] advance_typed[OF here] by (simp add: quoted_char_def unescape_def Let_def)

lemma pstep_typed:
  assumes here: "in_gen g v anc"
  shows "step_typed g v anc (pstep ih L v anc c cs)"
proof (cases "p_st L")
  case PSTATE_DICT_KEY_QUOTED
  then show ?thesis using in_genD[OF here] advance_typed[OF here] by (simp add: pstep_def step_key_quoted_def Let_def)
next
  case PSTATE_DICT_KEY
  then show ?thesis using in_genD[OF here] enter_dict_typed[OF here] enter_array_typed[OF here] by (simp add: pstep_def step_key_def)
next
  case PSTATE_DICT_WAITVALUE
  then show ?thesis using in_genD[OF here] enter_dict_typed[OF here] enter_array_typed[OF here] by (simp add: pstep_def step_waitvalue_def)
next
  case PSTATE_DICT_VALUE
  obtain v' where "store_dict ih L v anc = Ok (v', anc)" "typed g (length anc) v'" "var_id v' = var_id v" using store_dict_typed[OF here] by blast
  then show ?thesis using in_genD[OF here] PSTATE_DICT_VALUE by (simp add: pstep_def step_value_def)
next
  case PSTATE_DICT_VALUE_QUOTED
  obtain v' where "var_set_str_forkey ih v anc (p_key L) (p_val L) = Ok (v', anc)" "typed g (length anc) v'" "var_id v' = var_id v"
    using forkey_typed[OF here set_keeps(3)] unfolding var_set_str_forkey_def by blast
  then show ?thesis using quoted_char_typed[OF here] PSTATE_DICT_VALUE_QUOTED by (simp add: pstep_def step_value_quoted_def)
next
  case PSTATE_ARRAY_WAITVALUE
  then show ?thesis using in_genD[OF here] enter_added_typed[OF here] by (simp add: pstep_def step_array_waitvalue_def var_add_dict_def var_add_array_def leafy_def)
next
  case PSTATE_ARRAY_VALUE
  obtain v' where "store_array ih L v anc = Ok v'" "typed g (length anc) v'" "var_id v' = var_id v" using store_array_typed[OF here] by blast
  then show ?thesis using in_genD[OF here] PSTATE_ARRAY_VALUE by (simp add: pstep_def step_array_value_def)
next
  case PSTATE_ARRAY_VALUE_QUOTED
  obtain v' where "var_add_str ih v anc (p_val L) = Ok v'" "typed g (length anc) v'" "var_id v' = var_id v"
    using add_typed[OF here, of "VStr (p_val L)" ih] unfolding var_add_str_def leafy_def by auto
  then show ?thesis using quoted_char_typed[OF here] PSTATE_ARRAY_VALUE_QUOTED by (simp add: pstep_def step_array_value_quoted_def)
qed (use in_genD[OF here] in \<open>simp_all add: pstep_def step_waitkey_def step_comment_def\<close>)

definition result_typed :: "u32 \<Rightarrow> var \<Rightarrow> chain \<Rightarrow> parsed res \<Rightarrow> bool" where
  "result_typed g v anc r \<longleftrightarrow> (case r of Inl e \<Rightarrow> e = OutOfBounds
     | Inr (b, v', anc', cs) \<Rightarrow> anc' = anc \<and> typed g (length anc) v' \<and> var_id v' = var_id v)"

lemma result_typed_id: "result_typed g v' anc r \<Longrightarrow> var_id v' = var_id v \<Longrightarrow> result_typed g v anc r"
  unfolding result_typed_def by metis

lemma parse_loop_typed:
  "in_gen g v anc \<Longrightarrow> parse_loop ih n depth L v anc cs = Some r \<Longrightarrow> result_typed g v anc r"
proof (induction n arbitrary: depth L v anc cs r)
  case (Suc n)
  show ?case
  proof (cases cs)
    case Nil
    then show ?thesis using Suc.prems by (auto simp: result_typed_def in_gen_def)
  next
    case (Cons c cs0)
    note run = Suc.prems(2)[unfolded Cons parse_loop.simps]
    note st = pstep_typed[OF Suc.prems(1), of ih L c cs0]
    show ?thesis
    proof (cases "pstep ih L v anc c cs0")
      case (Inl e)
      then show ?thesis using run st by (auto simp: result_typed_def)
    next
      case (Inr q)
      have q: "next_typed g v anc q" using st Inr by simp
      show ?thesis
      proof (cases q)
        case (Go L' v' anc' cs')
        then have "in_gen g v' anc" "var_id v' = var_id v" "anc' = anc" using q Suc.prems(1) by (auto simp: in_gen_def)
        moreover have "parse_loop ih n depth L' v' anc cs' = Some r" using run Inr Go \<open>anc' = anc\<close> by simp
        ultimately have "result_typed g v' anc r" by (intro Suc.IH)
        then show ?thesis using \<open>var_id v' = var_id v\<close> by (rule result_typed_id)
      next
        case (Return b v' anc' cs')
        then show ?thesis using run Inr q by (auto simp: result_typed_def)
      next
        case (Down p st L' v' anc' cs')
        have d: "anc' = anc" "typed g (length anc) v'" "var_id v' = var_id v" "place_ok g (length anc) v' p" using q Down by auto
        show ?thesis
        proof (cases "depth + 1 > default_max_json_depth")
          case True
          then show ?thesis using run Inr Down d by (auto simp: result_typed_def)
        next
          case False
          have cg: "in_gen g (place_var v' p) (hdr v' # anc)"
            using place_typed[OF d(2,4)] typed_hdr[OF d(2)] Suc.prems(1) by (simp add: in_gen_def)
          obtain q' where q': "parse_loop ih n (depth + 1) (locals0 st) (place_var v' p) (hdr v' # anc) cs' = Some q'"
            using run Inr Down False d(1) by (cases "parse_loop ih n (depth + 1) (locals0 st) (place_var v' p) (hdr v' # anc) cs'") auto
          note child = Suc.IH[OF cg q']
          show ?thesis
          proof (cases q')
            case e: (Inl e)
            then show ?thesis using run Inr Down False q' child d(1) by (auto simp: result_typed_def)
          next
            case w: (Inr w)
            obtain b w' hs rest where w': "w = (b, w', hs, rest)" by (cases w)
            have ch: "hs = hdr v' # anc" "typed g (Suc (length anc)) w'" "var_id w' = var_id (place_var v' p)"
              using child w w' by (auto simp: result_typed_def)
            obtain v2 where lv: "leave p v' w' (hdr v' # anc) = (v2, anc)" "typed g (length anc) v2" "hdr v2 = hdr v'"
              using leave_typed[OF d(2,4) ch(2,3)] by blast
            have g2: "in_gen g v2 anc" using lv(2) Suc.prems(1) by (simp add: in_gen_def)
            show ?thesis
            proof (cases "b \<and> rest \<noteq> []")
              case True
              then obtain x rest' where rest: "rest = x # rest'" by (cases rest) auto
              have "parse_loop ih n depth L' v2 anc rest' = Some r"
                using run Inr Down False q' w w' ch(1) lv(1) d(1) True rest by (simp del: leave.simps)
              then have "result_typed g v2 anc r" by (rule Suc.IH[OF g2])
              then show ?thesis by (rule result_typed_id) (simp add: lv(3) d(3))
            next
              case stop: False
              show ?thesis
              proof (cases b)
                case True
                then have "rest = []" using stop by simp
                then show ?thesis using run Inr Down False q' w w' ch(1) lv(1) d(1) True by (auto simp: result_typed_def simp del: leave.simps)
              next
                case nb: False
                then show ?thesis using run Inr Down False q' w w' ch(1) lv d(1,3) by (auto simp: result_typed_def simp del: leave.simps)
              qed
            qed
          qed
        qed
      qed
    qed
  qed
qed simp

text \<open>
  C35: Whatever text the parser is given, and whatever tree of one generation it reads it into,
  it either accepts or rejects the text and leaves a tree with right root pointers, counts,
  caches and names behind, still of that one generation, or it reads past the end of the text;
  no other memory fault is possible.
\<close>

theorem parse_keeps_types:
  assumes "typed g 0 v" "var_parse_json ih v cs = Some r"
  shows "r = Fault OutOfBounds \<or> (\<exists>b v' rest. r = Ok (b, v', [], rest) \<and> typed g 0 v')"
proof -
  have "in_gen g v []" using assms(1) by (simp add: in_gen_def)
  moreover have "parse_loop ih (parse_fuel cs) 0 (locals0 PSTATE_BEGINNING) v [] cs = Some r"
    using assms(2) by (simp add: var_parse_json_def var_parse_json_level_def default_max_json_depth_def)
  ultimately have "result_typed g v [] r" by (rule parse_loop_typed)
  then show ?thesis by (cases r) (auto simp: result_typed_def)
qed

lemma var_alloc_typed: "typed 0 0 var_alloc"
  by (simp add: var_alloc_def hdr0_def hdr_ok_def root_at_def)

lemma parse_keeps_types_witness:
  "\<exists>v'. (\<exists>rest. var_parse_json 0 var_alloc ''a x }'' = Some (Ok (True, v', [], rest))) \<and> kids_of v' \<noteq> [] \<and> typed 0 0 v'"
proof -
  have "case var_parse_json 0 var_alloc ''a x }'' of Some (Inr (b, v', hs, rest)) \<Rightarrow> b \<and> kids_of v' \<noteq> [] | _ \<Rightarrow> False"
    by code_simp
  then obtain v' hs rest where p: "var_parse_json 0 var_alloc ''a x }'' = Some (Ok (True, v', hs, rest))" and k: "kids_of v' \<noteq> []"
    by (auto split: option.splits sum.splits prod.splits)
  show ?thesis using parse_keeps_types[OF var_alloc_typed p] p k by auto
qed

end
