(* ===== verification/VarLaws.thy ===== *)
theory VarLaws
  imports VarProps
begin

text \<open>
  Properties of the variable tree: searches that agree with their plain definitions, setting by
  key as an update of a JSON value, pointers kept in the lookup cache, what sorting keeps, and
  what a change of generation sweeps away.
\<close>

subsection \<open>Searching\<close>

text \<open>
  C34: The search by hash code, which compares names only where the codes agree and fills in
  missing codes, finds exactly what a plain walk over the names would find, and leaves the JSON
  value of the dictionary alone.
\<close>

theorem hashed_search_is_plain_search:
  assumes "var_ok ih d v" "is_dict v"
  shows "snd (var_find_key ih v k) = find_index (\<lambda>c. var_id c = k) (kids_of v) \<and>
    var_ok ih d (fst (var_find_key ih v k)) \<and> json_of (fst (var_find_key ih v k)) = json_of v"
proof -
  obtain v' r where f: "var_find_key ih v k = (v', r)" by fastforce
  show ?thesis using find_key_dict[OF assms f] f by simp
qed

definition two_keys :: "u32 \<Rightarrow> var" where
  "two_keys ih = Var hdr0 (VDict (VLink [Var (hdr0\<lparr>v_id := ''a'', v_root := RootUp 1\<rparr>) (VInt 1),
     Var (hdr0\<lparr>v_id := ''b'', v_root := RootUp 1, v_hash := hash_token ih ''b''\<rparr>) (VInt 2)] 2 (-1) None))"

lemma two_keys_ok: "var_ok ih 0 (two_keys ih)" "is_dict (two_keys ih)"
  by (simp_all add: two_keys_def is_dict_def hdr0_def root_at_def link_ok_def key_ok_def cstr_def hash_ok_def)

lemma hashed_search_is_plain_search_witness:
  "snd (var_find_key 7 (two_keys 7) ''b'') = Some 1"
proof -
  have "find_index (\<lambda>c. var_id c = ''b'') (kids_of (two_keys 7)) = Some 1" by (simp add: two_keys_def kids_of_def hdr0_def)
  then show ?thesis using hashed_search_is_plain_search[OF two_keys_ok, of 7 "''b''"] by simp
qed

subsection \<open>Lookup by position\<close>

lemma links_vv: "links (vv v) = Some l \<Longrightarrow> vv v = VDict l \<or> vv v = VArray l"
  by (cases "vv v") auto

lemma links_ok:
  assumes "var_ok ih d v" "links (vv v) = Some l"
  shows "kids_of v = kids l" "link_ok (kcount l) (cachepos l) (cachenode l) (length (kids l))"
proof -
  obtain h ks ct cp cn where v: "v = Var h (VDict (VLink ks ct cp cn)) \<or> v = Var h (VArray (VLink ks ct cp cn))" "l = VLink ks ct cp cn"
    using links_vv[OF assms(2)] by (cases v; cases l) auto
  then show "kids_of v = kids l" "link_ok (kcount l) (cachepos l) (cachenode l) (length (kids l))"
    using assms by (auto simp: kids_of_def)
qed

lemma recache_ok:
  assumes "var_ok ih d v" "links (vv v) = Some l" "k < length (kids l)"
  shows "var_ok ih d (Var (hdr v) (relink (vv v) (VLink (kids l) (kcount l) (int k) (Some k))))"
    "json_of (Var (hdr v) (relink (vv v) (VLink (kids l) (kcount l) (int k) (Some k)))) = json_of v"
proof -
  obtain h ks ct cp cn where v: "v = Var h (VDict (VLink ks ct cp cn)) \<or> v = Var h (VArray (VLink ks ct cp cn))" "l = VLink ks ct cp cn"
    using links_vv[OF assms(2)] by (cases v; cases l) auto
  then show "var_ok ih d (Var (hdr v) (relink (vv v) (VLink (kids l) (kcount l) (int k) (Some k))))"
    "json_of (Var (hdr v) (relink (vv v) (VLink (kids l) (kcount l) (int k) (Some k)))) = json_of v"
    using assms by (auto simp: link_ok_def)
qed

lemma cached_right:
  assumes "link_ok (kcount l) (cachepos l) (cachenode l) (length (kids l))" "i < length (kids l)"
  shows "cached l (int i) = Ok None \<or> cached l (int i) = Ok (Some i)"
  using assms unfolding link_ok_def cached_def by (cases "cachepos l = - 1") auto

lemma find_index_hit:
  assumes "var_ok ih d v" "links (vv v) = Some l" "length (kids l) < 2 ^ 32" "i < length (kids l)"
  shows "\<exists>v'. var_find_index v (int i) = Ok (v', Some i) \<and> var_ok ih d v' \<and> json_of v' = json_of v \<and> hdr v' = hdr v \<and>
    (\<exists>l'. vv v' = relink (vv v) l' \<and> kids l' = kids l \<and> kcount l' = kcount l \<and> cachepos l' = int i \<and> cachenode l' = Some i)"
proof -
  note l = links_ok[OF assms(1,2)]
  have ct: "unat (kcount l) = length (kids l)" using l(2) assms(3) by (simp add: link_ok_def unat_of_nat)
  show ?thesis
  proof (cases "cachepos l = int i")
    case True
    then have "cachenode l = Some i" using l(2) by (auto simp: link_ok_def)
    moreover have "relink (vv v) l = vv v" using links_vv[OF assms(2)] by auto
    ultimately show ?thesis using True assms ct by (auto simp: var_find_index_def intro!: exI[of _ l])
  next
    case False
    have "var_find_index v (int i) = Ok (Var (hdr v) (relink (vv v) (VLink (kids l) (kcount l) (int i) (Some i))), Some i)"
      using cached_right[OF l(2) assms(4)] False assms ct by (auto simp: var_find_index_def)
    then show ?thesis using recache_ok[OF assms(1,2,4)] by auto
  qed
qed

text \<open>
  The lookup by position, which keeps the last hit and steps from it to a neighbour, returns
  the child at that position, or none behind the last one, whatever was looked up before; a
  negative index, which the documentation counts from the end, never finds anything.
\<close>

theorem cached_lookup_is_nth:
  assumes "var_ok ih d v" "is_array v \<or> is_dict v" "length (kids_of v) < 2 ^ 32"
  shows "\<exists>v'. var_find_index v i = Ok (v', if 0 \<le> i \<and> i < int (length (kids_of v)) then Some (nat i) else None) \<and>
    var_ok ih d v' \<and> json_of v' = json_of v"
proof -
  obtain l where l: "links (vv v) = Some l" using assms(2) by (cases "vv v") (auto simp: is_array_def is_dict_def)
  note lk = links_ok[OF assms(1) l]
  have ct: "unat (kcount l) = length (kids l)" using lk assms(3) by (simp add: link_ok_def unat_of_nat)
  show ?thesis
  proof (cases "0 \<le> i \<and> i < int (length (kids l))")
    case True
    have n: "nat i < length (kids l)" "int (nat i) = i" using True by linarith+
    have "length (kids l) < 2 ^ 32" using assms(3) lk(1) by simp
    then obtain v' where "var_find_index v i = Ok (v', Some (nat i))" "var_ok ih d v'" "json_of v' = json_of v"
      using find_index_hit[OF assms(1) l _ n(1)] unfolding n(2) by blast
    then show ?thesis using True lk(1) by auto
  next
    case False
    then have "var_find_index v i = Ok (v, None)" using l ct by (auto simp: var_find_index_def)
    then show ?thesis using False assms(1) lk(1) by auto
  qed
qed

lemma cached_lookup_is_nth_witness:
  "\<exists>v'. var_find_index (two_keys 7) (- 1) = Ok (v', None) \<and> var_ok 7 0 v' \<and> json_of v' = json_of (two_keys 7)"
proof -
  have "length (kids_of (two_keys 7)) < 2 ^ 32" by (simp add: two_keys_def kids_of_def)
  then show ?thesis using cached_lookup_is_nth[OF two_keys_ok(1) disjI2[OF two_keys_ok(2)], of 7 "- 1"] by simp
qed

text \<open>
  Deleting a member by name leaves the lookup cache pointing to it: if the member was the
  last one looked up by position and is not the last of the dictionary, looking up the same
  position again returns the freed node.
\<close>

theorem delete_leaves_cached_pointer:
  assumes "var_ok ih d v" "is_dict v" "length (kids_of v) < 2 ^ 32" "Suc i < length (kids_of v)"
  shows "\<exists>v'. var_find_index v (int i) = Ok (v', Some i) \<and>
    var_find_index (var_delete_key ih v' (var_id (kids_of v ! i))) (int i) = Fault UseAfterFree"
proof -
  obtain l where l: "vv v = VDict l" using assms(2) by (cases "vv v") (auto simp: is_dict_def)
  note lk = links_ok[OF assms(1), of l]
  have kl: "kids_of v = kids l" using lk(1) l by simp
  obtain v' l' where f: "var_find_index v (int i) = Ok (v', Some i)" "var_ok ih d v'" "vv v' = VDict l'" "kids l' = kids l" "kcount l' = kcount l"
      "cachepos l' = int i" "cachenode l' = Some i"
    using find_index_hit[OF assms(1), of l i] l assms(3,4) kl by auto
  have d': "is_dict v'" using f(3) by (simp add: is_dict_def)
  obtain v2 r where k: "var_find_key ih v' (var_id (kids_of v ! i)) = (v2, r)" by fastforce
  note fk = find_key_dict[OF f(2) d' k]
  have kv': "kids_of v' = kids l" using f(3,4) by (simp add: kids_of_def)
  have dist: "distinct (map var_id (kids l))" using var_ok_dict[OF assms(1,2)] l by (auto simp: kids_of_def)
  have "find_index (\<lambda>c. var_id c = var_id (kids l ! i)) (kids l) = Some i"
    unfolding find_index_Some
  proof (intro conjI allI impI)
    show "i < length (kids l)" using assms(4) kl by simp
    fix j assume "j < i"
    then show "var_id (kids l ! j) \<noteq> var_id (kids l ! i)" using nth_eq_iff_index_eq[OF dist, of j i] assms(4) kl by simp
  qed simp
  then have r: "r = Some i" using fk(1) kv' kl by simp
  obtain l2 where l2: "vv v2 = VDict l2" "kcount l2 = kcount l" "cachepos l2 = int i" "cachenode l2 = Some i"
    using k f(3,5-7) by (auto simp: var_find_key_def set_kids_def Let_def split_beta)
  have "int (unat (kcount l - 1)) > int i"
  proof -
    have "unat (kcount l) = length (kids l)" using lk(2) l assms(3) kl by (simp add: link_ok_def unat_of_nat)
    then show ?thesis using assms(4) kl by (simp add: unat_sub word_le_nat_alt)
  qed
  then have "var_find_index (var_delete_key ih v' (var_id (kids_of v ! i))) (int i) = Fault UseAfterFree"
    using d' k r l2 by (simp add: var_delete_key_def var_find_index_def shift_cache_def)
  then show ?thesis using f(1) by blast
qed

lemma delete_leaves_cached_pointer_witness:
  "\<exists>v'. var_find_index (two_keys 7) 0 = Ok (v', Some 0) \<and> var_find_index (var_delete_key 7 v' ''a'') 0 = Fault UseAfterFree"
proof -
  have "length (kids_of (two_keys 7)) = 2" "var_id (kids_of (two_keys 7) ! 0) = ''a''" by (simp_all add: two_keys_def kids_of_def hdr0_def)
  then show ?thesis using delete_leaves_cached_pointer[OF two_keys_ok, of 7 0] by simp
qed

subsection \<open>Setting by name\<close>

lemma set_root:
  assumes "sets ih 0 f op" "var_ok ih 0 v"
  shows "\<exists>v'. op v [] = Ok (v', []) \<and> var_ok ih 0 v' \<and> json_of v' = f (json_of v)"
  using assms unfolding sets_def by fastforce

text \<open>
  Setting a member by name implements the update of a JSON value: an unset node becomes a
  dictionary, a missing member is added at the end, an existing number is replaced, a member of
  another kind and a node that is not a dictionary stay as they are; the tree stays well formed.
\<close>

theorem set_member_refines:
  assumes "var_ok ih 0 v" "key_ok k"
  shows "\<exists>v'. var_set_int_forkey ih v [] k i = Ok (v', []) \<and> var_ok ih 0 v' \<and>
    json_of v' = put_key k (overwrite (JInt i)) (json_of v)"
  unfolding var_set_int_forkey_def by (rule set_root[OF set_forkey_sets[OF assms(2) var_set_int_sets] assms(1)])

lemma set_member_refines_witness:
  "\<exists>v'. var_set_int_forkey 7 (two_keys 7) [] ''b'' 5 = Ok (v', []) \<and> var_ok 7 0 v' \<and> json_of v' = JDict [(''a'', JInt 1), (''b'', JInt 5)]"
proof -
  have "key_ok ''b''" by (simp add: key_ok_def cstr_def)
  moreover have "put_key ''b'' (overwrite (JInt 5)) (json_of (two_keys 7)) = JDict [(''a'', JInt 1), (''b'', JInt 5)]"
    by (simp add: two_keys_def hdr0_def put_key_def overwrite_def)
  ultimately show ?thesis using set_member_refines[OF two_keys_ok(1), of "''b''" 7 5] by simp
qed

subsection \<open>Sorting\<close>

text \<open>The new minima and the new maxima of a sequence, given the extremes so far.\<close>

fun extremes :: "('a \<Rightarrow> 'b::linorder) \<Rightarrow> 'b \<Rightarrow> 'b \<Rightarrow> 'a list \<Rightarrow> 'a list \<times> 'a list" where
  "extremes f lo hi [] = ([], [])"
| "extremes f lo hi (x # xs) =
     (if f x < lo then (case extremes f (f x) hi xs of (a, b) \<Rightarrow> (x # a, b))
      else if hi \<le> f x then (case extremes f lo (f x) xs of (a, b) \<Rightarrow> (a, x # b))
      else extremes f lo hi xs)"

lemma first_greater_index:
  "\<forall>i\<in>set acc. cmp i x = Ok (c_cmp (f i) (f x)) \<Longrightarrow> first_greater cmp x acc = Ok (find_index (\<lambda>i. f i > f x) acc)"
  by (induction acc) (auto simp: c_cmp_def)

lemma sort_loop_extremes:
  assumes "\<forall>a\<in>set xs \<union> set acc. \<forall>b\<in>set xs \<union> set acc. cmp a b = Ok (c_cmp (f a) (f b))" "acc \<noteq> []" "sorted (map f acc)"
    "extremes f (f (hd acc)) (f (last acc)) xs = (a, b)"
  shows "sort_loop cmp xs acc = Ok (rev a @ acc @ b)"
  using assms
proof (induction xs arbitrary: acc a b)
  case (Cons x xs)
  have ins: "first_greater cmp x acc = Ok (find_index (\<lambda>i. f i > f x) acc)" using Cons.prems(1) by (intro first_greater_index) auto
  obtain y ys where acc: "acc = y # ys" using Cons.prems(2) by (cases acc) auto
  have low: "\<forall>i\<in>set acc. f y \<le> f i" using Cons.prems(3) by (auto simp: acc)
  have split: "acc = butlast acc @ [last acc]" using Cons.prems(2) by simp
  have "sorted (map f (butlast acc) @ [f (last acc)])" using Cons.prems(3) by (subst (asm) split) simp
  then have "\<forall>i\<in>set (butlast acc). f i \<le> f (last acc)" by (simp add: sorted_append)
  then have "\<forall>i\<in>set (butlast acc @ [last acc]). f i \<le> f (last acc)" by simp
  then have "\<forall>i\<in>set acc. f i \<le> f (last acc)" unfolding split[symmetric] .
  with low have le: "\<forall>i\<in>set acc. f y \<le> f i \<and> f i \<le> f (last acc)" by blast
  show ?case
  proof (cases "f x < f y")
    case True
    then obtain a' where a: "extremes f (f x) (f (last acc)) xs = (a', b)" "a = x # a'" using Cons.prems(4) by (auto simp: acc split: prod.splits)
    have "sort_insert cmp x acc = Ok (x # acc)" using ins True by (simp add: sort_insert_def acc)
    moreover have "sort_loop cmp xs (x # acc) = Ok (rev a' @ (x # acc) @ b)"
      using Cons.IH[of "x # acc" a' b] Cons.prems(1-3) a(1) True le by (force simp: acc)
    ultimately show ?thesis by (simp add: a(2))
  next
    case False
    show ?thesis
    proof (cases "f (last acc) \<le> f x")
      case True
      then obtain b' where b: "extremes f (f y) (f x) xs = (a, b')" "b = x # b'" using Cons.prems(4) False by (auto simp: acc split: prod.splits)
      have "find_index (\<lambda>i. f i > f x) acc = None" using True le by (auto simp: find_index_None not_less intro: order_trans)
      then have "sort_insert cmp x acc = Ok (acc @ [x])" using ins by (simp add: sort_insert_def)
      moreover have "sort_loop cmp xs (acc @ [x]) = Ok (rev a @ (acc @ [x]) @ b')"
        using Cons.IH[of "acc @ [x]" a b'] Cons.prems(1-3) b(1) True le by (force simp: acc sorted_append)
      ultimately show ?thesis by (simp add: b(2))
    next
      case mid: False
      have "\<exists>k. find_index (\<lambda>i. f i > f x) acc = Some (Suc k)"
      proof -
        have "find_index (\<lambda>i. f i > f x) acc \<noteq> None" using mid Cons.prems(2) by (auto simp: find_index_None not_le intro: last_in_set)
        then obtain k where k: "find_index (\<lambda>i. f i > f x) acc = Some k" by auto
        then have "k \<noteq> 0" using False by (auto simp: acc split: if_splits)
        then show ?thesis using k by (cases k) auto
      qed
      then have "sort_insert cmp x acc = Ok acc" using ins by (auto simp: sort_insert_def)
      moreover have "extremes f (f (hd acc)) (f (last acc)) xs = (a, b)" using Cons.prems(4) False mid by (simp add: acc)
      ultimately show ?thesis using Cons.IH[of acc a b] Cons.prems(1-3) by simp
    qed
  qed
qed simp

text \<open>
  The sorted copy of an array keeps its first element and, of the others, only those smaller
  than everything before them or at least as big as everything before them, in order; every
  other element is lost, and the copy says that it has no elements.
\<close>

theorem sort_keeps_extremes_only:
  assumes "links (vv v) = Some (VLink (x # xs) ct cp cn)" "\<forall>a\<in>set (x # xs). \<forall>b\<in>set (x # xs). cmp a b = Ok (c_cmp (f a) (f b))"
    "extremes f (f x) (f x) xs = (a, b)"
  shows "\<exists>v'. sorted_node cmp v = Ok v' \<and> kids_of v' = map reroot (rev a @ x # b) \<and> map_option kcount (links (vv v')) = Some 0"
proof -
  have "sort_loop cmp (x # xs) [] = Ok (rev a @ x # b)"
    using sort_loop_extremes[of xs "[x]" cmp f a b] assms(2,3) by (simp add: sort_insert_def)
  then show ?thesis using assms(1) links_vv[OF assms(1)] by (auto simp: sorted_node_def kids_of_def)
qed

definition int_array :: "u64 list \<Rightarrow> var" where
  "int_array is = Var hdr0 (VArray (VLink (map (\<lambda>i. Var hdr0 (VInt i)) is) (of_nat (length is)) (-1) None))"

fun int_key :: "var \<Rightarrow> int" where
  "int_key (Var h (VInt i)) = to_int32 i"
| "int_key _ = 0"

lemma sort_keeps_extremes_only_witness:
  "\<exists>v'. sorted_node (var_sortfunc (\<lambda>_. 0) 0 SORT_VALUE False []) (int_array [1, 3, 2]) = Ok v' \<and> length (kids_of v') = 2"
proof -
  let ?k = "\<lambda>i. Var hdr0 (VInt i)" and ?cmp = "var_sortfunc (\<lambda>_. 0) 0 SORT_VALUE False []"
  have l: "links (vv (int_array [1, 3, 2])) = Some (VLink (?k 1 # [?k 3, ?k 2]) 3 (-1) None)" by (simp add: int_array_def)
  have e: "extremes int_key (int_key (?k 1)) (int_key (?k 1)) [?k 3, ?k 2] = ([], [?k 3])" by (simp add: to_int32_def)
  have c: "\<forall>a\<in>set (?k 1 # [?k 3, ?k 2]). \<forall>b\<in>set (?k 1 # [?k 3, ?k 2]). ?cmp a b = Ok (c_cmp (int_key a) (int_key b))"
    by (simp add: var_sortfunc_def var_comp_values_def var_get_int_def)
  show ?thesis using sort_keeps_extremes_only[OF l c e] by auto
qed

end
