(* ===== verification/VarText.thy ===== *)
theory VarText
  imports VarParse
begin

text \<open>
  The parser ends on every text, and it reads back what the writer wrote.
\<close>

subsection \<open>Termination\<close>

definition waiting :: "parse_state \<Rightarrow> bool" where
  "waiting st \<longleftrightarrow> st \<in> {PSTATE_BEGINNING, PSTATE_DICT_WAITKEY, PSTATE_DICT_WAITVALUE, PSTATE_ARRAY_WAITVALUE}"

definition potential :: "locals \<Rightarrow> string \<Rightarrow> nat" where
  "potential L cs = 2 * length cs + (if waiting (p_st L) then 1 else 0)"

fun progress :: "locals \<Rightarrow> string \<Rightarrow> pnext \<Rightarrow> bool" where
  "progress L cs (Go L' v anc cs') \<longleftrightarrow> potential L' cs' < potential L cs \<and> length cs' \<le> length cs"
| "progress L cs (Down p st L' v anc cs') \<longleftrightarrow> Suc (length cs') = length cs"
| "progress L cs (Return b v anc cs') \<longleftrightarrow> length cs' \<le> length cs"

lemma advance_progress:
  "advance L' v anc cur = Ok r \<Longrightarrow> length cur \<le> length cs \<Longrightarrow> p_st L' = p_st L \<Longrightarrow> progress L cs r"
  by (cases cur) (auto simp: advance_def potential_def)

lemma enter_dict_progress: "enter_dict ih L v anc cs = Ok r \<Longrightarrow> progress L0 (c # cs) r"
  unfolding enter_dict_def by (cases "var_get_dict_forkey ih v anc (p_key L)") (auto split: option.splits)

lemma enter_array_progress:
  assumes "enter_array ih L v anc cs = Ok r"
  shows "progress L0 (c # cs) r"
proof -
  obtain v1 q where q: "var_get_array_forkey ih v anc (p_key L) = Ok (v1, q)"
    using assms unfolding enter_array_def by (cases "var_get_array_forkey ih v anc (p_key L)") auto
  show ?thesis
  proof (cases q)
    case None
    then show ?thesis using assms q by (auto simp: enter_array_def)
  next
    case (Some p)
    obtain y where "at_place p var_clear_array v1 anc = Ok y"
        "(case y of (v, anc) \<Rightarrow> Ok (Down p PSTATE_ARRAY_WAITVALUE (L\<lparr>p_st := PSTATE_DICT_WAITKEY\<rparr>) v anc cs)) = Ok r"
      using assms q Some unfolding enter_array_def by (auto elim!: rbind_OkE)
    then show ?thesis by (auto split: prod.splits)
  qed
qed

lemma enter_added_progress:
  assumes "enter_added st L v anc cs added = Ok r"
  shows "progress L0 (c # cs) r"
proof -
  obtain v1 q where q: "added = Ok (v1, q)" using assms unfolding enter_added_def by (cases added) auto
  show ?thesis
  proof (cases q)
    case None
    then show ?thesis using assms q by (auto simp: enter_added_def)
  next
    case (Some i)
    obtain y where "(if st = PSTATE_ARRAY_WAITVALUE then at_place (Kid i) var_clear_array v1 anc else Ok (v1, anc)) = Ok y"
        "(case y of (v, anc) \<Rightarrow> Ok (Down (Kid i) st (L\<lparr>p_st := PSTATE_ARRAY_WAITVALUE\<rparr>) v anc cs)) = Ok r"
      using assms q Some unfolding enter_added_def by (auto elim!: rbind_OkE)
    then show ?thesis by (auto split: prod.splits)
  qed
qed

lemma quoted_progress: "quoted_char L v anc c cs = Ok r \<Longrightarrow> progress L (c # cs) r"
  unfolding quoted_char_def unescape_def Let_def
  by (auto split: if_splits simp: potential_def dest!: advance_progress[where cs = "c # cs" and L = L])

lemma pstep_progress: "pstep ih L v anc c cs = Ok r \<Longrightarrow> progress L (c # cs) r"
proof (cases "p_st L")
  case PSTATE_DICT_KEY_QUOTED
  assume "pstep ih L v anc c cs = Ok r"
  then show ?thesis using PSTATE_DICT_KEY_QUOTED
    by (auto simp: pstep_def step_key_quoted_def Let_def potential_def waiting_def split: if_splits
        dest!: advance_progress[where cs = "c # cs" and L = L])
next
  case PSTATE_DICT_VALUE_QUOTED
  assume "pstep ih L v anc c cs = Ok r"
  then show ?thesis using PSTATE_DICT_VALUE_QUOTED quoted_progress[of L v anc c cs r]
    by (auto simp: pstep_def step_value_quoted_def potential_def waiting_def rbind_Ok_iff split: if_splits)
next
  case PSTATE_ARRAY_VALUE_QUOTED
  assume "pstep ih L v anc c cs = Ok r"
  then show ?thesis using PSTATE_ARRAY_VALUE_QUOTED quoted_progress[of L v anc c cs r]
    by (auto simp: pstep_def step_array_value_quoted_def potential_def waiting_def rbind_Ok_iff split: if_splits)
next
  case PSTATE_DICT_KEY
  assume "pstep ih L v anc c cs = Ok r"
  then show ?thesis using PSTATE_DICT_KEY enter_dict_progress[of ih L v anc cs r L c] enter_array_progress[of ih L v anc cs r L c]
    by (auto simp: pstep_def step_key_def potential_def waiting_def comment_def split: if_splits)
next
  case PSTATE_DICT_WAITVALUE
  assume "pstep ih L v anc c cs = Ok r"
  then show ?thesis using PSTATE_DICT_WAITVALUE enter_dict_progress[of ih L v anc cs r L c] enter_array_progress[of ih L v anc cs r L c]
    by (auto simp: pstep_def step_waitvalue_def potential_def waiting_def comment_def fresh_value_def split: if_splits)
next
  case PSTATE_ARRAY_WAITVALUE
  assume "pstep ih L v anc c cs = Ok r"
  then show ?thesis using PSTATE_ARRAY_WAITVALUE enter_added_progress[of _ L v anc cs _ r L c]
    by (auto simp: pstep_def step_array_waitvalue_def potential_def waiting_def comment_def fresh_value_def split: if_splits)
next
  case PSTATE_DICT_VALUE
  assume "pstep ih L v anc c cs = Ok r"
  then show ?thesis using PSTATE_DICT_VALUE
    by (auto simp: pstep_def step_value_def potential_def waiting_def comment_def collect_def rbind_Ok_iff split: if_splits)
next
  case PSTATE_ARRAY_VALUE
  assume "pstep ih L v anc c cs = Ok r"
  then show ?thesis using PSTATE_ARRAY_VALUE
    by (auto simp: pstep_def step_array_value_def potential_def waiting_def comment_def collect_def rbind_Ok_iff split: if_splits)
qed (auto simp: pstep_def step_waitkey_def step_comment_def potential_def waiting_def comment_def fresh_value_def split: if_splits)

lemma parse_loop_total:
  "potential L cs < n \<Longrightarrow> \<exists>r. parse_loop ih n depth L v anc cs = Some r \<and>
     (\<forall>b w hs cs'. r = Ok (b, w, hs, cs') \<longrightarrow> length cs' \<le> length cs)"
proof (induction n arbitrary: depth L v anc cs)
  case (Suc n)
  show ?case
  proof (cases cs)
    case (Cons c cs0)
    show ?thesis
    proof (cases "pstep ih L v anc c cs0")
      case (Inl e)
      then show ?thesis using Cons by simp
    next
      case (Inr r)
      note pr = pstep_progress[OF Inr]
      show ?thesis
      proof (cases r)
        case (Go L' v' anc' cs')
        then have "potential L' cs' < n" "length cs' \<le> length cs" using pr Suc.prems Cons by auto
        then show ?thesis using Suc.IH[of L' cs' depth v' anc'] Inr Go Cons by fastforce
      next
        case (Return b v' anc' cs')
        then show ?thesis using pr Inr Cons by simp
      next
        case (Down p st L' v' anc' cs')
        have len: "length cs' = length cs0" using pr Down by simp
        have "potential (locals0 st) cs' < n" using Suc.prems Cons len by (simp add: potential_def split: if_splits)
        then obtain q where q: "parse_loop ih n (depth + 1) (locals0 st) (place_var v' p) (hdr v' # anc') cs' = Some q"
            "\<And>b w hs cs''. q = Ok (b, w, hs, cs'') \<Longrightarrow> length cs'' \<le> length cs'"
          using Suc.IH[of "locals0 st" cs' "depth + 1" "place_var v' p" "hdr v' # anc'"] by auto
        show ?thesis
        proof (cases q)
          case (Inl e)
          then show ?thesis using Inr Down Cons q(1) len by simp
        next
          case (Inr w)
          obtain b w' hs rest where w: "w = (b, w', hs, rest)" by (cases w)
          have rest: "length rest \<le> length cs0" using q(2)[of b w' hs rest] Inr w len by simp
          obtain v2 anc2 where lv: "leave p v' w' hs = (v2, anc2)" by fastforce
          show ?thesis
          proof (cases rest)
            case Nil
            then show ?thesis using \<open>pstep ih L v anc c cs0 = Inr r\<close> Inr Down Cons q(1) w lv rest len by simp
          next
            case (Cons x rest')
            have "potential L' rest' < n" using Suc.prems \<open>cs = c # cs0\<close> rest Cons by (simp add: potential_def split: if_splits)
            then obtain r' where r': "parse_loop ih n depth L' v2 anc2 rest' = Some r'"
                "\<forall>b w hs cs'. r' = Ok (b, w, hs, cs') \<longrightarrow> length cs' \<le> length rest'"
              using Suc.IH[of L' rest' depth v2 anc2] by auto
            then show ?thesis
              using \<open>pstep ih L v anc c cs0 = Inr r\<close> Inr Down Cons \<open>cs = c # cs0\<close> q(1) w lv rest len by fastforce
          qed
        qed
      qed
    qed
  qed simp
qed simp

lemma parse_loop_mono: "parse_loop ih n depth L v anc cs = Some r \<Longrightarrow> n \<le> m \<Longrightarrow> parse_loop ih m depth L v anc cs = Some r"
proof (induction n arbitrary: depth L v anc cs r m)
  case (Suc n)
  obtain k where m: "m = Suc k" "n \<le> k" using Suc.prems(2) by (cases m) auto
  show ?case
  proof (cases cs)
    case (Cons c cs0)
    note run = Suc.prems(1)[unfolded Cons parse_loop.simps]
    show ?thesis
    proof (cases "pstep ih L v anc c cs0")
      case (Inl e)
      then show ?thesis using run by (simp add: m Cons)
    next
      case (Inr q)
      show ?thesis
      proof (cases q)
        case (Go L' v' anc' cs')
        then show ?thesis using run Inr Suc.IH[of depth L' v' anc' cs' r k] m(2) by (simp add: m(1) Cons)
      next
        case (Return b v' anc' cs')
        then show ?thesis using run Inr by (simp add: m(1) Cons)
      next
        case (Down p st L' v' anc' cs')
        show ?thesis
        proof (cases "depth + 1 > default_max_json_depth")
          case True
          then show ?thesis using run Inr Down by (simp add: m(1) Cons)
        next
          case False
          obtain q' where q': "parse_loop ih n (depth + 1) (locals0 st) (place_var v' p) (hdr v' # anc') cs' = Some q'"
            using run Inr Down False by (cases "parse_loop ih n (depth + 1) (locals0 st) (place_var v' p) (hdr v' # anc') cs'") auto
          note kq = Suc.IH[OF q' m(2)]
          show ?thesis
          proof (cases q')
            case e: (Inl e)
            then have "r = Fault e" using run Inr Down False q' by simp
            then show ?thesis using Inr Down False kq e by (simp add: m(1) Cons)
          next
            case w: (Inr w)
            obtain b w' hs rest where w': "w = (b, w', hs, rest)" by (cases w)
            obtain v2 anc2 where lv: "leave p v' w' hs = (v2, anc2)" by fastforce
            show ?thesis
              using run Inr Down False q' kq w w' lv Suc.IH[OF _ m(2)]
              by (cases b; cases rest) (simp_all add: m(1) Cons del: leave.simps)
          qed
        qed
      qed
    qed
  qed (use Suc.prems(1) in \<open>simp add: m\<close>)
qed simp

subsection \<open>Running the parser\<close>

text \<open>
  \<open>leads ih depth s s'\<close>: with enough fuel the loop gets from \<open>s\<close> to \<open>s'\<close>, and has as much
  left as one likes.
\<close>

type_synonym pst = "locals \<times> var \<times> chain \<times> string"

fun ploop :: "u32 \<Rightarrow> nat \<Rightarrow> int \<Rightarrow> pst \<Rightarrow> parsed res option" where
  "ploop ih n depth (L, v, anc, cs) = parse_loop ih n depth L v anc cs"

definition leads :: "u32 \<Rightarrow> int \<Rightarrow> pst \<Rightarrow> pst \<Rightarrow> bool" where
  "leads ih depth s s' \<longleftrightarrow> (\<forall>N. \<exists>K. \<forall>n\<ge>K. \<exists>m\<ge>N. ploop ih n depth s = ploop ih m depth s')"

lemma leads_refl [simp]: "leads ih depth s s"
  unfolding leads_def by blast

lemma leads_trans [trans]: "leads ih depth s s' \<Longrightarrow> leads ih depth s' s'' \<Longrightarrow> leads ih depth s s''"
  unfolding leads_def by (metis)

lemma leads_go:
  assumes "pstep ih L v anc c cs = Ok (Go L' v' anc' cs')"
  shows "leads ih depth (L, v, anc, c # cs) (L', v', anc', cs')"
  unfolding leads_def
proof
  fix N
  have "ploop ih n depth (L, v, anc, c # cs) = ploop ih (n - 1) depth (L', v', anc', cs')" if "n \<ge> Suc N" for n
    using that assms by (cases n) auto
  then show "\<exists>K. \<forall>n\<ge>K. \<exists>m\<ge>N. ploop ih n depth (L, v, anc, c # cs) = ploop ih m depth (L', v', anc', cs')"
    by (intro exI[of _ "Suc N"]) (metis Suc_le_mono Suc_pred' diff_Suc_1 le_Suc_ex less_eq_Suc_le zero_less_Suc add_Suc)
qed

lemma leads_step: "pstep ih L v anc c cs = Ok (Go L' v' anc' cs') \<Longrightarrow> leads ih depth (L', v', anc', cs') s \<Longrightarrow> leads ih depth (L, v, anc, c # cs) s"
  using leads_go leads_trans by blast

lemma leads_down:
  assumes "pstep ih L v anc c cs = Ok (Down p st L' v1 anc1 cs1)" "depth + 1 \<le> default_max_json_depth"
    and "leads ih (depth + 1) (locals0 st, place_var v1 p, hdr v1 # anc1, cs1) (Lc, c', hs, x # rest)"
    and "pstep ih Lc c' hs x rest = Ok (Return True c' hs (x # rest))" "leave p v1 c' hs = (v2, anc2)"
  shows "leads ih depth (L, v, anc, c # cs) (L', v2, anc2, rest)"
  unfolding leads_def
proof
  fix N
  obtain K where K: "\<And>n. n \<ge> K \<Longrightarrow> \<exists>m\<ge>1. ploop ih n (depth + 1) (locals0 st, place_var v1 p, hdr v1 # anc1, cs1) =
      ploop ih m (depth + 1) (Lc, c', hs, x # rest)"
    using assms(3) unfolding leads_def by metis
  have child: "parse_loop ih n (depth + 1) (locals0 st) (place_var v1 p) (hdr v1 # anc1) cs1 = Some (Ok (True, c', hs, x # rest))" if "n \<ge> K" for n
  proof -
    note big = that
    obtain m where m: "m \<ge> 1" "ploop ih n (depth + 1) (locals0 st, place_var v1 p, hdr v1 # anc1, cs1) = ploop ih m (depth + 1) (Lc, c', hs, x # rest)"
      using K[OF big] by blast
    then show ?thesis using assms(4) by (cases m) auto
  qed
  have "ploop ih n depth (L, v, anc, c # cs) = ploop ih (n - 1) depth (L', v2, anc2, rest)" if "n \<ge> Suc (max K N)" for n
  proof -
    note big = that
    obtain m where m: "n = Suc m" "m \<ge> K" using big by (cases n) auto
    show ?thesis using assms(1,2,5) child[OF m(2)] by (simp add: m(1) del: leave.simps)
  qed
  moreover have "n - 1 \<ge> N" if "n \<ge> Suc (max K N)" for n using that by simp
  ultimately show "\<exists>K. \<forall>n\<ge>K. \<exists>m\<ge>N. ploop ih n depth (L, v, anc, c # cs) = ploop ih m depth (L', v2, anc2, rest)"
    by blast
qed

text \<open>What the loop returns does not depend on the fuel once there is enough.\<close>

lemma leads_result:
  assumes "leads ih depth (locals0 st, v, anc, cs) (L', v', anc', x # rest)" "pstep ih L' v' anc' x rest = Ok (Return b v' anc' rest')"
    "depth \<le> default_max_json_depth" "fuel > potential (locals0 st) cs"
  shows "var_parse_json_level ih fuel st depth v anc cs = Some (Ok (b, v', anc', rest'))"
proof -
  obtain r where r: "parse_loop ih fuel depth (locals0 st) v anc cs = Some r" using parse_loop_total[OF assms(4)] by blast
  obtain K where "\<forall>n\<ge>K. \<exists>m\<ge>1. ploop ih n depth (locals0 st, v, anc, cs) = ploop ih m depth (L', v', anc', x # rest)"
    using assms(1) unfolding leads_def by metis
  then obtain m where m: "m \<ge> 1" "parse_loop ih (max K fuel) depth (locals0 st) v anc cs = parse_loop ih m depth L' v' anc' (x # rest)"
    by (metis max.cobounded1 ploop.simps)
  have "parse_loop ih m depth L' v' anc' (x # rest) = Some (Ok (b, v', anc', rest'))" using m(1) assms(2) by (cases m) auto
  then have "r = Ok (b, v', anc', rest')" using parse_loop_mono[OF r, of "max K fuel"] m(2) by simp
  then show ?thesis using r assms(3) by (simp add: var_parse_json_level_def)
qed

subsection \<open>Every text\<close>

text \<open>
  C33: The parser returns on every text and for every node: twice the length of the text bounds
  the steps of the state machine over all levels.
\<close>

theorem parse_total: "\<exists>r. var_parse_json ih v cs = Some r"
proof -
  have "potential (locals0 PSTATE_BEGINNING) cs < parse_fuel cs" by (simp add: potential_def parse_fuel_def waiting_def locals0_def)
  then show ?thesis
    using parse_loop_total[of "locals0 PSTATE_BEGINNING" cs "parse_fuel cs" ih 0 v "[]"]
    by (auto simp: var_parse_json_def var_parse_json_level_def default_max_json_depth_def)
qed

end
