(* ===== verification/VarRound.thy ===== *)
theory VarRound
  imports VarText
begin

text \<open>
  What \<^verbatim>\<open>var_write\<close> writes, \<^verbatim>\<open>var_parse_json\<close> reads back: the pieces of the text one by one, a
  value in its place, the children of a node, and the whole text.
\<close>

subsection \<open>What can be written and read back\<close>

definition text_ok :: "string \<Rightarrow> bool" where
  "text_ok s \<longleftrightarrow> cstr s \<and> length (var_escape_str s) \<le> 4093"

definition name_ok :: "string \<Rightarrow> bool" where
  "name_ok k \<longleftrightarrow> key_ok k \<and> CHR 0x0A \<notin> set k"

text \<open>The number is the levels of nesting that are left.\<close>

fun writable :: "nat \<Rightarrow> json \<Rightarrow> bool" where
  "writable n (JInt i) = True"
| "writable n (JStr s) = text_ok s"
| "writable (Suc n) (JArr xs) = (\<forall>x\<in>set xs. writable n x)"
| "writable (Suc n) (JDict ms) = (distinct (map fst ms) \<and> (\<forall>m\<in>set ms. name_ok (fst m) \<and> writable n (snd m)))"
| "writable _ _ = False"

lemma writable_numeral [simp]:
  "writable (numeral w) (JArr xs) = (\<forall>x\<in>set xs. writable (pred_numeral w) x)"
  "writable (numeral w) (JDict ms) = (distinct (map fst ms) \<and> (\<forall>m\<in>set ms. name_ok (fst m) \<and> writable (pred_numeral w) (snd m)))"
  by (simp_all add: numeral_eq_Suc)

subsection \<open>The pieces\<close>

definition wait_st :: "bool \<Rightarrow> parse_state" where
  "wait_st b = (if b then PSTATE_DICT_WAITKEY else PSTATE_ARRAY_WAITVALUE)"

definition val_st :: "bool \<Rightarrow> parse_state" where
  "val_st b = (if b then PSTATE_DICT_WAITVALUE else PSTATE_ARRAY_WAITVALUE)"

lemma escape_length: "length s \<le> length (var_escape_str s) \<and> length (var_escape_str s) \<le> 2 * length s"
  by (induction s) auto

lemma skip_spaces:
  assumes "\<forall>c\<in>set ws. c_isspace c" "p_st L = wait_st b"
  shows "leads ih depth (L, v, anc, ws @ rest) (L, v, anc, rest)"
  using assms
proof (induction ws)
  case (Cons c ws)
  have "pstep ih L v anc c (ws @ rest) = Ok (Go L v anc (ws @ rest))"
    using Cons.prems by (auto simp: pstep_def wait_st_def step_waitkey_def step_array_waitvalue_def c_isspace_def)
  then show ?case using Cons by (simp add: leads_step)
qed simp

lemma c_isspace_SPC: "\<forall>c\<in>set (SPC n). c_isspace c"
  by (simp add: SPC_def c_isspace_def)

lemma read_key_chars:
  assumes "p_st L = PSTATE_DICT_KEY_QUOTED" "length (p_key L) + length k \<le> bufmax" "CHR 0x0A \<notin> set k"
  shows "leads ih depth (L, v, anc, var_escape_str k @ rest) (L\<lparr>p_key := p_key L @ k\<rparr>, v, anc, rest)"
  using assms
proof (induction k arbitrary: L)
  case (Cons c k)
  let ?L = "L\<lparr>p_key := p_key L @ [c]\<rparr>"
  have ih: "leads ih depth (?L, v, anc, var_escape_str k @ rest) (L\<lparr>p_key := p_key L @ c # k\<rparr>, v, anc, rest)"
    using Cons.IH[of ?L] Cons.prems by simp
  show ?case
  proof (cases "c = CHR 0x5C \<or> c = CHR 0x22")
    case True
    then have "pstep ih L v anc (CHR 0x5C) (c # var_escape_str k @ rest) = Ok (Go ?L v anc (var_escape_str k @ rest))"
      using Cons.prems by (simp add: pstep_def step_key_quoted_def advance_def)
    then show ?thesis using ih True by (auto intro: leads_step)
  next
    case False
    then have "pstep ih L v anc c (var_escape_str k @ rest) = Ok (Go ?L v anc (var_escape_str k @ rest))"
      using Cons.prems by (simp add: pstep_def step_key_quoted_def advance_def)
    then show ?thesis using ih False Cons.prems by (auto intro: leads_step)
  qed
qed simp

lemma read_key:
  assumes "p_st L = PSTATE_DICT_WAITKEY" "name_ok k"
  shows "\<exists>L'. leads ih depth (L, v, anc, write_key k @ rest) (L', v, anc, rest) \<and> p_st L' = PSTATE_DICT_WAITVALUE \<and> p_key L' = k"
proof -
  have k: "length k \<le> 127" "CHR 0x0A \<notin> set k" using assms(2) by (simp_all add: name_ok_def key_ok_def)
  have len: "length (var_escape_str k) \<le> 254" using escape_length[of k] k(1) by linarith
  have "write_key k = CHR 0x22 # var_escape_str k @ CHR 0x22 # '': ''"
    using len by (simp add: write_key_def printf_out_def quoted_def)
  then have w: "write_key k @ rest = CHR 0x22 # var_escape_str k @ CHR 0x22 # CHR '':'' # CHR '' '' # rest" by simp
  define L1 where "L1 = (fresh_value L)\<lparr>p_st := PSTATE_DICT_KEY_QUOTED, p_key := ''''\<rparr>"
  define L2 where "L2 = L1\<lparr>p_key := k, p_st := PSTATE_DICT_WAITVALUE\<rparr>"
  have a: "pstep ih L v anc (CHR 0x22) cs = Ok (Go L1 v anc cs)" for cs
    using assms(1) by (simp add: pstep_def step_waitkey_def c_isspace_def L1_def)
  have b: "leads ih depth (L1, v, anc, var_escape_str k @ cs) (L1\<lparr>p_key := k\<rparr>, v, anc, cs)" for cs
    using read_key_chars[of L1 k ih depth v anc cs] k by (simp add: L1_def bufmax_def)
  have c: "pstep ih (L1\<lparr>p_key := k\<rparr>) v anc (CHR 0x22) cs = Ok (Go L2 v anc cs)" for cs
    by (simp add: pstep_def step_key_quoted_def L1_def L2_def)
  have d: "pstep ih L2 v anc (CHR '':'') cs = Ok (Go L2 v anc cs)" "pstep ih L2 v anc (CHR '' '') cs = Ok (Go L2 v anc cs)" for cs
    by (simp_all add: pstep_def step_waitvalue_def L2_def c_isspace_def)
  have "leads ih depth (L, v, anc, write_key k @ rest) (L2, v, anc, rest)"
    unfolding w by (rule leads_step[OF a], rule leads_trans[OF b], rule leads_step[OF c], rule leads_step[OF d(1)], rule leads_step[OF d(2)]) simp
  then show ?thesis by (auto simp: L2_def)
qed

lemma read_string_chars:
  assumes "p_st L = (if b then PSTATE_DICT_VALUE_QUOTED else PSTATE_ARRAY_VALUE_QUOTED)" "length (p_val L) + length s \<le> bufmax"
  shows "leads ih depth (L, v, anc, var_escape_str s @ rest) (L\<lparr>p_val := p_val L @ s\<rparr>, v, anc, rest)"
  using assms
proof (induction s arbitrary: L)
  case (Cons c s)
  let ?L = "L\<lparr>p_val := p_val L @ [c]\<rparr>"
  have ih: "leads ih depth (?L, v, anc, var_escape_str s @ rest) (L\<lparr>p_val := p_val L @ c # s\<rparr>, v, anc, rest)"
    using Cons.IH[of ?L] Cons.prems by simp
  have q: "pstep ih L v anc x cs = quoted_char L v anc x cs" if "x \<noteq> CHR 0x22" for x cs
    using that Cons.prems(1) by (cases b) (simp_all add: pstep_def step_value_quoted_def step_array_value_quoted_def)
  have len: "length (p_val L) < bufmax" using Cons.prems by simp
  show ?case
  proof (cases "c = CHR 0x5C \<or> c = CHR 0x22 \<or> c = CHR 0x0A")
    case True
    define x where "x = (if c = CHR 0x0A then CHR ''n'' else c)"
    have u: "unescape L v anc (x # cs) = Ok (Go ?L v anc cs)" for cs
      using True by (auto simp: x_def unescape_def advance_def)
    have "pstep ih L v anc (CHR 0x5C) (x # var_escape_str s @ rest) = Ok (Go ?L v anc (var_escape_str s @ rest))"
      using len u by (simp add: q quoted_char_def)
    then have "leads ih depth (L, v, anc, CHR 0x5C # x # var_escape_str s @ rest) (L\<lparr>p_val := p_val L @ c # s\<rparr>, v, anc, rest)"
      using ih by (rule leads_step)
    moreover have "var_escape_str (c # s) = CHR 0x5C # x # var_escape_str s" using True by (auto simp: x_def)
    ultimately show ?thesis by simp
  next
    case False
    then have "pstep ih L v anc c (var_escape_str s @ rest) = Ok (Go ?L v anc (var_escape_str s @ rest))"
      using len by (simp add: q quoted_char_def)
    then show ?thesis using ih False by (auto intro: leads_step)
  qed
qed simp

lemma digits_unquoted: "list_all (\<lambda>n. char_of (n :: nat) \<in> set VALIDUNQUOTEDV \<and> char_of n \<in> set VALIDUNQUOTED) [48..<58]"
  by code_simp

lemma digit_unquoted: "c_isdigit c \<Longrightarrow> c \<in> set VALIDUNQUOTEDV \<and> c \<in> set VALIDUNQUOTED"
  using digits_unquoted[unfolded list_all_iff, rule_format, of "of_char c"] by (simp add: c_isdigit_def del: upt_rec_numeral)

lemma read_digits:
  assumes "p_st L = (if b then PSTATE_DICT_VALUE else PSTATE_ARRAY_VALUE)" "length (p_val L) + length ds \<le> bufmax" "\<forall>c\<in>set ds. c_isdigit c"
  shows "leads ih depth (L, v, anc, ds @ rest) (L\<lparr>p_val := p_val L @ ds\<rparr>, v, anc, rest)"
  using assms
proof (induction ds arbitrary: L)
  case (Cons c ds)
  let ?L = "L\<lparr>p_val := p_val L @ [c]\<rparr>"
  have ih: "leads ih depth (?L, v, anc, ds @ rest) (L\<lparr>p_val := p_val L @ c # ds\<rparr>, v, anc, rest)"
    using Cons.IH[of ?L] Cons.prems by simp
  have d: "c_isdigit c" "\<not> c_isspace c" "c \<noteq> CHR ''.''" "c \<notin> {CHR '','', CHR ''}'', CHR '']'', CHR ''#''}"
    using Cons.prems(3) digit_not_space[of c] by (auto simp: c_isdigit_def)
  have "collect L c = ?L" using d by (simp add: collect_def)
  then have "pstep ih L v anc c (ds @ rest) = Ok (Go ?L v anc (ds @ rest))"
    using Cons.prems(1,2) d digit_unquoted[OF d(1)] by (cases b) (auto simp: pstep_def step_value_def step_array_value_def)
  then show ?case using ih by (auto intro: leads_step)
qed simp

subsection \<open>A container while its children are read\<close>

definition ctx :: "bool \<Rightarrow> u32 \<Rightarrow> nat \<Rightarrow> var \<Rightarrow> chain \<Rightarrow> bool" where
  "ctx b ih d v anc \<longleftrightarrow> var_ok ih d v \<and> (if b then is_dict v else is_array v) \<and> length anc = d \<and> chain_ok anc"

definition with_child :: "bool \<Rightarrow> json \<Rightarrow> string \<Rightarrow> json \<Rightarrow> json" where
  "with_child b j k x = (if b then JDict (members j @ [(k, x)]) else JArr (elements j @ [x]))"

definition slot_ok :: "bool \<Rightarrow> json \<Rightarrow> string \<Rightarrow> bool" where
  "slot_ok b j k \<longleftrightarrow> (b \<longrightarrow> name_ok k \<and> k \<notin> fst ` set (members j))"

text \<open>The loop has gone on in the same container, and this is what it stands for now.\<close>

definition went_on :: "bool \<Rightarrow> u32 \<Rightarrow> int \<Rightarrow> pst \<Rightarrow> string \<Rightarrow> json \<Rightarrow> bool" where
  "went_on b ih depth s rest j \<longleftrightarrow> (case s of (L, v, anc, cs) \<Rightarrow>
     \<exists>L' v' anc'. leads ih depth s (L', v', anc', rest) \<and> p_st L' = wait_st b \<and> ctx b ih (length anc) v' anc' \<and>
       same_hdr (hdr v) (hdr v') \<and> same_chain anc anc' \<and> json_of v' = j)"

lemma json_dict_iff: "json_of v = JDict ms \<Longrightarrow> is_dict v"
  by (cases v rule: json_of.cases) (simp_all add: is_dict_def)

lemma json_array_iff: "json_of v = JArr ms \<Longrightarrow> is_array v"
  by (cases v rule: json_of.cases) (simp_all add: is_array_def)

lemma put_member_new: "k \<notin> fst ` set ms \<Longrightarrow> put_member k z f ms = ms @ [(k, f z)]"
  by (induction ms) auto

lemma put_key_new:
  "is_dict v \<Longrightarrow> k \<notin> fst ` set (members (json_of v)) \<Longrightarrow> put_key k f (json_of v) = with_child True (json_of v) k (f JNull)"
  using json_is_dict[of v] put_member_new[of k "members (json_of v)" JNull f] by (cases "json_of v") (simp_all add: put_key_def with_child_def)

lemma went_on_step:
  "pstep ih L v anc c cs = Ok (Go L' v anc cs') \<Longrightarrow> went_on b ih depth (L', v, anc, cs') rest j \<Longrightarrow> went_on b ih depth (L, v, anc, c # cs) rest j"
  unfolding went_on_def by (auto intro: leads_step)

lemma went_on_leads:
  "leads ih depth (L, v, anc, cs) (L', v, anc, cs') \<Longrightarrow> went_on b ih depth (L', v, anc, cs') rest j \<Longrightarrow> went_on b ih depth (L, v, anc, cs) rest j"
  unfolding went_on_def by (auto intro: leads_trans)

lemma went_onI:
  "leads ih depth (L, v, anc, cs) (L', v', anc', rest) \<Longrightarrow> p_st L' = wait_st b \<Longrightarrow> ctx b ih (length anc) v' anc' \<Longrightarrow>
   same_hdr (hdr v) (hdr v') \<Longrightarrow> same_chain anc anc' \<Longrightarrow> json_of v' = j \<Longrightarrow> went_on b ih depth (L, v, anc, cs) rest j"
  unfolding went_on_def by blast

lemma went_on_trans:
  assumes "went_on b ih depth (L, v, anc, cs) rest j"
    and "\<And>L' v' anc'. p_st L' = wait_st b \<Longrightarrow> ctx b ih (length anc) v' anc' \<Longrightarrow> same_hdr (hdr v) (hdr v') \<Longrightarrow> same_chain anc anc' \<Longrightarrow>
      json_of v' = j \<Longrightarrow> went_on b ih depth (L', v', anc', rest) rest' j'"
  shows "went_on b ih depth (L, v, anc, cs) rest' j'"
proof -
  obtain L' v' anc' where 1: "leads ih depth (L, v, anc, cs) (L', v', anc', rest)" "p_st L' = wait_st b" "ctx b ih (length anc) v' anc'"
      "same_hdr (hdr v) (hdr v')" "same_chain anc anc'" "json_of v' = j"
    using assms(1) unfolding went_on_def by auto
  then obtain L2 v2 anc2 where 2: "leads ih depth (L', v', anc', rest) (L2, v2, anc2, rest')" "p_st L2 = wait_st b" "ctx b ih (length anc') v2 anc2"
      "same_hdr (hdr v') (hdr v2)" "same_chain anc' anc2" "json_of v2 = j'"
    using assms(2)[OF 1(2-6)] unfolding went_on_def by auto
  have "length anc' = length anc" using 1(5) by (simp add: list_all2_lengthD)
  moreover have "leads ih depth (L, v, anc, cs) (L2, v2, anc2, rest')" using 1(1) 2(1) by (rule leads_trans)
  moreover have "same_hdr (hdr v) (hdr v2)" "same_chain anc anc2" using 1 2 same_hdr_trans same_chain_trans by blast+
  ultimately show ?thesis using 2 by (intro went_onI) auto
qed

text \<open>A value that has been stored in its slot, and the terminator behind it.\<close>

lemma went_on_stored:
  assumes "pstep ih L v anc c cs = Ok (Go L' v' anc' cs')" "p_st L' = wait_st b" "ctx b ih (length anc) v' anc'"
    "same_hdr (hdr v) (hdr v')" "same_chain anc anc'" "json_of v' = j"
  shows "went_on b ih depth (L, v, anc, c # cs) cs' j"
  using assms leads_go unfolding went_on_def by blast

definition sep :: "char \<Rightarrow> bool" where
  "sep t \<longleftrightarrow> t = CHR '','' \<or> t = CHR 0x0A"

lemma sep_skipped: "sep t \<Longrightarrow> p_st L = wait_st b \<Longrightarrow> pstep ih L v anc t cs = Ok (Go L v anc cs)"
  by (auto simp: sep_def pstep_def wait_st_def step_waitkey_def step_array_waitvalue_def c_isspace_def)

lemma stored_dict:
  assumes "ctx True ih d v anc" "slot_ok True (json_of v) k" "sets ih (Suc d) f op" "f JNull = x"
  shows "\<exists>v' anc'. set_forkey ih v anc k op = Ok (v', anc') \<and> ctx True ih d v' anc' \<and> same_hdr (hdr v) (hdr v') \<and> same_chain anc anc' \<and>
    json_of v' = with_child True (json_of v) k x"
proof -
  have c: "var_ok ih d v" "is_dict v" "length anc = d" "chain_ok anc" using assms(1) by (auto simp: ctx_def)
  have k: "key_ok k" "k \<notin> fst ` set (members (json_of v))" using assms(2) by (auto simp: slot_ok_def name_ok_def)
  obtain v' anc' where o: "set_forkey ih v anc k op = Ok (v', anc')" "var_ok ih d v'" "same_hdr (hdr v) (hdr v')" "same_chain anc anc'"
      "json_of v' = put_key k f (json_of v)"
    using set_forkey_sets[OF k(1) assms(3)] c unfolding sets_def by blast
  have j: "json_of v' = with_child True (json_of v) k x" using o(5) put_key_new[OF c(2) k(2)] assms(4) by simp
  then have "is_dict v'" by (simp add: with_child_def json_dict_iff)
  then show ?thesis using o j c same_chain_ok[OF o(4)] list_all2_lengthD[OF o(4)] by (auto simp: ctx_def)
qed

lemma stored_array:
  assumes "ctx False ih d v anc" "leaf_ok ih hdr0 x"
  shows "\<exists>v'. add_node ih v anc x = Ok v' \<and> ctx False ih d v' anc \<and> hdr v' = hdr v \<and> json_of v' = with_child False (json_of v) k (json_of (Var hdr0 x))"
proof -
  have c: "var_ok ih d v" "is_array v" "length anc = d" "chain_ok anc" using assms(1) by (auto simp: ctx_def)
  show ?thesis using add_node_array[OF c(1-3) assms(2)] c by (auto simp: ctx_def with_child_def)
qed

subsection \<open>Values\<close>

lemma dec_digits_length: "n < 10 ^ Suc k \<Longrightarrow> length (dec_digits n) \<le> Suc k"
proof (induction k arbitrary: n)
  case 0
  then show ?case by (subst dec_digits.simps) simp
next
  case (Suc k)
  then have "n div 10 < 10 ^ Suc k" by (simp add: less_mult_imp_div_less)
  then show ?case using Suc.IH[of "n div 10"] by (subst dec_digits.simps) auto
qed

lemma u64_digits: "length (dec_digits (unat (i :: u64))) \<le> 20"
proof -
  have "unat i < 2 ^ 64" using unsigned_less[of i] by simp
  then have "unat i < 10 ^ Suc 19" by simp
  then show ?thesis using dec_digits_length by fastforce
qed

lemma read_int:
  assumes "ctx b ih (length anc) v anc" "slot_ok b (json_of v) k" "p_st L = val_st b" "b \<Longrightarrow> p_key L = k" "sep t"
  shows "went_on b ih depth (L, v, anc, dec_digits (unat i) @ t # rest) rest (with_child b (json_of v) k (JInt i))"
proof -
  let ?ds = "dec_digits (unat i)"
  note dp = dec_digits_props[of "unat i"]
  obtain c ds where cs: "?ds = c # ds" using dp by (cases ?ds) auto
  have dig: "c_isdigit c" using dp cs by auto
  define L1 where "L1 = (fresh_value L)\<lparr>p_st := (if b then PSTATE_DICT_VALUE else PSTATE_ARRAY_VALUE), p_nondigits := False, p_dots := 0\<rparr>"
  define L2 where "L2 = L1\<lparr>p_val := ?ds\<rparr>"
  define L3 where "L3 = L2\<lparr>p_st := wait_st b\<rparr>"
  have ne: "\<not> c_isspace c" "c \<noteq> CHR ''#''" "c \<noteq> CHR '',''" "c \<noteq> CHR ''{''" "c \<noteq> CHR ''[''" "c \<noteq> CHR '']''" "c \<noteq> CHR 0x22" "c \<noteq> CHR '':''" "c \<noteq> CHR ''=''"
    using dig digit_not_space[OF dig] by (auto simp: c_isdigit_def)
  have a: "pstep ih L v anc c xs = Ok (Go L1 v anc (c # xs))" for xs
    using assms(3) ne digit_unquoted[OF dig] by (cases b) (simp_all add: pstep_def val_st_def step_waitvalue_def step_array_waitvalue_def L1_def)
  have l2: "leads ih depth (L1, v, anc, ?ds @ t # rest) (L2, v, anc, t # rest)"
    using read_digits[of L1 b ?ds ih depth v anc "t # rest"] dp u64_digits[of i]
    by (cases b) (simp_all add: L1_def L2_def fresh_value_def bufmax_def)
  have num: "strtoull10 ?ds = i" using strtoull_dec[of "unat i" "[]"] unsigned_less[of i] by simp
  have t: "c_isspace t \<or> t = CHR '',''" "t \<noteq> CHR ''#''" "t \<noteq> CHR ''}''" "t \<noteq> CHR '']''" using assms(5) by (auto simp: sep_def c_isspace_def)
  have nd: "\<not> p_nondigits L2" "p_dots L2 = 0" "p_val L2 = ?ds" "b \<Longrightarrow> p_key L2 = k" "p_st L2 = (if b then PSTATE_DICT_VALUE else PSTATE_ARRAY_VALUE)"
    using assms(4) by (simp_all add: L2_def L1_def fresh_value_def)
  have "went_on b ih depth (L2, v, anc, t # rest) rest (with_child b (json_of v) k (JInt i))"
  proof (cases b)
    case True
    have over: "overwrite (JInt i) JNull = JInt i" by (simp add: overwrite_def)
    obtain v' anc' where s: "set_forkey ih v anc k (\<lambda>v anc. var_set_int v anc i) = Ok (v', anc')" "ctx True ih (length anc) v' anc'"
        "same_hdr (hdr v) (hdr v')" "same_chain anc anc'" "json_of v' = with_child True (json_of v) k (JInt i)"
      using stored_dict[OF _ _ var_set_int_sets over, of ih "length anc" v anc k] assms(1,2) True by auto
    have step: "pstep ih L2 v anc t rest = Ok (Go L3 v' anc' rest)"
      using nd t s(1) num True by (auto simp: pstep_def step_value_def store_dict_def var_set_int_forkey_def L3_def wait_st_def)
    show ?thesis by (rule went_on_stored[OF step]) (use s(2-5) True in \<open>simp_all add: L3_def\<close>)
  next
    case False
    have arr: "is_array v" using assms(1) False by (simp add: ctx_def)
    obtain v' where s: "add_node ih v anc (VInt i) = Ok v'" "ctx False ih (length anc) v' anc" "hdr v' = hdr v"
        "json_of v' = with_child False (json_of v) k (JInt i)"
      using stored_array[of ih "length anc" v anc "VInt i" k] assms(1) False by auto
    have step: "pstep ih L2 v anc t rest = Ok (Go L3 v' anc rest)"
      using nd t s(1) num False arr by (auto simp: pstep_def step_array_value_def store_array_def var_add_int_def L3_def wait_st_def)
    show ?thesis by (rule went_on_stored[OF step]) (use s(2-4) False in \<open>simp_all add: L3_def\<close>)
  qed
  then have "went_on b ih depth (L1, v, anc, ?ds @ t # rest) rest (with_child b (json_of v) k (JInt i))"
    by (rule went_on_leads[OF l2])
  then show ?thesis using went_on_step[OF a] cs by simp
qed

lemma read_str:
  assumes "ctx b ih (length anc) v anc" "slot_ok b (json_of v) k" "p_st L = val_st b" "b \<Longrightarrow> p_key L = k" "sep t" "text_ok s"
  shows "went_on b ih depth (L, v, anc, printf_out (quoted (var_escape_str s)) @ t # rest) rest (with_child b (json_of v) k (JStr s))"
proof -
  have len: "length (var_escape_str s) \<le> 4093" "length s \<le> 4093" using assms(6) escape_length[of s] by (auto simp: text_ok_def)
  have w: "printf_out (quoted (var_escape_str s)) @ t # rest = CHR 0x22 # var_escape_str s @ CHR 0x22 # t # rest"
    using len(1) by (simp add: printf_out_def quoted_def)
  define L1 where "L1 = (fresh_value L)\<lparr>p_st := (if b then PSTATE_DICT_VALUE_QUOTED else PSTATE_ARRAY_VALUE_QUOTED)\<rparr>"
  define L2 where "L2 = L1\<lparr>p_val := s\<rparr>"
  define L3 where "L3 = L2\<lparr>p_st := wait_st b\<rparr>"
  have a: "pstep ih L v anc (CHR 0x22) xs = Ok (Go L1 v anc xs)" for xs
    using assms(3) by (cases b) (simp_all add: pstep_def val_st_def step_waitvalue_def step_array_waitvalue_def L1_def c_isspace_def)
  have l2: "leads ih depth (L1, v, anc, var_escape_str s @ xs) (L2, v, anc, xs)" for xs
    using read_string_chars[of L1 b s ih depth v anc xs] len(2) by (cases b) (simp_all add: L1_def L2_def fresh_value_def bufmax_def)
  have st: "p_val L2 = s" "b \<Longrightarrow> p_key L2 = k" "p_st L2 = (if b then PSTATE_DICT_VALUE_QUOTED else PSTATE_ARRAY_VALUE_QUOTED)"
    using assms(4) by (simp_all add: L2_def L1_def fresh_value_def)
  have "went_on b ih depth (L2, v, anc, CHR 0x22 # t # rest) (t # rest) (with_child b (json_of v) k (JStr s))"
  proof (cases b)
    case True
    have over: "overwrite (JStr s) JNull = JStr s" by (simp add: overwrite_def)
    obtain v' anc' where s: "set_forkey ih v anc k (\<lambda>v anc. var_set_str v anc s) = Ok (v', anc')" "ctx True ih (length anc) v' anc'"
        "same_hdr (hdr v) (hdr v')" "same_chain anc anc'" "json_of v' = with_child True (json_of v) k (JStr s)"
      using stored_dict[OF _ _ var_set_str_sets over, of ih "length anc" v anc k] assms(1,2) True by auto
    have step: "pstep ih L2 v anc (CHR 0x22) (t # rest) = Ok (Go L3 v' anc' (t # rest))"
      using st s(1) True by (simp add: pstep_def step_value_quoted_def var_set_str_forkey_def L3_def wait_st_def)
    show ?thesis by (rule went_on_stored[OF step]) (use s(2-5) True in \<open>simp_all add: L3_def\<close>)
  next
    case False
    have arr: "is_array v" using assms(1) False by (simp add: ctx_def)
    obtain v' where s: "add_node ih v anc (VStr s) = Ok v'" "ctx False ih (length anc) v' anc" "hdr v' = hdr v"
        "json_of v' = with_child False (json_of v) k (JStr s)"
      using stored_array[of ih "length anc" v anc "VStr s" k] assms(1) False by auto
    have step: "pstep ih L2 v anc (CHR 0x22) (t # rest) = Ok (Go L3 v' anc (t # rest))"
      using st s(1) False arr by (simp add: pstep_def step_array_value_quoted_def var_add_str_def L3_def wait_st_def)
    show ?thesis by (rule went_on_stored[OF step]) (use s(2-4) False in \<open>simp_all add: L3_def\<close>)
  qed
  then have "went_on b ih depth (L1, v, anc, var_escape_str s @ CHR 0x22 # t # rest) (t # rest) (with_child b (json_of v) k (JStr s))"
    by (rule went_on_leads[OF l2])
  then have "went_on b ih depth (L, v, anc, CHR 0x22 # var_escape_str s @ CHR 0x22 # t # rest) (t # rest) (with_child b (json_of v) k (JStr s))"
    by (rule went_on_step[OF a])
  then show ?thesis unfolding w
  proof (rule went_on_trans)
    fix L' :: locals and v' anc' assume "p_st L' = wait_st b" "ctx b ih (length anc) v' anc'" "json_of v' = with_child b (json_of v) k (JStr s)" "same_chain anc anc'"
    then show "went_on b ih depth (L', v', anc', t # rest) rest (with_child b (json_of v) k (JStr s))"
      by (intro went_on_stored[OF sep_skipped[OF assms(5)]]) (simp_all add: list_all2_lengthD)
  qed
qed

subsection \<open>Nested values\<close>

definition empty_json :: "bool \<Rightarrow> json" where
  "empty_json b = (if b then JDict [] else JArr [])"

definition items :: "json \<Rightarrow> nat" where
  "items j = (case j of JDict ms \<Rightarrow> length ms | JArr xs \<Rightarrow> length xs | _ \<Rightarrow> 0)"

definition bracket :: "bool \<Rightarrow> char" where
  "bracket b = (if b then CHR ''{'' else CHR ''['')"

definition closer :: "bool \<Rightarrow> char" where
  "closer b = (if b then CHR ''}'' else CHR '']'')"

text \<open>The parser goes down into a new child and finds it empty.\<close>

definition entered :: "bool \<Rightarrow> bool \<Rightarrow> u32 \<Rightarrow> pnext \<Rightarrow> json \<Rightarrow> string \<Rightarrow> vhdr \<Rightarrow> chain \<Rightarrow> string \<Rightarrow> bool" where
  "entered b b2 ih r j k h anc cs \<longleftrightarrow> (\<exists>i L' v1 anc1. r = Down (Kid i) (wait_st b2) L' v1 anc1 cs \<and> p_st L' = wait_st b \<and>
     ctx b ih (length anc) v1 anc1 \<and> same_hdr h (hdr v1) \<and> same_chain anc anc1 \<and> i = items j \<and>
     json_of v1 = with_child b j k (empty_json b2))"

lemma at_kid_clear:
  assumes "ctx b ih d v anc" "i < length (kids_of v)" "vv (kids_of v ! i) = VArray no_kids"
  shows "\<exists>v' anc'. at_place (Kid i) var_clear_array v anc = Ok (v', anc') \<and> ctx b ih d v' anc' \<and> same_hdr (hdr v) (hdr v') \<and> same_chain anc anc' \<and>
    json_of v' = json_of v"
proof -
  have c: "var_ok ih d v" "length anc = d" "chain_ok anc" using assms(1) by (auto simp: ctx_def)
  have ch: "chain_ok (hdr v # anc)" "length (hdr v # anc) = Suc d" using var_ok_root[OF c(1)] c(2,3) by simp_all
  obtain c' hs where o: "var_clear_array (kids_of v ! i) (hdr v # anc) = Ok (c', hs)" "var_ok ih (Suc d) c'" "vv c' = VArray no_kids"
      "same_hdr (hdr (kids_of v ! i)) (hdr c')" "same_chain (hdr v # anc) hs"
    using clear_empty_array[OF kid_ok[OF c(1) assms(2)] assms(3) ch(2,1)] by blast
  have e: "json_of c' = JArr []" using o(3) json_array[of c'] by (simp add: no_kids_def)
  have a: "at_place (Kid i) var_clear_array v anc = Ok (leave (Kid i) v c' hs)" using o(1) by (simp add: at_place_def del: leave.simps)
  show ?thesis
  proof (cases b)
    case True
    have d: "is_dict v" using assms(1) True by (simp add: ctx_def)
    obtain v' anc' where l: "leave (Kid i) v c' hs = (v', anc')" "var_ok ih d v'" "is_dict v'" "same_hdr (hdr v) (hdr v')" "same_chain anc anc'"
        "json_of v' = JDict ((members (json_of v))[i := (var_id (kids_of v ! i), json_of c')])"
      using leave_dict[OF c(1) d assms(2) o(2,4,5)] by blast
    have "members (json_of v) ! i = (var_id (kids_of v ! i), json_of (kids_of v ! i))" using members_kids[OF d] assms(2) by simp
    moreover have "json_of (kids_of v ! i) = JArr []" using assms(3) json_array[of "kids_of v ! i"] by (simp add: no_kids_def)
    ultimately have "json_of v' = json_of v" using l(6) e json_is_dict[OF d] by (metis list_update_id)
    then show ?thesis using a l True same_chain_ok[OF l(5) c(3)] list_all2_lengthD[OF l(5)] c(2) by (auto simp: ctx_def)
  next
    case False
    have d: "is_array v" using assms(1) False by (simp add: ctx_def)
    obtain v' anc' where l: "leave (Kid i) v c' hs = (v', anc')" "var_ok ih d v'" "is_array v'" "same_hdr (hdr v) (hdr v')" "same_chain anc anc'"
        "json_of v' = JArr ((elements (json_of v))[i := json_of c'])"
      using leave_array[OF c(1) d assms(2) o(2,4,5)] by blast
    have "elements (json_of v) ! i = json_of (kids_of v ! i)" using elements_kids[OF d] assms(2) by simp
    moreover have "json_of (kids_of v ! i) = JArr []" using assms(3) json_array[of "kids_of v ! i"] by (simp add: no_kids_def)
    ultimately have "json_of v' = json_of v" using l(6) e json_is_array[OF d] by (metis list_update_id)
    then show ?thesis using a l False same_chain_ok[OF l(5) c(3)] list_all2_lengthD[OF l(5)] c(2) by (auto simp: ctx_def)
  qed
qed

lemma items_dict: "j = JDict (members j) \<Longrightarrow> items j = length (members j)"
  by (cases j) (simp_all add: items_def)

lemma items_array: "j = JArr (elements j) \<Longrightarrow> items j = length (elements j)"
  by (cases j) (simp_all add: items_def)

lemma items_ctx:
  assumes "ctx b ih d v anc"
  shows "items (json_of v) = length (kids_of v)"
proof (cases b)
  case True
  then have "is_dict v" using assms by (simp add: ctx_def)
  then show ?thesis using items_dict[OF json_is_dict] members_kids[of v] by simp
next
  case False
  then have "is_array v" using assms by (simp add: ctx_def)
  then show ?thesis using items_array[OF json_is_array] elements_kids[of v] by simp
qed

lemma enter_new_child:
  assumes "ctx b ih (length anc) v anc" "slot_ok b (json_of v) k" "p_st L = val_st b" "b \<Longrightarrow> p_key L = k"
  shows "\<exists>r. pstep ih L v anc (bracket b2) cs = Ok r \<and> entered b b2 ih r (json_of v) k (hdr v) anc cs"
proof (cases b)
  case True
  have c: "var_ok ih (length anc) v" "is_dict v" "chain_ok anc" using assms(1) True by (auto simp: ctx_def)
  have k: "key_ok k" "k \<notin> fst ` set (members (json_of v))" "p_key L = k" using assms(2,4) True by (auto simp: slot_ok_def name_ok_def)
  have st: "p_st L = PSTATE_DICT_WAITVALUE" using assms(3) True by (simp add: val_st_def)
  have n: "length (members (json_of v)) = items (json_of v)" using items_ctx[OF assms(1)] members_kids[OF c(2)] by simp
  show ?thesis
  proof (cases b2)
    case True
    obtain v1 where g: "var_get_dict_forkey ih v anc k = Ok (v1, Some (Kid (items (json_of v))))" "var_ok ih (length anc) v1" "is_dict v1" "hdr v1 = hdr v"
        "json_of v1 = JDict (members (json_of v) @ [(k, JDict [])])"
      using get_dict_new[OF c(1,2) k(1) refl c(3) k(2)] n by auto
    then show ?thesis using st \<open>b\<close> True c(3) k(3)
      by (simp add: pstep_def step_waitvalue_def bracket_def c_isspace_def enter_dict_def entered_def wait_st_def ctx_def with_child_def empty_json_def)
  next
    case False
    obtain v1 i where g: "var_get_array_forkey ih v anc k = Ok (v1, Some (Kid i))" "var_ok ih (length anc) v1" "is_dict v1" "hdr v1 = hdr v"
        "i = items (json_of v)" "i < length (kids_of v1)" "vv (kids_of v1 ! i) = VArray no_kids" "json_of v1 = JDict (members (json_of v) @ [(k, JArr [])])"
      using get_array_new[OF c(1,2) k(1) refl c(3) k(2)] n by auto
    have "ctx True ih (length anc) v1 anc" using g c(3) by (simp add: ctx_def)
    then obtain v2 anc2 where a: "at_place (Kid i) var_clear_array v1 anc = Ok (v2, anc2)" "ctx True ih (length anc) v2 anc2" "same_hdr (hdr v1) (hdr v2)"
        "same_chain anc anc2" "json_of v2 = json_of v1"
      using at_kid_clear[OF _ g(6,7)] by blast
    then show ?thesis using st \<open>b\<close> False c(3) k(3) g
      by (simp add: pstep_def step_waitvalue_def bracket_def c_isspace_def enter_array_def entered_def wait_st_def with_child_def empty_json_def)
  qed
next
  case False
  have c: "var_ok ih (length anc) v" "is_array v" "chain_ok anc" using assms(1) False by (auto simp: ctx_def)
  have st: "p_st L = PSTATE_ARRAY_WAITVALUE" using assms(3) False by (simp add: val_st_def)
  have nn: "vv v \<noteq> VNull" using c(2) by (auto simp: is_array_def)
  define x where "x = (if b2 then VDict no_kids else VArray no_kids :: var vval)"
  have leaf: "leaf_ok ih hdr0 x" by (simp add: x_def)
  obtain v1 where g: "add_node ih v anc x = Ok v1" "var_ok ih (length anc) v1" "is_array v1" "hdr v1 = hdr v"
      "length (kids_of v1) = Suc (length (kids_of v))" "vv (kids_of v1 ! length (kids_of v)) = x" "json_of v1 = JArr (elements (json_of v) @ [json_of (Var hdr0 x)])"
    using add_node_array[OF c(1,2) refl leaf] by blast
  have g': "add_container ih v anc x = Ok (v1, Some (length (kids_of v)))" using g(1,5) nn c(2) by (simp add: add_container_def)
  have n: "length (kids_of v) = items (json_of v)" using items_ctx[OF assms(1)] by simp
  have cv1: "ctx False ih (length anc) v1 anc" using g c(3) by (simp add: ctx_def)
  have j: "json_of v1 = with_child False (json_of v) k (empty_json b2)" using g(7) by (simp add: x_def with_child_def empty_json_def)
  show ?thesis
  proof (cases b2)
    case True
    then show ?thesis using st False g' n g(4) cv1 j
      by (simp add: pstep_def step_array_waitvalue_def bracket_def c_isspace_def enter_added_def var_add_dict_def x_def entered_def wait_st_def)
  next
    case b2: False
    obtain v2 anc2 where a: "at_place (Kid (length (kids_of v))) var_clear_array v1 anc = Ok (v2, anc2)" "ctx False ih (length anc) v2 anc2"
        "same_hdr (hdr v1) (hdr v2)" "same_chain anc anc2" "json_of v2 = json_of v1"
      using at_kid_clear[OF cv1, of "length (kids_of v)"] g(5,6) b2 by (auto simp: x_def)
    then show ?thesis using st False b2 g' n g(4) j
      by (simp add: pstep_def step_array_waitvalue_def bracket_def c_isspace_def enter_added_def var_add_array_def x_def entered_def wait_st_def)
  qed
qed

lemma leave_child:
  assumes "ctx b ih d v anc" "json_of v = with_child b j k x0" "i = items j" "(b \<longrightarrow> j = JDict (members j)) \<and> (\<not> b \<longrightarrow> j = JArr (elements j))"
    "var_ok ih (Suc d) c'" "same_hdr (hdr (kids_of v ! i)) (hdr c')" "same_chain (hdr v # anc) hs"
  shows "\<exists>v' anc'. leave (Kid i) v c' hs = (v', anc') \<and> ctx b ih d v' anc' \<and> same_hdr (hdr v) (hdr v') \<and> same_chain anc anc' \<and>
    json_of v' = with_child b j k (json_of c')"
proof -
  have c: "var_ok ih d v" "length anc = d" "chain_ok anc" using assms(1) by (auto simp: ctx_def)
  show ?thesis
  proof (cases b)
    case True
    have d: "is_dict v" using assms(1) True by (simp add: ctx_def)
    have m: "members (json_of v) = members j @ [(k, x0)]" using assms(2) True by (simp add: with_child_def)
    have "j = JDict (members j)" using assms(4) True by blast
    then have i: "i = length (members j)" using assms(3) items_dict by simp
    then have i': "i < length (kids_of v)" using members_kids[OF d] m by (metis length_append_singleton length_map lessI)
    obtain v' anc' where l: "leave (Kid i) v c' hs = (v', anc')" "var_ok ih d v'" "is_dict v'" "same_hdr (hdr v) (hdr v')" "same_chain anc anc'"
        "json_of v' = JDict ((members (json_of v))[i := (var_id (kids_of v ! i), json_of c')])"
      using leave_dict[OF c(1) d i' assms(5-7)] by blast
    have "members (json_of v) ! i = (var_id (kids_of v ! i), json_of (kids_of v ! i))" using members_kids[OF d] i' by simp
    then have "var_id (kids_of v ! i) = k" using m i by simp
    then have "json_of v' = with_child b j k (json_of c')" using l(6) m i True by (simp add: with_child_def)
    then show ?thesis using l True same_chain_ok[OF l(5) c(3)] list_all2_lengthD[OF l(5)] c(2) by (auto simp: ctx_def)
  next
    case False
    have d: "is_array v" using assms(1) False by (simp add: ctx_def)
    have m: "elements (json_of v) = elements j @ [x0]" using assms(2) False by (simp add: with_child_def)
    have "j = JArr (elements j)" using assms(4) False by blast
    then have i: "i = length (elements j)" using assms(3) items_array by simp
    then have i': "i < length (kids_of v)" using elements_kids[OF d] m by (metis length_append_singleton length_map lessI)
    obtain v' anc' where l: "leave (Kid i) v c' hs = (v', anc')" "var_ok ih d v'" "is_array v'" "same_hdr (hdr v) (hdr v')" "same_chain anc anc'"
        "json_of v' = JArr ((elements (json_of v))[i := json_of c'])"
      using leave_array[OF c(1) d i' assms(5-7)] by blast
    have "json_of v' = with_child b j k (json_of c')" using l(6) m i False by (simp add: with_child_def)
    then show ?thesis using l False same_chain_ok[OF l(5) c(3)] list_all2_lengthD[OF l(5)] c(2) by (auto simp: ctx_def)
  qed
qed

text \<open>A nested value, once its children are known to be read.\<close>

lemma read_nested:
  assumes "ctx b ih (length anc) v anc" "slot_ok b (json_of v) k" "p_st L = val_st b" "b \<Longrightarrow> p_key L = k"
    and "depth + 1 \<le> default_max_json_depth"
    and inner: "\<And>L c hs. p_st L = wait_st b2 \<Longrightarrow> ctx b2 ih (length hs) c hs \<Longrightarrow> json_of c = empty_json b2 \<Longrightarrow>
      went_on b2 ih (depth + 1) (L, c, hs, txt @ closer b2 # rest) (closer b2 # rest) jc"
  shows "went_on b ih depth (L, v, anc, bracket b2 # txt @ closer b2 # rest) rest (with_child b (json_of v) k jc)"
proof -
  let ?txt = "txt @ closer b2 # rest" and ?j = "json_of v"
  obtain i L' v1 anc1 where st: "pstep ih L v anc (bracket b2) ?txt = Ok (Down (Kid i) (wait_st b2) L' v1 anc1 ?txt)" "p_st L' = wait_st b"
      "ctx b ih (length anc) v1 anc1" "same_hdr (hdr v) (hdr v1)" "same_chain anc anc1" "i = items ?j" "json_of v1 = with_child b ?j k (empty_json b2)"
    using enter_new_child[OF assms(1-4), of b2 ?txt] unfolding entered_def by auto
  have c1: "var_ok ih (length anc) v1" "chain_ok anc1" "length anc1 = length anc" using st(3) by (auto simp: ctx_def)
  have jv: "(b \<longrightarrow> ?j = JDict (members ?j)) \<and> (\<not> b \<longrightarrow> ?j = JArr (elements ?j))"
    using assms(1) json_is_dict json_is_array by (auto simp: ctx_def)
  have jc: "i < length (kids_of v1) \<and> json_of (kids_of v1 ! i) = empty_json b2"
  proof (cases b)
    case True
    then have d: "is_dict v1" using st(3) by (simp add: ctx_def)
    have "i = length (members ?j)" using st(6) jv True items_dict by simp
    moreover have "map (\<lambda>c. (var_id c, json_of c)) (kids_of v1) = members ?j @ [(k, empty_json b2)]"
      using members_kids[OF d] st(7) True by (simp add: with_child_def)
    ultimately show ?thesis by (metis (no_types, lifting) length_append_singleton length_map lessI nth_append_length nth_map snd_conv)
  next
    case False
    then have d: "is_array v1" using st(3) by (simp add: ctx_def)
    have "i = length (elements ?j)" using st(6) jv False items_array by simp
    moreover have "map json_of (kids_of v1) = elements ?j @ [empty_json b2]"
      using elements_kids[OF d] st(7) False by (simp add: with_child_def)
    ultimately show ?thesis by (metis length_append_singleton length_map lessI nth_append_length nth_map)
  qed
  let ?c = "kids_of v1 ! i"
  have cc: "ctx b2 ih (length (hdr v1 # anc1)) ?c (hdr v1 # anc1)"
    using kid_ok[OF c1(1)] jc c1 var_ok_root[OF c1(1)] json_dict_iff json_array_iff by (auto simp: ctx_def empty_json_def)
  obtain Lc c' hs where ch: "leads ih (depth + 1) (locals0 (wait_st b2), ?c, hdr v1 # anc1, ?txt) (Lc, c', hs, closer b2 # rest)"
      "p_st Lc = wait_st b2" "ctx b2 ih (length (hdr v1 # anc1)) c' hs" "same_hdr (hdr ?c) (hdr c')" "same_chain (hdr v1 # anc1) hs" "json_of c' = jc"
    using inner[of "locals0 (wait_st b2)" "hdr v1 # anc1" ?c] cc jc unfolding went_on_def by (auto simp: locals0_def)
  have ret: "pstep ih Lc c' hs (closer b2) rest = Ok (Return True c' hs (closer b2 # rest))"
    using ch(2) by (cases b2) (simp_all add: closer_def wait_st_def pstep_def step_waitkey_def step_array_waitvalue_def c_isspace_def)
  have "var_ok ih (Suc (length anc)) c'" using ch(3) c1(3) by (simp add: ctx_def)
  then obtain v2 anc2 where lv: "leave (Kid i) v1 c' hs = (v2, anc2)" "ctx b ih (length anc) v2 anc2" "same_hdr (hdr v1) (hdr v2)" "same_chain anc1 anc2"
      "json_of v2 = with_child b ?j k (json_of c')"
    using leave_child[OF st(3,7,6) _ _ ch(4,5)] jv by blast
  have "leads ih depth (L, v, anc, bracket b2 # ?txt) (L', v2, anc2, rest)"
    by (rule leads_down[OF st(1) assms(5) _ ret lv(1)]) (use ch(1) in simp)
  then show ?thesis
    by (rule went_onI[OF _ st(2) lv(2) same_hdr_trans[OF st(4) lv(3)] same_chain_trans[OF st(5) lv(4)]]) (use lv(5) ch(6) in simp)
qed

subsection \<open>What the writer wrote\<close>

lemma went_on_sep:
  assumes "went_on b ih depth (L, v, anc, cs) (t # rest) j" "sep t"
  shows "went_on b ih depth (L, v, anc, cs) rest j"
  using assms(1)
proof (rule went_on_trans)
  fix L' :: locals and v' anc'
  assume a: "p_st L' = wait_st b" "ctx b ih (length anc) v' anc'" "json_of v' = j" "same_chain anc anc'"
  then show "went_on b ih depth (L', v', anc', t # rest) rest j"
    by (intro went_on_stored[OF sep_skipped[OF assms(2)]]) (simp_all add: list_all2_lengthD)
qed

lemma went_on_spaces:
  assumes "went_on b ih depth (L, v, anc, cs) (ws @ rest) j" "\<forall>c\<in>set ws. c_isspace c"
  shows "went_on b ih depth (L, v, anc, cs) rest j"
  using assms(1)
proof (rule went_on_trans)
  fix L' :: locals and v' anc'
  assume a: "p_st L' = wait_st b" "ctx b ih (length anc) v' anc'" "json_of v' = j" "same_chain anc anc'"
  then show "went_on b ih depth (L', v', anc', ws @ rest) rest j"
    by (intro went_onI[OF skip_spaces[OF assms(2)]]) (simp_all add: list_all2_lengthD)
qed

definition with_kids :: "bool \<Rightarrow> json \<Rightarrow> var list \<Rightarrow> json" where
  "with_kids b j ks = (if b then JDict (members j @ map (\<lambda>c. (var_id c, json_of c)) ks) else JArr (elements j @ map json_of ks))"

definition kids_ok :: "bool \<Rightarrow> nat \<Rightarrow> json \<Rightarrow> var list \<Rightarrow> bool" where
  "kids_ok b n j ks \<longleftrightarrow> (\<forall>c\<in>set ks. writable n (json_of c)) \<and>
     (b \<longrightarrow> (\<forall>c\<in>set ks. name_ok (var_id c)) \<and> distinct (map fst (members j) @ map var_id ks))"

lemma kids_ok_Cons:
  assumes "kids_ok b n j (c # cs)"
  shows "writable n (json_of c)" "slot_ok b j (var_id c)" "b \<Longrightarrow> name_ok (var_id c)" "kids_ok b n (with_child b j (var_id c) (json_of c)) cs"
  using assms by (auto simp: kids_ok_def slot_ok_def with_child_def)

lemma read_one_kid:
  assumes "p_st L = wait_st b" "ctx b ih (length anc) v anc" "kids_ok b n (json_of v) (c # cs)"
    and node: "\<And>L. p_st L = val_st b \<Longrightarrow> (b \<Longrightarrow> p_key L = var_id c) \<Longrightarrow>
      went_on b ih depth (L, v, anc, body) rest (with_child b (json_of v) (var_id c) (json_of c))"
  shows "went_on b ih depth (L, v, anc, SPC indent @ (if b then write_key (var_id c) else '''') @ body) rest
    (with_child b (json_of v) (var_id c) (json_of c))"
proof (rule went_on_leads[OF skip_spaces[OF c_isspace_SPC assms(1)]], cases b)
  case True
  then obtain L' where k: "leads ih depth (L, v, anc, write_key (var_id c) @ body) (L', v, anc, body)" "p_st L' = val_st True" "p_key L' = var_id c"
    using read_key[of L "var_id c" ih depth v anc body] assms(1) kids_ok_Cons(3)[OF assms(3)] by (auto simp: wait_st_def val_st_def)
  then show "went_on b ih depth (L, v, anc, (if b then write_key (var_id c) else '''') @ body) rest (with_child b (json_of v) (var_id c) (json_of c))"
    using went_on_leads[OF k(1) node[of L']] True by simp
next
  case False
  then show "went_on b ih depth (L, v, anc, (if b then write_key (var_id c) else '''') @ body) rest (with_child b (json_of v) (var_id c) (json_of c))"
    using node[of L] assms(1) by (simp add: wait_st_def val_st_def)
qed

lemma newline_spaces: "\<forall>c\<in>set newline. c_isspace c"
  by (simp add: newline_def c_isspace_def)

lemma read_block:
  assumes "ctx b ih (length anc) v anc" "slot_ok b (json_of v) k" "p_st L = val_st b" "b \<Longrightarrow> p_key L = k" "sep t"
    and "depth + 1 \<le> default_max_json_depth"
    and kids: "\<And>L c hs rest. p_st L = wait_st b2 \<Longrightarrow> ctx b2 ih (length hs) c hs \<Longrightarrow> json_of c = empty_json b2 \<Longrightarrow>
      went_on b2 ih (depth + 1) (L, c, hs, body @ rest) rest jc"
  shows "went_on b ih depth (L, v, anc, (bracket b2 # newline @ body @ SPC indent @ [closer b2]) @ t # rest) rest (with_child b (json_of v) k jc)"
proof -
  have inner: "went_on b2 ih (depth + 1) (L, c, hs, (newline @ body @ SPC indent) @ closer b2 # t # rest) (closer b2 # t # rest) jc"
    if w: "p_st L = wait_st b2" "ctx b2 ih (length hs) c hs" "json_of c = empty_json b2" for L c hs
  proof -
    have "went_on b2 ih (depth + 1) (L, c, hs, body @ SPC indent @ closer b2 # t # rest) (closer b2 # t # rest) jc"
      using went_on_spaces[OF kids[OF w, of "SPC indent @ closer b2 # t # rest"] c_isspace_SPC] .
    then show ?thesis using went_on_leads[OF skip_spaces[OF newline_spaces w(1)]] by simp
  qed
  show ?thesis using went_on_sep[OF read_nested[OF assms(1-4,6) inner] assms(5)] by simp
qed

text \<open>A node in its slot, and the children of a node.\<close>

definition node_read :: "nat \<Rightarrow> var \<Rightarrow> bool" where
  "node_read indent c \<longleftrightarrow> (\<forall>b ih depth L v anc n k t rest. writable n (json_of c) \<longrightarrow> depth + int n = default_max_json_depth \<longrightarrow>
     ctx b ih (length anc) v anc \<longrightarrow> slot_ok b (json_of v) k \<longrightarrow> p_st L = val_st b \<longrightarrow> (b \<longrightarrow> p_key L = k) \<longrightarrow> sep t \<longrightarrow>
     went_on b ih depth (L, v, anc, write_node indent c @ t # rest) rest (with_child b (json_of v) k (json_of c)))"

definition kids_read :: "nat \<Rightarrow> bool \<Rightarrow> var list \<Rightarrow> bool" where
  "kids_read indent b ks \<longleftrightarrow> (\<forall>ih depth L v anc n rest. kids_ok b n (json_of v) ks \<longrightarrow> depth + int n = default_max_json_depth \<longrightarrow>
     ctx b ih (length anc) v anc \<longrightarrow> p_st L = wait_st b \<longrightarrow>
     went_on b ih depth (L, v, anc, write_kids indent b ks @ rest) rest (with_kids b (json_of v) ks))"

lemma ctx_json: "ctx b ih d v anc \<Longrightarrow> json_of v = with_kids b (json_of v) []"
  using json_is_dict[of v] json_is_array[of v] by (auto simp: ctx_def with_kids_def)

lemma with_kids_Cons: "with_kids b j (c # cs) = with_kids b (with_child b j (var_id c) (json_of c)) cs"
  by (simp add: with_kids_def with_child_def)

lemma nested_read:
  assumes "kids_read (min 128 (indent + 4)) b2 ks" "json_of c = with_kids b2 (empty_json b2) ks"
    and "write_node indent c = bracket b2 # newline @ write_kids (min 128 (indent + 4)) b2 ks @ SPC indent @ [closer b2]"
    and "\<And>n. writable n (json_of c) \<Longrightarrow> \<exists>m. n = Suc m \<and> kids_ok b2 m (empty_json b2) ks"
  shows "node_read indent c"
  unfolding node_read_def
proof (intro allI impI)
  fix b ih depth v anc n k t rest and L :: locals
  assume a: "writable n (json_of c)" "depth + int n = default_max_json_depth" "ctx b ih (length anc) v anc" "slot_ok b (json_of v) k"
    "p_st L = val_st b" "b \<longrightarrow> p_key L = k" "sep t"
  obtain m where m: "n = Suc m" "kids_ok b2 m (empty_json b2) ks" using assms(4)[OF a(1)] by blast
  show "went_on b ih depth (L, v, anc, write_node indent c @ t # rest) rest (with_child b (json_of v) k (json_of c))"
    unfolding assms(3)
  proof (rule read_block[OF a(3-5) _ a(7)])
    fix L :: locals and c' hs rest assume w: "p_st L = wait_st b2" "ctx b2 ih (length hs) c' hs" "json_of c' = empty_json b2"
    then show "went_on b2 ih (depth + 1) (L, c', hs, write_kids (min 128 (indent + 4)) b2 ks @ rest) rest (json_of c)"
      using assms(1)[unfolded kids_read_def, rule_format, of m c' "depth + 1" ih hs L rest] m a(2) assms(2) by simp
  qed (use a(2,6) m in auto)
qed

lemma kids_read_Cons:
  assumes "node_read indent c" "kids_read indent b cs"
  shows "kids_read indent b (c # cs)"
  unfolding kids_read_def
proof (intro allI impI)
  fix ih depth v anc n rest and L :: locals
  assume a: "kids_ok b n (json_of v) (c # cs)" "depth + int n = default_max_json_depth" "ctx b ih (length anc) v anc" "p_st L = wait_st b"
  note k = kids_ok_Cons[OF a(1)]
  define t where "t = (if cs = [] then CHR 0x0A else CHR '','')"
  define rest' where "rest' = (if cs = [] then rest else newline @ write_kids indent b cs @ rest)"
  have t: "sep t" by (simp add: t_def sep_def)
  have w: "write_kids indent b (c # cs) @ rest = SPC indent @ (if b then write_key (var_id c) else '''') @ write_node indent c @ t # rest'"
    by (simp add: t_def rest'_def newline_def)
  let ?j = "with_child b (json_of v) (var_id c) (json_of c)"
  have "went_on b ih depth (L, v, anc, write_kids indent b (c # cs) @ rest) rest' ?j"
    unfolding w
  proof (rule read_one_kid[OF a(4,3,1)])
    fix L :: locals assume "p_st L = val_st b" "b \<Longrightarrow> p_key L = var_id c"
    then show "went_on b ih depth (L, v, anc, write_node indent c @ t # rest') rest' ?j"
      using assms(1)[unfolded node_read_def, rule_format, OF k(1) a(2,3) k(2) _ _ t] by blast
  qed
  then show "went_on b ih depth (L, v, anc, write_kids indent b (c # cs) @ rest) rest (with_kids b (json_of v) (c # cs))"
  proof (rule went_on_trans)
    fix L' :: locals and v' anc'
    assume g: "p_st L' = wait_st b" "ctx b ih (length anc) v' anc'" "json_of v' = ?j" "same_chain anc anc'"
    have len: "length anc' = length anc" using g(4) by (simp add: list_all2_lengthD)
    show "went_on b ih depth (L', v', anc', rest') rest (with_kids b (json_of v) (c # cs))"
    proof (cases cs)
      case Nil
      have j: "json_of v' = with_kids b (json_of v) (c # cs)" using ctx_json[OF g(2)] g(3) Nil by (simp add: with_kids_Cons)
      show ?thesis unfolding rest'_def using Nil g len j by (auto intro: went_onI[OF leads_refl])
    next
      case (Cons c2 cs2)
      have "went_on b ih depth (L', v', anc', write_kids indent b cs @ rest) rest (with_kids b (json_of v') cs)"
        using assms(2)[unfolded kids_read_def, rule_format, of n v' depth ih anc' L' rest] k(4) a(2) g len by simp
      then show ?thesis using went_on_leads[OF skip_spaces[OF newline_spaces g(1)]] Cons g(3) unfolding rest'_def with_kids_Cons by simp
    qed
  qed
qed

lemma text_read: "node_read indent c" "kids_read indent b ks"
proof (induction indent c and indent b ks rule: write_node_write_kids.induct)
  case (1 indent h)
  then show ?case by (simp add: node_read_def)
next
  case (2 indent h i)
  then show ?case using read_int by (simp add: node_read_def)
next
  case (3 indent h d)
  then show ?case by (simp add: node_read_def)
next
  case (4 indent h s)
  then show ?case using read_str by (simp add: node_read_def)
next
  case (5 indent h ks ct cp cn)
  have w: "\<exists>m. n = Suc m \<and> kids_ok True m (empty_json True) ks" if "writable n (json_of (Var h (VDict (VLink ks ct cp cn))))" for n
    using that by (cases n) (auto simp: kids_ok_def empty_json_def comp_def)
  show ?case by (rule nested_read[OF 5 _ _ w]) (simp_all add: with_kids_def empty_json_def bracket_def closer_def)
next
  case (6 indent h ks ct cp cn)
  have w: "\<exists>m. n = Suc m \<and> kids_ok False m (empty_json False) ks" if "writable n (json_of (Var h (VArray (VLink ks ct cp cn))))" for n
    using that by (cases n) (auto simp: kids_ok_def empty_json_def)
  show ?case by (rule nested_read[OF 6 _ _ w]) (simp_all add: with_kids_def empty_json_def bracket_def closer_def)
next
  case (7 indent b)
  show ?case unfolding kids_read_def using ctx_json by (auto intro!: went_onI[OF leads_refl])
next
  case (8 indent b c cs)
  then show ?case by (rule kids_read_Cons)
qed

subsection \<open>A fresh node\<close>

text \<open>
  The parser gets an unset node. Until the first member is stored it behaves as an empty
  dictionary would.
\<close>

definition dict_st :: "locals \<Rightarrow> bool" where
  "dict_st L \<longleftrightarrow> (let ok = (\<lambda>st. st \<in> {PSTATE_DICT_WAITKEY, PSTATE_DICT_KEY, PSTATE_DICT_KEY_QUOTED, PSTATE_DICT_WAITVALUE, PSTATE_DICT_VALUE,
       PSTATE_DICT_VALUE_QUOTED}) in ok (p_st L) \<or> p_st L = PSTATE_COMMENT \<and> ok (p_next L))"

abbreviation unset :: "vhdr \<Rightarrow> var" where "unset h \<equiv> Var h VNull"
abbreviation emptyd :: "vhdr \<Rightarrow> var" where "emptyd h \<equiv> Var h (VDict no_kids)"

lemma find_unset: "var_find_key ih (unset h) k = var_find_key ih (emptyd h) k"
  by (simp add: var_find_key_def no_kids_def set_kids_def)

lemma ops_unset:
  "set_forkey ih (unset h) anc k op = set_forkey ih (emptyd h) anc k op"
  "enter_dict ih L (unset h) anc cs = enter_dict ih L (emptyd h) anc cs"
  "enter_array ih L (unset h) anc cs = enter_array ih L (emptyd h) anc cs"
  "store_dict ih L (unset h) anc = store_dict ih L (emptyd h) anc"
  by (simp_all add: set_forkey_def var_get_or_make_def enter_dict_def var_get_dict_forkey_def enter_array_def var_get_array_forkey_def
      find_or_make_def find_unset store_dict_def var_set_int_forkey_def var_set_double_forkey_def var_set_str_forkey_def)

definition same_unset :: "vhdr \<Rightarrow> chain \<Rightarrow> pnext res \<Rightarrow> pnext res \<Rightarrow> bool" where
  "same_unset h anc r r' \<longleftrightarrow> r = r' \<or>
     (\<exists>L' cs'. dict_st L' \<and> r = Ok (Go L' (unset h) anc cs') \<and> r' = Ok (Go L' (emptyd h) anc cs')) \<or>
     (\<exists>b cs'. r' = Ok (Return b (emptyd h) anc cs'))"

lemma same_advance: "dict_st L' \<Longrightarrow> same_unset h anc (advance L' (unset h) anc cur) (advance L' (emptyd h) anc cur)"
  by (cases cur) (auto simp: advance_def same_unset_def)

lemma pstep_unset:
  assumes "dict_st L"
  shows "same_unset h anc (pstep ih L (unset h) anc c cs) (pstep ih L (emptyd h) anc c cs)"
proof (cases "p_st L")
  case PSTATE_DICT_KEY_QUOTED
  then show ?thesis
    by (auto simp: pstep_def step_key_quoted_def Let_def intro!: same_advance) (auto simp: same_unset_def dict_st_def)
next
  case PSTATE_DICT_VALUE_QUOTED
  then show ?thesis
    by (auto simp: pstep_def step_value_quoted_def quoted_char_def unescape_def Let_def var_set_str_forkey_def ops_unset intro!: same_advance)
      (auto simp: same_unset_def dict_st_def)
next
  case PSTATE_DICT_VALUE
  then show ?thesis by (auto simp: pstep_def step_value_def ops_unset same_unset_def dict_st_def collect_def)
qed (use assms in \<open>auto simp: pstep_def step_waitkey_def step_key_def step_waitvalue_def step_comment_def comment_def fresh_value_def
    ops_unset same_unset_def dict_st_def\<close>)

lemma loop_unset:
  "dict_st L \<Longrightarrow> parse_loop ih n depth L (emptyd h) anc cs = Some (Ok (b, v', anc', cs')) \<Longrightarrow> v' \<noteq> emptyd h \<Longrightarrow>
   parse_loop ih n depth L (unset h) anc cs = Some (Ok (b, v', anc', cs'))"
proof (induction n arbitrary: L cs)
  case (Suc n)
  show ?case
  proof (cases cs)
    case (Cons c cs0)
    show ?thesis using pstep_unset[OF Suc.prems(1), of h anc ih c cs0] Suc Cons unfolding same_unset_def by auto
  qed (use Suc.prems in simp)
qed simp

subsection \<open>The whole text\<close>

lemma leads_returns:
  assumes "leads ih depth (L, v, anc, cs) (L', v', anc', x # rest)" "pstep ih L' v' anc' x rest = Ok (Return b v' anc' rest')"
  shows "\<exists>K. parse_loop ih K depth L v anc cs = Some (Ok (b, v', anc', rest'))"
proof -
  obtain K where "\<forall>n\<ge>K. \<exists>m\<ge>1. ploop ih n depth (L, v, anc, cs) = ploop ih m depth (L', v', anc', x # rest)"
    using assms(1) unfolding leads_def by metis
  then obtain m where m: "m \<ge> 1" "parse_loop ih K depth L v anc cs = parse_loop ih m depth L' v' anc' (x # rest)" by auto
  then show ?thesis using assms(2) by (cases m) auto
qed

lemma parse_result:
  assumes "parse_loop ih K 0 (locals0 PSTATE_BEGINNING) v [] txt = Some r"
  shows "var_parse_json ih v txt = Some r"
proof -
  have "potential (locals0 PSTATE_BEGINNING) txt < parse_fuel txt" by (simp add: potential_def parse_fuel_def waiting_def locals0_def)
  then obtain r' where r': "parse_loop ih (parse_fuel txt) 0 (locals0 PSTATE_BEGINNING) v [] txt = Some r'" using parse_loop_total by blast
  have "r' = r" using parse_loop_mono[OF assms, of "max K (parse_fuel txt)"] parse_loop_mono[OF r', of "max K (parse_fuel txt)"] by simp
  then show ?thesis using r' by (simp add: var_parse_json_def var_parse_json_level_def default_max_json_depth_def)
qed

lemma emptyd_ctx: "ctx True ih 0 (emptyd hdr0) []"
  by (simp add: ctx_def no_kids_def link_ok_new root_at_def hdr0_def is_dict_def)

lemma parse_members:
  assumes "kids_ok True 7 (JDict []) ks" "ks \<noteq> []"
  shows "\<exists>v'. var_parse_json ih var_alloc (''{'' @ newline @ write_kids 4 True ks @ CHR ''}'' # rest) = Some (Ok (True, v', [], CHR ''}'' # rest)) \<and>
    var_ok ih 0 v' \<and> json_of v' = JDict (map (\<lambda>c. (var_id c, json_of c)) ks)"
proof -
  define L where "L = (locals0 PSTATE_BEGINNING)\<lparr>p_st := PSTATE_DICT_WAITKEY\<rparr>"
  define body where "body = newline @ write_kids 4 True ks @ CHR ''}'' # rest"
  have L: "p_st L = wait_st True" "dict_st L" by (simp_all add: L_def wait_st_def dict_st_def)
  have "kids_read 4 True ks" by (rule text_read)
  then have "went_on True ih 0 (L, emptyd hdr0, [], write_kids 4 True ks @ CHR ''}'' # rest) (CHR ''}'' # rest) (with_kids True (JDict []) ks)"
    using assms(1) emptyd_ctx[of ih] L(1) unfolding kids_read_def
    by (elim allE[of _ ih] allE[of _ 0] allE[of _ L] allE[of _ "emptyd hdr0"] allE[of _ "[]"] allE[of _ 7] allE[of _ "CHR ''}'' # rest"])
      (simp add: default_max_json_depth_def no_kids_def)
  then have "went_on True ih 0 (L, emptyd hdr0, [], body) (CHR ''}'' # rest) (with_kids True (JDict []) ks)"
    unfolding body_def by (rule went_on_leads[OF skip_spaces[OF newline_spaces L(1)]])
  then obtain L' v' where r: "leads ih 0 (L, emptyd hdr0, [], body) (L', v', [], CHR ''}'' # rest)" "p_st L' = wait_st True"
      "ctx True ih 0 v' []" "json_of v' = with_kids True (JDict []) ks"
    unfolding went_on_def by auto
  have ret: "pstep ih L' v' [] (CHR ''}'') rest = Ok (Return True v' [] (CHR ''}'' # rest))"
    using r(2) by (simp add: pstep_def wait_st_def step_waitkey_def c_isspace_def)
  obtain K where K: "parse_loop ih K 0 L (emptyd hdr0) [] body = Some (Ok (True, v', [], CHR ''}'' # rest))"
    using leads_returns[OF r(1) ret] by blast
  have "v' \<noteq> emptyd hdr0" using r(4) assms(2) by (auto simp: with_kids_def)
  then have "parse_loop ih K 0 L (unset hdr0) [] body = Some (Ok (True, v', [], CHR ''}'' # rest))"
    using loop_unset[OF L(2) K] by simp
  then have "parse_loop ih (Suc K) 0 (locals0 PSTATE_BEGINNING) var_alloc [] (CHR ''{'' # body) = Some (Ok (True, v', [], CHR ''}'' # rest))"
    by (simp add: pstep_def step_waitkey_def locals0_def L_def var_alloc_def)
  from parse_result[OF this] show ?thesis using r(3,4) by (auto simp: body_def ctx_def with_kids_def)
qed

text \<open>
  C32: Reading back what \<^verbatim>\<open>var_write\<close> wrote gives the same values: for every dictionary with at
  least one member, nested at most eight deep, that holds integers, strings, arrays and
  dictionaries with names of at most 127 characters without newlines, the text is accepted and the
  new node stands for the same JSON value. (Reals are rounded to six decimals and unset nodes
  come back as empty strings; a name with a newline loses it.)
\<close>

theorem write_parse_roundtrip:
  assumes "is_dict v" "writable 8 (json_of v)" "kids_of v \<noteq> []"
  shows "\<exists>v' rest. var_parse_json ih var_alloc (snd (var_write v)) = Some (Ok (True, v', [], rest)) \<and>
    var_ok ih 0 v' \<and> json_of v' = json_of v"
proof -
  obtain h ks ct cp cn where v: "v = Var h (VDict (VLink ks ct cp cn))" using assms(1) by (cases v) (auto simp: is_dict_vv)
  have "kids_ok True 7 (JDict []) ks" using assms(2) by (auto simp: v kids_ok_def comp_def)
  moreover have "snd (var_write v) = ''{'' @ newline @ write_kids 4 True ks @ CHR ''}'' # newline"
    using assms(1) by (simp add: v var_write_def var_write_indented_def kids_of_def)
  moreover have "ks \<noteq> []" using assms(3) by (simp add: v kids_of_def)
  moreover have "json_of v = JDict (map (\<lambda>c. (var_id c, json_of c)) ks)" by (simp add: v)
  ultimately show ?thesis using parse_members[of ks ih newline] by auto
qed

definition sample_var :: var where
  "sample_var = Var hdr0 (VDict (VLink [
     Var (hdr0\<lparr>v_id := ''status''\<rparr>) (VStr ''a \"b\"''),
     Var (hdr0\<lparr>v_id := ''count''\<rparr>) (VInt 42),
     Var (hdr0\<lparr>v_id := ''list''\<rparr>) (VArray (VLink [Var hdr0 (VInt 1), Var hdr0 (VDict (VLink [Var (hdr0\<lparr>v_id := ''x''\<rparr>) (VStr '''')] 1 (-1) None))] 2 (-1) None))]
     3 (-1) None))"

lemma write_parse_roundtrip_witness:
  "\<exists>v' rest. var_parse_json 0 var_alloc (snd (var_write sample_var)) = Some (Ok (True, v', [], rest)) \<and>
    var_ok 0 0 v' \<and> json_of v' = json_of sample_var"
proof (rule write_parse_roundtrip)
  show "is_dict sample_var" "kids_of sample_var \<noteq> []" by (simp_all add: sample_var_def is_dict_def kids_of_def)
  show "writable 8 (json_of sample_var)"
    by (simp add: sample_var_def hdr0_def text_ok_def name_ok_def key_ok_def cstr_def)
qed

end
