(* ===== verification/React.thy ===== *)
theory React
  imports VarTyped VarLaws VarRound
begin

text \<open>
  \<^verbatim>\<open>libopticon/react.c\<close>: the tree of configuration paths with the reactions registered for them,
  and the walk over a configuration that calls them. A reaction is a value of the type \<open>'f\<close>; the
  walk returns the calls it makes; what a reaction itself does to the configuration is not part of it. The walk also moves the lookup caches of the configuration.
\<close>

datatype 'f pathnode = PathNode (idmatch: string) (reactions: "'f list") (paths: "'f pathnode list")

definition pathnode_alloc :: "'f pathnode" where
  "pathnode_alloc = PathNode '''' [] []"

definition pathnode_add_reaction :: "'f pathnode \<Rightarrow> 'f \<Rightarrow> 'f pathnode" where
  "pathnode_add_reaction self f = PathNode (idmatch self) (reactions self @ [f]) (paths self)"

definition pathnode_find_match :: "'f pathnode \<Rightarrow> string \<Rightarrow> 'f pathnode option" where
  "pathnode_find_match self ident = List.find (\<lambda>res. idmatch res = ''*'' \<or> idmatch res = ident) (paths self)"

text \<open>The node with a match string and its position, made if there is none.\<close>

definition pathnode_get_idmatch :: "'f pathnode \<Rightarrow> string \<Rightarrow> 'f pathnode \<times> nat" where
  "pathnode_get_idmatch self ident =
     (case find_index (\<lambda>res. idmatch res = ident) (paths self) of
        Some i \<Rightarrow> (self, i)
      | None \<Rightarrow> (PathNode (idmatch self) (reactions self) (paths self @ [PathNode (c_truncate 127 ident) [] []]), length (paths self)))"

text \<open>\<^verbatim>\<open>strsep\<close> with a slash until the text is used up.\<close>

fun strsep_all :: "string \<Rightarrow> string list" where
  "strsep_all [] = [[]]"
| "strsep_all (c # cs) =
     (if c = CHR ''/'' then [] # strsep_all cs
      else case strsep_all cs of [] \<Rightarrow> [[c]] | t # ts \<Rightarrow> (c # t) # ts)"

fun add_reaction_at :: "string list \<Rightarrow> 'f \<Rightarrow> 'f pathnode \<Rightarrow> 'f pathnode" where
  "add_reaction_at [] f t = pathnode_add_reaction t f"
| "add_reaction_at (token # ts) f t =
     (case pathnode_get_idmatch t token of (t, i) \<Rightarrow>
        PathNode (idmatch t) (reactions t) ((paths t)[i := add_reaction_at ts f (paths t ! i)]))"

definition opticonf_add_reaction :: "'f pathnode \<Rightarrow> string \<Rightarrow> 'f \<Rightarrow> 'f pathnode" where
  "opticonf_add_reaction base path f = add_reaction_at (strsep_all path) f base"

subsection \<open>Handling a configuration\<close>

datatype updatetype = UPDATE_NONE | UPDATE_ADD | UPDATE_CHANGE | UPDATE_REMOVE

type_synonym 'f call = "'f \<times> string \<times> var \<times> updatetype"

definition update_of :: "u32 \<Rightarrow> vhdr \<Rightarrow> updatetype" where
  "update_of gen h =
     (if v_gen h < gen then UPDATE_REMOVE
      else if v_lastmod h = gen then (if v_first h = gen then UPDATE_ADD else UPDATE_CHANGE)
      else UPDATE_NONE)"

definition react_calls :: "'f pathnode \<Rightarrow> u32 \<Rightarrow> var \<Rightarrow> 'f call list" where
  "react_calls pcrsr gen vcrsr =
     (let tp = update_of gen (hdr vcrsr) in
      if tp = UPDATE_NONE then [] else map (\<lambda>f. (f, var_id vcrsr, vcrsr, tp)) (reactions pcrsr))"

lemma find_match_mem: "pathnode_find_match self ident = Some p \<Longrightarrow> p \<in> set (paths self)"
  by (auto simp: pathnode_find_match_def find_Some_iff)

lemma find_match_size: "pathnode_find_match self ident = Some p \<Longrightarrow> size p < size self"
  using size_list_estimation'[OF find_match_mem order_refl, of self ident p size] by (cases self) simp

text \<open>The children from position \<open>i\<close> to the count \<open>c\<close>.\<close>

function (sequential) handle_from :: "'f pathnode \<Rightarrow> u32 \<Rightarrow> nat \<Rightarrow> nat \<Rightarrow> var \<Rightarrow> chain \<Rightarrow> (var \<times> 'f call list) res" where
  "handle_from path gen c i conf anc =
     (if c \<le> i then Ok (conf, [])
      else rbind (var_find_index conf (int i)) (\<lambda>(conf, r).
        case r of
          None \<Rightarrow> Fault NullDeref
        | Some k \<Rightarrow>
            let vcrsr = kids_of conf ! k in
            case pathnode_find_match path (var_id vcrsr) of
              None \<Rightarrow> handle_from path gen c (Suc i) conf anc
            | Some pcrsr \<Rightarrow>
                if is_array vcrsr \<or> is_dict vcrsr then
                  rbind (needs_gen (hdr vcrsr) (hdr conf # anc)) (\<lambda>g.
                  rbind (handle_from pcrsr g (nat (var_get_count vcrsr)) 0 vcrsr (hdr conf # anc)) (\<lambda>(vcrsr', sub).
                  rbind (handle_from path gen c (Suc i) (set_kids conf ((kids_of conf)[k := vcrsr'])) anc) (\<lambda>(conf, more).
                  Ok (conf, react_calls pcrsr gen vcrsr @ sub @ more))))
                else rbind (handle_from path gen c (Suc i) conf anc) (\<lambda>(conf, more).
                  Ok (conf, react_calls pcrsr gen vcrsr @ more))))"
  by pat_completeness auto

termination
  by (relation "measures [\<lambda>(path, gen, c, i, conf, anc). size path, \<lambda>(path, gen, c, i, conf, anc). c - i]") (auto dest: find_match_size)

declare handle_from.simps [simp del]

definition opticonf_handle :: "var \<Rightarrow> chain \<Rightarrow> 'f pathnode \<Rightarrow> (var \<times> 'f call list) res" where
  "opticonf_handle conf anc path =
     rbind (needs_gen (hdr conf) anc) (\<lambda>gen. handle_from path gen (nat (var_get_count conf)) 0 conf anc)"

definition opticonf_handle_config :: "'f pathnode \<Rightarrow> var \<Rightarrow> (var \<times> 'f call list) res" where
  "opticonf_handle_config base conf = opticonf_handle conf [] base"

subsection \<open>What is called\<close>

text \<open>
  The calls a configuration stands for: for each member in order, if a path matches, the
  reactions of the path and then those below it. (A count past the range of an \<^verbatim>\<open>int\<close> cuts the
  members off.)
\<close>

definition counted :: "'a list \<Rightarrow> 'a list" where
  "counted xs = take (nat (sint (of_nat (length xs) :: u32))) xs"

fun entries :: "json \<Rightarrow> (string \<times> json) list" where
  "entries (JDict ms) = ms"
| "entries (JArr xs) = map (Pair '''') xs"
| "entries _ = []"

function config_calls :: "'f pathnode \<Rightarrow> (string \<times> json) list \<Rightarrow> ('f \<times> string \<times> json) list" where
  "config_calls path [] = []"
| "config_calls path ((k, x) # ms) =
     (case pathnode_find_match path k of
        None \<Rightarrow> config_calls path ms
      | Some p \<Rightarrow> map (\<lambda>f. (f, k, x)) (reactions p) @ config_calls p (counted (entries x)) @ config_calls path ms)"
  by pat_completeness auto

termination
  by (relation "measures [\<lambda>(path, ms). size path, \<lambda>(path, ms). length ms]") (auto dest: find_match_size)

definition seen_calls :: "'f call list \<Rightarrow> ('f \<times> string \<times> json) list" where
  "seen_calls evs = map (\<lambda>(f, k, v, tp). (f, k, json_of v)) evs"

definition all_adds :: "'f call list \<Rightarrow> bool" where
  "all_adds evs \<longleftrightarrow> (\<forall>(f, k, v, tp)\<in>set evs. tp = UPDATE_ADD)"

lemma calls_append [simp]: "seen_calls (a @ b) = seen_calls a @ seen_calls b" "all_adds (a @ b) \<longleftrightarrow> all_adds a \<and> all_adds b"
  "seen_calls [] = []" "all_adds []"
  by (simp_all add: seen_calls_def all_adds_def ball_Un)

lemma typed_entries:
  assumes "typed g d v"
  shows "entries (json_of v) = map (\<lambda>c. (var_id c, json_of c)) (kids_of v)"
proof -
  obtain h x where v: "v = Var h x" by (cases v)
  show ?thesis
  proof (cases x)
    case (VDict l)
    then show ?thesis by (cases l) (simp add: v kids_of_def)
  next
    case (VArray l)
    then show ?thesis using assms by (cases l) (simp add: v kids_of_def)
  qed (simp_all add: v kids_of_def)
qed

lemma react_calls_add:
  assumes "hdr_ok g d (hdr c)"
  shows "seen_calls (react_calls p g c) = map (\<lambda>f. (f, var_id c, json_of c)) (reactions p)" "all_adds (react_calls p g c)"
  using assms by (auto simp: react_calls_def update_of_def hdr_ok_def seen_calls_def all_adds_def comp_def)

lemma sint_le_uint: "sint (w :: u32) \<le> uint w"
proof -
  have a: "sint w = signed_take_bit 31 (uint w)" by (simp add: sint_uint)
  have "- (2 ^ 31) \<le> (0 :: int)" by simp
  also have "0 \<le> uint w" by simp
  finally show ?thesis unfolding a signed_take_bit_int_less_eq_self_iff .
qed

lemma count_bound:
  assumes "kcount l = of_nat n"
  shows "nat (sint (kcount l)) \<le> unat (kcount l)" "unat (kcount l) \<le> n"
proof -
  show "nat (sint (kcount l)) \<le> unat (kcount l)" using nat_mono[OF sint_le_uint[of "kcount l"]] by (simp only: unat_eq_nat_uint)
  have "unat (kcount l) = n mod 2 ^ 32" by (simp only: assms unat_of_nat) simp
  then show "unat (kcount l) \<le> n" by simp
qed

lemma find_index_typed:
  assumes "typed g d v" "i < nat (var_get_count v)"
  shows "\<exists>v'. var_find_index v (int i) = Ok (v', Some i) \<and> typed g d v' \<and> hdr v' = hdr v \<and> kids_of v' = kids_of v \<and> i < length (kids_of v)
    \<and> json_of v' = json_of v \<and> var_get_count v' = var_get_count v"
proof -
  obtain l where l: "links (vv v) = Some l" using assms(2) by (auto simp: var_get_count_def split: option.splits)
  then have vl: "vv v = VDict l \<or> vv v = VArray l" by (rule links_vv)
  note t = typed_links[OF assms(1) vl]
  have n: "kcount l = of_nat (length (kids l))" using t(2) by (simp add: link_ok_def)
  have i: "i < unat (kcount l)" "i < length (kids l)" using assms(2) l count_bound[OF n] by (auto simp: var_get_count_def)
  have "int i < int (unat (kcount l))" using i(1) by linarith
  then have iu: "int i < uint (kcount l)" by simp
  show ?thesis
  proof (cases "cachepos l = int i")
    case True
    then have "cachenode l = Some i" using t(2) by (auto simp: link_ok_def)
    then show ?thesis using True l iu i(2) assms(1) t(4) by (auto simp: var_find_index_def Let_def)
  next
    case False
    obtain ks ct cp cn where ks: "l = VLink ks ct cp cn" by (cases l)
    have "var_find_index v (int i) = Ok (Var (hdr v) (relink (vv v) (VLink (kids l) (kcount l) (int i) (Some i))), Some i)"
      using cached_right[OF t(2) i(2)] False i(2) iu l by (auto simp: var_find_index_def Let_def)
    moreover have "typed g d (Var (hdr v) (relink (vv v) (VLink (kids l) (kcount l) (int i) (Some i)))) \<and>
        json_of (Var (hdr v) (relink (vv v) (VLink (kids l) (kcount l) (int i) (Some i)))) = json_of v"
      using vl assms(1) i(2) by (cases v) (auto simp: ks link_ok_def)
    moreover have "kids_of (Var (hdr v) (relink (vv v) (VLink (kids l) (kcount l) (int i) (Some i)))) = kids l"
      "var_get_count (Var (hdr v) (relink (vv v) (VLink (kids l) (kcount l) (int i) (Some i)))) = var_get_count v"
      using vl by (auto simp: kids_of_def var_get_count_def)
    ultimately show ?thesis using t(4) i(2) by auto
  qed
qed

lemma count_of_typed:
  assumes "typed g d v"
  shows "counted (entries (json_of v)) = take (nat (var_get_count v)) (map (\<lambda>c. (var_id c, json_of c)) (kids_of v))"
proof (cases "links (vv v)")
  case None
  then have "kids_of v = []" by (simp add: kids_of_def)
  then show ?thesis using typed_entries[OF assms] by (simp add: counted_def)
next
  case (Some l)
  note t = typed_links[OF assms links_vv[OF Some]]
  have "kcount l = of_nat (length (kids_of v))" using t(2,4) by (simp add: link_ok_def)
  then show ?thesis using typed_entries[OF assms] Some by (simp add: counted_def var_get_count_def)
qed

lemma put_kid:
  assumes "typed g d v" "i < length (kids_of v)" "typed g (Suc d) c'" "hdr c' = hdr (kids_of v ! i)" "json_of c' = json_of (kids_of v ! i)"
  defines "v' \<equiv> set_kids v ((kids_of v)[i := c'])"
  shows "typed g d v'" "hdr v' = hdr v" "json_of v' = json_of v" "var_get_count v' = var_get_count v"
proof -
  obtain l where l: "vv v = VDict l \<or> vv v = VArray l" using assms(2) by (cases "vv v") (auto simp: kids_of_def)
  have lv: "leave (Kid i) v c' (hdr v # []) = (v', [])" using l by (auto simp: v'_def set_kids_def kids_of_def)
  show "typed g d v'" using leave_typed[OF assms(1) _ assms(3), of "Kid i" "[]"] assms(2,4) lv by (simp del: leave.simps)
  show "hdr v' = hdr v" by (cases "vv v") (auto simp: v'_def set_kids_def)
  show "var_get_count v' = var_get_count v" using l by (auto simp: v'_def set_kids_def var_get_count_def)
  obtain ks ct cp cn where ks: "l = VLink ks ct cp cn" by (cases l)
  have k: "kids_of v = ks" using typed_links(4)[OF assms(1) l] ks by simp
  have "map json_of (ks[i := c']) = map json_of ks" "map (\<lambda>c. (var_id c, json_of c)) (ks[i := c']) = map (\<lambda>c. (var_id c, json_of c)) ks"
    using assms(2,4,5) k by (simp_all add: map_update list_update_same_conv)
  moreover have "v' = set_kids v (ks[i := c'])" by (simp add: v'_def k)
  ultimately show "json_of v' = json_of v" using l by (cases v) (auto simp: ks set_kids_def)
qed

lemma handle_from_calls:
  "typed gen (length anc) conf \<Longrightarrow> chain_typed gen anc \<Longrightarrow> c = nat (var_get_count conf) \<Longrightarrow>
   \<exists>conf' evs. handle_from path gen c i conf anc = Ok (conf', evs) \<and> typed gen (length anc) conf' \<and> hdr conf' = hdr conf \<and>
     json_of conf' = json_of conf \<and> all_adds evs \<and> seen_calls evs = config_calls path (drop i (counted (entries (json_of conf))))"
proof (induction path gen c i conf anc rule: handle_from.induct)
  case (1 path gen c i conf anc)
  note ty = "1.prems"(1) and ch = "1.prems"(2) and c = "1.prems"(3)
  let ?E = "map (\<lambda>c. (var_id c, json_of c)) (kids_of conf)"
  have E: "counted (entries (json_of conf)) = take c ?E" using count_of_typed[OF ty] c by simp
  show ?case
  proof (cases "c \<le> i")
    case True
    then show ?thesis using ty E by (subst handle_from.simps) simp
  next
    case False
    obtain v1 where v1: "var_find_index conf (int i) = Ok (v1, Some i)" "typed gen (length anc) v1" "hdr v1 = hdr conf" "kids_of v1 = kids_of conf"
        "i < length (kids_of conf)" "json_of v1 = json_of conf" "c = nat (var_get_count v1)"
      using find_index_typed[OF ty, of i] False c by auto
    let ?k = "kids_of v1 ! i"
    have dropE: "drop i (take c ?E) = (var_id ?k, json_of ?k) # drop (Suc i) (take c ?E)"
      using False v1(4,5) by (simp add: Cons_nth_drop_Suc[symmetric])
    have kt: "typed gen (Suc (length anc)) ?k" using place_typed[OF v1(2), of "Kid i"] v1(4,5) by simp
    show ?thesis
    proof (cases "pathnode_find_match path (var_id ?k)")
      case None
      note ih = "1.IH"(1)[OF False refl None v1(2) ch v1(7)]
      obtain v2 evs where h: "handle_from path gen c (Suc i) v1 anc = Ok (v2, evs)" "typed gen (length anc) v2" "hdr v2 = hdr v1" "json_of v2 = json_of v1"
          "all_adds evs" "seen_calls evs = config_calls path (drop (Suc i) (counted (entries (json_of v1))))"
        using ih by blast
      have "handle_from path gen c i conf anc = Ok (v2, evs)"
        using False v1(1) None h(1) by (subst handle_from.simps) (simp add: Let_def)
      then show ?thesis using h v1(3,6) E dropE None by simp
    next
      case (Some p)
      have cg: "chain_typed gen (hdr v1 # anc)" using typed_hdr[OF v1(2)] ch by simp
      note rc = react_calls_add[OF typed_hdr[OF kt], of p]
      show ?thesis
      proof (cases "is_array ?k \<or> is_dict ?k")
        case True
        have kh: "hdr_ok gen (length (hdr v1 # anc)) (hdr ?k)" using typed_hdr[OF kt] by simp
        have kt': "typed gen (length (hdr v1 # anc)) ?k" using kt by simp
        obtain k2 sub where sub: "handle_from p gen (nat (var_get_count ?k)) 0 ?k (hdr v1 # anc) = Ok (k2, sub)" "typed gen (length (hdr v1 # anc)) k2"
            "hdr k2 = hdr ?k" "json_of k2 = json_of ?k" "all_adds sub" "seen_calls sub = config_calls p (drop 0 (counted (entries (json_of ?k))))"
          using "1.IH"(2)[OF False refl Some True kt' cg refl] by blast
        let ?v2 = "set_kids v1 ((kids_of v1)[i := k2])"
        have i1: "i < length (kids_of v1)" "typed gen (Suc (length anc)) k2" using v1(4,5) sub(2) by simp_all
        note pk = put_kid[OF v1(2) i1 sub(3,4)]
        have c2: "c = nat (var_get_count ?v2)" using pk(4) v1(7) by simp
        obtain v3 evs where h: "handle_from path gen c (Suc i) ?v2 anc = Ok (v3, evs)" "typed gen (length anc) v3" "hdr v3 = hdr ?v2" "json_of v3 = json_of ?v2"
            "all_adds evs" "seen_calls evs = config_calls path (drop (Suc i) (counted (entries (json_of ?v2))))"
          using "1.IH"(3)[OF False refl Some True pk(1) ch c2] by blast
        have "handle_from path gen c i conf anc = Ok (v3, react_calls p gen ?k @ sub @ evs)"
          using False v1(1) Some True chain_needs[OF kh cg] sub(1) h(1) by (subst handle_from.simps) (simp add: Let_def)
        then show ?thesis using h sub(5,6) pk v1(3,6) E dropE Some rc by simp
      next
        case nc: False
        obtain v2 evs where h: "handle_from path gen c (Suc i) v1 anc = Ok (v2, evs)" "typed gen (length anc) v2" "hdr v2 = hdr v1" "json_of v2 = json_of v1"
            "all_adds evs" "seen_calls evs = config_calls path (drop (Suc i) (counted (entries (json_of v1))))"
          using "1.IH"(4)[OF False refl Some nc v1(2) ch v1(7)] by blast
        have "handle_from path gen c i conf anc = Ok (v2, react_calls p gen ?k @ evs)"
          using False v1(1) Some nc h(1) by (subst handle_from.simps) (simp add: Let_def)
        moreover have "entries (json_of ?k) = []" using typed_entries[OF kt] nc by (cases "vv ?k") (auto simp: kids_of_def is_array_def is_dict_def)
        ultimately show ?thesis using h v1(3,6) E dropE Some rc by (simp add: counted_def)
      qed
    qed
  qed
qed


definition sample_base :: "nat pathnode" where
  "sample_base = opticonf_add_reaction (opticonf_add_reaction pathnode_alloc ''status'' 1) ''list/*'' 2"


end
