(* ===== verification/CollectorConf.thy ===== *)
theory CollectorConf
  imports Collector VarProps React
begin

text \<open>
  The configuration side of \<^verbatim>\<open>opticon-collector/main.c\<close> and \<^verbatim>\<open>graphlist_make\<close> of
  \<^verbatim>\<open>libopticon/watchlist.c\<close>: how meter definitions become watch lists, summary definitions
  become summaries, and the metadata of a host becomes adjustments and graphs; and
  \<^verbatim>\<open>resolve_tenantkey\<close>, which does this for a tenant with each of its authentication packets.

  A \<^verbatim>\<open>var *\<close> that may be NULL is an option. The nodes that lookups create are kept in the
  trees; the hash codes that the plain getters fill in are not (a code is 0 or right, and
  nothing but the search reads it). An infinite weight, which no text gives, is taken as the
  largest double.
\<close>

subsection \<open>Reading a definition\<close>

definition dbl_max :: rat where
  "dbl_max = (2 - 2 powi (- 52)) * 2 ^ 1023"

primrec dbl_rat :: "dbl \<Rightarrow> rat" where
  "dbl_rat (Fin r) = r"
| "dbl_rat Inf = dbl_max"

text \<open>
  \<^verbatim>\<open>memcmp (s, t, 3) == 0\<close> for a three letter \<open>t\<close>: it may read three bytes, of a text that has
  one byte more than its length.
\<close>

definition memcmp3 :: "string \<Rightarrow> string \<Rightarrow> bool res" where
  "memcmp3 s t = (if length s < 2 then Fault OutOfBounds else Ok (take 3 s = t))"

text \<open>The children of a node, as \<^verbatim>\<open>value.arr.first\<close> gives them.\<close>

definition walk :: "var \<Rightarrow> var list res" where
  "walk v = (case vv v of VNull \<Rightarrow> Ok [] | x \<Rightarrow> (case links x of Some l \<Rightarrow> Ok (kids l) | None \<Rightarrow> Fault TypePun))"

definition count_of :: "var option \<Rightarrow> int res" where
  "count_of v = (case v of None \<Rightarrow> Fault NullDeref | Some v \<Rightarrow> Ok (var_get_count v))"

text \<open>A dictionary for a key, by its value; a NULL node gives an empty one that belongs to nothing.\<close>

definition dict_in :: "u32 \<Rightarrow> var option \<Rightarrow> chain \<Rightarrow> string \<Rightarrow> (var option \<times> var option) res" where
  "dict_in ih v anc key = (case v of
      None \<Rightarrow> Ok (None, Some (Var hdr0 (VDict no_kids)))
    | Some v \<Rightarrow> rbind (var_get_dict_forkey ih v anc key) (\<lambda>(v, p). Ok (Some v, map_option (place_var v) p)))"

subsection \<open>Watches\<close>

definition make_watcher ::
  "(dbl \<Rightarrow> u64) \<Rightarrow> u32 \<Rightarrow> watchlist \<Rightarrow> u64 \<Rightarrow> u64 \<Rightarrow> var \<Rightarrow> rat \<Rightarrow> watchtrigger \<Rightarrow> watchlist res" where
  "make_watcher cv ih w ident mtp v vweight tr =
     (let cmp = var_get_str_forkey ih v ''cmp'';
          weight = var_get_double_forkey ih v ''weight'';
          ival = var_get_int_forkey cv ih v ''val'';
          dval = var_get_double_forkey ih v ''val'';
          sval = var_get_str_forkey ih v ''val'';
          weight = (if dbl_less weight (Fin (rnd (1 / 100))) then 1 else dbl_rat weight);
          weight = rnd (weight * vweight)
      in case cmp of
           None \<Rightarrow> Fault NullDeref
         | Some cmp \<Rightarrow>
             if cmp = ''count'' then Ok (watchlist_add_uint w ident WATCH_COUNT ival weight tr)
             else if mtp = MTYPE_INT then
               (if cmp = ''lt'' then Ok (watchlist_add_uint w ident WATCH_UINT_LT ival weight tr)
                else if cmp = ''gt'' then Ok (watchlist_add_uint w ident WATCH_UINT_GT ival weight tr)
                else Ok w)
             else if mtp = MTYPE_FRAC then
               (if cmp = ''lt'' then Ok (watchlist_add_frac w ident WATCH_FRAC_LT dval weight tr)
                else if cmp = ''gt'' then Ok (watchlist_add_frac w ident WATCH_FRAC_GT dval weight tr)
                else Ok w)
             else if mtp = MTYPE_STR then
               (if cmp = ''eq'' then
                  (case sval of
                     None \<Rightarrow> Fault NullDeref
                   | Some sval \<Rightarrow> Ok (watchlist_add_str w ident WATCH_STR_MATCH sval weight tr))
                else Ok w)
             else Ok w)"

text \<open>The type of a meter from the text of its definition; None for a table or an unknown text.\<close>

definition watched_type :: "string \<Rightarrow> u64 option res" where
  "watched_type ty =
     rbind (memcmp3 ty ''int'') (\<lambda>b. if b then Ok (Some MTYPE_INT)
       else if ty = ''frac'' then Ok (Some MTYPE_FRAC)
       else rbind (memcmp3 ty ''str'') (\<lambda>b. Ok (if b then Some MTYPE_STR else None)))"

text \<open>A definition without a type takes that of the meter with its name in \<^verbatim>\<open>APP.watchdef\<close>.\<close>

definition defined_type :: "u32 \<Rightarrow> var option \<Rightarrow> var \<Rightarrow> (var option \<times> string option) res" where
  "defined_type ih watchdef mdef =
     (case var_get_str_forkey ih mdef ''type'' of
        Some ty \<Rightarrow> Ok (watchdef, Some ty)
      | None \<Rightarrow>
          rbind (dict_in ih watchdef [] (var_id mdef)) (\<lambda>(watchdef, v_fallback).
            Ok (watchdef, Option.bind v_fallback (\<lambda>v. var_get_str_forkey ih v ''type''))))"

definition level_watch ::
  "(dbl \<Rightarrow> u64) \<Rightarrow> u32 \<Rightarrow> u64 \<Rightarrow> u64 \<Rightarrow> rat \<Rightarrow> watchtrigger \<Rightarrow> var option \<Rightarrow> watchlist \<Rightarrow> watchlist res" where
  "level_watch cv ih ident tp bad tr level w =
     rbind (count_of level) (\<lambda>n. if n \<noteq> 0 then make_watcher cv ih w ident tp (the level) bad tr else Ok w)"

definition meter_watches ::
  "(dbl \<Rightarrow> u64) \<Rightarrow> u32 \<Rightarrow> var option \<Rightarrow> var \<Rightarrow> chain \<Rightarrow> watchlist \<Rightarrow> (watchlist \<times> var option \<times> var) res" where
  "meter_watches cv ih watchdef mdef anc w =
     rbind (var_get_dict_forkey ih mdef anc ''warning'') (\<lambda>(mdef, pw).
     rbind (var_get_dict_forkey ih mdef anc ''alert'') (\<lambda>(mdef, pa).
     rbind (var_get_dict_forkey ih mdef anc ''critical'') (\<lambda>(mdef, pc).
     rbind (defined_type ih watchdef mdef) (\<lambda>(watchdef, ty).
       if ty = None \<or> pw = None \<and> pa = None \<and> pc = None then Ok (w, watchdef, mdef)
       else rbind (watched_type (the ty)) (\<lambda>tp. case tp of
           None \<Rightarrow> Ok (w, watchdef, mdef)
         | Some tp \<Rightarrow>
             let ident = makeid (var_id mdef) tp; lv = map_option (place_var mdef) in
             rbind (level_watch cv ih ident tp 5 WATCH_WARN (lv pw) w) (\<lambda>w.
             rbind (level_watch cv ih ident tp 8 WATCH_ALERT (lv pa) w) (\<lambda>w.
             rbind (level_watch cv ih ident tp 12 WATCH_CRIT (lv pc) w) (\<lambda>w.
               Ok (w, watchdef, mdef)))))))))"

fun populate_loop ::
  "(dbl \<Rightarrow> u64) \<Rightarrow> u32 \<Rightarrow> var option \<Rightarrow> var list \<Rightarrow> chain \<Rightarrow> watchlist \<Rightarrow> (watchlist \<times> var option \<times> var list) res" where
  "populate_loop cv ih watchdef [] anc w = Ok (w, watchdef, [])"
| "populate_loop cv ih watchdef (mdef # ms) anc w =
     rbind (meter_watches cv ih watchdef mdef anc w) (\<lambda>(w, watchdef, mdef).
     rbind (populate_loop cv ih watchdef ms anc w) (\<lambda>(w, watchdef, ms). Ok (w, watchdef, mdef # ms)))"

definition watchlist_populate ::
  "(dbl \<Rightarrow> u64) \<Rightarrow> u32 \<Rightarrow> var option \<Rightarrow> var option \<Rightarrow> chain \<Rightarrow> watchlist \<Rightarrow> (watchlist \<times> var option \<times> var option) res" where
  "watchlist_populate cv ih watchdef v_meters anc w =
     (let w = watchlist_clear w in
      case v_meters of
        None \<Rightarrow> Ok (w, watchdef, None)
      | Some v \<Rightarrow>
          rbind (walk v) (\<lambda>ks.
          rbind (populate_loop cv ih watchdef ks (hdr v # anc) w) (\<lambda>(w, watchdef, ks).
            Ok (w, watchdef, Some (set_kids v ks)))))"

subsection \<open>Summaries and graphs\<close>

definition summary_type :: "string \<Rightarrow> u64 option" where
  "summary_type ty =
     (if take 3 ty = ''int'' then Some MTYPE_INT
      else if take 4 ty = ''frac'' then Some MTYPE_FRAC
      else if take 3 ty = ''str'' then Some MTYPE_STR
      else None)"

text \<open>The loop leaves off at the first definition that misses something.\<close>

fun summary_loop :: "u32 \<Rightarrow> var list \<Rightarrow> summaryinfo \<Rightarrow> summaryinfo" where
  "summary_loop ih [] info = info"
| "summary_loop ih (crsr # cs) info =
     (case (var_get_str_forkey ih crsr ''meter'', var_get_str_forkey ih crsr ''type'', var_get_str_forkey ih crsr ''func'') of
        (Some s_meterid, Some s_type, Some s_func) \<Rightarrow>
          (case summary_type s_type of
             None \<Rightarrow> info
           | Some mtype \<Rightarrow>
               let mid = makeid s_meterid mtype in
               if s_func = ''avg'' then summary_loop ih cs (summaryinfo_add_summary_avg info (var_id crsr) mid)
               else if s_func = ''total'' then summary_loop ih cs (summaryinfo_add_summary_total info (var_id crsr) mid)
               else if s_func = ''count'' then
                 (case var_get_str_forkey ih crsr ''match'' of
                    None \<Rightarrow> info
                  | Some s_match \<Rightarrow> summary_loop ih cs (summaryinfo_add_summary_count info (var_id crsr) mid s_match))
               else summary_loop ih cs info)
      | _ \<Rightarrow> info)"

definition summaryinfo_populate :: "u32 \<Rightarrow> summaryinfo \<Rightarrow> var option \<Rightarrow> summaryinfo res" where
  "summaryinfo_populate ih into v_summary =
     (case v_summary of
        None \<Rightarrow> Fault NullDeref
      | Some v \<Rightarrow> rbind (walk v) (\<lambda>ks. Ok (summary_loop ih ks (summaryinfo_clear into))))"

definition graph_add :: "u32 \<Rightarrow> var \<Rightarrow> graphlist \<Rightarrow> graphlist" where
  "graph_add ih crsr self = graphlist_add self (makeid (var_id crsr) MTYPE_INT)
     (var_get_str_forkey ih crsr ''graph'') (var_get_str_forkey ih crsr ''datum'') (var_get_str_forkey ih crsr ''title'')
     (var_get_str_forkey ih crsr ''unit'') (var_get_str_forkey ih crsr ''color'') (dbl_rat (var_get_double_forkey ih crsr ''max''))"

definition graphlist_make :: "u32 \<Rightarrow> graphlist \<Rightarrow> var option \<Rightarrow> graphlist res" where
  "graphlist_make ih self v_def =
     (case v_def of
        None \<Rightarrow> Fault NullDeref
      | Some v \<Rightarrow> rbind (walk v) (\<lambda>ks. Ok (foldl (\<lambda>self crsr. graph_add ih crsr self) (graphlist_clear self) ks)))"

subsection \<open>Host metadata\<close>

definition adjust_type :: "string \<Rightarrow> watchadjusttype res" where
  "adjust_type ty =
     rbind (memcmp3 ty ''int'') (\<lambda>b. if b then Ok WATCHADJUST_UINT
       else if ty = ''frac'' then Ok WATCHADJUST_FRAC
       else rbind (memcmp3 ty ''str'') (\<lambda>b. Ok (if b then WATCHADJUST_STR else WATCHADJUST_NONE)))"

text \<open>One level of an adjustment; the first slot is that of \<^verbatim>\<open>WATCH_NONE\<close>.\<close>

definition adjust_value :: "(dbl \<Rightarrow> u64) \<Rightarrow> u32 \<Rightarrow> watchadjusttype \<Rightarrow> var \<Rightarrow> adjustdata \<Rightarrow> adjustdata res" where
  "adjust_value cv ih atype v_level d =
     (case atype of
        WATCHADJUST_UINT \<Rightarrow> Ok (d\<lparr>ad_data := WU64 (var_get_int_forkey cv ih v_level ''val'')\<rparr>)
      | WATCHADJUST_FRAC \<Rightarrow> Ok (d\<lparr>ad_data := WFrac (var_get_double_forkey ih v_level ''val'')\<rparr>)
      | WATCHADJUST_STR \<Rightarrow>
          (case var_get_str_forkey ih v_level ''val'' of
             None \<Rightarrow> Fault NullDeref
           | Some s \<Rightarrow> Ok (d\<lparr>ad_data := WStr (c_truncate 127 s)\<rparr>))
      | WATCHADJUST_NONE \<Rightarrow> Ok (d\<lparr>ad_weight := 0\<rparr>))"

definition adjust_weight :: "u32 \<Rightarrow> watchadjusttype \<Rightarrow> var \<Rightarrow> adjustdata \<Rightarrow> adjustdata" where
  "adjust_weight ih atype v_level d =
     (if atype \<noteq> WATCHADJUST_NONE then
        (let v_weight = var_get_double_forkey ih v_level ''weight'' in
         d\<lparr>ad_weight := (if dbl_less v_weight (Fin (rnd (1 / 2000))) then 1 else dbl_rat v_weight)\<rparr>)
      else d)"

definition level_name :: "nat \<Rightarrow> string" where
  "level_name i = [''warning'', ''alert'', ''critical''] ! i"

fun adjust_levels :: "(dbl \<Rightarrow> u64) \<Rightarrow> u32 \<Rightarrow> watchadjusttype \<Rightarrow> var \<Rightarrow> nat list \<Rightarrow> watchadjust \<Rightarrow> watchadjust res" where
  "adjust_levels cv ih atype v_adjust [] adj = Ok adj"
| "adjust_levels cv ih atype v_adjust (i # is) adj =
     (case kid_forkey ih v_adjust (level_name i) of
        None \<Rightarrow> adjust_levels cv ih atype v_adjust is adj
      | Some v_level \<Rightarrow>
          if \<not> is_dict v_level then adjust_levels cv ih atype v_adjust is adj
          else rbind (adjust_value cv ih atype v_level (wa_adjust adj ! Suc i)) (\<lambda>d.
            adjust_levels cv ih atype v_adjust is
              (adj\<lparr>wa_adjust := (wa_adjust adj)[Suc i := adjust_weight ih atype v_level d]\<rparr>)))"

text \<open>An adjustment is changed in place; a definition without a type ends the loop.\<close>

fun adjust_loop :: "(dbl \<Rightarrow> u64) \<Rightarrow> u32 \<Rightarrow> var list \<Rightarrow> adjustlist \<Rightarrow> adjustlist res" where
  "adjust_loop cv ih [] adjs = Ok adjs"
| "adjust_loop cv ih (v_adjust # vs) adjs =
     (case var_get_str_forkey ih v_adjust ''type'' of
        None \<Rightarrow> Ok adjs
      | Some stype \<Rightarrow>
          rbind (adjust_type stype) (\<lambda>atype.
            let (adjs, k) = adjustlist_get adjs (makeid (var_id v_adjust) 0) in
            rbind (adjust_levels cv ih atype v_adjust [0, 1, 2] ((adjs ! k)\<lparr>wa_type := atype\<rparr>)) (\<lambda>adj.
              adjust_loop cv ih vs (adjs[k := adj]))))"

definition metadata_adjusts :: "(dbl \<Rightarrow> u64) \<Rightarrow> u32 \<Rightarrow> var option \<Rightarrow> adjustlist \<Rightarrow> adjustlist res" where
  "metadata_adjusts cv ih v_meter adjs =
     rbind (count_of v_meter) (\<lambda>adjcount.
       if adjcount \<noteq> 0 then rbind (walk (the v_meter)) (\<lambda>ks. adjust_loop cv ih ks adjs) else Ok adjs)"

definition metadata_graphs :: "u32 \<Rightarrow> var option \<Rightarrow> graphlist option \<Rightarrow> graphlist option res" where
  "metadata_graphs ih v_graph old =
     rbind (count_of v_graph) (\<lambda>graphcount.
       if graphcount \<noteq> 0 then rbind (graphlist_make ih graphlist_create v_graph) (\<lambda>new. Ok (Some new)) else Ok old)"

definition handle_host_metadata :: "(dbl \<Rightarrow> u64) \<Rightarrow> u32 \<Rightarrow> host \<Rightarrow> var option \<Rightarrow> host res" where
  "handle_host_metadata cv ih H meta =
     rbind (dict_in ih meta [] ''meter'') (\<lambda>(meta, v_meter).
     rbind (metadata_adjusts cv ih v_meter (h_adjust H)) (\<lambda>adjs.
     rbind (dict_in ih meta [] ''graph'') (\<lambda>(meta, v_graph).
     rbind (metadata_graphs ih v_graph (h_graphlist H)) (\<lambda>gl.
       Ok (H\<lparr>h_adjust := adjs, h_graphlist := gl\<rparr>)))))"

subsection \<open>Tenants\<close>

record app =
  a_conf :: var
  a_watch :: watchlist
  a_watchdef :: "var option"
  a_graphlist :: "graphlist option"
  a_listenport :: int
  a_listenaddr :: string
  a_world :: world

text \<open>Summaries of the configuration fill the gaps of a tenant's own.\<close>

fun fill_summary :: "u32 \<Rightarrow> var list \<Rightarrow> var \<Rightarrow> chain \<Rightarrow> (var \<times> chain) res" where
  "fill_summary ih [] v anc = Ok (v, anc)"
| "fill_summary ih (crsr # cs) v anc =
     rbind (var_get_dict_forkey ih v anc (var_id crsr)) (\<lambda>(v, summc). case summc of
         None \<Rightarrow> Fault NullDeref
       | Some p \<Rightarrow>
           if var_get_count (place_var v p) = 0
           then rbind (at_place p (\<lambda>s hs. var_copy ih crsr s hs) v anc) (\<lambda>(v, anc). fill_summary ih cs v anc)
           else fill_summary ih cs v anc)"

definition tenant_summary :: "u32 \<Rightarrow> var \<Rightarrow> var \<Rightarrow> summaryinfo \<Rightarrow> (var \<times> summaryinfo) res" where
  "tenant_summary ih conf meta summ =
     rbind (var_get_dict_forkey ih meta [] ''summary'') (\<lambda>(meta, p).
     rbind (count_of (map_option (place_var meta) p)) (\<lambda>n.
     rbind (dict_in ih (Some conf) [] ''summary'') (\<lambda>(conf, csum).
       case (p, csum) of
         (Some p, Some csum) \<Rightarrow>
           rbind (if n = 0 then var_copy ih csum (place_var meta p) [hdr meta]
                  else rbind (walk csum) (\<lambda>ks. fill_summary ih ks (place_var meta p) [hdr meta])) (\<lambda>(v_summary, _).
           rbind (summaryinfo_populate ih summ (Some v_summary)) (\<lambda>summ. Ok (the conf, summ)))
       | _ \<Rightarrow> Fault NullDeref)))"

text \<open>
  The metadata is the caller's own copy and freed at the end; what the database answers are
  \<open>db_open\<close> and \<open>db_meta\<close>. A tenant found is a tenant created when there was none, so the branch
  that calls \<^verbatim>\<open>tenant_create\<close> is never taken. None is the wait for the tenant's lock.
\<close>

definition tenant_watches ::
  "(dbl \<Rightarrow> u64) \<Rightarrow> u32 \<Rightarrow> var option \<Rightarrow> var \<Rightarrow> watchlist \<Rightarrow> (var \<times> var option \<times> watchlist) res" where
  "tenant_watches cv ih watchdef meta w =
     rbind (var_get_dict_forkey ih meta [] ''meter'') (\<lambda>(meta, p). case p of
         None \<Rightarrow> Ok (meta, watchdef, w)
       | Some p \<Rightarrow>
           rbind (watchlist_populate cv ih watchdef (Some (place_var meta p)) [hdr meta] w) (\<lambda>(w, watchdef, v).
             Ok (fst (leave p meta (the v) [hdr meta]), watchdef, w)))"

definition resolve_tenantkey ::
  "(dbl \<Rightarrow> u64) \<Rightarrow> u32 \<Rightarrow> aeskey \<Rightarrow> (uuid \<Rightarrow> bool) \<Rightarrow> (uuid \<Rightarrow> var option) \<Rightarrow> uuid \<Rightarrow> u32 \<Rightarrow> app \<Rightarrow>
     (app \<times> aeskey option) res option" where
  "resolve_tenantkey cv ih junk db_open db_meta tenantid serial app =
     (if \<not> db_open tenantid then Some (Ok (app, None))
      else case db_meta tenantid of
        None \<Rightarrow> Some (Ok (app, None))
      | Some meta \<Rightarrow>
          (case tenant_find tenantid TENANT_LOCK_WRITE (w_tenants (a_world app)) of
             None \<Rightarrow> None
           | Some (ts, k) \<Rightarrow>
               let b64 = var_get_str_forkey ih meta ''key'';
                   T = (case b64 of Some b64 \<Rightarrow> (ts ! k)\<lparr>t_key := aeskey_from_base64 junk b64\<rparr> | None \<Rightarrow> ts ! k)
               in Some (
                 rbind (tenant_watches cv ih (a_watchdef app) meta (t_watch T)) (\<lambda>(meta, watchdef, w).
                 rbind (tenant_summary ih (a_conf app) meta (t_summ T)) (\<lambda>(conf, summ).
                   Ok (app\<lparr>a_conf := conf, a_watchdef := watchdef,
                         a_world := (a_world app)\<lparr>w_tenants := tenant_done k (ts[k := T\<lparr>t_watch := w, t_summ := summ\<rparr>])\<rparr>\<rparr>,
                       if b64 = None then None else Some (t_key T))))))) "

subsection \<open>Configuration reactions\<close>

text \<open>
  The handlers that \<^verbatim>\<open>main\<close> registers, on the node they are called for. The result is the node
  with the members that were created in it, and what the handler returns. None of
  \<open>conf_network\<close> is \<^verbatim>\<open>exit (0)\<close>: the watchdog starts the program anew.
\<close>

definition conf_network ::
  "(dbl \<Rightarrow> u64) \<Rightarrow> u32 \<Rightarrow> var \<Rightarrow> updatetype \<Rightarrow> app \<Rightarrow> (app \<times> bool) res option" where
  "conf_network cv ih v tp app =
     (case tp of
        UPDATE_CHANGE \<Rightarrow> None
      | UPDATE_REMOVE \<Rightarrow> None
      | UPDATE_ADD \<Rightarrow>
          let port = signed_take_bit 31 (uint (var_get_int_forkey cv ih v ''port'')) in
          Some (case var_get_str_forkey ih v ''address'' of
              None \<Rightarrow> Fault NullDeref
            | Some addr \<Rightarrow> Ok (app\<lparr>a_listenport := port, a_listenaddr := (if addr = ''*'' then ''::'' else addr)\<rparr>, True))
      | UPDATE_NONE \<Rightarrow> Some (Ok (app, True)))"

definition conf_meters ::
  "(dbl \<Rightarrow> u64) \<Rightarrow> u32 \<Rightarrow> var \<Rightarrow> chain \<Rightarrow> updatetype \<Rightarrow> app \<Rightarrow> (var \<times> app \<times> bool) res" where
  "conf_meters cv ih v anc tp app =
     (if tp = UPDATE_REMOVE then Ok (v, app, False)
      else rbind (watchlist_populate cv ih (a_watchdef app) (Some v) anc (a_watch app)) (\<lambda>(w, watchdef, v).
        Ok (the v, app\<lparr>a_watch := w, a_watchdef := Some (var_clone ih (the v))\<rparr>, True)))"

definition conf_graph :: "u32 \<Rightarrow> var \<Rightarrow> updatetype \<Rightarrow> app \<Rightarrow> (app \<times> bool) res" where
  "conf_graph ih v tp app =
     (if tp = UPDATE_REMOVE then Ok (app, False)
      else rbind (graphlist_make ih graphlist_create (Some v)) (\<lambda>gl. Ok (app\<lparr>a_graphlist := Some gl\<rparr>, True)))"

subsection \<open>The main loop\<close>

text \<open>
  What the main loop does with the packet of a queue slot: it looks at the first four bytes of
  the slot's buffer, whatever the size of the packet, and then clears the first.
\<close>

datatype pktkind = AuthPkt | MeterPkt | OtherPkt

definition packet_kind :: "bytes \<Rightarrow> pktkind" where
  "packet_kind pkt =
     (if pkt ! 0 = 0x6f \<and> pkt ! 1 = 0x36 then
        (if pkt ! 2 = 0x61 \<and> pkt ! 3 = 0x31 then AuthPkt
         else if pkt ! 2 = 0x6d \<and> pkt ! 3 = 0x31 then MeterPkt
         else OtherPkt)
      else OtherPkt)"

definition packet_done :: "bytes \<Rightarrow> bytes" where
  "packet_done pkt = pkt[0 := 0]"

end
