(* ===== verification/ConfProps.thy ===== *)
theory ConfProps
  imports CollectorConf
begin

text \<open>
  What the configuration of the collector means: the watches that a table of meter definitions
  stands for as a JSON value, and that \<^verbatim>\<open>watchlist_populate\<close> builds exactly these; what a
  definition must have for this, and what happens without; which key and watches a tenant has
  after \<^verbatim>\<open>resolve_tenantkey\<close>; which adjustments stay when host metadata changes.
\<close>

subsection \<open>Lookups on JSON values\<close>

definition jmember :: "string \<Rightarrow> json \<Rightarrow> json option" where
  "jmember k j = map_of (members j) k"

definition json_str :: "json \<Rightarrow> string option" where
  "json_str j = (case j of JStr s \<Rightarrow> Some s | _ \<Rightarrow> None)"

definition json_int :: "(dbl \<Rightarrow> u64) \<Rightarrow> json \<Rightarrow> u64" where
  "json_int cv j = (case j of JStr s \<Rightarrow> strtoull10 s | JDouble d \<Rightarrow> dbl_to_u64 cv d | JInt i \<Rightarrow> i | _ \<Rightarrow> 0)"

definition json_double :: "json \<Rightarrow> dbl" where
  "json_double j = (case j of JStr s \<Rightarrow> Fin (c_atof s) | JDouble d \<Rightarrow> d | JInt i \<Rightarrow> Fin (rnd (of_nat (unat i))) | _ \<Rightarrow> Fin 0)"

definition jstr :: "string \<Rightarrow> json \<Rightarrow> string option" where
  "jstr k j = Option.bind (jmember k j) json_str"

definition jint :: "(dbl \<Rightarrow> u64) \<Rightarrow> string \<Rightarrow> json \<Rightarrow> u64" where
  "jint cv k j = (case jmember k j of None \<Rightarrow> 0 | Some x \<Rightarrow> json_int cv x)"

definition jdouble :: "string \<Rightarrow> json \<Rightarrow> dbl" where
  "jdouble k j = (case jmember k j of None \<Rightarrow> Fin 0 | Some x \<Rightarrow> json_double x)"

lemma jmember_empty [simp]: "jmember k (JDict []) = None"
  by (simp add: jmember_def)

lemma scalar_getters:
  "var_get_str c = json_str (json_of c)" "var_get_int cv c = json_int cv (json_of c)" "var_get_double c = json_double (json_of c)"
  by (cases c rule: json_of.cases; simp add: var_get_str_def var_get_int_def var_get_double_def json_str_def json_int_def json_double_def)+

lemma map_of_find: "map_of (map (\<lambda>c. (f c, g c)) xs) k = map_option (\<lambda>i. g (xs ! i)) (find_index (\<lambda>c. f c = k) xs)"
  by (induction xs) (auto simp: option.map_comp comp_def)

lemma jmember_kid:
  assumes "is_dict v"
  shows "jmember k (json_of v) = map_option (\<lambda>i. json_of (kids_of v ! i)) (find_index (\<lambda>c. var_id c = k) (kids_of v))"
  by (simp add: jmember_def members_kids[OF assms] map_of_find)

lemma jmember_at:
  assumes "var_ok ih d v" "is_dict v" "i < length (kids_of v)"
  shows "jmember (var_id (kids_of v ! i)) (json_of v) = Some (json_of (kids_of v ! i))"
proof -
  have "distinct (map var_id (kids_of v))" using var_ok_dict[OF assms(1,2)] by blast
  then have "find_index (\<lambda>c. var_id c = var_id (kids_of v ! i)) (kids_of v) = Some i"
    using assms(3) nth_eq_iff_index_eq[of "map var_id (kids_of v)"] by (fastforce simp: find_index_Some)
  then show ?thesis by (simp add: jmember_kid[OF assms(2)])
qed

lemma kid_forkey_json:
  assumes "var_ok ih d v" "is_dict v"
  shows "map_option json_of (kid_forkey ih v k) = jmember k (json_of v)"
proof -
  obtain v' r where f: "var_find_key ih v k = (v', r)" by fastforce
  note fk = find_key_dict[OF assms f]
  have "members (json_of v') ! i = (var_id (kids_of v' ! i), json_of (kids_of v' ! i))" if "i < length (kids_of v')" for i
    using that members_kids[OF fk(3)] by simp
  moreover have "members (json_of v) ! i = (var_id (kids_of v ! i), json_of (kids_of v ! i))" if "i < length (kids_of v)" for i
    using that members_kids[OF assms(2)] by simp
  ultimately have "json_of (kids_of v' ! i) = json_of (kids_of v ! i)" if "i < length (kids_of v)" for i
    using that fk(5,7) by simp
  then show ?thesis using fk(1) f jmember_kid[OF assms(2), of k]
    by (cases "find_index (\<lambda>c. var_id c = k) (kids_of v)") (simp_all add: kid_forkey_def find_index_Some)
qed

lemma getters_json:
  assumes "var_ok ih d v" "is_dict v"
  shows "var_get_str_forkey ih v k = jstr k (json_of v)" "var_get_int_forkey cv ih v k = jint cv k (json_of v)"
    "var_get_double_forkey ih v k = jdouble k (json_of v)"
  unfolding kid_forkey_json[OF assms, of k, symmetric] jstr_def jint_def jdouble_def
  by (auto simp: var_get_str_forkey_def var_get_int_forkey_def var_get_double_forkey_def
      scalar_getters split: option.split)

text \<open>A dictionary for a key: the member when it is one, a new empty one when there is none.\<close>

definition with_dict :: "string \<Rightarrow> json \<Rightarrow> json" where
  "with_dict k j = (if jmember k j = None then JDict (members j @ [(k, JDict [])]) else j)"

definition json_dictp :: "json \<Rightarrow> bool" where
  "json_dictp j \<longleftrightarrow> (case j of JDict _ \<Rightarrow> True | _ \<Rightarrow> False)"

lemma json_dictp_var: "json_dictp (json_of v) = is_dict v"
  by (cases v rule: json_of.cases) (auto simp: json_dictp_def is_dict_def)

lemma with_dict_member:
  "jmember k' (with_dict k j) = (if k' = k \<and> jmember k j = None then Some (JDict []) else jmember k' j)"
  by (auto simp: with_dict_def jmember_def map_add_def split: option.splits)

lemma with_dict_nth: "i < length (members j) \<Longrightarrow> members (with_dict k j) ! i = members j ! i"
  by (simp add: with_dict_def nth_append)

lemma with_dict_length: "length (members j) \<le> length (members (with_dict k j))"
  by (simp add: with_dict_def)

lemma with_dict_ids: "map fst (members (with_dict k j)) = map fst (members j) @ (if jmember k j = None then [k] else [])"
  by (simp add: with_dict_def)

lemma get_dict_json:
  assumes "var_ok ih d v" "is_dict v" "key_ok k" "length anc = d" "chain_ok anc"
  shows "\<exists>v' p. var_get_dict_forkey ih v anc k = Ok (v', p) \<and> var_ok ih d v' \<and> is_dict v' \<and> hdr v' = hdr v \<and>
    json_of v' = with_dict k (json_of v) \<and>
    (case jmember k (json_of v') of
       Some j \<Rightarrow> (if json_dictp j then \<exists>i. p = Some (Kid i) \<and> i < length (kids_of v') \<and> var_id (kids_of v' ! i) = k else p = None)
     | None \<Rightarrow> False)"
proof -
  obtain v' i where f: "find_or_make ih v anc k (VDict no_kids) = Ok (v', Kid i)" "var_ok ih d v'" "is_dict v'" "hdr v' = hdr v"
      "i < length (kids_of v')" "find_index (\<lambda>c. var_id c = k) (kids_of v') = Some i"
      "case find_index (\<lambda>c. var_id c = k) (kids_of v) of
         Some j \<Rightarrow> i = j \<and> json_of v' = json_of v
       | None \<Rightarrow> json_of v' = JDict (members (json_of v) @ [(k, json_of (Var hdr0 (VDict no_kids)))]) \<and> i = length (kids_of v) \<and>
           vv (kids_of v' ! i) = VDict no_kids"
    using find_or_make_dict[OF assms leaf_ok_container(1)] by blast
  have j: "json_of v' = with_dict k (json_of v)"
    using f(7) by (auto simp: with_dict_def jmember_kid[OF assms(2)] split: option.splits)
  have m: "jmember k (json_of v') = Some (json_of (kids_of v' ! i))" using f(6) by (simp add: jmember_kid[OF f(3)])
  have "var_id (kids_of v' ! i) = k" using f(6) by (simp add: find_index_Some)
  then show ?thesis using f m j by (auto simp: var_get_dict_forkey_def json_dictp_var)
qed


subsection \<open>The watches a table of meters stands for\<close>

definition watch_kind :: "u64 \<Rightarrow> string \<Rightarrow> watchtype option" where
  "watch_kind tp cmp =
     (if cmp = ''count'' then Some WATCH_COUNT
      else if tp = MTYPE_INT then map_of [(''lt'', WATCH_UINT_LT), (''gt'', WATCH_UINT_GT)] cmp
      else if tp = MTYPE_FRAC then map_of [(''lt'', WATCH_FRAC_LT), (''gt'', WATCH_FRAC_GT)] cmp
      else if tp = MTYPE_STR then map_of [(''eq'', WATCH_STR_MATCH)] cmp
      else None)"

definition rule_value :: "(dbl \<Rightarrow> u64) \<Rightarrow> watchtype \<Rightarrow> json \<Rightarrow> watchdata" where
  "rule_value cv kind j =
     (case watch_adjtype kind of
        WATCHADJUST_UINT \<Rightarrow> WU64 (jint cv ''val'' j)
      | WATCHADJUST_FRAC \<Rightarrow> WFrac (jdouble ''val'' j)
      | _ \<Rightarrow> WStr (c_truncate 127 (the (jstr ''val'' j))))"

definition rule_weight :: "json \<Rightarrow> rat" where
  "rule_weight j = (let w = jdouble ''weight'' j in if dbl_less w (Fin (rnd (1 / 100))) then 1 else dbl_rat w)"

definition level_rule :: "(dbl \<Rightarrow> u64) \<Rightarrow> u64 \<Rightarrow> u64 \<Rightarrow> rat \<Rightarrow> watchtrigger \<Rightarrow> json option \<Rightarrow> meterwatch list" where
  "level_rule cv ident tp bad tr level =
     (case level of
        None \<Rightarrow> []
      | Some j \<Rightarrow>
          (case (if members j = [] then None else Option.bind (jstr ''cmp'' j) (watch_kind tp)) of
             None \<Rightarrow> []
           | Some kind \<Rightarrow> [\<lparr>mw_trigger = tr, mw_id = ident, mw_tp = kind, mw_dat = rule_value cv kind j,
               mw_badness = rnd (rule_weight j * bad)\<rparr>]))"

text \<open>A level needs a comparison, and one of strings needs a value that is a string.\<close>

definition level_fine :: "u64 \<Rightarrow> json option \<Rightarrow> bool" where
  "level_fine tp level =
     (case level of
        None \<Rightarrow> True
      | Some j \<Rightarrow> json_dictp j \<and> length (members j) < 2 ^ 32 \<and>
          (members j \<noteq> [] \<longrightarrow> (case jstr ''cmp'' j of
              None \<Rightarrow> False | Some c \<Rightarrow> watch_kind tp c = Some WATCH_STR_MATCH \<longrightarrow> jstr ''val'' j \<noteq> None)))"

definition rule_type :: "string \<Rightarrow> u64 option" where
  "rule_type ty =
     (if take 3 ty = ''int'' then Some MTYPE_INT else if ty = ''frac'' then Some MTYPE_FRAC
      else if take 3 ty = ''str'' then Some MTYPE_STR else None)"

definition type_text :: "(string \<Rightarrow> string option) \<Rightarrow> string \<Rightarrow> json \<Rightarrow> string option" where
  "type_text fb k j = (case jstr ''type'' j of Some ty \<Rightarrow> Some ty | None \<Rightarrow> fb k)"

definition meter_rules :: "(dbl \<Rightarrow> u64) \<Rightarrow> (string \<Rightarrow> string option) \<Rightarrow> string \<times> json \<Rightarrow> meterwatch list" where
  "meter_rules cv fb = (\<lambda>(k, j).
     case Option.bind (type_text fb k j) rule_type of
       None \<Rightarrow> []
     | Some tp \<Rightarrow> concat (map (\<lambda>(name, bad, tr). level_rule cv (makeid k tp) tp bad tr (jmember name j))
         [(''warning'', 5, WATCH_WARN), (''alert'', 8, WATCH_ALERT), (''critical'', 12, WATCH_CRIT)]))"

definition meter_fine :: "(string \<Rightarrow> string option) \<Rightarrow> string \<times> json \<Rightarrow> bool" where
  "meter_fine fb = (\<lambda>(k, j). json_dictp j \<and>
     (case type_text fb k j of
        None \<Rightarrow> True
      | Some ty \<Rightarrow> 2 \<le> length ty \<and>
          (case rule_type ty of None \<Rightarrow> True | Some tp \<Rightarrow> \<forall>name\<in>{''warning'', ''alert'', ''critical''}. level_fine tp (jmember name j))))"

text \<open>What the fallback definitions say, and that they are a tree of their own.\<close>

definition fallback :: "var option \<Rightarrow> string \<Rightarrow> string option" where
  "fallback watchdef k = Option.bind watchdef (\<lambda>wd. Option.bind (jmember k (json_of wd)) (jstr ''type''))"

definition fallback_ok :: "u32 \<Rightarrow> var option \<Rightarrow> bool" where
  "fallback_ok ih watchdef \<longleftrightarrow> (case watchdef of None \<Rightarrow> True | Some wd \<Rightarrow> var_ok ih 0 wd \<and> is_dict wd)"

subsection \<open>One meter\<close>

lemma mtypes_distinct: "MTYPE_INT \<noteq> MTYPE_FRAC" "MTYPE_INT \<noteq> MTYPE_STR" "MTYPE_FRAC \<noteq> MTYPE_STR"
  by (simp_all add: mask_defs)

lemma make_watcher_rule:
  assumes "var_ok ih d v" "is_dict v" "members (json_of v) \<noteq> []" "level_fine tp (Some (json_of v))"
  shows "make_watcher cv ih w ident tp v bad tr = Ok (w @ level_rule cv ident tp bad tr (Some (json_of v)))"
proof -
  note g = getters_json[OF assms(1,2)]
  obtain c where c: "jstr ''cmp'' (json_of v) = Some c" "watch_kind tp c = Some WATCH_STR_MATCH \<longrightarrow> jstr ''val'' (json_of v) \<noteq> None"
    using assms(3,4) by (auto simp: level_fine_def split: option.splits)
  have n: "members (json_of v) = [] \<longleftrightarrow> False" using assms(3) by simp
  show ?thesis using c mtypes_distinct
    by (auto simp: make_watcher_def level_rule_def g n watch_kind_def rule_value_def rule_weight_def Let_def
        watchlist_add_uint_def watchlist_add_frac_def watchlist_add_str_def watchlist_add_def split: option.split if_splits)
qed

lemma level_count:
  assumes "var_ok ih d v" "is_dict v" "length (members (json_of v)) < 2 ^ 32"
  shows "var_get_count v = 0 \<longleftrightarrow> members (json_of v) = []"
proof -
  obtain ct cp cn where v: "vv v = VDict (VLink (kids_of v) ct cp cn)" and l: "ct = of_nat (length (kids_of v))"
    using var_ok_dict[OF assms(1,2)] by (auto simp: link_ok_def)
  have "length (kids_of v) < 2 ^ 32" using assms(3) members_kids[OF assms(2)] by simp
  then have "unat ct = length (kids_of v)" using l by (simp add: unat_of_nat)
  then have "ct = 0 \<longleftrightarrow> kids_of v = []" using unat_eq_0[of ct] by simp
  moreover have "sint ct = 0 \<longleftrightarrow> ct = 0" by (metis signed_0 signed_word_eqI)
  ultimately show ?thesis using members_kids[OF assms(2)] by (simp add: var_get_count_def v)
qed

lemma level_watch_rule:
  assumes "var_ok ih d v" "is_dict v" "level_fine tp (Some (json_of v))"
  shows "level_watch cv ih ident tp bad tr (Some v) w = Ok (w @ level_rule cv ident tp bad tr (Some (json_of v)))"
proof -
  have "length (members (json_of v)) < 2 ^ 32" using assms(3) by (simp add: level_fine_def)
  note n = level_count[OF assms(1,2) this]
  show ?thesis
    using make_watcher_rule[OF assms(1,2) _ assms(3)] n by (auto simp: level_watch_def count_of_def level_rule_def)
qed

lemma fallback_with_dict:
  assumes "is_dict wd" "is_dict wd'" "json_of wd' = with_dict k (json_of wd)"
  shows "fallback (Some wd') = fallback (Some wd)"
  by (rule ext) (auto simp: fallback_def assms(3) with_dict_member jstr_def)

lemma defined_type_json:
  assumes "fallback_ok ih watchdef" "var_ok ih d mdef" "is_dict mdef" "key_ok (var_id mdef)"
  shows "\<exists>wd'. defined_type ih watchdef mdef = Ok (wd', type_text (fallback watchdef) (var_id mdef) (json_of mdef)) \<and>
    fallback_ok ih wd' \<and> fallback wd' = fallback watchdef"
proof (cases "jstr ''type'' (json_of mdef)")
  case (Some ty)
  then show ?thesis using assms by (auto simp: defined_type_def getters_json[OF assms(2,3)] type_text_def)
next
  case None
  note t = None
  let ?k = "var_id mdef"
  show ?thesis
  proof (cases watchdef)
    case None
    have "var_get_str_forkey ih (Var hdr0 (VDict no_kids)) ''type'' = None"
      by (simp add: var_get_str_forkey_def kid_forkey_def var_find_key_def no_kids_def set_kids_def)
    then show ?thesis using t None
      by (auto simp: defined_type_def getters_json[OF assms(2,3)] type_text_def dict_in_def fallback_def fallback_ok_def)
  next
    case (Some wd)
    then have wd: "var_ok ih 0 wd" "is_dict wd" using assms(1) by (simp_all add: fallback_ok_def)
    obtain wd' p where g: "var_get_dict_forkey ih wd [] ?k = Ok (wd', p)" "var_ok ih 0 wd'" "is_dict wd'"
        "json_of wd' = with_dict ?k (json_of wd)"
        "case jmember ?k (json_of wd') of
           Some j \<Rightarrow> (if json_dictp j then \<exists>i. p = Some (Kid i) \<and> i < length (kids_of wd') \<and> var_id (kids_of wd' ! i) = ?k else p = None)
         | None \<Rightarrow> False"
      using get_dict_json[OF wd assms(4), of "[]"] by auto
    note fb = fallback_with_dict[OF wd(2) g(3,4)]
    obtain j where j: "jmember ?k (json_of wd') = Some j" using g(5) by (auto split: option.splits)
    have "Option.bind (map_option (place_var wd') p) (\<lambda>v. var_get_str_forkey ih v ''type'') = fallback (Some wd') ?k"
    proof (cases "json_dictp j")
      case True
      then obtain i where i: "p = Some (Kid i)" "i < length (kids_of wd')" "var_id (kids_of wd' ! i) = ?k"
        using g(5) j by auto
      have jk: "json_of (kids_of wd' ! i) = j" using jmember_at[OF g(2,3) i(2)] i(3) j by simp
      then have "is_dict (kids_of wd' ! i)" using True json_dictp_var by metis
      from getters_json(1)[OF kid_ok[OF g(2) i(2)] this] show ?thesis using i(1) j jk by (simp add: fallback_def)
    next
      case False
      then have "p = None" "jstr ''type'' j = None" using g(5) j by (auto simp: jstr_def jmember_def json_dictp_def split: json.splits)
      then show ?thesis using j by (simp add: fallback_def)
    qed
    then show ?thesis using t Some g(1-3) fb
      by (auto simp: defined_type_def getters_json[OF assms(2,3)] type_text_def dict_in_def fallback_ok_def)
  qed
qed

text \<open>The three levels of a meter, made where they are missing.\<close>

definition with_levels :: "json \<Rightarrow> json" where
  "with_levels j = with_dict ''critical'' (with_dict ''alert'' (with_dict ''warning'' j))"

lemma level_keys: "key_ok ''warning''" "key_ok ''alert''" "key_ok ''critical''"
  by (simp_all add: key_ok_def cstr_def)

lemma with_three:
  assumes "a \<noteq> b" "a \<noteq> c" "b \<noteq> c"
  shows "jmember k (with_dict c (with_dict b (with_dict a j))) =
    (if k \<in> {a, b, c} \<and> jmember k j = None then Some (JDict []) else jmember k j)"
  using assms by (auto simp: with_dict_member)

lemma with_levels_member:
  "jmember k (with_levels j) =
     (if k \<in> {''warning'', ''alert'', ''critical''} \<and> jmember k j = None then Some (JDict []) else jmember k j)"
  unfolding with_levels_def by (rule with_three) simp_all

lemma with_levels_dict: "json_dictp j \<Longrightarrow> json_dictp (with_levels j)"
  by (simp add: with_levels_def with_dict_def json_dictp_def)

lemma level_rule_made: "level_rule cv ident tp bad tr (if jmember k j = None then Some (JDict []) else jmember k j) =
    level_rule cv ident tp bad tr (jmember k j)"
  by (simp add: level_rule_def)

text \<open>A place keeps the member it leads to while other members are added.\<close>

definition leads_to :: "var \<Rightarrow> string \<Rightarrow> place option \<Rightarrow> bool" where
  "leads_to v k p \<longleftrightarrow> (case jmember k (json_of v) of
     Some j \<Rightarrow> (if json_dictp j then \<exists>i. p = Some (Kid i) \<and> i < length (kids_of v) \<and> var_id (kids_of v ! i) = k else p = None)
   | None \<Rightarrow> False)"

lemma leads_to_later:
  assumes "leads_to v k p" "is_dict v" "is_dict v'" "json_of v' = with_dict k' (json_of v)"
  shows "leads_to v' k p"
proof -
  have n: "i < length (kids_of v') \<and> var_id (kids_of v' ! i) = var_id (kids_of v ! i)" if "i < length (kids_of v)" for i
  proof -
    have i: "i < length (members (json_of v))" using that members_kids[OF assms(2)] by simp
    then have i': "i < length (members (json_of v'))" using with_dict_length[of "json_of v" k'] assms(4) by simp
    have "members (json_of v') ! i = members (json_of v) ! i" using with_dict_nth[OF i] assms(4) by simp
    then show ?thesis using i i' members_kids[OF assms(2)] members_kids[OF assms(3)] by simp
  qed
  obtain j where j: "jmember k (json_of v) = Some j" using assms(1) by (auto simp: leads_to_def split: option.splits)
  then have "jmember k (json_of v') = Some j" by (auto simp: assms(4) with_dict_member)
  then show ?thesis using assms(1) j n by (auto simp: leads_to_def split: if_splits)
qed

lemma get_level:
  assumes "var_ok ih d v" "is_dict v" "key_ok k" "length anc = d" "chain_ok anc"
  obtains v' p where "var_get_dict_forkey ih v anc k = Ok (v', p)" "var_ok ih d v'" "is_dict v'" "hdr v' = hdr v"
    "json_of v' = with_dict k (json_of v)" "leads_to v' k p"
  using get_dict_json[OF assms] unfolding leads_to_def by blast

lemma led_level:
  assumes "leads_to v k p" "var_ok ih d v" "is_dict v" "level_fine tp (jmember k (json_of v))"
  shows "level_watch cv ih ident tp bad tr (map_option (place_var v) p) w =
    Ok (w @ level_rule cv ident tp bad tr (jmember k (json_of v)))"
proof -
  obtain j where j: "jmember k (json_of v) = Some j" using assms(1) by (auto simp: leads_to_def split: option.splits)
  have dj: "json_dictp j" using assms(4) j by (simp add: level_fine_def)
  then obtain i where i: "p = Some (Kid i)" "i < length (kids_of v)" "var_id (kids_of v ! i) = k"
    using assms(1) j by (auto simp: leads_to_def)
  have jk: "json_of (kids_of v ! i) = j" using jmember_at[OF assms(2,3) i(2)] i(3) j by simp
  have "is_dict (kids_of v ! i)" using dj jk json_dictp_var by metis
  from level_watch_rule[OF kid_ok[OF assms(2) i(2)] this, of tp] show ?thesis using i(1) jk j assms(4) by simp
qed

lemma watched_type_rule: "2 \<le> length ty \<Longrightarrow> watched_type ty = Ok (rule_type ty)"
  by (simp add: watched_type_def memcmp3_def rule_type_def)

lemma get_levels:
  assumes "var_ok ih d mdef" "is_dict mdef" "length anc = d" "chain_ok anc"
  obtains m1 m2 m3 pw pa pc where
    "var_get_dict_forkey ih mdef anc ''warning'' = Ok (m1, pw)" "var_get_dict_forkey ih m1 anc ''alert'' = Ok (m2, pa)"
    "var_get_dict_forkey ih m2 anc ''critical'' = Ok (m3, pc)"
    "var_ok ih d m3" "is_dict m3" "hdr m3 = hdr mdef" "json_of m3 = with_levels (json_of mdef)"
    "leads_to m3 ''warning'' pw" "leads_to m3 ''alert'' pa" "leads_to m3 ''critical'' pc"
proof -
  obtain m1 pw where w: "var_get_dict_forkey ih mdef anc ''warning'' = Ok (m1, pw)" "var_ok ih d m1" "is_dict m1" "hdr m1 = hdr mdef"
      "json_of m1 = with_dict ''warning'' (json_of mdef)" "leads_to m1 ''warning'' pw"
    using get_level[OF assms(1,2) level_keys(1) assms(3,4)] by blast
  obtain m2 pa where a: "var_get_dict_forkey ih m1 anc ''alert'' = Ok (m2, pa)" "var_ok ih d m2" "is_dict m2" "hdr m2 = hdr m1"
      "json_of m2 = with_dict ''alert'' (json_of m1)" "leads_to m2 ''alert'' pa"
    using get_level[OF w(2,3) level_keys(2) assms(3,4)] by blast
  obtain m3 pc where c: "var_get_dict_forkey ih m2 anc ''critical'' = Ok (m3, pc)" "var_ok ih d m3" "is_dict m3" "hdr m3 = hdr m2"
      "json_of m3 = with_dict ''critical'' (json_of m2)" "leads_to m3 ''critical'' pc"
    using get_level[OF a(2,3) level_keys(3) assms(3,4)] by blast
  have j3: "json_of m3 = with_levels (json_of mdef)" by (simp add: with_levels_def w(5) a(5) c(5))
  have pw: "leads_to m3 ''warning'' pw"
    by (rule leads_to_later[OF leads_to_later[OF w(6,3) a(3,5)] a(3) c(3,5)])
  have pa: "leads_to m3 ''alert'' pa" by (rule leads_to_later[OF a(6,3) c(3,5)])
  show thesis using that[OF w(1) a(1) c(1-3) _ j3 pw pa c(6)] w(4) a(4) c(4) by simp
qed

text \<open>The type text of a meter does not depend on its levels.\<close>

lemma levels_type:
  "type_text fb k (with_levels j) = type_text fb k j"
  by (simp add: type_text_def jstr_def with_levels_member)

lemma meter_watches_rules:
  assumes "fallback_ok ih watchdef" "var_ok ih d mdef" "is_dict mdef" "key_ok (var_id mdef)" "length anc = d" "chain_ok anc"
    "meter_fine (fallback watchdef) (var_id mdef, json_of mdef)"
  shows "\<exists>wd' mdef'. meter_watches cv ih watchdef mdef anc w =
      Ok (w @ meter_rules cv (fallback watchdef) (var_id mdef, json_of mdef), wd', mdef') \<and>
    fallback_ok ih wd' \<and> fallback wd' = fallback watchdef \<and>
    var_ok ih d mdef' \<and> hdr mdef' = hdr mdef \<and> json_of mdef' = with_levels (json_of mdef)"
proof -
  obtain m1 m2 m3 pw pa pc where g: "var_get_dict_forkey ih mdef anc ''warning'' = Ok (m1, pw)"
      "var_get_dict_forkey ih m1 anc ''alert'' = Ok (m2, pa)" "var_get_dict_forkey ih m2 anc ''critical'' = Ok (m3, pc)"
    and c: "var_ok ih d m3" "is_dict m3" "hdr m3 = hdr mdef" and j3: "json_of m3 = with_levels (json_of mdef)"
    and led: "leads_to m3 ''warning'' pw" "leads_to m3 ''alert'' pa" "leads_to m3 ''critical'' pc"
    by (rule get_levels[OF assms(2,3,5,6)])
  have id: "var_id m3 = var_id mdef" using c(3) by simp
  have ty: "type_text fb k (json_of m3) = type_text fb k (json_of mdef)" for fb k
    by (simp add: j3 levels_type)
  obtain wd' where t: "defined_type ih watchdef m3 = Ok (wd', type_text (fallback watchdef) (var_id mdef) (json_of mdef))"
      "fallback_ok ih wd'" "fallback wd' = fallback watchdef"
    using defined_type_json[OF assms(1) c(1,2)] assms(4) id ty by metis
  let ?ty = "type_text (fallback watchdef) (var_id mdef) (json_of mdef)"
  note eqs = g t(1)
  show ?thesis
  proof (cases "Option.bind ?ty rule_type")
    case None
    have n: "meter_rules cv (fallback watchdef) (var_id mdef, json_of mdef) = []" using None by (simp add: meter_rules_def)
    have "?ty = None \<or> watched_type (the ?ty) = Ok None"
      using None assms(7) watched_type_rule by (auto simp: meter_fine_def bind_eq_None_conv split: option.splits)
    then have "meter_watches cv ih watchdef mdef anc w = Ok (w, wd', m3)"
      by (auto simp: meter_watches_def eqs)
    then show ?thesis using n t(2,3) c(1,3) j3 by auto
  next
    case (Some tp)
    then obtain ty where tx: "?ty = Some ty" "rule_type ty = Some tp" by (auto simp: bind_eq_Some_conv)
    have wt: "watched_type ty = Ok (Some tp)" using watched_type_rule assms(7) tx by (simp add: meter_fine_def)
    have fine: "level_fine tp (jmember k (json_of mdef))" if "k \<in> {''warning'', ''alert'', ''critical''}" for k
      using assms(7) tx that by (auto simp: meter_fine_def)
    have fine3: "level_fine tp (jmember k (json_of m3))" if "k \<in> {''warning'', ''alert'', ''critical''}" for k
      using fine[OF that] that by (simp add: j3 with_levels_member level_fine_def json_dictp_def)
    have some: "pw \<noteq> None"
      using led(1) fine3[of "''warning''"] by (auto simp: leads_to_def level_fine_def split: option.splits if_splits)
    have lr: "level_rule cv ident tp bad tr (jmember k (json_of m3)) = level_rule cv ident tp bad tr (jmember k (json_of mdef))"
      if "k \<in> {''warning'', ''alert'', ''critical''}" for k ident bad tr
      using that by (simp add: j3 with_levels_member level_rule_def)
    have lw: "level_watch cv ih ident tp bad tr (map_option (place_var m3) p) u =
        Ok (u @ level_rule cv ident tp bad tr (jmember k (json_of mdef)))"
      if "k \<in> {''warning'', ''alert'', ''critical''}" "leads_to m3 k p" for k p ident bad tr u
      using led_level[OF that(2) c(1,2) fine3[OF that(1)]] lr[OF that(1)] by simp
    have "meter_watches cv ih watchdef mdef anc w =
        Ok (w @ meter_rules cv (fallback watchdef) (var_id mdef, json_of mdef), wd', m3)"
      using some by (auto simp: meter_watches_def eqs tx wt Let_def lw[OF _ led(1)] lw[OF _ led(2)] lw[OF _ led(3)] id meter_rules_def)
    then show ?thesis using t(2,3) c(1,3) j3 by auto
  qed
qed

subsection \<open>The table of meters\<close>

lemma populate_loop_rules:
  assumes "fallback_ok ih watchdef" "length anc = d" "chain_ok anc"
    "\<forall>m\<in>set ks. var_ok ih d m \<and> is_dict m \<and> key_ok (var_id m) \<and> meter_fine (fallback watchdef) (var_id m, json_of m)"
  shows "\<exists>wd' ks'. populate_loop cv ih watchdef ks anc w =
      Ok (w @ concat (map (\<lambda>m. meter_rules cv (fallback watchdef) (var_id m, json_of m)) ks), wd', ks') \<and>
    fallback_ok ih wd' \<and> fallback wd' = fallback watchdef \<and>
    list_all2 (\<lambda>m m'. var_ok ih d m' \<and> hdr m' = hdr m \<and> json_of m' = with_levels (json_of m)) ks ks'"
  using assms(1,4)
proof (induction ks arbitrary: watchdef w)
  case (Cons m ms)
  let ?r = "meter_rules cv (fallback watchdef) (var_id m, json_of m)"
  obtain wd1 m1 where m: "meter_watches cv ih watchdef m anc w = Ok (w @ ?r, wd1, m1)" "fallback_ok ih wd1" "fallback wd1 = fallback watchdef"
      "var_ok ih d m1" "hdr m1 = hdr m" "json_of m1 = with_levels (json_of m)"
    using meter_watches_rules[OF Cons.prems(1) _ _ _ assms(2,3), of m] Cons.prems(2) by force
  obtain wd2 ks2 where l: "populate_loop cv ih wd1 ms anc (w @ ?r) =
        Ok ((w @ ?r) @ concat (map (\<lambda>m. meter_rules cv (fallback wd1) (var_id m, json_of m)) ms), wd2, ks2)"
      "fallback_ok ih wd2" "fallback wd2 = fallback wd1"
      "list_all2 (\<lambda>m m'. var_ok ih d m' \<and> hdr m' = hdr m \<and> json_of m' = with_levels (json_of m)) ms ks2"
    using Cons.IH[OF m(2), of "w @ ?r"] Cons.prems(2) m(3) by auto
  show ?case using m l by (intro exI[of _ wd2] exI[of _ "m1 # ks2"]) simp
qed simp

lemma populate_rules:
  assumes "fallback_ok ih watchdef" "var_ok ih (length anc) v" "is_dict v" "chain_ok anc"
    "\<forall>m\<in>set (members (json_of v)). meter_fine (fallback watchdef) m"
  shows "\<exists>wd' v'. watchlist_populate cv ih watchdef (Some v) anc w =
      Ok (concat (map (meter_rules cv (fallback watchdef)) (members (json_of v))), wd', Some v') \<and>
    var_ok ih (length anc) v' \<and> hdr v' = hdr v \<and> json_of v' = JDict (map (\<lambda>(k, j). (k, with_levels j)) (members (json_of v))) \<and>
    fallback_ok ih wd' \<and> fallback wd' = fallback watchdef"
proof -
  obtain h ks ct cp cn where v: "v = Var h (VDict (VLink ks ct cp cn))" using assms(3) by (cases v) (auto simp: is_dict_vv)
  let ?d = "length anc"
  have rt: "root_at ?d h" and lk: "link_ok ct cp cn (length ks)" and ds: "distinct (map var_id ks)"
    and kok: "\<forall>c\<in>set ks. key_ok (var_id c) \<and> hash_ok ih (hdr c) \<and> var_ok ih (Suc ?d) c"
    using assms(2) unfolding v var_ok.simps by blast+
  have ms: "members (json_of v) = map (\<lambda>c. (var_id c, json_of c)) ks" by (simp add: v)
  have "\<forall>m\<in>set ks. var_ok ih (Suc ?d) m \<and> is_dict m \<and> key_ok (var_id m) \<and> meter_fine (fallback watchdef) (var_id m, json_of m)"
    using kok assms(5) unfolding ms by (auto simp: meter_fine_def json_dictp_var)
  moreover have "chain_ok (h # anc)" "length (h # anc) = Suc ?d" using rt assms(4) by simp_all
  ultimately obtain wd' ks' where p: "populate_loop cv ih watchdef ks (h # anc) [] =
        Ok ([] @ concat (map (\<lambda>m. meter_rules cv (fallback watchdef) (var_id m, json_of m)) ks), wd', ks')"
      "fallback_ok ih wd'" "fallback wd' = fallback watchdef"
      "list_all2 (\<lambda>m m'. var_ok ih (Suc ?d) m' \<and> hdr m' = hdr m \<and> json_of m' = with_levels (json_of m)) ks ks'"
    using populate_loop_rules[OF assms(1)] by blast
  have same: "map hdr ks' = map hdr ks" "map (\<lambda>c. (var_id c, json_of c)) ks' = map (\<lambda>c. (var_id c, with_levels (json_of c))) ks"
      "\<forall>c\<in>set ks'. var_ok ih (Suc ?d) c" "length ks' = length ks"
    using p(4) by (induction rule: list_all2_induct) auto
  have ids: "map var_id ks' = map var_id ks" using arg_cong[OF same(1), of "map v_id"] by (simp add: comp_def)
  have hs: "hdr ` set ks' = hdr ` set ks" using arg_cong[OF same(1), of set] by simp
  have kok': "\<forall>c\<in>set ks'. key_ok (var_id c) \<and> hash_ok ih (hdr c) \<and> var_ok ih (Suc ?d) c"
  proof
    fix c assume c: "c \<in> set ks'"
    then have "hdr c \<in> hdr ` set ks" using hs by blast
    then show "key_ok (var_id c) \<and> hash_ok ih (hdr c) \<and> var_ok ih (Suc ?d) c" using kok same(3) c by auto
  qed
  let ?v' = "Var h (VDict (VLink ks' ct cp cn))"
  have "watchlist_populate cv ih watchdef (Some v) anc w =
      Ok (concat (map (meter_rules cv (fallback watchdef)) (members (json_of v))), wd', Some ?v')"
    using p(1) by (simp add: watchlist_populate_def watchlist_clear_def walk_def v set_kids_def comp_def)
  moreover have "var_ok ih ?d ?v'" using rt lk ds kok' ids same(4) by simp
  moreover have "json_of ?v' = JDict (map (\<lambda>(k, j). (k, with_levels j)) (members (json_of v)))"
    unfolding ms using same(2) by (simp add: comp_def)
  moreover have "hdr ?v' = hdr v" by (simp add: v)
  ultimately show ?thesis using p(2,3) by blast
qed

text \<open>
  C29: Filling a watch list from a table of meters gives exactly the watches the table stands
  for: per meter and level with a comparison one watch, of the comparison and type named, with
  a badness of 5, 8 or 12 times the weight, in the order of the table, whatever the list held
  before. It leaves the table as it was but for the levels it adds as empty dictionaries, and the
  types that the fallback definitions give.
\<close>

theorem watchlist_populate_rules:
  assumes "fallback_ok ih watchdef" "var_ok ih (length anc) v" "is_dict v" "chain_ok anc"
    "\<forall>m\<in>set (members (json_of v)). meter_fine (fallback watchdef) m"
  shows "\<exists>wd' v'. watchlist_populate cv ih watchdef (Some v) anc w =
      Ok (concat (map (meter_rules cv (fallback watchdef)) (members (json_of v))), wd', Some v') \<and>
    var_ok ih (length anc) v' \<and> json_of v' = JDict (map (\<lambda>(k, j). (k, with_levels j)) (members (json_of v))) \<and>
    fallback_ok ih wd' \<and> fallback wd' = fallback watchdef"
  using populate_rules[OF assms] by blast

text \<open>A table with one meter: warn about a fraction above 30.\<close>

definition leaf :: "nat \<Rightarrow> string \<Rightarrow> var vval \<Rightarrow> var" where
  "leaf d k x = Var (hdr0\<lparr>v_id := k, v_root := (if d = 0 then RootNone else RootUp d)\<rparr>) x"

definition node :: "var list \<Rightarrow> var vval" where
  "node ks = VDict (VLink ks (of_nat (length ks)) (- 1) None)"

definition sample_table :: var where
  "sample_table = leaf 0 '''' (node [leaf 1 ''pcpu'' (node [leaf 2 ''type'' (VStr ''frac''),
     leaf 2 ''warning'' (node [leaf 3 ''cmp'' (VStr ''gt''), leaf 3 ''val'' (VDouble (Fin 30))])])])"

lemma sample_table_ok: "var_ok ih 0 sample_table" "is_dict sample_table"
  by (simp_all add: sample_table_def leaf_def node_def root_at_def link_ok_def key_ok_def hash_ok_def hdr0_def cstr_def is_dict_def)

lemma sample_table_json: "json_of sample_table = JDict [(''pcpu'', JDict [(''type'', JStr ''frac''),
    (''warning'', JDict [(''cmp'', JStr ''gt''), (''val'', JDouble (Fin 30))])])]"
  by (simp add: sample_table_def leaf_def node_def hdr0_def)

lemma watchlist_populate_rules_witness:
  "\<exists>wd' v'. watchlist_populate (\<lambda>_. 0) 7 None (Some sample_table) [] [] =
     Ok ([\<lparr>mw_trigger = WATCH_WARN, mw_id = makeid ''pcpu'' MTYPE_FRAC, mw_tp = WATCH_FRAC_GT, mw_dat = WFrac (Fin 30),
           mw_badness = rnd 5\<rparr>], wd', Some v')"
proof -
  have "meter_fine (fallback None) m" if "m \<in> set (members (json_of sample_table))" for m
    using that by (simp add: sample_table_json meter_fine_def json_dictp_def type_text_def jstr_def jmember_def json_str_def
        rule_type_def level_fine_def watch_kind_def mtypes_distinct[symmetric])
  moreover have "concat (map (meter_rules (\<lambda>_. 0) (fallback None)) (members (json_of sample_table))) =
     [\<lparr>mw_trigger = WATCH_WARN, mw_id = makeid ''pcpu'' MTYPE_FRAC, mw_tp = WATCH_FRAC_GT, mw_dat = WFrac (Fin 30),
           mw_badness = rnd 5\<rparr>]"
  proof -
    have "0 < rnd (1 / 100)" by code_simp
    then show ?thesis
      by (simp add: sample_table_json meter_rules_def type_text_def jstr_def jmember_def json_str_def rule_type_def level_rule_def
          watch_kind_def rule_value_def rule_weight_def jdouble_def json_double_def mtypes_distinct[symmetric])
  qed
  ultimately show ?thesis
    using watchlist_populate_rules[of 7 None "[]" sample_table "\<lambda>_. 0" "[]"] sample_table_ok by (auto simp: fallback_ok_def)
qed

subsection \<open>A level without a comparison\<close>

lemma populate_loop_stops:
  assumes "populate_loop cv ih wd xs anc w = Ok (w1, wd1, xs1)" "meter_watches cv ih wd1 m anc w1 = Fault e"
  shows "populate_loop cv ih wd (xs @ m # ys) anc w = Fault e"
  using assms by (induction xs arbitrary: wd w xs1) (auto simp: rbind_Ok_iff)

lemma level_watch_null: "level_watch cv ih ident tp bad tr lv w = Fault e \<Longrightarrow> e = NullDeref"
  by (auto simp: level_watch_def count_of_def make_watcher_def Let_def split: option.splits if_splits)

lemma rbind_null:
  assumes "\<And>e. x = Fault e \<Longrightarrow> e = d" "\<And>a. x = Ok a \<Longrightarrow> f a = Fault d"
  shows "rbind x f = Fault d"
  using assms by (cases x) auto

text \<open>A level that says something but not how to compare.\<close>

definition level_poor :: "json \<Rightarrow> bool" where
  "level_poor j \<longleftrightarrow> json_dictp j \<and> members j \<noteq> [] \<and> length (members j) < 2 ^ 32 \<and> jstr ''cmp'' j = None"

lemma led_poor:
  assumes "leads_to v k p" "var_ok ih d v" "is_dict v" "jmember k (json_of v) = Some j" "level_poor j"
  shows "level_watch cv ih ident tp bad tr (map_option (place_var v) p) w = Fault NullDeref"
proof -
  obtain i where i: "p = Some (Kid i)" "i < length (kids_of v)" "var_id (kids_of v ! i) = k"
    using assms(1,4,5) by (auto simp: leads_to_def level_poor_def)
  let ?c = "kids_of v ! i"
  have jk: "json_of ?c = j" using jmember_at[OF assms(2,3) i(2)] i(3) assms(4) by simp
  have d: "is_dict ?c" using assms(5) jk json_dictp_var unfolding level_poor_def by metis
  note c = kid_ok[OF assms(2) i(2)]
  have "var_get_count ?c \<noteq> 0" using level_count[OF c d] assms(5) jk by (simp add: level_poor_def)
  moreover have "var_get_str_forkey ih ?c ''cmp'' = None" using getters_json(1)[OF c d] jk assms(5) by (simp add: level_poor_def)
  ultimately show ?thesis using i(1) by (simp add: level_watch_def count_of_def make_watcher_def)
qed

lemma meter_watches_poor:
  assumes "fallback_ok ih watchdef" "var_ok ih d mdef" "is_dict mdef" "key_ok (var_id mdef)" "length anc = d" "chain_ok anc"
    "type_text (fallback watchdef) (var_id mdef) (json_of mdef) = Some ty" "2 \<le> length ty" "rule_type ty = Some tp"
    "name \<in> {''warning'', ''alert'', ''critical''}" "jmember name (json_of mdef) = Some j" "level_poor j"
  shows "meter_watches cv ih watchdef mdef anc w = Fault NullDeref"
proof -
  obtain m1 m2 m3 pw pa pc where g: "var_get_dict_forkey ih mdef anc ''warning'' = Ok (m1, pw)"
      "var_get_dict_forkey ih m1 anc ''alert'' = Ok (m2, pa)" "var_get_dict_forkey ih m2 anc ''critical'' = Ok (m3, pc)"
    and c: "var_ok ih d m3" "is_dict m3" "hdr m3 = hdr mdef" and j3: "json_of m3 = with_levels (json_of mdef)"
    and led: "leads_to m3 ''warning'' pw" "leads_to m3 ''alert'' pa" "leads_to m3 ''critical'' pc"
    by (rule get_levels[OF assms(2,3,5,6)])
  have jm: "jmember name (json_of m3) = Some j" using assms(11) by (simp add: j3 with_levels_member)
  have "type_text (fallback watchdef) (var_id m3) (json_of m3) = Some ty" using assms(7) c(3) by (simp add: j3 levels_type)
  then obtain wd' where t: "defined_type ih watchdef m3 = Ok (wd', Some ty)"
    using defined_type_json[OF assms(1) c(1,2)] assms(4) c(3) by auto
  have poor: "level_watch cv ih ident tp bad tr (map_option (place_var m3) p) u = Fault NullDeref" if "leads_to m3 name p" for ident bad tr p u
    by (rule led_poor[OF that c(1,2) jm assms(12)])
  have some: "\<not> (pw = None \<and> pa = None \<and> pc = None)"
    using assms(10,12) jm led by (auto simp: leads_to_def level_poor_def)
  let ?lw = "\<lambda>bad tr p. level_watch cv ih (makeid (var_id m3) tp) tp bad tr (map_option (place_var m3) p)"
  have eq: "meter_watches cv ih watchdef mdef anc w =
      rbind (?lw 5 WATCH_WARN pw w) (\<lambda>w. rbind (?lw 8 WATCH_ALERT pa w) (\<lambda>w. rbind (?lw 12 WATCH_CRIT pc w) (\<lambda>w. Ok (w, wd', m3))))"
    using some by (auto simp: meter_watches_def g t watched_type_rule[OF assms(8)] assms(9) Let_def)
  consider "name = ''warning''" | "name = ''alert''" | "name = ''critical''" using assms(10) by blast
  then show ?thesis
  proof cases
    case 1
    have "?lw bad tr pw u = Fault NullDeref" for bad tr u using poor[of pw] led(1) 1 by blast
    then show ?thesis unfolding eq by simp
  next
    case 2
    have "?lw bad tr pa u = Fault NullDeref" for bad tr u using poor[of pa] led(2) 2 by blast
    then show ?thesis unfolding eq by (auto intro!: rbind_null dest: level_watch_null)
  next
    case 3
    have "?lw bad tr pc u = Fault NullDeref" for bad tr u using poor[of pc] led(3) 3 by blast
    then show ?thesis unfolding eq by (auto intro!: rbind_null dest: level_watch_null)
  qed
qed

text \<open>
  C30: A table of meters in which one level has members but no comparison, as the layout that the
  collector documents for it allows, crashes the collector: it compares a NULL pointer.
\<close>

theorem level_without_comparison_crashes:
  assumes "fallback_ok ih watchdef" "var_ok ih (length anc) v" "is_dict v" "chain_ok anc"
    "members (json_of v) = before @ (k, m) # after" "\<forall>x\<in>set before. meter_fine (fallback watchdef) x"
    "json_dictp m" "type_text (fallback watchdef) k m = Some ty" "2 \<le> length ty" "rule_type ty = Some tp"
    "name \<in> {''warning'', ''alert'', ''critical''}" "jmember name m = Some j" "level_poor j"
  shows "watchlist_populate cv ih watchdef (Some v) anc w = Fault NullDeref"
proof -
  obtain h ks ct cp cn where v: "v = Var h (VDict (VLink ks ct cp cn))" using assms(3) by (cases v) (auto simp: is_dict_vv)
  let ?d = "length anc"
  have rt: "root_at ?d h" and kok: "\<forall>c\<in>set ks. key_ok (var_id c) \<and> hash_ok ih (hdr c) \<and> var_ok ih (Suc ?d) c"
    using assms(2) unfolding v var_ok.simps by blast+
  have "map (\<lambda>c. (var_id c, json_of c)) ks = before @ (k, m) # after" using assms(5) by (simp add: v)
  then obtain xs c ys where ks: "ks = xs @ c # ys" "before = map (\<lambda>c. (var_id c, json_of c)) xs" "k = var_id c" "m = json_of c"
    by (auto simp: map_eq_append_conv Cons_eq_map_conv append_eq_Cons_conv)
  have ch: "length (h # anc) = Suc ?d" "chain_ok (h # anc)" using rt assms(4) by simp_all
  have "\<forall>x\<in>set xs. var_ok ih (Suc ?d) x \<and> is_dict x \<and> key_ok (var_id x) \<and> meter_fine (fallback watchdef) (var_id x, json_of x)"
    using kok assms(6) unfolding ks(1,2) by (auto simp: meter_fine_def json_dictp_var)
  then obtain wd' xs' w' where p: "populate_loop cv ih watchdef xs (h # anc) [] = Ok (w', wd', xs')"
      "fallback_ok ih wd'" "fallback wd' = fallback watchdef"
    using populate_loop_rules[OF assms(1) ch] by blast
  have c: "var_ok ih (Suc ?d) c" "key_ok (var_id c)" "is_dict c" using kok assms(7) ks json_dictp_var by auto
  have "meter_watches cv ih wd' c (h # anc) w' = Fault NullDeref"
    by (rule meter_watches_poor[OF p(2) c(1,3,2) ch _ assms(9-11)]) (use assms(8,12,13) ks p(3) in auto)
  from populate_loop_stops[OF p(1) this] show ?thesis
    by (simp add: watchlist_populate_def watchlist_clear_def walk_def v ks(1))
qed

definition crash_table :: var where
  "crash_table = leaf 0 '''' (node [leaf 1 ''pcpu'' (node [leaf 2 ''type'' (VStr ''frac''),
     leaf 2 ''warning'' (node [leaf 3 ''val'' (VDouble (Fin 30)), leaf 3 ''weight'' (VDouble (Fin 1))])])])"

lemma level_without_comparison_crashes_witness:
  "watchlist_populate (\<lambda>_. 0) 7 None (Some crash_table) [] [] = Fault NullDeref"
proof -
  let ?l = "JDict [(''val'', JDouble (Fin 30)), (''weight'', JDouble (Fin 1))]"
  let ?m = "JDict [(''type'', JStr ''frac''), (''warning'', ?l)]"
  have j: "json_of crash_table = JDict [(''pcpu'', ?m)]" by (simp add: crash_table_def leaf_def node_def hdr0_def)
  have ok: "var_ok 7 0 crash_table" "is_dict crash_table"
    by (simp_all add: crash_table_def leaf_def node_def root_at_def link_ok_def key_ok_def hash_ok_def hdr0_def cstr_def is_dict_def)
  show ?thesis
    by (rule level_without_comparison_crashes[where before = "[]" and k = "''pcpu''" and m = ?m and after = "[]" and
          ty = "''frac''" and tp = MTYPE_FRAC and name = "''warning''" and j = ?l])
      (use ok j in \<open>simp_all add: fallback_ok_def json_dictp_def type_text_def jstr_def jmember_def json_str_def rule_type_def level_poor_def\<close>)
qed

subsection \<open>The tenant of an authentication packet\<close>

text \<open>Copying into a node of a sound tree does not fail.\<close>

lemma copy_members_total:
  assumes "root_at (length anc) (hdr self)" "chain_ok anc" "is_dict self"
  shows "\<exists>self'. copy_members ih False ks self anc = Ok (self', anc) \<and> is_dict self' \<and> hdr self' = hdr self"
  using assms
proof (induction ks arbitrary: self)
  case (Cons c cs)
  let ?n = "rename (var_id c) (var_clone ih c)" and ?g = "v_gen (last (hdr self # anc))"
  obtain n p l where a: "attach ih ?g ?n self = (n, p, l)" by (cases "attach ih ?g ?n self")
  have p: "hdr p = hdr self" "is_dict p"
    using a Cons.prems(3) by (auto simp: attach_def Let_def is_dict_def split: vval.splits if_splits)
  have l: "var_link_as ih (var_clone ih c) self anc (var_id c) = Ok (n, p, l)"
    using needs_gen_ok[OF Cons.prems(1)] a by (simp add: var_link_as_def var_link_def)
  obtain self' where "copy_members ih False cs p anc = Ok (self', anc)" "is_dict self'" "hdr self' = hdr p"
    using Cons.IH[of p] Cons.prems(1,2) p by auto
  then show ?case using l p by simp
qed simp

lemma var_copy_total:
  assumes "root_at (length anc) (hdr self)" "chain_ok anc" "is_dict orig"
  shows "\<exists>self'. var_copy ih orig self anc = Ok (self', anc) \<and> is_dict self'"
proof -
  obtain oh ks ct cp cn where o: "orig = Var oh (VDict (VLink ks ct cp cn))" using assms(3) by (cases orig) (auto simp: is_dict_vv)
  have "is_dict (Var (hdr self) (VDict no_kids))" by (simp add: is_dict_def)
  then obtain self' where "copy_members ih False ks (Var (hdr self) (VDict no_kids)) anc = Ok (self', anc)" "is_dict self'"
    using copy_members_total[of anc "Var (hdr self) (VDict no_kids)"] assms(1,2) by auto
  then show ?thesis by (auto simp: var_copy_def o)
qed

lemma dict_place:
  assumes "leads_to v k p" "var_ok ih d v" "is_dict v" "jmember k (json_of v) = Some j" "json_dictp j"
  obtains i where "p = Some (Kid i)" "i < length (kids_of v)" "var_id (kids_of v ! i) = k" "json_of (kids_of v ! i) = j"
    "is_dict (kids_of v ! i)" "var_ok ih (Suc d) (kids_of v ! i)"
proof -
  obtain i where i: "p = Some (Kid i)" "i < length (kids_of v)" "var_id (kids_of v ! i) = k"
    using assms(1,4,5) by (auto simp: leads_to_def)
  have j: "json_of (kids_of v ! i) = j" using jmember_at[OF assms(2,3) i(2)] i(3) assms(4) by simp
  then have "is_dict (kids_of v ! i)" using assms(5) json_dictp_var by metis
  then show thesis using that i j kid_ok[OF assms(2) i(2)] by blast
qed

text \<open>The table of meters in a tenant's metadata, and the watches it stands for.\<close>

definition meter_table :: "json \<Rightarrow> (string \<times> json) list" where
  "meter_table j = (case jmember ''meter'' j of None \<Rightarrow> [] | Some t \<Rightarrow> members t)"

definition table_fine :: "(string \<Rightarrow> string option) \<Rightarrow> json \<Rightarrow> bool" where
  "table_fine fb j \<longleftrightarrow> (\<forall>t. jmember ''meter'' j = Some t \<longrightarrow> json_dictp t) \<and> (\<forall>m\<in>set (meter_table j). meter_fine fb m)"

lemma tenant_keys: "key_ok ''meter''" "key_ok ''summary''" "key_ok ''graph''"
  by (simp_all add: key_ok_def cstr_def)

lemma tenant_watches_rules:
  assumes "fallback_ok ih watchdef" "var_ok ih 0 meta" "is_dict meta" "table_fine (fallback watchdef) (json_of meta)"
    "jmember ''summary'' (json_of meta) = None"
  shows "\<exists>meta' wd'. tenant_watches cv ih watchdef meta w =
      Ok (meta', wd', concat (map (meter_rules cv (fallback watchdef)) (meter_table (json_of meta)))) \<and>
    var_ok ih 0 meta' \<and> is_dict meta' \<and> jmember ''summary'' (json_of meta') = None \<and> fallback_ok ih wd'"
proof -
  obtain m p where g: "var_get_dict_forkey ih meta [] ''meter'' = Ok (m, p)" "var_ok ih 0 m" "is_dict m" "hdr m = hdr meta"
      "json_of m = with_dict ''meter'' (json_of meta)" "leads_to m ''meter'' p"
    using get_level[OF assms(2,3) tenant_keys(1), of "[]"] by auto
  obtain t where t: "jmember ''meter'' (json_of m) = Some t" "json_dictp t" "members t = meter_table (json_of meta)"
    using assms(4) by (cases "jmember ''meter'' (json_of meta)")
      (auto simp: g(5) with_dict_member table_fine_def meter_table_def json_dictp_def)
  obtain i where i: "p = Some (Kid i)" "i < length (kids_of m)" "var_id (kids_of m ! i) = ''meter''" "json_of (kids_of m ! i) = t"
      "is_dict (kids_of m ! i)" "var_ok ih (Suc 0) (kids_of m ! i)"
    by (rule dict_place[OF g(6,2,3) t(1,2)])
  have ch: "chain_ok [hdr m]" "length [hdr m] = Suc 0" using var_ok_root[OF g(2)] by simp_all
  have vok: "var_ok ih (length [hdr m]) (kids_of m ! i)" using i(6) by simp
  have fine: "\<forall>x\<in>set (members (json_of (kids_of m ! i))). meter_fine (fallback watchdef) x"
    using assms(4) i(4) t(3) unfolding table_fine_def by simp
  obtain wd' v' where w: "watchlist_populate cv ih watchdef (Some (kids_of m ! i)) [hdr m] w =
        Ok (concat (map (meter_rules cv (fallback watchdef)) (members t)), wd', Some v')"
      "var_ok ih (Suc 0) v'" "hdr v' = hdr (kids_of m ! i)" "fallback_ok ih wd'"
    using populate_rules[OF assms(1) vok i(5) ch(1) fine, of cv w] i(4) by auto
  obtain meta' anc' where l: "leave (Kid i) m v' [hdr m] = (meta', anc')" "var_ok ih 0 meta'" "is_dict meta'"
      "json_of meta' = JDict ((members (json_of m))[i := (''meter'', json_of v')])"
    using leave_dict[OF g(2,3) i(2) w(2), of "[]" "[hdr m]"] w(3) i(3) by auto
  have "fst ` set (members (json_of meta')) \<subseteq> insert ''meter'' (fst ` set (members (json_of m)))"
    using set_update_subset_insert[of "members (json_of m)" i "(''meter'', json_of v')"] by (auto simp: l(4))
  moreover have "''summary'' \<notin> fst ` set (members (json_of m))"
    using assms(5) by (simp add: g(5) with_dict_def jmember_def map_of_eq_None_iff)
  ultimately have "jmember ''summary'' (json_of meta') = None" by (auto simp: jmember_def map_of_eq_None_iff)
  moreover have "tenant_watches cv ih watchdef meta w = Ok (meta', wd', concat (map (meter_rules cv (fallback watchdef)) (members t)))"
    using w(1) l(1) by (simp add: tenant_watches_def g(1) i(1))
  ultimately show ?thesis using l(2,3) w(4) t(3) by auto
qed

lemma tenant_summary_total:
  assumes "var_ok ih 0 conf" "is_dict conf" "\<forall>j. jmember ''summary'' (json_of conf) = Some j \<longrightarrow> json_dictp j"
    "var_ok ih 0 meta" "is_dict meta" "jmember ''summary'' (json_of meta) = None"
  shows "\<exists>conf' summ'. tenant_summary ih conf meta summ = Ok (conf', summ')"
proof -
  obtain m p where g: "var_get_dict_forkey ih meta [] ''summary'' = Ok (m, p)" "var_ok ih 0 m" "is_dict m" "hdr m = hdr meta"
      "json_of m = with_dict ''summary'' (json_of meta)" "leads_to m ''summary'' p"
    using get_level[OF assms(4,5) tenant_keys(2), of "[]"] by auto
  have "jmember ''summary'' (json_of m) = Some (JDict [])" using assms(6) by (simp add: g(5) with_dict_member)
  from dict_place[OF g(6,2,3) this] obtain i where i: "p = Some (Kid i)" "i < length (kids_of m)"
      "json_of (kids_of m ! i) = JDict []" "is_dict (kids_of m ! i)" "var_ok ih (Suc 0) (kids_of m ! i)"
    by (auto simp: json_dictp_def)
  have n: "var_get_count (kids_of m ! i) = 0" using level_count[OF i(5,4)] i(3) by simp
  obtain cf q where c: "var_get_dict_forkey ih conf [] ''summary'' = Ok (cf, q)" "var_ok ih 0 cf" "is_dict cf"
      "json_of cf = with_dict ''summary'' (json_of conf)" "leads_to cf ''summary'' q"
    using get_level[OF assms(1,2) tenant_keys(2), of "[]"] by (metis chain_ok.simps(1) list.size(3))
  obtain j where j: "jmember ''summary'' (json_of cf) = Some j" "json_dictp j"
    using assms(3) c(4) by (cases "jmember ''summary'' (json_of conf)") (auto simp: with_dict_member json_dictp_def)
  obtain k where k: "q = Some (Kid k)" "is_dict (kids_of cf ! k)"
    by (rule dict_place[OF c(5,2,3) j])
  have ch: "chain_ok [hdr m]" "length [hdr m] = Suc 0" using var_ok_root[OF g(2)] by simp_all
  have "root_at (length [hdr m]) (hdr (kids_of m ! i))" using var_ok_root[OF i(5)] by simp
  then obtain vs where v: "var_copy ih (kids_of cf ! k) (kids_of m ! i) [hdr m] = Ok (vs, [hdr m])" "is_dict vs"
    using var_copy_total[OF _ ch(1) k(2)] by blast
  have "\<exists>ks. walk vs = Ok ks" using v(2) by (cases vs) (auto simp: walk_def is_dict_vv)
  then show ?thesis using n v(1)
    by (auto simp: tenant_summary_def g(1) i(1) c(1) k(1) dict_in_def count_of_def summaryinfo_populate_def)
qed


lemma got_tenant:
  assumes "tenant_get old u = (ts, k)" "\<forall>t\<in>set old. t_lock t = Unlocked"
  shows "k < length ts" "t_uuid (ts ! k) = u" "t_lock (ts ! k) = Unlocked"
    "t_hosts (ts ! k) = (case tenant_look old u of None \<Rightarrow> [] | Some i \<Rightarrow> t_hosts (old ! i))"
    "\<forall>i<length old. ts ! i = old ! i" "\<forall>i<k. t_uuid (ts ! i) \<noteq> u"
proof -
  have "k < length ts \<and> t_uuid (ts ! k) = u \<and> t_lock (ts ! k) = Unlocked \<and>
    t_hosts (ts ! k) = (case tenant_look old u of None \<Rightarrow> [] | Some i \<Rightarrow> t_hosts (old ! i)) \<and>
    (\<forall>i<length old. ts ! i = old ! i) \<and> (\<forall>i<k. t_uuid (ts ! i) \<noteq> u)"
  proof (cases "tenant_look old u")
    case None
    then have "ts = old @ [tenant_new u]" "k = length old" using assms(1) by (simp_all add: tenant_get_def)
    moreover have "\<forall>t\<in>set old. t_uuid t \<noteq> u" using None by (simp add: tenant_look_def find_index_None uuidcmp_eq)
    ultimately show ?thesis using None by (simp add: tenant_new_def nth_append)
  next
    case (Some i)
    then have "ts = old" "k = i" using assms(1) by (simp_all add: tenant_get_def)
    moreover have "i < length old" "t_uuid (old ! i) = u" "\<forall>j<i. t_uuid (old ! j) \<noteq> u"
      using Some by (simp_all add: tenant_look_def find_index_Some uuidcmp_eq)
    ultimately show ?thesis using Some assms(2) by simp
  qed
  then show "k < length ts" "t_uuid (ts ! k) = u" "t_lock (ts ! k) = Unlocked"
    "t_hosts (ts ! k) = (case tenant_look old u of None \<Rightarrow> [] | Some i \<Rightarrow> t_hosts (old ! i))"
    "\<forall>i<length old. ts ! i = old ! i" "\<forall>i<k. t_uuid (ts ! i) \<noteq> u"
    by blast+
qed


definition sample_meta :: var where
  "sample_meta = leaf 0 '''' (node [leaf 1 ''key'' (VStr ''AAAA''),
     leaf 1 ''meter'' (node [leaf 2 ''pcpu'' (node [leaf 3 ''type'' (VStr ''frac''),
       leaf 3 ''warning'' (node [leaf 4 ''cmp'' (VStr ''gt''), leaf 4 ''val'' (VDouble (Fin 30))])])])])"

definition sample_app :: app where
  "sample_app = \<lparr>a_conf = leaf 0 '''' (node []), a_watch = [], a_watchdef = None, a_graphlist = None, a_listenport = 0,
     a_listenaddr = ''::'', a_world = world_init\<rparr>"


subsection \<open>Adjustments of a host\<close>

lemma kid_forkey_ok:
  assumes "var_ok ih d v" "is_dict v" "kid_forkey ih v k = Some c"
  shows "var_ok ih (Suc d) c" "jmember k (json_of v) = Some (json_of c)"
proof -
  obtain v' r where f: "var_find_key ih v k = (v', r)" by fastforce
  note fk = find_key_dict[OF assms(1,2) f]
  obtain i where "r = Some i" "c = kids_of v' ! i" using assms(3) f by (auto simp: kid_forkey_def)
  then show "var_ok ih (Suc d) c" using kid_ok[OF fk(2)] fk(1,7) by (auto simp: find_index_Some)
  show "jmember k (json_of v) = Some (json_of c)" using kid_forkey_json[OF assms(1,2), of k] assms(3) by simp
qed

text \<open>Every level of a string adjustment that is there names a string.\<close>

definition str_levels :: "json \<Rightarrow> bool" where
  "str_levels j \<longleftrightarrow> (\<forall>name l. name \<in> {''warning'', ''alert'', ''critical''} \<longrightarrow> jmember name j = Some l \<longrightarrow>
     json_dictp l \<longrightarrow> jstr ''val'' l \<noteq> None)"

lemma level_names: "i < 3 \<Longrightarrow> level_name i \<in> {''warning'', ''alert'', ''critical''}"
  by (auto simp: level_name_def less_Suc_eq numeral_3_eq_3)

lemma adjust_levels_str:
  assumes "var_ok ih d v" "is_dict v" "str_levels (json_of v)" "\<forall>i\<in>set is. i < 3" "length (wa_adjust adj) = 4"
  shows "\<exists>adj'. adjust_levels cv ih WATCHADJUST_STR v is adj = Ok adj' \<and> wa_type adj' = wa_type adj \<and> length (wa_adjust adj') = 4 \<and>
    (\<forall>n. (\<forall>i\<in>set is. Suc i = n \<longrightarrow> jmember (level_name i) (json_of v) = None) \<longrightarrow> wa_adjust adj' ! n = wa_adjust adj ! n)"
  using assms(4,5)
proof (induction "is" arbitrary: adj)
  case (Cons i "is")
  have i3: "i < 3" "\<forall>i\<in>set is. i < 3" using Cons.prems(1) by simp_all
  show ?case
  proof (cases "kid_forkey ih v (level_name i)")
    case None
    then show ?thesis using Cons.IH[OF i3(2) Cons.prems(2)] by auto
  next
    case (Some c)
    note c = kid_forkey_ok[OF assms(1,2) Some]
    show ?thesis
    proof (cases "is_dict c")
      case False
      then show ?thesis using Some Cons.IH[OF i3(2) Cons.prems(2)] by auto
    next
      case True
      then have "json_dictp (json_of c)" by (simp add: json_dictp_var)
      then have "jstr ''val'' (json_of c) \<noteq> None" using assms(3) level_names[OF i3(1)] c(2) unfolding str_levels_def by blast
      then obtain s where s: "var_get_str_forkey ih c ''val'' = Some s" using getters_json(1)[OF c(1) True] by auto
      let ?d = "adjust_weight ih WATCHADJUST_STR c ((wa_adjust adj ! Suc i)\<lparr>ad_data := WStr (c_truncate 127 s)\<rparr>)"
      let ?adj = "adj\<lparr>wa_adjust := (wa_adjust adj)[Suc i := ?d]\<rparr>"
      obtain adj' where a: "adjust_levels cv ih WATCHADJUST_STR v is ?adj = Ok adj'" "wa_type adj' = wa_type ?adj" "length (wa_adjust adj') = 4"
          "\<And>n. \<forall>i\<in>set is. Suc i = n \<longrightarrow> jmember (level_name i) (json_of v) = None \<Longrightarrow> wa_adjust adj' ! n = wa_adjust ?adj ! n"
        using Cons.IH[OF i3(2), of ?adj] Cons.prems(2) by auto
      have "adjust_levels cv ih WATCHADJUST_STR v (i # is) adj = Ok adj'"
        using Some True s a(1) by (simp add: adjust_value_def)
      moreover have "wa_adjust adj' ! n = wa_adjust adj ! n"
        if "\<forall>x\<in>set (i # is). Suc x = n \<longrightarrow> jmember (level_name x) (json_of v) = None" for n
        using a(4)[of n] that c(2) by auto
      ultimately show ?thesis using a(2,3) by auto
    qed
  qed
qed simp

text \<open>Metadata that adjusts one meter, as strings.\<close>

lemma adjust_one_str:
  assumes "var_ok ih d c" "is_dict c" "jstr ''type'' (json_of c) = Some ''str''" "str_levels (json_of c)"
    "adjustlist_find adjs (makeid (var_id c) 0) = Some i" "length (wa_adjust (adjs ! i)) = 4"
  shows "\<exists>adj'. adjust_loop cv ih [c] adjs = Ok (adjs[i := adj']) \<and> wa_type adj' = WATCHADJUST_STR \<and>
    (jmember ''warning'' (json_of c) = None \<longrightarrow> wa_adjust adj' ! 1 = wa_adjust (adjs ! i) ! 1)"
proof -
  let ?a = "(adjs ! i)\<lparr>wa_type := WATCHADJUST_STR\<rparr>"
  obtain adj' where a: "adjust_levels cv ih WATCHADJUST_STR c [0, 1, 2] ?a = Ok adj'" "wa_type adj' = wa_type ?a"
      "\<And>n. \<forall>i\<in>set [0, 1, 2]. Suc i = n \<longrightarrow> jmember (level_name i) (json_of c) = None \<Longrightarrow> wa_adjust adj' ! n = wa_adjust ?a ! n"
    using adjust_levels_str[OF assms(1,2,4), of "[0, 1, 2]" ?a] assms(6) by auto
  have "wa_adjust adj' ! 1 = wa_adjust (adjs ! i) ! 1" if "jmember ''warning'' (json_of c) = None"
    using a(3)[of 1] that by (simp add: level_name_def)
  moreover have "adjust_loop cv ih [c] adjs = Ok (adjs[i := adj'])"
    using a(1) assms(3,5) by (simp add: getters_json[OF assms(1,2)] adjust_type_def memcmp3_def adjustlist_get_def)
  ultimately show ?thesis using a(2) by auto
qed

text \<open>
  C31: Host metadata changes the adjustments of a host in place: when a meter whose warning level
  was adjusted to a number is now adjusted as a string, with no warning level, the number stays
  there with its weight, and the next string watch at that level reads it as text.
\<close>

theorem retyped_adjustment_reads_number_as_text:
  assumes "var_ok ih 0 meta" "is_dict meta" "jmember ''meter'' (json_of meta) = Some (JDict [(k, m)])" "json_dictp m"
    "jstr ''type'' m = Some ''str''" "jmember ''warning'' m = None" "str_levels m" "jmember ''graph'' (json_of meta) = None"
    "adjustlist_find (h_adjust H) (makeid k 0) = Some i" "length (wa_adjust (h_adjust H ! i)) = 4"
    "wa_adjust (h_adjust H ! i) ! 1 = \<lparr>ad_data = WU64 x, ad_weight = r\<rparr>" "rnd (1 / 10000) < r"
    "mw_tp w = WATCH_STR_MATCH" "mw_trigger w = WATCH_WARN"
  shows "\<exists>H'. handle_host_metadata cv ih H (Some meta) = Ok H' \<and>
    calculate_badness mt w (Some (h_adjust H' ! i)) mx = Fault TypePun"
proof -
  obtain m1 p where g: "var_get_dict_forkey ih meta [] ''meter'' = Ok (m1, p)" "var_ok ih 0 m1" "is_dict m1" "hdr m1 = hdr meta"
      "json_of m1 = with_dict ''meter'' (json_of meta)" "leads_to m1 ''meter'' p"
    using get_level[OF assms(1,2) tenant_keys(1), of "[]"] by auto
  have "jmember ''meter'' (json_of m1) = Some (JDict [(k, m)])" using assms(3) by (simp add: g(5) with_dict_member)
  from dict_place[OF g(6,2,3) this] obtain j where j: "p = Some (Kid j)" "json_of (kids_of m1 ! j) = JDict [(k, m)]"
      "is_dict (kids_of m1 ! j)" "var_ok ih (Suc 0) (kids_of m1 ! j)"
    by (auto simp: json_dictp_def)
  let ?t = "kids_of m1 ! j"
  have "map (\<lambda>c. (var_id c, json_of c)) (kids_of ?t) = [(k, m)]" using members_kids[OF j(3)] j(2) by simp
  then obtain c where c: "kids_of ?t = [c]" "var_id c = k" "json_of c = m" by (cases "kids_of ?t") auto
  have cok: "var_ok ih (Suc (Suc 0)) c" "is_dict c" using kid_ok[OF j(4), of 0] c assms(4) json_dictp_var by auto
  have n: "var_get_count ?t \<noteq> 0" using level_count[OF j(4,3)] j(2) by simp
  have wk: "walk ?t = Ok [c]" using j(3) c(1) by (cases ?t) (auto simp: walk_def is_dict_vv kids_of_def)
  obtain adj' where a: "adjust_loop cv ih [c] (h_adjust H) = Ok ((h_adjust H)[i := adj'])" "wa_type adj' = WATCHADJUST_STR"
      "wa_adjust adj' ! 1 = wa_adjust (h_adjust H ! i) ! 1"
    using adjust_one_str[OF cok, of "h_adjust H" i cv] c assms(5-7,9,10) by auto
  obtain m2 q where q: "var_get_dict_forkey ih m1 [] ''graph'' = Ok (m2, q)" "var_ok ih 0 m2" "is_dict m2"
      "json_of m2 = with_dict ''graph'' (json_of m1)" "leads_to m2 ''graph'' q"
    using get_level[OF g(2,3) tenant_keys(3), of "[]"] by (metis chain_ok.simps(1) list.size(3))
  have "jmember ''graph'' (json_of m2) = Some (JDict [])" using assms(8) by (simp add: q(4) g(5) with_dict_member)
  from dict_place[OF q(5,2,3) this] obtain l where l: "q = Some (Kid l)" "json_of (kids_of m2 ! l) = JDict []"
      "is_dict (kids_of m2 ! l)" "var_ok ih (Suc 0) (kids_of m2 ! l)"
    by (auto simp: json_dictp_def)
  have n2: "var_get_count (kids_of m2 ! l) = 0" using level_count[OF l(4,3)] l(2) by simp
  let ?H = "H\<lparr>h_adjust := (h_adjust H)[i := adj'], h_graphlist := h_graphlist H\<rparr>"
  have h: "handle_host_metadata cv ih H (Some meta) = Ok ?H"
    using n wk a(1) n2 by (simp add: handle_host_metadata_def dict_in_def g(1) j(1) q(1) l(1) metadata_adjusts_def metadata_graphs_def count_of_def)
  have i: "i < length (h_adjust H)" using assms(9) by (simp add: adjustlist_find_def find_index_Some)
  have "watch_matches (mw_tp w) mt w (Some adj') cnt e = Fault TypePun" for cnt e
    using assms(11-14) a(2,3) by (simp add: adjusted_def)
  then have "calculate_badness mt w (Some adj') mx = Fault TypePun"
    by (cases "[0..<elems (mt_count mt)]") (auto simp: calculate_badness_def Let_def badness_step_def elems_def split: if_splits)
  then show ?thesis using h i by (intro exI[of _ ?H]) simp
qed

definition str_meta :: var where
  "str_meta = leaf 0 '''' (node [leaf 1 ''meter'' (node [leaf 2 ''pcpu'' (node [leaf 3 ''type'' (VStr ''str'')])])])"

lemma retyped_adjustment_reads_number_as_text_witness:
  "\<exists>H'. handle_host_metadata (\<lambda>_. 0) 7 ((host_alloc uuidnil)\<lparr>h_adjust := [\<lparr>wa_type = WATCHADJUST_UINT, wa_id = makeid ''pcpu'' 0,
       wa_adjust = [\<lparr>ad_data = WZero, ad_weight = 0\<rparr>, \<lparr>ad_data = WU64 7, ad_weight = 2\<rparr>,
         \<lparr>ad_data = WZero, ad_weight = 0\<rparr>, \<lparr>ad_data = WZero, ad_weight = 0\<rparr>]\<rparr>]\<rparr>) (Some str_meta) = Ok H' \<and>
     calculate_badness (meter_alloc (makeid ''pcpu'' MTYPE_STR)) \<lparr>mw_trigger = WATCH_WARN, mw_id = makeid ''pcpu'' MTYPE_STR, mw_tp = WATCH_STR_MATCH, mw_dat = WStr ''down'',
       mw_badness = 5\<rparr> (Some (h_adjust H' ! 0)) WATCH_NONE = Fault TypePun"
proof -
  let ?H = "(host_alloc uuidnil)\<lparr>h_adjust := [\<lparr>wa_type = WATCHADJUST_UINT, wa_id = makeid ''pcpu'' 0,
       wa_adjust = [\<lparr>ad_data = WZero, ad_weight = 0\<rparr>, \<lparr>ad_data = WU64 7, ad_weight = 2\<rparr>,
         \<lparr>ad_data = WZero, ad_weight = 0\<rparr>, \<lparr>ad_data = WZero, ad_weight = 0\<rparr>]\<rparr>]\<rparr>"
  let ?m = "JDict [(''type'', JStr ''str'')]"
  have j: "json_of str_meta = JDict [(''meter'', JDict [(''pcpu'', JDict [(''type'', JStr ''str'')])])]"
    by (simp add: str_meta_def leaf_def node_def hdr0_def)
  have ok: "var_ok 7 0 str_meta" "is_dict str_meta"
    by (simp_all add: str_meta_def leaf_def node_def root_at_def link_ok_def key_ok_def hash_ok_def hdr0_def cstr_def is_dict_def)
  have r: "rnd (1 / 10000) < 2" using rnd_mono[of "1 / 10000" 1] rnd_int[of 1] by simp
  have m: "jmember ''meter'' (json_of str_meta) = Some (JDict [(''pcpu'', ?m)])" "jmember ''graph'' (json_of str_meta) = None"
      "json_dictp ?m" "jstr ''type'' ?m = Some ''str''" "jmember ''warning'' ?m = None" "str_levels ?m"
    by (simp_all add: j jmember_def json_dictp_def jstr_def json_str_def str_levels_def)
  have f: "adjustlist_find (h_adjust ?H) (makeid ''pcpu'' 0) = Some 0" by (simp add: adjustlist_find_def)
  have a: "length (wa_adjust (h_adjust ?H ! 0)) = 4" "wa_adjust (h_adjust ?H ! 0) ! 1 = \<lparr>ad_data = WU64 7, ad_weight = 2\<rparr>" by simp_all
  show ?thesis by (rule retyped_adjustment_reads_number_as_text[OF ok m(1,3-6,2) f a r]) simp_all
qed

end
