(* ===== verification/TokenCache.thy ===== *)
theory TokenCache
  imports Var
begin

text \<open>
  What the API server remembers of those who talk to it: \<^verbatim>\<open>opticon-api/tokencache.c\<close>, the
  cache of answers of the external token service, and \<^verbatim>\<open>opticon-api/authsession.c\<close>, the
  sessions of its own users. The clock is an argument, as is the number \<^verbatim>\<open>rand\<close> gives; \<open>ih\<close> is
  the start value of the token hash. The lock of the cache guards whole operations, except that
  a lookup changes entries under the read lock; here operations are atomic.
\<close>

datatype auth_level = AUTH_GUEST | AUTH_USER | AUTH_PROV | AUTH_ADMIN

subsection \<open>Token cache\<close>

text \<open>A tenant list that is NULL has the count 0.\<close>

record tcache_node =
  tn_token :: string
  tn_hash :: u32
  tn_lastref :: time_t
  tn_ctime :: time_t
  tn_tenants :: "uuid list"
  tn_level :: auth_level

record tokencache =
  tc_nodes :: "tcache_node list"
  tc_invalids :: "tcache_node list"
  tc_count :: nat
  tc_last_expire :: time_t

definition TOKEN_TIMEOUT_VALID :: int where "TOKEN_TIMEOUT_VALID = 1800"
definition TOKEN_TIMEOUT_INVALID :: int where "TOKEN_TIMEOUT_INVALID = 60"

definition tcache_node_clear :: tcache_node where
  "tcache_node_clear = \<lparr>tn_token = '''', tn_hash = 0, tn_lastref = 0, tn_ctime = 0, tn_tenants = [], tn_level = AUTH_GUEST\<rparr>"

definition tokencache_init :: "time_t \<Rightarrow> tokencache" where
  "tokencache_init now = \<lparr>tc_nodes = replicate 256 tcache_node_clear, tc_invalids = replicate 16 tcache_node_clear,
     tc_count = 0, tc_last_expire = now\<rparr>"

definition live :: "int \<Rightarrow> time_t \<Rightarrow> tcache_node \<Rightarrow> bool" where
  "live timeout now n \<longleftrightarrow> tn_ctime n + timeout > now"

text \<open>Changing the entries that are in use.\<close>

definition map_first :: "nat \<Rightarrow> ('a \<Rightarrow> 'a) \<Rightarrow> 'a list \<Rightarrow> 'a list" where
  "map_first k f xs = map f (take k xs) @ drop k xs"

definition tokencache_expire :: "time_t \<Rightarrow> tokencache \<Rightarrow> tokencache" where
  "tokencache_expire now c =
     (if now - tc_last_expire c < 60 then c
      else c\<lparr>tc_invalids := map (\<lambda>n. if live TOKEN_TIMEOUT_INVALID now n then n else tcache_node_clear) (tc_invalids c),
             tc_nodes := map_first (tc_count c) (\<lambda>n. if live TOKEN_TIMEOUT_VALID now n then n else tcache_node_clear) (tc_nodes c),
             tc_last_expire := now\<rparr>)"

definition entry_of :: "u32 \<Rightarrow> string \<Rightarrow> tcache_node \<Rightarrow> bool" where
  "entry_of hash token n \<longleftrightarrow> tn_hash n = hash \<and> tn_token n = token"

text \<open>The second half of a lookup, over the valid entries.\<close>

definition lookup_valid :: "u32 \<Rightarrow> string \<Rightarrow> time_t \<Rightarrow> tokencache \<Rightarrow> tokencache \<times> tcache_node option" where
  "lookup_valid hash token now c =
     (case find_index (entry_of hash token) (take (tc_count c) (tc_nodes c)) of
        None \<Rightarrow> (c, None)
      | Some i \<Rightarrow>
          let crsr = tc_nodes c ! i in
          if live TOKEN_TIMEOUT_VALID now crsr then
            (tokencache_expire now (c\<lparr>tc_nodes := (tc_nodes c)[i := crsr\<lparr>tn_lastref := now\<rparr>]\<rparr>), Some (crsr\<lparr>tn_lastref := now\<rparr>))
          else (c\<lparr>tc_nodes := (tc_nodes c)[i := tcache_node_clear]\<rparr>, None))"

definition tokencache_lookup :: "u32 \<Rightarrow> string \<Rightarrow> time_t \<Rightarrow> tokencache \<Rightarrow> tokencache \<times> tcache_node option" where
  "tokencache_lookup ih token now c =
     (let hash = hash_token ih token in
      case find_index (entry_of hash token) (tc_invalids c) of
        Some i \<Rightarrow>
          let crsr = tc_invalids c ! i in
          if live TOKEN_TIMEOUT_INVALID now crsr then
            (tokencache_expire now (c\<lparr>tc_invalids := (tc_invalids c)[i := crsr\<lparr>tn_lastref := now\<rparr>]\<rparr>), Some (crsr\<lparr>tn_lastref := now\<rparr>))
          else lookup_valid hash token now c
      | None \<Rightarrow> lookup_valid hash token now c)"

text \<open>The slot for a new entry: the first that is free or out of date, else the least recently used.\<close>

fun pick_slot :: "int \<Rightarrow> time_t \<Rightarrow> time_t \<Rightarrow> nat option \<Rightarrow> nat \<Rightarrow> tcache_node list \<Rightarrow> nat option" where
  "pick_slot timeout now oldest into i [] = into"
| "pick_slot timeout now oldest into i (crsr # ns) =
     (if tn_hash crsr = 0 \<or> \<not> live timeout now crsr then Some i
      else if tn_lastref crsr < oldest then pick_slot timeout now (tn_lastref crsr) (Some i) (Suc i) ns
      else pick_slot timeout now oldest into (Suc i) ns)"

definition drop_hash :: "u32 \<Rightarrow> tcache_node \<Rightarrow> tcache_node" where
  "drop_hash hash n = (if tn_hash n = hash then tcache_node_clear else n)"

definition token_entry :: "u32 \<Rightarrow> string \<Rightarrow> uuid list \<Rightarrow> auth_level \<Rightarrow> time_t \<Rightarrow> tcache_node" where
  "token_entry ih token tenants level now =
     \<lparr>tn_token = c_truncate 1023 token, tn_hash = hash_token ih token, tn_lastref = now, tn_ctime = now,
      tn_tenants = tenants, tn_level = level\<rparr>"

definition tokencache_store_invalid :: "u32 \<Rightarrow> nat \<Rightarrow> string \<Rightarrow> time_t \<Rightarrow> tokencache \<Rightarrow> tokencache" where
  "tokencache_store_invalid ih random token now c =
     (let k = (case pick_slot TOKEN_TIMEOUT_INVALID now now None 0 (tc_invalids c) of Some k \<Rightarrow> k | None \<Rightarrow> random mod 16) in
      c\<lparr>tc_invalids := (tc_invalids c)[k := token_entry ih token [] AUTH_GUEST now],
        tc_nodes := map_first (tc_count c) (drop_hash (hash_token ih token)) (tc_nodes c)\<rparr>)"

definition tokencache_store_valid :: "u32 \<Rightarrow> nat \<Rightarrow> string \<Rightarrow> uuid list \<Rightarrow> auth_level \<Rightarrow> time_t \<Rightarrow> tokencache \<Rightarrow> tokencache" where
  "tokencache_store_valid ih random token tenants level now c =
     (let (k, count) =
            (if tc_count c < 256 then (tc_count c, Suc (tc_count c))
             else (case pick_slot TOKEN_TIMEOUT_VALID now now None 0 (tc_nodes c) of Some k \<Rightarrow> k | None \<Rightarrow> random mod 256, tc_count c))
      in c\<lparr>tc_nodes := (tc_nodes c)[k := token_entry ih token tenants level now], tc_count := count,
           tc_invalids := map (drop_hash (hash_token ih token)) (tc_invalids c)\<rparr>)"

subsection \<open>Sessions of the API\<close>

record authsession =
  as_hash :: u32
  as_id :: uuid
  as_tenant :: uuid
  as_level :: auth_level
  as_heartbeat :: time_t

type_synonym authsessionlist = "authsession list"

definition SESSION_IDLE_TIMEOUT :: int where "SESSION_IDLE_TIMEOUT = 600"

text \<open>\<open>fresh\<close> is what \<^verbatim>\<open>uuidgen\<close> gives.\<close>

definition authsession_create :: "uuid \<Rightarrow> uuid \<Rightarrow> auth_level \<Rightarrow> time_t \<Rightarrow> authsessionlist \<Rightarrow> authsessionlist \<times> uuid" where
  "authsession_create fresh tenant level now ss =
     (ss @ [\<lparr>as_hash = hash_uuid fresh, as_id = fresh, as_tenant = tenant, as_level = level, as_heartbeat = now\<rparr>], fresh)"

definition authsession_find :: "uuid \<Rightarrow> time_t \<Rightarrow> authsessionlist \<Rightarrow> authsessionlist \<times> authsession option" where
  "authsession_find ident now ss =
     (case find_index (\<lambda>s. as_hash s = hash_uuid ident \<and> uuidcmp (as_id s) ident) ss of
        None \<Rightarrow> (ss, None)
      | Some i \<Rightarrow>
          let crsr = ss ! i in
          if now - as_heartbeat crsr < SESSION_IDLE_TIMEOUT then
            (ss[i := crsr\<lparr>as_heartbeat := now\<rparr>], Some (crsr\<lparr>as_heartbeat := now\<rparr>))
          else if now - as_heartbeat crsr > 2 * SESSION_IDLE_TIMEOUT then (drop_at i ss, None)
          else (ss, None))"

subsection \<open>What the cache promises\<close>

definition cache_ok :: "tokencache \<Rightarrow> bool" where
  "cache_ok c \<longleftrightarrow> length (tc_nodes c) = 256 \<and> length (tc_invalids c) = 16 \<and> tc_count c \<le> 256"

lemma pick_slot_bound:
  assumes "pick_slot timeout now oldest into i ns = Some k" "\<And>j. into = Some j \<Longrightarrow> j < i"
  shows "k < i + length ns"
  using assms
proof (induction ns arbitrary: oldest into i)
  case (Cons n ns)
  then show ?case using Cons.IH[of _ "Some i" "Suc i"] Cons.IH[of oldest into "Suc i"] by (fastforce split: if_splits)
qed fastforce

lemma pick_slot_invalids: "length ns = n \<Longrightarrow> pick_slot timeout now now None 0 ns = Some k \<Longrightarrow> k < n"
  using pick_slot_bound[of timeout now now None 0 ns k] by simp

text \<open>Rejected tokens carry no rights.\<close>

definition guest :: "tcache_node \<Rightarrow> bool" where
  "guest n \<longleftrightarrow> tn_level n = AUTH_GUEST \<and> tn_tenants n = []"

definition cache_inv :: "tokencache \<Rightarrow> bool" where
  "cache_inv c \<longleftrightarrow> cache_ok c \<and> (\<forall>n\<in>set (tc_invalids c). guest n)"

lemma guest_simps [simp]: "guest tcache_node_clear" "guest (n\<lparr>tn_lastref := t\<rparr>) = guest n" "guest (token_entry ih token [] AUTH_GUEST now)"
  by (simp_all add: guest_def tcache_node_clear_def token_entry_def)

lemma map_first_length [simp]: "length (map_first k f xs) = length xs"
  by (simp add: map_first_def)

lemma take_map_first: "k \<le> length xs \<Longrightarrow> take k (map_first k f xs) = map f (take k xs)"
  by (simp add: map_first_def)

lemma expire_inv: "cache_inv c \<Longrightarrow> cache_inv (tokencache_expire now c)"
  by (auto simp: tokencache_expire_def cache_inv_def cache_ok_def)

lemma update_guests: "\<forall>n\<in>set ns. guest n \<Longrightarrow> guest x \<Longrightarrow> \<forall>n\<in>set (ns[i := x]). guest n"
  using set_update_subset_insert[of ns i x] by blast

lemma lookup_valid_inv: "cache_inv c \<Longrightarrow> cache_inv (fst (lookup_valid hash token now c))"
  by (auto simp: lookup_valid_def cache_inv_def cache_ok_def Let_def tokencache_expire_def split: option.split)

lemma lookup_inv:
  assumes "cache_inv c"
  shows "cache_inv (fst (tokencache_lookup ih token now c))"
proof (cases "find_index (entry_of (hash_token ih token) token) (tc_invalids c)")
  case None
  then show ?thesis using lookup_valid_inv[OF assms] by (simp add: tokencache_lookup_def Let_def)
next
  case (Some i)
  let ?n = "tc_invalids c ! i"
  have "i < length (tc_invalids c)" using Some by (simp add: find_index_Some)
  then have "guest (?n\<lparr>tn_lastref := now\<rparr>)" using assms by (simp add: cache_inv_def)
  then have "cache_inv (c\<lparr>tc_invalids := (tc_invalids c)[i := ?n\<lparr>tn_lastref := now\<rparr>]\<rparr>)"
    using assms by (simp add: cache_inv_def cache_ok_def) (rule update_guests, simp_all)
  then show ?thesis using expire_inv lookup_valid_inv[OF assms] Some by (simp add: tokencache_lookup_def Let_def)
qed

lemma store_inv:
  assumes "cache_inv c"
  shows "cache_inv (tokencache_store_invalid ih r token now c)" "cache_inv (tokencache_store_valid ih r token tenants level now c)"
proof -
  show "cache_inv (tokencache_store_invalid ih r token now c)"
    using assms by (simp add: tokencache_store_invalid_def Let_def cache_inv_def cache_ok_def) (rule update_guests, simp_all)
  show "cache_inv (tokencache_store_valid ih r token tenants level now c)"
    using assms by (auto simp: tokencache_store_valid_def Let_def cache_inv_def cache_ok_def drop_hash_def)
qed

lemma init_inv: "cache_inv (tokencache_init now)"
  by (simp add: tokencache_init_def cache_inv_def cache_ok_def)

lemma find_index_put:
  assumes "k < length xs" "P x" "\<forall>y\<in>set xs. \<not> P y"
  shows "find_index P (xs[k := x]) = Some k"
  using assms by (auto simp: find_index_Some nth_list_update)

lemma drop_hash_gone: "hash \<noteq> 0 \<Longrightarrow> \<not> entry_of hash token (drop_hash hash n)"
  by (simp add: entry_of_def drop_hash_def tcache_node_clear_def)

lemma token_cache_laws:
  assumes "cache_inv c" "cstr token" "length token \<le> 1023" "now \<le> now'"
  shows "now' < now + 1800 \<Longrightarrow> \<forall>n\<in>set (take (tc_count c) (tc_nodes c)). \<not> entry_of (hash_token ih token) token n \<Longrightarrow>
      \<exists>n. snd (tokencache_lookup ih token now' (tokencache_store_valid ih r token tenants level now c)) = Some n \<and>
        tn_tenants n = tenants \<and> tn_level n = level"
    "\<And>n. snd (tokencache_lookup ih token now' (tokencache_store_invalid ih r token now c)) = Some n \<Longrightarrow> guest n"
proof -
  let ?h = "hash_token ih token"
  note nz = hash_token_nonzero[of ih token]
  have ok: "length (tc_nodes c) = 256" "length (tc_invalids c) = 16" "tc_count c \<le> 256"
    using assms(1) by (simp_all add: cache_inv_def cache_ok_def)
  have tok: "c_truncate 1023 token = token" using assms(2,3) by (simp add: c_truncate_id)
  {
    let ?c = "tokencache_store_invalid ih r token now c"
    have inv: "cache_inv ?c" by (rule store_inv(1)[OF assms(1)])
    have "take (tc_count ?c) (tc_nodes ?c) = map (drop_hash ?h) (take (tc_count c) (tc_nodes c))"
      using ok(1,3) by (simp add: tokencache_store_invalid_def Let_def take_map_first)
    then have none: "find_index (entry_of ?h token) (take (tc_count ?c) (tc_nodes ?c)) = None"
      using drop_hash_gone[OF nz] by (simp add: find_index_None)
    show "guest n" if "snd (tokencache_lookup ih token now' ?c) = Some n" for n
    proof (cases "find_index (entry_of ?h token) (tc_invalids ?c)")
      case None
      then show ?thesis using that none by (simp add: tokencache_lookup_def lookup_valid_def Let_def)
    next
      case (Some i)
      then have "guest (tc_invalids ?c ! i)" using inv by (simp add: cache_inv_def find_index_Some)
      then show ?thesis using that none Some by (auto simp: tokencache_lookup_def lookup_valid_def Let_def split: if_splits)
    qed
  }
  assume t: "now' < now + 1800" and new: "\<forall>n\<in>set (take (tc_count c) (tc_nodes c)). \<not> entry_of ?h token n"
  let ?c = "tokencache_store_valid ih r token tenants level now c"
  let ?e = "token_entry ih token tenants level now"
  have e: "entry_of ?h token ?e" using tok by (simp add: entry_of_def token_entry_def)
  have inv: "find_index (entry_of ?h token) (tc_invalids ?c) = None"
    using drop_hash_gone[OF nz] by (auto simp: find_index_None tokencache_store_valid_def Let_def)
  obtain k where k: "find_index (entry_of ?h token) (take (tc_count ?c) (tc_nodes ?c)) = Some k" "tc_nodes ?c ! k = ?e"
  proof (cases "tc_count c < 256")
    case True
    then have "take (tc_count ?c) (tc_nodes ?c) = take (tc_count c) (tc_nodes c) @ [?e]"
      using ok(1) by (simp add: tokencache_store_valid_def Let_def take_update_swap take_Suc_conv_app_nth list_update_append)
    then have "find_index (entry_of ?h token) (take (tc_count ?c) (tc_nodes ?c)) = Some (tc_count c)"
      using new e ok(1) True by (simp add: find_index_append find_index_None[THEN iffD2])
    moreover have "tc_nodes ?c ! tc_count c = ?e" using True ok(1) by (simp add: tokencache_store_valid_def Let_def)
    ultimately show ?thesis using that by blast
  next
    case False
    then have full: "tc_count c = 256" using ok(3) by simp
    define k where "k = (case pick_slot TOKEN_TIMEOUT_VALID now now None 0 (tc_nodes c) of Some k \<Rightarrow> k | None \<Rightarrow> r mod 256)"
    have k: "k < length (tc_nodes c)"
      using pick_slot_invalids[OF ok(1)] ok(1) by (simp add: k_def split: option.split)
    have c: "tc_nodes ?c = (tc_nodes c)[k := ?e]" "tc_count ?c = 256"
      using full by (simp_all add: tokencache_store_valid_def Let_def k_def)
    have "find_index (entry_of ?h token) ((tc_nodes c)[k := ?e]) = Some k"
      using find_index_put[OF k] e new full ok(1) by simp
    then show ?thesis using that[of k] c k ok(1) by simp
  qed
  have "live TOKEN_TIMEOUT_VALID now' ?e" using t by (simp add: live_def TOKEN_TIMEOUT_VALID_def token_entry_def)
  then show "\<exists>n. snd (tokencache_lookup ih token now' ?c) = Some n \<and> tn_tenants n = tenants \<and> tn_level n = level"
    using k inv by (simp add: tokencache_lookup_def lookup_valid_def Let_def token_entry_def)
qed

text \<open>
  C27: A token that the service accepted is answered from the cache, with its tenants and level,
  for half an hour, provided that there was no entry for it; once the service has rejected a
  token, no lookup answers it with any rights until it is accepted again.
\<close>

theorem token_cache_sound:
  assumes "cache_inv c" "cstr token" "length token \<le> 1023" "now \<le> now'"
  shows "(now' < now + 1800 \<and> (\<forall>n\<in>set (take (tc_count c) (tc_nodes c)). \<not> entry_of (hash_token ih token) token n) \<longrightarrow>
      (\<exists>n. snd (tokencache_lookup ih token now' (tokencache_store_valid ih r token tenants level now c)) = Some n \<and>
        tn_tenants n = tenants \<and> tn_level n = level)) \<and>
    (\<forall>n. snd (tokencache_lookup ih token now' (tokencache_store_invalid ih r token now c)) = Some n \<longrightarrow> guest n)"
  using token_cache_laws[OF assms] by blast

lemma token_cache_sound_witness:
  "\<exists>n. snd (tokencache_lookup 0 ''tok'' 1100 (tokencache_store_valid 0 0 ''tok'' [uuidnil] AUTH_USER 1000 (tokencache_init 0))) = Some n \<and>
     tn_tenants n = [uuidnil] \<and> tn_level n = AUTH_USER"
  using token_cache_sound[of "tokencache_init 0" "''tok''" 1000 1100 0 0 "[uuidnil]" AUTH_USER] init_inv
  by (simp add: cstr_def tokencache_init_def)

end
