(* ===== verification/ApiRoute.thy ===== *)
theory ApiRoute
  imports TokenCache VarParse
begin

text \<open>
  The request path of the API server: the request context, the matching of URLs and the
  dispatch of \<^verbatim>\<open>opticon-api/req_context.c\<close>, and the filters and routes of
  \<^verbatim>\<open>opticon-api/main.c\<close>. The HTTP library is outside: a request is its method, URL, headers and
  body. The handlers are named by their C functions; what a handler answers is a parameter of
  the dispatch.
\<close>

subsection \<open>Requests\<close>

definition REQ_GET :: u8 where "REQ_GET = 0x01"
definition REQ_POST :: u8 where "REQ_POST = 0x02"
definition REQ_PUT :: u8 where "REQ_PUT = 0x04"
definition REQ_DELETE :: u8 where "REQ_DELETE = 0x08"
definition REQ_OPTIONS :: u8 where "REQ_OPTIONS = 0x10"
definition REQ_OTHER :: u8 where "REQ_OTHER = 0x20"
definition REQ_UPDATE :: u8 where "REQ_UPDATE = REQ_POST OR REQ_PUT"
definition REQ_ANY :: u8 where "REQ_ANY = REQ_UPDATE OR REQ_GET OR REQ_DELETE OR REQ_OPTIONS OR REQ_OTHER"

lemmas req_method_defs = REQ_GET_def REQ_POST_def REQ_PUT_def REQ_DELETE_def REQ_OPTIONS_def REQ_OTHER_def
  REQ_UPDATE_def REQ_ANY_def

text \<open>The body keeps the size of its buffer; a NULL list of tenants has the count 0.\<close>

record req_context =
  rc_headers :: var
  rc_bodyjson :: var
  rc_outhdr :: var
  rc_status :: int
  rc_method :: u8
  rc_remote :: string
  rc_ctype :: "string option"
  rc_body :: "(nat \<times> string) option"
  rc_tenantid :: uuid
  rc_hostid :: uuid
  rc_userlevel :: auth_level
  rc_opticon_token :: uuid
  rc_external_token :: "string option"
  rc_original_ip :: "string option"
  rc_auth_tenants :: "uuid list"

definition req_context_alloc :: req_context where
  "req_context_alloc = \<lparr>rc_headers = var_alloc, rc_bodyjson = var_alloc, rc_outhdr = var_alloc, rc_status = 500, rc_method = 0,
     rc_remote = '''', rc_ctype = None, rc_body = None, rc_tenantid = uuidnil, rc_hostid = uuidnil, rc_userlevel = AUTH_GUEST,
     rc_opticon_token = uuidnil, rc_external_token = None, rc_original_ip = None, rc_auth_tenants = []\<rparr>"

definition req_context_set_method :: "req_context \<Rightarrow> string \<Rightarrow> req_context" where
  "req_context_set_method self mth = self\<lparr>rc_method :=
     (if strcasecmp mth ''get'' = 0 then REQ_GET else if strcasecmp mth ''post'' = 0 then REQ_POST
      else if strcasecmp mth ''put'' = 0 then REQ_PUT else if strcasecmp mth ''delete'' = 0 then REQ_DELETE
      else if strcasecmp mth ''options'' = 0 then REQ_OPTIONS else REQ_OTHER)\<rparr>"

definition upper :: "char \<Rightarrow> char" where
  "upper c = (let n = (of_char c :: nat) in if 97 \<le> n \<and> n \<le> 122 then char_of (n - 32) else c)"

definition lower :: "char \<Rightarrow> char" where
  "lower c = (let n = (of_char c :: nat) in if 65 \<le> n \<and> n \<le> 90 then char_of (n + 32) else c)"

fun canon_header :: "bool \<Rightarrow> string \<Rightarrow> string" where
  "canon_header needcap [] = []"
| "canon_header needcap (c # cs) =
     (if needcap then upper c # canon_header False cs
      else if c = CHR ''-'' then c # canon_header True cs
      else lower c # canon_header False cs)"

definition req_context_set_header :: "u32 \<Rightarrow> req_context \<Rightarrow> string \<Rightarrow> string \<Rightarrow> req_context res" where
  "req_context_set_header ih self hdrname hdrval =
     (let canon = canon_header True hdrname in
      rbind (var_set_str_forkey ih (rc_headers self) [] canon hdrval) (\<lambda>(hs, _).
        let self = self\<lparr>rc_headers := hs\<rparr> in
        Ok (if canon = ''X-Auth-Token'' then self\<lparr>rc_external_token := Some hdrval\<rparr>
            else if canon = ''X-Opticon-Token'' then self\<lparr>rc_opticon_token := mkuuid (Some hdrval)\<rparr>
            else if canon = ''Content-Type'' then self\<lparr>rc_ctype := Some hdrval\<rparr>
            else if canon = ''X-Forwarded-For'' then self\<lparr>rc_original_ip := Some hdrval\<rparr>
            else self)))"

definition mkallocsz :: "nat \<Rightarrow> nat" where
  "mkallocsz target =
     (if target < 4096 then 4096 else if target < 8192 then 8192 else if target < 16384 then 16384
      else if target < 65536 then 65536 else target + 4096)"

definition req_context_append_body :: "req_context \<Rightarrow> string \<Rightarrow> req_context res" where
  "req_context_append_body self dt =
     (let (al, body) = (case rc_body self of None \<Rightarrow> (mkallocsz (length dt), '''') | Some b \<Rightarrow> b);
          n = length body + length dt + 1;
          al = (if n > al then mkallocsz n else al)
      in if al < n then Fault HeapOverflow else Ok (self\<lparr>rc_body := Some (al, body @ dt)\<rparr>))"

text \<open>The result is whether the body could be parsed; a body without a content type is a fault.\<close>

definition req_context_parse_body :: "u32 \<Rightarrow> req_context \<Rightarrow> (req_context \<times> bool) res option" where
  "req_context_parse_body ih self =
     (case rc_body self of
        None \<Rightarrow> Some (Ok (self, True))
      | Some (al, body) \<Rightarrow>
          (case rc_ctype self of
             None \<Rightarrow> Some (Fault NullDeref)
           | Some ctype \<Rightarrow>
               if strcasecmp ctype ''application/json'' \<noteq> 0 then Some (Ok (self, False))
               else (case var_parse_json ih (rc_bodyjson self) (takeWhile (\<lambda>c. c \<noteq> CHR 0x00) body) of
                   None \<Rightarrow> None
                 | Some (Fault e) \<Rightarrow> Some (Fault e)
                 | Some (Ok (b, v, _, _)) \<Rightarrow> Some (Ok (self\<lparr>rc_bodyjson := v\<rparr>, b)))))"

text \<open>The address of the client, which a proxy on the same machine may name.\<close>

definition remote_address :: "string \<Rightarrow> string option \<Rightarrow> string" where
  "remote_address peer original_ip =
     (if peer = ''127.0.0.1'' then
        (case original_ip of None \<Rightarrow> peer | Some s \<Rightarrow> c_truncate 45 (takeWhile (\<lambda>c. c \<noteq> CHR '','') s))
      else peer)"

subsection \<open>Matching a URL\<close>

definition chr_at :: "string \<Rightarrow> nat \<Rightarrow> char" where
  "chr_at s i = (if i < length s then s ! i else CHR 0x00)"

definition digits :: string where "digits = ''0123456789''"

definition field_chars :: "char \<Rightarrow> string" where
  "field_chars tp =
     (if tp = CHR ''S'' then digits @ ''_-.'' @ ''abcdefghijklmnopqrstuvwxyz'' @ ''ABCDEFGHIJKLMNOPQRSTUVWXYZ''
      else if tp = CHR ''U'' then digits @ ''abcdef-''
      else if tp = CHR ''T'' then digits @ ''-:TZ''
      else digits)"

definition field_count :: "char \<Rightarrow> string \<Rightarrow> nat" where
  "field_count tp field =
     (if tp = CHR ''U'' then length (filter (\<lambda>c. c \<noteq> CHR ''-'') field)
      else if tp = CHR ''T'' then length (filter (\<lambda>c. c \<in> set digits) field)
      else length field)"

definition field_ok :: "char \<Rightarrow> string \<Rightarrow> bool" where
  "field_ok tp field \<longleftrightarrow>
     (tp = CHR ''s'' \<or> set field \<subseteq> set (field_chars tp)) \<and>
     (tp = CHR ''U'' \<longrightarrow> field_count tp field = 32) \<and>
     (tp = CHR ''T'' \<longrightarrow> 12 \<le> field_count tp field \<and> field_count tp field \<le> 14) \<and>
     1 \<le> field_count tp field"

text \<open>The end of a round: the next characters of the pattern and the URL, or a verdict.\<close>

definition advance_match :: "string \<Rightarrow> string \<Rightarrow> bool + (string \<times> string)" where
  "advance_match cmatch curl =
     (if chr_at cmatch 0 = CHR ''*'' then (if curl = [] then Inl True else Inr (cmatch, curl))
      else if chr_at cmatch 0 \<noteq> chr_at curl 0 then Inl False
      else if curl = [] then Inl True
      else Inr (tl cmatch, tl curl))"

lemma advance_match_size:
  assumes "advance_match m c = Inr (m', c')"
  shows "length m' + length c' \<le> length m + length c"
    "c \<noteq> [] \<Longrightarrow> chr_at m 0 \<noteq> CHR ''*'' \<Longrightarrow> length c' < length c \<and> length m' \<le> length m"
  using assms by (auto simp: advance_match_def split: if_splits)

function req_match_check :: "string \<Rightarrow> string \<Rightarrow> string list \<Rightarrow> (bool \<times> string list) res" where
  "req_match_check cmatch curl args =
     (if curl = [] then Ok (cmatch = [], args)
      else if cmatch = ''*'' then Ok (True, args)
      else if chr_at cmatch 0 = CHR ''*'' then
        (let r = dropWhile (\<lambda>c. c \<noteq> chr_at cmatch 1) curl in
         if r = [] then Ok (False, args)
         else (case advance_match (tl cmatch) r of Inl b \<Rightarrow> Ok (b, args) | Inr (m, c) \<Rightarrow> req_match_check m c args))
      else if chr_at cmatch 0 = CHR ''%'' then
        (let tp = chr_at cmatch 1; field = takeWhile (\<lambda>c. c \<noteq> CHR ''/'') curl; r = dropWhile (\<lambda>c. c \<noteq> CHR ''/'') curl in
         if length cmatch < 2 then Fault OutOfBounds
         else if tp \<notin> set ''sSUTi'' then Fault AssertFail
         else if \<not> field_ok tp field then Ok (False, args)
         else (case advance_match (drop 2 cmatch) r of
             Inl b \<Rightarrow> Ok (b, args @ [field]) | Inr (m, c) \<Rightarrow> req_match_check m c (args @ [field])))
      else (case advance_match cmatch curl of Inl b \<Rightarrow> Ok (b, args) | Inr (m, c) \<Rightarrow> req_match_check m c args))"
  by pat_completeness auto

termination
proof (relation "measure (\<lambda>(cmatch, curl, args). length cmatch + length curl)")
  fix cmatch curl r m c :: string and b and args :: "string list"
  assume "chr_at cmatch 0 = CHR ''*''" "r = dropWhile (\<lambda>c. c \<noteq> chr_at cmatch 1) curl"
    "advance_match (tl cmatch) r = Inr b" "(m, c) = b"
  then have "length m + length c \<le> length (tl cmatch) + length r" "length r \<le> length curl" "cmatch \<noteq> []"
    using advance_match_size(1)[of "tl cmatch" r m c] by (auto simp: length_dropWhile_le chr_at_def)
  then show "((m, c, args), cmatch, curl, args) \<in> measure (\<lambda>(cmatch, curl, args). length cmatch + length curl)"
    by (cases cmatch) auto
next
  fix cmatch curl field r m c :: string and b and args :: "string list"
  assume "r = dropWhile (\<lambda>c. c \<noteq> CHR ''/'') curl" "\<not> length cmatch < 2" "advance_match (drop 2 cmatch) r = Inr b" "(m, c) = b"
  then show "((m, c, args @ [field]), cmatch, curl, args) \<in> measure (\<lambda>(cmatch, curl, args). length cmatch + length curl)"
    using advance_match_size(1)[of "drop 2 cmatch" r m c] length_dropWhile_le[of "\<lambda>c. c \<noteq> CHR ''/''" curl] by auto
next
  fix cmatch curl m c :: string and b and args :: "string list"
  assume "curl \<noteq> []" "chr_at cmatch 0 \<noteq> CHR ''*''" "advance_match cmatch curl = Inr b" "(m, c) = b"
  then show "((m, c, args), cmatch, curl, args) \<in> measure (\<lambda>(cmatch, curl, args). length cmatch + length curl)"
    using advance_match_size(2)[of cmatch curl m c] by auto
qed simp

declare req_match_check.simps [simp del]

subsection \<open>Errors\<close>

abbreviation err_status :: "int \<Rightarrow> req_context \<Rightarrow> req_context" where "err_status n ctx \<equiv> ctx\<lparr>rc_status := n\<rparr>"

definition err_server_error :: "req_context \<Rightarrow> req_context \<times> bool" where "err_server_error ctx = (err_status 500 ctx, True)"
definition err_unauthorized :: "req_context \<Rightarrow> req_context \<times> bool" where "err_unauthorized ctx = (err_status 403 ctx, True)"
definition err_not_allowed :: "req_context \<Rightarrow> req_context \<times> bool" where "err_not_allowed ctx = (err_status 401 ctx, True)"
definition err_not_found :: "req_context \<Rightarrow> req_context \<times> bool" where "err_not_found ctx = (err_status 404 ctx, True)"
definition err_method_not_allowed :: "req_context \<Rightarrow> req_context \<times> bool" where
  "err_method_not_allowed ctx = (err_status 405 ctx, True)"

subsection \<open>External tokens\<close>

text \<open>
  \<open>service\<close> is the token service: None where no address for it is configured or found, else the
  answer to a token as a variable, None again for a failed call. The names of
  tenants that the handlers also collect in \<^verbatim>\<open>auth_data\<close> are left out; that a name or id that is
  missing crashes there is not.
\<close>

definition handle_external_token_openstack :: "u32 \<Rightarrow> (string \<Rightarrow> var option) option \<Rightarrow> string \<Rightarrow> req_context \<Rightarrow> (req_context \<times> bool) res" where
  "handle_external_token_openstack ih service token ctx0 =
     (let ctx = ctx0\<lparr>rc_auth_tenants := []\<rparr> in
      case map_option (\<lambda>f. f token) service of
        None \<Rightarrow> Ok (ctx0, False)
      | Some None \<Rightarrow> Ok (ctx, False)
      | Some (Some v) \<Rightarrow>
          rbind (var_get_array_forkey ih v [] ''tenants'') (\<lambda>(v, p). case p of
              None \<Rightarrow> Fault NullDeref
            | Some p \<Rightarrow>
                let ts = map (\<lambda>crsr. var_get_uuid_forkey ih crsr ''id'') (kids_of (place_var v p)) in
                if ts = [] then Ok (ctx, False) else Ok (ctx\<lparr>rc_auth_tenants := ts, rc_userlevel := AUTH_USER\<rparr>, True)))"

definition unithost_account :: "u32 \<Rightarrow> var \<Rightarrow> req_context \<Rightarrow> (req_context \<times> bool) res" where
  "unithost_account ih v ctx =
     (case kid_forkey ih v ''tenant'' of
        None \<Rightarrow> Ok (ctx\<lparr>rc_auth_tenants := []\<rparr>, False)
      | Some _ \<Rightarrow>
          let ctx = ctx\<lparr>rc_auth_tenants := [var_get_uuid_forkey ih v ''tenant'']\<rparr> in
          (case kid_forkey ih v ''account'' of
             None \<Rightarrow> Ok (ctx, False)
           | Some acc \<Rightarrow>
               let company = var_get_str_forkey ih acc ''company'';
                   idname = (if company = None \<or> company = Some '''' then var_get_str_forkey ih acc ''contact'' else company) in
               if var_get_str_forkey ih v ''tenant'' = None \<or> idname = None then Fault NullDeref
               else Ok (ctx\<lparr>rc_userlevel := AUTH_USER\<rparr>, True)))"

definition handle_external_token_unithost :: "u32 \<Rightarrow> (string \<Rightarrow> var option) option \<Rightarrow> string \<Rightarrow> req_context \<Rightarrow> (req_context \<times> bool) res" where
  "handle_external_token_unithost ih service token ctx0 =
     (let ctx = ctx0\<lparr>rc_userlevel := AUTH_GUEST, rc_auth_tenants := []\<rparr> in
      case map_option (\<lambda>f. f token) service of
        None \<Rightarrow> Ok (ctx0, False)
      | Some None \<Rightarrow> Ok (ctx, False)
      | Some (Some v) \<Rightarrow>
          rbind (unithost_account ih v ctx) (\<lambda>(ctx, retcode).
          rbind (var_get_array_forkey ih v [] ''roles'') (\<lambda>(v, p). case p of
              None \<Rightarrow> Ok (ctx, retcode)
            | Some p \<Rightarrow>
                let roles = place_var v p in
                if var_contains_str roles ''ADMIN'' then Ok (ctx\<lparr>rc_userlevel := AUTH_ADMIN\<rparr>, True)
                else if var_contains_str roles ''PROVISIONING'' then Ok (ctx\<lparr>rc_userlevel := AUTH_PROV\<rparr>, True)
                else Ok (ctx, retcode))))"

text \<open>The configured kind of authentication, as far as it has external tokens.\<close>

datatype authtype = AUTH_UNSET | AUTH_INTERNAL | AUTH_OPENSTACK | AUTH_UNITHOST

definition handle_external_token :: "u32 \<Rightarrow> authtype \<Rightarrow> (string \<Rightarrow> var option) option \<Rightarrow> req_context \<Rightarrow> (req_context \<times> bool) res" where
  "handle_external_token ih auth service ctx =
     (case rc_external_token ctx of
        None \<Rightarrow> Ok (ctx, False)
      | Some token \<Rightarrow>
          if length token < 2 then Ok (ctx, False)
          else (case auth of
              AUTH_OPENSTACK \<Rightarrow> handle_external_token_openstack ih service token ctx
            | AUTH_UNITHOST \<Rightarrow> handle_external_token_unithost ih service token ctx
            | _ \<Rightarrow> Ok (ctx, False)))"

subsection \<open>Filters\<close>

record api =
  ap_cache :: tokencache
  ap_sessions :: authsessionlist

record api_env =
  ae_ih :: u32
  ae_now :: time_t
  ae_random :: nat
  ae_adminhost :: string
  ae_admintoken :: uuid
  ae_auth :: authtype
  ae_service :: "(string \<Rightarrow> var option) option"
  ae_handler :: "string \<Rightarrow> api \<Rightarrow> req_context \<Rightarrow> string list \<Rightarrow> api \<times> int"

definition flt_add_cors :: "u32 \<Rightarrow> req_context \<Rightarrow> (req_context \<times> bool) res" where
  "flt_add_cors ih ctx =
     rbind (var_set_str_forkey ih (rc_outhdr ctx) [] ''Content-type'' ''application/json'') (\<lambda>(h, _).
     rbind (var_set_str_forkey ih h [] ''Access-Control-Allow-Origin'' ''*'') (\<lambda>(h, _).
     rbind (var_set_str_forkey ih h [] ''Access-Control-Allow-Methods'' ''GET, POST, PUT, DELETE, OPTIONS, PATCH'') (\<lambda>(h, _).
     rbind (var_set_str_forkey ih h [] ''Access-Control-Allow-Headers'' ''Content-type, X-Auth-Token'') (\<lambda>(h, _).
       let ctx = ctx\<lparr>rc_outhdr := h\<rparr> in
       Ok (if rc_method ctx = REQ_OPTIONS then (err_status 200 ctx, True) else (ctx, False))))))"

definition check_opticon_token :: "api_env \<Rightarrow> authsession option \<Rightarrow> req_context \<Rightarrow> req_context" where
  "check_opticon_token env s ctx =
     (case s of
        Some s \<Rightarrow> ctx\<lparr>rc_userlevel := as_level s, rc_auth_tenants := [as_tenant s]\<rparr>
      | None \<Rightarrow>
          if ae_adminhost env \<noteq> rc_remote ctx then ctx\<lparr>rc_userlevel := AUTH_GUEST\<rparr>
          else if uuidcmp (rc_opticon_token ctx) (ae_admintoken env) then ctx\<lparr>rc_userlevel := AUTH_ADMIN\<rparr>
          else ctx\<lparr>rc_userlevel := AUTH_GUEST\<rparr>)"

definition check_external_token :: "api_env \<Rightarrow> string \<Rightarrow> tokencache \<Rightarrow> req_context \<Rightarrow> (tokencache \<times> req_context \<times> bool) res" where
  "check_external_token env token cache ctx =
     (case tokencache_lookup (ae_ih env) token (ae_now env) cache of
        (cache, Some n) \<Rightarrow>
          let ctx = ctx\<lparr>rc_auth_tenants := tn_tenants n, rc_userlevel := tn_level n\<rparr> in
          Ok (cache, if rc_userlevel ctx = AUTH_GUEST then err_unauthorized ctx else (ctx, False))
      | (cache, None) \<Rightarrow>
          rbind (handle_external_token (ae_ih env) (ae_auth env) (ae_service env) ctx) (\<lambda>(ctx, ok).
            Ok (if \<not> ok then (tokencache_store_invalid (ae_ih env) (ae_random env) token (ae_now env) cache, err_unauthorized ctx)
                else (tokencache_store_valid (ae_ih env) (ae_random env) token (rc_auth_tenants ctx) (rc_userlevel ctx) (ae_now env) cache,
                      ctx, False))))"

text \<open>A token of its own that the server does not know leaves the request a guest, and goes on.\<close>

definition flt_check_validuser :: "api_env \<Rightarrow> api \<Rightarrow> req_context \<Rightarrow> (api \<times> req_context \<times> bool) res" where
  "flt_check_validuser env api ctx =
     (if uuidvalid (rc_opticon_token ctx) then
        (let (ss, s) = authsession_find (rc_opticon_token ctx) (ae_now env) (ap_sessions api) in
         Ok (api\<lparr>ap_sessions := ss\<rparr>, check_opticon_token env s ctx, False))
      else (case rc_external_token ctx of
          Some token \<Rightarrow>
            rbind (check_external_token env token (ap_cache api) ctx) (\<lambda>(c, r). Ok (api\<lparr>ap_cache := c\<rparr>, r))
        | None \<Rightarrow> Ok (api, err_unauthorized ctx)))"

definition flt_check_admin :: "req_context \<Rightarrow> req_context \<times> bool" where
  "flt_check_admin ctx = (if rc_userlevel ctx \<noteq> AUTH_ADMIN then err_not_allowed ctx else (ctx, False))"

definition flt_check_prov :: "req_context \<Rightarrow> req_context \<times> bool" where
  "flt_check_prov ctx =
     (if rc_userlevel ctx \<noteq> AUTH_ADMIN \<and> rc_userlevel ctx \<noteq> AUTH_PROV then err_not_allowed ctx else (ctx, False))"

definition flt_check_tenant :: "string list \<Rightarrow> req_context \<Rightarrow> req_context \<times> bool" where
  "flt_check_tenant args ctx =
     (if args = [] then err_server_error ctx
      else
        let ctx = ctx\<lparr>rc_tenantid := mkuuid (Some (hd args))\<rparr> in
        if \<not> uuidvalid (rc_tenantid ctx) then err_server_error ctx
        else if rc_userlevel ctx = AUTH_ADMIN \<or> rc_userlevel ctx = AUTH_PROV then (ctx, False)
        else if list_ex (\<lambda>t. uuidcmp t (rc_tenantid ctx)) (rc_auth_tenants ctx) then (ctx, False)
        else err_not_allowed ctx)"

definition flt_check_host :: "string list \<Rightarrow> req_context \<Rightarrow> req_context \<times> bool" where
  "flt_check_host args ctx =
     (if length args < 2 then err_server_error ctx
      else
        let ctx = ctx\<lparr>rc_hostid := mkuuid (Some (args ! 1))\<rparr> in
        if \<not> uuidvalid (rc_hostid ctx) then err_server_error ctx else (ctx, False))"

subsection \<open>Routes\<close>

datatype action = FltAddCors | FltCheckValiduser | FltCheckAdmin | FltCheckTenant | FltCheckHost
  | ErrMethodNotAllowed | ErrNotFound | Cmd string | CmdText string

record req_match =
  rm_str :: string
  rm_mask :: u8
  rm_action :: action

type_synonym req_matchlist = "req_match list"

definition req_matchlist_add :: "string \<Rightarrow> u8 \<Rightarrow> action \<Rightarrow> req_match" where
  "req_matchlist_add s mmask a = \<lparr>rm_str = s, rm_mask = mmask, rm_action = a\<rparr>"

abbreviation on_cmd :: "string \<Rightarrow> u8 \<Rightarrow> string \<Rightarrow> req_match" where "on_cmd s m f \<equiv> req_matchlist_add s m (Cmd f)"
abbreviation on_text :: "string \<Rightarrow> u8 \<Rightarrow> string \<Rightarrow> req_match" where "on_text s m f \<equiv> req_matchlist_add s m (CmdText f)"
abbreviation on_flt :: "string \<Rightarrow> u8 \<Rightarrow> action \<Rightarrow> req_match" where "on_flt s m a \<equiv> req_matchlist_add s m a"

text \<open>The routes up to the tenant check, and those behind it.\<close>

definition public_routes :: req_matchlist where
  "public_routes = [
     on_cmd ''/obligatory-dancing-bears'' REQ_GET ''cmd_dancing_bears'',
     on_flt ''*'' REQ_ANY FltAddCors,
     on_cmd ''/login'' REQ_POST ''cmd_login'',
     on_flt ''*'' REQ_ANY FltCheckValiduser,
     on_cmd ''/'' REQ_GET ''cmd_list_tenants'',
     on_flt ''/'' REQ_ANY ErrMethodNotAllowed,
     on_cmd ''/token'' REQ_GET ''cmd_token'',
     on_flt ''/session'' REQ_GET FltCheckAdmin,
     on_cmd ''/session'' REQ_GET ''cmd_list_sessions'',
     on_cmd ''/user/%s'' REQ_UPDATE ''cmd_user_set'',
     on_cmd ''/user/%s'' REQ_DELETE ''cmd_user_delete'',
     on_flt ''/any*'' REQ_ANY FltCheckAdmin,
     on_cmd ''/any/host/overview'' REQ_GET ''cmd_host_any_overview'',
     on_text ''/any/host/%U'' REQ_GET ''cmd_host_any_get'',
     on_cmd ''/any/host/%U/tenant'' REQ_GET ''cmd_host_any_get_tenant'']"

definition tenant_routes :: req_matchlist where
  "tenant_routes = [
     on_cmd ''/%U'' REQ_GET ''cmd_tenant_get'',
     on_cmd ''/%U'' REQ_POST ''cmd_tenant_create'',
     on_cmd ''/%U'' REQ_PUT ''cmd_tenant_update'',
     on_flt ''/%U'' REQ_DELETE FltCheckAdmin,
     on_cmd ''/%U'' REQ_DELETE ''cmd_tenant_delete'',
     on_cmd ''/%U/summary'' REQ_GET ''cmd_tenant_get_summary'',
     on_cmd ''/%U/quota'' REQ_GET ''cmd_tenant_get_quota'',
     on_cmd ''/%U/meta'' REQ_GET ''cmd_tenant_get_meta'',
     on_cmd ''/%U/meta'' REQ_UPDATE ''cmd_tenant_set_meta'',
     on_flt ''/%U/meta'' REQ_ANY ErrMethodNotAllowed,
     on_cmd ''/%U/meter'' REQ_GET ''cmd_tenant_list_meters'',
     on_cmd ''/%U/meter/%S'' REQ_UPDATE ''cmd_tenant_set_meter'',
     on_cmd ''/%U/meter/%S/%S'' REQ_UPDATE ''cmd_tenant_set_meter'',
     on_cmd ''/%U/meter/%S'' REQ_DELETE ''cmd_tenant_delete_meter'',
     on_cmd ''/%U/meter/%S/%S'' REQ_DELETE ''cmd_tenant_delete_meter'',
     on_cmd ''/%U/watcher'' REQ_GET ''cmd_tenant_list_watchers'',
     on_cmd ''/%U/watcher/%S'' REQ_UPDATE ''cmd_tenant_set_watcher'',
     on_cmd ''/%U/watcher/%S/%S'' REQ_UPDATE ''cmd_tenant_set_watcher'',
     on_cmd ''/%U/watcher/%S'' REQ_DELETE ''cmd_tenant_delete_watcher'',
     on_cmd ''/%U/watcher/%S/%S'' REQ_DELETE ''cmd_tenant_delete_watcher'',
     on_cmd ''/%U/host'' REQ_GET ''cmd_tenant_list_hosts'',
     on_flt ''/%U/host'' REQ_ANY ErrMethodNotAllowed]"

definition host_routes :: req_matchlist where
  "host_routes = [
     on_cmd ''/%U/host/overview'' REQ_GET ''cmd_host_overview'',
     on_flt ''/%U/host/%U*'' REQ_ANY FltCheckHost,
     on_text ''/%U/host/%U'' REQ_GET ''cmd_host_get'',
     on_cmd ''/%U/host/%U'' REQ_DELETE ''cmd_host_remove'',
     on_flt ''/%U/host/%U'' REQ_ANY ErrMethodNotAllowed,
     on_cmd ''/%U/host/%U/log'' REQ_GET ''cmd_host_get_log'',
     on_cmd ''/%U/host/%U/externaldata'' REQ_GET ''cmd_host_get_external'',
     on_cmd ''/%U/host/%U/watcher'' REQ_GET ''cmd_host_list_watchers'',
     on_flt ''/%U/host/%U/watcher'' REQ_ANY ErrMethodNotAllowed,
     on_cmd ''/%U/host/%U/watcher/%S'' REQ_UPDATE ''cmd_host_set_watcher'',
     on_cmd ''/%U/host/%U/watcher/%S/%S'' REQ_UPDATE ''cmd_host_set_watcher'',
     on_cmd ''/%U/host/%U/watcher/%S'' REQ_DELETE ''cmd_host_delete_watcher'',
     on_cmd ''/%U/host/%U/watcher/%S/%S'' REQ_DELETE ''cmd_host_delete_watcher'',
     on_cmd ''/%U/host/%U/range/%T/%T'' REQ_GET ''cmd_host_get_range'',
     on_cmd ''/%U/host/%U/graph'' REQ_GET ''cmd_host_list_graphs'',
     on_cmd ''/%U/host/%U/graph/%S/%S/%i/%i'' REQ_GET ''cmd_host_get_graph'',
     on_text ''/%U/host/%U/time/%T'' REQ_GET ''cmd_host_get_time'',
     on_flt ''*'' REQ_GET ErrNotFound,
     on_flt ''*'' REQ_ANY ErrMethodNotAllowed]"

definition setup_matches :: req_matchlist where
  "setup_matches = public_routes @ on_flt ''/%U*'' REQ_ANY FltCheckTenant # tenant_routes @ host_routes"

subsection \<open>Dispatch\<close>

text \<open>Every handler returns 1, which ends the dispatch; a handler gives the state and the status.\<close>

definition run_action :: "api_env \<Rightarrow> action \<Rightarrow> string list \<Rightarrow> api \<Rightarrow> req_context \<Rightarrow> (api \<times> req_context \<times> bool) res" where
  "run_action env a args api ctx =
     (case a of
        FltAddCors \<Rightarrow> rbind (flt_add_cors (ae_ih env) ctx) (\<lambda>r. Ok (api, r))
      | FltCheckValiduser \<Rightarrow> flt_check_validuser env api ctx
      | FltCheckAdmin \<Rightarrow> Ok (api, flt_check_admin ctx)
      | FltCheckTenant \<Rightarrow> Ok (api, flt_check_tenant args ctx)
      | FltCheckHost \<Rightarrow> Ok (api, flt_check_host args ctx)
      | ErrMethodNotAllowed \<Rightarrow> Ok (api, err_method_not_allowed ctx)
      | ErrNotFound \<Rightarrow> Ok (api, err_not_found ctx)
      | Cmd f \<Rightarrow> (let (api, status) = ae_handler env f api ctx args in Ok (api, err_status status ctx, True))
      | CmdText f \<Rightarrow> (let (api, status) = ae_handler env f api ctx args in Ok (api, err_status status ctx, True)))"

text \<open>The result also has the calls made: the route, its arguments, and the context it got.\<close>

type_synonym api_call = "req_match \<times> string list \<times> req_context"

fun req_matchlist_dispatch ::
  "api_env \<Rightarrow> req_matchlist \<Rightarrow> string \<Rightarrow> api \<Rightarrow> req_context \<Rightarrow> (api \<times> req_context \<times> api_call list) res" where
  "req_matchlist_dispatch env [] url api ctx = Ok (api, fst (err_server_error ctx), [])"
| "req_matchlist_dispatch env (crsr # ms) url api ctx =
     (if rc_method ctx AND rm_mask crsr = 0 then req_matchlist_dispatch env ms url api ctx
      else rbind (req_match_check (rm_str crsr) url []) (\<lambda>(b, targ).
        if \<not> b then req_matchlist_dispatch env ms url api ctx
        else rbind (run_action env (rm_action crsr) targ api ctx) (\<lambda>(api, ctx', stop).
          rbind (if stop then Ok (api, ctx', []) else req_matchlist_dispatch env ms url api ctx') (\<lambda>(api, ctx'', calls).
            Ok (api, ctx'', (crsr, targ, ctx) # calls)))))"

subsection \<open>A request\<close>

fun append_chunks :: "req_context \<Rightarrow> string list \<Rightarrow> req_context res" where
  "append_chunks ctx [] = Ok ctx"
| "append_chunks ctx (dt # chunks) =
     (if dt = [] then append_chunks ctx chunks else rbind (req_context_append_body ctx dt) (\<lambda>ctx. append_chunks ctx chunks))"

fun set_headers :: "u32 \<Rightarrow> req_context \<Rightarrow> (string \<times> string) list \<Rightarrow> req_context res" where
  "set_headers ih ctx [] = Ok ctx"
| "set_headers ih ctx ((k, v) # hs) = rbind (req_context_set_header ih ctx k v) (\<lambda>ctx. set_headers ih ctx hs)"

text \<open>
  A whole request, over the calls the library makes for it: the method, the body in chunks, then
  the headers, with the address \<open>peer\<close> of the other side. That the body could not be parsed is
  not looked at. None is a body whose parse does not end.
\<close>

definition answer_to_connection ::
  "api_env \<Rightarrow> string \<Rightarrow> string \<Rightarrow> (string \<times> string) list \<Rightarrow> string list \<Rightarrow> string \<Rightarrow> api \<Rightarrow> (api \<times> req_context \<times> api_call list) res option" where
  "answer_to_connection env peer mth headers chunks url api =
     (case rbind (append_chunks (req_context_set_method req_context_alloc mth) chunks) (\<lambda>ctx. set_headers (ae_ih env) ctx headers) of
        Fault e \<Rightarrow> Some (Fault e)
      | Ok ctx \<Rightarrow>
          (case req_context_parse_body (ae_ih env) (ctx\<lparr>rc_remote := remote_address peer (rc_original_ip ctx)\<rparr>) of
             None \<Rightarrow> None
           | Some (Fault e) \<Rightarrow> Some (Fault e)
           | Some (Ok (ctx, _)) \<Rightarrow> Some (req_matchlist_dispatch env setup_matches url api ctx)))"

end
