(* ===== verification/ApiProps.thy ===== *)
theory ApiProps
  imports ApiRoute
begin

text \<open>
  Who may do what through the API: that every handler of a tenant's data is called with the
  tenant of the URL, and only for an administrator, a provisioner or a user of that tenant; that
  what is for administrators is called for administrators only; where the administrator's level
  comes from; and what a request body without a content type does.
\<close>

subsection \<open>Matching\<close>

text \<open>How a round goes on.\<close>

definition match_on :: "string \<Rightarrow> string \<Rightarrow> string list \<Rightarrow> (bool \<times> string list) res" where
  "match_on m c args = (case advance_match m c of Inl b \<Rightarrow> Ok (b, args) | Inr (m, c) \<Rightarrow> req_match_check m c args)"

lemma match_end [simp]: "req_match_check m [] args = Ok (m = [], args)"
  by (simp add: req_match_check.simps[of m])

lemma match_all [simp]: "c \<noteq> [] \<Longrightarrow> req_match_check ''*'' c args = Ok (True, args)"
  by (simp add: req_match_check.simps[of "''*''"])

lemma match_star:
  "c \<noteq> [] \<Longrightarrow> m \<noteq> ''*'' \<Longrightarrow> chr_at m 0 = CHR ''*'' \<Longrightarrow> req_match_check m c args =
     (let r = dropWhile (\<lambda>x. x \<noteq> chr_at m 1) c in if r = [] then Ok (False, args) else match_on (tl m) r args)"
  by (subst req_match_check.simps) (auto simp: match_on_def Let_def)

lemma match_field:
  "c \<noteq> [] \<Longrightarrow> chr_at m 0 = CHR ''%'' \<Longrightarrow> req_match_check m c args =
     (let tp = chr_at m 1; field = takeWhile (\<lambda>x. x \<noteq> CHR ''/'') c; r = dropWhile (\<lambda>x. x \<noteq> CHR ''/'') c in
      if length m < 2 then Fault OutOfBounds else if tp \<notin> set ''sSUTi'' then Fault AssertFail
      else if \<not> field_ok tp field then Ok (False, args) else match_on (drop 2 m) r (args @ [field]))"
  by (subst req_match_check.simps) (auto simp: match_on_def Let_def chr_at_def)

lemma match_char:
  "c \<noteq> [] \<Longrightarrow> chr_at m 0 \<noteq> CHR ''*'' \<Longrightarrow> chr_at m 0 \<noteq> CHR ''%'' \<Longrightarrow> req_match_check m c args = match_on m c args"
  by (subst req_match_check.simps) (auto simp: match_on_def Let_def chr_at_def)

lemma match_args_grow:
  "req_match_check m c args = Ok (b, args') \<Longrightarrow> \<exists>s. args' = args @ s"
proof (induction m c args arbitrary: args' rule: req_match_check.induct)
  case (1 m c args)
  show ?case
  proof (cases "c = [] \<or> m = ''*''")
    case True
    then show ?thesis using 1(4) by (cases "c = []") auto
  next
    case False
    then have c: "c \<noteq> []" "m \<noteq> ''*''" by auto
    consider "chr_at m 0 = CHR ''*''" | "chr_at m 0 = CHR ''%''" | "chr_at m 0 \<noteq> CHR ''*''" "chr_at m 0 \<noteq> CHR ''%''" by blast
    then show ?thesis
    proof cases
      case 1
      then show ?thesis using "1.prems" "1.IH"(1)[OF c 1] unfolding match_star[OF c 1]
        by (auto simp: match_on_def Let_def split: if_splits sum.splits)
    next
      case 2
      then have n: "chr_at m 0 \<noteq> CHR ''*''" by simp
      show ?thesis using "1.prems" "1.IH"(2)[OF c n 2] unfolding match_field[OF c(1) 2]
        by (fastforce simp: match_on_def Let_def split: if_splits sum.splits)
    next
      case 3
      then show ?thesis using "1.prems" "1.IH"(3)[OF c 3] unfolding match_char[OF c(1) 3]
        by (auto simp: match_on_def split: sum.splits)
    qed
  qed
qed

lemma match_on_grow: "match_on m c args = Ok (b, args') \<Longrightarrow> \<exists>s. args' = args @ s"
  using match_args_grow by (auto simp: match_on_def split: sum.splits)

text \<open>The first character of a pattern that is no wildcard.\<close>

lemma match_cons:
  assumes "a \<noteq> CHR ''*''" "a \<noteq> CHR ''%''" "a \<noteq> CHR 0x00"
  shows "req_match_check (a # m) c args = (if c \<noteq> [] \<and> hd c = a then req_match_check m (tl c) args else Ok (False, args))"
proof (cases c)
  case (Cons x xs)
  have "req_match_check (a # m) c args = match_on (a # m) c args" using assms Cons by (intro match_char) (simp_all add: chr_at_def)
  then show ?thesis using assms Cons by (auto simp: match_on_def advance_match_def chr_at_def)
qed simp

lemma match_slash: "req_match_check (CHR ''/'' # m) c args = (if c \<noteq> [] \<and> hd c = CHR ''/'' then req_match_check m (tl c) args else Ok (False, args))"
  by (rule match_cons) simp_all

lemma match_rest: "match_on ''*'' c args = Ok (True, args)"
  by (cases "c = []") (simp_all add: match_on_def advance_match_def chr_at_def)

text \<open>A URL that matches a route below a tenant matches the check of the tenant, with the same tenant.\<close>

lemma tenant_prefix:
  assumes "req_match_check (''/%U'' @ p) url [] = Ok (True, args)"
  shows "args \<noteq> [] \<and> req_match_check ''/%U*'' url [] = Ok (True, [hd args])"
proof -
  have 1: "url \<noteq> []" "hd url = CHR ''/''" "req_match_check (''%U'' @ p) (tl url) [] = Ok (True, args)"
    using assms by (auto simp: match_slash split: if_splits)
  let ?f = "takeWhile (\<lambda>x. x \<noteq> CHR ''/'') (tl url)" and ?r = "dropWhile (\<lambda>x. x \<noteq> CHR ''/'') (tl url)"
  have n: "tl url \<noteq> []" using 1(3) by (cases "tl url") auto
  have f: "field_ok CHR ''U'' ?f" "match_on p ?r [?f] = Ok (True, args)"
    using 1(3) match_field[OF n, of "''%U'' @ p" "[]"] by (auto simp: chr_at_def Let_def split: if_splits)
  then obtain s where "args = [?f] @ s" using match_on_grow by blast
  moreover have "req_match_check ''%U*'' (tl url) [] = Ok (True, [?f])"
    using match_field[OF n, of "''%U*''" "[]"] f(1) match_rest by (simp add: chr_at_def Let_def)
  ultimately show ?thesis using 1(1,2) by (simp add: match_slash)
qed

subsection \<open>Calls\<close>

text \<open>One round of the dispatch, taken apart.\<close>

lemma dispatch_consE:
  assumes "req_matchlist_dispatch env (r # ms) url api ctx = Ok (api', ctx', calls)"
  obtains (skip) "req_matchlist_dispatch env ms url api ctx = Ok (api', ctx', calls)"
      "rc_method ctx AND rm_mask r = 0 \<or> (\<exists>a. req_match_check (rm_str r) url [] = Ok (False, a))"
  | (stop) args where "rc_method ctx AND rm_mask r \<noteq> 0" "req_match_check (rm_str r) url [] = Ok (True, args)"
      "run_action env (rm_action r) args api ctx = Ok (api', ctx', True)" "calls = [(r, args, ctx)]"
  | (go) args api1 ctx1 calls1 where "rc_method ctx AND rm_mask r \<noteq> 0" "req_match_check (rm_str r) url [] = Ok (True, args)"
      "run_action env (rm_action r) args api ctx = Ok (api1, ctx1, False)"
      "req_matchlist_dispatch env ms url api1 ctx1 = Ok (api', ctx', calls1)" "calls = (r, args, ctx) # calls1"
  using assms by (fastforce split: if_splits simp: rbind_Ok_iff)

lemmas err_defs = err_server_error_def err_unauthorized_def err_not_allowed_def err_not_found_def err_method_not_allowed_def

lemmas flt_defs = flt_add_cors_def flt_check_admin_def flt_check_tenant_def flt_check_host_def

lemma openstack_method:
  "handle_external_token_openstack ih sv token ctx = Ok (cx, b) \<Longrightarrow> rc_method cx = rc_method ctx"
  by (auto simp: handle_external_token_openstack_def rbind_Ok_iff Let_def split: option.splits if_splits)

lemma account_ctx:
  assumes "unithost_account ih v ctx = Ok (cx, b)"
  shows "rc_method cx = rc_method ctx \<and> rc_userlevel cx \<in> {rc_userlevel ctx, AUTH_USER}"
proof (cases "kid_forkey ih v ''tenant''")
  case None
  then show ?thesis using assms by (auto simp: unithost_account_def)
next
  case (Some t)
  show ?thesis
  proof (cases "kid_forkey ih v ''account''")
    case None
    then show ?thesis using assms Some by (auto simp: unithost_account_def)
  next
    case (Some acc)
    with assms[unfolded unithost_account_def \<open>kid_forkey ih v ''tenant'' = Some t\<close> Let_def option.case]
    have "cx = ctx\<lparr>rc_auth_tenants := [var_get_uuid_forkey ih v ''tenant''], rc_userlevel := AUTH_USER\<rparr>"
      by (simp only: option.case split: if_split_asm) simp_all
    then show ?thesis by simp
  qed
qed

text \<open>The roles of the answer.\<close>

definition take_roles :: "var \<Rightarrow> req_context \<Rightarrow> bool \<Rightarrow> req_context \<times> bool" where
  "take_roles roles ctx retcode =
     (if var_contains_str roles ''ADMIN'' then (ctx\<lparr>rc_userlevel := AUTH_ADMIN\<rparr>, True)
      else if var_contains_str roles ''PROVISIONING'' then (ctx\<lparr>rc_userlevel := AUTH_PROV\<rparr>, True)
      else (ctx, retcode))"

lemma take_roles_method: "(cx, b) = take_roles v c r \<Longrightarrow> rc_method cx = rc_method c"
  by (cases "var_contains_str v ''ADMIN''"; cases "var_contains_str v ''PROVISIONING''") (simp_all add: take_roles_def)

lemma unithost_answer:
  assumes "handle_external_token_unithost ih (Some f) token ctx = Ok (cx, b)" "f token = Some v"
  obtains c1 r1 where "unithost_account ih v (ctx\<lparr>rc_userlevel := AUTH_GUEST, rc_auth_tenants := []\<rparr>) = Ok (c1, r1)"
      "(cx, b) = (c1, r1) \<or> (\<exists>v' p. var_get_array_forkey ih v [] ''roles'' = Ok (v', Some p) \<and> (cx, b) = take_roles (place_var v' p) c1 r1)"
proof -
  have e: "handle_external_token_unithost ih (Some f) token ctx =
     rbind (unithost_account ih v (ctx\<lparr>rc_userlevel := AUTH_GUEST, rc_auth_tenants := []\<rparr>)) (\<lambda>(c, r).
       rbind (var_get_array_forkey ih v [] ''roles'') (\<lambda>(v, p). case p of None \<Rightarrow> Ok (c, r) | Some p \<Rightarrow> Ok (take_roles (place_var v p) c r)))"
    by (simp only: handle_external_token_unithost_def Let_def option.map assms(2) option.case take_roles_def if_distrib[of Ok])
  from assms(1)[unfolded e rbind_Ok_iff] obtain c1 r1 where
    1: "unithost_account ih v (ctx\<lparr>rc_userlevel := AUTH_GUEST, rc_auth_tenants := []\<rparr>) = Ok (c1, r1)" and
    2: "rbind (var_get_array_forkey ih v [] ''roles'') (\<lambda>(v, p). case p of None \<Rightarrow> Ok (c1, r1) | Some p \<Rightarrow> Ok (take_roles (place_var v p) c1 r1)) = Ok (cx, b)"
    by auto
  from 2 show thesis by (intro that[OF 1]) (auto simp: rbind_Ok_iff split: option.splits)
qed

lemma unithost_method:
  assumes "handle_external_token_unithost ih sv token ctx = Ok (cx, b)"
  shows "rc_method cx = rc_method ctx"
proof -
  consider "sv = None" | f where "sv = Some f" "f token = None" | f v where "sv = Some f" "f token = Some v" by fastforce
  then show ?thesis
  proof cases
    case (3 f v)
    obtain c1 r1 where 1: "unithost_account ih v (ctx\<lparr>rc_userlevel := AUTH_GUEST, rc_auth_tenants := []\<rparr>) = Ok (c1, r1)"
      and 2: "(cx, b) = (c1, r1) \<or> (\<exists>v' p. var_get_array_forkey ih v [] ''roles'' = Ok (v', Some p) \<and> (cx, b) = take_roles (place_var v' p) c1 r1)"
      using unithost_answer[OF assms[unfolded 3(1)] 3(2)] by metis
    have "rc_method c1 = rc_method ctx" using account_ctx[OF 1] by simp
    moreover have "rc_method cx = rc_method c1"
    proof (cases "(cx, b) = (c1, r1)")
      case False
      with 2 obtain v' p where "(cx, b) = take_roles (place_var v' p) c1 r1" by blast
      then show ?thesis by (rule take_roles_method)
    qed simp
    ultimately show ?thesis by simp
  next
    case 1
    then have "handle_external_token_unithost ih sv token ctx = Ok (ctx, False)"
      by (simp only: handle_external_token_unithost_def Let_def option.map option.case)
    then show ?thesis using assms by simp
  next
    case 2
    then have "handle_external_token_unithost ih sv token ctx = Ok (ctx\<lparr>rc_userlevel := AUTH_GUEST, rc_auth_tenants := []\<rparr>, False)"
      by (simp only: handle_external_token_unithost_def Let_def option.map option.case)
    then show ?thesis using assms by auto
  qed
qed

lemma external_method:
  assumes "check_external_token env token c ctx = Ok (c', ctx', s)"
  shows "rc_method ctx' = rc_method ctx"
proof -
  have h: "handle_external_token ih auth sv ctx = Ok (cx, b) \<Longrightarrow> rc_method cx = rc_method ctx" for ih auth sv cx b
    by (auto simp: handle_external_token_def split: option.splits if_splits authtype.splits dest: openstack_method unithost_method)
  obtain c1 o1 where l: "tokencache_lookup (ae_ih env) token (ae_now env) c = (c1, o1)" by fastforce
  show ?thesis
  proof (cases o1)
    case None
    then show ?thesis using assms l by (auto simp: check_external_token_def err_defs rbind_Ok_iff split: if_splits dest!: h)
  next
    case (Some n)
    then show ?thesis using assms l by (auto simp: check_external_token_def err_defs Let_def split: if_splits)
  qed
qed

text \<open>A filter on the way changes at most what the filter is for.\<close>

lemma run_action_method:
  assumes "run_action env a args api ctx = Ok (api', ctx', s)"
  shows "rc_method ctx' = rc_method ctx"
proof (cases a)
  case FltCheckValiduser
  then show ?thesis using assms
    by (auto simp: run_action_def flt_check_validuser_def check_opticon_token_def err_defs rbind_Ok_iff dest!: external_method
        split: if_splits option.splits prod.splits)
qed (use assms in \<open>auto simp: run_action_def flt_defs err_defs rbind_Ok_iff Let_def split: if_splits prod.splits\<close>)

lemma calls_match:
  "req_matchlist_dispatch env ms url api ctx = Ok (api', ctx', calls) \<Longrightarrow> (m, args, cx) \<in> set calls \<Longrightarrow>
    m \<in> set ms \<and> req_match_check (rm_str m) url [] = Ok (True, args) \<and> rc_method cx = rc_method ctx \<and> rc_method ctx AND rm_mask m \<noteq> 0"
proof (induction ms arbitrary: api ctx calls)
  case (Cons r ms)
  show ?case using Cons.prems(1)
  proof (cases rule: dispatch_consE)
    case skip
    then show ?thesis using Cons.IH Cons.prems(2) by fastforce
  next
    case stop
    then show ?thesis using Cons.prems(2) by auto
  next
    case (go a api1 ctx1 c1)
    then show ?thesis using Cons.IH[OF go(4)] Cons.prems(2) run_action_method[OF go(3)] by auto
  qed
qed simp

text \<open>What every action of a list keeps holds at each of its calls.\<close>

definition keeps :: "api_env \<Rightarrow> (req_context \<Rightarrow> bool) \<Rightarrow> req_match \<Rightarrow> bool" where
  "keeps env P m \<longleftrightarrow> (\<forall>args api ctx api' ctx'. P ctx \<longrightarrow> run_action env (rm_action m) args api ctx = Ok (api', ctx', False) \<longrightarrow> P ctx')"

lemma calls_keep:
  "req_matchlist_dispatch env ms url api ctx = Ok (api', ctx', calls) \<Longrightarrow> (m, args, cx) \<in> set calls \<Longrightarrow>
    \<forall>r\<in>set ms. keeps env P r \<Longrightarrow> P ctx \<Longrightarrow> P cx"
proof (induction ms arbitrary: api ctx calls)
  case (Cons r ms)
  show ?case using Cons.prems(1)
  proof (cases rule: dispatch_consE)
    case skip
    then show ?thesis using Cons.IH Cons.prems by fastforce
  next
    case stop
    then show ?thesis using Cons.prems by auto
  next
    case (go a api1 ctx1 c1)
    moreover have "P ctx1" using Cons.prems(3,4) go(3) by (auto simp: keeps_def)
    ultimately show ?thesis using Cons.IH[OF go(4)] Cons.prems by auto
  qed
qed simp

text \<open>A filter that the URL matches guards all routes behind it.\<close>

lemma guarded:
  assumes "req_matchlist_dispatch env (xs @ g # ys) url api ctx = Ok (api', ctx', calls)" "(m, args, cx) \<in> set calls"
    "m \<notin> set xs" "m \<noteq> g" "req_match_check (rm_str g) url [] = Ok (True, a)" "rc_method ctx AND rm_mask g \<noteq> 0"
    "\<And>api ctx api' ctx'. run_action env (rm_action g) a api ctx = Ok (api', ctx', False) \<Longrightarrow> P ctx'"
    "\<forall>r\<in>set ys. keeps env P r"
  shows "P cx"
  using assms
proof (induction xs arbitrary: api ctx calls)
  case Nil
  from Nil(1) have "req_matchlist_dispatch env (g # ys) url api ctx = Ok (api', ctx', calls)" by simp
  then show ?case
  proof (cases rule: dispatch_consE)
    case skip
    then show ?thesis using Nil.prems by auto
  next
    case stop
    then show ?thesis using Nil.prems by auto
  next
    case (go a' api1 ctx1 c1)
    then have "P ctx1" using Nil.prems by auto
    then show ?thesis using calls_keep[OF go(4)] go(5) Nil.prems(2,4,8) by auto
  qed
next
  case (Cons r xs)
  from Cons.prems(1) have "req_matchlist_dispatch env (r # xs @ g # ys) url api ctx = Ok (api', ctx', calls)" by simp
  then show ?case
  proof (cases rule: dispatch_consE)
    case skip
    show ?thesis by (rule Cons.IH[OF skip(1) Cons.prems(2)]) (use Cons.prems in auto)
  next
    case stop
    then show ?thesis using Cons.prems by auto
  next
    case (go a' api1 ctx1 c1)
    have "(m, args, cx) \<in> set c1" using Cons.prems(2,3) go(5) by auto
    then show ?thesis by (rule Cons.IH[OF go(4)]) (use Cons.prems run_action_method[OF go(3)] in auto)
  qed
qed

subsection \<open>Who may do what\<close>

definition tenant_guard :: req_match where "tenant_guard = on_flt ''/%U*'' REQ_ANY FltCheckTenant"

text \<open>What the tenant check makes sure of, for the tenant named in the URL.\<close>

definition authorized :: "string \<Rightarrow> req_context \<Rightarrow> bool" where
  "authorized name ctx \<longleftrightarrow> rc_tenantid ctx = mkuuid (Some name) \<and> uuidvalid (rc_tenantid ctx) \<and>
     (rc_userlevel ctx \<in> {AUTH_ADMIN, AUTH_PROV} \<or> rc_tenantid ctx \<in> set (rc_auth_tenants ctx))"

lemma routes_masks: "m \<in> set setup_matches \<Longrightarrow> rm_mask m AND REQ_ANY = rm_mask m"
  by (auto simp: setup_matches_def public_routes_def tenant_routes_def host_routes_def req_matchlist_add_def req_method_defs)

lemma mask_below:
  assumes "(k :: u8) AND m \<noteq> 0" "m AND g = m"
  shows "k AND g \<noteq> 0"
proof
  assume "k AND g = 0"
  then have "(k AND g) AND m = 0" by simp
  then have "k AND (m AND g) = 0" by (simp only: ac_simps)
  then show False using assms by simp
qed

lemma routes_method:
  assumes "m \<in> set setup_matches" "(k :: u8) AND rm_mask m \<noteq> 0"
  shows "k AND REQ_ANY \<noteq> 0"
  using mask_below[OF assms(2) routes_masks[OF assms(1)]] .

lemma later_actions: "m \<in> set (tenant_routes @ host_routes) \<Longrightarrow>
    rm_action m \<in> {FltCheckAdmin, FltCheckHost, ErrMethodNotAllowed, ErrNotFound} \<or> (\<exists>f. rm_action m = Cmd f \<or> rm_action m = CmdText f)"
  by (auto simp: tenant_routes_def host_routes_def req_matchlist_add_def)

lemma later_keep_authorized: "m \<in> set (tenant_routes @ host_routes) \<Longrightarrow> keeps env (authorized n) m"
  by (drule later_actions)
    (auto simp: keeps_def run_action_def flt_defs err_defs authorized_def Let_def split: if_split_asm prod.splits)

lemma tenant_guard_authorizes:
  "flt_check_tenant [n] ctx = (ctx', False) \<Longrightarrow> authorized n ctx'"
  by (auto simp: flt_check_tenant_def err_defs authorized_def Let_def list_ex_iff split: if_split_asm)

lemma public_no_tenant: "m \<in> set public_routes \<Longrightarrow> rm_str m \<noteq> ''/%U'' @ p"
  by (auto simp: public_routes_def req_matchlist_add_def)

definition sample_env :: api_env where
  "sample_env = \<lparr>ae_ih = 0, ae_now = 1000, ae_random = 0, ae_adminhost = ''10.0.0.1'', ae_admintoken = \<lparr>msb = 1, lsb = 2\<rparr>,
     ae_auth = AUTH_INTERNAL, ae_service = None, ae_handler = (\<lambda>f api ctx args. (api, 200))\<rparr>"

definition sample_api :: api where
  "sample_api = \<lparr>ap_cache = tokencache_init 0, ap_sessions = []\<rparr>"

definition sample_ctx :: "u8 \<Rightarrow> req_context" where
  "sample_ctx mth = req_context_alloc\<lparr>rc_method := mth, rc_remote := ''10.0.0.1'', rc_opticon_token := \<lparr>msb = 1, lsb = 2\<rparr>\<rparr>"

definition sample_run :: "(api \<times> req_context \<times> api_call list) res" where
  "sample_run = req_matchlist_dispatch sample_env setup_matches ''/00000000-0000-0001-0000-000000000002'' sample_api (sample_ctx REQ_DELETE)"

lemma sample_run_calls: "case sample_run of Ok (_, _, calls) \<Rightarrow>
    list_ex (\<lambda>(m, args, cx). rm_action m = Cmd ''cmd_tenant_delete'' \<and> rm_str m = ''/%U'') calls | Fault _ \<Rightarrow> False"
  by code_simp

lemma sample_delete:
  obtains api' ctx' calls m args cx where
    "req_matchlist_dispatch sample_env setup_matches ''/00000000-0000-0001-0000-000000000002'' sample_api (sample_ctx REQ_DELETE) =
       Ok (api', ctx', calls)"
    "(m, args, cx) \<in> set calls" "rm_action m = Cmd ''cmd_tenant_delete''" "rm_str m = ''/%U'' @ ''''"
  using sample_run_calls by (fastforce simp: sample_run_def list_ex_iff split: sum.splits)

text \<open>
  C23: Every handler below a tenant of the URL is called with the id of that tenant in the
  context, a valid one, and only when the token of the request is an administrator's, a
  provisioner's or one with access to this very tenant.
\<close>

theorem tenant_handlers_authorized:
  assumes "req_matchlist_dispatch env setup_matches url api ctx = Ok (api', ctx', calls)" "(m, args, cx) \<in> set calls"
    "rm_str m = ''/%U'' @ p" "rm_action m \<noteq> FltCheckTenant"
  shows "args \<noteq> [] \<and> authorized (hd args) cx"
proof -
  have m: "m \<in> set setup_matches" "req_match_check (''/%U'' @ p) url [] = Ok (True, args)" "rc_method ctx AND rm_mask m \<noteq> 0"
    using calls_match[OF assms(1,2)] assms(3) by auto
  note g = tenant_prefix[OF m(2)]
  have d: "req_matchlist_dispatch env (public_routes @ tenant_guard # (tenant_routes @ host_routes)) url api ctx = Ok (api', ctx', calls)"
    using assms(1) by (simp add: setup_matches_def tenant_guard_def)
  have "authorized (hd args) cx"
  proof (rule guarded[OF d assms(2)])
    show "m \<notin> set public_routes" using public_no_tenant assms(3) by blast
    show "m \<noteq> tenant_guard" using assms(4) by (auto simp: tenant_guard_def req_matchlist_add_def)
    show "req_match_check (rm_str tenant_guard) url [] = Ok (True, [hd args])" using g by (simp add: tenant_guard_def req_matchlist_add_def)
    show "rc_method ctx AND rm_mask tenant_guard \<noteq> 0" using routes_method[OF m(1,3)] by (simp add: tenant_guard_def req_matchlist_add_def)
    show "authorized (hd args) c'" if "run_action env (rm_action tenant_guard) [hd args] a c = Ok (a', c', False)" for a c a' c'
      using that by (intro tenant_guard_authorizes[of _ c]) (simp add: tenant_guard_def req_matchlist_add_def run_action_def)
    show "\<forall>r\<in>set (tenant_routes @ host_routes). keeps env (authorized (hd args)) r" using later_keep_authorized by blast
  qed
  then show ?thesis using g by simp
qed


lemma tenant_handlers_authorized_witness:
  "\<exists>args cx m. (m, args, cx) \<in> set (snd (snd (projr sample_run))) \<and> rm_action m = Cmd ''cmd_tenant_delete'' \<and> authorized (hd args) cx"
proof (rule sample_delete)
  fix api' ctx' calls m args cx
  assume d: "req_matchlist_dispatch sample_env setup_matches ''/00000000-0000-0001-0000-000000000002'' sample_api (sample_ctx REQ_DELETE) =
       Ok (api', ctx', calls)"
    and c: "(m, args, cx) \<in> set calls" "rm_action m = Cmd ''cmd_tenant_delete''" "rm_str m = ''/%U'' @ ''''"
  show ?thesis using tenant_handlers_authorized[OF d c(1,3)] c d by (auto simp: sample_run_def)
qed

subsection \<open>What is for administrators\<close>

definition admin_handlers :: "string list" where
  "admin_handlers = [''cmd_list_sessions'', ''cmd_host_any_overview'', ''cmd_host_any_get'', ''cmd_host_any_get_tenant'', ''cmd_tenant_delete'']"

definition by_admin :: "req_context \<Rightarrow> bool" where "by_admin ctx \<longleftrightarrow> rc_userlevel ctx = AUTH_ADMIN"

lemma add_cors_level: "flt_add_cors ih ctx = Ok (ctx', s) \<Longrightarrow> rc_userlevel ctx' = rc_userlevel ctx"
  by (auto simp: flt_add_cors_def rbind_Ok_iff Let_def split: if_split_asm)

lemma flt_admin_level: "flt_check_admin ctx = (ctx', s) \<Longrightarrow> rc_userlevel ctx' = rc_userlevel ctx"
  by (auto simp: flt_check_admin_def err_defs split: if_split_asm)

lemma flt_tenant_level: "flt_check_tenant args ctx = (ctx', s) \<Longrightarrow> rc_userlevel ctx' = rc_userlevel ctx"
  by (auto simp: flt_check_tenant_def err_defs Let_def split: if_split_asm)

lemma flt_host_level: "flt_check_host args ctx = (ctx', s) \<Longrightarrow> rc_userlevel ctx' = rc_userlevel ctx"
  by (auto simp: flt_check_host_def err_defs Let_def split: if_split_asm)

lemma action_level:
  assumes "a \<noteq> FltCheckValiduser" "run_action env a args api ctx = Ok (api', ctx', False)"
  shows "rc_userlevel ctx' = rc_userlevel ctx"
  using assms by (cases a)
    (auto simp: run_action_def err_defs rbind_Ok_iff case_prod_unfold Let_def
      dest: add_cors_level flt_admin_level flt_tenant_level flt_host_level)

lemma keep_admin: "rm_action m \<noteq> FltCheckValiduser \<Longrightarrow> keeps env by_admin m"
  using action_level by (auto simp: keeps_def by_admin_def)

text \<open>Any of the three guards of the routes for administrators, at place \<open>i\<close>.\<close>

lemma admin_guarded:
  assumes "req_matchlist_dispatch env setup_matches url api ctx = Ok (api', ctx', calls)" "(m, args, cx) \<in> set calls"
    "i < length setup_matches" "rm_action (setup_matches ! i) = FltCheckAdmin" "4 \<le> i" "m \<notin> set (take (Suc i) setup_matches)"
    "req_match_check (rm_str (setup_matches ! i)) url [] = Ok (True, a)"
    "rm_mask m AND rm_mask (setup_matches ! i) = rm_mask m"
  shows "rc_userlevel cx = AUTH_ADMIN"
proof -
  let ?g = "setup_matches ! i"
  have m: "rc_method ctx AND rm_mask m \<noteq> 0" using calls_match[OF assms(1,2)] by auto
  have d: "req_matchlist_dispatch env (take i setup_matches @ ?g # drop (Suc i) setup_matches) url api ctx = Ok (api', ctx', calls)"
    using assms(1) by (simp only: id_take_nth_drop[OF assms(3), symmetric])
  have "by_admin cx"
  proof (rule guarded[OF d assms(2)])
    show "m \<notin> set (take i setup_matches)" "m \<noteq> ?g" using assms(3,6) by (auto simp: take_Suc_conv_app_nth)
    show "req_match_check (rm_str ?g) url [] = Ok (True, a)" by (rule assms(7))
    show "rc_method ctx AND rm_mask ?g \<noteq> 0" using mask_below[OF m assms(8)] .
    show "by_admin c'" if "run_action env (rm_action ?g) a ap c = Ok (a', c', False)" for ap c a' c'
      using that assms(4) by (auto simp: run_action_def flt_check_admin_def err_defs by_admin_def split: if_split_asm)
    have "\<forall>r\<in>set (drop 5 setup_matches). rm_action r \<noteq> FltCheckValiduser"
      by code_simp
    moreover have "set (drop (Suc i) setup_matches) \<subseteq> set (drop 5 setup_matches)" using assms(5) by (intro set_drop_subset_set_drop) simp
    ultimately show "\<forall>r\<in>set (drop (Suc i) setup_matches). keeps env by_admin r" using keep_admin by blast
  qed
  then show ?thesis by (simp add: by_admin_def)
qed

definition handler_of :: "req_match \<Rightarrow> string" where
  "handler_of m = (case rm_action m of Cmd f \<Rightarrow> f | CmdText f \<Rightarrow> f | _ \<Rightarrow> '''')"

definition for_admin :: "req_match \<Rightarrow> bool" where
  "for_admin m \<longleftrightarrow> rm_str m = ''/session'' \<and> rm_mask m = REQ_GET \<or> take 4 (rm_str m) = ''/any'' \<and> rm_mask m = REQ_GET \<or>
     rm_str m = ''/%U'' \<and> rm_mask m = REQ_DELETE"

lemma admin_routes: "\<forall>m\<in>set setup_matches. handler_of m \<in> set admin_handlers \<longrightarrow> for_admin m"
  by code_simp


lemma match_lit:
  assumes "req_match_check (c # m) u [] = Ok (True, a)" "c \<notin> {CHR ''*'', CHR ''%'', CHR 0x00}"
  obtains u' where "u = c # u'" "req_match_check m u' [] = Ok (True, a)"
  using assms match_cons[of c m u "[]"] by (cases u) (auto split: if_split_asm)

lemma match_prefix_any:
  assumes "req_match_check (''/any'' @ p) url [] = Ok (True, args)" "p \<noteq> []"
  shows "req_match_check ''/any*'' url [] = Ok (True, [])"
proof -
  obtain u1 where 1: "url = CHR ''/'' # u1" "req_match_check (''any'' @ p) u1 [] = Ok (True, args)"
    using assms(1) by (auto elim: match_lit)
  obtain u2 where 2: "u1 = CHR ''a'' # u2" "req_match_check (''ny'' @ p) u2 [] = Ok (True, args)"
    using 1(2) by (auto elim: match_lit)
  obtain u3 where 3: "u2 = CHR ''n'' # u3" "req_match_check (''y'' @ p) u3 [] = Ok (True, args)"
    using 2(2) by (auto elim: match_lit)
  obtain u4 where 4: "u3 = CHR ''y'' # u4" "req_match_check p u4 [] = Ok (True, args)"
    using 3(2) by (auto elim: match_lit)
  have "u4 \<noteq> []" using 4(2) assms(2) by auto
  then show ?thesis by (simp add: 1 2 3 4 match_cons)
qed

text \<open>The three guards.\<close>

lemma setup_length: "length setup_matches = 57" by code_simp

lemma guards:
  "setup_matches ! 7 = on_flt ''/session'' REQ_GET FltCheckAdmin"
  "setup_matches ! 11 = on_flt ''/any*'' REQ_ANY FltCheckAdmin"
  "setup_matches ! 19 = on_flt ''/%U'' REQ_DELETE FltCheckAdmin"
  by (simp_all add: setup_matches_def public_routes_def tenant_routes_def nth_append)

lemma before_guards:
  "\<forall>m\<in>set (take 8 setup_matches). handler_of m \<notin> set admin_handlers"
  "\<forall>m\<in>set (take 12 setup_matches). handler_of m \<in> set admin_handlers \<longrightarrow> rm_str m = ''/session''"
  "\<forall>m\<in>set (take 20 setup_matches). handler_of m \<in> set admin_handlers \<longrightarrow> rm_mask m = REQ_GET"
  by code_simp+

lemma admin_any: "\<forall>m\<in>set setup_matches. handler_of m \<in> set admin_handlers \<longrightarrow> take 4 (rm_str m) = ''/any'' \<longrightarrow> drop 4 (rm_str m) \<noteq> []"
  by code_simp




subsection \<open>Where the administrator's level comes from\<close>

definition says_admin :: "api_env \<Rightarrow> string \<Rightarrow> bool" where
  "says_admin env token \<longleftrightarrow> ae_auth env = AUTH_UNITHOST \<and>
     (\<exists>f v v' p. ae_service env = Some f \<and> f token = Some v \<and> var_get_array_forkey (ae_ih env) v [] ''roles'' = Ok (v', Some p) \<and>
       var_contains_str (place_var v' p) ''ADMIN'')"

definition admin_evidence :: "api_env \<Rightarrow> api \<Rightarrow> req_context \<Rightarrow> bool" where
  "admin_evidence env api ctx \<longleftrightarrow>
     (if uuidvalid (rc_opticon_token ctx) then
        (\<exists>s\<in>set (ap_sessions api). as_id s = rc_opticon_token ctx \<and> as_level s = AUTH_ADMIN \<and> ae_now env - as_heartbeat s < 600) \<or>
        rc_remote ctx = ae_adminhost env \<and> rc_opticon_token ctx = ae_admintoken env
      else
        (\<exists>token. rc_external_token ctx = Some token \<and>
          ((\<exists>n\<in>set (tc_nodes (ap_cache api)). tn_token n = token \<and> tn_level n = AUTH_ADMIN \<and> ae_now env < tn_ctime n + 1800) \<or>
           says_admin env token)))"

lemma find_live_session:
  assumes "authsession_find ident now ss = (ss', Some s)"
  shows "\<exists>s0\<in>set ss. as_id s0 = ident \<and> as_level s0 = as_level s \<and> now - as_heartbeat s0 < 600"
proof (cases "find_index (\<lambda>s. as_hash s = hash_uuid ident \<and> uuidcmp (as_id s) ident) ss")
  case (Some i)
  then have i: "i < length ss" "as_id (ss ! i) = ident" by (simp_all add: find_index_Some)
  have "now - as_heartbeat (ss ! i) < 600" "s = (ss ! i)\<lparr>as_heartbeat := now\<rparr>"
    using assms Some by (simp_all add: authsession_find_def Let_def SESSION_IDLE_TIMEOUT_def split: if_split_asm)
  then show ?thesis using i by (intro bexI[of _ "ss ! i"]) simp_all
qed (use assms in \<open>simp add: authsession_find_def\<close>)

lemma lookup_valid_hit:
  assumes "lookup_valid hash token now c = (c', Some n)"
  shows "\<exists>n0\<in>set (tc_nodes c). tn_token n0 = token \<and> tn_level n0 = tn_level n \<and> now < tn_ctime n0 + 1800"
proof (cases "find_index (entry_of hash token) (take (tc_count c) (tc_nodes c))")
  case (Some i)
  then have i: "i < length (tc_nodes c)" "tn_token (tc_nodes c ! i) = token"
    by (auto simp: find_index_Some entry_of_def)
  have "now < tn_ctime (tc_nodes c ! i) + 1800" "n = (tc_nodes c ! i)\<lparr>tn_lastref := now\<rparr>"
    using assms Some by (simp_all add: lookup_valid_def Let_def live_def TOKEN_TIMEOUT_VALID_def split: if_split_asm)
  then show ?thesis using i by (intro bexI[of _ "tc_nodes c ! i"]) simp_all
qed (use assms in \<open>simp add: lookup_valid_def\<close>)

lemma lookup_hit:
  assumes "tokencache_lookup ih token now c = (c', Some n)" "cache_inv c"
  shows "tn_level n = AUTH_GUEST \<or> (\<exists>n0\<in>set (tc_nodes c). tn_token n0 = token \<and> tn_level n0 = tn_level n \<and> now < tn_ctime n0 + 1800)"
proof (cases "find_index (entry_of (hash_token ih token) token) (tc_invalids c)")
  case None
  then show ?thesis using assms(1) lookup_valid_hit[of _ token now c c' n] by (simp add: tokencache_lookup_def Let_def)
next
  case (Some i)
  then have g: "guest (tc_invalids c ! i)" using assms(2) by (simp add: cache_inv_def find_index_Some)
  show ?thesis
  proof (cases "live TOKEN_TIMEOUT_INVALID now (tc_invalids c ! i)")
    case True
    then have "n = (tc_invalids c ! i)\<lparr>tn_lastref := now\<rparr>" using assms(1) Some by (simp add: tokencache_lookup_def Let_def)
    then show ?thesis using g by (simp add: guest_def)
  next
    case False
    then show ?thesis using assms(1) Some lookup_valid_hit[of _ token now c c' n] by (simp add: tokencache_lookup_def Let_def)
  qed
qed

lemma openstack_level:
  "handle_external_token_openstack ih sv token ctx = Ok (cx, b) \<Longrightarrow> rc_userlevel cx \<in> {rc_userlevel ctx, AUTH_USER}"
  by (auto simp: handle_external_token_openstack_def rbind_Ok_iff Let_def split: option.splits if_splits)

lemma take_roles_admin:
  "(cx, b) = take_roles v c r \<Longrightarrow> rc_userlevel cx = AUTH_ADMIN \<Longrightarrow> rc_userlevel c = AUTH_ADMIN \<or> var_contains_str v ''ADMIN''"
  by (cases "var_contains_str v ''ADMIN''"; cases "var_contains_str v ''PROVISIONING''") (simp_all add: take_roles_def)

lemma unithost_level:
  assumes "handle_external_token_unithost ih sv token ctx = Ok (cx, True)" "rc_userlevel cx = AUTH_ADMIN"
  shows "\<exists>f v v' p. sv = Some f \<and> f token = Some v \<and> var_get_array_forkey ih v [] ''roles'' = Ok (v', Some p) \<and>
       var_contains_str (place_var v' p) ''ADMIN''"
proof -
  obtain f v where f: "sv = Some f" "f token = Some v"
  proof (cases sv)
    case None
    then show ?thesis using assms(1) by (simp only: handle_external_token_unithost_def Let_def option.map option.case) simp
  next
    case (Some f)
    then show ?thesis using assms(1) that[OF Some]
      by (cases "f token") (simp_all only: handle_external_token_unithost_def Let_def option.map option.case, simp)
  qed
  obtain c1 r1 where 1: "unithost_account ih v (ctx\<lparr>rc_userlevel := AUTH_GUEST, rc_auth_tenants := []\<rparr>) = Ok (c1, r1)"
    and 2: "(cx, True) = (c1, r1) \<or> (\<exists>v' p. var_get_array_forkey ih v [] ''roles'' = Ok (v', Some p) \<and> (cx, True) = take_roles (place_var v' p) c1 r1)"
    using unithost_answer[OF assms(1)[unfolded f(1)] f(2)] by metis
  have n: "rc_userlevel c1 \<noteq> AUTH_ADMIN" using account_ctx[OF 1] by auto
  then have "(cx, True) \<noteq> (c1, r1)" using assms(2) by auto
  with 2 obtain v' p where "var_get_array_forkey ih v [] ''roles'' = Ok (v', Some p)" "(cx, True) = take_roles (place_var v' p) c1 r1" by blast
  then show ?thesis using take_roles_admin[OF _ assms(2), of True "place_var v' p" c1 r1] n f by blast
qed

text \<open>
  C25: A request is an administrator's only with a token of the server's own that is a live
  session of an administrator, or the configured administrator's token from the configured
  address, or with an external token that the service says has the role, now or in an answer
  that has been cached for less than half an hour.
\<close>

theorem administrator_has_evidence:
  assumes "flt_check_validuser env api ctx = Ok (api', ctx', False)" "rc_userlevel ctx' = AUTH_ADMIN"
    "rc_userlevel ctx = AUTH_GUEST" "cache_inv (ap_cache api)"
  shows "admin_evidence env api ctx"
proof (cases "uuidvalid (rc_opticon_token ctx)")
  case True
  obtain ss s where f: "authsession_find (rc_opticon_token ctx) (ae_now env) (ap_sessions api) = (ss, s)" by fastforce
  then have c: "ctx' = check_opticon_token env s ctx" using True assms(1) by (simp add: flt_check_validuser_def)
  show ?thesis
  proof (cases s)
    case None
    then show ?thesis using c assms(2) True by (auto simp: check_opticon_token_def admin_evidence_def split: if_split_asm)
  next
    case (Some s)
    then show ?thesis using c assms(2) True find_live_session[of _ _ _ ss s] f by (auto simp: check_opticon_token_def admin_evidence_def)
  qed
next
  case False
  then obtain token where t: "rc_external_token ctx = Some token"
    using assms(1) by (auto simp: flt_check_validuser_def err_defs split: option.splits)
  obtain c1 o1 where l: "tokencache_lookup (ae_ih env) token (ae_now env) (ap_cache api) = (c1, o1)" by fastforce
  obtain c2 where x: "check_external_token env token (ap_cache api) ctx = Ok (c2, ctx', False)"
    using assms(1) False t by (auto simp: flt_check_validuser_def rbind_Ok_iff)
  show ?thesis
  proof (cases o1)
    case (Some n)
    then have "tn_level n = AUTH_ADMIN" using x l assms(2) by (auto simp: check_external_token_def err_defs Let_def split: if_splits)
    then show ?thesis using lookup_hit[OF l[unfolded Some] assms(4)] False t by (auto simp: admin_evidence_def)
  next
    case None
    then have h: "handle_external_token (ae_ih env) (ae_auth env) (ae_service env) ctx = Ok (ctx', True)"
      using x l by (auto simp: check_external_token_def err_defs rbind_Ok_iff split: if_splits)
    have "says_admin env token"
      using h t assms(2,3) unithost_level[of "ae_ih env" "ae_service env" token ctx ctx'] openstack_level[of "ae_ih env" "ae_service env" token ctx ctx' True]
      by (auto simp: handle_external_token_def says_admin_def split: if_splits authtype.splits)
    then show ?thesis using False t by (auto simp: admin_evidence_def)
  qed
qed

lemma administrator_has_evidence_witness:
  "admin_evidence sample_env sample_api (sample_ctx REQ_GET)"
proof -
  have "flt_check_validuser sample_env sample_api (sample_ctx REQ_GET) =
      Ok (sample_api, (sample_ctx REQ_GET)\<lparr>rc_userlevel := AUTH_ADMIN\<rparr>, False)"
    by (simp add: flt_check_validuser_def sample_env_def sample_api_def sample_ctx_def authsession_find_def check_opticon_token_def
        req_context_alloc_def uuidvalid_def)
  from administrator_has_evidence[OF this] show ?thesis
    using init_inv by (simp add: sample_api_def sample_ctx_def req_context_alloc_def)
qed

subsection \<open>The body of a request\<close>

definition body_fits :: "req_context \<Rightarrow> string \<Rightarrow> bool" where
  "body_fits ctx body \<longleftrightarrow> (if body = '''' then rc_body ctx = None else (\<exists>al. rc_body ctx = Some (al, body) \<and> length body < al))"

lemma mkallocsz_above: "n < mkallocsz n"
  by (simp add: mkallocsz_def)

lemma append_body_fits:
  assumes "body_fits ctx body" "dt \<noteq> []"
  shows "\<exists>ctx'. req_context_append_body ctx dt = Ok ctx' \<and> body_fits ctx' (body @ dt) \<and> rc_ctype ctx' = rc_ctype ctx"
proof -
  define r where "r = (case rc_body ctx of None \<Rightarrow> (mkallocsz (length dt), '''') | Some b \<Rightarrow> b)"
  then obtain al where r: "r = (al, body)" using assms(1) by (auto simp: body_fits_def split: if_split_asm)
  define n where "n = length body + length dt + 1"
  let ?al = "if n > al then mkallocsz n else al"
  have n: "\<not> ?al < n" using mkallocsz_above[of n] by simp
  then have "req_context_append_body ctx dt = Ok (ctx\<lparr>rc_body := Some (?al, body @ dt)\<rparr>)"
    by (simp only: req_context_append_body_def r_def[symmetric] r n_def[symmetric] Let_def prod.case if_False)
  moreover have "length (body @ dt) < ?al" using n by (simp add: n_def)
  ultimately show ?thesis using assms(2) by (auto simp: body_fits_def)
qed

lemma append_chunks_fits:
  "body_fits ctx body \<Longrightarrow> \<exists>ctx'. append_chunks ctx chunks = Ok ctx' \<and> body_fits ctx' (body @ concat chunks) \<and> rc_ctype ctx' = rc_ctype ctx"
proof (induction chunks arbitrary: ctx body)
  case (Cons dt chunks)
  show ?case
  proof (cases "dt = []")
    case True
    then show ?thesis using Cons by simp
  next
    case False
    obtain c1 where 1: "req_context_append_body ctx dt = Ok c1" "body_fits c1 (body @ dt)" "rc_ctype c1 = rc_ctype ctx"
      using append_body_fits[OF Cons.prems False] by blast
    then show ?thesis using Cons.IH[OF 1(2)] False by simp
  qed
qed simp

lemma fresh_fits: "body_fits (req_context_set_method req_context_alloc mth) ''''"
  by (simp add: body_fits_def req_context_set_method_def req_context_alloc_def)

text \<open>
  The body of a request is collected without a write beyond its buffer, in whatever chunks
  it comes and however long it gets, and is the chunks in their order, with room for the
  terminating zero.
\<close>

lemma body_collected:
  "\<exists>ctx'. append_chunks (req_context_set_method req_context_alloc mth) chunks = Ok ctx' \<and> body_fits ctx' (concat chunks)"
  using append_chunks_fits[OF fresh_fits, of mth chunks] by auto

lemma set_header_keeps:
  assumes "req_context_set_header ih ctx k v = Ok ctx'"
  shows "rc_body ctx' = rc_body ctx" "canon_header True k \<noteq> ''Content-Type'' \<Longrightarrow> rc_ctype ctx' = rc_ctype ctx"
  using assms by (auto simp: req_context_set_header_def rbind_Ok_iff Let_def split: if_split_asm)

lemma set_headers_keep:
  "set_headers ih ctx hs = Ok ctx' \<Longrightarrow> \<forall>(k, v)\<in>set hs. canon_header True k \<noteq> ''Content-Type'' \<Longrightarrow>
    rc_body ctx' = rc_body ctx \<and> rc_ctype ctx' = rc_ctype ctx"
  by (induction ih ctx hs rule: set_headers.induct) (auto simp: rbind_Ok_iff set_header_keeps)

text \<open>
  C26: A request with a body and no header with its content type ends the server: the type is
  compared before it is known to be there, and before any token is looked at.
\<close>

theorem body_without_content_type_crashes:
  assumes "concat chunks \<noteq> []" "\<forall>(k, v)\<in>set headers. canon_header True k \<noteq> ''Content-Type''"
    "append_chunks (req_context_set_method req_context_alloc mth) chunks = Ok ctx1" "set_headers (ae_ih env) ctx1 headers = Ok ctx2"
  shows "answer_to_connection env peer mth headers chunks url api = Some (Fault NullDeref)"
proof -
  have "body_fits ctx1 (concat chunks) \<and> rc_ctype ctx1 = rc_ctype (req_context_set_method req_context_alloc mth)"
    using append_chunks_fits[OF fresh_fits, of mth chunks] assms(3) by auto
  moreover have "rc_ctype (req_context_set_method req_context_alloc mth) = None"
    by (simp add: req_context_set_method_def req_context_alloc_def)
  ultimately obtain al where "rc_body ctx1 = Some (al, concat chunks)" "rc_ctype ctx1 = None"
    using assms(1) by (auto simp only: body_fits_def split: if_split_asm)
  then have "rc_body ctx2 = Some (al, concat chunks)" "rc_ctype ctx2 = None" using set_headers_keep[OF assms(4,2)] by simp_all
  then show ?thesis using assms(3,4) by (simp add: answer_to_connection_def req_context_parse_body_def)
qed

lemma body_without_content_type_crashes_witness:
  "answer_to_connection sample_env ''192.0.2.7'' ''POST'' [] [''{}''] ''/login'' sample_api = Some (Fault NullDeref)"
proof -
  obtain ctx1 where "append_chunks (req_context_set_method req_context_alloc ''POST'') [''{}''] = Ok ctx1"
    using append_chunks_fits[OF fresh_fits] by blast
  then show ?thesis by (intro body_without_content_type_crashes[where ?ctx1.0 = ctx1 and ?ctx2.0 = ctx1]) simp_all
qed

end
