(* ===== verification/Glob.thy ===== *)
theory Glob
  imports VarLaws
begin

text \<open>
  \<^verbatim>\<open>libopticon/glob.c\<close>: the matching of a name against a pattern with wildcards, as the agent uses it
  to choose interfaces and sensors. A pointer into the name or the pattern is the rest of the text
  from there, so that the terminating zero is the empty rest; a step beyond it is a fault.
\<close>

definition chr0 :: "string \<Rightarrow> char" where
  "chr0 s = (case s of [] \<Rightarrow> CHR 0x00 | c # _ \<Rightarrow> c)"

lemma chr0_simps [simp]: "chr0 [] = CHR 0x00" "chr0 (c # s) = c"
  by (simp_all add: chr0_def)

text \<open>Whether a backslash, or the question mark it is shared with, is stepped over.\<close>

definition skips :: "string \<Rightarrow> bool" where
  "skips m \<longleftrightarrow> chr0 m = CHR 0x5C \<and> chr0 (tl m) = CHR ''*'' \<or> chr0 (tl m) = CHR ''?''"

text \<open>The second loop, with the places to go back to after a star and after a percent sign.\<close>

partial_function (option) glob_back ::
  "string \<Rightarrow> string \<Rightarrow> string option \<Rightarrow> string \<Rightarrow> string option \<Rightarrow> string \<Rightarrow> bool \<Rightarrow> bool res option" where
  "glob_back m n ma na pm pn just =
     (if chr0 m = CHR ''*'' then glob_back (tl m) n (Some (tl m)) n pm pn True
      else if chr0 m = CHR ''%'' then glob_back (tl m) n ma na (if chr0 n = CHR '' '' then None else Some (tl m)) n just
      else if chr0 m = CHR ''?'' \<and> (n = [] \<or> just) then Some (Ok True)
      else
        let m = (if chr0 m \<in> {CHR ''?'', CHR 0x5C} \<and> skips m then tl m else m) in
        if chr0 m \<noteq> chr0 n then
          (if n = [] then Some (Ok False)
           else case pm of
               Some p \<Rightarrow> glob_back p (tl pn) ma na (if chr0 (tl pn) = CHR '' '' then None else pm) (tl pn) False
             | None \<Rightarrow>
                 (case ma of
                    Some a \<Rightarrow> if tl na = [] then Some (Ok False) else glob_back a (tl na) ma (tl na) pm pn False
                  | None \<Rightarrow> Some (Ok False)))
        else if n = [] then Some (Fault OutOfBounds)
        else glob_back (tl m) (tl n) ma na pm pn False)"

text \<open>The first loop, up to the first wildcard.\<close>

function glob_front :: "string \<Rightarrow> string \<Rightarrow> bool res option" where
  "glob_front m n =
     (if chr0 m = CHR ''*'' \<or> chr0 m = CHR ''%'' then glob_back m n None [] None [] False
      else if chr0 m = CHR ''?'' then Some (Ok (n \<noteq> [] \<and> tl n = []))
      else if m = [] then Some (Ok (n = []))
      else
        let m' = (if chr0 m = CHR 0x5C \<and> skips m then tl m else m) in
        if chr0 m' \<noteq> chr0 n then Some (Ok False) else glob_front (tl m') (tl n))"
  by pat_completeness auto
termination
  by (relation "measure (\<lambda>(m, n). length m)") (auto simp: neq_Nil_conv Let_def)

declare glob_front.simps [simp del]

definition globcmp :: "string \<Rightarrow> string \<Rightarrow> bool res option" where
  "globcmp str glob = glob_front glob str"

text \<open>The list of patterns of a probe (\<^verbatim>\<open>opticon-agent/probelist.c\<close>); an entry that is no text is NULL.\<close>

fun matchlist_loop :: "string \<Rightarrow> nat \<Rightarrow> nat \<Rightarrow> var \<Rightarrow> bool res option" where
  "matchlist_loop val i 0 defarr = Some (Ok False)"
| "matchlist_loop val i (Suc k) defarr =
     (case var_get_str_atindex defarr (int i) of
        Fault e \<Rightarrow> Some (Fault e)
      | Ok (defarr, None) \<Rightarrow> Some (Fault NullDeref)
      | Ok (defarr, Some m) \<Rightarrow>
          (case globcmp val m of
             None \<Rightarrow> None
           | Some (Fault e) \<Rightarrow> Some (Fault e)
           | Some (Ok b) \<Rightarrow> if b then Some (Ok True) else matchlist_loop val (Suc i) k defarr))"

definition matchlist :: "string \<Rightarrow> var \<Rightarrow> bool res option" where
  "matchlist val defarr = matchlist_loop val 0 (nat (var_get_count defarr)) defarr"

subsection \<open>What it matches\<close>

definition plain :: "string \<Rightarrow> bool" where
  "plain g \<longleftrightarrow> set g \<inter> {CHR ''*'', CHR ''%'', CHR ''?'', CHR 0x5C, CHR 0x00} = {}"

lemma plain_Cons [simp]: "plain (c # g) \<longleftrightarrow> c \<notin> {CHR ''*'', CHR ''%'', CHR ''?'', CHR 0x5C, CHR 0x00} \<and> plain g"
  and plain_Nil [simp]: "plain []"
  by (auto simp: plain_def)

lemma cstr_Cons [simp]: "cstr (c # s) \<longleftrightarrow> c \<noteq> CHR 0x00 \<and> cstr s" and cstr_Nil [simp]: "cstr []"
  by (auto simp: cstr_def)

lemma front_plain:
  "plain a \<Longrightarrow> cstr s \<Longrightarrow> glob_front (a @ g) s = (if take (length a) s = a then glob_front g (drop (length a) s) else Some (Ok False))"
proof (induction a arbitrary: s)
  case (Cons c a)
  have "glob_front ((c # a) @ g) s = (if c \<noteq> chr0 s then Some (Ok False) else glob_front (a @ g) (tl s))"
    using Cons.prems(1) by (subst glob_front.simps) (simp add: Let_def)
  then show ?case using Cons by (cases s) auto
qed simp

lemma front_Nil [simp]: "glob_front [] s = Some (Ok (s = []))"
  by (simp add: glob_front.simps)

text \<open>One comparison after the star: the rest of the pattern against the rest of the name.\<close>

lemma back_plain_step:
  "plain (c # b) \<Longrightarrow> glob_back (c # b) n ma na None pn just =
     (if c \<noteq> chr0 n then
        (if n = [] then Some (Ok False)
         else case ma of Some a \<Rightarrow> if tl na = [] then Some (Ok False) else glob_back a (tl na) ma (tl na) None pn False
           | None \<Rightarrow> Some (Ok False))
      else if n = [] then Some (Fault OutOfBounds) else glob_back b (tl n) ma na None pn False)"
  by (subst glob_back.simps) (simp add: Let_def)

lemma back_end:
  "glob_back [] n ma na None pn just =
     (if n = [] then Some (Fault OutOfBounds)
      else if chr0 n \<noteq> CHR 0x00 then
        (case ma of Some a \<Rightarrow> if tl na = [] then Some (Ok False) else glob_back a (tl na) ma (tl na) None pn False
           | None \<Rightarrow> Some (Ok False))
      else glob_back [] (tl n) ma na None pn False)"
  by (subst glob_back.simps) (simp add: Let_def)

text \<open>Going back to the star, one character further.\<close>

definition again :: "string \<Rightarrow> string \<Rightarrow> string \<Rightarrow> bool res option" where
  "again b na pn = (if tl na = [] then Some (Ok False) else glob_back b (tl na) (Some b) (tl na) None pn False)"

lemma back_compare:
  "plain b' \<Longrightarrow> cstr n \<Longrightarrow> glob_back b' n (Some b) na None pn just =
     (if n = b' then Some (Fault OutOfBounds) else if length n < length b' \<and> n = take (length n) b' then Some (Ok False)
      else again b na pn)"
proof (induction b' arbitrary: n just)
  case Nil
  then show ?case by (cases n) (simp_all add: back_end again_def)
next
  case (Cons c b')
  show ?case
  proof (cases n)
    case Nil
    then show ?thesis using Cons.prems by (simp add: back_plain_step)
  next
    case (Cons x n')
    then show ?thesis using Cons.prems Cons.IH[of n' False] by (auto simp: back_plain_step again_def)
  qed
qed

lemma back_search:
  "plain b \<Longrightarrow> cstr na \<Longrightarrow> glob_back b na (Some b) na None pn just =
     (if (if b = [] then na = [] else \<exists>x. na = x @ b) then Some (Fault OutOfBounds) else Some (Ok False))"
proof (induction na arbitrary: pn just)
  case Nil
  then show ?case using back_compare[of b "[]" b "[]" pn just] by (cases b) auto
next
  case (Cons c na)
  note cmp = back_compare[OF Cons.prems, of b "c # na" pn just]
  have rest: "(\<exists>x. c # na = x @ b) \<longleftrightarrow> c # na = b \<or> (\<exists>x. na = x @ b)" by (auto simp: Cons_eq_append_conv)
  show ?case
  proof (cases "c # na = b")
    case True
    then show ?thesis using cmp by auto
  next
    case False
    show ?thesis
    proof (cases "length (c # na) < length b \<and> c # na = take (length (c # na)) b")
      case True
      then have "\<not> (\<exists>x. c # na = x @ b)" by (metis length_append not_add_less2)
      then show ?thesis using cmp False True by auto
    next
      case no: False
      have "again b (c # na) pn = (if (if b = [] then False else \<exists>x. na = x @ b) then Some (Fault OutOfBounds) else Some (Ok False))"
      proof (cases "na = []")
        case True
        then show ?thesis by (auto simp: again_def)
      next
        case False
        then show ?thesis using Cons.IH[of pn False] Cons.prems by (simp add: again_def)
      qed
      then show ?thesis using cmp False no rest by auto
    qed
  qed
qed

text \<open>
  A pattern without wildcards matches the name it spells and no other.
\<close>

lemma globcmp_plain:
  assumes "plain g" "cstr s"
  shows "globcmp s g = Some (Ok (s = g))"
proof -
  have "globcmp s g = (if take (length g) s = g then Some (Ok (drop (length g) s = [])) else Some (Ok False))"
    using front_plain[OF assms, of "[]"] by (simp add: globcmp_def)
  moreover have "take (length g) s = g \<and> drop (length g) s = [] \<longleftrightarrow> s = g" by auto
  ultimately show ?thesis by auto
qed



text \<open>A question mark ends the comparison: what follows it in the pattern is never read.\<close>

lemma question_takes_the_rest: "globcmp s (''?'' @ g) = Some (Ok (length s = 1))"
  by (cases s) (auto simp: globcmp_def glob_front.simps)

lemma matchlist_loop_plain:
  assumes "var_ok ih d v" "is_array v" "length (kids_of v) < 2 ^ 31" "cstr val"
    "\<forall>c\<in>set (kids_of v). \<exists>g. var_get_str c = Some g \<and> plain g" "i + k = length (kids_of v)"
  shows "matchlist_loop val i k v = Some (Ok (Some val \<in> var_get_str ` set (drop i (kids_of v))))"
  using assms
proof (induction k arbitrary: i v)
  case (Suc k)
  have i: "i < length (kids_of v)" using Suc.prems(6) by simp
  obtain l where l: "vv v = VArray l" using Suc.prems(2) by (cases "vv v") (auto simp: is_array_def)
  then have kl: "kids_of v = kids l" by (simp add: kids_of_def)
  obtain v' l' where f: "var_find_index v (int i) = Ok (v', Some i)" "var_ok ih d v'" "vv v' = VArray l'" "kids l' = kids l"
    using find_index_hit[OF Suc.prems(1), of l i] l kl i Suc.prems(3) by auto
  then have k': "kids_of v' = kids_of v" and a: "is_array v'" using kl by (simp_all add: kids_of_def is_array_def)
  obtain g where g: "var_get_str (kids_of v ! i) = Some g" "plain g" using Suc.prems(5) i by fastforce
  have s: "var_get_str_atindex v (int i) = Ok (v', Some g)" using f(1) g(1) k' by (simp add: var_get_str_atindex_def get_atindex_def)
  have d: "drop i (kids_of v) = kids_of v ! i # drop (Suc i) (kids_of v)" using i by (rule Cons_nth_drop_Suc[symmetric])
  have "matchlist_loop val (Suc i) k v' = Some (Ok (Some val \<in> var_get_str ` set (drop (Suc i) (kids_of v))))"
    using Suc.IH[OF f(2) a, of "Suc i"] Suc.prems k' by simp
  then show ?case using s globcmp_plain[OF g(2) Suc.prems(4)] g(1) by (auto simp: d)
qed simp

lemma count_is_length:
  assumes "var_ok ih d v" "is_array v" "length (kids_of v) < 2 ^ 31"
  shows "var_get_count v = int (length (kids_of v))"
proof -
  obtain l where l: "vv v = VArray l" using assms(2) by (cases "vv v") (auto simp: is_array_def)
  then have "kcount l = of_nat (length (kids_of v))" using links_ok[OF assms(1), of l] by (simp add: link_ok_def)
  then show ?thesis using l assms(3) by (simp add: var_get_count_def signed_of_nat signed_take_bit_int_eq_self)
qed

text \<open>
  A list of patterns without wildcards matches exactly the names in it.
\<close>

theorem matchlist_plain:
  assumes "var_ok ih d v" "is_array v" "length (kids_of v) < 2 ^ 31" "cstr val"
    "\<forall>c\<in>set (kids_of v). \<exists>g. var_get_str c = Some g \<and> plain g"
  shows "matchlist val v = Some (Ok (Some val \<in> var_get_str ` set (kids_of v)))"
  using matchlist_loop_plain[OF assms, of 0 "length (kids_of v)"] count_is_length[OF assms(1-3)] by (simp add: matchlist_def)

definition two_names :: var where
  "two_names = Var hdr0 (VArray (VLink [Var (hdr0\<lparr>v_root := RootUp 1\<rparr>) (VStr ''eth0''), Var (hdr0\<lparr>v_root := RootUp 1\<rparr>) (VStr ''eth2'')] 2 (-1) None))"

lemma matchlist_plain_witness: "matchlist ''eth2'' two_names = Some (Ok True)"
proof -
  have "var_ok 7 0 two_names" "is_array two_names" "kids_of two_names = [Var (hdr0\<lparr>v_root := RootUp 1\<rparr>) (VStr ''eth0''), Var (hdr0\<lparr>v_root := RootUp 1\<rparr>) (VStr ''eth2'')]"
    by (simp_all add: two_names_def is_array_def kids_of_def hdr0_def root_at_def link_ok_def key_ok_def cstr_def hash_ok_def)
  then show ?thesis using matchlist_plain[of 7 0 two_names "''eth2''"] by (auto simp: var_get_str_def plain_def cstr_def)
qed

end
