(* ===== verification/HostImport.thy ===== *)
theory HostImport
  imports VarLaws MeterAccess
begin

text \<open>
  \<^verbatim>\<open>libopticon/host_import.c\<close>: how the agent turns the JSON data of a probe into the meters of the
  host it sends. The data is only read; the lookup cache of an array, which reading by position
  moves, lasts for one array here. An array has fewer than \<open>2 ^ 31\<close> elements. \<open>cv\<close> is the
  conversion of a \<^verbatim>\<open>double\<close> that fits no integer.
\<close>

text \<open>\<^verbatim>\<open>meter_set_str\<close> with the pointer it gets; \<^verbatim>\<open>strncpy\<close> reads it when there is room.\<close>

definition set_str_ptr :: "time_t \<Rightarrow> meter \<Rightarrow> nat \<Rightarrow> string option \<Rightarrow> meter res" where
  "set_str_ptr lm m i v =
     (case v of
        Some s \<Rightarrow> meter_set_str lm m i s
      | None \<Rightarrow> if mt_count m < SZ_EMPTY_VAL \<and> meter_type m = MTYPE_STR \<and> i < elems (mt_count m) then Fault NullDeref else Ok m)"

text \<open>Getting the meter for a label, setting its count and storing values into it.\<close>

definition import_meter :: "(time_t \<Rightarrow> meter \<Rightarrow> nat \<Rightarrow> 'v \<Rightarrow> meter res) \<Rightarrow> host \<Rightarrow> string \<Rightarrow> u64 \<Rightarrow> nat \<Rightarrow> 'v list \<Rightarrow> host res" where
  "import_meter setv h label tp count vals =
     (let (h, k) = host_get_meter h (makeid label tp) in
      rbind (meter_setcount (h_lastmodified h) (h_meters h ! k) count) (\<lambda>m.
      rbind (store_all setv (h_lastmodified h) m 0 vals) (\<lambda>m.
        Ok (host_set_meter h k m))))"

definition import_scalar :: "(dbl \<Rightarrow> u64) \<Rightarrow> host \<Rightarrow> string \<Rightarrow> var \<Rightarrow> host res" where
  "import_scalar cv h label v =
     (case vv v of
        VDouble _ \<Rightarrow> import_meter meter_set_frac h label MTYPE_FRAC 0 [var_get_double v]
      | VInt _ \<Rightarrow> import_meter meter_set_uint h label MTYPE_INT 0 [var_get_int cv v]
      | VStr _ \<Rightarrow> import_meter set_str_ptr h label MTYPE_STR 0 [var_get_str v]
      | _ \<Rightarrow> Ok h)"

subsection \<open>Arrays of dictionaries\<close>

text \<open>The values of one field, from the dictionary on that the array begins with.\<close>

definition field_type :: "var \<Rightarrow> u64 option" where
  "field_type v = (case vv v of VInt _ \<Rightarrow> Some MTYPE_INT | VDouble _ \<Rightarrow> Some MTYPE_FRAC | VStr _ \<Rightarrow> Some MTYPE_STR | _ \<Rightarrow> None)"

definition field_meter :: "(dbl \<Rightarrow> u64) \<Rightarrow> u32 \<Rightarrow> host \<Rightarrow> string \<Rightarrow> string \<Rightarrow> u64 \<Rightarrow> var list \<Rightarrow> host res" where
  "field_meter cv ih h label key tp rows =
     (let count = min (length rows) SZ_MAX_ARRAY; rows = take count rows in
      if tp = MTYPE_INT then import_meter meter_set_uint h label tp count (map (\<lambda>r. var_get_int_forkey cv ih r key) rows)
      else if tp = MTYPE_STR then
        import_meter meter_set_str h label tp count (map (\<lambda>r. case var_get_str_forkey ih r key of Some s \<Rightarrow> s | None \<Rightarrow> '''') rows)
      else import_meter meter_set_frac h label tp count (map (\<lambda>r. var_get_double_forkey ih r key) rows))"

fun dictarray_loop :: "(dbl \<Rightarrow> u64) \<Rightarrow> u32 \<Rightarrow> host \<Rightarrow> string \<Rightarrow> var list \<Rightarrow> var list \<Rightarrow> (host \<times> bool) res" where
  "dictarray_loop cv ih h prefix rows [] = Ok (h, True)"
| "dictarray_loop cv ih h prefix rows (f # fs) =
     (if length prefix + length (var_id f) > 10 then Ok (h, False)
      else case field_type f of
          None \<Rightarrow> Ok (h, False)
        | Some tp \<Rightarrow>
            rbind (field_meter cv ih h (prefix @ ''/'' @ var_id f) (var_id f) tp rows) (\<lambda>h.
              dictarray_loop cv ih h prefix rows fs))"

definition dictarray_to_host :: "(dbl \<Rightarrow> u64) \<Rightarrow> u32 \<Rightarrow> host \<Rightarrow> string \<Rightarrow> var list \<Rightarrow> (host \<times> bool) res" where
  "dictarray_to_host cv ih h prefix rows = dictarray_loop cv ih h prefix rows (kids_of (hd rows))"

subsection \<open>Arrays of values\<close>

text \<open>The values by position, with the cache of the array.\<close>

fun at_indexes :: "(var \<Rightarrow> int \<Rightarrow> (var \<times> 'v) res) \<Rightarrow> var \<Rightarrow> nat list \<Rightarrow> 'v list res" where
  "at_indexes getv v [] = Ok []"
| "at_indexes getv v (i # is) = rbind (getv v (int i)) (\<lambda>(v, x). rbind (at_indexes getv v is) (\<lambda>xs. Ok (x # xs)))"

definition import_values ::
  "(time_t \<Rightarrow> meter \<Rightarrow> nat \<Rightarrow> 'v \<Rightarrow> meter res) \<Rightarrow> (var \<Rightarrow> int \<Rightarrow> (var \<times> 'v) res) \<Rightarrow> host \<Rightarrow> u64 \<Rightarrow> var \<Rightarrow> host res" where
  "import_values setv getv h tp v =
     (let count = min (length (kids_of v)) SZ_MAX_ARRAY in
      rbind (at_indexes getv v [0..<count]) (\<lambda>xs. import_meter setv h (var_id v) tp count xs))"

definition import_array :: "(dbl \<Rightarrow> u64) \<Rightarrow> u32 \<Rightarrow> host \<Rightarrow> var \<Rightarrow> (host \<times> bool) res" where
  "import_array cv ih h v =
     (case kids_of v of
        [] \<Rightarrow>
          (let (h, k) = host_get_meter h (makeid (var_id v) MTYPE_INT) in
           rbind (meter_set_empty_array (h_lastmodified h) (h_meters h ! k)) (\<lambda>m. Ok (host_set_meter h k m, True)))
      | first # _ \<Rightarrow>
          (case vv first of
             VArray _ \<Rightarrow> Ok (h, False)
           | VDict _ \<Rightarrow> rbind (dictarray_to_host cv ih h (var_id v) (kids_of v)) (\<lambda>(h, _). Ok (h, True))
           | VDouble _ \<Rightarrow> rbind (import_values meter_set_frac var_get_double_atindex h MTYPE_FRAC v) (\<lambda>h. Ok (h, True))
           | VInt _ \<Rightarrow> rbind (import_values meter_set_uint (var_get_int_atindex cv) h MTYPE_INT v) (\<lambda>h. Ok (h, True))
           | VStr _ \<Rightarrow> rbind (import_values set_str_ptr var_get_str_atindex h MTYPE_STR v) (\<lambda>h. Ok (h, True))
           | _ \<Rightarrow> Ok (h, True)))"

subsection \<open>Dictionaries, and the whole\<close>

text \<open>A dictionary within a dictionary is passed over; the code tests for an array twice.\<close>

fun import_dict :: "(dbl \<Rightarrow> u64) \<Rightarrow> host \<Rightarrow> string \<Rightarrow> var list \<Rightarrow> (host \<times> bool) res" where
  "import_dict cv h prefix [] = Ok (h, True)"
| "import_dict cv h prefix (c # cs) =
     (if length (var_id c) + length prefix > 10 then Ok (h, False)
      else if is_array c then Ok (h, False)
      else rbind (import_scalar cv h (prefix @ ''/'' @ var_id c) c) (\<lambda>h. import_dict cv h prefix cs))"

fun import_loop :: "(dbl \<Rightarrow> u64) \<Rightarrow> u32 \<Rightarrow> host \<Rightarrow> var list \<Rightarrow> (host \<times> bool) res" where
  "import_loop cv ih h [] = Ok (h, True)"
| "import_loop cv ih h (v # vs) =
     (if length (var_id v) > 11 then Ok (h, False)
      else
        rbind (if is_array v then import_array cv ih h v
               else if is_dict v then import_dict cv h (var_id v) (kids_of v)
               else rbind (import_scalar cv h (var_id v) v) (\<lambda>h. Ok (h, True))) (\<lambda>(h, ok).
          if ok then import_loop cv ih h vs else Ok (h, False)))"

definition host_import :: "(dbl \<Rightarrow> u64) \<Rightarrow> u32 \<Rightarrow> host \<Rightarrow> var \<Rightarrow> (host \<times> bool) res" where
  "host_import cv ih h val = (if \<not> is_dict val then Ok (h, False) else import_loop cv ih h (kids_of val))"

end
