(* ===== verification/ImportProps.thy ===== *)
theory ImportProps
  imports HostImport
begin

text \<open>
  What the import promises: it keeps the host sound, it fails on nothing but a text array with an
  element that is no text, and every value that the probe reports can be read from the meter of
  its label.
\<close>

subsection \<open>Setters\<close>

text \<open>A setter that can store any good value into a sound meter, wherever it points.\<close>

locale value_setter =
  fixes setv :: "time_t \<Rightarrow> meter \<Rightarrow> nat \<Rightarrow> 'v \<Rightarrow> meter res"
    and good :: "'v \<Rightarrow> bool"
  assumes keeps: "meter_ok m \<Longrightarrow> good v \<Longrightarrow> \<exists>m'. setv lm m i v = Ok m' \<and> meter_ok m' \<and> mt_id m' = mt_id m \<and> mt_count m' = mt_count m"
begin

lemma store_all_keeps:
  "meter_ok m \<Longrightarrow> list_all good vs \<Longrightarrow> \<exists>m'. store_all setv lm m i vs = Ok m' \<and> meter_ok m' \<and> mt_id m' = mt_id m \<and> mt_count m' = mt_count m"
proof (induction vs arbitrary: m i)
  case (Cons v vs)
  obtain m1 where 1: "setv lm m i v = Ok m1" "meter_ok m1" "mt_id m1 = mt_id m" "mt_count m1 = mt_count m"
    using keeps[OF Cons.prems(1), of v lm i] Cons.prems(2) by auto
  then show ?case using Cons.IH[OF 1(2)] Cons.prems(2) by auto
qed simp

lemma import_meter_sound:
  assumes "host_ok h" "count \<le> SZ_EMPTY_ARRAY" "list_all good vs"
  shows "\<exists>h'. import_meter setv h label tp count vs = Ok h' \<and> host_ok h'"
proof -
  obtain h1 k where g: "host_get_meter h (makeid label tp) = (h1, k)" by fastforce
  note ok = host_get_meter_ok[OF assms(1) g]
  obtain m1 where m1: "meter_setcount (h_lastmodified h1) (h_meters h1 ! k) count = Ok m1" using meter_setcount_total[OF assms(2)] by blast
  obtain m2 where m2: "store_all setv (h_lastmodified h1) m1 0 vs = Ok m2" "meter_ok m2" "mt_id m2 = mt_id m1"
    using store_all_keeps[OF meter_setcount_ok[OF m1] assms(3)] by blast
  have "mt_id m2 = full_id (mt_id m2)" using m2(3) meter_setcount_frame[OF m1] host_ok_nth[OF ok(1,2)] by simp
  then have "host_ok (host_set_meter h1 k m2)" by (rule host_set_meter_ok[OF ok(1) m2(2)])
  then show ?thesis using g m1 m2(1) by (simp add: import_meter_def)
qed

end

interpretation su: value_setter meter_set_uint "\<lambda>_. True"
  by unfold_locales (rule meter_set_ok(1))

interpretation sf: value_setter meter_set_frac "\<lambda>_. True"
  by unfold_locales (rule meter_set_ok(2))

interpretation ss: value_setter meter_set_str "\<lambda>_. True"
  by unfold_locales (rule meter_set_ok(3))

interpretation sp: value_setter set_str_ptr "\<lambda>v. v \<noteq> None"
  by unfold_locales (use meter_set_ok(3) in \<open>auto simp: set_str_ptr_def\<close>)

subsection \<open>Reading an array by position\<close>

lemma at_indexes_map:
  assumes "\<And>v i. var_ok ih d v \<Longrightarrow> is_array v \<Longrightarrow> length (kids_of v) < 2 ^ 31 \<Longrightarrow> i < length (kids_of v) \<Longrightarrow>
      \<exists>v'. getv v (int i) = Ok (v', f (kids_of v ! i)) \<and> var_ok ih d v' \<and> is_array v' \<and> kids_of v' = kids_of v"
    and "var_ok ih d v" "is_array v" "length (kids_of v) < 2 ^ 31" "\<forall>i\<in>set is. i < length (kids_of v)"
  shows "at_indexes getv v is = Ok (map (\<lambda>i. f (kids_of v ! i)) is)"
  using assms(2-5)
proof (induction "is" arbitrary: v)
  case (Cons i "is")
  obtain v' where v': "getv v (int i) = Ok (v', f (kids_of v ! i))" "var_ok ih d v'" "is_array v'" "kids_of v' = kids_of v"
    using assms(1)[OF Cons.prems(1-3)] Cons.prems(4) by auto
  then show ?case using Cons.IH[OF v'(2,3)] Cons.prems by simp
qed simp

lemma get_atindex_hit:
  assumes "var_ok ih d v" "is_array v" "length (kids_of v) < 2 ^ 31" "i < length (kids_of v)"
  shows "\<exists>v'. get_atindex f z v (int i) = Ok (v', f (kids_of v ! i)) \<and> var_ok ih d v' \<and> is_array v' \<and> kids_of v' = kids_of v"
proof -
  obtain l where l: "vv v = VArray l" using assms(2) by (cases "vv v") (auto simp: is_array_def)
  then have kl: "kids_of v = kids l" by (simp add: kids_of_def)
  obtain v' l' where f: "var_find_index v (int i) = Ok (v', Some i)" "var_ok ih d v'" "vv v' = VArray l'" "kids l' = kids l"
    using find_index_hit[OF assms(1), of l i] l kl assms(3,4) by auto
  then have "kids_of v' = kids_of v" "is_array v'" using kl by (simp_all add: kids_of_def is_array_def)
  then show ?thesis using f by (simp add: get_atindex_def)
qed

lemma upto_nths: "map (\<lambda>i. f (xs ! i)) [0..<min (length xs) n] = map f (take n xs)"
  by (rule nth_equalityI) auto

lemma import_values_all:
  assumes "\<And>v i. var_ok ih d v \<Longrightarrow> is_array v \<Longrightarrow> length (kids_of v) < 2 ^ 31 \<Longrightarrow> i < length (kids_of v) \<Longrightarrow>
      \<exists>v'. getv v (int i) = Ok (v', f (kids_of v ! i)) \<and> var_ok ih d v' \<and> is_array v' \<and> kids_of v' = kids_of v"
    and "var_ok ih d v" "is_array v" "length (kids_of v) < 2 ^ 31"
  shows "import_values setv getv h tp v =
    import_meter setv h (var_id v) tp (min (length (kids_of v)) SZ_MAX_ARRAY) (map f (take SZ_MAX_ARRAY (kids_of v)))"
proof -
  have "at_indexes getv v [0..<min (length (kids_of v)) SZ_MAX_ARRAY] = Ok (map f (take SZ_MAX_ARRAY (kids_of v)))"
    using at_indexes_map[where f = f, OF assms(1) assms(2-4)] upto_nths[of f "kids_of v" SZ_MAX_ARRAY] by simp
  then show ?thesis by (simp add: import_values_def)
qed

lemma import_values_uint:
  "var_ok ih d v \<Longrightarrow> is_array v \<Longrightarrow> length (kids_of v) < 2 ^ 31 \<Longrightarrow> import_values setv (var_get_int_atindex cv) h tp v =
    import_meter setv h (var_id v) tp (min (length (kids_of v)) SZ_MAX_ARRAY) (map (var_get_int cv) (take SZ_MAX_ARRAY (kids_of v)))"
  by (rule import_values_all) (simp_all add: var_get_int_atindex_def get_atindex_hit)

lemma import_values_frac:
  "var_ok ih d v \<Longrightarrow> is_array v \<Longrightarrow> length (kids_of v) < 2 ^ 31 \<Longrightarrow> import_values setv var_get_double_atindex h tp v =
    import_meter setv h (var_id v) tp (min (length (kids_of v)) SZ_MAX_ARRAY) (map var_get_double (take SZ_MAX_ARRAY (kids_of v)))"
  by (rule import_values_all) (simp_all add: var_get_double_atindex_def get_atindex_hit)

lemma import_values_str:
  "var_ok ih d v \<Longrightarrow> is_array v \<Longrightarrow> length (kids_of v) < 2 ^ 31 \<Longrightarrow> import_values setv var_get_str_atindex h tp v =
    import_meter setv h (var_id v) tp (min (length (kids_of v)) SZ_MAX_ARRAY) (map var_get_str (take SZ_MAX_ARRAY (kids_of v)))"
  by (rule import_values_all) (simp_all add: var_get_str_atindex_def get_atindex_hit)

subsection \<open>What is reported\<close>

text \<open>A label with the count of its meter and its values; a single value has the count 0.\<close>

datatype mvals = MInts "u64 list" | MFracs "dbl list" | MStrs "string list"

type_synonym entry = "string \<times> nat \<times> mvals"

fun vals_type :: "mvals \<Rightarrow> u64" where
  "vals_type (MInts _) = MTYPE_INT"
| "vals_type (MFracs _) = MTYPE_FRAC"
| "vals_type (MStrs _) = MTYPE_STR"

fun vals_count :: "mvals \<Rightarrow> nat" where
  "vals_count (MInts xs) = length xs"
| "vals_count (MFracs xs) = length xs"
| "vals_count (MStrs xs) = length xs"

definition scalar_entry :: "(dbl \<Rightarrow> u64) \<Rightarrow> string \<Rightarrow> var \<Rightarrow> entry list" where
  "scalar_entry cv label v =
     (case vv v of
        VInt _ \<Rightarrow> [(label, 0, MInts [var_get_int cv v])]
      | VDouble _ \<Rightarrow> [(label, 0, MFracs [var_get_double v])]
      | VStr s \<Rightarrow> [(label, 0, MStrs [s])]
      | _ \<Rightarrow> [])"

definition column :: "(dbl \<Rightarrow> u64) \<Rightarrow> u32 \<Rightarrow> string \<Rightarrow> var list \<Rightarrow> var \<Rightarrow> entry" where
  "column cv ih prefix rows f =
     (prefix @ ''/'' @ var_id f, length rows,
      case vv f of
        VInt _ \<Rightarrow> MInts (map (\<lambda>r. var_get_int_forkey cv ih r (var_id f)) rows)
      | VStr _ \<Rightarrow> MStrs (map (\<lambda>r. case var_get_str_forkey ih r (var_id f) of Some s \<Rightarrow> s | None \<Rightarrow> '''') rows)
      | _ \<Rightarrow> MFracs (map (\<lambda>r. var_get_double_forkey ih r (var_id f)) rows))"

definition array_entries :: "(dbl \<Rightarrow> u64) \<Rightarrow> u32 \<Rightarrow> string \<Rightarrow> var list \<Rightarrow> entry list" where
  "array_entries cv ih label items =
     (if items = [] then [(label, SZ_EMPTY_ARRAY, MInts [])]
      else
        let rows = take SZ_MAX_ARRAY items in
        case vv (hd items) of
          VInt _ \<Rightarrow> [(label, length rows, MInts (map (var_get_int cv) rows))]
        | VDouble _ \<Rightarrow> [(label, length rows, MFracs (map var_get_double rows))]
        | VStr _ \<Rightarrow> [(label, length rows, MStrs (map (\<lambda>r. the (var_get_str r)) rows))]
        | VDict _ \<Rightarrow> map (column cv ih label rows) (kids_of (hd items))
        | _ \<Rightarrow> [])"

definition reported :: "(dbl \<Rightarrow> u64) \<Rightarrow> u32 \<Rightarrow> var \<Rightarrow> entry list" where
  "reported cv ih v =
     (if is_array v then array_entries cv ih (var_id v) (kids_of v)
      else if is_dict v then concat (map (\<lambda>c. scalar_entry cv (var_id v @ ''/'' @ var_id c) c) (kids_of v))
      else scalar_entry cv (var_id v) v)"

text \<open>What can be imported: the labels fit, and texts are only among texts.\<close>

definition importable :: "var \<Rightarrow> bool" where
  "importable v \<longleftrightarrow> length (var_id v) \<le> 11 \<and> length (kids_of v) < 2 ^ 31 \<and>
     (is_dict v \<longrightarrow> (\<forall>c\<in>set (kids_of v). length (var_id c) + length (var_id v) \<le> 10 \<and> \<not> is_array c)) \<and>
     (is_array v \<and> kids_of v \<noteq> [] \<longrightarrow>
        (case vv (hd (kids_of v)) of
           VArray _ \<Rightarrow> False
         | VStr _ \<Rightarrow> \<forall>r\<in>set (take SZ_MAX_ARRAY (kids_of v)). var_get_str r \<noteq> None
         | VDict _ \<Rightarrow> \<forall>f\<in>set (kids_of (hd (kids_of v))). length (var_id v) + length (var_id f) \<le> 10 \<and> field_type f \<noteq> None
         | _ \<Rightarrow> True))"

subsection \<open>The import is the entries, one after the other\<close>

fun import_entry :: "host \<Rightarrow> entry \<Rightarrow> host res" where
  "import_entry h (label, count, MInts xs) = import_meter meter_set_uint h label MTYPE_INT count xs"
| "import_entry h (label, count, MFracs xs) = import_meter meter_set_frac h label MTYPE_FRAC count xs"
| "import_entry h (label, count, MStrs xs) = import_meter meter_set_str h label MTYPE_STR count xs"

fun import_all :: "host \<Rightarrow> entry list \<Rightarrow> host res" where
  "import_all h [] = Ok h"
| "import_all h (e # es) = rbind (import_entry h e) (\<lambda>h. import_all h es)"

lemma rbind_assoc: "rbind (rbind x f) g = rbind x (\<lambda>a. rbind (f a) g)"
  by (cases x) simp_all

lemma rbind_Ok [simp]: "rbind x Ok = x"
  by (cases x) simp_all

lemma import_all_append: "import_all h (xs @ ys) = rbind (import_all h xs) (\<lambda>h. import_all h ys)"
  by (induction xs arbitrary: h) (simp_all add: rbind_assoc)

lemma store_ptrs: "store_all set_str_ptr lm m i (map Some xs) = store_all meter_set_str lm m i xs"
  by (induction xs arbitrary: m i) (simp_all add: set_str_ptr_def)

lemma import_ptrs: "import_meter set_str_ptr h label tp count (map Some xs) = import_meter meter_set_str h label tp count xs"
  by (simp add: import_meter_def store_ptrs)

lemma scalar_is_entry: "import_scalar cv h label v = import_all h (scalar_entry cv label v)"
  using import_ptrs[of h label MTYPE_STR 0 "[the (var_get_str v)]"]
  by (auto simp: import_scalar_def scalar_entry_def var_get_str_def split: vval.split)

lemma dict_is_entries:
  "\<forall>c\<in>set cs. length (var_id c) + length prefix \<le> 10 \<and> \<not> is_array c \<Longrightarrow> import_dict cv h prefix cs =
     rbind (import_all h (concat (map (\<lambda>c. scalar_entry cv (prefix @ ''/'' @ var_id c) c) cs))) (\<lambda>h. Ok (h, True))"
  by (induction cs arbitrary: h) (simp_all add: scalar_is_entry import_all_append rbind_assoc not_less)

lemma take_min: "take (min (length xs) n) xs = take n xs"
  by (simp add: min_def)

lemma field_is_column:
  "field_type f = Some tp \<Longrightarrow> field_meter cv ih h (prefix @ ''/'' @ var_id f) (var_id f) tp items =
     import_entry h (column cv ih prefix (take SZ_MAX_ARRAY items) f)"
  by (auto simp: field_meter_def field_type_def column_def take_min Let_def split: vval.splits)

lemma dictarray_is_columns:
  "\<forall>f\<in>set fs. length prefix + length (var_id f) \<le> 10 \<and> field_type f \<noteq> None \<Longrightarrow> dictarray_loop cv ih h prefix items fs =
     rbind (import_all h (map (column cv ih prefix (take SZ_MAX_ARRAY items)) fs)) (\<lambda>h. Ok (h, True))"
proof (induction fs arbitrary: h)
  case (Cons f fs)
  obtain tp where t: "field_type f = Some tp" using Cons.prems by auto
  then show ?case using Cons field_is_column[OF t, of cv ih _ prefix items] by (simp add: rbind_assoc not_less)
qed simp

lemma empty_is_entry:
  "(let (h, k) = host_get_meter h (makeid label MTYPE_INT) in
    rbind (meter_set_empty_array (h_lastmodified h) (h_meters h ! k)) (\<lambda>m. Ok (host_set_meter h k m, True))) =
   rbind (import_meter meter_set_uint h label MTYPE_INT SZ_EMPTY_ARRAY []) (\<lambda>h. Ok (h, True))"
  by (simp add: import_meter_def meter_set_empty_array_def rbind_assoc split: prod.split)

lemma array_is_entries:
  assumes "var_ok ih d v" "is_array v" "importable v"
  shows "import_array cv ih h v = rbind (import_all h (array_entries cv ih (var_id v) (kids_of v))) (\<lambda>h. Ok (h, True))"
proof (cases "kids_of v")
  case Nil
  then show ?thesis using empty_is_entry[of h "var_id v"] by (simp add: import_array_def array_entries_def)
next
  case (Cons x xs)
  have n: "length (kids_of v) < 2 ^ 31" using assms(3) by (simp add: importable_def)
  note im = assms(3)[unfolded importable_def] assms(2)
  show ?thesis
  proof (cases "vv x")
    case VNull
    then show ?thesis using Cons by (simp add: import_array_def array_entries_def)
  next
    case (VArray l)
    then show ?thesis using Cons im by simp
  next
    case (VDict l)
    then show ?thesis using Cons im dictarray_is_columns[of "kids_of x" "var_id v" cv ih h "x # xs"]
      by (simp add: import_array_def array_entries_def dictarray_to_host_def rbind_assoc)
  next
    case (VInt i)
    then show ?thesis using Cons import_values_uint[OF assms(1,2) n, of meter_set_uint cv h MTYPE_INT]
      by (simp add: import_array_def array_entries_def rbind_assoc Let_def)
  next
    case (VDouble i)
    then show ?thesis using Cons import_values_frac[OF assms(1,2) n, of meter_set_frac h MTYPE_FRAC]
      by (simp add: import_array_def array_entries_def rbind_assoc Let_def)
  next
    case (VStr s)
    have "\<forall>r\<in>set (take SZ_MAX_ARRAY (kids_of v)). var_get_str r = Some (the (var_get_str r))" using Cons VStr im by auto
    then have "map var_get_str (take SZ_MAX_ARRAY (kids_of v)) = map Some (map (\<lambda>r. the (var_get_str r)) (take SZ_MAX_ARRAY (kids_of v)))"
      by (simp only: map_map o_def) (rule map_cong, simp_all)
    then have "import_values set_str_ptr var_get_str_atindex h MTYPE_STR v = import_meter meter_set_str h (var_id v) MTYPE_STR
        (min (length (kids_of v)) SZ_MAX_ARRAY) (map (\<lambda>r. the (var_get_str r)) (take SZ_MAX_ARRAY (kids_of v)))"
      by (simp only: import_values_str[OF assms(1,2) n] import_ptrs)
    then show ?thesis using Cons VStr by (simp add: import_array_def array_entries_def Let_def)
  qed
qed

lemma loop_is_entries:
  assumes "\<forall>v\<in>set vs. var_ok ih d v \<and> importable v"
  shows "import_loop cv ih h vs = rbind (import_all h (concat (map (reported cv ih) vs))) (\<lambda>h. Ok (h, True))"
  using assms
proof (induction vs arbitrary: h)
  case (Cons v vs)
  have ok: "var_ok ih d v" "importable v" using Cons.prems by simp_all
  have "length (var_id v) \<le> 11" using ok(2) by (simp add: importable_def)
  moreover have "(if is_array v then import_array cv ih h v
               else if is_dict v then import_dict cv h (var_id v) (kids_of v)
               else rbind (import_scalar cv h (var_id v) v) (\<lambda>h. Ok (h, True))) =
      rbind (import_all h (reported cv ih v)) (\<lambda>h. Ok (h, True))"
    using array_is_entries[OF ok(1) _ ok(2)] dict_is_entries[of "kids_of v" "var_id v"] ok(2)
    by (auto simp: reported_def scalar_is_entry importable_def)
  ultimately show ?case using Cons by (simp add: import_all_append rbind_assoc)
qed simp


subsection \<open>What an entry leaves in the host\<close>

fun reads :: "meter \<Rightarrow> mvals \<Rightarrow> bool" where
  "reads m (MInts xs) \<longleftrightarrow> (\<forall>i<length xs. meter_get_uint m i = Ok (xs ! i))"
| "reads m (MFracs xs) \<longleftrightarrow> (\<forall>i<length xs. meter_get_frac m i = Ok (xs ! i))"
| "reads m (MStrs xs) \<longleftrightarrow> (\<forall>i<length xs. meter_get_str m i = Ok (c_truncate 127 (xs ! i)))"

definition arrives :: "entry \<Rightarrow> meter \<Rightarrow> bool" where
  "arrives e m \<longleftrightarrow> (case e of (label, count, vals) \<Rightarrow>
     id2str (mt_id m) = label \<and> meter_type m = vals_type vals \<and> mt_count m = count \<and> reads m vals)"

definition entry_ok :: "entry \<Rightarrow> bool" where
  "entry_ok e \<longleftrightarrow> (case e of (label, count, vals) \<Rightarrow> id_label label \<and>
     (count < SZ_EMPTY_VAL \<and> vals_count vals \<le> elems count \<or> count = SZ_EMPTY_ARRAY \<and> vals_count vals = 0))"

lemma id_facts:
  assumes "id_label s" "tp \<in> {MTYPE_INT, MTYPE_FRAC, MTYPE_STR}"
  shows "id2str (makeid s tp) = s" "makeid s tp AND MMASK_TYPE = tp" "full_id (makeid s tp) = makeid s tp"
proof -
  have tp: "\<forall>j \<le> 10. idchar tp j = 0" using assms(2) by auto
  have c: "tp AND MMASK_TYPE = tp" "tp AND MMASK_COUNT = 0" using assms(2) by (auto simp: mask_defs)
  note ok = id_label_ok[OF assms(1)]
  show "id2str (makeid s tp) = s" by (rule id2str_makeid[OF assms(1) tp])
  show "makeid s tp AND MMASK_TYPE = tp" using makeid_type[OF ok] c(1) by simp
  have "makeid s tp AND MMASK_COUNT = 0" using makeid_count[OF ok] c(2) by simp
  then have n: "\<not> (bit (makeid s tp) n \<and> bit MMASK_COUNT n)" for n by (metis bit_and_iff bit_0_eq bot_apply bot_bool_def)
  show "full_id (makeid s tp) = makeid s tp"
  proof (unfold full_id_def, rule bit_word_eqI)
    fix k assume "k < LENGTH(64)"
    then show "bit (makeid s tp AND (MMASK_TYPE OR MMASK_NAME)) k = bit (makeid s tp) k"
      using n[of k] by (auto simp: bit_and_iff bit_or_iff bit_masks)
  qed
qed

lemma idchars_name: "idchars (name_of x) = idchars x"
proof -
  have "idchar (name_of x) k = idchar x k" if "k \<le> 10" for k
    using that by (intro bit_eqI) (auto simp: bit_idchar name_of_def bit_and_iff bit_MMASK_NAME)
  then show ?thesis by (simp add: idchars_def)
qed

lemma names_differ:
  assumes "id_label s" "id_label t" "tp \<in> {MTYPE_INT, MTYPE_FRAC, MTYPE_STR}" "tq \<in> {MTYPE_INT, MTYPE_FRAC, MTYPE_STR}"
    "name_of (makeid s tp) = name_of (makeid t tq)"
  shows "s = t"
proof -
  have "idchars (makeid s tp) = idchars (makeid t tq)" using assms(5) idchars_name by metis
  then have "id2str (makeid s tp) = id2str (makeid t tq)" by (simp add: id2str_emit)
  then show ?thesis using id_facts(1) assms by simp
qed

lemma setcount_keeps_count:
  "meter_setcount lm m c = Ok m' \<Longrightarrow> meter_type m \<in> {MTYPE_INT, MTYPE_FRAC, MTYPE_STR} \<Longrightarrow> mt_count m' = c"
  by (auto simp: meter_setcount_def meter_type_def Let_def split: if_split_asm)

text \<open>A setter that stores everything, and whose values its getter returns.\<close>

locale value_access = value_setter setv "\<lambda>_. True" + meter_access tp getv setv norm
  for tp :: u64 and getv :: "meter \<Rightarrow> nat \<Rightarrow> 'v res" and setv :: "time_t \<Rightarrow> meter \<Rightarrow> nat \<Rightarrow> 'v \<Rightarrow> meter res" and norm :: "'v \<Rightarrow> 'v" +
  assumes types: "tp \<in> {MTYPE_INT, MTYPE_FRAC, MTYPE_STR}"
begin

lemma import_fresh:
  assumes "host_ok h" "id_label label" "name_of (makeid label tp) \<notin> set (names h)"
    "count < SZ_EMPTY_VAL \<and> length vs \<le> elems count \<or> count = SZ_EMPTY_ARRAY \<and> vs = []"
  shows "\<exists>h' m. import_meter setv h label tp count vs = Ok h' \<and> host_ok h' \<and> h_meters h' = h_meters h @ [m] \<and>
    mt_id m = makeid label tp \<and> mt_count m = count \<and> (\<forall>i<length vs. getv m i = Ok (norm (vs ! i)))"
proof -
  let ?id = "makeid label tp"
  note ids = id_facts[OF assms(2) types]
  obtain h1 k where g: "host_get_meter h ?id = (h1, k)" by fastforce
  note ok = host_get_meter_ok[OF assms(1) g]
  have new: "h_meters h1 = h_meters h @ [meter_alloc ?id]" "k = length (h_meters h)"
  proof -
    have "h_meters h1 = h_meters h @ [meter_alloc ?id] \<and> k = length (h_meters h)"
    proof (cases rule: host_get_meter_cases[OF g])
      case 1
      have "name_of (mt_id (h_meters h ! k)) \<in> set (names h)" using nth_mem[OF 1(2)] by (simp add: names_def)
      then have "name_of ?id \<in> set (names h)" using 1(3) by simp
      then show ?thesis using assms(3) by simp
    next
      case 2
      then show ?thesis using ids(3) by simp
    qed
    then show "h_meters h1 = h_meters h @ [meter_alloc ?id]" "k = length (h_meters h)" by simp_all
  qed
  have n: "h_meters h1 ! k = meter_alloc ?id" by (simp add: new)
  have c: "count \<le> SZ_EMPTY_ARRAY" using assms(4) by (auto simp: sz_defs)
  obtain m1 where m1: "meter_setcount (h_lastmodified h1) (meter_alloc ?id) count = Ok m1" using meter_setcount_total[OF c] by blast
  have t: "meter_type (meter_alloc ?id) = tp" using ids(2) by (simp add: meter_type_def)
  have m1f: "mt_id m1 = ?id" "mt_count m1 = count" "meter_type m1 = tp" "meter_ok m1"
    using meter_setcount_frame[OF m1] setcount_keeps_count[OF m1] types t meter_setcount_ok[OF m1] by (simp_all add: meter_type_def)
  have "\<exists>m2. store_all setv (h_lastmodified h1) m1 0 vs = Ok m2 \<and> meter_ok m2 \<and> mt_id m2 = ?id \<and> mt_count m2 = count \<and>
      (\<forall>i<length vs. getv m2 i = Ok (norm (vs ! i)))"
  proof (cases "vs = []")
    case True
    then show ?thesis using m1f by simp
  next
    case False
    then have "mt_count m1 < SZ_EMPTY_VAL" "0 + length vs \<le> elems (mt_count m1)" using assms(4) m1f(2) by simp_all
    then obtain t d where "store_all setv (h_lastmodified h1) m1 0 vs = Ok (m1\<lparr>mt_lastmodified := t, mt_d := d\<rparr>)"
        "meter_ok (m1\<lparr>mt_lastmodified := t, mt_d := d\<rparr>)" "\<forall>j<length vs. getv (m1\<lparr>mt_lastmodified := t, mt_d := d\<rparr>) (0 + j) = Ok (norm (vs ! j))"
      using store_all_ok[OF m1f(4,3), where lm = "h_lastmodified h1" and i = 0 and vs = vs] by blast
    then show ?thesis using m1f(1,2) by (intro exI[of _ "m1\<lparr>mt_lastmodified := t, mt_d := d\<rparr>"]) simp
  qed
  then obtain m2 where m2: "store_all setv (h_lastmodified h1) m1 0 vs = Ok m2" "meter_ok m2" "mt_id m2 = ?id" "mt_count m2 = count"
      "\<forall>i<length vs. getv m2 i = Ok (norm (vs ! i))" by blast
  have "host_ok (host_set_meter h1 k m2)" using host_set_meter_ok[OF ok(1) m2(2)] m2(3) ids(3) by simp
  moreover have "h_meters (host_set_meter h1 k m2) = h_meters h @ [m2]" by (simp add: host_set_meter_def new)
  ultimately show ?thesis using g n m1 m2 by (simp add: import_meter_def)
qed

end

interpretation au: value_access MTYPE_INT meter_get_uint meter_set_uint id
  by unfold_locales simp

interpretation af: value_access MTYPE_FRAC meter_get_frac meter_set_frac id
  by unfold_locales simp

interpretation astr: value_access MTYPE_STR meter_get_str meter_set_str "c_truncate 127"
  by unfold_locales simp

lemma entry_arrives:
  assumes "host_ok h" "entry_ok (label, count, vals)" "name_of (makeid label (vals_type vals)) \<notin> set (names h)"
  shows "\<exists>h' m. import_entry h (label, count, vals) = Ok h' \<and> host_ok h' \<and> h_meters h' = h_meters h @ [m] \<and>
    mt_id m = makeid label (vals_type vals) \<and> arrives (label, count, vals) m"
proof -
  have l: "id_label label" "count < SZ_EMPTY_VAL \<and> vals_count vals \<le> elems count \<or> count = SZ_EMPTY_ARRAY \<and> vals_count vals = 0"
    using assms(2) by (simp_all add: entry_ok_def)
  show ?thesis
  proof (cases vals)
    case (MInts xs)
    have "\<exists>h' m. import_meter meter_set_uint h label MTYPE_INT count xs = Ok h' \<and> host_ok h' \<and> h_meters h' = h_meters h @ [m] \<and>
        mt_id m = makeid label MTYPE_INT \<and> mt_count m = count \<and> (\<forall>i<length xs. meter_get_uint m i = Ok (id (xs ! i)))"
      by (rule au.import_fresh[OF assms(1) l(1)]) (use assms(3) l(2) MInts in auto)
    then show ?thesis using MInts id_facts(1,2)[OF l(1), of MTYPE_INT] by (fastforce simp: arrives_def meter_type_def)
  next
    case (MFracs xs)
    have "\<exists>h' m. import_meter meter_set_frac h label MTYPE_FRAC count xs = Ok h' \<and> host_ok h' \<and> h_meters h' = h_meters h @ [m] \<and>
        mt_id m = makeid label MTYPE_FRAC \<and> mt_count m = count \<and> (\<forall>i<length xs. meter_get_frac m i = Ok (id (xs ! i)))"
      by (rule af.import_fresh[OF assms(1) l(1)]) (use assms(3) l(2) MFracs in auto)
    then show ?thesis using MFracs id_facts(1,2)[OF l(1), of MTYPE_FRAC] by (fastforce simp: arrives_def meter_type_def)
  next
    case (MStrs xs)
    have "\<exists>h' m. import_meter meter_set_str h label MTYPE_STR count xs = Ok h' \<and> host_ok h' \<and> h_meters h' = h_meters h @ [m] \<and>
        mt_id m = makeid label MTYPE_STR \<and> mt_count m = count \<and> (\<forall>i<length xs. meter_get_str m i = Ok (c_truncate 127 (xs ! i)))"
      by (rule astr.import_fresh[OF assms(1) l(1)]) (use assms(3) l(2) MStrs in auto)
    then show ?thesis using MStrs id_facts(1,2)[OF l(1), of MTYPE_STR] by (fastforce simp: arrives_def meter_type_def)
  qed
qed

lemma vals_type_in: "vals_type vals \<in> {MTYPE_INT, MTYPE_FRAC, MTYPE_STR}"
  by (cases vals) simp_all

lemma entries_arrive:
  assumes "host_ok h" "list_all entry_ok es" "distinct (map fst es)"
    "\<forall>e\<in>set es. name_of (makeid (fst e) (vals_type (snd (snd e)))) \<notin> set (names h)"
  shows "\<exists>h' ms. import_all h es = Ok h' \<and> host_ok h' \<and> h_meters h' = h_meters h @ ms \<and> list_all2 arrives es ms"
  using assms
proof (induction es arbitrary: h)
  case (Cons e es)
  obtain label count vals where e: "e = (label, count, vals)" by (cases e)
  obtain h1 m where 1: "import_entry h e = Ok h1" "host_ok h1" "h_meters h1 = h_meters h @ [m]" "mt_id m = makeid label (vals_type vals)"
      "arrives e m"
    using entry_arrives[OF Cons.prems(1), of label count vals] Cons.prems(2,4) by (auto simp: e)
  have "name_of (makeid (fst e') (vals_type (snd (snd e')))) \<notin> set (names h1)" if e': "e' \<in> set es" for e'
  proof -
    have "id_label (fst e')" "id_label label" using Cons.prems(2) e' by (auto simp: list_all_iff entry_ok_def e)
    moreover have "fst e' \<noteq> label" using Cons.prems(3) e' by (auto simp: e)
    ultimately have "name_of (makeid (fst e') (vals_type (snd (snd e')))) \<noteq> name_of (makeid label (vals_type vals))"
      using names_differ vals_type_in by metis
    then show ?thesis using Cons.prems(4) e' 1(3,4) by (auto simp: names_def)
  qed
  then obtain h' ms where "import_all h1 es = Ok h'" "host_ok h'" "h_meters h' = h_meters h1 @ ms" "list_all2 arrives es ms"
    using Cons.IH[OF 1(2)] Cons.prems(2,3) by auto
  then show ?case using 1 by (intro exI[of _ h'] exI[of _ "m # ms"]) simp
qed simp

text \<open>
  C38: What a probe reports arrives in the host. If its labels fit and differ and texts are only
  among texts, the import succeeds on a host without meters, keeps it sound, and gives it one
  meter for each entry that the data reports, in their order, under its label, with its type and
  count, from which every value can be read back; texts keep their first 127 characters.
\<close>

theorem import_reports:
  assumes "var_ok ih d val" "is_dict val" "\<forall>v\<in>set (kids_of val). importable v"
    "list_all entry_ok (concat (map (reported cv ih) (kids_of val)))" "distinct (map fst (concat (map (reported cv ih) (kids_of val))))"
    "host_ok h" "h_meters h = []"
  shows "\<exists>h'. host_import cv ih h val = Ok (h', True) \<and> host_ok h' \<and>
    list_all2 arrives (concat (map (reported cv ih) (kids_of val))) (h_meters h')"
proof -
  let ?es = "concat (map (reported cv ih) (kids_of val))"
  have "\<forall>v\<in>set (kids_of val). var_ok ih (Suc d) v \<and> importable v" using var_ok_dict[OF assms(1,2)] assms(3) by blast
  then have "host_import cv ih h val = rbind (import_all h ?es) (\<lambda>h. Ok (h, True))"
    using loop_is_entries assms(2) by (simp add: host_import_def)
  moreover obtain h' ms where "import_all h ?es = Ok h'" "host_ok h'" "h_meters h' = h_meters h @ ms" "list_all2 arrives ?es ms"
    using entries_arrive[OF assms(6,4,5)] assms(7) by (auto simp: names_def)
  ultimately show ?thesis using assms(7) by simp
qed

definition kid :: "nat \<Rightarrow> string \<Rightarrow> var vval \<Rightarrow> var" where
  "kid n key x = Var (hdr0\<lparr>v_id := key, v_root := RootUp n\<rparr>) x"

definition items :: "var list \<Rightarrow> var vlink" where
  "items vs = VLink vs (of_nat (length vs)) (-1) None"

definition sample_data :: var where
  "sample_data = Var hdr0 (VDict (items [kid 1 ''uptime'' (VInt 77), kid 1 ''net'' (VDict (items [kid 2 ''in'' (VInt 3)])),
     kid 1 ''load'' (VArray (items [kid 2 '''' (VDouble (Fin 1)), kid 2 '''' (VDouble (Fin 2))]))]))"

lemma import_reports_witness:
  "\<exists>h'. host_import (\<lambda>_. 0) 7 (host_alloc uuidnil) sample_data = Ok (h', True) \<and>
     list_all2 arrives [(''uptime'', 0, MInts [77]), (''net/in'', 0, MInts [3]), (''load'', 2, MFracs [Fin 1, Fin 2])] (h_meters h')"
proof -
  have ok: "var_ok 7 0 sample_data" "is_dict sample_data"
    by (simp_all add: sample_data_def kid_def items_def is_dict_def root_at_def link_ok_def key_ok_def hash_ok_def hdr0_def cstr_def)
  have k: "kids_of sample_data = [kid 1 ''uptime'' (VInt 77), kid 1 ''net'' (VDict (items [kid 2 ''in'' (VInt 3)])),
     kid 1 ''load'' (VArray (items [kid 2 '''' (VDouble (Fin 1)), kid 2 '''' (VDouble (Fin 2))]))]"
    by (simp add: sample_data_def kids_of_def items_def)
  have e: "concat (map (reported (\<lambda>_. 0) 7) (kids_of sample_data)) =
      [(''uptime'', 0, MInts [77]), (''net/in'', 0, MInts [3]), (''load'', 2, MFracs [Fin 1, Fin 2])]"
    unfolding k by (simp add: kid_def items_def reported_def is_array_def is_dict_def scalar_entry_def array_entries_def kids_of_def hdr0_def
        var_get_int_def var_get_double_def SZ_MAX_ARRAY_def)
  have i: "\<forall>v\<in>set (kids_of sample_data). importable v"
    unfolding k by (simp add: kid_def items_def importable_def is_array_def is_dict_def kids_of_def hdr0_def)
  have l: "id_label ''uptime''" "id_label ''net/in''" "id_label ''load''" by (simp_all add: id_label_def IDTABLE_def)
  show ?thesis
    using import_reports[OF ok i, of "\<lambda>_. 0" "host_alloc uuidnil"] l host_alloc_ok
    unfolding e by (simp add: entry_ok_def sz_defs elems_def host_alloc_def) blast
qed

subsection \<open>A text array with an element that is no text\<close>

lemma store_null_crashes:
  "meter_ok m \<Longrightarrow> meter_type m = MTYPE_STR \<Longrightarrow> mt_count m < SZ_EMPTY_VAL \<Longrightarrow> i + length vs \<le> elems (mt_count m) \<Longrightarrow> None \<in> set vs \<Longrightarrow>
    store_all set_str_ptr lm m i vs = Fault NullDeref"
proof (induction vs arbitrary: m i)
  case (Cons v vs)
  show ?case
  proof (cases v)
    case None
    then show ?thesis using Cons.prems by (simp add: set_str_ptr_def)
  next
    case (Some s)
    then obtain m1 where "set_str_ptr lm m i v = Ok m1" "meter_ok m1" "mt_id m1 = mt_id m" "mt_count m1 = mt_count m"
      using meter_set_ok(3)[OF Cons.prems(1), of lm i s] by (auto simp: set_str_ptr_def)
    then show ?thesis using Cons Some by (simp add: meter_type_def)
  qed
qed simp

text \<open>
  An array of texts with an element that is no text, such as a null or a number, crashes the
  agent: the import takes the type of the first element for all, and copies from the NULL that
  reading the other as a text gives.
\<close>

theorem mixed_text_array_crashes:
  assumes "var_ok ih d val" "is_dict val" "kids_of val = v # vs" "is_array v" "id_label (var_id v)"
    "kids_of v = x # xs" "vv x = VStr s" "length (kids_of v) < 2 ^ 31" "None \<in> var_get_str ` set (take 29 (kids_of v))"
    "host_ok h" "h_meters h = []"
  shows "host_import cv ih h val = Fault NullDeref"
proof -
  let ?id = "makeid (var_id v) MTYPE_STR" and ?n = "min (length (kids_of v)) SZ_MAX_ARRAY"
  have ok: "var_ok ih (Suc d) v" using var_ok_dict[OF assms(1,2)] assms(3) by auto
  have ids: "full_id ?id = ?id" "?id AND MMASK_TYPE = MTYPE_STR" using id_facts[OF assms(5), of MTYPE_STR] by simp_all
  obtain h1 where g: "host_get_meter h ?id = (h1, 0)" "h_meters h1 = [meter_alloc ?id]"
    using assms(11) ids(1) by (simp add: host_get_meter_def)
  have n: "?n \<le> SZ_EMPTY_ARRAY" "?n < SZ_EMPTY_VAL" by (simp_all add: sz_defs)
  obtain m where m: "meter_setcount (h_lastmodified h1) (meter_alloc ?id) ?n = Ok m" using meter_setcount_total[OF n(1)] by blast
  have t: "meter_type (meter_alloc ?id) = MTYPE_STR" using ids(2) by (simp add: meter_type_def)
  have mf: "meter_type m = MTYPE_STR" "mt_count m = ?n" "meter_ok m"
    using meter_setcount_frame[OF m] setcount_keeps_count[OF m] t meter_setcount_ok[OF m] by (simp_all add: meter_type_def)
  have "store_all set_str_ptr (h_lastmodified h1) m 0 (map var_get_str (take SZ_MAX_ARRAY (kids_of v))) = Fault NullDeref"
    by (rule store_null_crashes[OF mf(3,1)]) (use mf(2) n assms(9) in \<open>simp_all add: elems_def SZ_MAX_ARRAY_def\<close>)
  then have "import_values set_str_ptr var_get_str_atindex h MTYPE_STR v = Fault NullDeref"
    unfolding import_values_str[OF ok assms(4,8)] using g m by (simp add: import_meter_def)
  then have "import_array cv ih h v = Fault NullDeref" using assms(6,7) by (simp add: import_array_def)
  moreover have "length (var_id v) \<le> 11" using assms(5) by (simp add: id_label_def)
  ultimately show ?thesis using assms(2,3,4) by (simp add: host_import_def)
qed

definition mixed_data :: var where
  "mixed_data = Var hdr0 (VDict (items [kid 1 ''names'' (VArray (items [kid 2 '''' (VStr ''a''), kid 2 '''' (VInt 1)]))]))"

lemma mixed_text_array_crashes_witness:
  "host_import (\<lambda>_. 0) 7 (host_alloc uuidnil) mixed_data = Fault NullDeref"
proof -
  let ?v = "kid 1 ''names'' (VArray (items [kid 2 '''' (VStr ''a''), kid 2 '''' (VInt 1)]))"
  have ok: "var_ok 7 0 mixed_data" "is_dict mixed_data" "kids_of mixed_data = [?v]" "is_array ?v"
      "kids_of ?v = [kid 2 '''' (VStr ''a''), kid 2 '''' (VInt 1)]"
    by (simp_all add: mixed_data_def kid_def items_def is_dict_def is_array_def kids_of_def root_at_def link_ok_def key_ok_def hash_ok_def hdr0_def cstr_def)
  have "id_label (var_id ?v)" by (simp add: kid_def hdr0_def id_label_def IDTABLE_def)
  from mixed_text_array_crashes[OF ok(1-4) this ok(5), of "''a''" "host_alloc uuidnil"] show ?thesis
    using host_alloc_ok ok(5) by (simp add: kid_def var_get_str_def host_alloc_def)
qed

end
