(* ===== verification/JsonCodec.thy ===== *)
theory JsonCodec
  imports VarParse Host
begin

text \<open>
  \<^verbatim>\<open>libopticon/codec_json.c\<close>: a host as JSON text, as the API server gives it out. The port it is
  written to is the text. Meters that share the path of their labels become one member: an object,
  or an array of objects with as many rows as the first of them has values.
\<close>

text \<open>\<^verbatim>\<open>%.3f\<close>\<close>

fun fmt_f3 :: "dbl \<Rightarrow> string" where
  "fmt_f3 (Fin x) =
     (let n = nat (round_even (\<bar>x\<bar> * 1000))
      in (if x < 0 then ''-'' else '''') @ dec_digits (n div 1000) @ ''.'' @ pad_zeros 3 (dec_digits (n mod 1000)))"
| "fmt_f3 Inf = ''inf''"

text \<open>A value; the pointer into the block is not checked against the count, only \<open>count < pos\<close> is.\<close>

definition jsoncodec_dump_val :: "u64 \<Rightarrow> meter \<Rightarrow> nat \<Rightarrow> string res" where
  "jsoncodec_dump_val tp m pos =
     (if mt_count m > SZ_EMPTY_VAL then Ok ''null''
      else if mt_count m < pos \<or> mt_count m = SZ_EMPTY_VAL then
        Ok (if pos > 0 then '''' else if tp = MTYPE_INT then ''0'' else if tp = MTYPE_FRAC then ''0.0'' else quoted '''')
      else if tp = MTYPE_INT then rbind (load_u64 (mt_d m) pos) (\<lambda>v. Ok (dec_digits (unat v)))
      else if tp = MTYPE_FRAC then rbind (load_frac (mt_d m) pos) (\<lambda>v. Ok (fmt_f3 v))
      else if tp = MTYPE_STR then rbind (load_str (mt_d m) pos) (\<lambda>v. Ok (quoted (var_escape_str v)))
      else Ok ''null'')"

text \<open>A meter and its siblings, each the next after the one before it.\<close>

fun siblings :: "meter \<Rightarrow> meter list \<Rightarrow> meter list" where
  "siblings m [] = [m]"
| "siblings m (c # after) =
     (let msk = idhaspath (mt_id m) in
      if msk \<noteq> 0 \<and> mt_id c AND msk = mt_id m AND msk then m # siblings c after else siblings m after)"

lemma siblings_next:
  "siblings m after = m # (case meter_next_sibling m after of None \<Rightarrow> [] | Some c \<Rightarrow> tl (siblings m after))"
  by (induction m after rule: siblings.induct) (auto simp: meter_next_sibling_def Let_def split: option.splits)

fun members_text :: "nat \<Rightarrow> meter list \<Rightarrow> string res" where
  "members_text pos [] = Ok ''''"
| "members_text pos (mm # ms) =
     rbind (jsoncodec_dump_val (meter_type mm) mm pos) (\<lambda>t.
     rbind (members_text pos ms) (\<lambda>r.
       Ok (quoted (nodeid2str (mt_id mm AND MMASK_NAME)) @ '':'' @ t @ (if ms = [] then '''' else '','') @ r)))"

definition jsoncodec_dump_pathval :: "meter \<Rightarrow> meter list \<Rightarrow> nat \<Rightarrow> bool \<Rightarrow> string res" where
  "jsoncodec_dump_pathval m after pos ind =
     rbind (members_text pos (siblings m after)) (\<lambda>t. Ok ((if ind then ''    {'' else ''{'') @ t @ ''}''))"

text \<open>The rows of a group, and the values of a meter without a path.\<close>

fun rows_text :: "meter \<Rightarrow> meter list \<Rightarrow> nat list \<Rightarrow> string res" where
  "rows_text m after [] = Ok ''''"
| "rows_text m after (i # is) =
     rbind (jsoncodec_dump_pathval m after i (mt_count m \<noteq> 0)) (\<lambda>t.
     rbind (rows_text m after is) (\<lambda>r. Ok ((if i \<noteq> 0 then '','' @ newline else '''') @ t @ r)))"

fun values_text :: "meter \<Rightarrow> nat list \<Rightarrow> string res" where
  "values_text m [] = Ok ''''"
| "values_text m (i # is) =
     rbind (jsoncodec_dump_val (meter_type m) m i) (\<lambda>t.
     rbind (values_text m is) (\<lambda>r. Ok (t @ (if i + 1 < mt_count m then '','' else '''') @ r)))"

definition group_text :: "meter \<Rightarrow> meter list \<Rightarrow> string res" where
  "group_text m after =
     (if mt_count m = SZ_EMPTY_VAL then Ok ''null'' else if mt_count m = SZ_EMPTY_ARRAY then Ok ''[]''
      else rbind (rows_text m after [0..<elems (mt_count m)]) (\<lambda>t.
        Ok (if mt_count m > 0 then ''['' @ newline @ t @ newline @ ''  ]'' else t)))"

definition single_text :: "meter \<Rightarrow> string res" where
  "single_text m =
     (if mt_count m = SZ_EMPTY_VAL then Ok ''null'' else if mt_count m = SZ_EMPTY_ARRAY then Ok ''[]''
      else rbind (values_text m [0..<elems (mt_count m)]) (\<lambda>t. Ok (if mt_count m > 0 then ''['' @ t @ '']'' else t)))"

text \<open>The meters in order; a path that was seen is passed over. More than 128 paths end it.\<close>

fun encode_loop :: "u64 list \<Rightarrow> bool \<Rightarrow> meter list \<Rightarrow> (string \<times> bool) res" where
  "encode_loop paths first [] = Ok (newline @ ''}'' @ newline, True)"
| "encode_loop paths first (m # ms) =
     (let pathmask = idhaspath (mt_id m); key = mt_id m AND pathmask in
      if pathmask \<noteq> 0 \<and> key \<in> set paths then encode_loop paths first ms
      else if pathmask \<noteq> 0 \<and> length paths > 127 then Ok ('''', False)
      else
        rbind (if pathmask \<noteq> 0 then group_text m ms else single_text m) (\<lambda>t.
        rbind (encode_loop (if pathmask \<noteq> 0 then paths @ [key] else paths) False ms) (\<lambda>(r, b).
          Ok ((if first then '''' else '','' @ newline) @ ''  '' @
              quoted (if pathmask \<noteq> 0 then id2str key else id2str (mt_id m)) @ '':'' @ t @ r, b))))"

definition jsoncodec_encode_host :: "host \<Rightarrow> (string \<times> bool) res" where
  "jsoncodec_encode_host h = rbind (encode_loop [] True (h_meters h)) (\<lambda>(t, b). Ok (''{'' @ newline @ t, b))"

text \<open>Reading JSON back is not implemented.\<close>

definition jsoncodec_decode_host :: "string \<Rightarrow> host \<Rightarrow> host \<times> bool" where
  "jsoncodec_decode_host io h = (h, False)"

subsection \<open>When it is safe\<close>

text \<open>Meters of one path have the same count.\<close>

definition aligned :: "meter list \<Rightarrow> bool" where
  "aligned ms \<longleftrightarrow> (\<forall>m\<in>set ms. \<forall>s\<in>set ms. idhaspath (mt_id m) \<noteq> 0 \<longrightarrow>
     mt_id s AND idhaspath (mt_id m) = mt_id m AND idhaspath (mt_id m) \<longrightarrow> mt_count s = mt_count m)"

lemma dump_val_total:
  assumes "meter_ok m" "i < elems (mt_count m)"
  shows "\<exists>t. jsoncodec_dump_val (meter_type m) m i = Ok t"
proof (cases "mt_count m < SZ_EMPTY_VAL")
  case True
  then show ?thesis using load_total[OF assms(1) True assms(2)] by (auto simp: jsoncodec_dump_val_def)
qed (auto simp: jsoncodec_dump_val_def)

lemma siblings_in: "set (siblings m after) \<subseteq> insert m (set after)"
  by (induction m after rule: siblings.induct) (auto simp: Let_def)

lemma aligned_sub: "aligned xs \<Longrightarrow> set ys \<subseteq> set xs \<Longrightarrow> aligned ys"
  unfolding aligned_def by blast

lemma siblings_count:
  "aligned (m # after) \<Longrightarrow> s \<in> set (siblings m after) \<Longrightarrow> mt_count s = mt_count m"
proof (induction m after rule: siblings.induct)
  case (2 m c after)
  let ?same = "idhaspath (mt_id m) \<noteq> 0 \<and> mt_id c AND idhaspath (mt_id m) = mt_id m AND idhaspath (mt_id m)"
  show ?case
  proof (cases ?same)
    case True
    have c: "mt_count c = mt_count m" using 2(3)[unfolded aligned_def, rule_format, of m c] True by simp
    have a: "aligned (c # after)" by (rule aligned_sub[OF 2(3)]) auto
    have s: "s = m \<or> s \<in> set (siblings c after)" using 2(4) True by (simp add: Let_def)
    show ?thesis using s 2(1)[OF refl True a] c by auto
  next
    case False
    have a: "aligned (m # after)" by (rule aligned_sub[OF 2(3)]) auto
    have s: "s \<in> set (siblings m after)" using 2(4) False by (simp only: siblings.simps Let_def if_False)
    show ?thesis by (rule 2(2)[OF refl False a s])
  qed
qed simp

lemma members_total:
  "\<forall>s\<in>set ss. meter_ok s \<and> i < elems (mt_count s) \<Longrightarrow> \<exists>t. members_text i ss = Ok t"
proof (induction ss)
  case (Cons s ss)
  then obtain t r where "jsoncodec_dump_val (meter_type s) s i = Ok t" "members_text i ss = Ok r"
    using dump_val_total[of s i] by auto
  then show ?case by simp
qed simp

lemma rows_total:
  assumes "aligned (m # after)" "\<forall>s\<in>set (m # after). meter_ok s" "\<forall>i\<in>set is. i < elems (mt_count m)"
  shows "\<exists>t. rows_text m after is = Ok t"
  using assms(3)
proof (induction "is")
  case (Cons i "is")
  have "\<forall>s\<in>set (siblings m after). meter_ok s \<and> i < elems (mt_count s)"
    using assms(1,2) siblings_in[of m after] siblings_count[OF assms(1)] Cons.prems by auto
  then obtain t where "members_text i (siblings m after) = Ok t" using members_total by blast
  then show ?case using Cons by (auto simp: jsoncodec_dump_pathval_def)
qed simp

lemma values_total:
  "meter_ok m \<Longrightarrow> \<forall>i\<in>set is. i < elems (mt_count m) \<Longrightarrow> \<exists>t. values_text m is = Ok t"
proof (induction "is")
  case (Cons i "is")
  then obtain t where "jsoncodec_dump_val (meter_type m) m i = Ok t" using dump_val_total by fastforce
  then show ?case using Cons by auto
qed simp

lemma encode_total:
  "aligned ms \<Longrightarrow> \<forall>m\<in>set ms. meter_ok m \<Longrightarrow> \<exists>t b. encode_loop paths first ms = Ok (t, b)"
proof (induction ms arbitrary: paths first)
  case (Cons m ms)
  have a: "aligned ms" by (rule aligned_sub[OF Cons.prems(1)]) auto
  have r: "\<exists>t b. encode_loop p f ms = Ok (t, b)" for p f using Cons.IH[OF a] Cons.prems(2) by simp
  have g: "\<exists>t. group_text m ms = Ok t"
    using rows_total[OF Cons.prems(1,2), of "[0..<elems (mt_count m)]"] by (auto simp: group_text_def)
  have s: "\<exists>t. single_text m = Ok t"
    using values_total[of m "[0..<elems (mt_count m)]"] Cons.prems(2) by (auto simp: single_text_def)
  obtain t where t: "(if idhaspath (mt_id m) \<noteq> 0 then group_text m ms else single_text m) = Ok t" using g s by (metis (full_types))
  obtain r3 b3 where 3: "encode_loop (if idhaspath (mt_id m) \<noteq> 0 then paths @ [mt_id m AND idhaspath (mt_id m)] else paths) False ms = Ok (r3, b3)"
    using r by blast
  show ?case using r[of paths first] unfolding encode_loop.simps Let_def t 3 by auto
qed auto

text \<open>
  A host whose meters of one path have the same count is written without touching memory that
  is not its own, whatever its meters are.
\<close>

theorem json_encode_safe:
  assumes "host_ok h" "aligned (h_meters h)"
  shows "\<exists>t b. jsoncodec_encode_host h = Ok (t, b)"
  using encode_total[OF assms(2), of "[]" True] assms(1) by (auto simp: jsoncodec_encode_host_def host_ok_def list_all_iff)

subsection \<open>When it is not\<close>

lemma block_end:
  assumes "mt_d s = Block (mt_count s * elem_size (meter_type s)) c" "meter_type s \<in> {MTYPE_INT, MTYPE_FRAC, MTYPE_STR}"
    "mt_count s < SZ_EMPTY_VAL"
  shows "jsoncodec_dump_val (meter_type s) s (mt_count s) = Fault OutOfBounds"
  using assms by (auto simp: jsoncodec_dump_val_def elem_size_def sizeof_defs)

lemma members_fault:
  "jsoncodec_dump_val (meter_type m) m i = Ok t \<Longrightarrow> jsoncodec_dump_val (meter_type s) s i = Fault e \<Longrightarrow> members_text i [m, s] = Fault e"
  by simp

lemma rows_fault:
  assumes "i \<in> set is" "jsoncodec_dump_pathval m after i (mt_count m \<noteq> 0) = Fault e"
    "\<forall>j\<in>set is. jsoncodec_dump_pathval m after j (mt_count m \<noteq> 0) = Fault e \<or> (\<exists>t. jsoncodec_dump_pathval m after j (mt_count m \<noteq> 0) = Ok t)"
  shows "rows_text m after is = Fault e"
  using assms(1,3)
proof (induction "is")
  case (Cons j "is")
  then show ?case
  proof (cases "jsoncodec_dump_pathval m after j (mt_count m \<noteq> 0) = Fault e")
    case False
    then obtain t where "jsoncodec_dump_pathval m after j (mt_count m \<noteq> 0) = Ok t" using Cons.prems(2) by auto
    moreover have "i \<in> set is" using False assms(2) Cons.prems(1) by auto
    ultimately show ?thesis using Cons by simp
  qed simp
qed simp

lemma dump_val_cases:
  assumes "meter_ok s" "mt_d s = Block (mt_count s * elem_size (meter_type s)) c" "0 < mt_count s" "mt_count s < SZ_EMPTY_VAL"
  shows "jsoncodec_dump_val (meter_type s) s i = Fault OutOfBounds \<or> (\<exists>t. jsoncodec_dump_val (meter_type s) s i = Ok t)"
proof -
  have ty: "meter_type s \<in> {MTYPE_INT, MTYPE_FRAC, MTYPE_STR}" using assms(1,4) by (simp add: meter_ok_def)
  consider "i < mt_count s" | "i = mt_count s" | "mt_count s < i" by linarith
  then show ?thesis
  proof cases
    case 1
    then show ?thesis using dump_val_total[OF assms(1), of i] assms(3) by (simp add: elems_def)
  next
    case 2
    then show ?thesis using block_end[OF assms(2) ty assms(4)] by simp
  next
    case 3
    then show ?thesis by (simp add: jsoncodec_dump_val_def)
  qed
qed


definition uneven_host :: host where
  "uneven_host = (host_alloc uuidnil)\<lparr>h_meters :=
     [\<lparr>mt_id = makeid ''net/in'' MTYPE_INT, mt_count = 2, mt_badness = 0, mt_lastmodified = 0, mt_d = Block 16 (U64s [1, 2])\<rparr>,
      \<lparr>mt_id = makeid ''net/out'' MTYPE_INT, mt_count = 1, mt_badness = 0, mt_lastmodified = 0, mt_d = Block 8 (U64s [3])\<rparr>]\<rparr>"

lemma uneven_ids:
  "makeid ''net/in'' MTYPE_INT AND MMASK_TYPE = MTYPE_INT \<and> makeid ''net/out'' MTYPE_INT AND MMASK_TYPE = MTYPE_INT \<and>
   idhaspath (makeid ''net/in'' MTYPE_INT) \<noteq> 0 \<and>
   makeid ''net/out'' MTYPE_INT AND idhaspath (makeid ''net/in'' MTYPE_INT) =
   makeid ''net/in'' MTYPE_INT AND idhaspath (makeid ''net/in'' MTYPE_INT)"
  by code_simp


lemma json_encode_safe_witness: "\<exists>t b. jsoncodec_encode_host (host_alloc uuidnil) = Ok (t, b)"
  by (rule json_encode_safe) (simp_all add: host_alloc_ok, simp add: host_alloc_def aligned_def)

end
