(* ===== verification/Queue.thy ===== *)
theory Queue
  imports Prelude
begin

text \<open>
  \<^verbatim>\<open>libopticon/packetqueue.c\<close>: the ring of received packets between the receiving thread and the
  collector's main loop. The two threads share the buffer and the two cursors; a step of the
  relation is what one of them does between two points where the other can run: receiving into
  the slot at the write cursor (outside the mutex), publishing it, taking the position of the
  next packet, and processing the packet in its slot.
\<close>

record 'a pktbuf =
  pb_pkt :: "8 word list"
  pb_addr :: 'a
  pb_sz :: nat

record 'a packetqueue =
  pq_buffer :: "'a pktbuf list"
  pq_rpos :: nat
  pq_wpos :: nat

definition packetqueue_create :: "nat \<Rightarrow> 'a \<Rightarrow> 'a packetqueue" where
  "packetqueue_create qcount noaddr =
     \<lparr>pq_buffer = replicate qcount \<lparr>pb_pkt = replicate 2048 0, pb_addr = noaddr, pb_sz = 0\<rparr>, pq_rpos = 0, pq_wpos = 0\<rparr>"

definition wrap :: "nat \<Rightarrow> nat \<Rightarrow> nat" where
  "wrap sz p = (if Suc p \<ge> sz then Suc p - sz else Suc p)"

text \<open>The bytes and the address go into the slot as they arrive; old bytes behind them stay.\<close>

definition queue_recv :: "'a packetqueue \<Rightarrow> 8 word list \<Rightarrow> 'a \<Rightarrow> 'a packetqueue" where
  "queue_recv q d a =
     (let slot = pq_buffer q ! pq_wpos q
      in q\<lparr>pq_buffer := (pq_buffer q)[pq_wpos q := slot\<lparr>pb_pkt := d @ drop (length d) (pb_pkt slot), pb_addr := a\<rparr>]\<rparr>)"

definition queue_publish :: "'a packetqueue \<Rightarrow> nat \<Rightarrow> 'a packetqueue" where
  "queue_publish q sz =
     (let slot = pq_buffer q ! pq_wpos q
      in q\<lparr>pq_buffer := (pq_buffer q)[pq_wpos q := slot\<lparr>pb_sz := sz\<rparr>], pq_wpos := wrap (length (pq_buffer q)) (pq_wpos q)\<rparr>)"

definition queue_backlog :: "'a packetqueue \<Rightarrow> int" where
  "queue_backlog q =
     (let b = int (pq_wpos q) - int (pq_rpos q) in if b < 0 then b + int (length (pq_buffer q)) else b)"

text \<open>None: nothing to read, and the caller waits for the signal.\<close>

definition packetqueue_waitpkt :: "'a packetqueue \<Rightarrow> (nat \<times> 'a packetqueue) option" where
  "packetqueue_waitpkt q =
     (if pq_rpos q = pq_wpos q then None
      else Some (pq_rpos q, q\<lparr>pq_rpos := wrap (length (pq_buffer q)) (pq_rpos q)\<rparr>))"

definition packet_at :: "'a packetqueue \<Rightarrow> nat \<Rightarrow> 8 word list \<times> 'a" where
  "packet_at q i = (take (pb_sz (pq_buffer q ! i)) (pb_pkt (pq_buffer q ! i)), pb_addr (pq_buffer q ! i))"

text \<open>The main loop clears the first byte of a packet it is done with.\<close>

definition queue_done :: "'a packetqueue \<Rightarrow> nat \<Rightarrow> 'a packetqueue" where
  "queue_done q i =
     (let slot = pq_buffer q ! i in q\<lparr>pq_buffer := (pq_buffer q)[i := slot\<lparr>pb_pkt := (pb_pkt slot)[0 := 0]\<rparr>]\<rparr>)"

subsection \<open>The two threads\<close>

text \<open>
  \<open>qs_got\<close> is what the receiver has in the slot and has not published, \<open>qs_held\<close> the slot the main
  loop is processing; \<open>qs_sent\<close> and \<open>qs_used\<close> record what was published and what was processed.
\<close>

record 'a qstate =
  qs_q :: "'a packetqueue"
  qs_got :: "(8 word list \<times> 'a) option"
  qs_held :: "nat option"
  qs_sent :: "(8 word list \<times> 'a) list"
  qs_used :: "(8 word list \<times> 'a) list"

inductive qstep :: "'a qstate \<Rightarrow> 'a qstate \<Rightarrow> bool" where
  recv: "qs_got s = None \<Longrightarrow> 0 < length d \<Longrightarrow> length d \<le> 2048 \<Longrightarrow>
    qstep s (s\<lparr>qs_q := queue_recv (qs_q s) d a, qs_got := Some (d, a)\<rparr>)"
| publish: "qs_got s = Some (d, a) \<Longrightarrow>
    qstep s (s\<lparr>qs_q := queue_publish (qs_q s) (length d), qs_got := None, qs_sent := qs_sent s @ [(d, a)]\<rparr>)"
| waitpkt: "qs_held s = None \<Longrightarrow> packetqueue_waitpkt (qs_q s) = Some (i, q) \<Longrightarrow>
    qstep s (s\<lparr>qs_q := q, qs_held := Some i\<rparr>)"
| process: "qs_held s = Some i \<Longrightarrow>
    qstep s (s\<lparr>qs_q := queue_done (qs_q s) i, qs_held := None, qs_used := qs_used s @ [packet_at (qs_q s) i]\<rparr>)"

inductive_cases qstepE: "qstep s s'"

definition queue_start :: "nat \<Rightarrow> 'a \<Rightarrow> 'a qstate" where
  "queue_start n noaddr = \<lparr>qs_q = packetqueue_create n noaddr, qs_got = None, qs_held = None, qs_sent = [], qs_used = []\<rparr>"

text \<open>Runs in which the receiver never starts a packet with less than two slots to spare.\<close>

definition room :: "'a qstate \<Rightarrow> bool" where
  "room s \<longleftrightarrow> queue_backlog (qs_q s) + 2 \<le> int (length (pq_buffer (qs_q s)))"

inductive slow_run :: "nat \<Rightarrow> 'a \<Rightarrow> 'a qstate \<Rightarrow> bool" for n noaddr where
  start: "slow_run n noaddr (queue_start n noaddr)"
| step: "slow_run n noaddr s \<Longrightarrow> qstep s s' \<Longrightarrow> (qs_got s = None \<and> qs_got s' \<noteq> None \<longrightarrow> room s) \<Longrightarrow> slow_run n noaddr s'"

subsection \<open>The invariant\<close>

text \<open>The cursors are counters modulo the size: packet number \<open>k\<close> lives in slot \<open>k mod n\<close>.\<close>

definition qinv :: "nat \<Rightarrow> 'a qstate \<Rightarrow> nat \<Rightarrow> bool" where
  "qinv n s R \<longleftrightarrow> (let q = qs_q s; W = length (qs_sent s) in
     0 < n \<and> length (pq_buffer q) = n \<and> (\<forall>b\<in>set (pq_buffer q). length (pb_pkt b) = 2048) \<and>
     R \<le> W \<and> W - R < n \<and> pq_rpos q = R mod n \<and> pq_wpos q = W mod n \<and>
     (\<forall>k. R \<le> k \<and> k < W \<longrightarrow> packet_at q (k mod n) = qs_sent s ! k) \<and>
     (case qs_held s of
        None \<Rightarrow> qs_used s = take R (qs_sent s)
      | Some i \<Rightarrow> 0 < R \<and> i = (R - 1) mod n \<and> packet_at q i = qs_sent s ! (R - 1) \<and> qs_used s = take (R - 1) (qs_sent s)) \<and>
     (case qs_got s of
        None \<Rightarrow> True
      | Some (d, a) \<Rightarrow> 0 < length d \<and> length d \<le> 2048 \<and> W - R + 2 \<le> n \<and>
          take (length d) (pb_pkt (pq_buffer q ! (W mod n))) = d \<and> pb_addr (pq_buffer q ! (W mod n)) = a))"

lemma wrap_mod: "0 < n \<Longrightarrow> wrap n (k mod n) = Suc k mod n"
proof (cases "Suc (k mod n) = n")
  case False
  assume "0 < n"
  then have "Suc (k mod n) < n" using False mod_less_divisor[of n k] by linarith
  then show ?thesis using False by (simp add: wrap_def mod_Suc)
qed (simp add: wrap_def mod_Suc)

lemma other_slot: "k < W \<Longrightarrow> W - k < n \<Longrightarrow> k mod n \<noteq> W mod (n :: nat)"
  by (metis diff_is_0_eq dvd_imp_mod_0 leD less_imp_le_nat mod_eq_dvd_iff_nat mod_less)

lemma qinvD:
  assumes "qinv n s R"
  shows "0 < n" "length (pq_buffer (qs_q s)) = n" "\<forall>b\<in>set (pq_buffer (qs_q s)). length (pb_pkt b) = 2048"
    "R \<le> length (qs_sent s)" "length (qs_sent s) - R < n" "pq_rpos (qs_q s) = R mod n" "pq_wpos (qs_q s) = length (qs_sent s) mod n"
    "\<And>k. R \<le> k \<Longrightarrow> k < length (qs_sent s) \<Longrightarrow> packet_at (qs_q s) (k mod n) = qs_sent s ! k"
    "qs_held s = None \<Longrightarrow> qs_used s = take R (qs_sent s)"
    "\<And>i. qs_held s = Some i \<Longrightarrow> 0 < R \<and> i = (R - 1) mod n \<and> packet_at (qs_q s) i = qs_sent s ! (R - 1) \<and> qs_used s = take (R - 1) (qs_sent s)"
    "\<And>d a. qs_got s = Some (d, a) \<Longrightarrow> 0 < length d \<and> length d \<le> 2048 \<and> length (qs_sent s) - R + 2 \<le> n \<and>
       take (length d) (pb_pkt (pq_buffer (qs_q s) ! (length (qs_sent s) mod n))) = d \<and> pb_addr (pq_buffer (qs_q s) ! (length (qs_sent s) mod n)) = a"
  using assms unfolding qinv_def Let_def by auto

lemma qinvI:
  assumes "0 < n" "length (pq_buffer (qs_q s)) = n" "\<forall>b\<in>set (pq_buffer (qs_q s)). length (pb_pkt b) = 2048"
    "R \<le> length (qs_sent s)" "length (qs_sent s) - R < n" "pq_rpos (qs_q s) = R mod n" "pq_wpos (qs_q s) = length (qs_sent s) mod n"
    "\<And>k. R \<le> k \<Longrightarrow> k < length (qs_sent s) \<Longrightarrow> packet_at (qs_q s) (k mod n) = qs_sent s ! k"
    "qs_held s = None \<Longrightarrow> qs_used s = take R (qs_sent s)"
    "\<And>i. qs_held s = Some i \<Longrightarrow> 0 < R \<and> i = (R - 1) mod n \<and> packet_at (qs_q s) i = qs_sent s ! (R - 1) \<and> qs_used s = take (R - 1) (qs_sent s)"
    "\<And>d a. qs_got s = Some (d, a) \<Longrightarrow> 0 < length d \<and> length d \<le> 2048 \<and> length (qs_sent s) - R + 2 \<le> n \<and>
       take (length d) (pb_pkt (pq_buffer (qs_q s) ! (length (qs_sent s) mod n))) = d \<and> pb_addr (pq_buffer (qs_q s) ! (length (qs_sent s) mod n)) = a"
  shows "qinv n s R"
  using assms unfolding qinv_def Let_def by (auto split: option.split)

lemma backlog_is:
  assumes "qinv n s R"
  shows "queue_backlog (qs_q s) = int (length (qs_sent s) - R)"
proof -
  note q = qinvD[OF assms]
  define b where "b = length (qs_sent s) - R"
  have W: "length (qs_sent s) = R + b" "b < n" using q(4,5) by (simp_all add: b_def)
  have r: "R mod n < n" using q(1) by simp
  have w: "(R + b) mod n = (if R mod n + b < n then R mod n + b else R mod n + b - n)"
  proof (cases "R mod n + b < n")
    case True
    then show ?thesis using mod_add_left_eq[of R n b] by simp
  next
    case False
    moreover have "R mod n + b - n < n" using r W(2) by linarith
    ultimately have "(R mod n + b) mod n = R mod n + b - n" by (simp add: le_mod_geq)
    then show ?thesis using \<open>\<not> R mod n + b < n\<close> mod_add_left_eq[of R n b] by simp
  qed
  have e: "queue_backlog (qs_q s) = (if int ((R + b) mod n) < int (R mod n) then int ((R + b) mod n) - int (R mod n) + int n else int ((R + b) mod n) - int (R mod n))"
    by (simp add: queue_backlog_def q(2,6,7) W(1) Let_def)
  show ?thesis
  proof (cases "R mod n + b < n")
    case True
    then show ?thesis using e w W(1) by simp
  next
    case False
    then have "(R + b) mod n = R mod n + b - n" using w by simp
    then show ?thesis using e False r W by simp
  qed
qed

lemma packet_at_other: "i \<noteq> j \<Longrightarrow> packet_at (q\<lparr>pq_buffer := (pq_buffer q)[j := x]\<rparr>) i = packet_at q i"
  by (simp add: packet_at_def)

lemma packet_at_wpos [simp]: "packet_at (q\<lparr>pq_wpos := w\<rparr>) i = packet_at q i" "packet_at (q\<lparr>pq_rpos := w\<rparr>) i = packet_at q i"
  by (simp_all add: packet_at_def)

lemma recv_inv:
  assumes "qinv n s R" "0 < length d" "length d \<le> 2048" "room s"
  shows "qinv n (s\<lparr>qs_q := queue_recv (qs_q s) d a, qs_got := Some (d, a)\<rparr>) R"
proof -
  note q = qinvD[OF assms(1)]
  let ?W = "length (qs_sent s)" and ?b = "pq_buffer (qs_q s)"
  have room: "?W - R + 2 \<le> n" using assms(4) q(2) unfolding room_def backlog_is[OF assms(1)] by linarith
  have w: "?W mod n < n" using q(1) by simp
  have other: "packet_at (queue_recv (qs_q s) d a) (k mod n) = packet_at (qs_q s) (k mod n)" if "R - 1 \<le> k" "k < ?W" for k
    using other_slot[of k ?W n] that room by (simp add: queue_recv_def Let_def q(7) packet_at_other)
  have slot: "pb_pkt (?b ! (?W mod n)) \<in> pb_pkt ` set ?b" using w q(2) by simp
  then have len: "length (pb_pkt (?b ! (?W mod n))) = 2048" using q(3) by auto
  show ?thesis
  proof (rule qinvI, goal_cases)
    case 3
    then show ?case using q(3) assms(3) len by (auto simp: queue_recv_def Let_def q(7) dest!: set_update_subset_insert[THEN subsetD])
  next
    case (8 k)
    then show ?case using other[of k] q(8)[of k] by simp
  next
    case (10 i)
    then have h: "0 < R" "i = (R - 1) mod n" "packet_at (qs_q s) i = qs_sent s ! (R - 1)" "qs_used s = take (R - 1) (qs_sent s)" using q(10)[of i] by auto
    moreover have "R - 1 < ?W" using h(1) q(4) by linarith
    ultimately show ?case using other[of "R - 1"] by simp
  next
    case (11 d' a')
    then show ?case using assms(2,3) room w q(2) by (auto simp: queue_recv_def Let_def q(7))
  qed (use q in \<open>simp_all add: queue_recv_def Let_def\<close>)
qed

lemma publish_inv:
  assumes "qinv n s R" "qs_got s = Some (d, a)"
  shows "qinv n (s\<lparr>qs_q := queue_publish (qs_q s) (length d), qs_got := None, qs_sent := qs_sent s @ [(d, a)]\<rparr>) R"
proof -
  note q = qinvD[OF assms(1)]
  note g = q(11)[OF assms(2)]
  let ?W = "length (qs_sent s)" and ?b = "pq_buffer (qs_q s)"
  have w: "?W mod n < n" using q(1) by simp
  have other: "packet_at (queue_publish (qs_q s) (length d)) (k mod n) = packet_at (qs_q s) (k mod n)" if "R - 1 \<le> k" "k < ?W" for k
  proof -
    have "?W - k < n" using g that q(4) by linarith
    then show ?thesis using other_slot[of k ?W n] that(2) by (simp add: queue_publish_def Let_def q(7) packet_at_other)
  qed
  have new: "packet_at (queue_publish (qs_q s) (length d)) (?W mod n) = (d, a)"
    using g w q(2) by (simp add: packet_at_def queue_publish_def Let_def q(7))
  show ?thesis
  proof (rule qinvI, goal_cases)
    case 3
    have "length (pb_pkt (?b ! (?W mod n))) = 2048" using q(2,3) w by simp
    then show ?case using q(3) by (auto simp: queue_publish_def Let_def q(7) dest!: set_update_subset_insert[THEN subsetD])
  next
    case 5
    have "length (qs_sent s @ [(d, a)]) - R < n" using g q(4) by simp linarith
    then show ?case by simp
  next
    case 7
    then show ?case using wrap_mod[OF q(1), of ?W] by (simp add: queue_publish_def Let_def q(2,7))
  next
    case (8 k)
    then show ?case using other[of k] q(8)[of k] new by (cases "k = ?W") (simp_all add: nth_append)
  next
    case 9
    then show ?case using q(4,9) by simp
  next
    case (10 i)
    then have h: "0 < R" "i = (R - 1) mod n" "packet_at (qs_q s) i = qs_sent s ! (R - 1)" "qs_used s = take (R - 1) (qs_sent s)" using q(10)[of i] by auto
    moreover have "R - 1 < ?W" using h(1) q(4) by linarith
    ultimately show ?case using other[of "R - 1"] by (simp add: nth_append)
  qed (use q in \<open>simp_all add: queue_publish_def Let_def\<close>)
qed

lemma waitpkt_inv:
  assumes "qinv n s R" "qs_held s = None" "packetqueue_waitpkt (qs_q s) = Some (i, q)"
  shows "qinv n (s\<lparr>qs_q := q, qs_held := Some i\<rparr>) (Suc R)"
proof -
  note v = qinvD[OF assms(1)]
  have i: "i = R mod n" "q = (qs_q s)\<lparr>pq_rpos := wrap n (R mod n)\<rparr>" "R mod n \<noteq> length (qs_sent s) mod n"
    using assms(3) by (auto simp: packetqueue_waitpkt_def v(2,6,7) split: if_splits)
  have less: "R < length (qs_sent s)" using i(3) v(4) by (cases "R = length (qs_sent s)") auto
  show ?thesis
  proof (rule qinvI, goal_cases)
    case (10 i')
    then show ?case using i v(8)[OF order_refl less] v(9)[OF assms(2)] by simp
  next
    case (11 d a)
    have "length (qs_sent s) - Suc R \<le> length (qs_sent s) - R" by simp
    then have "length (qs_sent s) - R + 2 \<le> n \<Longrightarrow> length (qs_sent s) - Suc R + 2 \<le> n" by linarith
    then show ?case using 11 v(11)[of d a] i(2) less by simp
  qed (use v i less wrap_mod[OF v(1), of R] in simp_all)
qed

lemma process_inv:
  assumes "qinv n s R" "qs_held s = Some i"
  shows "qinv n (s\<lparr>qs_q := queue_done (qs_q s) i, qs_held := None, qs_used := qs_used s @ [packet_at (qs_q s) i]\<rparr>) R"
proof -
  note v = qinvD[OF assms(1)]
  note h = v(10)[OF assms(2)]
  have "take R (qs_sent s) = take (R - 1) (qs_sent s) @ [qs_sent s ! (R - 1)]"
  proof -
    have "R - 1 < length (qs_sent s)" "Suc (R - 1) = R" using h v(4) by auto
    then show ?thesis using take_Suc_conv_app_nth[of "R - 1" "qs_sent s"] by simp
  qed
  moreover have "packet_at (qs_q s) i = qs_sent s ! (R - 1)" using h by blast
  ultimately have u: "qs_used s @ [packet_at (qs_q s) i] = take R (qs_sent s)" using h by simp
  have i: "i = (R - 1) mod n" "0 < R" using h by auto
  have keep: "k mod n \<noteq> i" if "R \<le> k" "k \<le> length (qs_sent s)" "k - (R - 1) < n" for k
  proof -
    have "R - 1 < k" using that(1) i(2) by linarith
    then have "(R - 1) mod n \<noteq> k mod n" using that(3) by (rule other_slot)
    then show ?thesis by (simp add: i(1))
  qed
  show ?thesis
  proof (rule qinvI, goal_cases)
    case 3
    have "i < length (pq_buffer (qs_q s))" using i(1) v(1,2) by simp
    then have "length (pb_pkt (pq_buffer (qs_q s) ! i)) = 2048" using v(3) by simp
    then show ?case using v(3) by (auto simp: queue_done_def Let_def dest!: set_update_subset_insert[THEN subsetD])
  next
    case (8 k)
    then have "k mod n \<noteq> i" using keep[of k] v(5) i(2) by simp
    then show ?case using v(8)[of k] 8 by (simp add: queue_done_def Let_def packet_at_other)
  next
    case 9
    then show ?case using u by simp
  next
    case (11 d a)
    then have "length (qs_sent s) - R + 2 \<le> n" using v(11)[of d a] by simp
    then have "length (qs_sent s) - (R - 1) < n" using v(4) i(2) by linarith
    then have "length (qs_sent s) mod n \<noteq> i" using keep[of "length (qs_sent s)"] v(4) by simp
    then show ?case using v(11)[of d a] 11 by (simp add: queue_done_def Let_def)
  qed (use v in \<open>simp_all add: queue_done_def Let_def\<close>)
qed

lemma step_inv:
  assumes "qstep s s'" "qinv n s R" "qs_got s = None \<and> qs_got s' \<noteq> None \<longrightarrow> room s"
  shows "\<exists>R'. qinv n s' R'"
  using assms
proof cases
  case (recv d a)
  then show ?thesis using recv_inv[OF assms(2)] assms(3) by auto
next
  case (publish d a)
  then show ?thesis using publish_inv[OF assms(2)] by auto
next
  case (waitpkt i q)
  then show ?thesis using waitpkt_inv[OF assms(2)] by auto
next
  case (process i)
  then show ?thesis using process_inv[OF assms(2)] by auto
qed

lemma start_inv: "0 < n \<Longrightarrow> qinv n (queue_start n noaddr) 0"
  by (rule qinvI) (simp_all add: queue_start_def packetqueue_create_def)

text \<open>
  C37: As long as the receiver finds at least two free slots when a packet comes in, the main loop
  processes the packets that were received, unharmed, each once and in order, under every
  interleaving of the two threads.
\<close>

theorem queue_is_fifo:
  assumes "slow_run n noaddr s" "0 < n"
  shows "qs_used s = take (length (qs_used s)) (qs_sent s)"
proof -
  have "\<exists>R. qinv n s R"
    using assms(1)
  proof induction
    case start
    show ?case by (intro exI) (rule start_inv[OF assms(2)])
  next
    case (step s s')
    then show ?case using step_inv by blast
  qed
  then obtain R where r: "qinv n s R" by blast
  note v = qinvD[OF r]
  show ?thesis
  proof (cases "qs_held s")
    case None
    then show ?thesis using v(4) v(9) by simp
  next
    case (Some i)
    then show ?thesis using v(4) v(10)[OF Some] by auto
  qed
qed

text \<open>One packet received and processed in a ring of three slots.\<close>

lemma queue_is_fifo_witness:
  "\<exists>s. slow_run 3 (0 :: nat) s \<and> qs_used s = [([7], 9)] \<and> qs_used s = take (length (qs_used s)) (qs_sent s)"
proof -
  define s0 where "s0 = queue_start 3 (0 :: nat)"
  define s1 where "s1 = s0\<lparr>qs_q := queue_recv (qs_q s0) [7] 9, qs_got := Some ([7], 9)\<rparr>"
  define s2 where "s2 = s1\<lparr>qs_q := queue_publish (qs_q s1) (length [7 :: 8 word]), qs_got := None, qs_sent := qs_sent s1 @ [([7], 9)]\<rparr>"
  define s3 where "s3 = s2\<lparr>qs_q := (qs_q s2)\<lparr>pq_rpos := 1\<rparr>, qs_held := Some 0\<rparr>"
  define s4 where "s4 = s3\<lparr>qs_q := queue_done (qs_q s3) 0, qs_held := None, qs_used := qs_used s3 @ [packet_at (qs_q s3) 0]\<rparr>"
  have r0: "slow_run 3 0 s0" unfolding s0_def by (rule slow_run.start)
  have "qstep s0 s1" unfolding s1_def by (rule qstep.recv) (simp_all add: s0_def queue_start_def)
  moreover have "room s0" by (simp add: s0_def queue_start_def room_def queue_backlog_def packetqueue_create_def)
  ultimately have r1: "slow_run 3 0 s1" using slow_run.step[OF r0] by blast
  have g1: "qs_got s1 = Some ([7], 9)" by (simp add: s1_def)
  have r2: "slow_run 3 0 s2" by (rule slow_run.step[OF r1]) (use qstep.publish[OF g1] in \<open>simp_all add: s2_def g1\<close>)
  have w: "packetqueue_waitpkt (qs_q s2) = Some (0, (qs_q s2)\<lparr>pq_rpos := 1\<rparr>)" "qs_held s2 = None"
    by (simp_all add: s2_def s1_def s0_def packetqueue_waitpkt_def queue_publish_def queue_recv_def queue_start_def packetqueue_create_def wrap_def Let_def)
  have r3: "slow_run 3 0 s3" by (rule slow_run.step[OF r2]) (use qstep.waitpkt[OF w(2,1)] in \<open>simp_all add: s3_def s2_def\<close>)
  have h3: "qs_held s3 = Some 0" by (simp add: s3_def)
  have r4: "slow_run 3 0 s4" by (rule slow_run.step[OF r3]) (use qstep.process[OF h3] in \<open>simp_all add: s4_def s3_def s2_def\<close>)
  have "qs_used s4 = [([7], 9)]"
    by (simp add: s4_def s3_def s2_def s1_def s0_def packet_at_def queue_publish_def queue_recv_def queue_start_def packetqueue_create_def wrap_def Let_def)
  moreover have "qs_used s4 = take (length (qs_used s4)) (qs_sent s4)" using queue_is_fifo[OF r4] by simp
  ultimately show ?thesis using r4 by blast
qed

subsection \<open>Overflow\<close>

definition queue_put :: "'a packetqueue \<Rightarrow> 8 word list \<times> 'a \<Rightarrow> 'a packetqueue" where
  "queue_put q p = queue_publish (queue_recv q (fst p) (snd p)) (length (fst p))"

lemma put_wpos: "pq_wpos (queue_put q p) = wrap (length (pq_buffer q)) (pq_wpos q)" "length (pq_buffer (queue_put q p)) = length (pq_buffer q)"
    "pq_rpos (queue_put q p) = pq_rpos q"
  by (simp_all add: queue_put_def queue_publish_def queue_recv_def Let_def)

lemma puts_wpos:
  "0 < length (pq_buffer q) \<Longrightarrow> pq_wpos q = W mod length (pq_buffer q) \<Longrightarrow>
   pq_wpos (foldl queue_put q ps) = (W + length ps) mod length (pq_buffer q) \<and> pq_rpos (foldl queue_put q ps) = pq_rpos q"
proof (induction ps arbitrary: q W)
  case (Cons p ps)
  then show ?case using wrap_mod[of "length (pq_buffer q)" W] Cons.IH[of "queue_put q p" "Suc W"] by (simp add: put_wpos)
qed simp

text \<open>
  The ring is never checked for being full: when as many packets as it has slots come in while
  the main loop is busy, the write cursor meets the read cursor, the queue looks empty, and all of
  them are lost.
\<close>

theorem full_queue_looks_empty:
  assumes "pq_wpos q = pq_rpos q" "pq_rpos q < length (pq_buffer q)" "length ps = length (pq_buffer q)"
  shows "packetqueue_waitpkt (foldl queue_put q ps) = None"
proof -
  have "0 < length (pq_buffer q)" "pq_wpos q = pq_rpos q mod length (pq_buffer q)" using assms(1,2) by auto
  from puts_wpos[OF this, of ps] show ?thesis using assms by (simp add: packetqueue_waitpkt_def)
qed

lemma full_queue_looks_empty_witness:
  "packetqueue_waitpkt (foldl queue_put (packetqueue_create 2 ()) [([1], ()), ([2], ())]) = None"
  by (rule full_queue_looks_empty) (simp_all add: packetqueue_create_def)

end
