(* ===== verification/Spec2Isabelle.thy ===== *)
theory Spec2Isabelle
  imports PortProps Base64 Ids Crypt CodecSafety Notify Summary WatcherProps CollectorProps ConfProps ApiProps Glob ImportProps JsonCodec Queue
begin

text \<open>
  Opticon is a monitoring system in C. An agent on each host measures it and sends the meters to
  the collector in encrypted UDP packets; the collector keeps the current meters of every host,
  rates them against the tenant's watches, and writes them to a database that an HTTP server and a
  command line client read. This development models the library all of them share
  (\<^verbatim>\<open>src/libopticon\<close>), the collector (\<^verbatim>\<open>src/opticon-collector\<close>) and the way of a request through the
  HTTP server (\<^verbatim>\<open>src/opticon-api\<close>), and proves what their parts promise or how they break it. Paths below are relative to \<^verbatim>\<open>src\<close> of the repository.

  Conventions. \<open>Prelude\<close> has the integer types of \<^verbatim>\<open>stdint.h\<close> as words, \<open>'a res\<close> for operations
  that may end in a memory fault or a failed assertion (\<open>Fault e\<close>) or with a value (\<open>Ok x\<close>), and
  C strings as HOL strings without their NUL. An error the C code handles is an ordinary value: a
  Boolean, an option, a return code. A pointer into a list that only one owner walks is an index
  into it; where aliasing matters (\<open>Dll\<close>, \<open>Notify\<close>, \<open>Store\<close>, \<open>Collector\<close>) there is an explicit
  heap. Operations have the names of the C functions and take the state and return it changed.

  \<^bold>\<open>Values, texts and ports.\<close>
  \<^item> \<open>Ids\<close> (\<^verbatim>\<open>libopticon/util.c\<close>, \<^verbatim>\<open>meter.h\<close>): the 64-bit meter ids that pack a path of up to eleven
    five-bit characters with the type and the array size. Labels survive packing.
  \<^item> \<open>Uuid\<close> (\<^verbatim>\<open>uuid.c\<close>, \<^verbatim>\<open>hash.c\<close>), \<open>Base64\<close> (\<^verbatim>\<open>base64.c\<close>), \<open>Cnum\<close> (number texts of the C library),
    \<open>Double\<close> (the type \<^verbatim>\<open>double\<close> as the rationals it denotes, with the rounding of each operation).
  \<^item> \<open>Ioport\<close> (\<^verbatim>\<open>ioport.c\<close>): the port on which everything is encoded, byte by byte and bit by bit.
    \<open>IoportSpec\<close> states what a provider of \<^verbatim>\<open>read\<close> and \<^verbatim>\<open>write\<close> must promise as the locales
    \<open>out_port\<close> and \<open>in_port\<close> and proves the encodings from that alone; \<open>IoportBuffer\<close> and
    \<open>IoportFile\<close> (\<^verbatim>\<open>ioport_buffer.c\<close>, \<^verbatim>\<open>ioport_file.c\<close>) interpret them; \<open>EncFrac\<close> and \<open>PortProps\<close>
    state the results: what is written is read back, how exact the fractions are, and where the
    shifts of the x86 lose bits.

  \<^bold>\<open>Packets.\<close>
  \<^item> \<open>Aes\<close>, \<open>Crypt\<close> (\<^verbatim>\<open>aes.c\<close>): AES-256 with its tables, and the packet encryption over ports; both
    are inverted by their counterparts (locale \<open>cipher_ports\<close>).
  \<^item> \<open>Pktwrap\<close>, \<open>PktProps\<close> (\<^verbatim>\<open>pktwrap.c\<close>, \<^verbatim>\<open>compress.c\<close>): the two envelopes. zlib is a parameter
    with its documented law. A packet of encrypted length 0 is accepted under every key.
  \<^item> \<open>Queue\<close> (\<^verbatim>\<open>packetqueue.c\<close>): the ring between the receiving thread and the main loop, as a step
    relation of the two threads; it implements a first-in first-out queue while there is room.

  \<^bold>\<open>Hosts and meters.\<close>
  \<^item> \<open>Meter\<close>, \<open>MeterAccess\<close> (\<^verbatim>\<open>meter.c\<close>): one value block with its accessors, whose contract is the
    locale \<open>meter_access\<close>.
  \<^item> \<open>Host\<close> (\<^verbatim>\<open>host.c\<close>): the meters of a host, and the end of an update round, which drops the
    meters that were not renewed.
  \<^item> \<open>CodecPkt\<close> (\<^verbatim>\<open>codec_pkt.c\<close>) with \<open>CodecProps\<close>, \<open>CodecRound\<close> and \<open>CodecSafety\<close>: the packet
    format; a host survives it, the decoder ends on any bytes and keeps the quota, and a packet
    that changes a meter's type writes past its block.
  \<^item> \<open>HostImport\<close>, \<open>ImportProps\<close> (\<^verbatim>\<open>host_import.c\<close>): how the JSON data of a probe becomes meters. The
    setters' contracts are the locales \<open>value_setter\<close> and \<open>value_access\<close>; what a probe reports arrives,
    and a text array with an element that is no text crashes the agent.
  \<^item> \<open>JsonCodec\<close> (\<^verbatim>\<open>codec_json.c\<close>): a host as JSON text; safe when the meters of a path have equal
    counts, and a read past a value block otherwise.
  \<^item> \<open>Glob\<close> (\<^verbatim>\<open>glob.c\<close>, \<^verbatim>\<open>opticon-agent/probelist.c\<close>): the patterns that choose the agent's interfaces;
    a plain pattern matches itself, a star matches nothing.
  \<^item> \<open>Registry\<close> and \<open>Store\<close>: the contracts of lists searched by key, interpreted by tenants,
    meters, sessions and adjustments.

  \<^bold>\<open>Rating.\<close>
  \<^item> \<open>Watch\<close> (\<^verbatim>\<open>watchlist.c\<close>, \<^verbatim>\<open>adjust.c\<close>): the watches and the badness they add.
  \<^item> \<open>Watcher\<close>, \<open>WatcherProps\<close> (\<^verbatim>\<open>opticon-collector/watcher.c\<close>): one round of the watch thread for a
    host, its status and its problem list: what a round computes, that badness stays bounded and
    that it cools down.
  \<^item> \<open>Summary\<close> (\<^verbatim>\<open>summary.c\<close>): the averages, totals and counts of a tenant's round.
  \<^item> \<open>Dll\<close>, \<open>Notify\<close> (\<^verbatim>\<open>notify.c\<close>): doubly linked lists on a heap, refined to lists, and the list of
    pending notifications, whose \<^verbatim>\<open>last\<close> pointer goes stale.

  \<^bold>\<open>Tenants, sessions and the packet path.\<close>
  \<^item> \<open>Tenant\<close> (\<^verbatim>\<open>tenant.c\<close>): the list of tenants with its locks, and the race of two searches.
  \<^item> \<open>Sessions\<close>, \<open>SessionProps\<close> (\<^verbatim>\<open>auth.c\<close>): the hashed session table refined to a finite map, and
    its saving and restoring.
  \<^item> \<open>Collector\<close>, \<open>CollectorProps\<close> (\<^verbatim>\<open>opticon-collector/main.c\<close>): what the packets do to hosts and
    sessions over time.
  \<^item> \<open>CollectorConf\<close>, \<open>ConfProps\<close> (\<^verbatim>\<open>opticon-collector/main.c\<close>): how the metadata of a tenant or a host
    and the configuration become keys, watch lists, summaries, adjustments and graphs; the watch
    list is the one a plain reading of the rules gives.

  \<^bold>\<open>Variables and configuration.\<close>
  \<^item> \<open>Var\<close> (\<^verbatim>\<open>var.c\<close>): the tree of typed nodes. A function gets a node and the headers of its
    ancestors, innermost first, because changes mark them. \<open>VarProps\<close> has the invariant, the JSON
    value of a tree, and the operations as operations on JSON values; \<open>VarLaws\<close> the searches,
    setting by name, deletion and sorting.
  \<^item> \<open>VarParse\<close> (\<^verbatim>\<open>var_parse.c\<close>, \<^verbatim>\<open>var_dump.c\<close>): the parser as the state machine it is, and the
    writer. \<open>VarText\<close>: the parser ends on every text. \<open>VarRound\<close>: what is written is read back.
    \<open>VarTyped\<close>: what an arbitrary text can do to a tree.
  \<^item> \<open>React\<close> (\<^verbatim>\<open>react.c\<close>): the reactions to a configuration.

  \<^bold>\<open>The API server.\<close>
  \<^item> \<open>TokenCache\<close> (\<^verbatim>\<open>opticon-api/tokencache.c\<close>, \<^verbatim>\<open>authsession.c\<close>): the cache of external tokens and the
    sessions of the server's own users.
  \<^item> \<open>ApiRoute\<close>, \<open>ApiProps\<close> (\<^verbatim>\<open>req_context.c\<close>, \<^verbatim>\<open>main.c\<close>): the request context, the matching of URLs, the
    routes with their filters and the dispatch, whose result includes the handlers called and what
    they were given: who may do what, and how a request without a token crashes the server.

  \<^bold>\<open>Fuel.\<close> Where a loop of the code has no bound in its data, the definition takes fuel and a
  theorem says how much is enough: the packet decoder needs more than the bytes left in the port
  (\<open>decode_terminates\<close>), the parser twice the length of the text plus two over all levels of its
  recursion (\<open>parse_total\<close>), the encryption loops one per block and one more. All other
  functions recurse on their data.

  \<^bold>\<open>Not modelled.\<close> Threads, sockets, processes, logging and the clock are the operating system's
  (\<^verbatim>\<open>thread.c\<close>, \<^verbatim>\<open>transport*.c\<close>, \<^verbatim>\<open>daemon.c\<close>, \<^verbatim>\<open>popen.c\<close>, \<^verbatim>\<open>log.c\<close>, \<^verbatim>\<open>timer.c\<close>, \<^verbatim>\<open>ping.c\<close>): time and
  randomness are arguments, and the interleaving of threads is a step relation where a property
  depends on it. zlib and the C library are parameters or modelled by their documented behaviour.
  The agent's probes read system files; the handlers of the HTTP server and the command line client
  render what the library computes; the dispatch takes the handlers as a parameter. The database under \<^verbatim>\<open>libopticondb\<close> is file I/O on fixed-size records.
\<close>

end
